(* ===== verification/Prelude.thy ===== *)
theory Prelude
  imports Complex_Main "HOL-Library.Sublist" "HOL-Library.Code_Target_Nat" "HOL-Library.Code_Target_Int"
begin

text \<open>
  Shared vocabulary of the development: results of fallible Go functions, the collections of
  simplification facts the component theories extend, and generic lemmas on lists, sums and
  options that several components use.

  A Go function that returns \<open>(T, error)\<close> is a function into \<open>string + 'a\<close>: \<open>Inl e\<close> is a non-nil
  error with its text, \<open>Inr v\<close> a nil error with the value. A Go pointer that may be nil is an
  \<open>option\<close>. Integers that the code only counts with are \<open>nat\<close>, signed ones \<open>int\<close>; a
  \<open>float64\<close> is an exact rational (the places where that matters say so).
\<close>

section \<open>Results\<close>

type_synonym 'a result = "string + 'a"

definition wrapErr :: "string \<Rightarrow> 'a result \<Rightarrow> 'a result" where
  "wrapErr msg r = (case r of Inl e \<Rightarrow> Inl (msg @ e) | Inr v \<Rightarrow> Inr v)"

lemma wrapErr_simps [simp]:
  "wrapErr msg (Inl e) = Inl (msg @ e)"
  "wrapErr msg (Inr v) = Inr v"
  by (simp_all add: wrapErr_def)

lemma wrapErr_Inr_iff [simp]: "wrapErr msg r = Inr v \<longleftrightarrow> r = Inr v"
  by (cases r) simp_all

text \<open>A Go call that may panic: an index or a slice out of range, a nil dereference.\<close>

datatype 'a go = Panic | Ret 'a

section \<open>Collections of facts\<close>

named_theorems table_simps \<open>how the statements of the store act on rows\<close>
named_theorems frame_simps \<open>what an operation leaves unchanged\<close>
named_theorems keeps \<open>an operation keeps an invariant\<close>

section \<open>Lists\<close>

lemma find_Some_iff_mem: "List.find P xs = Some x \<Longrightarrow> x \<in> set xs \<and> P x"
  by (induction xs) (auto split: if_splits)

lemma find_None_iff_all: "List.find P xs = None \<longleftrightarrow> (\<forall>x \<in> set xs. \<not> P x)"
  by (auto simp: find_None_iff)

lemma distinct_map_eqD:
  "distinct (map f xs) \<Longrightarrow> x \<in> set xs \<Longrightarrow> y \<in> set xs \<Longrightarrow> f x = f y \<Longrightarrow> x = y"
  by (auto simp: distinct_map dest: inj_onD)

lemma find_unique:
  assumes "distinct (map f xs)" "x \<in> set xs" "P x" "\<And>y. P y \<Longrightarrow> f y = f x"
  shows "List.find P xs = Some x"
  using assms
proof (induction xs)
  case (Cons y ys)
  show ?case
  proof (cases "P y")
    case True
    with Cons.prems have "f y = f x" by blast
    with Cons.prems(1,2) have "y = x" by (auto dest: distinct_map_eqD)
    with True show ?thesis by simp
  next
    case False
    with Cons.prems have "x \<in> set ys" by auto
    moreover have "distinct (map f ys)" using Cons.prems(1) by simp
    ultimately have "List.find P ys = Some x" using Cons.IH Cons.prems(3,4) by blast
    with False show ?thesis by simp
  qed
qed simp

lemma find_append_none: "(\<And>x. x \<in> set xs \<Longrightarrow> \<not> P x) \<Longrightarrow> List.find P (xs @ ys) = List.find P ys"
  by (induction xs) auto

lemma find_map_upt:
  assumes "\<And>j. j < n \<Longrightarrow> P (g j) \<longleftrightarrow> j = k"
  shows "List.find P (map g [0..<n]) = (if k < n then Some (g k) else None)"
proof (cases "k < n")
  case True
  then have "[0..<n] = [0..<k] @ k # [Suc k..<n]" by (metis upt_add_eq_append upt_conv_Cons le_add1 le_add_same_cancel1 less_imp_add_positive zero_le)
  moreover have "\<not> P x" if "x \<in> set (map g [0..<k])" for x using that assms True by auto
  ultimately show ?thesis using True assms [of k] find_append_none [of "map g [0..<k]" P] by simp
next
  case False
  then have "\<forall>x \<in> set (map g [0..<n]). \<not> P x" using assms by auto
  then have "List.find P (map g [0..<n]) = None" unfolding find_None_iff_all .
  with False show ?thesis by simp
qed

lemma length_filter_map_le:
  assumes "\<And>x. P (f x) \<Longrightarrow> P x"
  shows "length (filter P (map f xs)) \<le> length (filter P xs)"
  using assms by (induction xs) auto

lemma take_length_prefix: "prefix p s \<longleftrightarrow> take (length p) s = p"
  by (metis append_eq_conv_conj prefix_def append_take_drop_id)

section \<open>Reachability\<close>

text \<open>
  States reachable by labelled steps, and the rule that turns "the start satisfies it and every
  step keeps it" into "every reachable state satisfies it".
\<close>

inductive reach :: "('s \<Rightarrow> bool) \<Rightarrow> ('s \<Rightarrow> 'l \<Rightarrow> 's \<Rightarrow> bool) \<Rightarrow> 's \<Rightarrow> bool"
  for start :: "'s \<Rightarrow> bool" and step :: "'s \<Rightarrow> 'l \<Rightarrow> 's \<Rightarrow> bool" where
  reach_start: "start s \<Longrightarrow> reach start step s"
| reach_step: "reach start step s \<Longrightarrow> step s l s' \<Longrightarrow> reach start step s'"

locale invariant_machine =
  fixes start :: "'s \<Rightarrow> bool"
    and step :: "'s \<Rightarrow> 'l \<Rightarrow> 's \<Rightarrow> bool"
    and inv :: "'s \<Rightarrow> bool"
  assumes inv_start: "start s \<Longrightarrow> inv s"
    and inv_step: "inv s \<Longrightarrow> step s l s' \<Longrightarrow> inv s'"
begin

lemma inv_reachable: "reach start step s \<Longrightarrow> inv s"
  by (induction rule: reach.induct) (auto intro: inv_start inv_step)

end

end
