(* ===== verification/GoStrings.thy ===== *)
theory GoStrings
  imports Prelude
begin

text \<open>
  The functions of Go's \<open>strings\<close>, \<open>net/url\<close> and \<open>path/filepath\<close> packages that the program
  uses, on Go strings. A Go string is a sequence of bytes, so it is a HOL \<open>string\<close> (a list of
  8-bit characters) and \<open>len(s)\<close> is \<open>length s\<close>. \<open>strings.Index\<close> returns an \<open>option\<close> here:
  \<open>None\<close> is the \<open>-1\<close> of Go.
\<close>

section \<open>Searching\<close>

fun Index :: "string \<Rightarrow> string \<Rightarrow> nat option" where
  "Index [] sub = (if sub = [] then Some 0 else None)"
| "Index (c # cs) sub = (if prefix sub (c # cs) then Some 0 else map_option Suc (Index cs sub))"

definition Contains :: "string \<Rightarrow> string \<Rightarrow> bool" where
  "Contains s sub \<longleftrightarrow> Index s sub \<noteq> None"

definition HasPrefix :: "string \<Rightarrow> string \<Rightarrow> bool" where
  "HasPrefix s p \<longleftrightarrow> prefix p s"

definition HasSuffix :: "string \<Rightarrow> string \<Rightarrow> bool" where
  "HasSuffix s p \<longleftrightarrow> suffix p s"

text \<open>\<open>strings.LastIndex\<close> for a one-byte needle, the only use in the program.\<close>

fun LastIndexByte :: "string \<Rightarrow> char \<Rightarrow> nat option" where
  "LastIndexByte [] c = None"
| "LastIndexByte (x # xs) c =
     (case LastIndexByte xs c of Some n \<Rightarrow> Some (Suc n) | None \<Rightarrow> if x = c then Some 0 else None)"

lemma Index_SomeD: "Index s sub = Some n \<Longrightarrow> n \<le> length s \<and> prefix sub (drop n s)"
  by (induction s arbitrary: n) (auto split: if_splits)

lemma Index_Some_minimal: "Index s sub = Some n \<Longrightarrow> m < n \<Longrightarrow> \<not> prefix sub (drop m s)"
proof (induction s arbitrary: n m)
  case (Cons c cs)
  then show ?case by (cases m) (auto split: if_splits)
qed (auto split: if_splits)

lemma Index_NoneD: "Index s sub = None \<Longrightarrow> \<not> prefix sub (drop m s)"
proof (induction s arbitrary: m)
  case (Cons c cs)
  then show ?case by (cases m) (auto split: if_splits)
qed (auto split: if_splits)

lemma Index_Some_bounds: "Index s sub = Some n \<Longrightarrow> n + length sub \<le> length s"
  by (drule Index_SomeD) (auto dest: prefix_length_le)

lemma Index_Some_slice: "Index s sub = Some n \<Longrightarrow> take (length sub) (drop n s) = sub"
  by (drule Index_SomeD) (auto simp: take_length_prefix)

lemma Contains_iff: "Contains s sub \<longleftrightarrow> (\<exists>u v. s = u @ sub @ v)"
proof
  assume "Contains s sub"
  then obtain n where "Index s sub = Some n" by (auto simp: Contains_def)
  then have "prefix sub (drop n s)" by (simp add: Index_SomeD)
  then obtain v where "drop n s = sub @ v" by (auto simp: prefix_def)
  then have "s = take n s @ sub @ v" by (metis append_take_drop_id)
  then show "\<exists>u v. s = u @ sub @ v" by blast
next
  assume "\<exists>u v. s = u @ sub @ v"
  then obtain u v where "s = u @ sub @ v" by blast
  then have "prefix sub (drop (length u) s)" by simp
  then show "Contains s sub" unfolding Contains_def using Index_NoneD by blast
qed

lemma Contains_char [simp]: "Contains s [c] \<longleftrightarrow> c \<in> set s"
  by (auto simp: Contains_iff dest: split_list)

section \<open>Splitting and joining\<close>

text \<open>\<open>strings.Split\<close> with a one-byte separator: never empty, \<open>Split("", sep) = [""]\<close>.\<close>

fun Split :: "string \<Rightarrow> char \<Rightarrow> string list" where
  "Split [] sep = [[]]"
| "Split (c # cs) sep =
     (if c = sep then [] # Split cs sep
      else case Split cs sep of [] \<Rightarrow> [[c]] | w # ws \<Rightarrow> (c # w) # ws)"

fun Join :: "string list \<Rightarrow> string \<Rightarrow> string" where
  "Join [] sep = []"
| "Join [w] sep = w"
| "Join (w # ws) sep = w @ sep @ Join ws sep"

lemma Split_not_Nil [simp]: "Split s sep \<noteq> []"
  by (cases s) (auto split: list.splits)

lemma Join_Cons: "ws \<noteq> [] \<Longrightarrow> Join (w # ws) sep = w @ sep @ Join ws sep"
  by (cases ws) auto

lemma Join_Split [simp]: "Join (Split s sep) [sep] = s"
proof (induction s)
  case (Cons c cs)
  show ?case
  proof (cases "c = sep")
    case True
    then show ?thesis using Cons by (simp add: Join_Cons)
  next
    case False
    obtain w ws where "Split cs sep = w # ws" by (cases "Split cs sep") simp_all
    then show ?thesis using False Cons by (cases ws) simp_all
  qed
qed simp

lemma Split_no_sep: "w \<in> set (Split s sep) \<Longrightarrow> sep \<notin> set w"
  by (induction s arbitrary: w) (auto split: list.splits if_splits)

lemma Split_append_sep: "Split (u @ sep # v) sep = Split u sep @ Split v sep"
  by (induction u) (auto split: list.splits)

lemma Split_no_sep_single: "sep \<notin> set w \<Longrightarrow> Split w sep = [w]"
  by (induction w) auto

lemma Split_Join:
  assumes "ws \<noteq> []" "\<And>w. w \<in> set ws \<Longrightarrow> sep \<notin> set w"
  shows "Split (Join ws [sep]) sep = ws"
  using assms
proof (induction ws)
  case (Cons w ws)
  show ?case
  proof (cases "ws = []")
    case True
    then show ?thesis using Cons.prems by (simp add: Split_no_sep_single)
  next
    case False
    then have "Split (Join ws [sep]) sep = ws" using Cons by simp
    moreover have "Split w sep = [w]" using Cons.prems by (simp add: Split_no_sep_single)
    ultimately show ?thesis using False by (simp add: Join_Cons Split_append_sep)
  qed
qed simp

text \<open>\<open>strings.ReplaceAll\<close> with one-byte arguments.\<close>

definition ReplaceByte :: "string \<Rightarrow> char \<Rightarrow> char \<Rightarrow> string" where
  "ReplaceByte s old new = map (\<lambda>c. if c = old then new else c) s"

section \<open>Trimming\<close>

text \<open>
  The white space of \<open>strings.TrimSpace\<close> is Unicode's: the ASCII bytes and the UTF-8
  encodings of U+0085, U+00A0, U+1680, U+2000..U+200A, U+2028, U+2029, U+202F, U+205F, U+3000.
\<close>

definition asciiSpace :: "char list" where
  "asciiSpace = [CHR 0x09, CHR 0x0A, CHR 0x0B, CHR 0x0C, CHR 0x0D, CHR 0x20]"

definition unicodeSpace :: "string list" where
  "unicodeSpace =
     map (\<lambda>c. [c]) asciiSpace
     @ [[CHR 0xC2, CHR 0x85], [CHR 0xC2, CHR 0xA0], [CHR 0xE1, CHR 0x9A, CHR 0x80]]
     @ map (\<lambda>c. [CHR 0xE2, CHR 0x80, c])
         [CHR 0x80, CHR 0x81, CHR 0x82, CHR 0x83, CHR 0x84, CHR 0x85, CHR 0x86, CHR 0x87,
          CHR 0x88, CHR 0x89, CHR 0x8A, CHR 0xA8, CHR 0xA9, CHR 0xAF]
     @ [[CHR 0xE2, CHR 0x81, CHR 0x9F], [CHR 0xE3, CHR 0x80, CHR 0x80]]"

lemma unicodeSpace_nonempty: "w \<in> set unicodeSpace \<Longrightarrow> w \<noteq> []"
  by (auto simp: unicodeSpace_def)

function TrimLeftSpace :: "string \<Rightarrow> string" where
  "TrimLeftSpace s =
     (case List.find (\<lambda>w. prefix w s) unicodeSpace of
        None \<Rightarrow> s
      | Some w \<Rightarrow> TrimLeftSpace (drop (length w) s))"
  by pat_completeness auto
termination
proof (relation "measure length")
  fix s w assume a: "List.find (\<lambda>w. prefix w s) unicodeSpace = Some w"
  then have "w \<in> set unicodeSpace" "prefix w s" by (auto dest: find_Some_iff_mem)
  then have "w \<noteq> []" "length w \<le> length s" by (auto dest: unicodeSpace_nonempty prefix_length_le)
  then have "0 < length w" "length w \<le> length s" by auto
  then have "length s - length w < length s" by linarith
  then show "(drop (length w) s, s) \<in> measure length" by simp
qed simp

function TrimRightSpace :: "string \<Rightarrow> string" where
  "TrimRightSpace s =
     (case List.find (\<lambda>w. suffix w s) unicodeSpace of
        None \<Rightarrow> s
      | Some w \<Rightarrow> TrimRightSpace (take (length s - length w) s))"
  by pat_completeness auto
termination
proof (relation "measure length")
  fix s w assume a: "List.find (\<lambda>w. suffix w s) unicodeSpace = Some w"
  then have "w \<in> set unicodeSpace" "suffix w s" by (auto dest: find_Some_iff_mem)
  then have "w \<noteq> []" "length w \<le> length s" by (auto dest: unicodeSpace_nonempty suffix_length_le)
  then have "0 < length w" "length w \<le> length s" by auto
  then have "length s - length w < length s" by linarith
  then show "(take (length s - length w) s, s) \<in> measure length" by simp
qed simp

declare TrimLeftSpace.simps [simp del] TrimRightSpace.simps [simp del]

definition TrimSpace :: "string \<Rightarrow> string" where
  "TrimSpace s = TrimRightSpace (TrimLeftSpace s)"

lemma TrimLeftSpace_id: "(\<And>w. w \<in> set unicodeSpace \<Longrightarrow> \<not> prefix w s) \<Longrightarrow> TrimLeftSpace s = s"
  by (subst TrimLeftSpace.simps) (auto split: option.splits dest: find_Some_iff_mem)

lemma TrimRightSpace_id: "(\<And>w. w \<in> set unicodeSpace \<Longrightarrow> \<not> suffix w s) \<Longrightarrow> TrimRightSpace s = s"
  by (subst TrimRightSpace.simps) (auto split: option.splits dest: find_Some_iff_mem)

text \<open>A text that starts and ends with a byte that begins or ends no white space is left alone.\<close>

lemma TrimSpace_id:
  assumes "c \<notin> hd ` set unicodeSpace" "d \<notin> last ` set unicodeSpace" "hd s = c" "last s = d" "s \<noteq> []"
  shows "TrimSpace s = s"
proof -
  have "\<not> prefix w s" if "w \<in> set unicodeSpace" for w
    using that assms unicodeSpace_nonempty [OF that] by (auto simp: prefix_def)
  moreover have "\<not> suffix w s" if "w \<in> set unicodeSpace" for w
    using that assms unicodeSpace_nonempty [OF that] by (auto simp: suffix_def)
  ultimately show ?thesis by (simp add: TrimSpace_def TrimLeftSpace_id TrimRightSpace_id)
qed

text \<open>\<open>strings.TrimRight(s, cutset)\<close> for an ASCII cutset.\<close>

definition TrimRight :: "string \<Rightarrow> char list \<Rightarrow> string" where
  "TrimRight s cutset = rev (dropWhile (\<lambda>c. c \<in> set cutset) (rev s))"

lemma TrimRight_prefix: "prefix (TrimRight s cs) s"
proof -
  have "suffix (dropWhile (\<lambda>c. c \<in> set cs) (rev s)) (rev s)" by (rule suffix_dropWhile)
  then show ?thesis by (simp add: TrimRight_def suffix_to_prefix)
qed

lemma length_TrimRight_le: "length (TrimRight s cs) \<le> length s"
  using TrimRight_prefix by (rule prefix_length_le)

lemma TrimRight_idem [simp]: "TrimRight (TrimRight s cs) cs = TrimRight s cs"
  by (simp add: TrimRight_def)

section \<open>Case\<close>

text \<open>
  \<open>strings.ToLower\<close> maps ASCII strings byte by byte; other strings go through the Unicode
  tables, which are the parameter \<open>ul\<close>.
\<close>

definition asciiLower :: "char \<Rightarrow> char" where
  "asciiLower c = (if 65 \<le> (of_char c :: nat) \<and> (of_char c :: nat) \<le> 90 then char_of ((of_char c :: nat) + 32) else c)"

definition ToLower :: "(string \<Rightarrow> string) \<Rightarrow> string \<Rightarrow> string" where
  "ToLower ul s = (if \<forall>c \<in> set s. (of_char c :: nat) < 128 then map asciiLower s else ul s)"

section \<open>Decimal\<close>

text \<open>\<open>%d\<close> and \<open>strconv.Itoa\<close> of a number that is not negative.\<close>

fun Itoa :: "nat \<Rightarrow> string" where
  "Itoa n = (if n < 10 then [char_of (48 + n)] else Itoa (n div 10) @ [char_of (48 + n mod 10)])"

declare Itoa.simps [simp del]

section \<open>\<open>url.QueryUnescape\<close>\<close>

definition hexVal :: "char \<Rightarrow> nat option" where
  "hexVal c =
     (let n = (of_char c :: nat) in
      if 48 \<le> n \<and> n \<le> 57 then Some (n - 48)
      else if 97 \<le> n \<and> n \<le> 102 then Some (n - 87)
      else if 65 \<le> n \<and> n \<le> 70 then Some (n - 55)
      else None)"

fun QueryUnescape :: "string \<Rightarrow> string option" where
  "QueryUnescape [] = Some []"
| "QueryUnescape (c # cs) =
     (if c = CHR ''%'' then
        (case cs of
           a # b # rest \<Rightarrow>
             (case (hexVal a, hexVal b) of
                (Some x, Some y) \<Rightarrow> map_option ((#) (char_of (16 * x + y))) (QueryUnescape rest)
              | _ \<Rightarrow> None)
         | _ \<Rightarrow> None)
      else if c = CHR ''+'' then map_option ((#) (CHR '' '')) (QueryUnescape cs)
      else map_option ((#) c) (QueryUnescape cs))"

section \<open>\<open>filepath.Clean\<close> and \<open>filepath.Join\<close>\<close>

text \<open>
  Lexical cleaning as the package documents it: drop empty and \<open>.\<close> elements, let \<open>..\<close> cancel
  the element before it, drop leading \<open>..\<close> of a rooted path; the empty path is \<open>.\<close>.
  The kept elements are accumulated in reverse.
\<close>

fun cleanSegs :: "bool \<Rightarrow> string list \<Rightarrow> string list \<Rightarrow> string list" where
  "cleanSegs rooted acc [] = rev acc"
| "cleanSegs rooted acc (w # ws) =
     (if w = '''' \<or> w = ''.'' then cleanSegs rooted acc ws
      else if w = ''..'' then
        (case acc of
           [] \<Rightarrow> cleanSegs rooted (if rooted then [] else [''..'']) ws
         | a # as \<Rightarrow> if a = ''..'' then cleanSegs rooted (''..'' # acc) ws
                     else cleanSegs rooted as ws)
      else cleanSegs rooted (w # acc) ws)"

definition Clean :: "string \<Rightarrow> string" where
  "Clean p =
     (let rooted = HasPrefix p ''/'';
          s = (if rooted then ''/'' else '''') @ Join (cleanSegs rooted [] (Split p (CHR ''/''))) ''/''
      in if s = '''' then ''.'' else s)"

text \<open>\<open>filepath.Dir\<close>: what is before the last slash, cleaned.\<close>

definition Dir :: "string \<Rightarrow> string" where
  "Dir p = Clean (case LastIndexByte p (CHR ''/'') of None \<Rightarrow> '''' | Some i \<Rightarrow> take (i + 1) p)"

definition JoinPath :: "string \<Rightarrow> string \<Rightarrow> string" where
  "JoinPath d p =
     (if d = '''' \<and> p = '''' then ''''
      else Clean (if d = '''' then p else if p = '''' then d else d @ ''/'' @ p))"

end
