(* ===== verification/Paths.thy ===== *)
theory Paths
  imports GoStrings
begin

text \<open>
  The path guards of the program: \<open>hasPathTraversal\<close> of the lock service
  (\<open>bot/delegation/locks.go\<close>), \<open>hasPathTraversal\<close> of the edit parser
  (\<open>bot/orchestrator/engine/parser.go\<close>) and \<open>rejectUnsafePath\<close> of the edit applier
  (\<open>bot/orchestrator/engine/apply.go\<close>), with the fact the applier relies on: a path that
  passes the guard, joined to the repository directory, stays inside it.
\<close>

section \<open>The guards\<close>

definition hasPathTraversal_locks :: "string \<Rightarrow> bool" where
  "hasPathTraversal_locks path =
     (let normalized = ReplaceByte path (CHR 0x5C) (CHR ''/'') in
      if Contains normalized [CHR 0x00] then True
      else if HasPrefix normalized ''/'' then True
      else if HasPrefix normalized ''../'' \<or> Contains normalized ''/../'' then True
      else list_ex (\<lambda>s. s = ''..'') (Split normalized (CHR ''/'')))"

definition hasPathTraversal :: "string \<Rightarrow> bool" where
  "hasPathTraversal filePath =
     (let decoded = (case QueryUnescape filePath of None \<Rightarrow> filePath | Some d \<Rightarrow> d);
          normalized = ReplaceByte decoded (CHR 0x5C) (CHR ''/'') in
      if Contains normalized [CHR 0x00] then True
      else if HasPrefix normalized ''/'' then True
      else if HasPrefix normalized ''../'' \<or> Contains normalized ''/../'' then True
      else list_ex (\<lambda>s. s = ''..'') (Split normalized (CHR ''/'')))"

text \<open>The class of \<open>safePathPattern\<close>, \<open>[a-zA-Z0-9_.\-/]\<close>.\<close>

definition safePathChar :: "char \<Rightarrow> bool" where
  "safePathChar c =
     (let n = (of_char c :: nat) in
      (97 \<le> n \<and> n \<le> 122) \<or> (65 \<le> n \<and> n \<le> 90) \<or> (48 \<le> n \<and> n \<le> 57)
      \<or> c = CHR ''_'' \<or> c = CHR ''.'' \<or> c = CHR ''-'' \<or> c = CHR ''/'')"

definition rejectUnsafePath :: "string \<Rightarrow> string option" where
  "rejectUnsafePath filePath =
     (if Contains filePath ''..'' \<or> HasPrefix filePath ''/''
      then Some (''unsafe file path rejected: '' @ filePath)
      else if filePath = '''' \<or> \<not> list_all safePathChar filePath
      then Some (''invalid characters in file path: '' @ filePath)
      else None)"

section \<open>What the guards accept\<close>

text \<open>The abstract specification: a relative path with no NUL and no \<open>..\<close> element.\<close>

definition relative_below :: "string \<Rightarrow> bool" where
  "relative_below p \<longleftrightarrow>
     CHR 0x00 \<notin> set p \<and> \<not> prefix ''/'' p \<and> ''..'' \<notin> set (Split p (CHR ''/''))"

lemma dotdot_prefix_segment: "prefix ''../'' n \<Longrightarrow> ''..'' \<in> set (Split n (CHR ''/''))"
proof -
  assume "prefix ''../'' n"
  then obtain r where "n = ''..'' @ CHR ''/'' # r" by (auto simp: prefix_def)
  then show ?thesis by (simp only: Split_append_sep) (simp add: Split_no_sep_single)
qed

lemma dotdot_infix_segment: "Contains n ''/../'' \<Longrightarrow> ''..'' \<in> set (Split n (CHR ''/''))"
proof -
  assume "Contains n ''/../''"
  then obtain u v where "n = u @ CHR ''/'' # (''..'' @ CHR ''/'' # v)" by (auto simp: Contains_iff)
  then have "Split n (CHR ''/'') = Split u (CHR ''/'') @ Split ''..'' (CHR ''/'') @ Split v (CHR ''/'')"
    by (simp only: Split_append_sep)
  then show ?thesis by (simp add: Split_no_sep_single)
qed

lemma segment_infix: "w \<in> set (Split s sep) \<Longrightarrow> \<exists>u v. s = u @ w @ v"
proof (induction s arbitrary: w)
  case (Cons c cs)
  show ?case
  proof (cases "c = sep \<and> w \<noteq> [] \<or> w \<in> set (tl (Split cs sep))")
    case True
    then have "w \<in> set (Split cs sep)" using Cons.prems
      by (cases "Split cs sep") (auto split: if_splits)
    then obtain u v where "cs = u @ w @ v" using Cons.IH by blast
    then have "c # cs = (c # u) @ w @ v" by simp
    then show ?thesis by blast
  next
    case False
    obtain x xs where x: "Split cs sep = x # xs" by (cases "Split cs sep") simp_all
    have *: "\<exists>r. cs = x @ r"
    proof (cases xs)
      case Nil
      then show ?thesis using x Join_Split [of cs sep] by (metis Join.simps(2) append_Nil2)
    next
      case (Cons y ys)
      then show ?thesis using x Join_Split [of cs sep] by (metis Join.simps(3))
    qed
    show ?thesis
    proof (cases "w = []")
      case True
      then show ?thesis by (intro exI [of _ "[]"] exI [of _ "c # cs"]) simp
    next
      case nonempty: False
      then have "c \<noteq> sep" "w = c # x" using False Cons.prems x by auto
      with * show ?thesis by (metis append_Cons append_Nil)
    qed
  qed
qed simp

lemma hasPathTraversal_locks_iff:
  "\<not> hasPathTraversal_locks p \<longleftrightarrow> relative_below (ReplaceByte p (CHR 0x5C) (CHR ''/''))"
  using dotdot_prefix_segment dotdot_infix_segment
  by (auto simp: hasPathTraversal_locks_def relative_below_def Let_def HasPrefix_def list_ex_iff)

lemma hasPathTraversal_decoded:
  "hasPathTraversal p = hasPathTraversal_locks (case QueryUnescape p of None \<Rightarrow> p | Some d \<Rightarrow> d)"
  by (simp add: hasPathTraversal_def hasPathTraversal_locks_def)

lemma safePathChar_not_NUL: "safePathChar c \<Longrightarrow> c \<noteq> CHR 0x00"
  by (auto simp: safePathChar_def)

lemma rejectUnsafePath_accepts: "rejectUnsafePath p = None \<Longrightarrow> relative_below p \<and> p \<noteq> ''''"
proof -
  assume a: "rejectUnsafePath p = None"
  then have c: "\<not> Contains p ''..''" and h: "\<not> prefix ''/'' p" and l: "list_all safePathChar p" "p \<noteq> ''''"
    by (auto simp: rejectUnsafePath_def HasPrefix_def split: if_splits)
  from c have "''..'' \<notin> set (Split p (CHR ''/''))"
    using segment_infix [of "''..''" p "CHR ''/''"] by (auto simp: Contains_iff)
  with h l show ?thesis
    by (auto simp: relative_below_def list_all_iff dest: safePathChar_not_NUL)
qed

section \<open>Containment of the joined path\<close>

text \<open>The elements of a cleaned path.\<close>

definition cleanElems :: "string \<Rightarrow> string list" where
  "cleanElems p = cleanSegs (HasPrefix p ''/'') [] (Split p (CHR ''/''))"

lemma cleanSegs_append: "cleanSegs r acc (xs @ ys) = cleanSegs r (rev (cleanSegs r acc xs)) ys"
  by (induction r acc xs rule: cleanSegs.induct) (auto split: list.splits)

lemma cleanSegs_no_dotdot:
  "''..'' \<notin> set ws \<Longrightarrow> cleanSegs r acc ws = rev acc @ filter (\<lambda>w. w \<noteq> '''' \<and> w \<noteq> ''.'') ws"
  by (induction ws arbitrary: acc) auto

lemma cleanElems_join:
  assumes "relative_below p"
  shows "cleanElems (d @ ''/'' @ p) =
     cleanSegs (HasPrefix (d @ ''/'') ''/'') [] (Split d (CHR ''/''))
       @ filter (\<lambda>w. w \<noteq> '''' \<and> w \<noteq> ''.'') (Split p (CHR ''/''))"
proof -
  have r: "HasPrefix (d @ ''/'' @ p) ''/'' = HasPrefix (d @ ''/'') ''/''"
    by (cases d) (auto simp: HasPrefix_def)
  have s: "Split (d @ ''/'' @ p) (CHR ''/'') = Split d (CHR ''/'') @ Split p (CHR ''/'')"
    by (simp add: Split_append_sep)
  from assms have "''..'' \<notin> set (Split p (CHR ''/''))" by (simp add: relative_below_def)
  then show ?thesis unfolding cleanElems_def r s by (simp add: cleanSegs_append cleanSegs_no_dotdot)
qed

lemma Clean_elems: "Clean p =
   (let s = (if HasPrefix p ''/'' then ''/'' else '''') @ Join (cleanElems p) ''/''
    in if s = '''' then ''.'' else s)"
  by (simp add: Clean_def cleanElems_def Let_def)

lemma Join_append: "xs \<noteq> [] \<Longrightarrow> ys \<noteq> [] \<Longrightarrow> Join (xs @ ys) sep = Join xs sep @ sep @ Join ys sep"
proof (induction xs)
  case (Cons x xs)
  then show ?case by (cases "xs = []") (simp_all add: Join_Cons)
qed simp

lemma JoinPath_below:
  assumes "relative_below p" "p \<noteq> ''''" "HasPrefix d ''/''" "Clean d \<noteq> ''/''"
  shows "JoinPath d p = Clean d \<or> prefix (Clean d @ ''/'') (JoinPath d p)"
proof -
  define ks where "ks = filter (\<lambda>w. w \<noteq> '''' \<and> w \<noteq> ''.'') (Split p (CHR ''/''))"
  have d: "d \<noteq> ''''" "HasPrefix (d @ ''/'') ''/''" "HasPrefix (d @ ''/'' @ p) ''/''"
    using assms(3) by (auto simp: HasPrefix_def prefix_def)
  have e: "cleanElems (d @ ''/'' @ p) = cleanElems d @ ks"
    using cleanElems_join [OF assms(1), of d] d(2) assms(3) by (simp add: ks_def cleanElems_def)
  have c: "Clean d = ''/'' @ Join (cleanElems d) ''/''"
    using assms(3) by (simp add: Clean_elems)
  have j: "JoinPath d p = ''/'' @ Join (cleanElems d @ ks) ''/''"
    using d assms(2) e by (simp add: JoinPath_def Clean_elems)
  show ?thesis
  proof (cases "ks = []")
    case True
    then show ?thesis using c j by simp
  next
    case False
    moreover have "cleanElems d \<noteq> []" using assms(4) c by auto
    ultimately show ?thesis using c j by (simp add: Join_append)
  qed
qed

end
