(* ===== verification/EngineParser.thy ===== *)
theory EngineParser
  imports Paths
begin

text \<open>
  The response parser of the direct engine, \<open>bot/orchestrator/engine/parser.go\<close>: cutting the
  JSON object out of an LLM answer, validating its fields, dropping edits with unsafe paths,
  extracting \<open><delegate>\<close> blocks and filtering by agent scope.

  The regular expressions are written out as the string functions they denote. The decoder
  \<open>json.Unmarshal\<close> into \<open>map[string]interface{}\<close> is the parameter \<open>unmarshal\<close> (\<open>Inl\<close> its error
  text, \<open>Inr\<close> the members); the Unicode half of \<open>strings.ToLower\<close> is the parameter \<open>ul\<close>.
  Nothing is assumed of either.
\<close>

section \<open>Data\<close>

datatype json =
    JNull | JBool bool | JNum rat | JStr string
  | JArr "json list" | JObj "(string \<times> json) list"

type_synonym members = "(string \<times> json) list"

record FileEdit =
  FilePath :: string
  SearchText :: string
  ReplaceText :: string

record NewFile =
  NewFilePath :: string
  NewContent :: string

record SketchResult =
  Explanation :: string
  Edits :: "FileEdit list"
  NewFiles :: "NewFile list"

record DelegationBlock =
  ToAgentID_block :: string
  Description_block :: string
  Priority_block :: "int option"
  BlockedBy_block :: "string list option"
  MaxCostUsd_block :: "rat option"
  ContextMode_block :: string

record AgentScope =
  Directories :: "string list"
  Languages :: "string list"

text \<open>A missing key and a JSON \<open>null\<close> are both the nil interface.\<close>

definition field :: "members \<Rightarrow> string \<Rightarrow> json" where
  "field m k = (case map_of m k of None \<Rightarrow> JNull | Some v \<Rightarrow> v)"

fun asString :: "json \<Rightarrow> string option" where
  "asString (JStr s) = Some s"
| "asString _ = None"

section \<open>Cutting the JSON out of the answer\<close>

text \<open>The class \<open>\s\<close> of Go's regular expressions.\<close>

definition reSpace :: "char \<Rightarrow> bool" where
  "reSpace c = (c \<in> set [CHR 0x09, CHR 0x0A, CHR 0x0C, CHR 0x0D, CHR 0x20])"

text \<open>\<open>\n?```\s*$\<close> at the front of \<open>s\<close>.\<close>

definition fenceCloses :: "string \<Rightarrow> bool" where
  "fenceCloses s =
     ((HasPrefix s ''```'' \<and> list_all reSpace (drop 3 s))
      \<or> (HasPrefix s (CHR 0x0A # ''```'') \<and> list_all reSpace (drop 4 s)))"

text \<open>The lazy body \<open>[\s\S]*?\<close>: the shortest one after which the fence closes.\<close>

fun fenceBody :: "string \<Rightarrow> string option" where
  "fenceBody [] = None"
| "fenceBody (c # cs) =
     (if fenceCloses (c # cs) then Some [] else map_option ((#) c) (fenceBody cs))"

definition stripMarkdownFences :: "string \<Rightarrow> string" where
  "stripMarkdownFences text =
     (if HasPrefix text ''```'' then
        (let r = drop 3 text;
             r = (if HasPrefix r ''json'' then drop 4 r else r)
         in case fenceBody (dropWhile reSpace r) of
              Some b \<Rightarrow> TrimSpace b
            | None \<Rightarrow> text)
      else text)"

definition extractJsonSubstring :: "string \<Rightarrow> string result" where
  "extractJsonSubstring text =
     (case (Index text ''{'', LastIndexByte text (CHR ''}'')) of
        (Some firstBrace, Some lastBrace) \<Rightarrow>
          if lastBrace < firstBrace then Inl ''no JSON object found in text''
          else Inr (take (lastBrace + 1 - firstBrace) (drop firstBrace text))
      | _ \<Rightarrow> Inl ''no JSON object found in text'')"

text \<open>\<open>,\s*\<close> followed by the closing bracket \<open>e\<close>, replaced by \<open>e\<close>.\<close>

function dropCommaBefore :: "char \<Rightarrow> string \<Rightarrow> string" where
  "dropCommaBefore e [] = []"
| "dropCommaBefore e (c # cs) =
     (if c = CHR '','' then
        (case dropWhile reSpace cs of
           d # rest \<Rightarrow> if d = e then e # dropCommaBefore e rest else c # dropCommaBefore e cs
         | [] \<Rightarrow> c # dropCommaBefore e cs)
      else c # dropCommaBefore e cs)"
  by pat_completeness auto
termination
proof (relation "measure (length \<circ> snd)")
  fix e c cs d rest
  assume "dropWhile reSpace cs = d # rest"
  then have "length (d # rest) \<le> length cs" by (metis length_dropWhile_le)
  then show "((e, rest), (e, c # cs)) \<in> measure (length \<circ> snd)" by simp
qed auto

definition stripTrailingCommas :: "string \<Rightarrow> string" where
  "stripTrailingCommas text = dropCommaBefore (CHR ''}'') (dropCommaBefore (CHR '']'') text)"

section \<open>Validation\<close>

definition validateFileEdit :: "json \<Rightarrow> nat \<Rightarrow> FileEdit result" where
  "validateFileEdit value index =
     (case value of
        JObj m \<Rightarrow>
          (case asString (field m ''filePath'') of
             None \<Rightarrow> Inl (''edits['' @ Itoa index @ ''].filePath must be a string'')
           | Some filePath \<Rightarrow>
          (case asString (field m ''searchText'') of
             None \<Rightarrow> Inl (''edits['' @ Itoa index @ ''].searchText must be a string'')
           | Some searchText \<Rightarrow>
          (case asString (field m ''replaceText'') of
             None \<Rightarrow> Inl (''edits['' @ Itoa index @ ''].replaceText must be a string'')
           | Some replaceText \<Rightarrow>
               Inr \<lparr>FilePath = filePath, SearchText = searchText, ReplaceText = replaceText\<rparr>)))
      | _ \<Rightarrow> Inl (''edits['' @ Itoa index @ ''] is not an object''))"

definition validateNewFile :: "json \<Rightarrow> nat \<Rightarrow> NewFile result" where
  "validateNewFile value index =
     (case value of
        JObj m \<Rightarrow>
          (case asString (field m ''filePath'') of
             None \<Rightarrow> Inl (''newFiles['' @ Itoa index @ ''].filePath must be a string'')
           | Some filePath \<Rightarrow>
          (case asString (field m ''content'') of
             None \<Rightarrow> Inl (''newFiles['' @ Itoa index @ ''].content must be a string'')
           | Some content \<Rightarrow> Inr \<lparr>NewFilePath = filePath, NewContent = content\<rparr>))
      | _ \<Rightarrow> Inl (''newFiles['' @ Itoa index @ ''] is not an object''))"

text \<open>The loop over an array that stops at the first element with an error.\<close>

fun validateAll :: "(json \<Rightarrow> nat \<Rightarrow> 'a result) \<Rightarrow> nat \<Rightarrow> json list \<Rightarrow> 'a list result" where
  "validateAll v i [] = Inr []"
| "validateAll v i (x # xs) =
     (case v x i of
        Inl e \<Rightarrow> Inl e
      | Inr y \<Rightarrow> (case validateAll v (Suc i) xs of Inl e \<Rightarrow> Inl e | Inr ys \<Rightarrow> Inr (y # ys)))"

definition normalizeEdits :: "json \<Rightarrow> FileEdit list result" where
  "normalizeEdits raw =
     (case raw of
        JNull \<Rightarrow> Inr []
      | JObj m \<Rightarrow> (case validateFileEdit (JObj m) 0 of Inl e \<Rightarrow> Inl e | Inr edit \<Rightarrow> Inr [edit])
      | JArr arr \<Rightarrow> validateAll validateFileEdit 0 arr
      | _ \<Rightarrow> Inl ''edits must be an array or object'')"

definition normalizeNewFiles :: "json \<Rightarrow> NewFile list result" where
  "normalizeNewFiles raw =
     (case raw of
        JNull \<Rightarrow> Inr []
      | JArr arr \<Rightarrow> validateAll validateNewFile 0 arr
      | _ \<Rightarrow> Inl ''newFiles must be an array'')"

definition buildSketchResult :: "members \<Rightarrow> SketchResult result" where
  "buildSketchResult parsed =
     (case normalizeEdits (field parsed ''edits'') of
        Inl e \<Rightarrow> Inl e
      | Inr edits \<Rightarrow>
     (case normalizeNewFiles (field parsed ''newFiles'') of
        Inl e \<Rightarrow> Inl e
      | Inr newFiles \<Rightarrow>
          Inr \<lparr>Explanation = (case asString (field parsed ''explanation'') of None \<Rightarrow> '''' | Some s \<Rightarrow> s),
               Edits = filter (\<lambda>edit. \<not> hasPathTraversal (FilePath edit)) edits,
               NewFiles = filter (\<lambda>file. \<not> hasPathTraversal (NewFilePath file)) newFiles\<rparr>))"

definition maxResponseSize :: nat where
  "maxResponseSize = 1024 * 1024"

definition ParseSketchResponse :: "(string \<Rightarrow> members result) \<Rightarrow> string \<Rightarrow> SketchResult result" where
  "ParseSketchResponse unmarshal raw0 =
     (let raw = (if length raw0 > maxResponseSize then take maxResponseSize raw0 else raw0) in
      if TrimSpace raw = '''' then Inl ''empty response from LLM''
      else
        (let stripped = stripMarkdownFences (TrimSpace raw) in
         case extractJsonSubstring stripped of
           Inl _ \<Rightarrow> Inl ''no JSON object found in LLM response''
         | Inr extracted \<Rightarrow>
             (case unmarshal (stripTrailingCommas extracted) of
                Inl e \<Rightarrow> Inl (''failed to parse JSON from LLM response: '' @ e)
              | Inr parsed \<Rightarrow> wrapErr ''schema validation failed: '' (buildSketchResult parsed))))"

section \<open>Scope\<close>

definition languageExtensions :: "(string \<times> string list) list" where
  "languageExtensions =
     [(''typescript'', [''ts'', ''tsx'']),
      (''javascript'', [''js'', ''jsx'', ''mjs'', ''cjs'']),
      (''python'', [''py'', ''pyw'']),
      (''go'', [''go'']),
      (''rust'', [''rs'']),
      (''java'', [''java'']),
      (''kotlin'', [''kt'', ''kts'']),
      (''swift'', [''swift'']),
      (''ruby'', [''rb'']),
      (''php'', [''php'']),
      (''csharp'', [''cs'']),
      (''cpp'', [''cpp'', ''cc'', ''cxx'', ''h'', ''hpp'']),
      (''c'', [''c'', ''h'']),
      (''html'', [''html'', ''htm'']),
      (''css'', [''css'', ''scss'', ''sass'', ''less'']),
      (''json'', [''json'']),
      (''yaml'', [''yaml'', ''yml'']),
      (''markdown'', [''md'', ''mdx'']),
      (''shell'', [''sh'', ''bash'', ''zsh'']),
      (''sql'', [''sql''])]"

definition fileMatchesLanguages :: "(string \<Rightarrow> string) \<Rightarrow> string \<Rightarrow> string list \<Rightarrow> bool" where
  "fileMatchesLanguages ul filePath languages =
     (if languages = [] then True
      else
        (let parts = Split filePath (CHR ''.'') in
         if length parts < 2 then False
         else
           (let extension = ToLower ul (last parts) in
            list_ex (\<lambda>language.
              case map_of languageExtensions (ToLower ul language) of
                None \<Rightarrow> False
              | Some extensions \<Rightarrow> extension \<in> set extensions) languages)))"

definition fileMatchesDirectories :: "string \<Rightarrow> string list \<Rightarrow> bool" where
  "fileMatchesDirectories filePath directories =
     (if directories = [] then True
      else list_ex (\<lambda>directory.
        let normalizedDirectory = (if HasSuffix directory ''/'' then directory else directory @ ''/'')
        in HasPrefix filePath normalizedDirectory \<or> filePath = directory) directories)"

definition fileMatchesScope :: "(string \<Rightarrow> string) \<Rightarrow> string \<Rightarrow> string list \<Rightarrow> string list \<Rightarrow> bool" where
  "fileMatchesScope ul filePath directories languages =
     (fileMatchesDirectories filePath directories \<and> fileMatchesLanguages ul filePath languages)"

definition ValidateAgentScope :: "(string \<Rightarrow> string) \<Rightarrow> SketchResult \<Rightarrow> AgentScope option \<Rightarrow> SketchResult" where
  "ValidateAgentScope ul result scope =
     (case scope of
        None \<Rightarrow> result
      | Some sc \<Rightarrow>
          (let directories = Directories sc; languages = Languages sc in
           if directories = [] \<and> languages = [] then result
           else \<lparr>Explanation = Explanation result,
                  Edits = filter (\<lambda>edit. fileMatchesScope ul (FilePath edit) directories languages) (Edits result),
                  NewFiles = filter (\<lambda>file. fileMatchesScope ul (NewFilePath file) directories languages) (NewFiles result)\<rparr>))"

section \<open>Delegation blocks\<close>

text \<open>
  \<open>(?s)<delegate>(.*?)</delegate>\<close>: the first opening tag, then the nearest closing tag. When
  no closing tag follows the first opening tag, none follows a later one.
\<close>

definition nextDelegate :: "string \<Rightarrow> (string \<times> string \<times> string) option" where
  "nextDelegate raw =
     (case Index raw ''<delegate>'' of
        None \<Rightarrow> None
      | Some i \<Rightarrow>
          (let body = drop (i + 10) raw in
           case Index body ''</delegate>'' of
             None \<Rightarrow> None
           | Some j \<Rightarrow> Some (take i raw, take j body, drop (j + 11) body)))"

lemma nextDelegate_shorter:
  "nextDelegate raw = Some (pre, content, rest) \<Longrightarrow> length rest < length raw"
proof -
  assume "nextDelegate raw = Some (pre, content, rest)"
  then obtain i j where i: "Index raw ''<delegate>'' = Some i"
    and "Index (drop (i + 10) raw) ''</delegate>'' = Some j"
    and r: "rest = drop (j + 11) (drop (i + 10) raw)"
    by (auto simp: nextDelegate_def Let_def split: option.splits)
  from Index_Some_bounds [OF i] have "10 \<le> length raw" by simp
  then show ?thesis using r by simp
qed

function delegateMatches :: "string \<Rightarrow> string list" where
  "delegateMatches raw =
     (case nextDelegate raw of
        None \<Rightarrow> []
      | Some (pre, content, rest) \<Rightarrow> content # delegateMatches rest)"
  by pat_completeness auto
termination by (relation "measure length") (auto dest: nextDelegate_shorter)

function StripDelegationTags :: "string \<Rightarrow> string" where
  "StripDelegationTags raw =
     (case nextDelegate raw of
        None \<Rightarrow> raw
      | Some (pre, content, rest) \<Rightarrow> pre @ StripDelegationTags rest)"
  by pat_completeness auto
termination by (relation "measure length") (auto dest: nextDelegate_shorter)

declare delegateMatches.simps [simp del] StripDelegationTags.simps [simp del]

text \<open>\<open>blockedBy\<close> is taken only when all its elements are strings of less than 100 bytes.\<close>

fun blockedByIDs :: "json list \<Rightarrow> string list option" where
  "blockedByIDs [] = Some []"
| "blockedByIDs (x # xs) =
     (case asString x of
        None \<Rightarrow> None
      | Some s \<Rightarrow> if length s < 100 then map_option ((#) s) (blockedByIDs xs) else None)"

definition priorityOf :: "json \<Rightarrow> int option" where
  "priorityOf v =
     (case v of
        JNum priority \<Rightarrow> if priority \<ge> 0 \<and> priority \<le> 100 then Some \<lfloor>priority\<rfloor> else None
      | _ \<Rightarrow> None)"

definition blockedByOf :: "json \<Rightarrow> string list option" where
  "blockedByOf v =
     (case v of
        JArr ids \<Rightarrow> if length ids \<le> 50 then blockedByIDs ids else None
      | _ \<Rightarrow> None)"

definition maxCostOf :: "json \<Rightarrow> rat option" where
  "maxCostOf v = (case v of JNum c \<Rightarrow> if c > 0 then Some c else None | _ \<Rightarrow> None)"

definition contextModeOf :: "json \<Rightarrow> string" where
  "contextModeOf v =
     (case v of
        JStr mode \<Rightarrow> if mode \<in> set [''summary'', ''diff'', ''full''] then mode else ''''
      | _ \<Rightarrow> '''')"

definition blockOf :: "members \<Rightarrow> DelegationBlock option" where
  "blockOf parsed =
     (case asString (field parsed ''toAgentId'') of
        None \<Rightarrow> None
      | Some toAgentID \<Rightarrow>
          if length toAgentID \<ge> 100 then None
          else
     (case asString (field parsed ''description'') of
        None \<Rightarrow> None
      | Some description \<Rightarrow>
          if length description = 0 \<or> length description \<ge> 10000 then None
          else Some \<lparr>ToAgentID_block = toAgentID, Description_block = description,
                 Priority_block = priorityOf (field parsed ''priority''),
                 BlockedBy_block = blockedByOf (field parsed ''blockedBy''),
                 MaxCostUsd_block = maxCostOf (field parsed ''maxCostUsd''),
                 ContextMode_block = contextModeOf (field parsed ''contextMode'')\<rparr>))"

definition parseBlock :: "(string \<Rightarrow> members result) \<Rightarrow> string \<Rightarrow> DelegationBlock option" where
  "parseBlock unmarshal m =
     (let content = TrimSpace m in
      if content = '''' \<or> length content > 5000 then None
      else
        (case extractJsonSubstring (stripMarkdownFences content) of
           Inl _ \<Rightarrow> None
         | Inr jsonStr \<Rightarrow>
             (case unmarshal (stripTrailingCommas jsonStr) of
                Inl _ \<Rightarrow> None
              | Inr parsed \<Rightarrow> blockOf parsed)))"

text \<open>The loop with its count of accepted blocks.\<close>

fun collectBlocks :: "(string \<Rightarrow> members result) \<Rightarrow> nat \<Rightarrow> string list \<Rightarrow> DelegationBlock list" where
  "collectBlocks unmarshal count [] = []"
| "collectBlocks unmarshal count (m # ms) =
     (if count \<ge> 10 then []
      else case parseBlock unmarshal m of
             None \<Rightarrow> collectBlocks unmarshal count ms
           | Some b \<Rightarrow> b # collectBlocks unmarshal (Suc count) ms)"

definition ExtractDelegationBlocks :: "(string \<Rightarrow> members result) \<Rightarrow> string \<Rightarrow> DelegationBlock list" where
  "ExtractDelegationBlocks unmarshal raw =
     (if length raw > 100000 then [] else collectBlocks unmarshal 0 (delegateMatches raw))"

definition ParseSketchWithDelegations ::
    "(string \<Rightarrow> members result) \<Rightarrow> string \<Rightarrow> SketchResult result \<times> DelegationBlock list" where
  "ParseSketchWithDelegations unmarshal raw =
     (let delegations = ExtractDelegationBlocks unmarshal raw;
          cleanedRaw = StripDelegationTags raw
      in if length cleanedRaw > 0 \<and> Contains cleanedRaw ''{''
         then (ParseSketchResponse unmarshal cleanedRaw, delegations)
         else (Inr \<lparr>Explanation = '''', Edits = [], NewFiles = []\<rparr>, delegations))"

section \<open>Facts about the cutting functions\<close>

lemma LastIndexByte_SomeD: "LastIndexByte s c = Some n \<Longrightarrow> n < length s \<and> s ! n = c"
  by (induction s arbitrary: n) (auto split: option.splits if_splits)

lemma LastIndexByte_snoc: "LastIndexByte (s @ [c]) c = Some (length s)"
  by (induction s) auto

lemma extractJsonSubstring_braced:
  "extractJsonSubstring (''{'' @ mid @ ''}'') = Inr (''{'' @ mid @ ''}'')"
proof -
  have "LastIndexByte (CHR ''{'' # mid @ [CHR ''}'']) (CHR ''}'') = Some (Suc (length mid))"
    using LastIndexByte_snoc [of "CHR ''{'' # mid" "CHR ''}''"] by simp
  then show ?thesis by (simp add: extractJsonSubstring_def)
qed

lemma extractJsonSubstring_shape:
  assumes "extractJsonSubstring text = Inr s"
  shows "hd s = CHR ''{'' \<and> last s = CHR ''}'' \<and> Contains text s"
proof -
  from assms obtain i j where ij: "Index text ''{'' = Some i" "LastIndexByte text (CHR ''}'') = Some j"
    and le: "i \<le> j" and s: "s = take (j + 1 - i) (drop i text)"
    by (auto simp: extractJsonSubstring_def split: option.splits if_splits)
  from LastIndexByte_SomeD [OF ij(2)] have j: "j < length text" "text ! j = CHR ''}''" by auto
  have "take 1 (drop i text) = ''{''" using Index_Some_slice [OF ij(1)] by simp
  then have i: "text ! i = CHR ''{''" using le j by (simp add: take_Suc_conv_app_nth)
  have "s \<noteq> []" "length s = j + 1 - i" using s le j by auto
  then have "hd s = CHR ''{''" "last s = CHR ''}''"
    using s le i j by (auto simp: hd_conv_nth last_conv_nth)
  moreover have "text = take i text @ s @ drop (j + 1 - i) (drop i text)" using s by (metis append_take_drop_id)
  ultimately show ?thesis by (metis Contains_iff)
qed

lemma not_prefix_suffix: "\<not> Contains s f \<Longrightarrow> f \<noteq> [] \<Longrightarrow> \<not> prefix f (drop k s)"
  by (metis Contains_iff append_take_drop_id prefix_def)

text \<open>The body of a fence that contains no inner fence is found whole.\<close>

lemma fenceBody_whole:
  assumes "\<not> Contains (b @ [CHR 0x0A]) ''`''"
  shows "fenceBody (b @ CHR 0x0A # ''```'') = Some b"
  using assms
proof (induction b)
  case Nil
  then show ?case by (simp add: fenceCloses_def HasPrefix_def)
next
  case (Cons c b)
  then have c: "c \<noteq> CHR ''`''" and b: "CHR ''`'' \<notin> set b" by auto
  have "\<not> prefix ''```'' (b @ CHR 0x0A # ''```'')" using b
    by (cases b) auto
  then have "\<not> fenceCloses ((c # b) @ CHR 0x0A # ''```'') "
    using c by (auto simp: fenceCloses_def HasPrefix_def)
  then show ?case using Cons by simp
qed

lemma validateAll_Inr_length: "validateAll v i xs = Inr ys \<Longrightarrow> length ys = length xs"
  by (induction xs arbitrary: i ys) (auto split: sum.splits)

lemma validateAll_Inl_iff:
  "(\<exists>e. validateAll v i xs = Inl e) \<longleftrightarrow> (\<exists>k < length xs. \<exists>e. v (xs ! k) (i + k) = Inl e)"
proof (induction xs arbitrary: i)
  case (Cons x xs)
  show ?case
  proof (cases "v x i")
    case (Inl e)
    then show ?thesis by auto
  next
    case (Inr y)
    have "(\<exists>e. validateAll v i (x # xs) = Inl e) \<longleftrightarrow> (\<exists>e. validateAll v (Suc i) xs = Inl e)"
      using Inr by (auto split: sum.splits)
    also have "\<dots> \<longleftrightarrow> (\<exists>k < length xs. \<exists>e. v (xs ! k) (Suc i + k) = Inl e)" by (rule Cons.IH)
    also have "\<dots> \<longleftrightarrow> (\<exists>k < length (x # xs). \<exists>e. v ((x # xs) ! k) (i + k) = Inl e)"
      using Inr by (auto simp: Ex_less_Suc2)
    finally show ?thesis .
  qed
qed simp

section \<open>Delegation blocks are bounded\<close>

definition block_ok :: "DelegationBlock \<Rightarrow> bool" where
  "block_ok b \<longleftrightarrow>
     length (ToAgentID_block b) < 100
     \<and> 0 < length (Description_block b) \<and> length (Description_block b) < 10000
     \<and> (case Priority_block b of None \<Rightarrow> True | Some p \<Rightarrow> 0 \<le> p \<and> p \<le> 100)
     \<and> (case BlockedBy_block b of None \<Rightarrow> True
        | Some ids \<Rightarrow> length ids \<le> 50 \<and> (\<forall>i \<in> set ids. length i < 100))
     \<and> (case MaxCostUsd_block b of None \<Rightarrow> True | Some c \<Rightarrow> 0 < c)
     \<and> ContextMode_block b \<in> {'''', ''summary'', ''diff'', ''full''}"

lemma blockedByIDs_bounds:
  "blockedByIDs xs = Some ids \<Longrightarrow> length ids = length xs \<and> (\<forall>i \<in> set ids. length i < 100)"
  by (induction xs arbitrary: ids) (auto split: option.splits if_splits)

lemma priorityOf_bounds: "priorityOf v = Some p \<Longrightarrow> 0 \<le> p \<and> p \<le> 100"
  by (auto simp: priorityOf_def floor_le_iff split: json.splits if_splits)

lemma blockedByOf_bounds:
  "blockedByOf v = Some ids \<Longrightarrow> length ids \<le> 50 \<and> (\<forall>i \<in> set ids. length i < 100)"
  by (auto simp: blockedByOf_def split: json.splits if_splits dest!: blockedByIDs_bounds)

lemma maxCostOf_bounds: "maxCostOf v = Some c \<Longrightarrow> 0 < c"
  by (auto simp: maxCostOf_def split: json.splits if_splits)

lemma contextModeOf_range: "contextModeOf v \<in> {'''', ''summary'', ''diff'', ''full''}"
  by (auto simp: contextModeOf_def split: json.splits)

lemma blockOf_ok:
  assumes "blockOf parsed = Some b"
  shows "block_ok b"
proof -
  from assms obtain a d where l: "length a < 100" "0 < length d" "length d < 10000"
    and b: "b = \<lparr>ToAgentID_block = a, Description_block = d,
       Priority_block = priorityOf (field parsed ''priority''),
       BlockedBy_block = blockedByOf (field parsed ''blockedBy''),
       MaxCostUsd_block = maxCostOf (field parsed ''maxCostUsd''),
       ContextMode_block = contextModeOf (field parsed ''contextMode'')\<rparr>"
    by (force simp: blockOf_def not_le split: option.splits if_splits)
  show ?thesis
    unfolding block_ok_def b using l contextModeOf_range
    by (auto split: option.splits dest: priorityOf_bounds blockedByOf_bounds maxCostOf_bounds)
qed

lemma parseBlock_ok: "parseBlock um m = Some b \<Longrightarrow> block_ok b"
  by (auto simp: parseBlock_def Let_def split: sum.splits if_splits dest: blockOf_ok)

lemma collectBlocks_bounds:
  "count \<le> 10 \<Longrightarrow> length (collectBlocks um count ms) \<le> 10 - count"
  by (induction um count ms rule: collectBlocks.induct) (auto split: option.splits)

lemma collectBlocks_ok: "b \<in> set (collectBlocks um count ms) \<Longrightarrow> block_ok b"
  by (induction um count ms rule: collectBlocks.induct)
    (auto split: option.splits if_splits dest: parseBlock_ok)

section \<open>Properties\<close>

text \<open>Paths as the guard sees them: percent-decoded, with forward slashes.\<close>

definition guardedPath :: "string \<Rightarrow> string" where
  "guardedPath p =
     ReplaceByte (case QueryUnescape p of None \<Rightarrow> p | Some d \<Rightarrow> d) (CHR 0x5C) (CHR ''/'')"

lemma hasPathTraversal_iff: "\<not> hasPathTraversal p \<longleftrightarrow> relative_below (guardedPath p)"
  by (simp add: hasPathTraversal_decoded hasPathTraversal_locks_iff guardedPath_def)

lemma ParseSketchResponse_build:
  "ParseSketchResponse um raw = Inr r \<Longrightarrow> \<exists>parsed. buildSketchResult parsed = Inr r"
  by (auto simp: ParseSketchResponse_def Let_def split: if_splits sum.splits)

lemma buildSketchResult_safe:
  "buildSketchResult parsed = Inr r \<Longrightarrow>
     (\<forall>e \<in> set (Edits r). \<not> hasPathTraversal (FilePath e))
     \<and> (\<forall>f \<in> set (NewFiles r). \<not> hasPathTraversal (NewFilePath f))"
  by (auto simp: buildSketchResult_def split: sum.splits)

text \<open>
  C1. Whatever the model answers and however the JSON decoder behaves, every edit and every new
  file that the parser hands to the engine names a relative path without a NUL byte and without
  a \<open>..\<close> element (after percent-decoding and turning backslashes into slashes), and it hands
  over at most ten delegation blocks, each within its bounds.
\<close>

theorem parsed_sketch_is_safe:
  assumes "ParseSketchWithDelegations um raw = (Inr r, ds)"
  shows "(\<forall>e \<in> set (Edits r). relative_below (guardedPath (FilePath e)))
     \<and> (\<forall>f \<in> set (NewFiles r). relative_below (guardedPath (NewFilePath f)))
     \<and> length ds \<le> 10 \<and> (\<forall>b \<in> set ds. block_ok b)"
proof -
  from assms have ds: "ds = ExtractDelegationBlocks um raw"
    by (auto simp: ParseSketchWithDelegations_def Let_def split: if_splits)
  have "length ds \<le> 10" "\<forall>b \<in> set ds. block_ok b"
    using collectBlocks_bounds [of 0 um "delegateMatches raw"]
    by (auto simp: ds ExtractDelegationBlocks_def dest: collectBlocks_ok)
  moreover have "(\<forall>e \<in> set (Edits r). \<not> hasPathTraversal (FilePath e))
     \<and> (\<forall>f \<in> set (NewFiles r). \<not> hasPathTraversal (NewFilePath f))"
    using assms
    by (auto simp: ParseSketchWithDelegations_def Let_def split: if_splits
        dest!: ParseSketchResponse_build dest: buildSketchResult_safe)
  ultimately show ?thesis by (simp add: hasPathTraversal_iff)
qed

text \<open>A decoder for one concrete answer, to evaluate the parser on it.\<close>

definition sampleMembers :: members where
  "sampleMembers =
     [(''edits'', JArr [JObj [(''filePath'', JStr ''a.go''), (''searchText'', JStr ''x''), (''replaceText'', JStr ''y'')],
                        JObj [(''filePath'', JStr ''../b''), (''searchText'', JStr ''x''), (''replaceText'', JStr ''y'')]])]"

lemma sample_parse:
  "ParseSketchWithDelegations (\<lambda>_. Inr sampleMembers) ''{}'' =
     (Inr \<lparr>Explanation = '''', Edits = [\<lparr>FilePath = ''a.go'', SearchText = ''x'', ReplaceText = ''y''\<rparr>],
           NewFiles = []\<rparr>, [])"
  by code_simp

theorem parsed_sketch_is_safe_witness:
  "ParseSketchWithDelegations (\<lambda>_. Inr sampleMembers) ''{}'' =
     (Inr \<lparr>Explanation = '''', Edits = [\<lparr>FilePath = ''a.go'', SearchText = ''x'', ReplaceText = ''y''\<rparr>],
           NewFiles = []\<rparr>, [])
   \<and> relative_below (guardedPath ''a.go'')"
  using parsed_sketch_is_safe [OF sample_parse] sample_parse by simp

lemma ticks_trim: "CHR ''`'' \<notin> hd ` set unicodeSpace" "CHR ''`'' \<notin> last ` set unicodeSpace"
  "CHR ''{'' \<notin> hd ` set unicodeSpace" "CHR ''}'' \<notin> last ` set unicodeSpace"
  by (auto simp: unicodeSpace_def asciiSpace_def)

lemma ParseSketchResponse_cong:
  assumes "length a \<le> maxResponseSize" "length b \<le> maxResponseSize"
    "TrimSpace a \<noteq> ''''" "TrimSpace b \<noteq> ''''"
    "stripMarkdownFences (TrimSpace a) = stripMarkdownFences (TrimSpace b)"
  shows "ParseSketchResponse um a = ParseSketchResponse um b"
  using assms by (simp add: ParseSketchResponse_def)

lemma TrimSpace_braced: "TrimSpace (''{'' @ mid @ ''}'') = ''{'' @ mid @ ''}''"
  by (rule TrimSpace_id [OF ticks_trim(3,4)]) simp_all



text \<open>
  Restricting a result to an agent's scope keeps exactly the edits and new files inside the
  scope, in their order, and doing it twice changes nothing more. A scope with neither
  directories nor languages restricts nothing.
\<close>

theorem scope_filter_exact:
  "Edits (ValidateAgentScope ul r (Some sc)) =
     filter (\<lambda>e. fileMatchesScope ul (FilePath e) (Directories sc) (Languages sc)) (Edits r)
   \<and> NewFiles (ValidateAgentScope ul r (Some sc)) =
     filter (\<lambda>f. fileMatchesScope ul (NewFilePath f) (Directories sc) (Languages sc)) (NewFiles r)
   \<and> ValidateAgentScope ul (ValidateAgentScope ul r (Some sc)) (Some sc) = ValidateAgentScope ul r (Some sc)"
proof -
  have "fileMatchesScope ul p [] []" for p
    by (simp add: fileMatchesScope_def fileMatchesDirectories_def fileMatchesLanguages_def)
  then show ?thesis by (auto simp: ValidateAgentScope_def Let_def)
qed

text \<open>
  Removing trailing commas works on the raw text, so it also rewrites the inside of JSON
  string literals: an edit whose replacement text contains a comma before a closing bracket
  reaches the decoder changed.
\<close>

theorem trailing_commas_rewrite_string_literals:
  "stripTrailingCommas (''{'' @ [CHR 0x22] @ ''replaceText'' @ [CHR 0x22] @ '':'' @ [CHR 0x22] @ ''x = [1, ]'' @ [CHR 0x22] @ ''}'')
     = ''{'' @ [CHR 0x22] @ ''replaceText'' @ [CHR 0x22] @ '':'' @ [CHR 0x22] @ ''x = [1]'' @ [CHR 0x22] @ ''}''"
  by code_simp

end
