(* ===== verification/EngineApply.thy ===== *)
theory EngineApply
  imports EngineParser "HOL-Library.Word" "HOL-Library.Multiset"
begin

text \<open>
  The edit applier of the direct engine, \<open>bot/orchestrator/engine/apply.go\<close>: finding the place
  an edit means (exactly, after normalising line ends, or by similarity), and writing edits and
  new files into the checked-out repository.

  Ratios are exact rationals; every comparison the code makes on them is between fractions
  whose denominators are at most the number of lines, far coarser than \<open>float64\<close> rounding.
  \<open>sort.Slice\<close> is not stable, so the order it gives equal scores is the parameter \<open>srt\<close>.
  The operating system is a parameter too: a record of the five calls the code makes, over an
  arbitrary type of file-system states.
\<close>

section \<open>Data\<close>

record MatchResult =
  Start :: nat
  End :: nat
  Method :: string

record ApplyResultEntry =
  EntryPath :: string
  Success :: bool
  Error :: string
  OriginalSearchText :: string

record ApplyResult =
  Applied :: "ApplyResultEntry list"
  Created :: "ApplyResultEntry list"
  TotalApplied :: nat
  TotalFailed :: nat

section \<open>Lines\<close>

abbreviation newline :: char where "newline \<equiv> CHR 0x0A"

definition normalizeLines :: "string \<Rightarrow> string" where
  "normalizeLines text =
     Join (map (\<lambda>line. TrimRight line [CHR '' '', CHR 0x09, CHR 0x0D]) (Split text newline)) [newline]"

definition stripBlankEdges :: "string \<Rightarrow> string" where
  "stripBlankEdges text =
     (let blank = (\<lambda>line. TrimSpace line = '''');
          lines = dropWhile blank (Split text newline)
      in Join (rev (dropWhile blank (rev lines))) [newline])"

section \<open>Similarity of lines\<close>

text \<open>One row of the table: \<open>curr[1..]\<close> from the row above and the entry to the left.\<close>

fun levRow :: "char \<Rightarrow> string \<Rightarrow> nat list \<Rightarrow> nat \<Rightarrow> nat list" where
  "levRow x (y # ys) (p0 # p1 # ps) left =
     (let v = (if x = y then p0 else 1 + min (min p0 p1) left)
      in v # levRow x ys (p1 # ps) v)"
| "levRow x _ _ left = []"

text \<open>The outer loop, from row \<open>i\<close> on; \<open>xs\<close> is what is left of \<open>a\<close>.\<close>

fun levLoop :: "rat \<Rightarrow> nat \<Rightarrow> string \<Rightarrow> nat \<Rightarrow> string \<Rightarrow> nat list \<Rightarrow> rat" where
  "levLoop threshold firstLength b i [] prev =
     1 - of_nat (last prev) / of_nat (max firstLength (length b))"
| "levLoop threshold firstLength b i (x # xs) prev =
     (let secondLength = length b;
          maxLen = max firstLength secondLength;
          earlyTerminationThreshold = maxLen * 15 div 100;
          curr = i # levRow x b prev i;
          rowMin = fold min (tl curr) i
      in if rowMin > earlyTerminationThreshold then 0
         else
           (let minPossibleDistance =
                  (if firstLength > secondLength then firstLength - secondLength else secondLength - firstLength)
                  + (if i < firstLength then firstLength - i else 0);
                bestPossibleRatio = 1 - of_nat minPossibleDistance / of_nat maxLen
            in if bestPossibleRatio < threshold then 0
               else levLoop threshold firstLength b (i + 1) xs curr))"

definition LevenshteinRatio :: "string \<Rightarrow> string \<Rightarrow> rat \<Rightarrow> rat" where
  "LevenshteinRatio a b threshold =
     (if a = b then 1
      else if length a = 0 \<and> length b = 0 then 1
      else if length a = 0 \<or> length b = 0 then 0
      else levLoop threshold (length a) b 1 a [0..<length b + 1])"

definition computeLineHash :: "string \<Rightarrow> 32 word" where
  "computeLineHash line = fold (\<lambda>c hash. hash * 31 + word_of_nat (of_char c)) line 0"

section \<open>Finding the place of an edit\<close>

text \<open>
  An occurrence of \<open>sub\<close> with no second one after it, as the code looks for it: the second search
  runs on \<open>s[i+1:]\<close>, a slice that panics when \<open>i\<close> is the length of \<open>s\<close>.
\<close>

definition indexOnce :: "string \<Rightarrow> string \<Rightarrow> nat option go" where
  "indexOnce s sub =
     (case Index s sub of
        None \<Rightarrow> Ret None
      | Some i \<Rightarrow>
          if i + 1 > length s then Panic
          else (case Index (drop (i + 1) s) sub of
                  None \<Rightarrow> Ret (Some i)
                | Some _ \<Rightarrow> Ret None))"

definition similarity :: "string list \<Rightarrow> string list \<Rightarrow> nat \<Rightarrow> rat" where
  "similarity fileLines searchLines position =
     sum_list (map (\<lambda>i. LevenshteinRatio (fileLines ! (position + i)) (searchLines ! i) (85 / 100))
                 [0..<length searchLines])
     / of_nat (length searchLines)"

definition candidates ::
    "((nat \<times> rat) list \<Rightarrow> (nat \<times> rat) list) \<Rightarrow> string list \<Rightarrow> string list \<Rightarrow> nat list" where
  "candidates srt fileLines searchLines =
     (let windowSize = length searchLines;
          positions = [0..<length fileLines - windowSize + 1]
      in if length fileLines > 500 then
           (let searchHashes = remdups (map computeLineHash searchLines);
                fileLineHashes = map computeLineHash fileLines;
                score = (\<lambda>i. of_nat (length (filter (\<lambda>h. h \<in> set searchHashes)
                                 (take windowSize (drop i fileLineHashes))))
                             / of_nat (length searchHashes) :: rat)
            in map fst (take 10 (srt (filter (\<lambda>c. snd c \<ge> 1 / 2) (map (\<lambda>i. (i, score i)) positions)))))
         else positions)"

fun onlySimilar :: "string list \<Rightarrow> string list \<Rightarrow> nat option \<Rightarrow> nat list \<Rightarrow> nat option" where
  "onlySimilar fileLines searchLines matchPosition [] = matchPosition"
| "onlySimilar fileLines searchLines matchPosition (position # rest) =
     (if similarity fileLines searchLines position \<ge> 85 / 100
      then (case matchPosition of
              Some _ \<Rightarrow> None
            | None \<Rightarrow> onlySimilar fileLines searchLines (Some position) rest)
      else onlySimilar fileLines searchLines matchPosition rest)"

definition fuzzyMatch ::
    "((nat \<times> rat) list \<Rightarrow> (nat \<times> rat) list) \<Rightarrow> string list \<Rightarrow> string list \<Rightarrow> MatchResult option" where
  "fuzzyMatch srt fileLines searchLines =
     (let windowSize = length searchLines in
      if windowSize = 0 \<or> windowSize > length fileLines then None
      else if length fileLines > 20000 then None
      else
        (case onlySimilar fileLines searchLines None (candidates srt fileLines searchLines) of
           None \<Rightarrow> None
         | Some p \<Rightarrow>
             (let startChar = sum_list (map (\<lambda>l. length l + 1) (take p fileLines));
                  matchedBlock = Join (take windowSize (drop p fileLines)) [newline]
              in Some \<lparr>Start = startChar, End = startChar + length matchedBlock, Method = ''fuzzy''\<rparr>)))"

definition FindMatch ::
    "((nat \<times> rat) list \<Rightarrow> (nat \<times> rat) list) \<Rightarrow> string \<Rightarrow> string \<Rightarrow> MatchResult option go" where
  "FindMatch srt fileContent searchText =
     (case indexOnce fileContent searchText of
        Panic \<Rightarrow> Panic
      | Ret (Some i) \<Rightarrow> Ret (Some \<lparr>Start = i, End = i + length searchText, Method = ''exact''\<rparr>)
      | Ret None \<Rightarrow>
     (let normalizedFile = normalizeLines fileContent;
          normalizedSearch = normalizeLines searchText
      in case indexOnce normalizedFile normalizedSearch of
        Panic \<Rightarrow> Panic
      | Ret (Some i) \<Rightarrow> Ret (Some \<lparr>Start = i, End = i + length normalizedSearch, Method = ''normalized''\<rparr>)
      | Ret None \<Rightarrow>
     (let strippedSearch = stripBlankEdges normalizedSearch;
          fuzzy = fuzzyMatch srt (Split normalizedFile newline) (Split strippedSearch newline)
      in if strippedSearch \<noteq> normalizedSearch then
           (case indexOnce normalizedFile strippedSearch of
              Panic \<Rightarrow> Panic
            | Ret (Some i) \<Rightarrow> Ret (Some \<lparr>Start = i, End = i + length strippedSearch, Method = ''normalized''\<rparr>)
            | Ret None \<Rightarrow> Ret fuzzy)
         else Ret fuzzy)))"

section \<open>Applying edits\<close>

datatype lstat = Symlink | OtherFile | NotExist | LstatErr string

record 'f os =
  EvalSymlinks :: "'f \<Rightarrow> string \<Rightarrow> string result"
  Lstat :: "'f \<Rightarrow> string \<Rightarrow> lstat"
  ReadFile :: "'f \<Rightarrow> string \<Rightarrow> string result"
  WriteFile :: "string \<Rightarrow> string \<Rightarrow> 'f \<Rightarrow> string option \<times> 'f"
  MkdirAll :: "string \<Rightarrow> 'f \<Rightarrow> string option \<times> 'f"

definition okEntry :: "string \<Rightarrow> ApplyResultEntry" where
  "okEntry p = \<lparr>EntryPath = p, Success = True, Error = '''', OriginalSearchText = ''''\<rparr>"

definition failEntry :: "string \<Rightarrow> string \<Rightarrow> ApplyResultEntry" where
  "failEntry p e = \<lparr>EntryPath = p, Success = False, Error = e, OriginalSearchText = ''''\<rparr>"

text \<open>\<open>before + edit.ReplaceText + after\<close>, on the content as read.\<close>

definition splice :: "string \<Rightarrow> MatchResult \<Rightarrow> string \<Rightarrow> string" where
  "splice fileContent m replaceText = take (Start m) fileContent @ replaceText @ drop (End m) fileContent"

definition applyEdit ::
    "((nat \<times> rat) list \<Rightarrow> (nat \<times> rat) list) \<Rightarrow> 'f os \<Rightarrow> string \<Rightarrow> string \<Rightarrow> FileEdit \<Rightarrow> 'f
       \<Rightarrow> (ApplyResultEntry \<times> 'f) go" where
  "applyEdit srt sys repoDir resolvedRepo edit fs =
     (case rejectUnsafePath (FilePath edit) of
        Some e \<Rightarrow> Ret (failEntry (FilePath edit) e, fs)
      | None \<Rightarrow>
     (let absolutePath = JoinPath repoDir (FilePath edit) in
      case Lstat sys fs absolutePath of
        Symlink \<Rightarrow> Ret (failEntry (FilePath edit) ''Symlinks not allowed'', fs)
      | LstatErr e \<Rightarrow> Ret (failEntry (FilePath edit) e, fs)
      | _ \<Rightarrow>
     (case EvalSymlinks sys fs absolutePath of
        Inl e \<Rightarrow> Ret (failEntry (FilePath edit) e, fs)
      | Inr resolvedPath \<Rightarrow>
          if \<not> HasPrefix resolvedPath (resolvedRepo @ ''/'')
          then Ret (failEntry (FilePath edit) ''Path escapes repository'', fs)
          else
     (case ReadFile sys fs absolutePath of
        Inl e \<Rightarrow> Ret (failEntry (FilePath edit) e, fs)
      | Inr fileContent \<Rightarrow>
     (case FindMatch srt fileContent (SearchText edit) of
        Panic \<Rightarrow> Panic
      | Ret None \<Rightarrow>
          Ret (\<lparr>EntryPath = FilePath edit, Success = False, Error = ''Search text not found or ambiguous'',
                OriginalSearchText = SearchText edit\<rparr>, fs)
      | Ret (Some m) \<Rightarrow>
          if End m > length fileContent \<or> Start m > length fileContent then Panic
          else
            (case WriteFile sys absolutePath (splice fileContent m (ReplaceText edit)) fs of
               (Some e, fs') \<Rightarrow> Ret (failEntry (FilePath edit) e, fs')
             | (None, fs') \<Rightarrow> Ret (okEntry (FilePath edit), fs')))))))"

definition createFile ::
    "'f os \<Rightarrow> string \<Rightarrow> string \<Rightarrow> NewFile \<Rightarrow> 'f \<Rightarrow> ApplyResultEntry \<times> 'f" where
  "createFile sys repoDir resolvedRepo newFile fs =
     (case rejectUnsafePath (NewFilePath newFile) of
        Some e \<Rightarrow> (failEntry (NewFilePath newFile) e, fs)
      | None \<Rightarrow>
     (let absolutePath = JoinPath repoDir (NewFilePath newFile);
          parentDir = Dir absolutePath
      in case MkdirAll sys parentDir fs of
        (Some e, fs1) \<Rightarrow> (failEntry (NewFilePath newFile) e, fs1)
      | (None, fs1) \<Rightarrow>
     (case EvalSymlinks sys fs1 parentDir of
        Inl e \<Rightarrow> (failEntry (NewFilePath newFile) e, fs1)
      | Inr resolvedParent \<Rightarrow>
          if \<not> HasPrefix resolvedParent (resolvedRepo @ ''/'') \<and> resolvedParent \<noteq> resolvedRepo
          then (failEntry (NewFilePath newFile) ''Path escapes repository'', fs1)
          else
            (case WriteFile sys absolutePath (NewContent newFile) fs1 of
               (Some e, fs2) \<Rightarrow> (failEntry (NewFilePath newFile) e, fs2)
             | (None, fs2) \<Rightarrow> (okEntry (NewFilePath newFile), fs2)))))"

fun applyAll ::
    "('e \<Rightarrow> 'f \<Rightarrow> (ApplyResultEntry \<times> 'f) go) \<Rightarrow> 'e list \<Rightarrow> 'f \<Rightarrow> (ApplyResultEntry list \<times> 'f) go" where
  "applyAll f [] fs = Ret ([], fs)"
| "applyAll f (e # es) fs =
     (case f e fs of
        Panic \<Rightarrow> Panic
      | Ret (r, fs1) \<Rightarrow>
          (case applyAll f es fs1 of
             Panic \<Rightarrow> Panic
           | Ret (rs, fs2) \<Rightarrow> Ret (r # rs, fs2)))"

definition ApplyEdits ::
    "((nat \<times> rat) list \<Rightarrow> (nat \<times> rat) list) \<Rightarrow> 'f os \<Rightarrow> string \<Rightarrow> FileEdit list \<Rightarrow> NewFile list \<Rightarrow> 'f
       \<Rightarrow> (ApplyResult result \<times> 'f) go" where
  "ApplyEdits srt sys repoDir edits newFiles fs =
     (case EvalSymlinks sys fs repoDir of
        Inl e \<Rightarrow> Ret (Inl (''resolve repo dir: '' @ e), fs)
      | Inr resolvedRepo \<Rightarrow>
     (case applyAll (applyEdit srt sys repoDir resolvedRepo) edits fs of
        Panic \<Rightarrow> Panic
      | Ret (applied, fs1) \<Rightarrow>
     (case applyAll (\<lambda>nf fs. Ret (createFile sys repoDir resolvedRepo nf fs)) newFiles fs1 of
        Panic \<Rightarrow> Panic
      | Ret (created, fs2) \<Rightarrow>
          Ret (Inr \<lparr>Applied = applied, Created = created,
                    TotalApplied = length (filter Success applied) + length (filter Success created),
                    TotalFailed = length (filter (Not \<circ> Success) applied) + length (filter (Not \<circ> Success) created)\<rparr>,
               fs2))))"

section \<open>Edit distance\<close>

text \<open>
  The abstract specification: \<open>edit_script n a b\<close> says that \<open>n\<close> insertions, deletions and
  substitutions turn \<open>a\<close> into \<open>b\<close>.
\<close>

inductive edit_script :: "nat \<Rightarrow> string \<Rightarrow> string \<Rightarrow> bool" where
  es_nil: "edit_script 0 [] []"
| es_keep: "edit_script n a b \<Longrightarrow> edit_script n (c # a) (c # b)"
| es_subst: "edit_script n a b \<Longrightarrow> edit_script (Suc n) (c # a) (d # b)"
| es_delete: "edit_script n a b \<Longrightarrow> edit_script (Suc n) (c # a) b"
| es_insert: "edit_script n a b \<Longrightarrow> edit_script (Suc n) a (d # b)"

definition edit_distance :: "nat \<Rightarrow> string \<Rightarrow> string \<Rightarrow> bool" where
  "edit_distance n a b \<longleftrightarrow> edit_script n a b \<and> (\<forall>m. edit_script m a b \<longrightarrow> n \<le> m)"

lemma edit_script_append:
  "edit_script n a b \<Longrightarrow> edit_script m a' b' \<Longrightarrow> edit_script (n + m) (a @ a') (b @ b')"
  by (induction rule: edit_script.induct) (auto intro: edit_script.intros)

lemma edit_script_rev: "edit_script n a b \<Longrightarrow> edit_script n (rev a) (rev b)"
proof (induction rule: edit_script.induct)
  case (es_keep n a b c)
  then show ?case using edit_script_append [OF es_keep.IH edit_script.es_keep [OF es_nil, of c]] by simp
next
  case (es_subst n a b c d)
  then show ?case using edit_script_append [OF es_subst.IH edit_script.es_subst [OF es_nil, of c d]] by simp
next
  case (es_delete n a b c)
  then show ?case using edit_script_append [OF es_delete.IH edit_script.es_delete [OF es_nil, of c]] by simp
next
  case (es_insert n a b d)
  then show ?case using edit_script_append [OF es_insert.IH edit_script.es_insert [OF es_nil, of d]] by simp
qed (simp add: es_nil)

text \<open>The textbook recursion, which the row-by-row loop is measured against.\<close>

fun lev :: "string \<Rightarrow> string \<Rightarrow> nat" where
  "lev [] ys = length ys"
| "lev (x # xs) [] = Suc (length xs)"
| "lev (x # xs) (y # ys) =
     min (min (Suc (lev xs (y # ys))) (Suc (lev (x # xs) ys))) (lev xs ys + (if x = y then 0 else 1))"

lemma lev_Nil2 [simp]: "lev xs [] = length xs"
  by (cases xs) auto

lemma lev_insert: "lev xs (y # ys) \<le> Suc (lev xs ys)"
  by (cases xs) auto

lemma lev_delete: "lev (x # xs) ys \<le> Suc (lev xs ys)"
  by (cases ys) auto

lemma lev_shrink1: "lev xs ys \<le> Suc (lev (x # xs) ys)"
proof (induction ys)
  case (Cons y ys)
  have "lev xs (y # ys) \<le> Suc (lev xs ys)" by (rule lev_insert)
  then show ?case using Cons by auto
qed simp

lemma lev_shrink2: "lev xs ys \<le> Suc (lev xs (y # ys))"
proof (induction xs)
  case (Cons x xs)
  have "lev (x # xs) ys \<le> Suc (lev xs ys)" by (rule lev_delete)
  then show ?case using Cons by auto
qed simp

text \<open>Equal heads: the diagonal entry alone is the minimum, which is what the loop uses.\<close>

lemma lev_same_head [simp]: "lev (x # xs) (x # ys) = lev xs ys"
  using lev_shrink1 [of xs ys x] lev_shrink2 [of xs ys x] by auto

lemma edit_script_lev_le: "edit_script n a b \<Longrightarrow> lev a b \<le> n"
proof (induction rule: edit_script.induct)
  case (es_delete n a b c)
  then show ?case using lev_delete [of c a b] by simp
next
  case (es_insert n a b d)
  then show ?case using lev_insert [of a d b] by simp
qed auto

lemma edit_script_inserts: "edit_script (length ys) [] ys"
  by (induction ys) (auto intro: edit_script.intros)

lemma edit_script_deletes: "edit_script (length xs) xs []"
  by (induction xs) (auto intro: edit_script.intros)

lemma edit_script_lev: "edit_script (lev a b) a b"
proof (induction a b rule: lev.induct)
  case (3 x xs y ys)
  show ?case
  proof (cases "x = y")
    case True
    then show ?thesis using 3 by (simp del: lev.simps) (rule es_keep)
  next
    case False
    then have "lev (x # xs) (y # ys) \<in> {Suc (lev xs (y # ys)), Suc (lev (x # xs) ys), Suc (lev xs ys)}"
      by (auto simp: min_def)
    then show ?thesis using 3
      by (elim insertE) (simp_all del: lev.simps add: edit_script.intros)
  qed
next
  case (2 x xs)
  then show ?case using edit_script_deletes [of "x # xs"] by simp
qed (simp add: edit_script_inserts)

lemma edit_distance_lev: "edit_distance (lev a b) a b"
  by (simp add: edit_distance_def edit_script_lev edit_script_lev_le)

lemma edit_distance_lev_rev: "edit_distance (lev (rev a) (rev b)) a b"
proof -
  have "edit_script (lev (rev a) (rev b)) a b"
    using edit_script_rev [OF edit_script_lev [of "rev a" "rev b"]] by simp
  then show ?thesis by (auto simp: edit_distance_def intro: edit_script_lev_le edit_script_rev)
qed

section \<open>The loop computes the distance\<close>

text \<open>Row \<open>i\<close> of the table: distances from the prefix \<open>u\<close> of \<open>a\<close> to all prefixes of \<open>b\<close>.\<close>

definition levTable :: "string \<Rightarrow> string \<Rightarrow> nat list" where
  "levTable u b = map (\<lambda>j. lev (rev u) (rev (take j b))) [0..<length b + 1]"

lemma levTable_Nil: "levTable [] b = [0..<length b + 1]"
  by (rule nth_equalityI) (auto simp: levTable_def simp del: upt_Suc)

lemma levRow_step:
  assumes "k \<le> length b"
  shows "levRow x (drop k b)
           (map (\<lambda>j. lev (rev u) (rev (take j b))) [k..<length b + 1])
           (lev (rev (u @ [x])) (rev (take k b)))
         = map (\<lambda>j. lev (rev (u @ [x])) (rev (take j b))) [k + 1..<length b + 1]"
  using assms
proof (induction "length b - k" arbitrary: k)
  case 0
  then show ?case by simp
next
  case (Suc n)
  then have k: "k < length b" by simp
  let ?L = "\<lambda>j. lev (rev u) (rev (take j b))"
  let ?M = "\<lambda>j. lev (rev (u @ [x])) (rev (take j b))"
  have d: "drop k b = b ! k # drop (Suc k) b" using k by (simp add: Cons_nth_drop_Suc)
  have t: "rev (take (Suc k) b) = b ! k # rev (take k b)" using k by (simp add: take_Suc_conv_app_nth)
  have m: "map ?L [k..<length b + 1] = ?L k # ?L (Suc k) # map ?L [Suc (Suc k)..<length b + 1]"
    using k by (simp add: upt_conv_Cons)
  have m': "map ?L [Suc k..<length b + 1] = ?L (Suc k) # map ?L [Suc (Suc k)..<length b + 1]"
    using k by (simp add: upt_conv_Cons)
  have v: "(if x = b ! k then ?L k else 1 + min (min (?L k) (?L (Suc k))) (?M k)) = ?M (Suc k)"
  proof (cases "x = b ! k")
    case True
    then show ?thesis by (simp add: t del: lev.simps)
  next
    case False
    then show ?thesis by (simp add: t min_def)
  qed
  have "levRow x (drop k b) (map ?L [k..<length b + 1]) (?M k)
      = ?M (Suc k) # levRow x (drop (Suc k) b) (map ?L [Suc k..<length b + 1]) (?M (Suc k))"
    unfolding d m levRow.simps Let_def v m' ..
  also have "levRow x (drop (Suc k) b) (map ?L [Suc k..<length b + 1]) (?M (Suc k))
      = map ?M [Suc k + 1..<length b + 1]"
    using Suc k by (intro Suc.hyps) auto
  finally show ?case using k by (simp add: upt_conv_Cons)
qed

lemma levRow_table: "Suc (length u) # levRow x b (levTable u b) (Suc (length u)) = levTable (u @ [x]) b"
proof -
  have "levRow x b (levTable u b) (Suc (length u))
      = map (\<lambda>j. lev (rev (u @ [x])) (rev (take j b))) [1..<length b + 1]"
    using levRow_step [of 0 b x u] by (simp add: levTable_def del: upt_Suc)
  moreover have "levTable (u @ [x]) b
      = Suc (length u) # map (\<lambda>j. lev (rev (u @ [x])) (rev (take j b))) [1..<length b + 1]"
    by (simp add: levTable_def upt_conv_Cons del: upt_Suc)
  ultimately show ?thesis by simp
qed

lemma last_levTable: "last (levTable u b) = lev (rev u) (rev b)"
  by (simp add: levTable_def)

lemma levLoop_exact:
  assumes "levLoop th n b (Suc (length u)) xs (levTable u b) \<noteq> 0"
  shows "levLoop th n b (Suc (length u)) xs (levTable u b)
       = 1 - of_nat (lev (rev (u @ xs)) (rev b)) / of_nat (max n (length b))"
  using assms
proof (induction xs arbitrary: u)
  case Nil
  then show ?case by (simp add: last_levTable)
next
  case (Cons x xs)
  let ?go = "levLoop th n b (Suc (length (u @ [x]))) xs (levTable (u @ [x]) b)"
  have "levLoop th n b (Suc (length u)) (x # xs) (levTable u b) \<in> {0, ?go}"
    by (simp only: levLoop.simps Let_def levRow_table) auto
  with Cons.prems have e: "levLoop th n b (Suc (length u)) (x # xs) (levTable u b) = ?go" "?go \<noteq> 0"
    by auto
  from Cons.IH [OF e(2)] show ?case unfolding e(1) by simp
qed

lemma ratio_below_85:
  fixes d m :: nat
  assumes "0 < m" "3 * m < 20 * d"
  shows "1 - of_nat d / of_nat m < (85 / 100 :: rat)"
proof -
  have "(of_nat (3 * m) :: rat) < of_nat (20 * d)" using assms(2) by (simp only: of_nat_less_iff)
  then have "(15 / 100) * (of_nat m :: rat) < of_nat d" by simp
  then have "(15 / 100 :: rat) < of_nat d / of_nat m" using assms(1) by (simp add: pos_less_divide_eq)
  then show ?thesis by simp
qed

lemma levLoop_cutoff:
  assumes "1 - of_nat ((if n > length b then n - length b else length b - n) + (if i < n then n - i else 0))
      / of_nat (max n (length b)) < th"
  shows "levLoop th n b i (x # xs) prev = 0"
  unfolding levLoop.simps Let_def by (simp only: assms if_True if_cancel)

text \<open>With the threshold the program uses, the second cut-off fires on the first row.\<close>

lemma levLoop_first_row_zero:
  assumes "a \<noteq> b" "a \<noteq> []" "b \<noteq> []"
  shows "levLoop (85 / 100) (length a) b 1 a [0..<length b + 1] = 0"
proof (cases a)
  case Nil
  with assms show ?thesis by simp
next
  case (Cons x xs)
  let ?n = "length a" and ?m = "length b"
  let ?d = "(if ?n > ?m then ?n - ?m else ?m - ?n) + (if 1 < ?n then ?n - 1 else 0)"
  show ?thesis
  proof (cases "?n = 1 \<and> ?m = 1")
    case True
    then obtain y where b: "b = [y]" by (cases b) auto
    have a: "a = [x]" using True Cons by simp
    with b assms(1) have "x \<noteq> y" by simp
    then show ?thesis unfolding a b by (simp add: Let_def)
  next
    case False
    have n: "1 \<le> ?n" "1 \<le> ?m" using assms by (cases a; cases b; simp)+
    have "3 * max ?n ?m < 20 * ?d" "0 < max ?n ?m" using False n by (auto simp: max_def)
    then have *: "1 - of_nat ?d / of_nat (max ?n ?m) < (85 / 100 :: rat)"
      by (intro ratio_below_85)
    then show ?thesis unfolding Cons by (rule levLoop_cutoff)
  qed
qed

section \<open>Facts about the search\<close>

lemma indexOnce_bounds: "indexOnce s sub = Ret (Some i) \<Longrightarrow> i + length sub \<le> length s"
  by (auto simp: indexOnce_def split: option.splits if_splits dest: Index_Some_bounds)

lemma indexOnce_slice: "indexOnce s sub = Ret (Some i) \<Longrightarrow> take (length sub) (drop i s) = sub"
  by (auto simp: indexOnce_def split: option.splits if_splits dest: Index_Some_slice)

lemma indexOnce_unique:
  assumes "indexOnce s sub = Ret (Some i)" "prefix sub (drop k s)"
  shows "k = i"
proof -
  from assms(1) have i: "Index s sub = Some i" and n: "Index (drop (i + 1) s) sub = None"
    by (auto simp: indexOnce_def split: option.splits if_splits)
  have "\<not> k < i" using Index_Some_minimal [OF i] assms(2) by blast
  moreover have "\<not> i < k"
    using Index_NoneD [OF n, of "k - (i + 1)"] assms(2) by (auto simp: add.commute)
  ultimately show ?thesis by simp
qed

lemma indexOnce_Panic_iff: "indexOnce s sub = Panic \<longleftrightarrow> s = [] \<and> sub = []"
proof
  assume "indexOnce s sub = Panic"
  then obtain i where "Index s sub = Some i" "length s < i + 1"
    by (auto simp: indexOnce_def split: option.splits if_splits)
  moreover from this have "i + length sub \<le> length s" by (simp add: Index_Some_bounds)
  moreover have "Index s [] = Some 0" by (cases s) auto
  ultimately show "s = [] \<and> sub = []" by (cases sub) auto
qed (simp add: indexOnce_def)

lemma length_Join_pointwise:
  "list_all2 (\<lambda>u v. length u \<le> length v) us vs \<Longrightarrow> length (Join us sep) \<le> length (Join vs sep)"
proof (induction rule: list_all2_induct)
  case (Cons u us v vs)
  show ?case
  proof (cases "us = []")
    case True
    then have "vs = []" using Cons by simp
    with True Cons show ?thesis by simp
  next
    case False
    then have "vs \<noteq> []" using Cons by auto
    with False Cons show ?thesis by (simp add: Join_Cons)
  qed
qed simp

lemma length_normalizeLines_le: "length (normalizeLines s) \<le> length s"
proof -
  have "length (normalizeLines s) \<le> length (Join (Split s newline) [newline])"
    unfolding normalizeLines_def
    by (rule length_Join_pointwise) (simp add: list_all2_conv_all_nth length_TrimRight_le)
  then show ?thesis by simp
qed

lemma fuzzy_end_bound:
  assumes "p + w \<le> length ls" "0 < w"
  shows "sum_list (map (\<lambda>l. length l + 1) (take p ls)) + length (Join (take w (drop p ls)) [newline])
       \<le> length (Join ls [newline])"
  using assms
proof (induction p arbitrary: ls)
  case 0
  then show ?case
  proof (cases "w = length ls")
    case False
    then have "take w ls \<noteq> []" "drop w ls \<noteq> []" using 0 by auto
    then have "Join ls [newline] = Join (take w ls) [newline] @ [newline] @ Join (drop w ls) [newline]"
      by (metis Join_append append_take_drop_id)
    then show ?thesis by simp
  qed simp
next
  case (Suc p)
  then obtain l ls' where l: "ls = l # ls'" by (cases ls) auto
  with Suc.prems have "ls' \<noteq> []" by auto
  then show ?case using Suc l by (simp add: Join_Cons)
qed

lemma onlySimilar_mem:
  "onlySimilar fl sl mp ps = Some p \<Longrightarrow> mp = Some p \<or> p \<in> set ps"
  by (induction fl sl mp ps rule: onlySimilar.induct) (auto split: if_splits option.splits)

lemma candidates_bound:
  assumes "\<And>xs. set (srt xs) \<subseteq> set xs" "p \<in> set (candidates srt fl sl)" "length sl \<le> length fl"
  shows "p + length sl \<le> length fl"
  using assms(2,3) assms(1)
  by (fastforce simp: candidates_def Let_def split: if_splits dest!: in_set_takeD)

lemma fuzzyMatch_bounds:
  assumes "\<And>xs. set (srt xs) \<subseteq> set xs" "fuzzyMatch srt fl sl = Some m"
  shows "Start m \<le> End m \<and> End m \<le> length (Join fl [newline])"
proof -
  from assms(2) obtain p where p: "onlySimilar fl sl None (candidates srt fl sl) = Some p"
    and w: "0 < length sl" "length sl \<le> length fl"
    and m: "m = \<lparr>Start = sum_list (map (\<lambda>l. length l + 1) (take p fl)),
        End = sum_list (map (\<lambda>l. length l + 1) (take p fl)) + length (Join (take (length sl) (drop p fl)) [newline]),
        Method = ''fuzzy''\<rparr>"
    by (auto simp: fuzzyMatch_def Let_def split: if_splits option.splits)
  from onlySimilar_mem [OF p] have "p \<in> set (candidates srt fl sl)" by simp
  from candidates_bound [OF assms(1) this w(2)] have "p + length sl \<le> length fl" by simp
  from fuzzy_end_bound [OF this w(1)] show ?thesis by (simp add: m)
qed

lemma FindMatch_bounds:
  assumes "\<And>xs. set (srt xs) \<subseteq> set xs" "FindMatch srt f s = Ret (Some m)"
  shows "Start m \<le> End m \<and> End m \<le> length f"
proof -
  let ?nf = "normalizeLines f" and ?ns = "normalizeLines s"
  let ?st = "stripBlankEdges ?ns"
  have nf: "length ?nf \<le> length f" by (rule length_normalizeLines_le)
  consider (exact) i where "indexOnce f s = Ret (Some i)" "m = \<lparr>Start = i, End = i + length s, Method = ''exact''\<rparr>"
    | (norm) i sub where "indexOnce ?nf sub = Ret (Some i)" "m = \<lparr>Start = i, End = i + length sub, Method = ''normalized''\<rparr>"
    | (fuzzy) "fuzzyMatch srt (Split ?nf newline) (Split ?st newline) = Some m"
    using assms(2) by (auto simp: FindMatch_def Let_def split: go.splits option.splits if_splits)
  then show ?thesis
  proof cases
    case exact
    then show ?thesis by (auto dest: indexOnce_bounds)
  next
    case norm
    from indexOnce_bounds [OF norm(1)] nf show ?thesis by (simp add: norm(2))
  next
    case fuzzy
    from fuzzyMatch_bounds [OF assms(1) fuzzy] nf show ?thesis by simp
  qed
qed

lemma stripBlankEdges_Nil [simp]: "stripBlankEdges [] = []"
proof -
  have "TrimSpace [] = []"
    by (simp add: TrimSpace_def TrimLeftSpace_id TrimRightSpace_id unicodeSpace_nonempty)
  then show ?thesis by (simp add: stripBlankEdges_def)
qed

lemma normalizeLines_Nil [simp]: "normalizeLines [] = []"
  by (simp add: normalizeLines_def TrimRight_def)

section \<open>Facts about applying\<close>

lemma applyEdit_path: "applyEdit srt sys repo rr e fs = Ret (r, fs') \<Longrightarrow> EntryPath r = FilePath e"
  by (auto simp: applyEdit_def okEntry_def failEntry_def Let_def
      split: option.splits lstat.splits sum.splits if_splits go.splits prod.splits)

lemma createFile_path: "EntryPath (fst (createFile sys repo rr nf fs)) = NewFilePath nf"
  by (auto simp: createFile_def okEntry_def failEntry_def Let_def
      split: option.splits sum.splits if_splits prod.splits)

lemma applyAll_paths:
  assumes "\<And>e fs r fs'. f e fs = Ret (r, fs') \<Longrightarrow> EntryPath r = p e"
  shows "applyAll f es fs = Ret (rs, fs') \<Longrightarrow> map EntryPath rs = map p es"
proof (induction es arbitrary: fs rs)
  case (Cons e es)
  then obtain r fs1 rs' where f: "f e fs = Ret (r, fs1)" "applyAll f es fs1 = Ret (rs', fs')" "rs = r # rs'"
    by (auto split: go.splits)
  then show ?case using assms [OF f(1)] Cons.IH [OF f(2)] by simp
qed simp

text \<open>The only writes go to the joined path of an entry the guard accepts.\<close>

definition inRepo :: "string \<Rightarrow> string \<Rightarrow> bool" where
  "inRepo repoDir p \<longleftrightarrow> (\<exists>q. rejectUnsafePath q = None \<and> p = JoinPath repoDir q)"

lemma applyEdit_frame:
  assumes "\<And>p c fs. inRepo repo p \<Longrightarrow> P fs \<Longrightarrow> P (snd (WriteFile sys p c fs))"
    "P fs" "applyEdit srt sys repo rr e fs = Ret (r, fs')"
  shows "P fs'"
proof -
  from assms(3) have "fs' = fs \<or> (\<exists>c y. rejectUnsafePath (FilePath e) = None
      \<and> WriteFile sys (JoinPath repo (FilePath e)) c fs = (y, fs'))"
    by (auto simp: applyEdit_def Let_def
        split: option.splits lstat.splits sum.splits if_splits go.splits prod.splits)
  then show ?thesis using assms(1,2) by (metis inRepo_def snd_conv)
qed

lemma createFile_frame:
  assumes "\<And>p c fs. inRepo repo p \<Longrightarrow> P fs \<Longrightarrow> P (snd (WriteFile sys p c fs))"
    "\<And>p fs. inRepo repo p \<Longrightarrow> P fs \<Longrightarrow> P (snd (MkdirAll sys (Dir p) fs))" "P fs"
  shows "P (snd (createFile sys repo rr nf fs))"
proof (cases "rejectUnsafePath (NewFilePath nf)")
  case None
  then have i: "inRepo repo (JoinPath repo (NewFilePath nf))" by (auto simp: inRepo_def)
  obtain x fs1 where m: "MkdirAll sys (Dir (JoinPath repo (NewFilePath nf))) fs = (x, fs1)" by fastforce
  with assms(2) [OF i assms(3)] have p1: "P fs1" by simp
  have p2: "P fs2" if "WriteFile sys (JoinPath repo (NewFilePath nf)) (NewContent nf) fs1 = (y, fs2)" for y fs2
    using assms(1) [OF i p1, of "NewContent nf"] that by simp
  show ?thesis
    using None m p1 p2 by (auto simp: createFile_def Let_def split: option.splits sum.splits prod.splits)
next
  case (Some e)
  then show ?thesis using assms(3) by (simp add: createFile_def)
qed

lemma applyAll_frame:
  assumes "\<And>e fs r fs'. P fs \<Longrightarrow> f e fs = Ret (r, fs') \<Longrightarrow> P fs'"
  shows "P fs \<Longrightarrow> applyAll f es fs = Ret (rs, fs') \<Longrightarrow> P fs'"
proof (induction es arbitrary: fs rs)
  case (Cons e es)
  then show ?case by (fastforce split: go.splits dest: assms)
qed simp

lemma applyAll_Panic:
  "applyAll f es fs = Panic \<Longrightarrow> \<exists>e fs'. e \<in> set es \<and> f e fs' = Panic"
proof (induction es arbitrary: fs)
  case (Cons e es)
  then show ?case by (fastforce split: go.splits prod.splits)
qed simp

section \<open>Properties\<close>

text \<open>
  C3. The row-by-row loop with its two early exits is a correct similarity: whenever it does not
  give up (answer 0), its answer is \<open>1 - d / max(len a, len b)\<close> for the least number \<open>d\<close> of
  insertions, deletions and substitutions that turn \<open>a\<close> into \<open>b\<close>.
\<close>

theorem levenshtein_ratio_exact:
  assumes "LevenshteinRatio a b threshold \<noteq> 0"
  shows "\<exists>d. edit_distance d a b
     \<and> LevenshteinRatio a b threshold = 1 - of_nat d / of_nat (max (length a) (length b))"
proof (cases "a = b")
  case True
  have "edit_script 0 b b" by (induction b) (auto intro: edit_script.intros)
  then show ?thesis using True by (intro exI [of _ 0]) (simp add: edit_distance_def LevenshteinRatio_def)
next
  case False
  let ?r = "levLoop threshold (length a) b (Suc (length ([] :: string))) a (levTable [] b)"
  have r: "LevenshteinRatio a b threshold = ?r" "?r \<noteq> 0"
    using assms False by (auto simp: LevenshteinRatio_def levTable_Nil split: if_splits)
  have "?r = 1 - of_nat (lev (rev a) (rev b)) / of_nat (max (length a) (length b))"
    using levLoop_exact [OF r(2)] by simp
  then show ?thesis using r(1) edit_distance_lev_rev [of a b] by auto
qed

theorem levenshtein_ratio_exact_witness:
  "LevenshteinRatio ''kitten stew soup'' ''kitten stew soap'' (1 / 100) = 15 / 16
   \<and> (\<exists>d. edit_distance d ''kitten stew soup'' ''kitten stew soap''
       \<and> LevenshteinRatio ''kitten stew soup'' ''kitten stew soap'' (1 / 100)
         = 1 - of_nat d / of_nat (max (length ''kitten stew soup'') (length ''kitten stew soap'')))"
proof -
  have e: "LevenshteinRatio ''kitten stew soup'' ''kitten stew soap'' (1 / 100) = 15 / 16"
    by code_simp
  then have "LevenshteinRatio ''kitten stew soup'' ''kitten stew soap'' (1 / 100) \<noteq> 0" by simp
  from levenshtein_ratio_exact [OF this] e show ?thesis by blast
qed

text \<open>
  With the threshold \<open>FUZZY_THRESHOLD = 0.85\<close> that \<open>FindMatch\<close> passes, the second early exit
  (which charges the rows that are still to come as if each had to cost an edit) fires on the
  first row of every pair of different lines: the similarity of two lines is 1 when they are
  equal and 0 otherwise, so no line with so much as one changed byte counts as similar.
\<close>

theorem fuzzy_similarity_is_equality:
  "LevenshteinRatio a b (85 / 100) = (if a = b then 1 else 0)"
  by (simp add: LevenshteinRatio_def levLoop_first_row_zero [unfolded One_nat_def, simplified])

text \<open>
  C4. Every place \<open>FindMatch\<close> reports lies inside the file that was read, so slicing the file
  there cannot panic; an exact match is the only occurrence of the search text.
\<close>

theorem find_match_in_file:
  assumes "\<And>xs. set (srt xs) \<subseteq> set xs" "FindMatch srt f s = Ret (Some m)"
  shows "Start m \<le> End m \<and> End m \<le> length f
     \<and> (Method m = ''exact'' \<longrightarrow>
          take (End m - Start m) (drop (Start m) f) = s
          \<and> (\<forall>k. prefix s (drop k f) \<longrightarrow> k = Start m))"
proof -
  have "indexOnce f s = Ret (Some (Start m)) \<and> End m = Start m + length s" if "Method m = ''exact''"
    using assms(2) that
    by (auto simp: FindMatch_def fuzzyMatch_def Let_def split: go.splits option.splits if_splits)
  then show ?thesis
    using FindMatch_bounds [OF assms] by (auto dest: indexOnce_slice indexOnce_unique)
qed

lemma FindMatch_exact_sample:
  "FindMatch id ''one two'' ''two'' = Ret (Some \<lparr>Start = 4, End = 7, Method = ''exact''\<rparr>)"
  by code_simp

theorem find_match_in_file_witness:
  "FindMatch id ''one two'' ''two'' = Ret (Some \<lparr>Start = 4, End = 7, Method = ''exact''\<rparr>)
   \<and> take 3 (drop 4 ''one two'') = ''two''"
  using find_match_in_file [OF _ FindMatch_exact_sample] FindMatch_exact_sample by simp

text \<open>
  C5. \<open>FindMatch\<close> panics exactly when the file has nothing but trailing white space on one line,
  the search text is blank, and the search text does not occur exactly once as it is: then the
  second search slices the empty normalised file from position 1.
\<close>

theorem find_match_panics_iff:
  "FindMatch srt f s = Panic \<longleftrightarrow>
     normalizeLines f = '''' \<and> stripBlankEdges (normalizeLines s) = ''''
     \<and> (\<forall>i. indexOnce f s \<noteq> Ret (Some i))"
proof (cases "indexOnce f s")
  case Panic
  then show ?thesis using indexOnce_Panic_iff [of f s] by (simp add: FindMatch_def)
next
  case (Ret x)
  have P: "indexOnce [] [] = Panic" by (simp add: indexOnce_Panic_iff)
  have N: "sub \<noteq> [] \<Longrightarrow> indexOnce [] sub = Ret None" for sub by (simp add: indexOnce_def)
  show ?thesis
  proof (cases x)
    case (Some i)
    then show ?thesis using Ret by (simp add: FindMatch_def)
  next
    case None
    show ?thesis
    proof (cases "normalizeLines f = ''''")
      case True
      consider "normalizeLines s = []"
        | "normalizeLines s \<noteq> []" "stripBlankEdges (normalizeLines s) = []"
        | "normalizeLines s \<noteq> []" "stripBlankEdges (normalizeLines s) \<noteq> []" by blast
      then show ?thesis
      proof cases
        case 1
        then show ?thesis using True Ret None P by (simp add: FindMatch_def Let_def)
      next
        case 2
        then show ?thesis using True Ret None P N [OF 2(1)] by (simp add: FindMatch_def Let_def)
      next
        case 3
        then show ?thesis using True Ret None N [OF 3(1)] N [OF 3(2)] by (simp add: FindMatch_def Let_def)
      qed
    next
      case False
      then have "indexOnce (normalizeLines f) sub \<noteq> Panic" for sub by (simp add: indexOnce_Panic_iff)
      then show ?thesis using Ret None False
        by (auto simp: FindMatch_def Let_def split: go.splits option.splits)
    qed
  qed
qed

text \<open>
  A match found after normalising line ends is a position in the normalised file, but the
  edit is spliced into the file as read. When a line before the end of the match has trailing
  white space the two differ and the file is corrupted: replacing \<open>x\ny = 1\<close> by \<open>x\ny = 2\<close> in
  a file whose first line is \<open>x\<close> and two blanks leaves \<open>x\ny = 2 1\nz\<close>.
\<close>

theorem normalized_match_corrupts_file:
  "\<exists>m. FindMatch id (''x  '' @ [newline] @ ''y = 1'' @ [newline] @ ''z'') (''x'' @ [newline] @ ''y = 1'') = Ret (Some m)
     \<and> Method m = ''normalized''
     \<and> splice (''x  '' @ [newline] @ ''y = 1'' @ [newline] @ ''z'') m (''x'' @ [newline] @ ''y = 2'')
       = ''x'' @ [newline] @ ''y = 2 1'' @ [newline] @ ''z''"
proof -
  have "FindMatch id (''x  '' @ [newline] @ ''y = 1'' @ [newline] @ ''z'') (''x'' @ [newline] @ ''y = 1'')
      = Ret (Some \<lparr>Start = 0, End = 7, Method = ''normalized''\<rparr>)"
    by code_simp
  then show ?thesis by (auto simp: splice_def)
qed

text \<open>
  A normalised match is right when the file has no trailing white space to begin with: the
  replaced range is then exactly the normalised search text, possibly without its blank edges.
\<close>

theorem normalized_match_correct_on_clean_file:
  assumes "FindMatch srt f s = Ret (Some m)" "Method m = ''normalized''" "normalizeLines f = f"
  shows "take (End m - Start m) (drop (Start m) f)
     \<in> {normalizeLines s, stripBlankEdges (normalizeLines s)}"
  using assms
  by (auto simp: FindMatch_def fuzzyMatch_def Let_def dest: indexOnce_slice
      split: go.splits option.splits if_splits)

lemma FindMatch_normalized_sample:
  "FindMatch id ''a b'' ''b '' = Ret (Some \<lparr>Start = 2, End = 3, Method = ''normalized''\<rparr>)"
  by code_simp

theorem normalized_match_correct_on_clean_file_witness:
  "take 1 (drop 2 ''a b'') \<in> {normalizeLines ''b '', stripBlankEdges (normalizeLines ''b '')}"
proof -
  have "normalizeLines ''a b'' = ''a b''" by code_simp
  from normalized_match_correct_on_clean_file [OF FindMatch_normalized_sample _ this] show ?thesis by simp
qed


text \<open>A file system of one file, and the calls on it.\<close>

definition oneFile :: "(string \<times> string) os" where
  "oneFile =
     \<lparr>EvalSymlinks = (\<lambda>fs p. Inr p), Lstat = (\<lambda>fs p. OtherFile),
      ReadFile = (\<lambda>fs p. if p = fst fs then Inr (snd fs) else Inl ''no such file''),
      WriteFile = (\<lambda>p c fs. if p = fst fs then (None, (p, c)) else (Some ''no such file'', fs)),
      MkdirAll = (\<lambda>p fs. (None, fs))\<rparr>"

lemma ApplyEdits_sample:
  "ApplyEdits id oneFile ''/r'' [\<lparr>FilePath = ''a'', SearchText = ''two'', ReplaceText = ''2''\<rparr>] [] (''/r/a'', ''one two'')
     = Ret (Inr \<lparr>Applied = [okEntry ''a''], Created = [], TotalApplied = 1, TotalFailed = 0\<rparr>, (''/r/a'', ''one 2''))"
  by code_simp


text \<open>
  A run of \<open>ApplyEdits\<close> reports one entry per edit and one per new file, in order, and its
  two totals add up to their number.
\<close>

theorem apply_edits_accounts_for_everything:
  assumes "ApplyEdits srt sys repoDir edits newFiles fs = Ret (Inr r, fs')"
  shows "map EntryPath (Applied r) = map FilePath edits
     \<and> map EntryPath (Created r) = map NewFilePath newFiles
     \<and> TotalApplied r + TotalFailed r = length edits + length newFiles"
proof -
  obtain rr applied fs1 created where
    1: "applyAll (applyEdit srt sys repoDir rr) edits fs = Ret (applied, fs1)" and
    2: "applyAll (\<lambda>nf fs. Ret (createFile sys repoDir rr nf fs)) newFiles fs1 = Ret (created, fs')" and
    r: "r = \<lparr>Applied = applied, Created = created,
        TotalApplied = length (filter Success applied) + length (filter Success created),
        TotalFailed = length (filter (Not \<circ> Success) applied) + length (filter (Not \<circ> Success) created)\<rparr>"
    using assms by (auto simp: ApplyEdits_def split: go.splits sum.splits)
  have a: "map EntryPath applied = map FilePath edits"
    using applyAll_paths [OF applyEdit_path 1] .
  have "EntryPath x = NewFilePath nf" if "Ret (createFile sys repoDir rr nf a) = Ret (x, b)" for nf a x b
    using createFile_path [of sys repoDir rr nf a] that by simp
  from applyAll_paths [OF this 2] have c: "map EntryPath created = map NewFilePath newFiles" .
  have l: "length applied = length edits" "length created = length newFiles"
    using arg_cong [OF a, of length] arg_cong [OF c, of length] by simp_all
  have "length (filter Success xs) + length (filter (Not \<circ> Success) xs) = length xs" for xs
    using sum_length_filter_compl [of Success xs] by (simp add: comp_def)
  from this [of applied] this [of created] l a c show ?thesis by (simp add: r)
qed

theorem apply_edits_accounts_for_everything_witness:
  "map EntryPath (Applied \<lparr>Applied = [okEntry ''a''], Created = [], TotalApplied = 1, TotalFailed = 0\<rparr>) = [''a'']"
  using apply_edits_accounts_for_everything [OF ApplyEdits_sample] by simp

end
