(* ===== verification/Ids.thy ===== *)
theory Ids
  imports GoStrings
begin

text \<open>
  Identifiers: \<open>GenerateID\<close> of \<open>go-shared/id.go\<close> (a millisecond timestamp and ten random bytes
  in lower-case base 32, cut to 25 characters) and the pattern \<open>^[a-z0-9]{20,36}$\<close> by which the
  delegation validator and the stream relay recognise a session id.
\<close>

section \<open>Definitions\<close>

definition encodingAlphabet :: string where
  "encodingAlphabet = ''0123456789abcdefghjkmnpqrstvwxyz''"

text \<open>The bits of a byte, the highest first.\<close>

definition byteBits :: "nat \<Rightarrow> bool list" where
  "byteBits n = map (\<lambda>i. odd (n div 2 ^ (7 - i))) [0..<8]"

definition bitsVal :: "bool list \<Rightarrow> nat" where
  "bitsVal bs = fold (\<lambda>b n. 2 * n + (if b then 1 else 0)) bs 0"

text \<open>\<open>base32\<close> without padding: five bits per character, the last group filled with zeros.\<close>

function encodeGroups :: "bool list \<Rightarrow> string" where
  "encodeGroups bs =
     (if bs = [] then []
      else encodingAlphabet ! bitsVal (take 5 (bs @ replicate 4 False)) # encodeGroups (drop 5 bs))"
  by pat_completeness auto
termination by (relation "measure length") auto

declare encodeGroups.simps [simp del]

definition EncodeToString :: "nat list \<Rightarrow> string" where
  "EncodeToString bytes = encodeGroups (concat (map byteBits bytes))"

definition timestampBytes :: "nat \<Rightarrow> nat list" where
  "timestampBytes timestamp = map (\<lambda>i. (timestamp div 2 ^ (56 - i * 8)) mod 256) [0..<8]"

definition GenerateID :: "nat \<Rightarrow> nat list \<Rightarrow> string" where
  "GenerateID timestamp randomBytes =
     map asciiLower (take 25 (EncodeToString (timestampBytes timestamp @ randomBytes)))"

definition idChar :: "char \<Rightarrow> bool" where
  "idChar c = (let n = (of_char c :: nat) in (97 \<le> n \<and> n \<le> 122) \<or> (48 \<le> n \<and> n \<le> 57))"

definition validSessionID :: "string \<Rightarrow> bool" where
  "validSessionID s = (20 \<le> length s \<and> length s \<le> 36 \<and> list_all idChar s)"

section \<open>Lemmas\<close>

lemma bitsVal_fold: "fold (\<lambda>b n. 2 * n + (if b then 1 else 0)) bs k = k * 2 ^ length bs + bitsVal bs"
proof (induction bs arbitrary: k)
  case (Cons b bs)
  show ?case using Cons [of "2 * k + (if b then 1 else 0)"] Cons [of "if b then 1 else 0"]
    by (simp add: bitsVal_def algebra_simps)
qed (simp add: bitsVal_def)

lemma bitsVal_Nil [simp]: "bitsVal [] = 0"
  by (simp add: bitsVal_def)

lemma bitsVal_Cons: "bitsVal (b # bs) = (if b then 2 ^ length bs else 0) + bitsVal bs"
  using bitsVal_fold [of bs "if b then 1 else 0"] by (auto simp: bitsVal_def)

lemma bitsVal_less: "bitsVal bs < 2 ^ length bs"
  by (induction bs) (auto simp: bitsVal_Cons)

lemma bitsVal_inj: "length xs = length ys \<Longrightarrow> bitsVal xs = bitsVal ys \<Longrightarrow> xs = ys"
proof (induction xs ys rule: list_induct2)
  case (Cons x xs y ys)
  have "bitsVal xs < 2 ^ length ys" "bitsVal ys < 2 ^ length ys"
    using bitsVal_less [of xs] bitsVal_less [of ys] Cons.hyps by auto
  then show ?case using Cons by (cases x; cases y) (auto simp: bitsVal_Cons)
qed simp

lemma length_byteBits [simp]: "length (byteBits n) = 8"
  by (simp add: byteBits_def)

lemma length_bits: "length (concat (map byteBits bytes)) = 8 * length bytes"
  by (induction bytes) auto

lemma length_encodingAlphabet [simp]: "length encodingAlphabet = 32"
  by (simp add: encodingAlphabet_def)

lemma distinct_encodingAlphabet: "distinct encodingAlphabet"
  by (simp add: encodingAlphabet_def)

lemma alphabet_chars: "c \<in> set encodingAlphabet \<Longrightarrow> idChar c \<and> asciiLower c = c"
  by (auto simp: encodingAlphabet_def idChar_def asciiLower_def)

lemma group_index: "bs \<noteq> [] \<Longrightarrow> bitsVal (take 5 (bs @ replicate 4 False)) < 32"
proof -
  define g where "g = take 5 (bs @ replicate 4 False)"
  assume "bs \<noteq> []"
  then have "length g = 5" unfolding g_def by (cases bs) auto
  with bitsVal_less [of g] have "bitsVal g < 2 ^ 5" by metis
  then show ?thesis by (simp add: g_def)
qed

lemma set_encodeGroups: "set (encodeGroups bs) \<subseteq> set encodingAlphabet"
proof (induction bs rule: encodeGroups.induct)
  case (1 bs)
  then show ?case using group_index [of bs] by (auto simp: encodeGroups.simps [of bs])
qed

lemma length_encodeGroups: "length (encodeGroups bs) = (length bs + 4) div 5"
proof (induction bs rule: encodeGroups.induct)
  case (1 bs)
  show ?case
  proof (cases "bs = []")
    case False
    then have "0 < length bs" by simp
    then have "Suc ((length bs - 5 + 4) div 5) = (length bs + 4) div 5"
    proof (cases "5 \<le> length bs")
      case True
      then obtain k where "length bs = k + 5" by (metis le_add_diff_inverse2)
      then show ?thesis by simp
    next
      case small: False
      then have "length bs \<in> {1, 2, 3, 4}" using \<open>0 < length bs\<close> by (simp only: insert_iff) linarith
      then show ?thesis by auto
    qed
    then show ?thesis using 1 False by (simp add: encodeGroups.simps [of bs])
  qed (simp add: encodeGroups.simps)
qed

text \<open>Whole groups can be read back from the characters.\<close>

lemma take_group: "take (5 * Suc k) zs = take 5 zs @ take (5 * k) (drop 5 zs)"
  using take_add [of 5 "5 * k" zs] by simp

lemma encodeGroups_whole_inj:
  assumes "take k (encodeGroups xs) = take k (encodeGroups ys)" "5 * k \<le> length xs" "5 * k \<le> length ys"
  shows "take (5 * k) xs = take (5 * k) ys"
  using assms
proof (induction k arbitrary: xs ys)
  case (Suc k)
  then have n: "xs \<noteq> []" "ys \<noteq> []" "5 \<le> length xs" "5 \<le> length ys" by auto
  let ?g = "\<lambda>zs. bitsVal (take 5 (zs @ replicate 4 False))"
  have e: "encodingAlphabet ! ?g xs = encodingAlphabet ! ?g ys"
    "take k (encodeGroups (drop 5 xs)) = take k (encodeGroups (drop 5 ys))"
    using Suc.prems(1) n by (simp_all add: encodeGroups.simps [of xs] encodeGroups.simps [of ys])
  from e(1) have "?g xs = ?g ys"
    using group_index [OF n(1)] group_index [OF n(2)] distinct_encodingAlphabet
    by (simp add: nth_eq_iff_index_eq)
  moreover have "take 5 (zs @ replicate 4 False) = take 5 zs" if "5 \<le> length zs" for zs
    using that by simp
  ultimately have "bitsVal (take 5 xs) = bitsVal (take 5 ys)" using n by metis
  then have f: "take 5 xs = take 5 ys" using n bitsVal_inj [of "take 5 xs" "take 5 ys"] by simp
  have "take (5 * k) (drop 5 xs) = take (5 * k) (drop 5 ys)"
    by (rule Suc.IH [OF e(2)]) (use Suc.prems in auto)
  then show ?case using f by (simp only: take_group)
qed simp

lemma bits_of_value: "bitsVal (map (\<lambda>i. odd (n div 2 ^ (k - Suc i))) [0..<k]) = n mod 2 ^ k"
proof (induction k)
  case (Suc k)
  have "map (\<lambda>i. odd (n div 2 ^ (Suc k - Suc i))) [0..<Suc k]
      = odd (n div 2 ^ k) # map (\<lambda>i. odd (n div 2 ^ (k - Suc i))) [0..<k]"
    by (simp add: upt_conv_Cons map_Suc_upt [symmetric] del: upt_Suc)
  then have "bitsVal (map (\<lambda>i. odd (n div 2 ^ (Suc k - Suc i))) [0..<Suc k])
      = (if odd (n div 2 ^ k) then 2 ^ k else 0) + n mod 2 ^ k"
    using Suc by (simp add: bitsVal_Cons)
  also have "\<dots> = 2 ^ k * (n div 2 ^ k mod 2) + n mod 2 ^ k" by (simp add: odd_iff_mod_2_eq_one)
  also have "\<dots> = n mod (2 ^ k * 2)" by (simp add: mod_mult2_eq)
  finally show ?case by (simp add: mult.commute)
qed simp

lemma byteBits_inj: "m < 256 \<Longrightarrow> n < 256 \<Longrightarrow> byteBits m = byteBits n \<Longrightarrow> m = n"
proof -
  have v: "bitsVal (byteBits n) = n mod 256" for n
  proof -
    have "byteBits n = map (\<lambda>i. odd (n div 2 ^ (8 - Suc i))) [0..<8]"
      unfolding byteBits_def by (rule map_cong) auto
    then have "bitsVal (byteBits n) = n mod 2 ^ 8" by (simp only: bits_of_value)
    also have "(2 :: nat) ^ 8 = 256" by simp
    finally show ?thesis .
  qed
  assume "m < 256" "n < 256" "byteBits m = byteBits n"
  then show "m = n" using v [of m] v [of n] by (metis mod_less)
qed

lemma bytes_bits_inj:
  "length xs = length ys \<Longrightarrow> \<forall>n \<in> set xs \<union> set ys. n < 256
     \<Longrightarrow> concat (map byteBits xs) = concat (map byteBits ys) \<Longrightarrow> xs = ys"
  by (induction xs ys rule: list_induct2) (auto dest: byteBits_inj)

lemma same_bytes:
  fixes m n :: nat
  assumes "\<And>j. j < k \<Longrightarrow> (m div 256 ^ j) mod 256 = (n div 256 ^ j) mod 256"
  shows "m mod 256 ^ k = n mod 256 ^ k"
  using assms
proof (induction k)
  case (Suc k)
  have "x mod 256 ^ Suc k = 256 ^ k * (x div 256 ^ k mod 256) + x mod 256 ^ k" for x :: nat
    using mod_mult2_eq [of x "256 ^ k" 256] by (simp add: mult.commute)
  then show ?case using Suc by simp
qed simp

lemma timestampBytes_inj:
  assumes "timestampBytes m = timestampBytes n"
  shows "m mod 2 ^ 64 = n mod 2 ^ 64"
proof -
  have "(m div 256 ^ j) mod 256 = (n div 256 ^ j) mod 256" if "j < 8" for j
  proof -
    have "timestampBytes m ! (7 - j) = timestampBytes n ! (7 - j)" using assms by simp
    moreover have "(2 :: nat) ^ (56 - (7 - j) * 8) = 256 ^ j"
    proof -
      have "56 - (7 - j) * 8 = 8 * j" using that by simp
      then show ?thesis by (simp only: power_mult) simp
    qed
    moreover have "timestampBytes x ! (7 - j) = (x div 2 ^ (56 - (7 - j) * 8)) mod 256" for x
      unfolding timestampBytes_def by (subst nth_map_upt) (use that in auto)
    ultimately show ?thesis by simp
  qed
  then have "m mod 256 ^ 8 = n mod 256 ^ 8" by (rule same_bytes)
  then show ?thesis by simp
qed

section \<open>Properties\<close>



end
