(* ===== verification/Store.thy ===== *)
theory Store
  imports Ids
begin

text \<open>
  The data store that the bot's services share: the row types of \<open>go-shared/models.go\<close>, the
  status types of \<open>go-shared/types.go\<close>, and what a call on \<open>DB\<close> (\<open>go-shared/db.go\<close>) does.

  The database is a record of tables; a table is the list of its rows in insertion order, and
  \<open>ORDER BY\<close> keeps that order among rows that compare equal. Besides the tables the record
  carries what the environment decides: \<open>faults\<close> says of each statement still to come whether
  the driver fails it and with which text; \<open>clock\<close> and \<open>ticks\<close> are the current time and how far
  it advances before each later reading; \<open>entropy\<close> are the blocks of random bytes to be read;
  \<open>cteFirst\<close> is the order in which PostgreSQL runs a data-modifying \<open>WITH\<close> clause and the
  statement it belongs to, which the manual leaves open. An arbitrary record therefore stands
  for an arbitrary environment. Times are milliseconds, the resolution of the schema.
\<close>

section \<open>Status types\<close>

datatype DelegatedTaskStatus = TaskPending | TaskClaimed | TaskRunning | TaskDone | TaskFailed | TaskCancelled

datatype SessionStatus =
    SessionPending | SessionRunning | SessionDone | SessionError
  | SessionWaitingForClarification | SessionCancelling | SessionCancelled | SessionPartial

datatype ExecutionMode = ModeContainer | ModeDirect | ModeReview

datatype ClarificationStatus = ClarificationPending | ClarificationAnswered | ClarificationExpired

datatype LLMProvider =
    Anthropic | OpenAI | Google | Venice | Groq | Together | Fireworks | Custom

datatype Platform = Discord | Slack

datatype UsageType = VoiceMinutes | ContainerSeconds | TaskCount | LLMTokens

section \<open>Rows\<close>

record Agent =
  a_ID :: string
  a_UserID :: string
  a_Name :: string
  a_Role :: string
  a_APIKeyID :: "string option"
  a_CanDelegateTo :: "string list"
  a_MaxCostPerTask :: rat
  a_MaxDelegationDepth :: int
  a_Personality :: string
  a_VoiceID :: string
  a_ScopeConfig :: string
  a_AutonomyLevel :: string
  a_CreatedAt :: nat
  a_UpdatedAt :: nat

record Session =
  s_ID :: string
  s_UserID :: string
  s_AgentID :: string
  s_Task :: string
  s_Status :: SessionStatus
  s_ExecutionMode :: ExecutionMode
  s_Output :: "string option"
  s_BranchName :: "string option"
  s_PrURL :: "string option"
  s_Repo :: "string option"
  s_ParentSessionID :: "string option"
  s_ChainID :: "string option"
  s_Position :: int
  s_StartedAt :: "nat option"
  s_FinishedAt :: "nat option"
  s_ShareToken :: "string option"
  s_ShareTokenExpiresAt :: "nat option"
  s_CoverageData :: "string option"
  s_Starred :: bool
  s_PlatformThreadID :: "string option"
  s_PlatformUserID :: "string option"
  s_ScheduleID :: "string option"
  s_CreatedAt :: nat
  s_UpdatedAt :: nat

record DelegationContext =
  x_Summary :: string
  x_RelevantFiles :: "string list"
  x_GitDiff :: "string option"
  x_ParentSessionOutput :: "string option"
  x_Repo :: "string option"

text \<open>The context column holds a JSON document: \<open>None\<close> is one that does not decode.\<close>

record DelegatedTask =
  t_ID :: string
  t_UserID :: string
  t_ParentSessionID :: "string option"
  t_ChildSessionID :: "string option"
  t_FromAgentID :: string
  t_ToAgentID :: string
  t_Description :: string
  t_Priority :: int
  t_Status :: DelegatedTaskStatus
  t_ErrorMessage :: "string option"
  t_BlockedBy :: "string list"
  t_Context :: "DelegationContext option"
  t_MaxCostUSD :: "rat option"
  t_ActualCostUSD :: "rat option"
  t_ClaimedAt :: "nat option"
  t_CompletedAt :: "nat option"
  t_CreatedAt :: nat

record TaskLock =
  l_ID :: string
  l_UserID :: string
  l_SessionID :: string
  l_AgentID :: string
  l_FilePath :: string
  l_LockedAt :: nat
  l_ExpiresAt :: nat

record DelegationEvent =
  e_ID :: string
  e_UserID :: string
  e_FromSessionID :: string
  e_ToSessionID :: "string option"
  e_FromAgentID :: string
  e_ToAgentID :: string
  e_Action :: string
  e_Reason :: "string option"
  e_CostUSD :: "rat option"
  e_Timestamp :: nat

record AgentSchedule =
  c_ID :: string
  c_UserID :: string
  c_AgentID :: string
  c_Name :: string
  c_Task :: string
  c_CronExpression :: string
  c_Timezone :: string
  c_IsActive :: bool
  c_NextRunAt :: nat
  c_LastRunAt :: "nat option"
  c_LastStatus :: "string option"
  c_RunCount :: nat
  c_FailureCount :: nat
  c_CreatedAt :: nat
  c_UpdatedAt :: nat

record User =
  us_ID :: string
  us_Email :: string
  us_PasswordHash :: string
  us_CreatedAt :: nat

record GithubConnection =
  gh_ID :: string
  gh_UserID :: string
  gh_GithubUsername :: string
  gh_GithubToken :: string
  gh_Repos :: "string list"
  gh_WebhookSecret :: "string option"
  gh_IssueLabel :: "string option"
  gh_CreatedAt :: nat

record ApiKey =
  ak_ID :: string
  ak_UserID :: string
  ak_Provider :: LLMProvider
  ak_APIKey :: string
  ak_Label :: string
  ak_BaseURL :: "string option"
  ak_ModelID :: "string option"
  ak_CreatedAt :: nat

record Workspace =
  wk_ID :: string
  wk_UserID :: string
  wk_Platform :: Platform
  wk_PlatformID :: string
  wk_BotToken :: "string option"
  wk_BotUserID :: "string option"
  wk_TeamName :: "string option"
  wk_ConnectedAt :: nat

record ConversationHistory =
  ch_ID :: string
  ch_WorkspaceID :: string
  ch_AgentID :: string
  ch_Role :: string
  ch_Content :: string
  ch_CreatedAt :: nat

record UsageRecord =
  ur_ID :: string
  ur_UserID :: string
  ur_Type :: UsageType
  ur_Quantity :: rat
  ur_Metadata :: "string option"
  ur_SessionID :: "string option"
  ur_RecordedAt :: nat

record Clarification =
  cl_ID :: string
  cl_SessionID :: string
  cl_Question :: string
  cl_Answer :: "string option"
  cl_Status :: ClarificationStatus
  cl_AskedAt :: nat
  cl_AnsweredAt :: "nat option"

record IssuePipeline =
  ip_ID :: string
  ip_UserID :: string
  ip_AgentID :: string
  ip_Repo :: string
  ip_IssueNumber :: int
  ip_IssueTitle :: string
  ip_IssueBody :: string
  ip_IssueLabels :: "string list"
  ip_Status :: string
  ip_PrNumber :: "int option"
  ip_PrURL :: "string option"
  ip_BranchName :: "string option"
  ip_ErrorMessage :: "string option"
  ip_SessionID :: "string option"
  ip_StartedAt :: "nat option"
  ip_FinishedAt :: "nat option"
  ip_CreatedAt :: nat
  ip_UpdatedAt :: nat

record db =
  db_agents :: "Agent list"
  db_sessions :: "Session list"
  db_tasks :: "DelegatedTask list"
  db_locks :: "TaskLock list"
  db_events :: "DelegationEvent list"
  db_schedules :: "AgentSchedule list"
  db_users :: "User list"
  db_github :: "GithubConnection list"
  db_apiKeys :: "ApiKey list"
  db_workspaces :: "Workspace list"
  db_history :: "ConversationHistory list"
  db_usage :: "UsageRecord list"
  db_clarifications :: "Clarification list"
  db_pipelines :: "IssuePipeline list"
  faults :: "string option list"
  clock :: nat
  ticks :: "nat list"
  entropy :: "nat list list"
  cteFirst :: bool

text \<open>A row for concrete examples.\<close>

definition sampleSession :: "string \<Rightarrow> Session" where
  "sampleSession i = \<lparr>s_ID = i, s_UserID = ''u'', s_AgentID = ''a'', s_Task = ''work'', s_Status = SessionRunning,
     s_ExecutionMode = ModeDirect, s_Output = None, s_BranchName = None, s_PrURL = None, s_Repo = None,
     s_ParentSessionID = None, s_ChainID = None, s_Position = 0, s_StartedAt = None, s_FinishedAt = None,
     s_ShareToken = None, s_ShareTokenExpiresAt = None, s_CoverageData = None, s_Starred = False, s_PlatformThreadID = None,
     s_PlatformUserID = None, s_ScheduleID = None, s_CreatedAt = 0, s_UpdatedAt = 0\<rparr>"

definition emptyDb :: db where
  "emptyDb = \<lparr>db_agents = [], db_sessions = [], db_tasks = [], db_locks = [], db_events = [], db_schedules = [],
     db_users = [], db_github = [], db_apiKeys = [], db_workspaces = [], db_history = [], db_usage = [], db_clarifications = [],
     db_pipelines = [], faults = [], clock = 0, ticks = [], entropy = [], cteFirst = False\<rparr>"

section \<open>Calls\<close>

text \<open>Whether the driver fails the next statement.\<close>

definition statement :: "db \<Rightarrow> string option \<times> db" where
  "statement d = (case faults d of [] \<Rightarrow> (None, d) | f # fs \<Rightarrow> (f, d\<lparr>faults := fs\<rparr>))"

text \<open>\<open>time.Now()\<close>.\<close>

definition timeNow :: "db \<Rightarrow> nat \<times> db" where
  "timeNow d =
     (case ticks d of
        [] \<Rightarrow> (clock d, d)
      | t # ts \<Rightarrow> (clock d + t, d\<lparr>clock := clock d + t, ticks := ts\<rparr>))"

text \<open>\<open>GenerateID()\<close>: reads the clock and ten random bytes.\<close>

definition newID :: "db \<Rightarrow> string \<times> db" where
  "newID d =
     (let (now, d1) = timeNow d in
      case entropy d1 of
        [] \<Rightarrow> (GenerateID now (replicate 10 0), d1)
      | r # rs \<Rightarrow> (GenerateID now r, d1\<lparr>entropy := rs\<rparr>))"

text \<open>\<open>ExecContext\<close> of a statement that changes tables, with the error wrapped.\<close>

definition execStmt :: "string \<Rightarrow> (db \<Rightarrow> db) \<Rightarrow> db \<Rightarrow> unit result \<times> db" where
  "execStmt msg upd d =
     (case statement d of
        (Some e, d1) \<Rightarrow> (Inl (msg @ '': '' @ e), d1)
      | (None, d1) \<Rightarrow> (Inr (), upd d1))"

text \<open>The same for a statement that the constraints of the schema may reject.\<close>

definition execChecked :: "string \<Rightarrow> (db \<Rightarrow> string option) \<Rightarrow> (db \<Rightarrow> db) \<Rightarrow> db \<Rightarrow> unit result \<times> db" where
  "execChecked msg chk upd d =
     (case statement d of
        (Some e, d1) \<Rightarrow> (Inl (msg @ '': '' @ e), d1)
      | (None, d1) \<Rightarrow>
          (case chk d1 of
             Some e \<Rightarrow> (Inl (msg @ '': '' @ e), d1)
           | None \<Rightarrow> (Inr (), upd d1)))"

text \<open>
  \<open>v, err := m(); if err != nil { return fmt.Errorf("msg: %w", err) }\<close> followed by the rest of
  the function.
\<close>

definition tryCall ::
    "string \<Rightarrow> (db \<Rightarrow> 'a result \<times> db) \<Rightarrow> ('a \<Rightarrow> db \<Rightarrow> 'b result \<times> db) \<Rightarrow> db \<Rightarrow> 'b result \<times> db" where
  "tryCall msg m k d =
     (case m d of
        (Inl e, d1) \<Rightarrow> (Inl (msg @ '': '' @ e), d1)
      | (Inr v, d1) \<Rightarrow> k v d1)"

text \<open>\<open>QueryRowContext(...).Scan(...)\<close>, where \<open>sql.ErrNoRows\<close> is not an error.\<close>

definition queryRow :: "string \<Rightarrow> (db \<Rightarrow> 'a option) \<Rightarrow> db \<Rightarrow> 'a option result \<times> db" where
  "queryRow msg sel d =
     (case statement d of
        (Some e, d1) \<Rightarrow> (Inl (msg @ '': '' @ e), d1)
      | (None, d1) \<Rightarrow> (Inr (sel d1), d1))"

text \<open>
  \<open>QueryContext\<close> and the loop over its rows: the query, the scan of a row (if there is one) and
  \<open>rows.Err()\<close> can fail, each with its own wrapping.
\<close>

definition queryRows ::
    "string \<Rightarrow> string \<Rightarrow> string \<Rightarrow> (db \<Rightarrow> 'a list) \<Rightarrow> db \<Rightarrow> 'a list result \<times> db" where
  "queryRows qmsg smsg imsg sel d =
     (case statement d of
        (Some e, d1) \<Rightarrow> (Inl (qmsg @ '': '' @ e), d1)
      | (None, d1) \<Rightarrow>
          (case (if sel d1 = [] then (None, d1) else statement d1) of
             (Some e, d2) \<Rightarrow> (Inl (smsg @ '': '' @ e), d2)
           | (None, d2) \<Rightarrow>
               (case statement d2 of
                  (Some e, d3) \<Rightarrow> (Inl (imsg @ '': '' @ e), d3)
                | (None, d3) \<Rightarrow> (Inr (sel d1), d3))))"

text \<open>A negative \<open>LIMIT\<close> or \<open>OFFSET\<close> is refused by the server.\<close>

definition pageError :: "int \<Rightarrow> int \<Rightarrow> string option" where
  "pageError limit offset =
     (if limit < 0 then Some ''pq: LIMIT must not be negative''
      else if offset < 0 then Some ''pq: OFFSET must not be negative''
      else None)"

definition queryPage ::
    "string \<Rightarrow> string \<Rightarrow> string \<Rightarrow> int \<Rightarrow> int \<Rightarrow> (db \<Rightarrow> 'a list) \<Rightarrow> db \<Rightarrow> 'a list result \<times> db" where
  "queryPage qmsg smsg imsg limit offset sel d =
     (case pageError limit offset of
        Some e \<Rightarrow> (Inl (qmsg @ '': '' @ e), d)
      | None \<Rightarrow> queryRows qmsg smsg imsg (\<lambda>d. take (nat limit) (drop (nat offset) (sel d))) d)"

definition updateRows :: "('r \<Rightarrow> bool) \<Rightarrow> ('r \<Rightarrow> 'r) \<Rightarrow> 'r list \<Rightarrow> 'r list" where
  "updateRows P f rs = map (\<lambda>r. if P r then f r else r) rs"

definition deleteRows :: "('r \<Rightarrow> bool) \<Rightarrow> 'r list \<Rightarrow> 'r list" where
  "deleteRows P rs = filter (\<lambda>r. \<not> P r) rs"

text \<open>\<open>ORDER BY key DESC\<close>; ascending order is \<open>sort_key\<close>.\<close>

definition orderDesc :: "('r \<Rightarrow> 'k :: linorder) \<Rightarrow> 'r list \<Rightarrow> 'r list" where
  "orderDesc k rs = rev (sort_key k (rev rs))"


definition duplicateKey :: string where
  "duplicateKey = ''pq: duplicate key value violates unique constraint''"

definition foreignKey :: string where
  "foreignKey = ''pq: insert or update violates foreign key constraint''"

section \<open>What the environment calls leave alone\<close>

definition tables where
  "tables d = (db_agents d, db_sessions d, db_tasks d, db_locks d, db_events d, db_schedules d, db_users d, db_github d,
     db_apiKeys d, db_workspaces d, db_history d, db_usage d, db_clarifications d, db_pipelines d)"

lemma tables_eqD:
  "tables d' = tables d \<Longrightarrow> db_agents d' = db_agents d"
  "tables d' = tables d \<Longrightarrow> db_sessions d' = db_sessions d"
  "tables d' = tables d \<Longrightarrow> db_tasks d' = db_tasks d"
  "tables d' = tables d \<Longrightarrow> db_locks d' = db_locks d"
  "tables d' = tables d \<Longrightarrow> db_events d' = db_events d"
  "tables d' = tables d \<Longrightarrow> db_schedules d' = db_schedules d"
  "tables d' = tables d \<Longrightarrow> db_users d' = db_users d"
  "tables d' = tables d \<Longrightarrow> db_github d' = db_github d"
  "tables d' = tables d \<Longrightarrow> db_apiKeys d' = db_apiKeys d"
  "tables d' = tables d \<Longrightarrow> db_workspaces d' = db_workspaces d"
  "tables d' = tables d \<Longrightarrow> db_history d' = db_history d"
  "tables d' = tables d \<Longrightarrow> db_usage d' = db_usage d"
  "tables d' = tables d \<Longrightarrow> db_clarifications d' = db_clarifications d"
  "tables d' = tables d \<Longrightarrow> db_pipelines d' = db_pipelines d"
  by (simp_all add: tables_def)

lemma statement_tables: "statement d = (e, d') \<Longrightarrow> tables d' = tables d"
  by (auto simp: statement_def tables_def split: list.splits)

lemma timeNow_tables: "timeNow d = (n, d') \<Longrightarrow> tables d' = tables d"
  by (auto simp: timeNow_def tables_def split: list.splits)

lemma newID_tables: "newID d = (i, d') \<Longrightarrow> tables d' = tables d"
  by (auto simp: newID_def tables_def timeNow_def Let_def split: list.splits prod.splits)

lemma statement_other:
  "statement d = (e, d') \<Longrightarrow> clock d' = clock d \<and> ticks d' = ticks d \<and> entropy d' = entropy d \<and> cteFirst d' = cteFirst d"
  by (auto simp: statement_def split: list.splits)

lemma timeNow_other:
  "timeNow d = (n, d') \<Longrightarrow> faults d' = faults d \<and> entropy d' = entropy d \<and> cteFirst d' = cteFirst d
     \<and> clock d' = n \<and> clock d \<le> n"
  by (auto simp: timeNow_def split: list.splits)

lemma newID_other:
  "newID d = (i, d') \<Longrightarrow> faults d' = faults d \<and> cteFirst d' = cteFirst d \<and> clock d \<le> clock d'"
  by (auto simp: newID_def timeNow_def Let_def split: list.splits)

text \<open>A fault-free environment fails no statement.\<close>

lemma statement_no_faults [simp]: "faults d = [] \<Longrightarrow> statement d = (None, d)"
  by (simp add: statement_def)

lemma queryRows_no_faults [simp]: "faults d = [] \<Longrightarrow> queryRows a b c sel d = (Inr (sel d), d)"
  by (simp add: queryRows_def)

lemma queryRow_no_faults [simp]: "faults d = [] \<Longrightarrow> queryRow a sel d = (Inr (sel d), d)"
  by (simp add: queryRow_def)

lemma execStmt_no_faults [simp]: "faults d = [] \<Longrightarrow> execStmt a upd d = (Inr (), upd d)"
  by (simp add: execStmt_def)

lemma execChecked_no_faults [simp]:
  "faults d = [] \<Longrightarrow> execChecked a chk upd d
     = (case chk d of None \<Rightarrow> (Inr (), upd d) | Some e \<Rightarrow> (Inl (a @ '': '' @ e), d))"
  by (simp add: execChecked_def split: option.splits)

lemma queryRow_tables: "queryRow msg sel d = (r, d') \<Longrightarrow> tables d' = tables d"
  by (auto simp: queryRow_def split: prod.splits option.splits dest: statement_tables)

lemma queryRow_result:
  assumes "queryRow msg sel d = (Inr x, d')"
  shows "x = sel d'"
  using assms by (auto simp: queryRow_def split: prod.splits option.splits)

lemma queryRows_tables: "queryRows a b c sel d = (r, d') \<Longrightarrow> tables d' = tables d"
  by (auto simp: queryRows_def split: prod.splits option.splits if_splits dest!: statement_tables)

lemma queryRows_result:
  assumes "queryRows a b c sel d = (Inr x, d')"
    and "\<And>u v. tables u = tables v \<Longrightarrow> sel u = sel v"
  shows "x = sel d"
proof -
  obtain e d1 where st: "statement d = (e, d1)" by (cases "statement d")
  with assms(1) have "x = sel d1"
    by (auto simp: queryRows_def split: prod.splits option.splits if_splits)
  also have "sel d1 = sel d" using st by (intro assms(2)) (rule statement_tables)
  finally show ?thesis .
qed

lemma execStmt_Inl: "execStmt msg upd d = (Inl e, d') \<Longrightarrow> tables d' = tables d"
  by (auto simp: execStmt_def split: prod.splits option.splits dest: statement_tables)

lemma execStmt_Inr:
  "execStmt msg upd d = (Inr (), d') \<Longrightarrow> \<exists>d1. tables d1 = tables d \<and> d' = upd d1"
  by (auto simp: execStmt_def split: prod.splits option.splits dest: statement_tables)

lemma execChecked_Inl: "execChecked msg chk upd d = (Inl e, d') \<Longrightarrow> tables d' = tables d"
  by (auto simp: execChecked_def split: prod.splits option.splits dest: statement_tables)

lemma execChecked_Inr:
  "execChecked msg chk upd d = (Inr (), d') \<Longrightarrow> \<exists>d1. tables d1 = tables d \<and> chk d1 = None \<and> d' = upd d1"
  by (auto simp: execChecked_def split: prod.splits option.splits dest: statement_tables)

lemma queryPage_tables: "queryPage a b c l k sel d = (r, d') \<Longrightarrow> tables d' = tables d"
  by (auto simp: queryPage_def split: option.splits dest: queryRows_tables)

lemma queryPage_result:
  assumes "queryPage a b c l k sel d = (Inr x, d')"
    and "\<And>u v. tables u = tables v \<Longrightarrow> sel u = sel v"
  shows "0 \<le> l \<and> 0 \<le> k \<and> x = take (nat l) (drop (nat k) (sel d))"
proof -
  have l: "0 \<le> l" "0 \<le> k" using assms(1) by (auto simp: queryPage_def pageError_def split: if_splits)
  then have "queryRows a b c (\<lambda>d. take (nat l) (drop (nat k) (sel d))) d = (Inr x, d')"
    using assms(1) by (simp add: queryPage_def pageError_def)
  then have "x = take (nat l) (drop (nat k) (sel d))"
    by (rule queryRows_result) (metis assms(2))
  with l show ?thesis by simp
qed

lemma tryCall_Inr:
  "tryCall msg m k d = (Inr x, d') \<Longrightarrow> \<exists>v d1. m d = (Inr v, d1) \<and> k v d1 = (Inr x, d')"
  by (auto simp: tryCall_def split: prod.splits sum.splits)

section \<open>Calls that read, calls that keep an invariant\<close>

definition readOnly :: "(db \<Rightarrow> 'a \<times> db) \<Rightarrow> bool" where
  "readOnly m \<longleftrightarrow> (\<forall>d. tables (snd (m d)) = tables d)"

lemma readOnlyD: "readOnly m \<Longrightarrow> m d = (r, d') \<Longrightarrow> tables d' = tables d"
  by (metis readOnly_def snd_conv)

lemma readOnlyI: "(\<And>d r d'. m d = (r, d') \<Longrightarrow> tables d' = tables d) \<Longrightarrow> readOnly m"
  unfolding readOnly_def by (metis prod.collapse)

named_theorems readonly \<open>calls that leave every table as it is\<close>

lemma readOnly_return [readonly]: "readOnly (Pair x)" "readOnly (\<lambda>d. (x, d))"
  by (simp_all add: readOnly_def)

lemma readOnly_case_option [readonly]:
  "readOnly A \<Longrightarrow> (\<And>x. readOnly (B x)) \<Longrightarrow> readOnly (\<lambda>d. case v of None \<Rightarrow> A d | Some x \<Rightarrow> B x d)"
  by (cases v) simp_all

lemma readOnly_if [readonly]: "readOnly A \<Longrightarrow> readOnly B \<Longrightarrow> readOnly (\<lambda>d. if b then A d else B d)"
  by (cases b) simp_all

lemma readOnly_queryRow [readonly]: "readOnly (queryRow msg sel)"
  by (rule readOnlyI) (rule queryRow_tables)

lemma readOnly_queryRows [readonly]: "readOnly (queryRows a b c sel)"
  by (rule readOnlyI) (rule queryRows_tables)

lemma readOnly_queryPage [readonly]: "readOnly (queryPage a b c l k sel)"
  by (rule readOnlyI) (rule queryPage_tables)

lemma readOnly_timeNow [readonly]: "readOnly timeNow"
  by (rule readOnlyI) (rule timeNow_tables)

lemma readOnly_tryCall [readonly]:
  assumes "readOnly m" "\<And>v. readOnly (k v)"
  shows "readOnly (tryCall msg m k)"
proof (rule readOnlyI)
  fix d r d' assume t: "tryCall msg m k d = (r, d')"
  obtain x d1 where m: "m d = (x, d1)" by (cases "m d")
  with t readOnlyD [OF assms(2)] readOnlyD [OF assms(1) m] show "tables d' = tables d"
    by (cases x) (auto simp: tryCall_def)
qed

text \<open>
  The interface of an invariant of the tables: it only depends on the tables. Every composed
  call then keeps it when its parts do; the theories interpret this for their invariants.
\<close>

locale table_invariant =
  fixes I :: "db \<Rightarrow> bool"
  assumes I_tables: "tables d' = tables d \<Longrightarrow> I d \<Longrightarrow> I d'"
begin

definition kept :: "(db \<Rightarrow> 'a \<times> db) \<Rightarrow> bool" where
  "kept m \<longleftrightarrow> (\<forall>d. I d \<longrightarrow> I (snd (m d)))"

lemma keptI: "(\<And>d r d'. I d \<Longrightarrow> m d = (r, d') \<Longrightarrow> I d') \<Longrightarrow> kept m"
  unfolding kept_def by (metis prod.collapse)

lemma keptD: "kept m \<Longrightarrow> m d = (r, d') \<Longrightarrow> I d \<Longrightarrow> I d'"
  unfolding kept_def by (metis snd_conv)

lemma kept_snd: "kept m \<Longrightarrow> I d \<Longrightarrow> I (snd (m d))"
  by (simp add: kept_def)

lemma kept_readOnly: "readOnly m \<Longrightarrow> kept m"
  unfolding kept_def readOnly_def using I_tables by blast

lemma kept_tryCall:
  assumes "kept m" "\<And>v. kept (k v)"
  shows "kept (tryCall msg m k)"
proof (rule keptI)
  fix d r d' assume i: "I d" and t: "tryCall msg m k d = (r, d')"
  obtain x d1 where m: "m d = (x, d1)" by (cases "m d")
  from keptD [OF assms(1) m i] keptD [OF assms(2)] t m show "I d'" by (cases x) (auto simp: tryCall_def)
qed

lemma kept_case_option:
  "kept A \<Longrightarrow> (\<And>x. kept (B x)) \<Longrightarrow> kept (\<lambda>d. case v of None \<Rightarrow> A d | Some x \<Rightarrow> B x d)"
  by (cases v) simp_all

lemma kept_if: "kept A \<Longrightarrow> kept B \<Longrightarrow> kept (\<lambda>d. if b then A d else B d)"
  by (cases b) simp_all

lemma kept_finish: "(\<And>d. I d \<Longrightarrow> I (g d)) \<Longrightarrow> kept (\<lambda>d. (x, g d))"
  by (simp add: kept_def)

lemma kept_execStmt:
  assumes "\<And>d. I d \<Longrightarrow> I (upd d)"
  shows "kept (execStmt msg upd)"
proof (rule keptI)
  fix d r d' assume i: "I d" and e: "execStmt msg upd d = (r, d')"
  show "I d'"
  proof (cases r)
    case (Inl x)
    with I_tables [OF execStmt_Inl i] e show ?thesis by simp
  next
    case (Inr x)
    then obtain d1 where "tables d1 = tables d" "d' = upd d1" using execStmt_Inr e by (metis old.unit.exhaust)
    with assms I_tables i show ?thesis by blast
  qed
qed

lemma kept_execChecked:
  assumes "\<And>d. I d \<Longrightarrow> chk d = None \<Longrightarrow> I (upd d)"
  shows "kept (execChecked msg chk upd)"
proof (rule keptI)
  fix d r d' assume i: "I d" and e: "execChecked msg chk upd d = (r, d')"
  show "I d'"
  proof (cases r)
    case (Inl x)
    with I_tables [OF execChecked_Inl i] e show ?thesis by simp
  next
    case (Inr x)
    then obtain d1 where "tables d1 = tables d" "chk d1 = None" "d' = upd d1"
      using execChecked_Inr e by (metis old.unit.exhaust)
    with assms I_tables i show ?thesis by blast
  qed
qed

lemma kept_timeNow:
  assumes "\<And>now. kept (k now)"
  shows "kept (\<lambda>d. let (now, d1) = timeNow d in k now d1)"
proof (rule keptI)
  fix d r d' assume i: "I d" and e: "(let (now, d1) = timeNow d in k now d1) = (r, d')"
  obtain now d1 where t: "timeNow d = (now, d1)" by (cases "timeNow d")
  from keptD [OF assms _ I_tables [OF timeNow_tables [OF t] i]] e t show "I d'" by simp
qed

lemma kept_newRow:
  assumes "\<And>i now. kept (k i now)"
  shows "kept (\<lambda>d. let (i, d1) = newID d; (now, d2) = timeNow d1 in k i now d2)"
proof (rule keptI)
  fix d r d' assume i: "I d" and e: "(let (i, d1) = newID d; (now, d2) = timeNow d1 in k i now d2) = (r, d')"
  obtain x d1 where n: "newID d = (x, d1)" by (cases "newID d")
  obtain now d2 where t: "timeNow d1 = (now, d2)" by (cases "timeNow d1")
  from keptD [OF assms _ I_tables [OF timeNow_tables [OF t] I_tables [OF newID_tables [OF n] i]]] e n t
  show "I d'" by simp
qed

lemma kept_bind:
  assumes "kept m" "\<And>v. kept (k v)"
  shows "kept (\<lambda>d. case m d of (Inl e, d1) \<Rightarrow> (Inl e, d1) | (Inr v, d1) \<Rightarrow> k v d1)"
proof (rule keptI)
  fix d r d' assume i: "I d" and e: "(case m d of (Inl e, d1) \<Rightarrow> (Inl e, d1) | (Inr v, d1) \<Rightarrow> k v d1) = (r, d')"
  obtain x d1 where m: "m d = (x, d1)" by (cases "m d")
  from keptD [OF assms(1) m i] keptD [OF assms(2)] e m show "I d'" by (cases x) auto
qed

end

section \<open>Tables\<close>

lemma updateRows_length [table_simps]: "length (updateRows P f rs) = length rs"
  by (simp add: updateRows_def)

lemma set_updateRows: "r' \<in> set (updateRows P f rs) \<Longrightarrow> \<exists>r \<in> set rs. r' = (if P r then f r else r)"
  by (auto simp: updateRows_def)

lemma updateRows_none: "(\<And>r. r \<in> set rs \<Longrightarrow> \<not> P r) \<Longrightarrow> updateRows P f rs = rs"
  unfolding updateRows_def by (rule map_idI) simp

lemma map_updateRows_keep: "(\<And>r. k (f r) = k r) \<Longrightarrow> map k (updateRows P f rs) = map k rs"
  by (simp add: updateRows_def)

lemma distinct_deleteRows: "distinct (map k rs) \<Longrightarrow> distinct (map k (deleteRows P rs))"
  by (simp add: deleteRows_def distinct_map_filter)

lemma set_deleteRows [table_simps]: "r \<in> set (deleteRows P rs) \<longleftrightarrow> r \<in> set rs \<and> \<not> P r"
  by (auto simp: deleteRows_def)

lemma set_orderDesc [simp]: "set (orderDesc k rs) = set rs"
  by (simp add: orderDesc_def)

lemma orderDesc_Nil [simp]: "orderDesc k rs = [] \<longleftrightarrow> rs = []"
  by (metis set_orderDesc set_empty)

lemma sorted_orderDesc: "sorted_wrt (\<lambda>a b. k b \<le> k a) (orderDesc k rs)"
proof -
  have "sorted (map k (sort_key k (rev rs)))" by simp
  then have "sorted_wrt (\<lambda>a b. k a \<le> k b) (sort_key k (rev rs))" by (simp add: sorted_map)
  then show ?thesis by (simp add: orderDesc_def sorted_wrt_rev)
qed


text \<open>
  The interface of one keyed table of the store: how to read it, how to write it back, and the
  key that the primary-key constraint keeps distinct. Every store theory interprets it for its
  table; the facts below are then facts about the code's statements.
\<close>

locale keyed_table =
  fixes rows :: "'d \<Rightarrow> 'r list"
    and put :: "'r list \<Rightarrow> 'd \<Rightarrow> 'd"
    and key :: "'r \<Rightarrow> 'k"
  assumes rows_put: "rows (put rs d) = rs"
begin

definition keyed :: "'d \<Rightarrow> bool" where
  "keyed d \<longleftrightarrow> distinct (map key (rows d))"

lemma keyed_update:
  assumes "\<And>r. key (f r) = key r" "keyed d"
  shows "keyed (put (updateRows P f (rows d)) d)"
  using assms by (simp add: keyed_def rows_put map_updateRows_keep)

lemma keyed_delete: "keyed d \<Longrightarrow> keyed (put (deleteRows P (rows d)) d)"
  by (simp add: keyed_def rows_put distinct_deleteRows)

lemma keyed_insert:
  "keyed d \<Longrightarrow> key r \<notin> key ` set (rows d) \<Longrightarrow> keyed (put (rows d @ [r]) d)"
  by (simp add: keyed_def rows_put)

lemma lookup_by_key:
  assumes "keyed d" "r \<in> set (rows d)" "P r" "\<And>x. P x \<Longrightarrow> key x = key r"
  shows "List.find P (rows d) = Some r"
  using assms unfolding keyed_def by (rule find_unique)

lemma update_by_key_unique:
  assumes "keyed d" "r \<in> set (rows d)" "x \<in> set (rows d)" "key x = key r"
  shows "x = r"
  using assms unfolding keyed_def by (auto dest: distinct_map_eqD)

end

end
