(* ===== verification/SessionStore.thy ===== *)
theory SessionStore
  imports Store
begin

text \<open>
  The operations of \<open>go-shared/sessions.go\<close> on the table \<open>sessions\<close>, with the constraints of
  \<open>database/schema.sql\<close> (primary key, unique share token, foreign keys; deleting a session sets
  the references to it to \<open>NULL\<close>; the tables that only cascade from it are not modelled). A
  transaction that does not commit leaves the tables as they were. The theorems: a finished
  session is never overwritten by a late result, chains are created all or nothing with their
  links, completing a session of a chain yields its successor, and who may read a shared session.
\<close>

section \<open>Definitions\<close>

record SessionWithAgent =
  w_Session :: Session
  w_AgentName :: string

record SessionChainTask =
  k_AgentID :: string
  k_Task :: string

definition sessionIs :: "string \<Rightarrow> string \<Rightarrow> Session \<Rightarrow> bool" where
  "sessionIs sid userID s = (s_ID s = sid \<and> s_UserID s = userID)"

definition insertSessionError :: "Session \<Rightarrow> db \<Rightarrow> string option" where
  "insertSessionError s d =
     (if list_ex (\<lambda>r. s_ID r = s_ID s) (db_sessions d)
         \<or> (s_ShareToken s \<noteq> None \<and> list_ex (\<lambda>r. s_ShareToken r = s_ShareToken s) (db_sessions d))
      then Some duplicateKey
      else if list_ex (\<lambda>a. a_ID a = s_AgentID s) (db_agents d)
              \<and> (case s_ParentSessionID s of None \<Rightarrow> True
                  | Some i \<Rightarrow> list_ex (\<lambda>r. s_ID r = i) (db_sessions d) \<or> i = s_ID s)
              \<and> (case s_ScheduleID s of None \<Rightarrow> True
                  | Some i \<Rightarrow> list_ex (\<lambda>c. c_ID c = i) (db_schedules d))
      then None
      else Some foreignKey)"

definition insertSession :: "Session \<Rightarrow> db \<Rightarrow> db" where
  "insertSession s d = d\<lparr>db_sessions := db_sessions d @ [s]\<rparr>"

definition CreateSession :: "Session \<Rightarrow> db \<Rightarrow> Session result \<times> db" where
  "CreateSession s d =
     (let (sid, d1) = (if s_ID s = [] then newID d else (s_ID s, d));
          (now, d2) = timeNow d1;
          row = s\<lparr>s_ID := sid, s_CreatedAt := now, s_UpdatedAt := now\<rparr>
      in case execChecked ''create session'' (insertSessionError row) (insertSession row) d2 of
           (Inl e, d3) \<Rightarrow> (Inl e, d3)
         | (Inr _, d3) \<Rightarrow> (Inr row, d3))"

definition GetSession :: "string \<Rightarrow> string \<Rightarrow> db \<Rightarrow> Session option result \<times> db" where
  "GetSession sid userID = queryRow ''get session'' (\<lambda>d. List.find (sessionIs sid userID) (db_sessions d))"

definition GetSessionByID :: "string \<Rightarrow> db \<Rightarrow> Session option result \<times> db" where
  "GetSessionByID sid = queryRow ''get session by id'' (\<lambda>d. List.find (\<lambda>s. s_ID s = sid) (db_sessions d))"

definition GetSessionByShareToken :: "string \<Rightarrow> db \<Rightarrow> Session option result \<times> db" where
  "GetSessionByShareToken shareToken d =
     (let (now, d1) = timeNow d in
      queryRow ''get session by share token''
        (\<lambda>d. List.find (\<lambda>s. s_ShareToken s = Some shareToken
               \<and> (case s_ShareTokenExpiresAt s of None \<Rightarrow> False | Some t \<Rightarrow> now < t)) (db_sessions d)) d1)"

text \<open>The inner join with the session's agent.\<close>

definition withAgent :: "db \<Rightarrow> Session \<Rightarrow> SessionWithAgent option" where
  "withAgent d s =
     map_option (\<lambda>a. \<lparr>w_Session = s, w_AgentName = a_Name a\<rparr>) (List.find (\<lambda>a. a_ID a = s_AgentID s) (db_agents d))"

definition firstWithAgent :: "(Session \<Rightarrow> bool) \<Rightarrow> db \<Rightarrow> SessionWithAgent option" where
  "firstWithAgent P d =
     (case List.map_filter (withAgent d) (filter P (db_sessions d)) of [] \<Rightarrow> None | s # _ \<Rightarrow> Some s)"

definition GetSharedSessionWithAgent :: "string \<Rightarrow> db \<Rightarrow> SessionWithAgent option result \<times> db" where
  "GetSharedSessionWithAgent shareToken =
     queryRow ''get shared session with agent'' (firstWithAgent (\<lambda>s. s_ShareToken s = Some shareToken))"

definition GetWaitingSessionByThreadID :: "string \<Rightarrow> string \<Rightarrow> db \<Rightarrow> SessionWithAgent option result \<times> db" where
  "GetWaitingSessionByThreadID userID threadID =
     queryRow ''get waiting session by thread id''
       (firstWithAgent (\<lambda>s. s_UserID s = userID \<and> s_Status s = SessionWaitingForClarification
          \<and> s_PlatformThreadID s = Some threadID))"

definition sessionMatches ::
    "string \<Rightarrow> SessionStatus option \<Rightarrow> string option \<Rightarrow> bool option \<Rightarrow> Session \<Rightarrow> bool" where
  "sessionMatches userID status agentID starred s =
     (s_UserID s = userID
      \<and> (case status of None \<Rightarrow> True | Some x \<Rightarrow> s_Status s = x)
      \<and> (case agentID of None \<Rightarrow> True | Some x \<Rightarrow> s_AgentID s = x)
      \<and> (case starred of None \<Rightarrow> True | Some x \<Rightarrow> s_Starred s = x))"

definition ListSessions ::
    "string \<Rightarrow> int \<Rightarrow> int \<Rightarrow> SessionStatus option \<Rightarrow> string option \<Rightarrow> bool option \<Rightarrow> db
      \<Rightarrow> (SessionWithAgent list \<times> nat) result \<times> db" where
  "ListSessions userID limit offset status agentID starred d =
     (case queryPage ''list sessions'' ''scan session'' ''list sessions rows'' limit offset
             (\<lambda>d. let rows = List.map_filter (withAgent d)
                           (orderDesc s_CreatedAt (filter (sessionMatches userID status agentID starred) (db_sessions d)))
                  in map (\<lambda>r. (r, length rows)) rows) d of
        (Inl e, d1) \<Rightarrow> (Inl e, d1)
      | (Inr rows, d1) \<Rightarrow> (Inr (map fst rows, if rows = [] then 0 else snd (last rows)), d1))"

definition updateSessions :: "(Session \<Rightarrow> bool) \<Rightarrow> (Session \<Rightarrow> Session) \<Rightarrow> db \<Rightarrow> db" where
  "updateSessions P f d = d\<lparr>db_sessions := updateRows P f (db_sessions d)\<rparr>"

definition UpdateSessionStatus :: "string \<Rightarrow> SessionStatus \<Rightarrow> db \<Rightarrow> unit result \<times> db" where
  "UpdateSessionStatus sid status d =
     (let (now, d1) = timeNow d;
          f = (if status = SessionRunning then
                 (\<lambda>s. s\<lparr>s_Status := status, s_StartedAt := Some now, s_UpdatedAt := now\<rparr>)
               else if status \<in> {SessionDone, SessionError, SessionPartial, SessionCancelled} then
                 (\<lambda>s. s\<lparr>s_Status := status, s_FinishedAt := Some now, s_UpdatedAt := now\<rparr>)
               else (\<lambda>s. s\<lparr>s_Status := status, s_UpdatedAt := now\<rparr>))
      in execStmt ''update session status'' (updateSessions (\<lambda>s. s_ID s = sid) f) d1)"

definition UpdateSessionOutput :: "string \<Rightarrow> string \<Rightarrow> db \<Rightarrow> unit result \<times> db" where
  "UpdateSessionOutput sid output d =
     (let (now, d1) = timeNow d in
      execStmt ''update session output''
        (updateSessions (\<lambda>s. s_ID s = sid) (\<lambda>s. s\<lparr>s_Output := Some output, s_UpdatedAt := now\<rparr>)) d1)"

definition setResult ::
    "SessionStatus \<Rightarrow> string option \<Rightarrow> string option \<Rightarrow> string option \<Rightarrow> nat \<Rightarrow> Session \<Rightarrow> Session" where
  "setResult status output branchName prURL now s =
     s\<lparr>s_Status := status, s_Output := output, s_BranchName := branchName, s_PrURL := prURL,
       s_FinishedAt := Some now, s_UpdatedAt := now\<rparr>"

definition UpdateSessionResult ::
    "string \<Rightarrow> SessionStatus \<Rightarrow> string option \<Rightarrow> string option \<Rightarrow> string option \<Rightarrow> db \<Rightarrow> unit result \<times> db" where
  "UpdateSessionResult sid status output branchName prURL d =
     (let (now, d1) = timeNow d in
      execStmt ''update session result''
        (updateSessions (\<lambda>s. s_ID s = sid) (setResult status output branchName prURL now)) d1)"

definition closedStatus :: "SessionStatus \<Rightarrow> bool" where
  "closedStatus st = (st \<in> {SessionCancelled, SessionError, SessionDone})"

text \<open>An \<open>UPDATE\<close> or \<open>DELETE\<close> whose \<open>RowsAffected\<close> is then asked for.\<close>

definition execCount ::
    "string \<Rightarrow> string \<Rightarrow> (db \<Rightarrow> nat) \<Rightarrow> (db \<Rightarrow> db) \<Rightarrow> db \<Rightarrow> nat result \<times> db" where
  "execCount msg cmsg count upd d =
     (case statement d of
        (Some e, d1) \<Rightarrow> (Inl (msg @ '': '' @ e), d1)
      | (None, d1) \<Rightarrow>
          (case statement (upd d1) of
             (Some e, d2) \<Rightarrow> (Inl (cmsg @ '': '' @ e), d2)
           | (None, d2) \<Rightarrow> (Inr (count d1), d2)))"

definition UpdateSessionResultIfNotTerminal ::
    "string \<Rightarrow> SessionStatus \<Rightarrow> string option \<Rightarrow> string option \<Rightarrow> string option \<Rightarrow> db \<Rightarrow> bool result \<times> db" where
  "UpdateSessionResultIfNotTerminal sid status output branchName prURL d =
     (let (now, d1) = timeNow d;
          hit = (\<lambda>s. s_ID s = sid \<and> \<not> closedStatus (s_Status s))
      in case execCount ''update session result if not terminal'' ''get rows affected''
                (\<lambda>d. length (filter hit (db_sessions d)))
                (updateSessions hit (setResult status output branchName prURL now)) d1 of
           (Inl e, d2) \<Rightarrow> (Inl e, d2)
         | (Inr rowsAffected, d2) \<Rightarrow> (Inr (rowsAffected > 0), d2))"

definition UpdateSessionStar :: "string \<Rightarrow> string \<Rightarrow> bool \<Rightarrow> db \<Rightarrow> unit result \<times> db" where
  "UpdateSessionStar sid userID starred d =
     (let (now, d1) = timeNow d in
      execStmt ''update session star''
        (updateSessions (sessionIs sid userID) (\<lambda>s. s\<lparr>s_Starred := starred, s_UpdatedAt := now\<rparr>)) d1)"

definition shareTokenError :: "string \<Rightarrow> string \<Rightarrow> string \<Rightarrow> db \<Rightarrow> string option" where
  "shareTokenError sid userID token d =
     (if list_ex (sessionIs sid userID) (db_sessions d)
         \<and> list_ex (\<lambda>s. \<not> sessionIs sid userID s \<and> s_ShareToken s = Some token) (db_sessions d)
      then Some duplicateKey else None)"

definition UpdateSessionShareToken :: "string \<Rightarrow> string \<Rightarrow> string \<Rightarrow> nat \<Rightarrow> db \<Rightarrow> unit result \<times> db" where
  "UpdateSessionShareToken sid userID shareToken expiresAt d =
     (let (now, d1) = timeNow d in
      execChecked ''update session share token'' (shareTokenError sid userID shareToken)
        (updateSessions (sessionIs sid userID)
           (\<lambda>s. s\<lparr>s_ShareToken := Some shareToken, s_ShareTokenExpiresAt := Some expiresAt, s_UpdatedAt := now\<rparr>)) d1)"

definition DeleteSessionShareToken :: "string \<Rightarrow> string \<Rightarrow> db \<Rightarrow> unit result \<times> db" where
  "DeleteSessionShareToken sid userID d =
     (let (now, d1) = timeNow d in
      execStmt ''delete session share token''
        (updateSessions (sessionIs sid userID)
           (\<lambda>s. s\<lparr>s_ShareToken := None, s_ShareTokenExpiresAt := None, s_UpdatedAt := now\<rparr>)) d1)"

definition CancelSession :: "string \<Rightarrow> string \<Rightarrow> db \<Rightarrow> unit result \<times> db" where
  "CancelSession sid userID d =
     (let (now, d1) = timeNow d in
      execStmt ''cancel session''
        (updateSessions (sessionIs sid userID) (\<lambda>s. s\<lparr>s_Status := SessionCancelling, s_UpdatedAt := now\<rparr>)) d1)"

text \<open>
  \<open>ON DELETE SET NULL\<close> in sessions, delegated tasks, usage records and issue pipelines,
  \<open>ON DELETE CASCADE\<close> in clarifications.
\<close>

definition clearRef :: "string list \<Rightarrow> string option \<Rightarrow> string option" where
  "clearRef ids v = (case v of None \<Rightarrow> None | Some i \<Rightarrow> if i \<in> set ids then None else Some i)"

definition deleteSessions :: "(Session \<Rightarrow> bool) \<Rightarrow> db \<Rightarrow> db" where
  "deleteSessions P d =
     (let gone = map s_ID (filter P (db_sessions d))
      in d\<lparr>db_sessions := map (\<lambda>s. s\<lparr>s_ParentSessionID := clearRef gone (s_ParentSessionID s)\<rparr>)
                           (deleteRows P (db_sessions d)),
           db_tasks := map (\<lambda>t. t\<lparr>t_ParentSessionID := clearRef gone (t_ParentSessionID t),
                                  t_ChildSessionID := clearRef gone (t_ChildSessionID t)\<rparr>) (db_tasks d),
           db_usage := map (\<lambda>r. r\<lparr>ur_SessionID := clearRef gone (ur_SessionID r)\<rparr>) (db_usage d),
           db_pipelines := map (\<lambda>p. p\<lparr>ip_SessionID := clearRef gone (ip_SessionID p)\<rparr>) (db_pipelines d),
           db_clarifications := deleteRows (\<lambda>c. cl_SessionID c \<in> set gone) (db_clarifications d)\<rparr>)"

definition DeleteSession :: "string \<Rightarrow> string \<Rightarrow> db \<Rightarrow> unit result \<times> db" where
  "DeleteSession sid userID = execStmt ''delete session'' (deleteSessions (sessionIs sid userID))"

text \<open>
  A transaction: \<open>BeginTx\<close>, the body, \<open>Commit\<close>; on every other way out the deferred \<open>Rollback\<close>
  restores the tables.
\<close>

definition restoreTables :: "db \<Rightarrow> db \<Rightarrow> db" where
  "restoreTables d0 d = d\<lparr>db_agents := db_agents d0, db_sessions := db_sessions d0, db_tasks := db_tasks d0,
     db_locks := db_locks d0, db_events := db_events d0, db_schedules := db_schedules d0, db_users := db_users d0,
     db_github := db_github d0, db_apiKeys := db_apiKeys d0, db_workspaces := db_workspaces d0, db_history := db_history d0,
     db_usage := db_usage d0, db_clarifications := db_clarifications d0, db_pipelines := db_pipelines d0\<rparr>"

definition transaction :: "(db \<Rightarrow> 'a result \<times> db) \<Rightarrow> db \<Rightarrow> 'a result \<times> db" where
  "transaction body d =
     (case statement d of
        (Some e, d1) \<Rightarrow> (Inl (''begin transaction: '' @ e), d1)
      | (None, d1) \<Rightarrow>
          (case body d1 of
             (Inl e, d2) \<Rightarrow> (Inl e, restoreTables d1 d2)
           | (Inr v, d2) \<Rightarrow>
               (case statement d2 of
                  (Some e, d3) \<Rightarrow> (Inl (''commit transaction: '' @ e), restoreTables d1 d3)
                | (None, d3) \<Rightarrow> (Inr v, d3))))"

definition BulkDeleteSessions :: "string \<Rightarrow> string list \<Rightarrow> db \<Rightarrow> nat result \<times> db" where
  "BulkDeleteSessions userID ids =
     (let hit = (\<lambda>s. s_ID s \<in> set ids \<and> s_UserID s = userID) in
      transaction (execCount ''bulk delete sessions'' ''bulk delete rows affected''
        (\<lambda>d. length (filter hit (db_sessions d))) (deleteSessions hit)))"

definition nonTerminal :: "nat \<Rightarrow> Session \<Rightarrow> bool" where
  "nonTerminal now s =
     (s_Status s \<in> {SessionPending, SessionRunning, SessionWaitingForClarification, SessionCancelling}
      \<or> (case s_FinishedAt s of None \<Rightarrow> False | Some t \<Rightarrow> now \<le> t + 5 * 60 * 1000)
        \<and> s_Status s \<in> {SessionDone, SessionError, SessionPartial})"

definition GetNonTerminalSessions :: "string \<Rightarrow> db \<Rightarrow> SessionWithAgent list result \<times> db" where
  "GetNonTerminalSessions userID d =
     (let (now, d1) = timeNow d in
      queryRows ''get non-terminal sessions'' ''scan non-terminal session'' ''get non-terminal sessions rows''
        (\<lambda>d. List.map_filter (withAgent d)
               (orderDesc s_CreatedAt (filter (\<lambda>s. s_UserID s = userID \<and> nonTerminal now s) (db_sessions d)))) d1)"

definition chainSession ::
    "string \<Rightarrow> string \<Rightarrow> nat \<Rightarrow> string \<Rightarrow> SessionChainTask \<Rightarrow> nat \<Rightarrow> string option \<Rightarrow> Session" where
  "chainSession userID chainID now sid task i parent =
     \<lparr>s_ID = sid, s_UserID = userID, s_AgentID = k_AgentID task, s_Task = k_Task task, s_Status = SessionPending,
      s_ExecutionMode = ModeContainer, s_Output = None, s_BranchName = None, s_PrURL = None, s_Repo = None,
      s_ParentSessionID = parent, s_ChainID = Some chainID, s_Position = int i, s_StartedAt = None,
      s_FinishedAt = None, s_ShareToken = None, s_ShareTokenExpiresAt = None, s_CoverageData = None,
      s_Starred = False, s_PlatformThreadID = None, s_PlatformUserID = None, s_ScheduleID = None,
      s_CreatedAt = now, s_UpdatedAt = now\<rparr>"

fun chainLoop ::
    "string \<Rightarrow> string \<Rightarrow> nat \<Rightarrow> nat \<Rightarrow> string option \<Rightarrow> SessionChainTask list \<Rightarrow> db \<Rightarrow> string list result \<times> db" where
  "chainLoop userID chainID now i parent [] d = (Inr [], d)"
| "chainLoop userID chainID now i parent (task # rest) d =
     (let (sid, d1) = newID d;
          row = chainSession userID chainID now sid task i parent
      in case execChecked (''insert session '' @ Itoa i) (insertSessionError row) (insertSession row) d1 of
           (Inl e, d2) \<Rightarrow> (Inl e, d2)
         | (Inr _, d2) \<Rightarrow>
             (case chainLoop userID chainID now (Suc i) (Some sid) rest d2 of
                (Inl e, d3) \<Rightarrow> (Inl e, d3)
              | (Inr ids, d3) \<Rightarrow> (Inr (sid # ids), d3)))"

definition CreateSessionChain :: "string \<Rightarrow> SessionChainTask list \<Rightarrow> db \<Rightarrow> string list result \<times> db" where
  "CreateSessionChain userID tasks d =
     (if tasks = [] then (Inr [], d)
      else
        let (chainID, d1) = newID d;
            (now, d2) = timeNow d1
        in transaction (chainLoop userID chainID now 0 None tasks) d2)"

definition activeSession :: "SessionStatus \<Rightarrow> bool" where
  "activeSession st = (st \<in> {SessionPending, SessionRunning, SessionWaitingForClarification, SessionCancelling})"

definition CountActiveSessions :: "string \<Rightarrow> db \<Rightarrow> nat result \<times> db" where
  "CountActiveSessions userID d =
     (case statement d of
        (Some e, d1) \<Rightarrow> (Inl e, d1)
      | (None, d1) \<Rightarrow>
          (Inr (length (filter (\<lambda>s. s_UserID s = userID \<and> activeSession (s_Status s)) (db_sessions d1))), d1))"

text \<open>The successor: a chain or position that is \<open>NULL\<close> (no such session) equals nothing.\<close>

definition nextInChain :: "string \<Rightarrow> db \<Rightarrow> Session option" where
  "nextInChain sid d =
     (case List.find (\<lambda>s. s_ID s = sid) (db_sessions d) of
        None \<Rightarrow> None
      | Some c \<Rightarrow>
          List.find (\<lambda>s. s_ChainID s \<noteq> None \<and> s_ChainID s = s_ChainID c
             \<and> s_Position s = s_Position c + 1 \<and> s_Status s = SessionPending) (db_sessions d))"

definition CompleteSessionInChain ::
    "string \<Rightarrow> string \<Rightarrow> SessionStatus \<Rightarrow> string option \<Rightarrow> string option \<Rightarrow> string option \<Rightarrow> db
      \<Rightarrow> Session option result \<times> db" where
  "CompleteSessionInChain sessionID userID status output branchName prURL d =
     (let (now, d1) = timeNow d in
      case execStmt ''update completed session''
             (updateSessions (sessionIs sessionID userID) (setResult status output branchName prURL now)) d1 of
        (Inl e, d2) \<Rightarrow> (Inl e, d2)
      | (Inr _, d2) \<Rightarrow> queryRow ''get next session'' (nextInChain sessionID) d2)"

definition GetChainStatus :: "string \<Rightarrow> string \<Rightarrow> db \<Rightarrow> SessionWithAgent list result \<times> db" where
  "GetChainStatus chainID userID =
     queryRows ''query chain status'' ''scan chain session'' ''iterate chain sessions''
       (\<lambda>d. List.map_filter (withAgent d)
              (sort_key s_Position (filter (\<lambda>s. s_ChainID s = Some chainID \<and> s_UserID s = userID) (db_sessions d))))"

definition GetSessionsByStatus :: "string list \<Rightarrow> SessionStatus \<Rightarrow> db \<Rightarrow> string list result \<times> db" where
  "GetSessionsByStatus sessionIDs status d =
     (if sessionIDs = [] then (Inr [], d)
      else queryRows ''get sessions by status'' ''scan session id'' ''get sessions by status rows''
             (\<lambda>d. map s_ID (filter (\<lambda>s. s_ID s \<in> set sessionIDs \<and> s_Status s = status) (db_sessions d))) d)"

definition UpdateSessionPlatformThreadID :: "string \<Rightarrow> string \<Rightarrow> db \<Rightarrow> unit result \<times> db" where
  "UpdateSessionPlatformThreadID sessionID threadID d =
     (let (now, d1) = timeNow d in
      execStmt ''update session platform thread id''
        (updateSessions (\<lambda>s. s_ID s = sessionID) (\<lambda>s. s\<lparr>s_PlatformThreadID := Some threadID, s_UpdatedAt := now\<rparr>)) d1)"

section \<open>Constraints\<close>

definition sessionsOk :: "db \<Rightarrow> bool" where
  "sessionsOk d \<longleftrightarrow> distinct (map s_ID (db_sessions d))
     \<and> (\<forall>s \<in> set (db_sessions d). \<forall>u \<in> set (db_sessions d). s_ShareToken s \<noteq> None \<and> s_ShareToken s = s_ShareToken u \<longrightarrow> s = u)"

interpretation session_table: keyed_table db_sessions "\<lambda>rs d. d\<lparr>db_sessions := rs\<rparr>" s_ID
  by unfold_locales simp

lemma updateSessions_sel [frame_simps]:
  "db_sessions (updateSessions P f d) = updateRows P f (db_sessions d)"
  "db_agents (updateSessions P f d) = db_agents d" "db_tasks (updateSessions P f d) = db_tasks d"
  "db_locks (updateSessions P f d) = db_locks d" "db_events (updateSessions P f d) = db_events d"
  "db_schedules (updateSessions P f d) = db_schedules d" "clock (updateSessions P f d) = clock d"
  "db_clarifications (updateSessions P f d) = db_clarifications d"
  "faults (updateSessions P f d) = faults d" "ticks (updateSessions P f d) = ticks d"
  by (simp_all add: updateSessions_def)

lemma setResult_sel [simp]:
  "s_ID (setResult st ou br pr n s) = s_ID s" "s_Status (setResult st ou br pr n s) = st"
  "s_ChainID (setResult st ou br pr n s) = s_ChainID s" "s_Position (setResult st ou br pr n s) = s_Position s"
  "s_UserID (setResult st ou br pr n s) = s_UserID s" "s_ShareToken (setResult st ou br pr n s) = s_ShareToken s"
  by (simp_all add: setResult_def)

section \<open>Results\<close>

text \<open>What the guarded update does: the statement runs, or the sessions are as before.\<close>

lemma ResultIfNotTerminal_effect:
  assumes "UpdateSessionResultIfNotTerminal sid st ou br pr d = (r, d')"
  defines "hit \<equiv> \<lambda>s. s_ID s = sid \<and> \<not> closedStatus (s_Status s)"
  obtains (failed) e where "r = Inl e" "db_sessions d' = db_sessions d"
  | (ran) "db_sessions d' = updateRows hit (setResult st ou br pr (clock d')) (db_sessions d)"
      "(\<exists>e. r = Inl e) \<or> r = Inr (list_ex hit (db_sessions d))"
proof -
  obtain now d1 where t: "timeNow d = (now, d1)" by (cases "timeNow d")
  obtain e d2 where s: "statement d1 = (e, d2)" by (cases "statement d1")
  let ?u = "updateSessions hit (setResult st ou br pr now) d2"
  obtain e2 d3 where s2: "statement ?u = (e2, d3)" by (cases "statement ?u")
  have same: "db_sessions d2 = db_sessions d"
    using tables_eqD(2) [OF timeNow_tables [OF t]] tables_eqD(2) [OF statement_tables [OF s]] by simp
  have d3: "db_sessions d3 = updateRows hit (setResult st ou br pr now) (db_sessions d)" "clock d3 = now"
    using tables_eqD(2) [OF statement_tables [OF s2]] statement_other [OF s2] statement_other [OF s]
      timeNow_other [OF t] same by (simp_all add: frame_simps)
  have pos: "length (filter hit xs) > 0 \<longleftrightarrow> list_ex hit xs" for xs by (auto simp: list_ex_iff filter_empty_conv)
  note run = assms(1) [unfolded UpdateSessionResultIfNotTerminal_def Let_def t prod.case execCount_def s, folded hit_def]
  show thesis
  proof (cases e)
    case (Some x)
    then show ?thesis using failed run same by auto
  next
    case None
    then have "d' = d3" "(\<exists>e. r = Inl e) \<or> r = Inr (list_ex hit (db_sessions d))"
      using run s2 same pos by (auto split: option.splits)
    then show ?thesis using ran d3 by blast
  qed
qed

lemma ResultIfNotTerminal_no_faults:
  assumes "faults d = []"
  shows "\<exists>b d'. UpdateSessionResultIfNotTerminal sid st ou br pr d = (Inr b, d')"
proof -
  obtain now d1 where t: "timeNow d = (now, d1)" by (cases "timeNow d")
  then have "faults d1 = []" using assms timeNow_other by metis
  then show ?thesis by (simp add: UpdateSessionResultIfNotTerminal_def t execCount_def frame_simps Let_def)
qed

lemma first_final_result_wins_facts:
  assumes "UpdateSessionResultIfNotTerminal sid st ou br pr d = (r, d')"
  shows "\<forall>s \<in> set (db_sessions d). closedStatus (s_Status s) \<longrightarrow> s \<in> set (db_sessions d')"
    and "r = Inr b \<Longrightarrow> b = list_ex (\<lambda>s. s_ID s = sid \<and> \<not> closedStatus (s_Status s)) (db_sessions d)"
    and "r = Inr True \<Longrightarrow> db_sessions d' =
      map (\<lambda>s. if s_ID s = sid \<and> \<not> closedStatus (s_Status s) then setResult st ou br pr (clock d') s else s) (db_sessions d)"
    and "r = Inr b \<Longrightarrow> closedStatus st \<Longrightarrow> UpdateSessionResultIfNotTerminal sid st' ou' br' pr' d' = (Inr b', d'')
      \<Longrightarrow> \<not> b' \<and> db_sessions d'' = db_sessions d'"
proof -
  let ?hit = "\<lambda>s. s_ID s = sid \<and> \<not> closedStatus (s_Status s)"
  have ran: "db_sessions d' = updateRows ?hit (setResult st ou br pr (clock d')) (db_sessions d)" "b = list_ex ?hit (db_sessions d)"
    if "r = Inr b" for b
    using assms that by (cases rule: ResultIfNotTerminal_effect; simp)+
  show "\<forall>s \<in> set (db_sessions d). closedStatus (s_Status s) \<longrightarrow> s \<in> set (db_sessions d')"
    using assms
    by (cases rule: ResultIfNotTerminal_effect) (auto simp: updateRows_def image_iff intro!: bexI)
  show "r = Inr b \<Longrightarrow> b = list_ex ?hit (db_sessions d)" by (rule ran(2))
  show "r = Inr True \<Longrightarrow> db_sessions d' =
      map (\<lambda>s. if ?hit s then setResult st ou br pr (clock d') s else s) (db_sessions d)"
    using ran(1) [of True] by (simp add: updateRows_def)
  assume r: "r = Inr b" and cl: "closedStatus st"
    and again: "UpdateSessionResultIfNotTerminal sid st' ou' br' pr' d' = (Inr b', d'')"
  have none: "\<forall>s \<in> set (db_sessions d'). \<not> ?hit s"
  proof
    fix s assume "s \<in> set (db_sessions d')"
    then have "s \<in> set (updateRows ?hit (setResult st ou br pr (clock d')) (db_sessions d))"
      unfolding ran(1) [OF r] .
    from set_updateRows [OF this]
    obtain x where x: "s = (if ?hit x then setResult st ou br pr (clock d') x else x)" by blast
    show "\<not> ?hit s" using cl unfolding x by (cases "?hit x") simp_all
  qed
  then have upd: "updateRows ?hit f (db_sessions d') = db_sessions d'" for f
    by (intro updateRows_none) blast
  have ex: "\<not> list_ex ?hit (db_sessions d')" using none by (auto simp: list_ex_iff)
  show "\<not> b' \<and> db_sessions d'' = db_sessions d'"
    by (rule ResultIfNotTerminal_effect [OF again]) (simp_all add: upd ex)
qed

text \<open>
  C11. The first final result of a session wins. \<open>UpdateSessionResultIfNotTerminal\<close> leaves every
  session that is done, failed or cancelled untouched, even when a statement fails; it reports success exactly when the
  session was still open, and then only that session has the new result; and once a final status has been recorded, every later call
  reports \<open>false\<close> and changes no session.
\<close>

theorem first_final_result_wins:
  assumes "UpdateSessionResultIfNotTerminal sid st ou br pr d = (r, d')"
  shows "(\<forall>s \<in> set (db_sessions d). closedStatus (s_Status s) \<longrightarrow> s \<in> set (db_sessions d'))
    \<and> (\<forall>b. r = Inr b \<longrightarrow> b = list_ex (\<lambda>s. s_ID s = sid \<and> \<not> closedStatus (s_Status s)) (db_sessions d))
    \<and> (r = Inr True \<longrightarrow> db_sessions d' =
         map (\<lambda>s. if s_ID s = sid \<and> \<not> closedStatus (s_Status s) then setResult st ou br pr (clock d') s else s) (db_sessions d))
    \<and> (\<forall>b st' ou' br' pr' b' d''. r = Inr b \<and> closedStatus st
         \<and> UpdateSessionResultIfNotTerminal sid st' ou' br' pr' d' = (Inr b', d'')
         \<longrightarrow> \<not> b' \<and> db_sessions d'' = db_sessions d')"
proof (rule conjI, rule first_final_result_wins_facts(1) [OF assms], rule conjI, intro allI impI,
    erule first_final_result_wins_facts(2) [OF assms], rule conjI, rule impI,
    erule first_final_result_wins_facts(3) [OF assms], intro allI impI, elim conjE)
  fix b st' ou' br' pr' b' d''
  assume "r = Inr b" "closedStatus st" "UpdateSessionResultIfNotTerminal sid st' ou' br' pr' d' = (Inr b', d'')"
  then show "\<not> b' \<and> db_sessions d'' = db_sessions d'" by (rule first_final_result_wins_facts(4) [OF assms])
qed

definition sessionDb :: "Session list \<Rightarrow> db" where
  "sessionDb ss = \<lparr>db_agents = [\<lparr>a_ID = ''a'', a_UserID = ''u'', a_Name = ''Ada'', a_Role = ''lead'', a_APIKeyID = None,
       a_CanDelegateTo = [], a_MaxCostPerTask = 1, a_MaxDelegationDepth = 3, a_Personality = [], a_VoiceID = [], a_ScopeConfig = ''{}'',
       a_AutonomyLevel = ''standard'', a_CreatedAt = 0, a_UpdatedAt = 0\<rparr>],
     db_sessions = ss, db_tasks = [], db_locks = [], db_events = [], db_schedules = [], db_users = [], db_github = [], db_apiKeys = [],
     db_workspaces = [], db_history = [], db_usage = [], db_clarifications = [], db_pipelines = [], faults = [], clock = 1000,
     ticks = [], entropy = map (replicate 10) [1, 2, 3, 4], cteFirst = False\<rparr>"

theorem first_final_result_wins_witness:
  "\<exists>d' d''. UpdateSessionResultIfNotTerminal ''s1'' SessionCancelled None None None (sessionDb [sampleSession ''s1'']) = (Inr True, d')
     \<and> UpdateSessionResultIfNotTerminal ''s1'' SessionDone (Some ''late'') None None d' = (Inr False, d'')
     \<and> db_sessions d'' = db_sessions d'"
proof -
  let ?d = "sessionDb [sampleSession ''s1'']"
  obtain r d' where a: "UpdateSessionResultIfNotTerminal ''s1'' SessionCancelled None None None ?d = (r, d')"
    by (cases "UpdateSessionResultIfNotTerminal ''s1'' SessionCancelled None None None ?d")
  have "fst (UpdateSessionResultIfNotTerminal ''s1'' SessionCancelled None None None ?d) = Inr True" by code_simp
  with a have r: "r = Inr True" by simp
  have "faults (snd (UpdateSessionResultIfNotTerminal ''s1'' SessionCancelled None None None ?d)) = []" by code_simp
  with a have "faults d' = []" by simp
  then obtain b d'' where b: "UpdateSessionResultIfNotTerminal ''s1'' SessionDone (Some ''late'') None None d' = (Inr b, d'')"
    using ResultIfNotTerminal_no_faults by blast
  show ?thesis
    using first_final_result_wins [OF a, THEN conjunct2, THEN conjunct2, THEN conjunct2, rule_format, OF conjI, OF r conjI, OF _ b] a b r
    by (simp add: closedStatus_def)
qed

section \<open>Chains\<close>

lemma restoreTables_tables [simp]: "tables (restoreTables d0 d) = tables d0"
  by (simp add: restoreTables_def tables_def)

lemma transaction_Inl: "transaction body d = (Inl e, d') \<Longrightarrow> tables d' = tables d"
  by (auto simp: transaction_def split: prod.splits option.splits sum.splits dest!: statement_tables)

lemma transaction_Inr:
  assumes "transaction body d = (Inr v, d')"
  obtains d1 d2 where "tables d1 = tables d" "body d1 = (Inr v, d2)" "tables d' = tables d2"
  using assms by (auto simp: transaction_def split: prod.splits option.splits sum.splits dest!: statement_tables)

text \<open>The rows of a chain from position \<open>i\<close> on.\<close>

definition chainRow ::
    "string \<Rightarrow> string \<Rightarrow> nat \<Rightarrow> nat \<Rightarrow> string option \<Rightarrow> SessionChainTask list \<Rightarrow> string list \<Rightarrow> nat \<Rightarrow> Session" where
  "chainRow u c now i parent tasks ids j =
     chainSession u c now (ids ! j) (tasks ! j) (i + j) (if j = 0 then parent else Some (ids ! (j - 1)))"

lemma chainRow_Cons_0: "chainRow u c now i p (t # ts) (x # xs) 0 = chainSession u c now x t i p"
  by (simp add: chainRow_def)

lemma chainRow_Cons_Suc: "chainRow u c now i p (t # ts) (x # xs) (Suc j) = chainRow u c now (Suc i) (Some x) ts xs j"
  by (cases j) (simp_all add: chainRow_def)

lemma chainLoop_Inr:
  "chainLoop u c now i p tasks d = (Inr ids, d') \<Longrightarrow>
     length ids = length tasks
     \<and> tables d' = tables (d\<lparr>db_sessions := db_sessions d @ map (chainRow u c now i p tasks ids) [0..<length tasks]\<rparr>)
     \<and> (distinct (map s_ID (db_sessions d)) \<longrightarrow> distinct (map s_ID (db_sessions d')))"
proof (induction tasks arbitrary: i p d ids)
  case Nil
  then show ?case by (simp add: tables_def)
next
  case (Cons t ts)
  obtain sid d1 where n: "newID d = (sid, d1)" by (cases "newID d")
  let ?row = "chainSession u c now sid t i p"
  obtain x d2 where ex: "execChecked (''insert session '' @ Itoa i) (insertSessionError ?row) (insertSession ?row) d1 = (x, d2)"
    by (cases "execChecked (''insert session '' @ Itoa i) (insertSessionError ?row) (insertSession ?row) d1")
  obtain ids' where x: "x = Inr ()" and rec: "chainLoop u c now (Suc i) (Some sid) ts d2 = (Inr ids', d')"
    and ids: "ids = sid # ids'"
    using Cons.prems n ex by (auto simp: Let_def split: sum.splits prod.splits)
  obtain d1' where d1': "tables d1' = tables d1" "insertSessionError ?row d1' = None" "d2 = insertSession ?row d1'"
    using execChecked_Inr [OF ex [unfolded x]] by blast
  have same: "tables d1' = tables d" using d1'(1) newID_tables [OF n] by simp
  have t2: "tables d2 = tables (d\<lparr>db_sessions := db_sessions d @ [?row]\<rparr>)"
    using tables_eqD [OF same] unfolding d1'(3) insertSession_def tables_def by simp
  note ih = Cons.IH [OF rec]
  have "sid \<notin> s_ID ` set (db_sessions d)"
    using d1'(2) tables_eqD(2) [OF same] by (auto simp: insertSessionError_def chainSession_def list_ex_iff split: if_splits)
  then have dist: "distinct (map s_ID (db_sessions d)) \<longrightarrow> distinct (map s_ID (db_sessions d2))"
    using tables_eqD(2) [OF t2] by (simp add: chainSession_def)
  have rows: "map (chainRow u c now i p (t # ts) ids) [0..<length (t # ts)]
      = ?row # map (chainRow u c now (Suc i) (Some sid) ts ids') [0..<length ts]"
    unfolding ids by (simp add: upt_conv_Cons chainRow_Cons_0 map_Suc_upt [symmetric] comp_def chainRow_Cons_Suc del: upt_Suc)
  have "tables (d2\<lparr>db_sessions := db_sessions d2 @ rs\<rparr>)
      = tables (d\<lparr>db_sessions := db_sessions d @ ?row # rs\<rparr>)" for rs
    using tables_eqD [OF t2] by (simp add: tables_def)
  then have "tables d' = tables (d\<lparr>db_sessions := db_sessions d @
      map (chainRow u c now i p (t # ts) ids) [0..<length (t # ts)]\<rparr>)"
    unfolding rows using ih by simp
  with ih dist show ?case by (simp only: ids length_Cons) blast
qed

lemma session_chain_cases:
  assumes "CreateSessionChain u tasks d = (r, d')" "distinct (map s_ID (db_sessions d))"
  shows "case r of
      Inl e \<Rightarrow> tables d' = tables d
    | Inr ids \<Rightarrow> length ids = length tasks \<and> distinct (map s_ID (db_sessions d'))
        \<and> (\<exists>now. tables d' = tables (d\<lparr>db_sessions := db_sessions d @
              map (\<lambda>j. chainSession u (fst (newID d)) now (ids ! j) (tasks ! j) j
                          (if j = 0 then None else Some (ids ! (j - 1)))) [0..<length tasks]\<rparr>))"
proof (cases "tasks = []")
  case True
  with assms show ?thesis by (auto simp: CreateSessionChain_def tables_def)
next
  case False
  obtain c d1 where n: "newID d = (c, d1)" by (cases "newID d")
  obtain now d2 where t: "timeNow d1 = (now, d2)" by (cases "timeNow d1")
  have same: "tables d2 = tables d" using newID_tables [OF n] timeNow_tables [OF t] by simp
  have tx: "transaction (chainLoop u c now 0 None tasks) d2 = (r, d')"
    using assms(1) False by (simp add: CreateSessionChain_def n t)
  show ?thesis
  proof (cases r)
    case (Inl e)
    then show ?thesis using transaction_Inl tx same by fastforce
  next
    case (Inr ids)
    obtain d3 d4 where d: "tables d3 = tables d2" "chainLoop u c now 0 None tasks d3 = (Inr ids, d4)" "tables d' = tables d4"
      using tx unfolding Inr by (rule transaction_Inr)
    have eq: "tables d3 = tables d" using d(1) same by simp
    note loop = chainLoop_Inr [OF d(2)]
    have "tables (d3\<lparr>db_sessions := db_sessions d3 @ rs\<rparr>) = tables (d\<lparr>db_sessions := db_sessions d @ rs\<rparr>)" for rs
      using tables_eqD [OF eq] by (simp add: tables_def)
    then have "tables d' = tables (d\<lparr>db_sessions := db_sessions d @ map (chainRow u c now 0 None tasks ids) [0..<length tasks]\<rparr>)"
      using loop d(3) by simp
    moreover have "distinct (map s_ID (db_sessions d'))"
      using loop assms(2) tables_eqD(2) [OF d(3)] tables_eqD(2) [OF eq] by simp
    ultimately show ?thesis using loop unfolding Inr n chainRow_def [abs_def] by auto
  qed
qed

text \<open>
  \<open>CreateSessionChain\<close> is all or nothing: a failure anywhere, the commit included, leaves
  every table as it was; a success appends one pending session per task, in order, at positions
  0, 1, 2, and so on in one chain, each with the previous one as its parent, and ids that are new and different.
\<close>

theorem session_chain_all_or_nothing:
  assumes "CreateSessionChain u tasks d = (r, d')" "distinct (map s_ID (db_sessions d))"
  shows "case r of
      Inl e \<Rightarrow> tables d' = tables d
    | Inr ids \<Rightarrow> length ids = length tasks \<and> distinct (map s_ID (db_sessions d'))
        \<and> (\<exists>now. tables d' = tables (d\<lparr>db_sessions := db_sessions d @
              map (\<lambda>j. chainSession u (fst (newID d)) now (ids ! j) (tasks ! j) j
                          (if j = 0 then None else Some (ids ! (j - 1)))) [0..<length tasks]\<rparr>))"
  using assms by (rule session_chain_cases)

lemma chainSession_sel [simp]:
  "s_ID (chainSession u c now x t i p) = x" "s_UserID (chainSession u c now x t i p) = u"
  "s_ChainID (chainSession u c now x t i p) = Some c" "s_Position (chainSession u c now x t i p) = int i"
  "s_Status (chainSession u c now x t i p) = SessionPending" "s_Task (chainSession u c now x t i p) = k_Task t"
  by (simp_all add: chainSession_def)

lemma nextInChain_update:
  fixes old row n ids c u i f
  defines "row' \<equiv> \<lambda>j. if j = i then f (row j) else row j"
  assumes row: "\<And>j. j < n \<Longrightarrow> s_ID (row j) = ids ! j \<and> s_UserID (row j) = u \<and> s_ChainID (row j) = Some c
      \<and> s_Position (row j) = int j \<and> s_Status (row j) = SessionPending"
    and f: "\<And>s. s_ID (f s) = s_ID s \<and> s_ChainID (f s) = s_ChainID s \<and> s_Position (f s) = s_Position s"
    and dist: "distinct (map s_ID (old @ map row [0..<n]))"
    and fresh: "Some c \<notin> s_ChainID ` set old" and i: "i < n"
    and d: "db_sessions d = updateRows (sessionIs (ids ! i) u) f (old @ map row [0..<n])"
  shows "nextInChain (ids ! i) d = (if Suc i < n then Some (row (Suc i)) else None)"
proof -
  have inj: "s_ID (row j) = ids ! i \<longleftrightarrow> j = i" if "j < n" for j
    using dist i that row [of i] row [of j] by (auto simp: distinct_map inj_on_def)
  have old: "s_ID s \<noteq> ids ! i" if "s \<in> set old" for s
  proof
    assume eq: "s_ID s = ids ! i"
    have "s_ID (row i) \<in> s_ID ` set (map row [0..<n])" using i by auto
    moreover have "s_ID (row i) \<in> s_ID ` set old" using that eq row [OF i] by (metis imageI)
    ultimately show False using dist by auto
  qed
  have d': "db_sessions d = old @ map row' [0..<n]"
  proof -
    have "updateRows (sessionIs (ids ! i) u) f old = old" using old by (intro updateRows_none) (auto simp: sessionIs_def)
    moreover have "updateRows (sessionIs (ids ! i) u) f (map row [0..<n]) = map row' [0..<n]"
      using inj row by (simp add: updateRows_def row'_def sessionIs_def)
    ultimately show ?thesis by (simp add: d updateRows_def)
  qed
  have ids': "s_ID (row' j) = s_ID (row j) \<and> s_ChainID (row' j) = s_ChainID (row j) \<and> s_Position (row' j) = s_Position (row j)" for j
    by (simp add: row'_def f)
  have me: "List.find (\<lambda>s. s_ID s = ids ! i) (db_sessions d) = Some (row' i)"
    unfolding d' using old i inj by (simp add: find_append_none find_map_upt [where k = i] ids')
  let ?P = "\<lambda>s. s_ChainID s \<noteq> None \<and> s_ChainID s = s_ChainID (row' i)
      \<and> s_Position s = s_Position (row' i) + 1 \<and> s_Status s = SessionPending"
  have "\<not> ?P s" if "s \<in> set old" for s using fresh that i ids' row by (auto simp: image_iff)
  then have "List.find ?P (db_sessions d) = List.find ?P (map row' [0..<n])" unfolding d' by (rule find_append_none)
  also have "\<dots> = (if Suc i < n then Some (row' (Suc i)) else None)"
  proof (rule find_map_upt)
    fix j assume j: "j < n"
    show "?P (row' j) \<longleftrightarrow> j = Suc i"
      using row [OF j] row [OF i] ids' [of j] ids' [of i] by (auto simp: row'_def)
  qed
  finally show ?thesis unfolding nextInChain_def me by (simp add: row'_def)
qed

text \<open>
  Completing the sessions of a chain drives it forward: when the \<open>i\<close>-th session of a chain
  just created is completed, whatever its final status, \<open>CompleteSessionInChain\<close> returns the next session of that
  chain, still pending and with the next task, and \<open>nil\<close> for the last one.
\<close>

theorem completing_a_session_yields_the_next:
  assumes "CreateSessionChain u tasks d = (Inr ids, d1)" "distinct (map s_ID (db_sessions d))"
    and "Some (fst (newID d)) \<notin> s_ChainID ` set (db_sessions d)"
    and "i < length tasks" "CompleteSessionInChain (ids ! i) u st ou br pr d1 = (Inr r, d2)"
  shows "if Suc i < length tasks
    then (\<exists>s. r = Some s \<and> s_ID s = ids ! Suc i \<and> s_Task s = k_Task (tasks ! Suc i) \<and> s_Status s = SessionPending)
    else r = None"
proof -
  define row where "row = (\<lambda>now j. chainSession u (fst (newID d)) now (ids ! j) (tasks ! j) j
     (if j = 0 then None else Some (ids ! (j - 1))))"
  obtain now where d1: "tables d1 = tables (d\<lparr>db_sessions := db_sessions d @ map (row now) [0..<length tasks]\<rparr>)"
    and dist: "distinct (map s_ID (db_sessions d1))"
    using session_chain_cases [OF assms(1,2)] by (auto simp: row_def)
  obtain t e where t: "timeNow d1 = (t, e)" by (cases "timeNow d1")
  let ?upd = "updateSessions (sessionIs (ids ! i) u) (setResult st ou br pr t)"
  obtain x d3 where ex: "execStmt ''update completed session'' ?upd e = (x, d3)"
    by (cases "execStmt ''update completed session'' ?upd e")
  have x: "x = Inr ()" and q: "queryRow ''get next session'' (nextInChain (ids ! i)) d3 = (Inr r, d2)"
    using assms(5) by (auto simp: CompleteSessionInChain_def t ex split: sum.splits)
  obtain e1 where e1: "tables e1 = tables e" "d3 = ?upd e1" using execStmt_Inr [OF ex [unfolded x]] by blast
  have ses: "db_sessions d2 = updateRows (sessionIs (ids ! i) u) (setResult st ou br pr t)
      (db_sessions d @ map (row now) [0..<length tasks])"
    using tables_eqD(2) [OF queryRow_tables [OF q]] tables_eqD(2) [OF e1(1)] tables_eqD(2) [OF timeNow_tables [OF t]]
      tables_eqD(2) [OF d1] e1(2) by (simp add: frame_simps)
  have "r = nextInChain (ids ! i) d2" by (rule queryRow_result [OF q])
  also have "\<dots> = (if Suc i < length tasks then Some (row now (Suc i)) else None)"
    using dist tables_eqD(2) [OF d1] assms(3,4) ses
    by (intro nextInChain_update [where u = u and c = "fst (newID d)" and f = "setResult st ou br pr t" and old = "db_sessions d"])
      (simp_all add: row_def)
  finally show ?thesis by (simp add: row_def)
qed

definition sampleChain :: "SessionChainTask list" where
  "sampleChain = [\<lparr>k_AgentID = ''a'', k_Task = ''first''\<rparr>, \<lparr>k_AgentID = ''a'', k_Task = ''second''\<rparr>]"

lemma sample_ids_differ: "GenerateID 1000 (replicate 10 2) \<noteq> GenerateID 1000 (replicate 10 3)"
  by code_simp

lemma sample_chain_ids:
  "fst (CreateSessionChain ''u'' sampleChain (sessionDb [])) = Inr (map (\<lambda>b. GenerateID 1000 (replicate 10 b)) [2, 3])"
  "faults (snd (CreateSessionChain ''u'' sampleChain (sessionDb []))) = []"
  using sample_ids_differ
  by (simp_all add: CreateSessionChain_def transaction_def newID_def timeNow_def sessionDb_def sampleChain_def
      insertSessionError_def insertSession_def chainSession_def)

theorem session_chain_all_or_nothing_witness:
  "\<exists>d'. CreateSessionChain ''u'' sampleChain (sessionDb []) = (Inr (map (\<lambda>b. GenerateID 1000 (replicate 10 b)) [2, 3]), d')
     \<and> distinct (map s_ID (db_sessions d'))"
proof -
  obtain d' where c: "CreateSessionChain ''u'' sampleChain (sessionDb [])
      = (Inr (map (\<lambda>b. GenerateID 1000 (replicate 10 b)) [2, 3]), d')"
    using sample_chain_ids(1) by (metis prod.collapse)
  have "distinct (map s_ID (db_sessions (sessionDb [])))" by (simp add: sessionDb_def)
  from session_chain_all_or_nothing [OF c this] c show ?thesis by auto
qed

lemma CompleteSessionInChain_no_faults:
  assumes "faults d = []"
  shows "\<exists>r d'. CompleteSessionInChain sid u st ou br pr d = (Inr r, d')"
proof -
  obtain now d1 where t: "timeNow d = (now, d1)" by (cases "timeNow d")
  then have "faults d1 = []" using assms timeNow_other by metis
  then show ?thesis by (simp add: CompleteSessionInChain_def t frame_simps)
qed

theorem completing_a_session_yields_the_next_witness:
  "\<exists>ids d1 s d2. CreateSessionChain ''u'' sampleChain (sessionDb []) = (Inr ids, d1)
     \<and> CompleteSessionInChain (ids ! 0) ''u'' SessionDone None None None d1 = (Inr (Some s), d2) \<and> s_Task s = ''second''"
proof -
  let ?ids = "map (\<lambda>b. GenerateID 1000 (replicate 10 b)) [2, 3]"
  obtain d1 where c: "CreateSessionChain ''u'' sampleChain (sessionDb []) = (Inr ?ids, d1)"
    using sample_chain_ids(1) by (metis prod.collapse)
  have "faults d1 = []" using sample_chain_ids(2) by (simp add: c)
  then obtain r d2 where r: "CompleteSessionInChain (?ids ! 0) ''u'' SessionDone None None None d1 = (Inr r, d2)"
    using CompleteSessionInChain_no_faults by blast
  have "distinct (map s_ID (db_sessions (sessionDb [])))" "0 < length sampleChain"
    "Some (fst (newID (sessionDb []))) \<notin> s_ChainID ` set (db_sessions (sessionDb []))"
    by (simp_all add: sessionDb_def sampleChain_def)
  from completing_a_session_yields_the_next [OF c this(1,3,2) r]
  obtain s where "r = Some s" "s_Task s = ''second''" by (auto simp: sampleChain_def)
  with c r show ?thesis by blast
qed

section \<open>Sharing\<close>

lemma expired_share_is_still_readable_facts:
  assumes "sessionsOk d"
  shows "GetSessionByShareToken token d = (Inr (Some s), d') \<Longrightarrow>
      s \<in> set (db_sessions d) \<and> s_ShareToken s = Some token \<and> (\<exists>t. s_ShareTokenExpiresAt s = Some t \<and> clock d' < t)"
    and "s \<in> set (db_sessions d) \<Longrightarrow> s_ShareToken s = Some token \<Longrightarrow> withAgent d s = Some w \<Longrightarrow>
      GetSharedSessionWithAgent token d = (Inr r, d'') \<Longrightarrow> r = Some w"
proof -
  assume g: "GetSessionByShareToken token d = (Inr (Some s), d')"
  obtain now d1 where t: "timeNow d = (now, d1)" by (cases "timeNow d")
  let ?P = "\<lambda>s. s_ShareToken s = Some token \<and> (case s_ShareTokenExpiresAt s of None \<Rightarrow> False | Some t \<Rightarrow> now < t)"
  have q: "queryRow ''get session by share token'' (\<lambda>d. List.find ?P (db_sessions d)) d1 = (Inr (Some s), d')"
    using g by (simp add: GetSessionByShareToken_def t)
  have "List.find ?P (db_sessions d') = Some s" using queryRow_result [OF q] by simp
  moreover have "db_sessions d' = db_sessions d"
    using tables_eqD(2) [OF queryRow_tables [OF q]] tables_eqD(2) [OF timeNow_tables [OF t]] by simp
  moreover have "clock d' = now"
    using q timeNow_other [OF t] by (auto simp: queryRow_def split: prod.splits option.splits dest!: statement_other)
  ultimately show "s \<in> set (db_sessions d) \<and> s_ShareToken s = Some token \<and> (\<exists>t. s_ShareTokenExpiresAt s = Some t \<and> clock d' < t)"
    by (auto dest!: find_Some_iff_mem split: option.splits)
next
  assume s: "s \<in> set (db_sessions d)" "s_ShareToken s = Some token" "withAgent d s = Some w"
    and g: "GetSharedSessionWithAgent token d = (Inr r, d'')"
  let ?P = "\<lambda>s. s_ShareToken s = Some token"
  have r: "r = firstWithAgent ?P d''" and same: "tables d'' = tables d"
    using queryRow_result queryRow_tables g unfolding GetSharedSessionWithAgent_def by blast+
  have "u = s" if "u \<in> set (filter ?P (db_sessions d))" for u
  proof -
    from that have u: "u \<in> set (db_sessions d)" "s_ShareToken u = Some token" by auto
    with assms s show ?thesis unfolding sessionsOk_def by (metis option.discI)
  qed
  moreover have "s \<in> set (filter ?P (db_sessions d))" using s by simp
  ultimately obtain us where us: "filter ?P (db_sessions d) = s # us"
    by (metis (no_types, lifting) list.exhaust list.set_intros(1) empty_iff list.set(1))
  have "withAgent d'' s = withAgent d s" using tables_eqD(1) [OF same] by (simp add: withAgent_def)
  then show "r = Some w"
    unfolding r firstWithAgent_def using tables_eqD(2) [OF same] us s(3) by (simp add: List.map_filter_def)
qed

text \<open>
  Reading a shared session. \<open>GetSessionByShareToken\<close> only ever returns a session whose share token is the given one and whose
  sharing has not expired at the time of the call; \<open>GetSharedSessionWithAgent\<close> finds the session
  of an existing agent by its token whether or not the sharing has expired.
\<close>

theorem expired_share_is_still_readable:
  assumes "sessionsOk d"
  shows "(\<forall>s d'. GetSessionByShareToken token d = (Inr (Some s), d') \<longrightarrow>
      s \<in> set (db_sessions d) \<and> s_ShareToken s = Some token \<and> (\<exists>t. s_ShareTokenExpiresAt s = Some t \<and> clock d' < t))
    \<and> (\<forall>s w r d''. s \<in> set (db_sessions d) \<and> s_ShareToken s = Some token \<and> withAgent d s = Some w
         \<and> GetSharedSessionWithAgent token d = (Inr r, d'') \<longrightarrow> r = Some w)"
  using expired_share_is_still_readable_facts [OF assms] by blast

definition expiredSession :: Session where
  "expiredSession = (sampleSession ''s1'')\<lparr>s_ShareToken := Some ''tok'', s_ShareTokenExpiresAt := Some 500\<rparr>"

theorem expired_share_is_still_readable_witness:
  "GetSessionByShareToken ''tok'' (sessionDb [expiredSession]) = (Inr None, sessionDb [expiredSession])
   \<and> GetSharedSessionWithAgent ''tok'' (sessionDb [expiredSession])
      = (Inr (Some \<lparr>w_Session = expiredSession, w_AgentName = ''Ada''\<rparr>), sessionDb [expiredSession])"
proof -
  let ?d = "sessionDb [expiredSession]"
  have ok: "sessionsOk ?d" by (simp add: sessionsOk_def sessionDb_def)
  have w: "withAgent ?d expiredSession = Some \<lparr>w_Session = expiredSession, w_AgentName = ''Ada''\<rparr>"
    by (simp add: withAgent_def sessionDb_def expiredSession_def sampleSession_def)
  have s: "expiredSession \<in> set (db_sessions ?d)" "s_ShareToken expiredSession = Some ''tok''"
    by (simp_all add: sessionDb_def expiredSession_def)
  obtain r where g: "GetSharedSessionWithAgent ''tok'' ?d = (Inr r, ?d)"
    by (simp add: GetSharedSessionWithAgent_def sessionDb_def)
  have "GetSessionByShareToken ''tok'' ?d = (Inr None, ?d)"
    by (simp add: GetSessionByShareToken_def timeNow_def sessionDb_def expiredSession_def)
  with s w g expired_share_is_still_readable [OF ok, of "''tok''"] show ?thesis by blast
qed

end
