(* ===== verification/Accounts.thy ===== *)
theory Accounts
  imports SessionStore
begin

text \<open>
  The stores around an account: \<open>go-shared/users.go\<close>, \<open>api_keys.go\<close>, \<open>github_connections.go\<close>,
  \<open>workspaces.go\<close> and \<open>agents.go\<close>. The unique indexes and foreign keys of \<open>database/schema.sql\<close> that
  a statement can violate are its error branch, and what a delete cascades to is part of it; the foreign keys to \<open>users\<close> are
  taken to hold, since every \<open>userID\<close> comes from a row of that table.
\<close>

section \<open>Users\<close>

definition GetUserByEmail :: "string \<Rightarrow> db \<Rightarrow> User option result \<times> db" where
  "GetUserByEmail email = queryRow ''get user by email'' (\<lambda>d. List.find (\<lambda>u. us_Email u = email) (db_users d))"

definition GetUserByID :: "string \<Rightarrow> db \<Rightarrow> User option result \<times> db" where
  "GetUserByID uid = queryRow ''get user by id'' (\<lambda>d. List.find (\<lambda>u. us_ID u = uid) (db_users d))"

text \<open>\<open>ON CONFLICT (email) DO NOTHING\<close>: only a taken id is an error.\<close>

definition insertUserError :: "User \<Rightarrow> db \<Rightarrow> string option" where
  "insertUserError u d =
     (if \<not> list_ex (\<lambda>v. us_Email v = us_Email u) (db_users d) \<and> list_ex (\<lambda>v. us_ID v = us_ID u) (db_users d)
      then Some duplicateKey else None)"

definition CreateUser :: "string \<Rightarrow> string \<Rightarrow> db \<Rightarrow> User option result \<times> db" where
  "CreateUser email passwordHash d =
     (let (uid, d1) = newID d; (now, d2) = timeNow d1;
          row = \<lparr>us_ID = uid, us_Email = email, us_PasswordHash = passwordHash, us_CreatedAt = now\<rparr>
      in case execChecked ''create user'' (insertUserError row)
                (\<lambda>d. if list_ex (\<lambda>v. us_Email v = email) (db_users d) then d else d\<lparr>db_users := db_users d @ [row]\<rparr>) d2 of
           (Inl e, d3) \<Rightarrow> (Inl e, d3)
         | (Inr _, d3) \<Rightarrow> GetUserByEmail email d3)"

section \<open>API keys\<close>

definition keysOf :: "string \<Rightarrow> db \<Rightarrow> ApiKey list" where
  "keysOf userID d = filter (\<lambda>k. ak_UserID k = userID) (db_apiKeys d)"

definition ListAPIKeys :: "string \<Rightarrow> db \<Rightarrow> ApiKey list result \<times> db" where
  "ListAPIKeys userID =
     queryRows ''list api keys'' ''scan api key'' ''iterate api keys'' (\<lambda>d. take 50 (sort_key ak_CreatedAt (keysOf userID d)))"

definition GetAPIKey :: "string \<Rightarrow> string \<Rightarrow> db \<Rightarrow> ApiKey option result \<times> db" where
  "GetAPIKey kid userID = queryRow ''get api key'' (\<lambda>d. List.find (\<lambda>k. ak_ID k = kid \<and> ak_UserID k = userID) (db_apiKeys d))"

definition GetAPIKeyByProvider :: "string \<Rightarrow> LLMProvider \<Rightarrow> db \<Rightarrow> ApiKey option result \<times> db" where
  "GetAPIKeyByProvider userID provider =
     queryRow ''get api key by provider'' (\<lambda>d. List.find (\<lambda>k. ak_UserID k = userID \<and> ak_Provider k = provider) (db_apiKeys d))"

definition headOption :: "'a list \<Rightarrow> 'a option" where
  "headOption xs = (case xs of [] \<Rightarrow> None | x # _ \<Rightarrow> Some x)"

definition GetPrimaryAPIKey :: "string \<Rightarrow> db \<Rightarrow> ApiKey option result \<times> db" where
  "GetPrimaryAPIKey userID = queryRow ''get primary api key'' (\<lambda>d. headOption (sort_key ak_CreatedAt (keysOf userID d)))"

text \<open>The upsert: the row of this user and provider keeps its id and time of creation, or a new row is added.\<close>

definition upsertKeyError :: "ApiKey \<Rightarrow> db \<Rightarrow> string option" where
  "upsertKeyError row d =
     (if \<not> list_ex (\<lambda>k. ak_UserID k = ak_UserID row \<and> ak_Provider k = ak_Provider row) (db_apiKeys d)
         \<and> list_ex (\<lambda>k. ak_ID k = ak_ID row) (db_apiKeys d)
      then Some duplicateKey else None)"

definition upsertKey :: "ApiKey \<Rightarrow> ApiKey list \<Rightarrow> ApiKey list" where
  "upsertKey row ks =
     (let same = (\<lambda>k. ak_UserID k = ak_UserID row \<and> ak_Provider k = ak_Provider row) in
      if list_ex same ks
      then updateRows same (\<lambda>k. k\<lparr>ak_APIKey := ak_APIKey row, ak_Label := ak_Label row, ak_BaseURL := ak_BaseURL row,
                                  ak_ModelID := ak_ModelID row\<rparr>) ks
      else ks @ [row])"

definition CreateAPIKey :: "string \<Rightarrow> ApiKey \<Rightarrow> db \<Rightarrow> ApiKey result \<times> db" where
  "CreateAPIKey userID key d =
     (let (kid, d1) = newID d; (now, d2) = timeNow d1;
          row = key\<lparr>ak_ID := kid, ak_UserID := userID, ak_CreatedAt := now\<rparr>
      in case execChecked ''create api key'' (upsertKeyError row) (\<lambda>d. d\<lparr>db_apiKeys := upsertKey row (db_apiKeys d)\<rparr>) d2 of
           (Inl e, d3) \<Rightarrow> (Inl e, d3)
         | (Inr _, d3) \<Rightarrow>
             (case List.find (\<lambda>k. ak_UserID k = userID \<and> ak_Provider k = ak_Provider key) (db_apiKeys d3) of
                Some k \<Rightarrow> (Inr (row\<lparr>ak_ID := ak_ID k, ak_CreatedAt := ak_CreatedAt k\<rparr>), d3)
              | None \<Rightarrow> (Inl ''create api key: sql: no rows in result set'', d3)))"

text \<open>\<open>agents.api_key_id\<close> is set to null.\<close>

definition DeleteAPIKey :: "string \<Rightarrow> string \<Rightarrow> db \<Rightarrow> unit result \<times> db" where
  "DeleteAPIKey kid userID =
     execStmt ''delete api key''
       (\<lambda>d. let hit = (\<lambda>k. ak_ID k = kid \<and> ak_UserID k = userID); gone = map ak_ID (filter hit (db_apiKeys d)) in
            d\<lparr>db_apiKeys := deleteRows hit (db_apiKeys d),
              db_agents := map (\<lambda>a. a\<lparr>a_APIKeyID := clearRef gone (a_APIKeyID a)\<rparr>) (db_agents d)\<rparr>)"

section \<open>GitHub connections\<close>

definition GetGithubConnection :: "string \<Rightarrow> db \<Rightarrow> GithubConnection option result \<times> db" where
  "GetGithubConnection userID =
     queryRow ''get github connection'' (\<lambda>d. List.find (\<lambda>g. gh_UserID g = userID) (db_github d))"

definition GetGithubConnectionByRepo :: "string \<Rightarrow> db \<Rightarrow> GithubConnection option result \<times> db" where
  "GetGithubConnectionByRepo repo =
     queryRow ''get github connection by repo'' (\<lambda>d. List.find (\<lambda>g. repo \<in> set (gh_Repos g)) (db_github d))"

definition CreateGithubConnection ::
    "string \<Rightarrow> string \<Rightarrow> string \<Rightarrow> string list \<Rightarrow> db \<Rightarrow> GithubConnection result \<times> db" where
  "CreateGithubConnection userID githubUsername githubToken repos d =
     (let (gid, d1) = newID d; (now, d2) = timeNow d1;
          row = \<lparr>gh_ID = gid, gh_UserID = userID, gh_GithubUsername = githubUsername, gh_GithubToken = githubToken, gh_Repos = repos,
                 gh_WebhookSecret = None, gh_IssueLabel = Some ''shipmates'', gh_CreatedAt = now\<rparr>
      in case execChecked ''create github connection''
                (\<lambda>d. if list_ex (\<lambda>g. gh_ID g = gid \<or> gh_UserID g = userID) (db_github d) then Some duplicateKey else None)
                (\<lambda>d. d\<lparr>db_github := db_github d @ [row]\<rparr>) d2 of
           (Inl e, d3) \<Rightarrow> (Inl e, d3)
         | (Inr _, d3) \<Rightarrow> (Inr row, d3))"

definition updateGithub :: "string \<Rightarrow> string \<Rightarrow> (GithubConnection \<Rightarrow> GithubConnection) \<Rightarrow> db \<Rightarrow> unit result \<times> db" where
  "updateGithub msg userID f =
     execStmt msg (\<lambda>d. d\<lparr>db_github := updateRows (\<lambda>g. gh_UserID g = userID) f (db_github d)\<rparr>)"

definition UpdateGithubConnection :: "string \<Rightarrow> string \<Rightarrow> string list \<Rightarrow> db \<Rightarrow> unit result \<times> db" where
  "UpdateGithubConnection userID githubToken repos =
     updateGithub ''update github connection'' userID (\<lambda>g. g\<lparr>gh_GithubToken := githubToken, gh_Repos := repos\<rparr>)"

definition UpdateGithubConnectionRepos :: "string \<Rightarrow> string list \<Rightarrow> db \<Rightarrow> unit result \<times> db" where
  "UpdateGithubConnectionRepos userID repos =
     updateGithub ''update github connection repos'' userID (\<lambda>g. g\<lparr>gh_Repos := repos\<rparr>)"

definition UpdateGithubWebhookSecret :: "string \<Rightarrow> string \<Rightarrow> db \<Rightarrow> unit result \<times> db" where
  "UpdateGithubWebhookSecret userID webhookSecret =
     updateGithub ''update github webhook secret'' userID (\<lambda>g. g\<lparr>gh_WebhookSecret := Some webhookSecret\<rparr>)"

definition DeleteGithubConnection :: "string \<Rightarrow> db \<Rightarrow> unit result \<times> db" where
  "DeleteGithubConnection userID =
     execStmt ''delete github connection'' (\<lambda>d. d\<lparr>db_github := deleteRows (\<lambda>g. gh_UserID g = userID) (db_github d)\<rparr>)"

section \<open>Workspaces\<close>

definition workspaceIs :: "string \<Rightarrow> string \<Rightarrow> Workspace \<Rightarrow> bool" where
  "workspaceIs wid userID w = (wk_ID w = wid \<and> wk_UserID w = userID)"

definition ListWorkspaces :: "string \<Rightarrow> db \<Rightarrow> Workspace list result \<times> db" where
  "ListWorkspaces userID =
     queryRows ''list workspaces'' ''scan workspace'' ''iterate workspaces''
       (\<lambda>d. orderDesc wk_ConnectedAt (filter (\<lambda>w. wk_UserID w = userID) (db_workspaces d)))"

definition GetWorkspace :: "string \<Rightarrow> string \<Rightarrow> db \<Rightarrow> Workspace option result \<times> db" where
  "GetWorkspace wid userID = queryRow ''get workspace'' (\<lambda>d. List.find (workspaceIs wid userID) (db_workspaces d))"

definition GetWorkspaceByPlatform :: "Platform \<Rightarrow> string \<Rightarrow> db \<Rightarrow> Workspace option result \<times> db" where
  "GetWorkspaceByPlatform platform platformID =
     queryRow ''get workspace by platform''
       (\<lambda>d. List.find (\<lambda>w. wk_Platform w = platform \<and> wk_PlatformID w = platformID) (db_workspaces d))"

definition insertWorkspaceError :: "Workspace \<Rightarrow> db \<Rightarrow> string option" where
  "insertWorkspaceError w d =
     (if list_ex (\<lambda>v. wk_ID v = wk_ID w \<or> (wk_Platform v = wk_Platform w \<and> wk_PlatformID v = wk_PlatformID w)) (db_workspaces d)
      then Some duplicateKey else None)"

definition CreateWorkspace :: "Workspace \<Rightarrow> db \<Rightarrow> Workspace result \<times> db" where
  "CreateWorkspace w d =
     (let (wid, d1) = newID d; (now, d2) = timeNow d1; row = w\<lparr>wk_ID := wid, wk_ConnectedAt := now\<rparr>
      in case execChecked ''create workspace'' (insertWorkspaceError row) (\<lambda>d. d\<lparr>db_workspaces := db_workspaces d @ [row]\<rparr>) d2 of
           (Inl e, d3) \<Rightarrow> (Inl e, d3)
         | (Inr _, d3) \<Rightarrow> (Inr row, d3))"

definition coalesce :: "'a option \<Rightarrow> 'a option \<Rightarrow> 'a option" where
  "coalesce a b = (case a of Some x \<Rightarrow> Some x | None \<Rightarrow> b)"

definition UpdateWorkspace ::
    "string \<Rightarrow> string \<Rightarrow> string option \<Rightarrow> string option \<Rightarrow> string option \<Rightarrow> db \<Rightarrow> unit result \<times> db" where
  "UpdateWorkspace wid userID botToken botUserID teamName =
     execStmt ''update workspace''
       (\<lambda>d. d\<lparr>db_workspaces := updateRows (workspaceIs wid userID)
          (\<lambda>w. w\<lparr>wk_BotToken := coalesce botToken (wk_BotToken w), wk_BotUserID := coalesce botUserID (wk_BotUserID w),
                 wk_TeamName := coalesce teamName (wk_TeamName w)\<rparr>) (db_workspaces d)\<rparr>)"

text \<open>The conversation history of the workspace goes with it.\<close>

definition DeleteWorkspace :: "string \<Rightarrow> string \<Rightarrow> db \<Rightarrow> unit result \<times> db" where
  "DeleteWorkspace wid userID =
     execStmt ''delete workspace''
       (\<lambda>d. let gone = map wk_ID (filter (workspaceIs wid userID) (db_workspaces d)) in
            d\<lparr>db_workspaces := deleteRows (workspaceIs wid userID) (db_workspaces d),
              db_history := deleteRows (\<lambda>m. ch_WorkspaceID m \<in> set gone) (db_history d)\<rparr>)"

section \<open>Agents\<close>

definition agentIs :: "string \<Rightarrow> string \<Rightarrow> Agent \<Rightarrow> bool" where
  "agentIs aid userID a = (a_ID a = aid \<and> a_UserID a = userID)"

definition ListAgents :: "string \<Rightarrow> db \<Rightarrow> Agent list result \<times> db" where
  "ListAgents userID =
     queryRows ''list agents'' ''scan agent'' ''iterate agents''
       (\<lambda>d. take 100 (sort_key a_CreatedAt (filter (\<lambda>a. a_UserID a = userID) (db_agents d))))"

definition GetAgentByID :: "string \<Rightarrow> db \<Rightarrow> Agent option result \<times> db" where
  "GetAgentByID aid = queryRow ''get agent by id'' (\<lambda>d. List.find (\<lambda>a. a_ID a = aid) (db_agents d))"

text \<open>\<open>LOWER\<close> of names outside ASCII depends on the collation of the database, the argument \<open>lower\<close>.\<close>

definition GetAgentByName :: "(string \<Rightarrow> string) \<Rightarrow> string \<Rightarrow> string \<Rightarrow> db \<Rightarrow> Agent option result \<times> db" where
  "GetAgentByName lower userID name =
     queryRow ''get agent by name''
       (\<lambda>d. List.find (\<lambda>a. a_UserID a = userID \<and> ToLower lower (a_Name a) = ToLower lower name) (db_agents d))"

definition agentKeyError :: "Agent \<Rightarrow> db \<Rightarrow> string option" where
  "agentKeyError a d =
     (case a_APIKeyID a of
        None \<Rightarrow> None
      | Some k \<Rightarrow> if list_ex (\<lambda>v. ak_ID v = k) (db_apiKeys d) then None else Some foreignKey)"

definition insertAgentError :: "Agent \<Rightarrow> db \<Rightarrow> string option" where
  "insertAgentError a d =
     (if list_ex (\<lambda>v. a_ID v = a_ID a) (db_agents d) then Some duplicateKey else agentKeyError a d)"

definition CreateAgent :: "string \<Rightarrow> Agent \<Rightarrow> db \<Rightarrow> Agent result \<times> db" where
  "CreateAgent userID agent d =
     (let (aid, d1) = newID d; (now, d2) = timeNow d1;
          row = agent\<lparr>a_ID := aid, a_UserID := userID, a_CreatedAt := now, a_UpdatedAt := now\<rparr>
      in case execChecked ''create agent'' (insertAgentError row) (\<lambda>d. d\<lparr>db_agents := db_agents d @ [row]\<rparr>) d2 of
           (Inl e, d3) \<Rightarrow> (Inl e, d3)
         | (Inr _, d3) \<Rightarrow> (Inr row, d3))"

text \<open>The answer is the caller's agent with the id and time, whether or not a row was there to update.\<close>

definition UpdateAgent :: "string \<Rightarrow> string \<Rightarrow> Agent \<Rightarrow> db \<Rightarrow> Agent result \<times> db" where
  "UpdateAgent aid userID agent d =
     (let (now, d1) = timeNow d in
      case execChecked ''update agent''
             (\<lambda>d. if list_ex (agentIs aid userID) (db_agents d) then agentKeyError agent d else None)
             (\<lambda>d. d\<lparr>db_agents := updateRows (agentIs aid userID)
                (\<lambda>a. agent\<lparr>a_ID := a_ID a, a_UserID := a_UserID a, a_CreatedAt := a_CreatedAt a, a_UpdatedAt := now\<rparr>) (db_agents d)\<rparr>) d1 of
        (Inl e, d2) \<Rightarrow> (Inl e, d2)
      | (Inr _, d2) \<Rightarrow> (Inr (agent\<lparr>a_ID := aid, a_UserID := userID, a_UpdatedAt := now\<rparr>), d2))"

text \<open>
  A task that names the agent restricts the delete; otherwise the agent's schedules, sessions (with
  what hangs on them), history and pipelines go with it.
\<close>

definition restrictKey :: string where
  "restrictKey = ''pq: update or delete on table violates foreign key constraint''"

definition deleteAgents :: "(Agent \<Rightarrow> bool) \<Rightarrow> db \<Rightarrow> db" where
  "deleteAgents P d =
     (let gone = map a_ID (filter P (db_agents d));
          schedules = map c_ID (filter (\<lambda>c. c_AgentID c \<in> set gone) (db_schedules d));
          d1 = deleteSessions (\<lambda>s. s_AgentID s \<in> set gone) d
      in d1\<lparr>db_agents := deleteRows P (db_agents d),
            db_schedules := deleteRows (\<lambda>c. c_AgentID c \<in> set gone) (db_schedules d),
            db_sessions := map (\<lambda>s. s\<lparr>s_ScheduleID := clearRef schedules (s_ScheduleID s)\<rparr>) (db_sessions d1),
            db_history := deleteRows (\<lambda>m. ch_AgentID m \<in> set gone) (db_history d),
            db_pipelines := deleteRows (\<lambda>p. ip_AgentID p \<in> set gone) (db_pipelines d1)\<rparr>)"

definition DeleteAgent :: "string \<Rightarrow> string \<Rightarrow> db \<Rightarrow> unit result \<times> db" where
  "DeleteAgent aid userID =
     execChecked ''delete agent''
       (\<lambda>d. if list_ex (agentIs aid userID) (db_agents d) \<and> list_ex (\<lambda>t. t_FromAgentID t = aid \<or> t_ToAgentID t = aid) (db_tasks d)
            then Some restrictKey else None)
       (deleteAgents (agentIs aid userID))"

definition CountAgents :: "string \<Rightarrow> db \<Rightarrow> nat result \<times> db" where
  "CountAgents userID d =
     (case statement d of
        (Some e, d1) \<Rightarrow> (Inl (''count agents: '' @ e), d1)
      | (None, d1) \<Rightarrow> (Inr (length (filter (\<lambda>a. a_UserID a = userID) (db_agents d1))), d1))"

definition GetAgentsByIDs :: "string list \<Rightarrow> db \<Rightarrow> Agent list result \<times> db" where
  "GetAgentsByIDs ids d =
     (if ids = [] then (Inr [], d)
      else queryRows ''get agents by ids'' ''scan agent'' ''iterate agents by ids''
             (\<lambda>d. sort_key a_CreatedAt (filter (\<lambda>a. a_ID a \<in> set ids) (db_agents d))) d)"

definition GetAgentsByRole :: "string \<Rightarrow> string \<Rightarrow> db \<Rightarrow> Agent list result \<times> db" where
  "GetAgentsByRole userID role =
     queryRows ''get agents by role'' ''scan agent'' ''iterate agents by role''
       (\<lambda>d. take 100 (sort_key a_CreatedAt (filter (\<lambda>a. a_UserID a = userID \<and> a_Role a = role) (db_agents d))))"

section \<open>Keys and references\<close>

definition uniqueOk :: "db \<Rightarrow> bool" where
  "uniqueOk d \<longleftrightarrow>
     distinct (map us_ID (db_users d)) \<and> distinct (map us_Email (db_users d))
     \<and> distinct (map ak_ID (db_apiKeys d)) \<and> distinct (map (\<lambda>k. (ak_UserID k, ak_Provider k)) (db_apiKeys d))
     \<and> distinct (map gh_ID (db_github d)) \<and> distinct (map gh_UserID (db_github d))
     \<and> distinct (map wk_ID (db_workspaces d)) \<and> distinct (map (\<lambda>w. (wk_Platform w, wk_PlatformID w)) (db_workspaces d))
     \<and> distinct (map a_ID (db_agents d))"

definition refTo :: "string set \<Rightarrow> string option \<Rightarrow> bool" where
  "refTo ids v = (case v of None \<Rightarrow> True | Some i \<Rightarrow> i \<in> ids)"

definition linksOk :: "db \<Rightarrow> bool" where
  "linksOk d \<longleftrightarrow>
     (let A = a_ID ` set (db_agents d); S = s_ID ` set (db_sessions d) in
      (\<forall>a \<in> set (db_agents d). refTo (ak_ID ` set (db_apiKeys d)) (a_APIKeyID a))
      \<and> (\<forall>s \<in> set (db_sessions d). s_AgentID s \<in> A \<and> refTo S (s_ParentSessionID s) \<and> refTo (c_ID ` set (db_schedules d)) (s_ScheduleID s))
      \<and> (\<forall>c \<in> set (db_schedules d). c_AgentID c \<in> A)
      \<and> (\<forall>t \<in> set (db_tasks d). t_FromAgentID t \<in> A \<and> t_ToAgentID t \<in> A \<and> refTo S (t_ParentSessionID t) \<and> refTo S (t_ChildSessionID t))
      \<and> (\<forall>m \<in> set (db_history d). ch_AgentID m \<in> A \<and> ch_WorkspaceID m \<in> wk_ID ` set (db_workspaces d))
      \<and> (\<forall>p \<in> set (db_pipelines d). ip_AgentID p \<in> A \<and> refTo S (ip_SessionID p))
      \<and> (\<forall>c \<in> set (db_clarifications d). cl_SessionID c \<in> S)
      \<and> (\<forall>r \<in> set (db_usage d). refTo S (ur_SessionID r)))"

definition refsOk :: "db \<Rightarrow> bool" where
  "refsOk d \<longleftrightarrow> uniqueOk d \<and> linksOk d"

interpretation refs: table_invariant refsOk
proof
  fix d' d :: db assume "tables d' = tables d" "refsOk d"
  note eq = tables_eqD [OF this(1)]
  show "refsOk d'" using \<open>refsOk d\<close> unfolding refsOk_def uniqueOk_def linksOk_def eq .
qed

lemma refTo_simps [simp]: "refTo A None" "refTo A (Some i) = (i \<in> A)"
  by (simp_all add: refTo_def)

lemma refTo_clearRef: "refTo A v \<Longrightarrow> A \<subseteq> B \<union> set gone \<Longrightarrow> refTo B (clearRef gone v)"
  by (cases v) (auto simp: clearRef_def)

lemma refTo_mono: "refTo A v \<Longrightarrow> A \<subseteq> B \<Longrightarrow> refTo B v"
  by (cases v) auto

lemma clearRef_other: "refTo A v \<Longrightarrow> A \<inter> set gone = {} \<Longrightarrow> clearRef gone v = v"
  by (cases v) (auto simp: clearRef_def)

text \<open>Deleting sessions, and agents with them, leaves no reference dangling.\<close>

lemma deleteSessions_ids: "s_ID ` set (db_sessions (deleteSessions P d)) = s_ID ` {s \<in> set (db_sessions d). \<not> P s}"
  by (auto simp: deleteSessions_def Let_def deleteRows_def image_image)

lemma kept_ids_cover: "s_ID ` set (db_sessions d) \<subseteq> s_ID ` {s \<in> set (db_sessions d). \<not> P s} \<union> set (map s_ID (filter P (db_sessions d)))"
  by auto

lemma deleteSessions_frame:
  "db_users (deleteSessions P d) = db_users d" "db_apiKeys (deleteSessions P d) = db_apiKeys d"
  "db_github (deleteSessions P d) = db_github d" "db_workspaces (deleteSessions P d) = db_workspaces d"
  "db_agents (deleteSessions P d) = db_agents d" "db_schedules (deleteSessions P d) = db_schedules d"
  "db_history (deleteSessions P d) = db_history d"
  by (simp_all add: deleteSessions_def Let_def)

lemma deleteSessions_links:
  assumes "linksOk d"
  shows "linksOk (deleteSessions P d)"
proof -
  note c = refTo_clearRef [OF _ kept_ids_cover [of d P]]
  have stays: "i \<in> s_ID ` {s \<in> set (db_sessions d). \<not> P s}"
    if "i \<in> s_ID ` set (db_sessions d)" "i \<notin> s_ID ` {s \<in> set (db_sessions d). P s}" for i
    using that by auto
  show ?thesis
    using assms unfolding linksOk_def Let_def deleteSessions_ids deleteSessions_frame
    by (auto simp: deleteSessions_def Let_def deleteRows_def intro: c stays)
qed

lemma deleteAgents_refs:
  assumes "refsOk d" "\<not> list_ex (\<lambda>t. t_FromAgentID t \<in> set gone \<or> t_ToAgentID t \<in> set gone) (db_tasks d)"
    and "gone = map a_ID (filter P (db_agents d))"
  shows "refsOk (deleteAgents P d)"
proof -
  let ?d1 = "deleteSessions (\<lambda>s. s_AgentID s \<in> set gone) d" and ?d2 = "deleteAgents P d"
  let ?A = "a_ID ` set (db_agents d)" and ?A2 = "a_ID ` set (db_agents ?d2)"
  have A: "?A \<subseteq> ?A2 \<union> set gone" by (auto simp: deleteAgents_def Let_def deleteRows_def assms(3))
  have S: "s_ID ` set (db_sessions ?d2) = s_ID ` set (db_sessions ?d1)"
    by (auto simp: deleteAgents_def Let_def assms(3) image_image)
  have C: "c_ID ` set (db_schedules d) \<subseteq> c_ID ` set (db_schedules ?d2) \<union> set (map c_ID (filter (\<lambda>c. c_AgentID c \<in> set gone) (db_schedules d)))"
    by (auto simp: deleteAgents_def Let_def deleteRows_def assms(3))
  have l1: "linksOk ?d1" using assms(1) deleteSessions_links by (simp add: refsOk_def)
  have alive: "s_AgentID s \<notin> set gone" if "s \<in> set (db_sessions ?d1)" for s
    using that by (auto simp: deleteSessions_def Let_def deleteRows_def)
  have tabs: "db_schedules ?d2 = deleteRows (\<lambda>c. c_AgentID c \<in> set gone) (db_schedules d)"
    "db_history ?d2 = deleteRows (\<lambda>m. ch_AgentID m \<in> set gone) (db_history d)" "db_workspaces ?d2 = db_workspaces d"
    "db_pipelines ?d2 = deleteRows (\<lambda>p. ip_AgentID p \<in> set gone) (db_pipelines ?d1)"
    "db_clarifications ?d2 = db_clarifications ?d1" "db_usage ?d2 = db_usage ?d1"
    by (simp_all add: deleteAgents_def Let_def assms(3) deleteSessions_frame)
  have stays: "i \<in> ?A \<Longrightarrow> i \<notin> set gone \<Longrightarrow> i \<in> ?A2" for i using A by blast
  have "linksOk ?d2"
    unfolding linksOk_def Let_def S
  proof (intro conjI ballI)
    fix a assume "a \<in> set (db_agents ?d2)"
    then show "refTo (ak_ID ` set (db_apiKeys ?d2)) (a_APIKeyID a)"
      using l1 by (auto simp: linksOk_def Let_def deleteAgents_def deleteRows_def deleteSessions_frame)
  next
    fix s assume "s \<in> set (db_sessions ?d2)"
    then obtain s1 where s1: "s1 \<in> set (db_sessions ?d1)"
      "s = s1\<lparr>s_ScheduleID := clearRef (map c_ID (filter (\<lambda>c. c_AgentID c \<in> set gone) (db_schedules d))) (s_ScheduleID s1)\<rparr>"
      by (auto simp: deleteAgents_def Let_def assms(3))
    have "s_AgentID s1 \<in> ?A" using l1 s1(1) by (simp add: linksOk_def Let_def deleteSessions_frame)
    moreover have "s_AgentID s = s_AgentID s1" using s1(2) by simp
    ultimately show "s_AgentID s \<in> ?A2" using alive [OF s1(1)] A by auto
    show "refTo (s_ID ` set (db_sessions ?d1)) (s_ParentSessionID s)" using l1 s1 by (simp add: linksOk_def Let_def)
    have "refTo (c_ID ` set (db_schedules d)) (s_ScheduleID s1)" using l1 s1(1) by (simp add: linksOk_def Let_def deleteSessions_frame)
    from refTo_clearRef [OF this C] show "refTo (c_ID ` set (db_schedules ?d2)) (s_ScheduleID s)" using s1(2) by simp
  next
    fix t assume "t \<in> set (db_tasks ?d2)"
    then have t: "t \<in> set (db_tasks ?d1)" by (simp add: deleteAgents_def Let_def assms(3))
    then show "refTo (s_ID ` set (db_sessions ?d1)) (t_ParentSessionID t)" "refTo (s_ID ` set (db_sessions ?d1)) (t_ChildSessionID t)"
      using l1 by (simp_all add: linksOk_def Let_def)
    obtain t0 where "t0 \<in> set (db_tasks d)" "t_FromAgentID t = t_FromAgentID t0" "t_ToAgentID t = t_ToAgentID t0"
      using t by (auto simp: deleteSessions_def Let_def)
    then have "t_FromAgentID t \<notin> set gone" "t_ToAgentID t \<notin> set gone" "t_FromAgentID t \<in> ?A" "t_ToAgentID t \<in> ?A"
      using assms(1,2) by (auto simp: list_ex_iff refsOk_def linksOk_def Let_def)
    then show "t_FromAgentID t \<in> ?A2" "t_ToAgentID t \<in> ?A2" using A by blast+
  qed (use l1 in \<open>auto simp: linksOk_def Let_def tabs set_deleteRows deleteSessions_frame intro!: stays\<close>)
  moreover have "uniqueOk ?d2"
    using assms(1) by (auto simp: refsOk_def uniqueOk_def deleteAgents_def Let_def deleteSessions_frame distinct_deleteRows)
  ultimately show ?thesis by (simp add: refsOk_def)
qed

section \<open>Every operation keeps them\<close>

lemma refsOk_users:
  "refsOk d \<Longrightarrow> distinct (map us_ID us) \<Longrightarrow> distinct (map us_Email us) \<Longrightarrow> refsOk (d\<lparr>db_users := us\<rparr>)"
  by (auto simp: refsOk_def uniqueOk_def linksOk_def Let_def)

lemma refsOk_github:
  "refsOk d \<Longrightarrow> distinct (map gh_ID gs) \<Longrightarrow> distinct (map gh_UserID gs) \<Longrightarrow> refsOk (d\<lparr>db_github := gs\<rparr>)"
  by (auto simp: refsOk_def uniqueOk_def linksOk_def Let_def)

lemma refsOk_apiKeys:
  "refsOk d \<Longrightarrow> distinct (map ak_ID ks) \<Longrightarrow> distinct (map (\<lambda>k. (ak_UserID k, ak_Provider k)) ks) \<Longrightarrow>
     ak_ID ` set (db_apiKeys d) \<subseteq> ak_ID ` set ks \<Longrightarrow> refsOk (d\<lparr>db_apiKeys := ks\<rparr>)"
  by (auto simp: refsOk_def uniqueOk_def linksOk_def Let_def intro: refTo_mono)

lemma refsOk_workspaces:
  "refsOk d \<Longrightarrow> distinct (map wk_ID ws) \<Longrightarrow> distinct (map (\<lambda>w. (wk_Platform w, wk_PlatformID w)) ws) \<Longrightarrow>
     wk_ID ` set (db_workspaces d) \<subseteq> wk_ID ` set ws \<Longrightarrow> refsOk (d\<lparr>db_workspaces := ws\<rparr>)"
  by (auto simp: refsOk_def uniqueOk_def linksOk_def Let_def)

lemma refsOk_agents:
  assumes "refsOk d" "distinct (map a_ID as)" "a_ID ` set (db_agents d) \<subseteq> a_ID ` set as"
    and "\<forall>a \<in> set as. refTo (ak_ID ` set (db_apiKeys d)) (a_APIKeyID a)"
  shows "refsOk (d\<lparr>db_agents := as\<rparr>)"
  using assms by (auto simp: refsOk_def uniqueOk_def linksOk_def Let_def)

lemma keys_updateRows: "(\<And>r. k (f r) = k r) \<Longrightarrow> k ` set (updateRows P f rs) = k ` set rs"
  by (simp only: set_map [symmetric] map_updateRows_keep)

lemma kept_CreateUser: "refs.kept (CreateUser email hash)"
  unfolding CreateUser_def [abs_def]
proof (intro refs.kept_newRow, unfold Let_def, intro refs.kept_bind refs.kept_execChecked)
  fix uid now d
  let ?row = "\<lparr>us_ID = uid, us_Email = email, us_PasswordHash = hash, us_CreatedAt = now\<rparr>"
  assume i: "refsOk d" and "insertUserError ?row d = None"
  then have "list_ex (\<lambda>v. us_Email v = email) (db_users d) \<or> uid \<notin> us_ID ` set (db_users d)"
    by (auto simp: insertUserError_def list_ex_iff split: if_splits)
  moreover have "distinct (map us_ID (db_users d))" "distinct (map us_Email (db_users d))"
    using i by (auto simp: refsOk_def uniqueOk_def)
  ultimately show "refsOk (if list_ex (\<lambda>v. us_Email v = email) (db_users d) then d else d\<lparr>db_users := db_users d @ [?row]\<rparr>)"
    using i by (auto simp: list_ex_iff intro!: refsOk_users)
qed (simp add: GetUserByEmail_def [abs_def] refs.kept_readOnly readonly)

lemma kept_CreateAPIKey: "refs.kept (CreateAPIKey u key)"
  unfolding CreateAPIKey_def [abs_def]
proof (intro refs.kept_newRow, unfold Let_def, intro refs.kept_bind refs.kept_execChecked)
  fix kid now d
  let ?row = "key\<lparr>ak_ID := kid, ak_UserID := u, ak_CreatedAt := now\<rparr>"
  assume i: "refsOk d" and e: "upsertKeyError ?row d = None"
  have d: "distinct (map ak_ID (db_apiKeys d))" "distinct (map (\<lambda>k. (ak_UserID k, ak_Provider k)) (db_apiKeys d))"
    using i by (auto simp: refsOk_def uniqueOk_def)
  have "distinct (map ak_ID (upsertKey ?row (db_apiKeys d)))"
    "distinct (map (\<lambda>k. (ak_UserID k, ak_Provider k)) (upsertKey ?row (db_apiKeys d)))"
    "ak_ID ` set (db_apiKeys d) \<subseteq> ak_ID ` set (upsertKey ?row (db_apiKeys d))"
    using d e by (auto simp: upsertKey_def Let_def map_updateRows_keep keys_updateRows upsertKeyError_def list_ex_iff split: if_splits)
  with i show "refsOk (d\<lparr>db_apiKeys := upsertKey ?row (db_apiKeys d)\<rparr>)" by (rule refsOk_apiKeys)
qed (auto intro!: refs.keptI split: option.splits)

lemma kept_DeleteAPIKey: "refs.kept (DeleteAPIKey kid u)"
  unfolding DeleteAPIKey_def Let_def
proof (rule refs.kept_execStmt)
  fix d assume i: "refsOk d"
  let ?hit = "\<lambda>k. ak_ID k = kid \<and> ak_UserID k = u"
  let ?gone = "map ak_ID (filter ?hit (db_apiKeys d))"
  have c: "refTo (ak_ID ` set (deleteRows ?hit (db_apiKeys d))) (clearRef ?gone v)" if "refTo (ak_ID ` set (db_apiKeys d)) v" for v
    by (rule refTo_clearRef [OF that]) (auto simp: deleteRows_def)
  show "refsOk (d\<lparr>db_apiKeys := deleteRows ?hit (db_apiKeys d),
      db_agents := map (\<lambda>a. a\<lparr>a_APIKeyID := clearRef ?gone (a_APIKeyID a)\<rparr>) (db_agents d)\<rparr>)"
    using i c by (auto simp: refsOk_def uniqueOk_def linksOk_def Let_def distinct_deleteRows comp_def image_image)
qed

lemma kept_CreateGithubConnection: "refs.kept (CreateGithubConnection u n t rs)"
  unfolding CreateGithubConnection_def [abs_def]
proof (intro refs.kept_newRow, unfold Let_def, intro refs.kept_bind refs.kept_execChecked)
  fix gid now d
  assume i: "refsOk d" and e: "(if list_ex (\<lambda>g. gh_ID g = gid \<or> gh_UserID g = u) (db_github d) then Some duplicateKey else None) = None"
  let ?row = "\<lparr>gh_ID = gid, gh_UserID = u, gh_GithubUsername = n, gh_GithubToken = t, gh_Repos = rs,
      gh_WebhookSecret = None, gh_IssueLabel = Some ''shipmates'', gh_CreatedAt = now\<rparr>"
  have "gid \<notin> gh_ID ` set (db_github d)" "u \<notin> gh_UserID ` set (db_github d)" using e by (auto simp: list_ex_iff split: if_splits)
  with i show "refsOk (d\<lparr>db_github := db_github d @ [?row]\<rparr>)"
    by (intro refsOk_github) (auto simp: refsOk_def uniqueOk_def)
qed (auto intro!: refs.keptI)

lemma kept_updateGithub: "(\<And>g. gh_ID (f g) = gh_ID g \<and> gh_UserID (f g) = gh_UserID g) \<Longrightarrow> refs.kept (updateGithub msg u f)"
  unfolding updateGithub_def
  by (intro refs.kept_execStmt refsOk_github) (auto simp: refsOk_def uniqueOk_def map_updateRows_keep)

lemma kept_DeleteGithubConnection: "refs.kept (DeleteGithubConnection u)"
  unfolding DeleteGithubConnection_def
  by (intro refs.kept_execStmt refsOk_github) (auto simp: refsOk_def uniqueOk_def distinct_deleteRows)

lemma kept_CreateWorkspace: "refs.kept (CreateWorkspace w)"
  unfolding CreateWorkspace_def [abs_def]
proof (intro refs.kept_newRow, unfold Let_def, intro refs.kept_bind refs.kept_execChecked)
  fix wid now d
  let ?row = "w\<lparr>wk_ID := wid, wk_ConnectedAt := now\<rparr>"
  assume i: "refsOk d" and "insertWorkspaceError ?row d = None"
  then have "wid \<notin> wk_ID ` set (db_workspaces d)"
    "(wk_Platform w, wk_PlatformID w) \<notin> (\<lambda>w. (wk_Platform w, wk_PlatformID w)) ` set (db_workspaces d)"
    by (auto simp: insertWorkspaceError_def list_ex_iff split: if_splits)
  with i show "refsOk (d\<lparr>db_workspaces := db_workspaces d @ [?row]\<rparr>)"
    by (intro refsOk_workspaces) (auto simp: refsOk_def uniqueOk_def)
qed (auto intro!: refs.keptI)

lemma kept_UpdateWorkspace: "refs.kept (UpdateWorkspace wid u a b c)"
  unfolding UpdateWorkspace_def
  by (intro refs.kept_execStmt refsOk_workspaces)
    (auto simp: refsOk_def uniqueOk_def map_updateRows_keep keys_updateRows)

lemma kept_DeleteWorkspace: "refs.kept (DeleteWorkspace wid u)"
  unfolding DeleteWorkspace_def Let_def
proof (rule refs.kept_execStmt)
  fix d assume i: "refsOk d"
  have stays: "j \<in> wk_ID ` set (deleteRows (workspaceIs wid u) (db_workspaces d))"
    if "j \<in> wk_ID ` set (db_workspaces d)" "j \<notin> wk_ID ` {w \<in> set (db_workspaces d). workspaceIs wid u w}" for j
    using that by (auto simp: deleteRows_def)
  show "refsOk (d\<lparr>db_workspaces := deleteRows (workspaceIs wid u) (db_workspaces d),
      db_history := deleteRows (\<lambda>m. ch_WorkspaceID m \<in> set (map wk_ID (filter (workspaceIs wid u) (db_workspaces d)))) (db_history d)\<rparr>)"
    using i unfolding refsOk_def uniqueOk_def linksOk_def Let_def by (auto simp: distinct_deleteRows set_deleteRows intro: stays)
qed

lemma agentKey_refTo: "agentKeyError a d = None \<Longrightarrow> refTo (ak_ID ` set (db_apiKeys d)) (a_APIKeyID a)"
  by (auto simp: agentKeyError_def list_ex_iff split: option.splits if_splits)

lemma kept_CreateAgent: "refs.kept (CreateAgent u agent)"
  unfolding CreateAgent_def [abs_def]
proof (intro refs.kept_newRow, unfold Let_def, intro refs.kept_bind refs.kept_execChecked)
  fix aid now d
  let ?row = "agent\<lparr>a_ID := aid, a_UserID := u, a_CreatedAt := now, a_UpdatedAt := now\<rparr>"
  assume i: "refsOk d" and "insertAgentError ?row d = None"
  then have "aid \<notin> a_ID ` set (db_agents d)" "agentKeyError ?row d = None"
    by (auto simp: insertAgentError_def list_ex_iff split: if_splits)
  with i agentKey_refTo [of ?row d] show "refsOk (d\<lparr>db_agents := db_agents d @ [?row]\<rparr>)"
    by (intro refsOk_agents) (auto simp: refsOk_def uniqueOk_def linksOk_def Let_def)
qed (auto intro!: refs.keptI)

lemma kept_UpdateAgent: "refs.kept (UpdateAgent aid u agent)"
  unfolding UpdateAgent_def [abs_def]
proof (intro refs.kept_timeNow refs.kept_bind refs.kept_execChecked)
  fix now d
  assume i: "refsOk d" and e: "(if list_ex (agentIs aid u) (db_agents d) then agentKeyError agent d else None) = None"
  let ?f = "\<lambda>a. agent\<lparr>a_ID := a_ID a, a_UserID := a_UserID a, a_CreatedAt := a_CreatedAt a, a_UpdatedAt := now\<rparr>"
  have "refTo (ak_ID ` set (db_apiKeys d)) (a_APIKeyID agent)" if "x \<in> set (db_agents d)" "agentIs aid u x" for x
    using e that agentKey_refTo [of agent d] by (auto simp: list_ex_iff split: if_splits)
  then have "\<forall>a \<in> set (updateRows (agentIs aid u) ?f (db_agents d)). refTo (ak_ID ` set (db_apiKeys d)) (a_APIKeyID a)"
    using i by (auto simp: updateRows_def refsOk_def linksOk_def Let_def)
  with i show "refsOk (d\<lparr>db_agents := updateRows (agentIs aid u) ?f (db_agents d)\<rparr>)"
    by (intro refsOk_agents) (auto simp: refsOk_def uniqueOk_def map_updateRows_keep keys_updateRows)
qed (auto intro!: refs.keptI)

lemma kept_DeleteAgent: "refs.kept (DeleteAgent aid u)"
  unfolding DeleteAgent_def
proof (rule refs.kept_execChecked)
  fix d
  assume i: "refsOk d"
    and e: "(if list_ex (agentIs aid u) (db_agents d) \<and> list_ex (\<lambda>t. t_FromAgentID t = aid \<or> t_ToAgentID t = aid) (db_tasks d)
      then Some restrictKey else None) = None"
  have "set (map a_ID (filter (agentIs aid u) (db_agents d))) \<subseteq> {aid}" by (auto simp: agentIs_def)
  then have "\<not> list_ex (\<lambda>t. t_FromAgentID t \<in> set (map a_ID (filter (agentIs aid u) (db_agents d)))
      \<or> t_ToAgentID t \<in> set (map a_ID (filter (agentIs aid u) (db_agents d)))) (db_tasks d)"
    using e by (auto simp: list_ex_iff agentIs_def split: if_splits)
  from deleteAgents_refs [OF i this refl] show "refsOk (deleteAgents (agentIs aid u) d)" .
qed

lemma kept_DeleteSession: "refs.kept (DeleteSession sid u)"
  unfolding DeleteSession_def
  by (intro refs.kept_execStmt)
    (auto simp: refsOk_def deleteSessions_links, simp add: uniqueOk_def deleteSessions_frame)

text \<open>The operations of the account stores, as one transition.\<close>

datatype accountOp =
    OpCreateUser string string | OpCreateAPIKey string ApiKey | OpDeleteAPIKey string string
  | OpConnectGithub string string string "string list" | OpUpdateGithub string string "string list"
  | OpUpdateRepos string "string list" | OpWebhookSecret string string | OpDisconnectGithub string
  | OpCreateWorkspace Workspace | OpUpdateWorkspace string string "string option" "string option" "string option"
  | OpDeleteWorkspace string string | OpCreateAgent string Agent | OpUpdateAgent string string Agent
  | OpDeleteAgent string string | OpDeleteSession string string

fun accountStep :: "accountOp \<Rightarrow> db \<Rightarrow> db" where
  "accountStep (OpCreateUser e h) d = snd (CreateUser e h d)"
| "accountStep (OpCreateAPIKey u k) d = snd (CreateAPIKey u k d)"
| "accountStep (OpDeleteAPIKey k u) d = snd (DeleteAPIKey k u d)"
| "accountStep (OpConnectGithub u n t rs) d = snd (CreateGithubConnection u n t rs d)"
| "accountStep (OpUpdateGithub u t rs) d = snd (UpdateGithubConnection u t rs d)"
| "accountStep (OpUpdateRepos u rs) d = snd (UpdateGithubConnectionRepos u rs d)"
| "accountStep (OpWebhookSecret u s) d = snd (UpdateGithubWebhookSecret u s d)"
| "accountStep (OpDisconnectGithub u) d = snd (DeleteGithubConnection u d)"
| "accountStep (OpCreateWorkspace w) d = snd (CreateWorkspace w d)"
| "accountStep (OpUpdateWorkspace w u a b c) d = snd (UpdateWorkspace w u a b c d)"
| "accountStep (OpDeleteWorkspace w u) d = snd (DeleteWorkspace w u d)"
| "accountStep (OpCreateAgent u a) d = snd (CreateAgent u a d)"
| "accountStep (OpUpdateAgent i u a) d = snd (UpdateAgent i u a d)"
| "accountStep (OpDeleteAgent i u) d = snd (DeleteAgent i u d)"
| "accountStep (OpDeleteSession i u) d = snd (DeleteSession i u d)"

lemmas account_kept =
  kept_CreateUser kept_CreateAPIKey kept_DeleteAPIKey kept_CreateGithubConnection kept_updateGithub kept_DeleteGithubConnection
  kept_CreateWorkspace kept_UpdateWorkspace kept_DeleteWorkspace kept_CreateAgent kept_UpdateAgent kept_DeleteAgent kept_DeleteSession

lemma accountStep_refs: "refsOk d \<Longrightarrow> refsOk (accountStep opr d)"
  by (cases opr)
    (auto intro!: refs.kept_snd account_kept
      simp: UpdateGithubConnection_def UpdateGithubConnectionRepos_def UpdateGithubWebhookSecret_def)

interpretation accounts: invariant_machine refsOk "\<lambda>d opr d'. d' = accountStep opr d" refsOk
  by unfold_locales (auto simp: accountStep_refs)


definition accountDb :: db where
  "accountDb = (sessionDb [sampleSession ''s1''])\<lparr>db_clarifications := [\<lparr>cl_ID = ''q'', cl_SessionID = ''s1'', cl_Question = ''why?'',
     cl_Answer = None, cl_Status = ClarificationPending, cl_AskedAt = 1, cl_AnsweredAt = None\<rparr>]\<rparr>"

lemma accountDb_refs: "refsOk accountDb"
  by (simp add: refsOk_def uniqueOk_def linksOk_def accountDb_def sessionDb_def sampleSession_def)


end
