(* ===== verification/Schedules.thy ===== *)
theory Schedules
  imports Accounts
begin

text \<open>
  The operations of \<open>go-shared/schedules.go\<close> on the table \<open>agent_schedules\<close>, and that they keep the keys and
  references of the tables.
\<close>

section \<open>Definitions\<close>

definition MaxDueSchedulesPerBatch :: nat where
  "MaxDueSchedulesPerBatch = 100"

record AgentScheduleWithAgent =
  cw_Schedule :: AgentSchedule
  cw_AgentName :: string

definition scheduleIs :: "string \<Rightarrow> string \<Rightarrow> AgentSchedule \<Rightarrow> bool" where
  "scheduleIs cid userID c = (c_ID c = cid \<and> c_UserID c = userID)"

text \<open>The inner join with the agent; ids of agents are unique.\<close>

definition scheduleWithAgent :: "db \<Rightarrow> AgentSchedule \<Rightarrow> AgentScheduleWithAgent option" where
  "scheduleWithAgent d c =
     map_option (\<lambda>a. \<lparr>cw_Schedule = c, cw_AgentName = a_Name a\<rparr>) (List.find (\<lambda>a. a_ID a = c_AgentID c) (db_agents d))"

definition ListSchedules :: "string \<Rightarrow> db \<Rightarrow> AgentScheduleWithAgent list result \<times> db" where
  "ListSchedules userID =
     queryRows ''list schedules'' ''scan schedule'' ''iterate schedules''
       (\<lambda>d. orderDesc (c_CreatedAt \<circ> cw_Schedule)
          (List.map_filter (scheduleWithAgent d) (filter (\<lambda>c. c_UserID c = userID) (db_schedules d))))"

definition GetSchedule :: "string \<Rightarrow> string \<Rightarrow> db \<Rightarrow> AgentSchedule option result \<times> db" where
  "GetSchedule cid userID = queryRow ''get schedule'' (\<lambda>d. List.find (scheduleIs cid userID) (db_schedules d))"

definition insertScheduleError :: "AgentSchedule \<Rightarrow> db \<Rightarrow> string option" where
  "insertScheduleError c d =
     (if list_ex (\<lambda>v. c_ID v = c_ID c) (db_schedules d) then Some duplicateKey
      else if list_ex (\<lambda>a. a_ID a = c_AgentID c) (db_agents d) then None
      else Some foreignKey)"

definition CreateSchedule :: "AgentSchedule \<Rightarrow> db \<Rightarrow> AgentSchedule result \<times> db" where
  "CreateSchedule s d =
     (let (cid, d1) = newID d; (now, d2) = timeNow d1;
          row = s\<lparr>c_ID := cid, c_LastRunAt := None, c_LastStatus := None, c_RunCount := 0, c_FailureCount := 0,
                  c_CreatedAt := now, c_UpdatedAt := now\<rparr>
      in case execChecked ''create schedule'' (insertScheduleError row) (\<lambda>d. d\<lparr>db_schedules := db_schedules d @ [row]\<rparr>) d2 of
           (Inl e, d3) \<Rightarrow> (Inl e, d3)
         | (Inr _, d3) \<Rightarrow> (Inr row, d3))"

definition updateSchedules :: "(AgentSchedule \<Rightarrow> bool) \<Rightarrow> (AgentSchedule \<Rightarrow> AgentSchedule) \<Rightarrow> db \<Rightarrow> db" where
  "updateSchedules P f d = d\<lparr>db_schedules := updateRows P f (db_schedules d)\<rparr>"

definition UpdateSchedule :: "string \<Rightarrow> string \<Rightarrow> AgentSchedule \<Rightarrow> db \<Rightarrow> unit result \<times> db" where
  "UpdateSchedule cid userID s d =
     (let (now, d1) = timeNow d in
      execStmt ''update schedule''
        (updateSchedules (scheduleIs cid userID)
          (\<lambda>c. c\<lparr>c_Name := c_Name s, c_Task := c_Task s, c_CronExpression := c_CronExpression s, c_Timezone := c_Timezone s,
                 c_NextRunAt := c_NextRunAt s, c_UpdatedAt := now\<rparr>)) d1)"

definition ToggleSchedule :: "string \<Rightarrow> string \<Rightarrow> bool \<Rightarrow> nat option \<Rightarrow> db \<Rightarrow> unit result \<times> db" where
  "ToggleSchedule cid userID isActive nextRunAt d =
     (let (now, d1) = timeNow d in
      execStmt ''toggle schedule''
        (updateSchedules (scheduleIs cid userID)
          (\<lambda>c. case nextRunAt of
                 Some t \<Rightarrow> c\<lparr>c_IsActive := isActive, c_NextRunAt := t, c_UpdatedAt := now\<rparr>
               | None \<Rightarrow> c\<lparr>c_IsActive := isActive, c_UpdatedAt := now\<rparr>)) d1)"

text \<open>\<open>sessions.schedule_id\<close> is set to null.\<close>

definition deleteSchedules :: "(AgentSchedule \<Rightarrow> bool) \<Rightarrow> db \<Rightarrow> db" where
  "deleteSchedules P d =
     (let gone = map c_ID (filter P (db_schedules d)) in
      d\<lparr>db_schedules := deleteRows P (db_schedules d),
        db_sessions := map (\<lambda>s. s\<lparr>s_ScheduleID := clearRef gone (s_ScheduleID s)\<rparr>) (db_sessions d)\<rparr>)"

definition DeleteSchedule :: "string \<Rightarrow> string \<Rightarrow> db \<Rightarrow> unit result \<times> db" where
  "DeleteSchedule cid userID = execStmt ''delete schedule'' (deleteSchedules (scheduleIs cid userID))"

definition dueAt :: "nat \<Rightarrow> AgentSchedule \<Rightarrow> bool" where
  "dueAt now c \<longleftrightarrow> c_IsActive c \<and> c_NextRunAt c \<le> now"

definition GetDueSchedules :: "nat \<Rightarrow> db \<Rightarrow> AgentSchedule list result \<times> db" where
  "GetDueSchedules now =
     queryRows ''get due schedules'' ''scan schedule'' ''iterate schedules''
       (\<lambda>d. take MaxDueSchedulesPerBatch (sort_key c_NextRunAt (filter (dueAt now) (db_schedules d))))"

definition afterRun :: "nat \<Rightarrow> string \<Rightarrow> nat \<Rightarrow> bool \<Rightarrow> AgentSchedule \<Rightarrow> AgentSchedule" where
  "afterRun now lastStatus nextRunAt failed c =
     c\<lparr>c_LastRunAt := Some now, c_LastStatus := Some lastStatus, c_NextRunAt := nextRunAt, c_RunCount := c_RunCount c + 1,
       c_FailureCount := (if failed then c_FailureCount c + 1 else 0), c_UpdatedAt := now\<rparr>"

definition UpdateScheduleAfterRun :: "string \<Rightarrow> string \<Rightarrow> nat \<Rightarrow> bool \<Rightarrow> db \<Rightarrow> unit result \<times> db" where
  "UpdateScheduleAfterRun cid lastStatus nextRunAt failed d =
     (let (now, d1) = timeNow d in
      execStmt ''update schedule after run'' (updateSchedules (\<lambda>c. c_ID c = cid) (afterRun now lastStatus nextRunAt failed)) d1)"

section \<open>Keys and references\<close>

lemma kept_updateSchedules:
  assumes "\<And>c. c_ID (f c) = c_ID c" "\<And>c. c_AgentID (f c) = c_AgentID c"
  shows "refsOk d \<Longrightarrow> refsOk (updateSchedules P f d)"
proof -
  have "c_ID ` set (updateRows P f cs) = c_ID ` set cs" for cs
    using map_updateRows_keep [of c_ID f P cs] assms(1) by (metis set_map)
  moreover have "c_AgentID ` set (updateRows P f cs) = c_AgentID ` set cs" for cs
    using map_updateRows_keep [of c_AgentID f P cs] assms(2) by (metis set_map)
  then have "(\<forall>c \<in> set (updateRows P f cs). c_AgentID c \<in> A) \<longleftrightarrow> (\<forall>c \<in> set cs. c_AgentID c \<in> A)" for cs A
    by (metis (no_types, lifting) image_iff imageI)
  ultimately show "refsOk d \<Longrightarrow> refsOk (updateSchedules P f d)"
    by (simp add: refsOk_def uniqueOk_def linksOk_def Let_def updateSchedules_def)
qed

lemma kept_CreateSchedule: "refs.kept (CreateSchedule s)"
  unfolding CreateSchedule_def [abs_def]
proof (intro refs.kept_newRow, unfold Let_def, intro refs.kept_bind refs.kept_execChecked)
  fix cid now d
  let ?row = "s\<lparr>c_ID := cid, c_LastRunAt := None, c_LastStatus := None, c_RunCount := 0, c_FailureCount := 0,
                c_CreatedAt := now, c_UpdatedAt := now\<rparr>"
  assume i: "refsOk d" and "insertScheduleError ?row d = None"
  then have "c_AgentID s \<in> a_ID ` set (db_agents d)"
    by (auto simp: insertScheduleError_def list_ex_iff split: if_splits intro: rev_image_eqI)
  with i show "refsOk (d\<lparr>db_schedules := db_schedules d @ [?row]\<rparr>)"
    by (auto simp: refsOk_def uniqueOk_def linksOk_def Let_def intro: refTo_mono [OF _ subset_insertI])
qed (auto intro!: refs.keptI)

lemma kept_UpdateSchedule: "refs.kept (UpdateSchedule cid u s)"
  unfolding UpdateSchedule_def [abs_def]
  by (intro refs.kept_timeNow refs.kept_execStmt kept_updateSchedules) simp_all

lemma kept_ToggleSchedule: "refs.kept (ToggleSchedule cid u b t)"
  unfolding ToggleSchedule_def [abs_def]
  by (intro refs.kept_timeNow refs.kept_execStmt kept_updateSchedules) (simp_all split: option.split)

lemma kept_UpdateScheduleAfterRun: "refs.kept (UpdateScheduleAfterRun cid st n failed)"
  unfolding UpdateScheduleAfterRun_def [abs_def]
  by (intro refs.kept_timeNow refs.kept_execStmt kept_updateSchedules) (simp_all add: afterRun_def)

lemma kept_DeleteSchedule: "refs.kept (DeleteSchedule cid u)"
proof -
  have "refsOk (deleteSchedules P d)" if "refsOk d" for P d
  proof -
    have "c_ID ` set (db_schedules d) \<subseteq> c_ID ` {c \<in> set (db_schedules d). \<not> P c} \<union> set (map c_ID (filter P (db_schedules d)))" by auto
    note c = refTo_clearRef [OF _ this]
    show ?thesis
      using that by (auto simp: refsOk_def uniqueOk_def linksOk_def Let_def deleteSchedules_def deleteRows_def image_image intro: c)
  qed
  then show ?thesis unfolding DeleteSchedule_def by (intro refs.kept_execStmt)
qed

end
