(* ===== verification/Json.thy ===== *)
theory Json
  imports Ids
begin

text \<open>
  What the services write with \<open>encoding/json\<close>: the string encoder of \<open>json.Marshal\<close> (quotes and
  backslashes escaped, control characters and \<open><\<close>, \<open>>\<close>, \<open>&\<close> as \<open>\u00xx\<close>, invalid UTF-8 as
  \<open>\ufffd\<close>, the two line separators as \<open>\u2028\<close> and \<open>\u2029\<close>), and the wire format of the stream
  relay's \<open>Chunk\<close> (\<open>stream-relay/relay/session.go\<close>). Strings are byte strings. The lemmas show that
  the relay's way of recognising the last message of a stream, a search for the bytes
  \<open>"type":"end"\<close>, cannot be fooled by what a chunk contains.
\<close>

section \<open>UTF-8\<close>

text \<open>
  The size of the well-formed UTF-8 sequence at the head of a string, as
  \<open>utf8.DecodeRuneInString\<close> accepts it; 0 where it answers \<open>RuneError\<close> of size 1.
\<close>

definition inRange :: "nat \<Rightarrow> nat \<Rightarrow> char \<Rightarrow> bool" where
  "inRange lo hi c = (lo \<le> of_char c \<and> of_char c \<le> hi)"

definition contByte :: "char \<Rightarrow> bool" where
  "contByte c = inRange 0x80 0xBF c"

definition firstContOk :: "nat \<Rightarrow> char \<Rightarrow> bool" where
  "firstContOk b c =
     (if b = 0xE0 then inRange 0xA0 0xBF c
      else if b = 0xED then inRange 0x80 0x9F c
      else if b = 0xF0 then inRange 0x90 0xBF c
      else if b = 0xF4 then inRange 0x80 0x8F c
      else contByte c)"

definition runeSize :: "string \<Rightarrow> nat" where
  "runeSize s =
     (case s of
        [] \<Rightarrow> 0
      | c # cs \<Rightarrow>
          let b = (of_char c :: nat) in
          if b < 0x80 then 1
          else if 0xC2 \<le> b \<and> b \<le> 0xDF then
            (case cs of c1 # _ \<Rightarrow> if contByte c1 then 2 else 0 | [] \<Rightarrow> 0)
          else if 0xE0 \<le> b \<and> b \<le> 0xEF then
            (case cs of c1 # c2 # _ \<Rightarrow> if firstContOk b c1 \<and> contByte c2 then 3 else 0 | _ \<Rightarrow> 0)
          else if 0xF0 \<le> b \<and> b \<le> 0xF4 then
            (case cs of c1 # c2 # c3 # _ \<Rightarrow> if firstContOk b c1 \<and> contByte c2 \<and> contByte c3 then 4 else 0 | _ \<Rightarrow> 0)
          else 0)"

section \<open>Strings in JSON\<close>

definition hexDigit :: "nat \<Rightarrow> char" where
  "hexDigit n = ''0123456789abcdef'' ! n"

definition backslash :: char where
  "backslash = CHR 0x5C"

definition quote :: char where
  "quote = CHR 0x22"

definition htmlSafe :: "char \<Rightarrow> bool" where
  "htmlSafe c = (0x20 \<le> (of_char c :: nat) \<and> c \<notin> {quote, backslash, CHR ''<'', CHR ''>'', CHR ''&''})"

definition escapeAscii :: "char \<Rightarrow> string" where
  "escapeAscii c =
     (if htmlSafe c then [c]
      else if c = quote \<or> c = backslash then [backslash, c]
      else if c = CHR 0x08 then [backslash, CHR ''b'']
      else if c = CHR 0x0C then [backslash, CHR ''f'']
      else if c = CHR 0x0A then [backslash, CHR ''n'']
      else if c = CHR 0x0D then [backslash, CHR ''r'']
      else if c = CHR 0x09 then [backslash, CHR ''t'']
      else [backslash, CHR ''u'', CHR ''0'', CHR ''0'', hexDigit (of_char c div 16), hexDigit (of_char c mod 16)])"

definition lineSeparator :: "string \<Rightarrow> bool" where
  "lineSeparator w = (w = [CHR 0xE2, CHR 0x80, CHR 0xA8] \<or> w = [CHR 0xE2, CHR 0x80, CHR 0xA9])"

text \<open>One step of the encoder's loop: the bytes written and the number of bytes consumed.\<close>

definition escapeHead :: "string \<Rightarrow> string \<times> nat" where
  "escapeHead s =
     (let c = hd s in
      if (of_char c :: nat) < 0x80 then (escapeAscii c, 1)
      else
        (let size = runeSize s; w = take size s in
         if size = 0 then (backslash # ''ufffd'', 1)
         else if lineSeparator w then
           (backslash # ''u202'' @ [hexDigit (if w ! 2 = CHR 0xA8 then 8 else 9)], size)
         else (w, size)))"

function jsonEscape :: "string \<Rightarrow> string" where
  "jsonEscape s = (if s = [] then [] else (case escapeHead s of (w, n) \<Rightarrow> w @ jsonEscape (drop n s)))"
  by pat_completeness auto
termination
  by (relation "measure length")
    (auto simp: escapeHead_def Let_def split: if_splits)

declare jsonEscape.simps [simp del]

definition jsonString :: "string \<Rightarrow> string" where
  "jsonString s = [quote] @ jsonEscape s @ [quote]"

section \<open>Chunks\<close>

record Chunk =
  k_SessionID :: string
  k_Sequence :: nat
  k_Content :: string
  k_Type :: string
  k_Timestamp :: nat
  k_Dropped :: nat

text \<open>\<open>json.Marshal\<close> of a chunk: the fields in order, the last two left out when zero. It never fails.\<close>

definition marshalChunk :: "Chunk \<Rightarrow> string" where
  "marshalChunk c =
     ''{'' @ jsonString ''sessionId'' @ '':'' @ jsonString (k_SessionID c) @ '','' @
     jsonString ''sequence'' @ '':'' @ Itoa (k_Sequence c) @ '','' @
     jsonString ''content'' @ '':'' @ jsonString (k_Content c) @ '','' @
     jsonString ''type'' @ '':'' @ jsonString (k_Type c) @
     (if k_Timestamp c = 0 then [] else '','' @ jsonString ''timestamp'' @ '':'' @ Itoa (k_Timestamp c)) @
     (if k_Dropped c = 0 then [] else '','' @ jsonString ''dropped'' @ '':'' @ Itoa (k_Dropped c)) @ ''}''"

definition endMarker :: string where
  "endMarker = [quote] @ ''type'' @ [quote] @ '':'' @ [quote] @ ''end'' @ [quote]"

section \<open>Quotes are escaped\<close>

text \<open>Every quote is preceded by a backslash; \<open>prev\<close> is the character before the string.\<close>

fun quotesEscaped :: "char \<Rightarrow> string \<Rightarrow> bool" where
  "quotesEscaped prev [] = True"
| "quotesEscaped prev (c # cs) = ((c = quote \<longrightarrow> prev = backslash) \<and> quotesEscaped c cs)"

lemma quotesEscaped_no_quote: "quote \<notin> set w \<Longrightarrow> quotesEscaped prev w"
  by (induction w arbitrary: prev) auto

lemma quotesEscaped_append:
  "quotesEscaped prev u \<Longrightarrow> (\<And>p. quotesEscaped p v) \<Longrightarrow> quotesEscaped prev (u @ v)"
  by (induction u arbitrary: prev) auto

lemma hexDigit_not_quote: "n < 16 \<Longrightarrow> hexDigit n \<noteq> quote"
proof -
  assume "n < 16"
  then have "hexDigit n \<in> set ''0123456789abcdef''" unfolding hexDigit_def by (intro nth_mem) simp
  then show ?thesis by (auto simp: quote_def)
qed

lemma of_char_lt [simp]: "(of_char c :: nat) < 256"
  by simp

lemma inRange_not_quote: "inRange lo hi c \<Longrightarrow> 0x80 \<le> lo \<Longrightarrow> c \<noteq> quote"
  by (auto simp: inRange_def quote_def)

lemma cont_not_quote: "contByte c \<Longrightarrow> c \<noteq> quote" "firstContOk b c \<Longrightarrow> c \<noteq> quote"
  by (auto simp: contByte_def firstContOk_def split: if_splits dest: inRange_not_quote)

lemma wide_rune_no_quote:
  assumes "0x80 \<le> (of_char (hd s) :: nat)" "s \<noteq> []"
  shows "quote \<notin> set (take (runeSize s) s)"
proof -
  obtain c cs where s: "s = c # cs" using assms(2) by (cases s) auto
  have "c \<noteq> quote" using assms(1) by (auto simp: s quote_def)
  then show ?thesis
    unfolding s runeSize_def
    by (auto simp: Let_def numeral_eq_Suc dest: cont_not_quote split: list.splits if_splits)
qed

lemma escapeHead_quotes: "s \<noteq> [] \<Longrightarrow> quotesEscaped prev (fst (escapeHead s))"
proof (cases "(of_char (hd s) :: nat) < 0x80")
  case True
  have "of_char (hd s) div 16 < (16::nat)" "of_char (hd s) mod 16 < (16::nat)" using of_char_lt [of "hd s"] by linarith+
  note hexDigit_not_quote [OF this(1)] hexDigit_not_quote [OF this(2)]
  with True show ?thesis
    by (auto simp: escapeHead_def escapeAscii_def htmlSafe_def Let_def quote_def backslash_def)
next
  case False
  assume "s \<noteq> []"
  with False have "quote \<notin> set (take (runeSize s) s)" by (intro wide_rune_no_quote) auto
  moreover have "quote \<notin> set (backslash # ''ufffd'')" "quote \<notin> set (backslash # ''u202'' @ [hexDigit 8])"
    "quote \<notin> set (backslash # ''u202'' @ [hexDigit 9])"
    by (simp_all add: quote_def backslash_def hexDigit_def)
  ultimately show ?thesis
    using False by (auto simp: escapeHead_def Let_def intro!: quotesEscaped_no_quote)
qed

lemma jsonEscape_quotes: "quotesEscaped prev (jsonEscape s)"
proof (induction s arbitrary: prev rule: jsonEscape.induct)
  case (1 s)
  show ?case
  proof (cases "s = []")
    case False
    obtain w n where e: "escapeHead s = (w, n)" by (cases "escapeHead s")
    have "quotesEscaped prev w" using escapeHead_quotes [OF False, of prev] by (simp add: e)
    moreover have "quotesEscaped p (jsonEscape (drop n s))" for p using 1 [OF False e [symmetric]] .
    ultimately show ?thesis
      using False by (subst jsonEscape.simps) (simp add: e quotesEscaped_append)
  qed (simp add: jsonEscape.simps)
qed

text \<open>A string of letters, digits and other safe ASCII characters is written as it is.\<close>

lemma jsonEscape_Nil [simp]: "jsonEscape [] = []"
  by (simp add: jsonEscape.simps)

lemma jsonEscape_safe_Cons: "htmlSafe c \<Longrightarrow> (of_char c :: nat) < 0x80 \<Longrightarrow> jsonEscape (c # cs) = c # jsonEscape cs"
  by (subst jsonEscape.simps) (simp add: escapeHead_def escapeAscii_def)

lemma jsonEscape_safe:
  "list_all (\<lambda>c. htmlSafe c \<and> (of_char c :: nat) < 0x80) w \<Longrightarrow> jsonEscape (w @ s) = w @ jsonEscape s"
  by (induction w) (simp_all add: jsonEscape_safe_Cons)

text \<open>The encoder is faithful on such characters: one at the head of the output was at the head of the input.\<close>

lemma escapeHead_letter:
  assumes "s \<noteq> []" "escapeHead s = (w, n)" "hd w = c" "c \<noteq> backslash" "(of_char c :: nat) < 0x80"
  shows "hd s = c \<and> w = [c] \<and> n = 1"
proof (cases "(of_char (hd s) :: nat) < 0x80")
  case True
  with assms show ?thesis
    by (auto simp: escapeHead_def escapeAscii_def Let_def split: if_splits)
next
  case False
  have "hd (take (runeSize s) s) = hd s" if "runeSize s \<noteq> 0" using that assms(1) by (cases s; cases "runeSize s") auto
  with False assms show ?thesis by (auto simp: escapeHead_def Let_def split: if_splits)
qed

lemma jsonEscape_head:
  assumes "jsonEscape s = c # v" "c \<noteq> backslash" "(of_char c :: nat) < 0x80"
  obtains s' where "s = c # s'" "v = jsonEscape s'"
proof -
  have ne: "s \<noteq> []" using assms(1) by auto
  obtain w n where e: "escapeHead s = (w, n)" by (cases "escapeHead s")
  have w: "w \<noteq> []"
    using e ne by (auto simp: escapeHead_def escapeAscii_def Let_def split: if_splits)
  have eq: "w @ jsonEscape (drop n s) = c # v"
    using assms(1) ne by (subst (asm) jsonEscape.simps) (simp add: e)
  then have "hd w = c" using w by (cases w) auto
  from escapeHead_letter [OF ne e this assms(2,3)] have "hd s = c" "w = [c]" "n = 1" by auto
  with ne eq that [of "tl s"] show thesis by (cases s) auto
qed

section \<open>The end marker\<close>

text \<open>What follows each occurrence of the bytes \<open>pe":\<close>, which in a chunk only the key \<open>type\<close> ends with.\<close>

fun afterKey :: "string \<Rightarrow> string list" where
  "afterKey [] = []"
| "afterKey (x # xs) = (if HasPrefix (x # xs) [CHR ''p'', CHR ''e'', quote, CHR '':''] then [drop 3 xs] else []) @ afterKey xs"

lemma afterKey_append: "\<exists>vs. afterKey (u @ v) = vs @ afterKey v"
  by (induction u) (auto simp: append_assoc [symmetric] simp del: append_assoc)

lemma afterKey_skip:
  "CHR ''p'' \<notin> set w \<Longrightarrow> afterKey (w @ z) = afterKey z"
  by (induction w) (auto simp: HasPrefix_def)

lemma afterKey_string:
  "quotesEscaped prev w \<Longrightarrow> x \<noteq> CHR '':'' \<Longrightarrow> afterKey (w @ quote # x # z) = afterKey (quote # x # z)"
proof (induction w arbitrary: prev)
  case (Cons c w)
  have "\<not> HasPrefix (c # w @ quote # x # z) [CHR ''p'', CHR ''e'', quote, CHR '':'']"
  proof
    assume p: "HasPrefix (c # w @ quote # x # z) [CHR ''p'', CHR ''e'', quote, CHR '':'']"
    consider "w = []" | a where "w = [a]" | a b v where "w = a # b # v" by (cases w; cases "tl w") auto
    then show False
    proof cases
      case 3
      with p Cons.prems(1) show ?thesis by (simp add: HasPrefix_def quote_def backslash_def)
    qed (use p Cons.prems(2) in \<open>auto simp: HasPrefix_def quote_def\<close>)
  qed
  moreover have "afterKey (w @ quote # x # z) = afterKey (quote # x # z)"
    using Cons.IH [of c] Cons.prems by simp
  ultimately show ?case by (simp only: append_Cons afterKey.simps(2) [of c]) simp
qed simp

lemma afterKey_endMarker:
  assumes "Contains s endMarker"
  shows "\<exists>r \<in> set (afterKey s). HasPrefix r ([quote] @ ''end'' @ [quote])"
proof -
  obtain u v where s: "s = (u @ quote # ''ty'') @ ''pe'' @ [quote, CHR '':'', quote] @ ''end'' @ quote # v"
    using assms unfolding Contains_iff endMarker_def by auto
  obtain vs where "afterKey s = vs @ afterKey (''pe'' @ [quote, CHR '':'', quote] @ ''end'' @ quote # v)"
    unfolding s using afterKey_append by blast
  then show ?thesis by (auto simp: HasPrefix_def)
qed

lemma Itoa_digits: "c \<in> set (Itoa n) \<Longrightarrow> (48::nat) \<le> of_char c \<and> (of_char c :: nat) \<le> 57"
proof (induction n rule: Itoa.induct)
  case (1 n)
  then show ?case by (subst (asm) Itoa.simps) (auto split: if_splits)
qed

lemma Itoa_no_p: "CHR ''p'' \<notin> set (Itoa n)"
  using Itoa_digits by fastforce

lemma jsonString_names:
  "jsonString ''sessionId'' = [quote] @ ''sessionId'' @ [quote]" "jsonString ''sequence'' = [quote] @ ''sequence'' @ [quote]"
  "jsonString ''content'' = [quote] @ ''content'' @ [quote]" "jsonString ''type'' = [quote] @ ''type'' @ [quote]"
  "jsonString ''timestamp'' = [quote] @ ''timestamp'' @ [quote]" "jsonString ''dropped'' = [quote] @ ''dropped'' @ [quote]"
  "jsonString ''end'' = [quote] @ ''end'' @ [quote]"
  by (simp_all add: jsonString_def jsonEscape_safe_Cons htmlSafe_def quote_def backslash_def)

text \<open>The part of a chunk after its type.\<close>

definition chunkTail :: "Chunk \<Rightarrow> string" where
  "chunkTail c =
     (if k_Timestamp c = 0 then [] else '','' @ jsonString ''timestamp'' @ '':'' @ Itoa (k_Timestamp c)) @
     (if k_Dropped c = 0 then [] else '','' @ jsonString ''dropped'' @ '':'' @ Itoa (k_Dropped c)) @ ''}''"

lemma afterKey_tail: "afterKey (chunkTail c) = []" "\<exists>x z. chunkTail c = x # z \<and> x \<noteq> CHR '':''"
proof -
  have t: "afterKey (quote # ''timestamp'' @ quote # CHR '':'' # Itoa n @ z) = afterKey z" for n z
    using Itoa_no_p afterKey_skip by (simp add: HasPrefix_def quote_def)
  have d: "afterKey (quote # ''dropped'' @ quote # CHR '':'' # Itoa n @ z) = afterKey z" for n z
    using Itoa_no_p afterKey_skip by (simp add: HasPrefix_def quote_def)
  show "afterKey (chunkTail c) = []"
    using t [simplified] d [simplified] by (simp add: chunkTail_def jsonString_names HasPrefix_def)
  show "\<exists>x z. chunkTail c = x # z \<and> x \<noteq> CHR '':''" by (simp add: chunkTail_def)
qed

lemma afterKey_marshalChunk:
  "afterKey (marshalChunk c) = [[quote] @ jsonEscape (k_Type c) @ [quote] @ chunkTail c]"
proof -
  let ?tail = "[quote] @ chunkTail c"
  obtain x z where xz: "chunkTail c = x # z" "x \<noteq> CHR '':''" using afterKey_tail(2) by blast
  have str: "afterKey (jsonEscape v @ quote # y # w) = afterKey (quote # y # w)" if "y \<noteq> CHR '':''" for v y w
    using afterKey_string [OF jsonEscape_quotes that] .
  have num: "afterKey (Itoa n @ w) = afterKey w" for n w using Itoa_no_p afterKey_skip by blast
  have ty: "afterKey (jsonEscape (k_Type c) @ ?tail) = []"
    using str [OF xz(2)] afterKey_tail(1) [of c] by (simp add: xz(1) HasPrefix_def quote_def)
  have m: "marshalChunk c = (CHR ''{'' # quote # ''sessionId'') @ quote # CHR '':'' # quote # jsonEscape (k_SessionID c) @ quote # CHR '','' #
     quote # ''sequence'' @ quote # CHR '':'' # Itoa (k_Sequence c) @ CHR '','' #
     quote # ''content'' @ quote # CHR '':'' # quote # jsonEscape (k_Content c) @ quote # CHR '','' #
     quote # ''type'' @ quote # CHR '':'' # quote # jsonEscape (k_Type c) @ ?tail"
    unfolding marshalChunk_def chunkTail_def jsonString_names
    by (simp add: jsonString_def)
  show ?thesis
    unfolding m using ty by (simp add: HasPrefix_def quote_def [symmetric] str num) (simp add: quote_def)
qed

lemma jsonEscape_is_end:
  assumes "HasPrefix (jsonEscape t @ quote # z) (''end'' @ [quote])"
  shows "t = ''end''"
proof -
  have "prefix (''end'' @ [quote]) (jsonEscape t @ quote # z)" using assms by (simp add: HasPrefix_def)
  then obtain v where v: "jsonEscape t @ quote # z = ''end'' @ quote # v" by (auto elim!: prefixE)
  have step: "\<exists>t'. t = c # t' \<and> jsonEscape t' @ quote # z = w"
    if "jsonEscape t @ quote # z = c # w" "c \<in> set ''end''" for t c w
  proof -
    have c: "c \<noteq> backslash" "(of_char c :: nat) < 0x80" "c \<noteq> quote" using that(2) by (auto simp: backslash_def quote_def)
    with that(1) obtain e where e: "jsonEscape t = c # e" "e @ quote # z = w" by (cases "jsonEscape t") auto
    from jsonEscape_head [OF e(1) c(1,2)] obtain s' where "t = c # s'" "e = jsonEscape s'" by blast
    with e(2) show ?thesis by blast
  qed
  obtain t1 where t1: "t = CHR ''e'' # t1" "jsonEscape t1 @ quote # z = ''nd'' @ quote # v" using step [of t "CHR ''e''"] v by auto
  obtain t2 where t2: "t1 = CHR ''n'' # t2" "jsonEscape t2 @ quote # z = ''d'' @ quote # v" using step [of t1 "CHR ''n''"] t1(2) by auto
  obtain t3 where t3: "t2 = CHR ''d'' # t3" "jsonEscape t3 @ quote # z = quote # v" using step [of t2 "CHR ''d''"] t2(2) by auto
  have "t3 = []"
  proof (cases "jsonEscape t3")
    case (Cons a e)
    with t3(2) have "jsonEscape t3 = quote # e" by simp
    then show ?thesis using jsonEscape_quotes [of "CHR ''x''" t3] by (simp add: backslash_def)
  next
    case Nil
    show ?thesis
    proof (rule ccontr)
      assume "t3 \<noteq> []"
      with Nil show False
        by (subst (asm) jsonEscape.simps)
          (auto simp: escapeHead_def escapeAscii_def Let_def split: if_splits)
    qed
  qed
  with t1 t2 t3 show ?thesis by simp
qed

text \<open>
  The relay recognises the last message of a stream by searching its bytes for
  \<open>"type":"end"\<close>. The search is exact: whatever the session id, the content and the type of a
  chunk are, its JSON contains the marker if and only if its type is \<open>end\<close>, so output that itself
  contains the marker never cuts a stream short and an end is never overlooked.
\<close>

theorem end_marker_is_exact:
  "Contains (marshalChunk c) endMarker \<longleftrightarrow> k_Type c = ''end''"
proof
  assume "Contains (marshalChunk c) endMarker"
  from afterKey_endMarker [OF this] have "HasPrefix (jsonEscape (k_Type c) @ quote # chunkTail c) (''end'' @ [quote])"
    by (simp add: afterKey_marshalChunk HasPrefix_def)
  then show "k_Type c = ''end''" by (rule jsonEscape_is_end)
next
  assume t: "k_Type c = ''end''"
  have "marshalChunk c = (''{'' @ jsonString ''sessionId'' @ '':'' @ jsonString (k_SessionID c) @ '','' @
     jsonString ''sequence'' @ '':'' @ Itoa (k_Sequence c) @ '','' @
     jsonString ''content'' @ '':'' @ jsonString (k_Content c) @ '','') @ endMarker @ chunkTail c"
    unfolding marshalChunk_def chunkTail_def t jsonString_names(4,7) endMarker_def by simp
  then show "Contains (marshalChunk c) endMarker" unfolding Contains_iff by blast
qed

end
