(* ===== verification/Cron.thy ===== *)
theory Cron
  imports Json
begin

text \<open>
  Cron expressions and their next runs: \<open>go-shared/scheduling.go\<close>. The cron library
  (\<open>github.com/adhocore/gronx\<close>) and the time zone database are the fields of \<open>cronLib\<close>; the cache of validated time zones is
  passed along. Times are milliseconds; the zero time, which lies before every other, is 0.
\<close>

section \<open>\<open>strings.Fields\<close> and \<open>strconv.Atoi\<close>\<close>

definition leadingSpace :: "string \<Rightarrow> string option" where
  "leadingSpace s = List.find (\<lambda>w. prefix w s) unicodeSpace"

text \<open>The field read so far is accumulated in reverse.\<close>

function fieldsFrom :: "string \<Rightarrow> string \<Rightarrow> string list" where
  "fieldsFrom cur s =
     (case s of
        [] \<Rightarrow> if cur = [] then [] else [rev cur]
      | c # cs \<Rightarrow>
          (case leadingSpace s of
             Some w \<Rightarrow> (if cur = [] then [] else [rev cur]) @ fieldsFrom [] (drop (length w) s)
           | None \<Rightarrow> fieldsFrom (c # cur) cs))"
  by auto
termination
proof (relation "measure (\<lambda>(_, s). length s)")
  fix cur s c cs w
  assume "s = c # cs" "leadingSpace s = Some w"
  then have "w \<noteq> []" by (auto simp: leadingSpace_def dest!: find_Some_iff_mem unicodeSpace_nonempty)
  with \<open>s = c # cs\<close> show "(([], drop (length w) s), cur, s) \<in> measure (\<lambda>(_, s). length s)"
    by (cases w) auto
qed auto

declare fieldsFrom.simps [simp del]

definition Fields :: "string \<Rightarrow> string list" where
  "Fields s = fieldsFrom [] s"

definition isDigit :: "char \<Rightarrow> bool" where
  "isDigit c = inRange 48 57 c"

definition digitsVal :: "string \<Rightarrow> nat" where
  "digitsVal s = fold (\<lambda>c n. 10 * n + (of_char c - 48)) s 0"

text \<open>\<open>Atoi\<close> of a text of digits: out of the range of \<open>int\<close> is an error.\<close>

definition AtoiDigits :: "string \<Rightarrow> nat option" where
  "AtoiDigits s = (if digitsVal s < 2 ^ 63 then Some (digitsVal s) else None)"

section \<open>The cron library\<close>

record cronLib =
  IsValid :: "string \<Rightarrow> bool"
  NextTickAfter :: "string \<Rightarrow> string \<Rightarrow> nat \<Rightarrow> nat result" \<comment> \<open>expression, zone and instant of the reference time\<close>
  LoadLocation :: "string \<Rightarrow> unit result"

text \<open>What gronx documents of the next tick with the reference time excluded: it is later.\<close>

definition ticksLater :: "cronLib \<Rightarrow> bool" where
  "ticksLater L \<longleftrightarrow> (\<forall>expr zone ref t. NextTickAfter L expr zone ref = Inr t \<longrightarrow> ref < t)"

section \<open>Validation\<close>

definition MaxNextRuns :: nat where
  "MaxNextRuns = 100"

definition MinimumIntervalMinutes :: nat where
  "MinimumIntervalMinutes = 15"

definition daysOfWeek :: "string list" where
  "daysOfWeek = [''Sunday'', ''Monday'', ''Tuesday'', ''Wednesday'', ''Thursday'', ''Friday'', ''Saturday'']"

type_synonym zones = "string list"

definition ValidateTimezone :: "cronLib \<Rightarrow> string \<Rightarrow> zones \<Rightarrow> bool \<times> zones" where
  "ValidateTimezone L timezone zs =
     (if timezone \<in> set zs then (True, zs)
      else case LoadLocation L timezone of Inl _ \<Rightarrow> (False, zs) | Inr _ \<Rightarrow> (True, timezone # zs))"

definition ValidateCronExpression :: "cronLib \<Rightarrow> string \<Rightarrow> bool \<times> string" where
  "ValidateCronExpression L expr = (if \<not> IsValid L expr then (False, ''Invalid cron expression'') else (True, ''''))"

definition minuteMs :: nat where
  "minuteMs = 60000"

text \<open>The reference time is \<open>time.Now()\<close> in the zone of the process.\<close>

definition ValidateCronFrequency :: "cronLib \<Rightarrow> string \<Rightarrow> nat \<Rightarrow> string \<Rightarrow> bool \<times> string" where
  "ValidateCronFrequency L local now expr =
     (if \<not> IsValid L expr then (False, ''Invalid cron expression'')
      else case NextTickAfter L expr local now of
             Inl _ \<Rightarrow> (False, ''Cannot compute next occurrence'')
           | Inr first \<Rightarrow>
               (case NextTickAfter L expr local first of
                  Inl _ \<Rightarrow> (False, ''Cannot compute second occurrence'')
                | Inr second \<Rightarrow>
                    if int second - int first < int (MinimumIntervalMinutes * minuteMs)
                    then (False, ''Schedule must run at most every 15 minutes'') else (True, '''')))"

section \<open>Next runs\<close>

definition ComputeNextRunAt :: "cronLib \<Rightarrow> nat \<Rightarrow> string \<Rightarrow> string \<Rightarrow> nat option \<Rightarrow> zones \<Rightarrow> nat result \<times> zones" where
  "ComputeNextRunAt L now expr timezone after zs =
     (case ValidateTimezone L timezone zs of
        (False, zs1) \<Rightarrow> (Inl (''invalid timezone: '' @ timezone), zs1)
      | (True, zs1) \<Rightarrow>
          (case LoadLocation L timezone of
             Inl e \<Rightarrow> (Inl (''failed to load timezone: '' @ e), zs1)
           | Inr _ \<Rightarrow>
               if \<not> IsValid L expr then (Inl ''invalid cron expression'', zs1)
               else let refTime = (case after of Some t \<Rightarrow> t | None \<Rightarrow> now) in
                 (wrapErr ''failed to compute next run: '' (NextTickAfter L expr timezone refTime), zs1)))"

fun runsFrom :: "cronLib \<Rightarrow> string \<Rightarrow> string \<Rightarrow> nat \<Rightarrow> nat \<Rightarrow> nat list result" where
  "runsFrom L expr timezone current 0 = Inr []"
| "runsFrom L expr timezone current (Suc n) =
     (case NextTickAfter L expr timezone current of
        Inl e \<Rightarrow> Inl (''failed to compute next run: '' @ e)
      | Inr nextTick \<Rightarrow>
          (case runsFrom L expr timezone nextTick n of
             Inl e \<Rightarrow> Inl e
           | Inr runs \<Rightarrow> Inr (nextTick # runs)))"

definition GetNextRuns :: "cronLib \<Rightarrow> nat \<Rightarrow> string \<Rightarrow> string \<Rightarrow> int \<Rightarrow> zones \<Rightarrow> nat list result \<times> zones" where
  "GetNextRuns L now expr timezone count zs =
     (case ValidateTimezone L timezone zs of
        (False, zs1) \<Rightarrow> (Inl (''invalid timezone: '' @ timezone), zs1)
      | (True, zs1) \<Rightarrow>
          (case LoadLocation L timezone of
             Inl e \<Rightarrow> (Inl (''failed to load timezone: '' @ e), zs1)
           | Inr _ \<Rightarrow>
               if \<not> IsValid L expr then (Inl ''invalid cron expression'', zs1)
               else let bounded = (if count > int MaxNextRuns then int MaxNextRuns else count);
                        boundedCount = (if bounded < 0 then 0 else bounded)
                    in (runsFrom L expr timezone now (nat boundedCount), zs1)))"

section \<open>Descriptions\<close>

definition isSimpleInteger :: "string \<Rightarrow> bool" where
  "isSimpleInteger value \<longleftrightarrow> value \<noteq> [] \<and> list_all isDigit value"

definition padZero2 :: "nat \<Rightarrow> string" where
  "padZero2 n = (let s = Itoa n in if length s < 2 then ''0'' @ s else s)"

definition formatTime :: "nat \<Rightarrow> nat \<Rightarrow> string" where
  "formatTime hour minute =
     (let period = (if hour \<ge> 12 then ''PM'' else ''AM'');
          displayHour = (if hour = 0 then 12 else if hour > 12 then hour - 12 else hour)
      in Itoa displayHour @ '':'' @ padZero2 minute @ '' '' @ period)"

definition everyNth :: "string \<Rightarrow> string \<Rightarrow> string option" where
  "everyNth field unit =
     (if CHR ''/'' \<in> set field
      then case Split field (CHR ''/'') of
             [_, n] \<Rightarrow> if isSimpleInteger n then Some (''Every '' @ n @ unit) else None
           | _ \<Rightarrow> None
      else None)"

text \<open>The first block of the function: the answer it returns with, if it returns.\<close>

definition describeFixedTime :: "string \<Rightarrow> string \<Rightarrow> string \<Rightarrow> string \<Rightarrow> string option" where
  "describeFixedTime cronExpression minute hour dayOfWeek =
     (case (AtoiDigits hour, AtoiDigits minute) of
        (Some hourNum, Some minuteNum) \<Rightarrow>
          let timeStr = formatTime hourNum minuteNum in
          if dayOfWeek = ''*'' then Some (''Every day at '' @ timeStr)
          else if dayOfWeek = ''1-5'' then Some (''Every weekday at '' @ timeStr)
          else if dayOfWeek = ''0,6'' then Some (''Every weekend at '' @ timeStr)
          else if isSimpleInteger dayOfWeek then
            (case AtoiDigits dayOfWeek of
               Some dayNum \<Rightarrow> if dayNum \<le> 6 then Some (''Every '' @ daysOfWeek ! dayNum @ '' at '' @ timeStr) else None
             | None \<Rightarrow> None)
          else None
      | _ \<Rightarrow> Some cronExpression)"

definition DescribeCronExpression :: "string \<Rightarrow> string" where
  "DescribeCronExpression cronExpression =
     (let parts = Fields (TrimSpace cronExpression) in
      if length parts \<noteq> 5 then cronExpression
      else
        let minute = parts ! 0; hour = parts ! 1; dayOfMonth = parts ! 2; month = parts ! 3; dayOfWeek = parts ! 4 in
        case (if isSimpleInteger minute \<and> isSimpleInteger hour \<and> dayOfMonth = ''*'' \<and> month = ''*''
              then describeFixedTime cronExpression minute hour dayOfWeek else None) of
          Some answer \<Rightarrow> answer
        | None \<Rightarrow>
            if isSimpleInteger minute \<and> hour = ''*'' \<and> dayOfMonth = ''*'' \<and> month = ''*'' \<and> dayOfWeek = ''*''
            then ''Every hour at minute '' @ minute
            else if minute = ''*'' \<and> hour = ''*'' \<and> dayOfMonth = ''*'' \<and> month = ''*'' \<and> dayOfWeek = ''*''
            then ''Every minute''
            else case everyNth hour '' hours'' of
                   Some answer \<Rightarrow> answer
                 | None \<Rightarrow>
                     (case everyNth minute '' minutes'' of
                        Some answer \<Rightarrow> answer
                      | None \<Rightarrow> cronExpression))"

section \<open>Properties\<close>

text \<open>The cache of time zones holds only zones that load, so it does not change an answer.\<close>

lemma validated_zones_load:
  assumes "\<forall>z \<in> set zs. \<exists>u. LoadLocation L z = Inr u" "ValidateTimezone L timezone zs = (ok, zs')"
  shows "ok = (\<exists>u. LoadLocation L timezone = Inr u) \<and> (\<forall>z \<in> set zs'. \<exists>u. LoadLocation L z = Inr u)"
  using assms by (auto simp: ValidateTimezone_def split: if_splits sum.splits)

text \<open>\<open>runs\<close> are the ticks after \<open>current\<close>, one after the other.\<close>

fun tickChain :: "cronLib \<Rightarrow> string \<Rightarrow> string \<Rightarrow> nat \<Rightarrow> nat list \<Rightarrow> bool" where
  "tickChain L expr zone current [] = True"
| "tickChain L expr zone current (t # ts) = (NextTickAfter L expr zone current = Inr t \<and> tickChain L expr zone t ts)"

lemma runsFrom_Inr:
  "runsFrom L expr zone current n = Inr runs \<Longrightarrow> length runs = n \<and> tickChain L expr zone current runs"
  by (induction L expr zone current n arbitrary: runs rule: runsFrom.induct) (auto split: sum.splits)

lemma runsFrom_Inl:
  assumes "runsFrom L expr zone current n = Inl e"
  shows "\<exists>done e'. length done < n \<and> tickChain L expr zone current done
    \<and> NextTickAfter L expr zone (last (current # done)) = Inl e' \<and> e = ''failed to compute next run: '' @ e'"
  using assms
proof (induction n arbitrary: current)
  case (Suc n)
  show ?case
  proof (cases "NextTickAfter L expr zone current")
    case (Inl e')
    then have "e = ''failed to compute next run: '' @ e'" using Suc.prems by simp
    then show ?thesis using Inl by (intro exI [of _ "[] :: nat list"] exI [of _ e']) simp
  next
    case (Inr t)
    then have "runsFrom L expr zone t n = Inl e" using Suc.prems by (simp split: sum.splits)
    from Suc.IH [OF this] obtain ds e' where "length ds < n" "tickChain L expr zone t ds"
      "NextTickAfter L expr zone (last (t # ds)) = Inl e'" "e = ''failed to compute next run: '' @ e'" by blast
    then show ?thesis using Inr by (intro exI [of _ "t # ds"] exI [of _ e']) simp
  qed
qed simp

lemma tickChain_later:
  assumes "ticksLater L" "tickChain L expr zone current runs"
  shows "sorted_wrt (<) (current # runs)"
  using assms(2)
proof (induction runs arbitrary: current)
  case (Cons t ts)
  then have "current < t" using assms(1) by (auto simp: ticksLater_def)
  moreover have "sorted_wrt (<) (t # ts)" using Cons.IH [of t] Cons.prems by simp
  ultimately show ?case by (auto intro: less_trans)
qed simp

text \<open>
  The next runs of a schedule. For a valid expression and a zone that loads, \<open>GetNextRuns\<close> returns exactly
  as many runs as were asked for, none for a negative number and at most a hundred: the ticks after
  now one after the other, so in strictly increasing order and all in the future; or it
  returns the error of the first tick that the library cannot compute. Otherwise it returns an error.
\<close>

theorem next_runs_are_the_next_ticks:
  assumes "ticksLater L" "\<forall>z \<in> set zs. \<exists>u. LoadLocation L z = Inr u"
  shows "case fst (GetNextRuns L now expr timezone count zs) of
      Inr runs \<Rightarrow> IsValid L expr \<and> LoadLocation L timezone = Inr () \<and> int (length runs) = min (max count 0) 100
        \<and> tickChain L expr timezone now runs \<and> sorted_wrt (<) (now # runs)
    | Inl e \<Rightarrow> \<not> IsValid L expr \<or> LoadLocation L timezone \<noteq> Inr ()
        \<or> (\<exists>done e'. tickChain L expr timezone now done \<and> NextTickAfter L expr timezone (last (now # done)) = Inl e')"
proof -
  define n where "n = nat (if (if count > int MaxNextRuns then int MaxNextRuns else count) < 0 then 0
    else if count > int MaxNextRuns then int MaxNextRuns else count)"
  have n: "int n = min (max count 0) 100" by (auto simp: n_def MaxNextRuns_def)
  obtain ok zs1 where v: "ValidateTimezone L timezone zs = (ok, zs1)" by (cases "ValidateTimezone L timezone zs")
  have ok: "ok \<longleftrightarrow> LoadLocation L timezone = Inr ()" using validated_zones_load [OF assms(2) v] by auto
  show ?thesis
  proof (cases "ok \<and> IsValid L expr")
    case True
    then have "fst (GetNextRuns L now expr timezone count zs) = runsFrom L expr timezone now n"
      using ok v by (auto simp: GetNextRuns_def n_def Let_def)
    moreover have "\<exists>done e'. tickChain L expr timezone now done \<and> NextTickAfter L expr timezone (last (now # done)) = Inl e'"
      if "runsFrom L expr timezone now n = Inl e" for e
      using runsFrom_Inl [OF that] by blast
    moreover have "length runs = n \<and> tickChain L expr timezone now runs \<and> sorted_wrt (<) (now # runs)"
      if "runsFrom L expr timezone now n = Inr runs" for runs
      using runsFrom_Inr [OF that] tickChain_later [OF assms(1)] by blast
    ultimately show ?thesis
      using True ok n by (cases "runsFrom L expr timezone now n") simp_all
  next
    case False
    then have "\<exists>e. fst (GetNextRuns L now expr timezone count zs) = Inl e"
      using v by (cases ok) (auto simp: GetNextRuns_def split: sum.split)
    then show ?thesis using False ok by auto
  qed
qed

text \<open>A clock that ticks twice a day, at midnight and a minute later.\<close>

definition twiceADay :: cronLib where
  "twiceADay = \<lparr>IsValid = (\<lambda>expr. expr = ''0,1 0 * * *''),
     NextTickAfter = (\<lambda>expr zone ref. Inr (if ref mod 86400000 < 60000 then ref - ref mod 86400000 + 60000
                                           else ref - ref mod 86400000 + 86400000)),
     LoadLocation = (\<lambda>z. if z = ''UTC'' then Inr () else Inl ''unknown time zone'')\<rparr>"

lemma next_multiple: "(ref :: nat) mod k < j \<Longrightarrow> ref < ref - ref mod k + j"
  using mod_less_eq_dividend [of ref k] by linarith

lemma twiceADay_later: "ticksLater twiceADay"
  by (auto simp: ticksLater_def twiceADay_def intro!: next_multiple)

theorem next_runs_are_the_next_ticks_witness:
  "fst (GetNextRuns twiceADay 5 ''0,1 0 * * *'' ''UTC'' 3 []) = Inr [60000, 86400000, 86460000]
     \<and> sorted_wrt (<) [5, 60000, 86400000, 86460000 :: nat]"
proof -
  have r: "fst (GetNextRuns twiceADay 5 ''0,1 0 * * *'' ''UTC'' 3 []) = Inr [60000, 86400000, 86460000]" by code_simp
  have "\<forall>z \<in> set []. \<exists>u. LoadLocation twiceADay z = Inr u" by simp
  from next_runs_are_the_next_ticks [OF twiceADay_later this, where now = 5 and expr = "''0,1 0 * * *''" and timezone = "''UTC''" and count = 3] r
  show ?thesis by simp
qed

text \<open>
  The check of the frequency compares only the first two occurrences after the moment of the check, so the same
  expression, with runs a minute apart, is refused at noon and accepted half a minute after midnight.
\<close>

lemma frequency_check_depends_on_the_time:
  "ValidateCronFrequency twiceADay ''UTC'' 43200000 ''0,1 0 * * *'' = (False, ''Schedule must run at most every 15 minutes'')"
  "ValidateCronFrequency twiceADay ''UTC'' 30000 ''0,1 0 * * *'' = (True, '''')"
  by code_simp+

text \<open>The description of a fixed time of day tells the time: two different times are written differently.\<close>

lemma display_hours_differ:
  assumes "h < 24" "h' < 24"
    "Itoa (if h = 0 then 12 else if h > 12 then h - 12 else h) = Itoa (if h' = 0 then 12 else if h' > 12 then h' - 12 else h')"
    "(h \<ge> 12) = (h' \<ge> 12)"
  shows "h = h'"
proof -
  have "distinct (map (\<lambda>h::nat. (Itoa (if h = 0 then 12 else if h > 12 then h - 12 else h), h \<ge> 12)) [0..<24])" by code_simp
  from distinct_map_eqD [OF this, of h h'] show ?thesis using assms by simp
qed

lemma padZero2_inj:
  assumes "m < 60" "m' < 60"
  shows "length (padZero2 m) = 2" "padZero2 m = padZero2 m' \<longleftrightarrow> m = m'"
proof -
  have "list_all (\<lambda>m. length (padZero2 m) = 2) [0..<60]" "distinct (map padZero2 [0..<60])" by code_simp+
  then show "length (padZero2 m) = 2" "padZero2 m = padZero2 m' \<longleftrightarrow> m = m'"
    using distinct_map_eqD [of padZero2 "[0..<60]" m m'] assms by (auto simp: list_all_iff)
qed

lemma formatTime_inj:
  assumes "h < 24" "h' < 24" "m < 60" "m' < 60" "formatTime h m = formatTime h' m'"
  shows "h = h' \<and> m = m'"
proof -
  let ?d = "\<lambda>h::nat. Itoa (if h = 0 then 12 else if h > 12 then h - 12 else h)"
  let ?r = "\<lambda>h m. padZero2 m @ '' '' @ (if h \<ge> (12::nat) then ''PM'' else ''AM'')"
  have no: "CHR '':'' \<notin> set (Itoa n)" for n using Itoa_digits [of "CHR '':''" n] by auto
  have "Split (?d h @ CHR '':'' # ?r h m) (CHR '':'') = Split (?d h' @ CHR '':'' # ?r h' m') (CHR '':'')"
    using assms(5) by (simp add: formatTime_def Let_def)
  then have d: "?d h = ?d h'" using Split_no_sep_single [OF no] by (simp add: Split_append_sep)
  then have "?r h m = ?r h' m'" using assms(5) by (simp add: formatTime_def Let_def)
  then have p: "padZero2 m = padZero2 m'" "(h \<ge> 12) = (h' \<ge> 12)"
    using padZero2_inj(1) [OF assms(3,4)] padZero2_inj(1) [OF assms(4,3)] by (auto split: if_splits)
  then show ?thesis using display_hours_differ [OF assms(1,2) d] padZero2_inj(2) [OF assms(3,4)] by simp
qed

text \<open>A step in the hours is described as if it held for every day, whatever the day and the month say.\<close>

lemma description_drops_the_date: "DescribeCronExpression ''0 */2 1 1 *'' = ''Every 2 hours''"
  by code_simp

end
