(* ===== verification/Crypto.thy ===== *)
theory Crypto
  imports Json "HOL-Library.Word" "HOL-Library.AList"
begin

text \<open>
  Encryption of stored secrets: \<open>go-shared/crypto.go\<close> and the decryption of \<open>webhook-router/crypto.go\<close>.
  Galois/counter mode, hexadecimal and the format of a ciphertext are modelled; the AES block function, SHA-256 and scrypt are the
  fields of \<open>primitives\<close>, and the theorems hold for every choice of the first two. The two
  reads of random bytes and the clock are arguments.
\<close>

unbundle bit_operations_syntax

section \<open>\<open>encoding/hex\<close>\<close>

definition hexByte :: "char \<Rightarrow> string" where
  "hexByte c = [hexDigit (of_char c div 16), hexDigit (of_char c mod 16)]"

definition hexEncode :: "string \<Rightarrow> string" where
  "hexEncode s = concat (map hexByte s)"

definition upperHex :: "nat \<Rightarrow> char" where
  "upperHex n = ''0123456789ABCDEF'' ! n"

text \<open>The text of \<open>InvalidByteError\<close>, whose verb \<open>%#U\<close> shows a printable character after its number.\<close>

definition invalidByte :: "char \<Rightarrow> string" where
  "invalidByte c =
     (let n = of_char c in
      ''encoding/hex: invalid byte: U+00'' @ [upperHex (n div 16), upperHex (n mod 16)]
      @ (if 0x20 \<le> n \<and> n \<le> 0x7E then [CHR '' '', CHR 0x27, c, CHR 0x27]
         else if 0xA1 \<le> n \<and> n \<noteq> 0xAD then [CHR '' '', CHR 0x27, char_of (0xC0 + n div 64), char_of (0x80 + n mod 64), CHR 0x27]
         else []))"

fun hexDecode :: "string \<Rightarrow> string result" where
  "hexDecode [] = Inr []"
| "hexDecode [a] = (case hexVal a of None \<Rightarrow> Inl (invalidByte a) | Some _ \<Rightarrow> Inl ''encoding/hex: odd length hex string'')"
| "hexDecode (a # b # rest) =
     (case hexVal a of
        None \<Rightarrow> Inl (invalidByte a)
      | Some x \<Rightarrow>
          (case hexVal b of
             None \<Rightarrow> Inl (invalidByte b)
           | Some y \<Rightarrow> (case hexDecode rest of Inl e \<Rightarrow> Inl e | Inr s \<Rightarrow> Inr (char_of (16 * x + y) # s))))"

section \<open>\<open>crypto/cipher\<close>: Galois/counter mode\<close>

text \<open>A block is the 128-bit number its 16 bytes write, most significant byte first; a short block is filled up with zeros.\<close>

definition blockOf :: "string \<Rightarrow> 128 word" where
  "blockOf bs = of_nat (fold (\<lambda>c n. 256 * n + of_char c) (take 16 (bs @ replicate 16 (CHR 0x00))) 0)"

definition bytesOf :: "128 word \<Rightarrow> string" where
  "bytesOf w = map (\<lambda>i. char_of (unat (drop_bit (8 * (15 - i)) w))) [0..<16]"

definition gfStep :: "128 word \<Rightarrow> nat \<Rightarrow> 128 word \<times> 128 word \<Rightarrow> 128 word \<times> 128 word" where
  "gfStep x i zv =
     (let (z, v) = zv in
      (if bit x (127 - i) then z XOR v else z,
       if bit v 0 then drop_bit 1 v XOR push_bit 120 0xE1 else drop_bit 1 v))"

definition gfMul :: "128 word \<Rightarrow> 128 word \<Rightarrow> 128 word" where
  "gfMul x y = fst (fold (gfStep x) [0..<128] (0, y))"

function ghashBlocks :: "128 word \<Rightarrow> 128 word \<Rightarrow> string \<Rightarrow> 128 word" where
  "ghashBlocks h acc s =
     (if s = [] then acc else ghashBlocks h (gfMul (acc XOR blockOf (take 16 s)) h) (drop 16 s))"
  by auto
termination by (relation "measure (\<lambda>(_, _, s). length s)") auto

declare ghashBlocks.simps [simp del]

text \<open>The program never passes additional data, so the first of the two lengths is 0.\<close>

definition ghash :: "128 word \<Rightarrow> string \<Rightarrow> 128 word" where
  "ghash h s = gfMul (ghashBlocks h 0 s XOR take_bit 64 (of_nat (8 * length s))) h"

definition firstCounter :: "128 word \<Rightarrow> string \<Rightarrow> 128 word" where
  "firstCounter h iv = (if length iv = 12 then blockOf iv OR 1 else ghash h iv)"

definition inc32 :: "128 word \<Rightarrow> 128 word" where
  "inc32 w = push_bit 32 (drop_bit 32 w) OR take_bit 32 (w + 1)"

definition xorBytes :: "string \<Rightarrow> string \<Rightarrow> string" where
  "xorBytes xs ys = map2 (\<lambda>a b. char_of ((of_char a :: nat) XOR of_char b)) xs ys"

function counterCrypt :: "(128 word \<Rightarrow> 128 word) \<Rightarrow> 128 word \<Rightarrow> string \<Rightarrow> string" where
  "counterCrypt e ctr s =
     (if s = [] then [] else xorBytes (take 16 s) (bytesOf (e ctr)) @ counterCrypt e (inc32 ctr) (drop 16 s))"
  by auto
termination by (relation "measure (\<lambda>(_, _, s). length s)") auto

declare counterCrypt.simps [simp del]

definition gcmTag :: "(128 word \<Rightarrow> 128 word) \<Rightarrow> string \<Rightarrow> string \<Rightarrow> string" where
  "gcmTag e iv ct = bytesOf (ghash (e 0) ct XOR e (firstCounter (e 0) iv))"

definition Seal :: "(128 word \<Rightarrow> 128 word) \<Rightarrow> string \<Rightarrow> string \<Rightarrow> string" where
  "Seal e iv plaintext =
     (let ct = counterCrypt e (inc32 (firstCounter (e 0) iv)) plaintext in ct @ gcmTag e iv ct)"

definition Open :: "(128 word \<Rightarrow> 128 word) \<Rightarrow> string \<Rightarrow> string \<Rightarrow> string option" where
  "Open e iv s =
     (if length s < 16 then None
      else let ct = take (length s - 16) s in
        if drop (length s - 16) s = gcmTag e iv ct then Some (counterCrypt e (inc32 (firstCounter (e 0) iv)) ct) else None)"

section \<open>The cache of derived keys\<close>

record primitives =
  pr_sha256 :: "string \<Rightarrow> string"
  pr_scrypt :: "string \<Rightarrow> string \<Rightarrow> string result" \<comment> \<open>password and salt; 16384, 8, 1, 32\<close>
  pr_aes :: "string \<Rightarrow> 128 word \<Rightarrow> 128 word"

definition ivLength :: nat where
  "ivLength = 16"

definition saltLength :: nat where
  "saltLength = 16"

definition maxCacheSize :: nat where
  "maxCacheSize = 1000"

record scryptCacheKey =
  ck_passwordHash :: string
  ck_salt :: string

record scryptCacheEntry =
  ce_key :: string
  ce_addedAt :: nat

type_synonym scryptCache = "(scryptCacheKey \<times> scryptCacheEntry) list"

definition cacheGet :: "scryptCacheKey \<Rightarrow> scryptCache \<Rightarrow> string option" where
  "cacheGet key c = map_option ce_key (map_of c key)"

text \<open>Entries of the same age are evicted in the order of insertion here; Go leaves that order open.\<close>

definition cacheEvict :: "scryptCache \<Rightarrow> scryptCache" where
  "cacheEvict c =
     (if c = [] then c
      else let entries = sort_key (ce_addedAt \<circ> snd) c;
               deleteCount = (if maxCacheSize div 4 > length entries then length entries else maxCacheSize div 4)
           in fold (\<lambda>e c. AList.delete (fst e) c) (take deleteCount entries) c)"

definition cacheSet :: "nat \<Rightarrow> scryptCacheKey \<Rightarrow> string \<Rightarrow> scryptCache \<Rightarrow> scryptCache" where
  "cacheSet now key val c =
     AList.update key \<lparr>ce_key = val, ce_addedAt = now\<rparr> (if length c \<ge> maxCacheSize then cacheEvict c else c)"

definition cacheKey :: "primitives \<Rightarrow> string \<Rightarrow> string \<Rightarrow> scryptCacheKey" where
  "cacheKey P password salt = \<lparr>ck_passwordHash = pr_sha256 P password, ck_salt = hexEncode salt\<rparr>"

definition deriveKeyNoCache :: "primitives \<Rightarrow> string \<Rightarrow> string \<Rightarrow> string result" where
  "deriveKeyNoCache P password salt = wrapErr ''derive key: '' (pr_scrypt P password salt)"

definition deriveKeyWithCache :: "primitives \<Rightarrow> nat \<Rightarrow> string \<Rightarrow> string \<Rightarrow> scryptCache \<Rightarrow> string result \<times> scryptCache" where
  "deriveKeyWithCache P now password salt c =
     (let key = cacheKey P password salt in
      case cacheGet key c of
        Some cached \<Rightarrow> (Inr cached, c)
      | None \<Rightarrow>
          (case pr_scrypt P password salt of
             Inl e \<Rightarrow> (Inl (''derive key: '' @ e), c)
           | Inr k \<Rightarrow> (Inr k, cacheSet now key k c)))"

section \<open>Encryption and decryption\<close>

definition NewCipher :: "primitives \<Rightarrow> string \<Rightarrow> (128 word \<Rightarrow> 128 word) result" where
  "NewCipher P key =
     (if length key \<in> {16, 24, 32} then Inr (pr_aes P key)
      else Inl (''create cipher: crypto/aes: invalid key size '' @ Itoa (length key)))"

text \<open>\<open>cipher.NewGCMWithNonceSize\<close> and \<open>gcm.Open\<close>.\<close>

definition openGCM :: "(128 word \<Rightarrow> 128 word) \<Rightarrow> string \<Rightarrow> string \<Rightarrow> string result" where
  "openGCM e iv s =
     (if iv = [] then Inl ''create gcm: cipher: the nonce can't have zero length''
      else case Open e iv s of
             None \<Rightarrow> Inl ''decrypt: cipher: message authentication failed''
           | Some plaintext \<Rightarrow> Inr plaintext)"

definition Encrypt :: "primitives \<Rightarrow> string result \<Rightarrow> string result \<Rightarrow> string \<Rightarrow> string \<Rightarrow> string result" where
  "Encrypt P saltRead ivRead plaintext password =
     (case wrapErr ''generate salt: '' saltRead of
        Inl e \<Rightarrow> Inl e
      | Inr salt \<Rightarrow>
          (case deriveKeyNoCache P password salt of
             Inl e \<Rightarrow> Inl e
           | Inr key \<Rightarrow>
               (case wrapErr ''generate iv: '' ivRead of
                  Inl e \<Rightarrow> Inl e
                | Inr iv \<Rightarrow>
                    (case NewCipher P key of
                       Inl e \<Rightarrow> Inl e
                     | Inr aes \<Rightarrow>
                         let ciphertextWithTag = Seal aes iv plaintext;
                             tagStart = length ciphertextWithTag - 16;
                             ciphertext = take tagStart ciphertextWithTag;
                             tag = drop tagStart ciphertextWithTag
                         in Inr (Join [hexEncode salt, hexEncode iv, hexEncode tag, hexEncode ciphertext] '':'')))))"

text \<open>The four parts of a ciphertext, decoded in the order of the code.\<close>

record sealed =
  se_salt :: string
  se_iv :: string
  se_tag :: string
  se_encrypted :: string

definition decodeParts :: "string \<Rightarrow> string \<Rightarrow> string \<Rightarrow> string \<Rightarrow> sealed result" where
  "decodeParts saltHex ivHex tagHex encryptedHex =
     (case wrapErr ''decode salt: '' (hexDecode saltHex) of
        Inl e \<Rightarrow> Inl e
      | Inr salt \<Rightarrow>
          (case wrapErr ''decode iv: '' (hexDecode ivHex) of
             Inl e \<Rightarrow> Inl e
           | Inr iv \<Rightarrow>
               (case wrapErr ''decode tag: '' (hexDecode tagHex) of
                  Inl e \<Rightarrow> Inl e
                | Inr tag \<Rightarrow>
                    (case wrapErr ''decode encrypted: '' (hexDecode encryptedHex) of
                       Inl e \<Rightarrow> Inl e
                     | Inr encrypted \<Rightarrow> Inr \<lparr>se_salt = salt, se_iv = iv, se_tag = tag, se_encrypted = encrypted\<rparr>))))"

definition splitParts :: "string \<Rightarrow> (string \<times> string \<times> string \<times> string) result" where
  "splitParts ciphertext =
     (let parts = Split ciphertext (CHR '':'') in
      if length parts \<noteq> 4 then Inl (''invalid ciphertext format: expected 4 parts, got '' @ Itoa (length parts))
      else Inr (parts ! 0, parts ! 1, parts ! 2, parts ! 3))"

definition openSealed :: "primitives \<Rightarrow> string \<Rightarrow> sealed \<Rightarrow> string result" where
  "openSealed P key s =
     (case NewCipher P key of
        Inl e \<Rightarrow> Inl e
      | Inr aes \<Rightarrow> openGCM aes (se_iv s) (se_encrypted s @ se_tag s))"

definition Decrypt :: "primitives \<Rightarrow> nat \<Rightarrow> string \<Rightarrow> string \<Rightarrow> scryptCache \<Rightarrow> string result \<times> scryptCache" where
  "Decrypt P now ciphertext password c =
     (case splitParts ciphertext of
        Inl e \<Rightarrow> (Inl e, c)
      | Inr (saltHex, ivHex, tagHex, encryptedHex) \<Rightarrow>
          if saltHex = [] \<or> ivHex = [] \<or> tagHex = [] \<or> encryptedHex = [] then (Inl ''invalid ciphertext format: empty part'', c)
          else (case decodeParts saltHex ivHex tagHex encryptedHex of
                  Inl e \<Rightarrow> (Inl e, c)
                | Inr s \<Rightarrow>
                    (case deriveKeyWithCache P now password (se_salt s) c of
                       (Inl e, c1) \<Rightarrow> (Inl e, c1)
                     | (Inr key, c1) \<Rightarrow> (openSealed P key s, c1))))"

definition getEncryptionKey :: "string \<Rightarrow> string result" where
  "getEncryptionKey env = (if length env < 32 then Inl ''ENCRYPTION_KEY must be at least 32 characters'' else Inr env)"

definition EncryptWithKey :: "primitives \<Rightarrow> string \<Rightarrow> string result \<Rightarrow> string result \<Rightarrow> string \<Rightarrow> string result" where
  "EncryptWithKey P env saltRead ivRead plaintext =
     (case getEncryptionKey env of Inl e \<Rightarrow> Inl e | Inr password \<Rightarrow> Encrypt P saltRead ivRead plaintext password)"

definition DecryptWithKey :: "primitives \<Rightarrow> string \<Rightarrow> nat \<Rightarrow> string \<Rightarrow> scryptCache \<Rightarrow> string result \<times> scryptCache" where
  "DecryptWithKey P env now ciphertext c =
     (case getEncryptionKey env of Inl e \<Rightarrow> (Inl e, c) | Inr password \<Rightarrow> Decrypt P now ciphertext password c)"

text \<open>The decryption of the webhook router: no check for empty parts, and a cache without bound, keyed by the password itself.\<close>

type_synonym routerCache = "((string \<times> string) \<times> string) list"

definition decryptAES256GCM :: "primitives \<Rightarrow> string \<Rightarrow> string \<Rightarrow> routerCache \<Rightarrow> string result \<times> routerCache" where
  "decryptAES256GCM P ciphertext password c =
     (case splitParts ciphertext of
        Inl e \<Rightarrow> (Inl e, c)
      | Inr (saltHex, ivHex, tagHex, encryptedHex) \<Rightarrow>
          (case decodeParts saltHex ivHex tagHex encryptedHex of
             Inl e \<Rightarrow> (Inl e, c)
           | Inr s \<Rightarrow>
               let key = (password, hexEncode (se_salt s)) in
               (case map_of c key of
                  Some cached \<Rightarrow> (openSealed P cached s, c)
                | None \<Rightarrow>
                    (case pr_scrypt P password (se_salt s) of
                       Inl e \<Rightarrow> (Inl (''derive key: '' @ e), c)
                     | Inr k \<Rightarrow> (openSealed P k s, AList.update key k c)))))"

section \<open>Round trips\<close>

lemma hexDigit_hexVal: "n < 16 \<Longrightarrow> hexVal (hexDigit n) = Some n"
proof -
  have "list_all (\<lambda>n. hexVal (hexDigit n) = Some n) [0..<16]" by code_simp
  then show "n < 16 \<Longrightarrow> hexVal (hexDigit n) = Some n" by (auto simp: list_all_iff)
qed

lemma hexDigit_not_colon: "n < 16 \<Longrightarrow> hexDigit n \<noteq> CHR '':''"
  using hexDigit_hexVal [of n] by (auto simp: hexVal_def)

lemma hexDecode_hexEncode [simp]: "hexDecode (hexEncode s) = Inr s"
proof (induction s)
  case (Cons c cs)
  have "(of_char c :: nat) div 16 < 16" using of_char_lt [of c] by linarith
  then show ?case using Cons by (simp add: hexEncode_def hexByte_def hexDigit_hexVal)
qed (simp add: hexEncode_def)

lemma hexEncode_no_colon: "CHR '':'' \<notin> set (hexEncode s)"
proof -
  have "CHR '':'' \<notin> set (hexByte c)" for c
  proof -
    have "(of_char c :: nat) div 16 < 16" using of_char_lt [of c] by linarith
    then show ?thesis
      using hexDigit_not_colon [of "of_char c div 16"] hexDigit_not_colon [of "of_char c mod 16"] by (simp add: hexByte_def)
  qed
  then show ?thesis by (auto simp: hexEncode_def)
qed

lemma hexEncode_Nil_iff [simp]: "hexEncode s = [] \<longleftrightarrow> s = []"
  by (cases s) (simp_all add: hexEncode_def hexByte_def)

lemma hexEncode_inj: "hexEncode s = hexEncode t \<longleftrightarrow> s = t"
  by (metis hexDecode_hexEncode sum.inject(2))

lemma length_bytesOf [simp]: "length (bytesOf w) = 16"
  by (simp add: bytesOf_def)

lemma xor_byte: "char_of (((of_char a :: nat) XOR of_char b) mod 256 XOR of_char b) = a"
proof -
  have b: "take_bit 8 (of_char x :: nat) = of_char x" for x :: char by (simp add: take_bit_nat_eq_self)
  have "(of_char a XOR of_char b) mod (256::nat) = of_char a XOR of_char b"
    using b [of a] b [of b] take_bit_xor [of 8 "of_char a :: nat" "of_char b"] by (simp add: take_bit_eq_mod)
  then show ?thesis by (simp add: xor.assoc)
qed

lemma length_xorBytes [simp]: "length (xorBytes xs ys) = min (length xs) (length ys)"
  by (simp add: xorBytes_def)

lemma xorBytes_twice: "length xs \<le> length ys \<Longrightarrow> xorBytes (xorBytes xs ys) ys = xs"
  by (rule nth_equalityI) (simp_all add: xorBytes_def xor_byte)

lemma counterCrypt_Nil [simp]: "counterCrypt e ctr [] = []"
  by (simp add: counterCrypt.simps)

lemma length_counterCrypt [simp]: "length (counterCrypt e ctr s) = length s"
  by (induction e ctr s rule: counterCrypt.induct) (subst counterCrypt.simps, auto)

lemma counterCrypt_twice: "counterCrypt e ctr (counterCrypt e ctr s) = s"
proof (induction e ctr s rule: counterCrypt.induct)
  case (1 e ctr s)
  show ?case
  proof (cases "s = []")
    case False
    let ?x = "xorBytes (take 16 s) (bytesOf (e ctr))" and ?r = "counterCrypt e (inc32 ctr) (drop 16 s)"
    have c: "counterCrypt e ctr s = ?x @ ?r" using False by (subst counterCrypt.simps) simp
    have split: "take 16 (?x @ ?r) = ?x" "drop 16 (?x @ ?r) = ?r"
      by (cases "16 \<le> length s"; simp)+
    have "length (?x @ ?r) = length s" by simp
    then have "?x @ ?r \<noteq> []" using False by (metis length_0_conv)
    then have "counterCrypt e ctr (?x @ ?r) = xorBytes ?x (bytesOf (e ctr)) @ counterCrypt e (inc32 ctr) ?r"
      by (subst counterCrypt.simps) (simp only: split if_False)
    also have "\<dots> = s" using 1 False by (simp add: xorBytes_twice)
    finally show ?thesis by (simp add: c)
  qed simp
qed

lemma length_Seal: "length (Seal e iv s) = length s + 16"
  by (simp add: Seal_def Let_def gcmTag_def)

lemma Open_Seal: "Open e iv (Seal e iv s) = Some s"
  by (simp add: Open_def Seal_def Let_def gcmTag_def counterCrypt_twice)

lemma Encrypt_value:
  assumes "deriveKeyNoCache P password salt = Inr key" "length key = 32"
  shows "Encrypt P (Inr salt) (Inr iv) plaintext password =
    Inr (Join [hexEncode salt, hexEncode iv,
                hexEncode (gcmTag (pr_aes P key) iv (counterCrypt (pr_aes P key) (inc32 (firstCounter (pr_aes P key 0) iv)) plaintext)),
                hexEncode (counterCrypt (pr_aes P key) (inc32 (firstCounter (pr_aes P key 0) iv)) plaintext)] '':'')"
  using assms by (simp add: Encrypt_def NewCipher_def Seal_def Let_def gcmTag_def)

lemma openSealed_tagged:
  assumes "length key = 32" "iv \<noteq> []"
  shows "openSealed P key \<lparr>se_salt = salt, se_iv = iv,
            se_tag = gcmTag (pr_aes P key) iv (counterCrypt (pr_aes P key) (inc32 (firstCounter (pr_aes P key 0) iv)) plaintext),
            se_encrypted = counterCrypt (pr_aes P key) (inc32 (firstCounter (pr_aes P key 0) iv)) plaintext\<rparr> = Inr plaintext"
  using assms Open_Seal [of "pr_aes P key" iv plaintext]
  by (simp add: openSealed_def NewCipher_def openGCM_def Seal_def Let_def)

lemma Split_four_hex:
  "Split (Join [hexEncode a, hexEncode b, hexEncode c, hexEncode d] '':'') (CHR '':'') = [hexEncode a, hexEncode b, hexEncode c, hexEncode d]"
  by (rule Split_Join) (auto simp: hexEncode_no_colon)

lemma splitParts_hex:
  "splitParts (Join [hexEncode a, hexEncode b, hexEncode c, hexEncode d] '':'') = Inr (hexEncode a, hexEncode b, hexEncode c, hexEncode d)"
  unfolding splitParts_def Split_four_hex by simp

lemma decodeParts_hex:
  "decodeParts (hexEncode a) (hexEncode b) (hexEncode c) (hexEncode d) = Inr \<lparr>se_salt = a, se_iv = b, se_tag = c, se_encrypted = d\<rparr>"
  by (simp add: decodeParts_def)

lemma counterCrypt_Nil_iff: "counterCrypt e ctr s = [] \<longleftrightarrow> s = []"
  by (metis length_0_conv length_counterCrypt)

lemma gcmTag_not_Nil: "gcmTag e iv ct \<noteq> []"
  by (metis gcmTag_def length_bytesOf length_0_conv zero_neq_numeral)

section \<open>The caches do not show\<close>

lemma fold_delete: "fold (\<lambda>e c. AList.delete (fst e) c) es c = filter (\<lambda>e. fst e \<notin> fst ` set es) c"
proof (induction es arbitrary: c)
  case (Cons e es)
  have "AList.delete (fst e) c = filter (\<lambda>x. fst x \<noteq> fst e) c"
    by (simp add: AList.delete_eq case_prod_beta') (rule filter_cong, auto)
  then show ?case using Cons by (simp add: conj_commute)
qed simp

lemma length_filter_sorted_out:
  assumes "distinct (map fst c)"
  shows "length (filter (\<lambda>e. fst e \<notin> fst ` set (take n (sort_key f c))) c) = length c - n"
proof -
  let ?s = "sort_key f c"
  have c: "distinct c" using assms by (simp add: distinct_map)
  have in_set: "fst e \<in> fst ` set (take n ?s) \<longleftrightarrow> e \<in> set (take n ?s)" if "e \<in> set c" for e
    using that assms set_take_subset [of n ?s] by (auto dest: distinct_map_eqD)
  have "length (filter (\<lambda>e. fst e \<notin> fst ` set (take n ?s)) c) = length (filter (\<lambda>e. e \<notin> set (take n ?s)) c)"
    by (rule arg_cong [of _ _ length], rule filter_cong) (simp_all add: in_set)
  also have "\<dots> = card (set c - set (take n ?s))"
    using distinct_card [OF distinct_filter [OF c], of "\<lambda>e. e \<notin> set (take n ?s)"] by (simp add: set_diff_eq)
  also have "\<dots> = card (set c) - card (set (take n ?s))"
    using set_take_subset [of n ?s] by (intro card_Diff_subset) auto
  also have "\<dots> = length c - n"
    using c by (simp add: distinct_card distinct_take)
  finally show ?thesis .
qed

lemma cacheEvict_filter:
  "cacheEvict c = filter (\<lambda>e. fst e \<notin> fst ` set (take 250 (sort_key (ce_addedAt \<circ> snd) c))) c"
  by (auto simp: cacheEvict_def fold_delete maxCacheSize_def Let_def)

lemma length_cacheEvict: "distinct (map fst c) \<Longrightarrow> length (cacheEvict c) = length c - 250"
  unfolding cacheEvict_filter by (rule length_filter_sorted_out)

lemma distinct_cacheEvict: "distinct (map fst c) \<Longrightarrow> distinct (map fst (cacheEvict c))"
  unfolding cacheEvict_filter by (rule distinct_map_filter)

lemma cacheEvict_sub: "map_of (cacheEvict c) k = Some v \<Longrightarrow> distinct (map fst c) \<Longrightarrow> map_of c k = Some v"
  using distinct_cacheEvict [of c] by (auto simp: cacheEvict_filter)

lemma length_update_le: "length (AList.update k v c) \<le> Suc (length c)"
  by (induction c) auto

definition cacheOk :: "primitives \<Rightarrow> string \<Rightarrow> scryptCache \<Rightarrow> bool" where
  "cacheOk P password c \<longleftrightarrow>
     distinct (map fst c) \<and> length c \<le> maxCacheSize
     \<and> (\<forall>salt k. cacheGet (cacheKey P password salt) c = Some k \<longrightarrow> pr_scrypt P password salt = Inr k)"

lemma cacheKey_inj [simp]: "cacheKey P password s = cacheKey P password t \<longleftrightarrow> s = t"
  by (simp add: cacheKey_def hexEncode_inj)

lemma cacheSet_ok:
  assumes "cacheOk P password c" "pr_scrypt P password salt = Inr k"
  shows "cacheOk P password (cacheSet now (cacheKey P password salt) k c)"
proof -
  let ?b = "if length c \<ge> maxCacheSize then cacheEvict c else c"
  have d: "distinct (map fst c)" and len: "length c \<le> 1000" using assms by (auto simp: cacheOk_def maxCacheSize_def)
  have b: "distinct (map fst ?b)" "Suc (length ?b) \<le> 1000"
    using d len by (auto simp: distinct_cacheEvict length_cacheEvict maxCacheSize_def)
  have sub: "map_of c x = Some v" if "map_of ?b x = Some v" for x v
    using that cacheEvict_sub [OF _ d] by (cases "maxCacheSize \<le> length c") simp_all
  have "length (cacheSet now (cacheKey P password salt) k c) \<le> maxCacheSize"
    unfolding cacheSet_def using b(2) length_update_le [of _ _ ?b] by (metis le_trans maxCacheSize_def)
  moreover have "distinct (map fst (cacheSet now (cacheKey P password salt) k c))"
    unfolding cacheSet_def using b(1) by (rule distinct_update)
  moreover have "pr_scrypt P password s = Inr k'"
    if "cacheGet (cacheKey P password s) (cacheSet now (cacheKey P password salt) k c) = Some k'" for s k'
  proof (cases "s = salt")
    case True
    with that assms(2) show ?thesis by (simp add: cacheGet_def cacheSet_def update_conv)
  next
    case False
    then have "map_of (cacheSet now (cacheKey P password salt) k c) (cacheKey P password s) = map_of ?b (cacheKey P password s)"
      by (simp add: cacheSet_def update_conv)
    with that obtain e where "map_of ?b (cacheKey P password s) = Some e" "ce_key e = k'" by (auto simp: cacheGet_def)
    with sub have "cacheGet (cacheKey P password s) c = Some k'" by (simp add: cacheGet_def)
    with assms(1) show ?thesis by (simp add: cacheOk_def)
  qed
  ultimately show ?thesis by (simp add: cacheOk_def)
qed

lemma deriveKeyWithCache_ok:
  assumes "cacheOk P password c"
  shows "fst (deriveKeyWithCache P now password salt c) = deriveKeyNoCache P password salt"
    and "cacheOk P password (snd (deriveKeyWithCache P now password salt c))"
proof -
  have hit: "pr_scrypt P password salt = Inr k" if "cacheGet (cacheKey P password salt) c = Some k" for k
    using assms that by (simp add: cacheOk_def)
  show "fst (deriveKeyWithCache P now password salt c) = deriveKeyNoCache P password salt"
    using hit by (cases "cacheGet (cacheKey P password salt) c"; cases "pr_scrypt P password salt")
      (simp_all add: deriveKeyWithCache_def deriveKeyNoCache_def Let_def)
  show "cacheOk P password (snd (deriveKeyWithCache P now password salt c))"
    using assms cacheSet_ok [OF assms, of salt] by (cases "cacheGet (cacheKey P password salt) c"; cases "pr_scrypt P password salt")
      (simp_all add: deriveKeyWithCache_def Let_def)
qed

lemma Decrypt_ok:
  assumes "cacheOk P password c"
  shows "cacheOk P password (snd (Decrypt P now ct password c))"
    and "fst (Decrypt P now ct password c) = fst (Decrypt P now' ct password [])"
proof -
  have nil: "cacheOk P password []" by (simp add: cacheOk_def cacheGet_def)
  show "cacheOk P password (snd (Decrypt P now ct password c))"
    using assms deriveKeyWithCache_ok(2) [OF assms, of now]
    by (auto simp: Decrypt_def split: sum.split prod.split) (metis snd_conv)+
  have same: "fst (deriveKeyWithCache P now password s c) = fst (deriveKeyWithCache P now' password s [])" for s
    using deriveKeyWithCache_ok(1) [OF assms] deriveKeyWithCache_ok(1) [OF nil] by simp
  have "fst (case deriveKeyWithCache P now password s c of (Inl e, c1) \<Rightarrow> (Inl e, c1) | (Inr key, c1) \<Rightarrow> (f key, c1))
      = fst (case deriveKeyWithCache P now' password s [] of (Inl e, c1) \<Rightarrow> (Inl e, c1) | (Inr key, c1) \<Rightarrow> (f key, c1))"
    for s and f :: "string \<Rightarrow> string result"
    using same [of s] by (auto split: prod.splits sum.splits)
  then show "fst (Decrypt P now ct password c) = fst (Decrypt P now' ct password [])"
    by (simp add: Decrypt_def split: sum.split prod.split)
qed

text \<open>
  The cache of a process, whose key comes from its environment: a decryption as a whole, or only the
  store at the end of one whose lookup missed earlier, since other calls may run between the two.
\<close>

datatype cryptoOp = OpDecrypt nat string | OpStore nat string

fun cryptoStep :: "primitives \<Rightarrow> string \<Rightarrow> scryptCache \<Rightarrow> cryptoOp \<Rightarrow> scryptCache" where
  "cryptoStep P env c (OpDecrypt now ct) = snd (DecryptWithKey P env now ct c)"
| "cryptoStep P env c (OpStore now salt) =
     (case pr_scrypt P env salt of Inl _ \<Rightarrow> c | Inr k \<Rightarrow> cacheSet now (cacheKey P env salt) k c)"

interpretation crypto: invariant_machine "\<lambda>c. c = []" "\<lambda>c opr c'. c' = cryptoStep P env c opr" "cacheOk P env" for P env
proof
  fix c opr c'
  assume "cacheOk P env c" "c' = cryptoStep P env c opr"
  then show "cacheOk P env c'"
    by (cases opr) (auto simp: DecryptWithKey_def getEncryptionKey_def Decrypt_ok(1) cacheSet_ok split: sum.split)
qed (simp add: cacheOk_def cacheGet_def)

abbreviation cryptoReach :: "primitives \<Rightarrow> string \<Rightarrow> scryptCache \<Rightarrow> bool" where
  "cryptoReach P env \<equiv> reach (\<lambda>c. c = []) (\<lambda>c opr c'. c' = cryptoStep P env c opr)"

text \<open>The cache of the router, which every password shares.\<close>

definition routerOk :: "primitives \<Rightarrow> routerCache \<Rightarrow> bool" where
  "routerOk P rc \<longleftrightarrow> (\<forall>password salt k. map_of rc (password, hexEncode salt) = Some k \<longrightarrow> pr_scrypt P password salt = Inr k)"

lemma router_step: "routerOk P rc \<Longrightarrow> routerOk P (snd (decryptAES256GCM P ct password rc))"
  by (auto simp: decryptAES256GCM_def routerOk_def Let_def update_conv hexEncode_inj split: sum.split option.split)

interpretation router: invariant_machine "\<lambda>rc. rc = []" "\<lambda>rc (ct, password) rc'. rc' = snd (decryptAES256GCM P ct password rc)" "routerOk P" for P
  by unfold_locales (auto simp: router_step, simp add: routerOk_def)

abbreviation routerReach :: "primitives \<Rightarrow> routerCache \<Rightarrow> bool" where
  "routerReach P \<equiv> reach (\<lambda>rc. rc = []) (\<lambda>rc (ct, password) rc'. rc' = snd (decryptAES256GCM P ct password rc))"

text \<open>
  The cache of derived keys does not show. In every state it can reach, with calls interleaved, it holds
  at most a thousand entries, and a decryption gives the same plaintext or error as one that starts with an
  empty cache, at any time.
\<close>

theorem key_cache_is_transparent:
  assumes "cryptoReach P env c"
  shows "length c \<le> 1000 \<and> fst (DecryptWithKey P env now ct c) = fst (DecryptWithKey P env now' ct [])"
  using crypto.inv_reachable [OF assms] Decrypt_ok(2) [of P env c now ct now']
  by (auto simp: cacheOk_def maxCacheSize_def DecryptWithKey_def getEncryptionKey_def)

lemma Decrypt_Encrypt:
  assumes "pr_scrypt P password salt = Inr key" "length key = 32" "salt \<noteq> []" "iv \<noteq> []" "cacheOk P password c"
  shows "\<exists>ct. Encrypt P (Inr salt) (Inr iv) plaintext password = Inr ct
    \<and> fst (Decrypt P now ct password c) = (if plaintext = [] then Inl ''invalid ciphertext format: empty part'' else Inr plaintext)"
proof -
  have k: "deriveKeyNoCache P password salt = Inr key" using assms(1) by (simp add: deriveKeyNoCache_def)
  have d: "fst (deriveKeyWithCache P now password salt c) = Inr key" using deriveKeyWithCache_ok(1) [OF assms(5)] k by simp
  then obtain c1 where c1: "deriveKeyWithCache P now password salt c = (Inr key, c1)"
    by (cases "deriveKeyWithCache P now password salt c") simp
  show ?thesis
    unfolding Encrypt_value [OF k assms(2)]
    by (intro exI conjI, rule refl)
      (simp add: assms(3,4) Decrypt_def splitParts_hex decodeParts_hex counterCrypt_Nil_iff gcmTag_not_Nil c1
        openSealed_tagged [OF assms(2,4)] del: Join.simps)
qed

lemma router_Encrypt:
  assumes "pr_scrypt P password salt = Inr key" "length key = 32" "iv \<noteq> []" "routerOk P rc"
  shows "\<exists>ct. Encrypt P (Inr salt) (Inr iv) plaintext password = Inr ct \<and> fst (decryptAES256GCM P ct password rc) = Inr plaintext"
proof -
  have k: "deriveKeyNoCache P password salt = Inr key" using assms(1) by (simp add: deriveKeyNoCache_def)
  have "map_of rc (password, hexEncode salt) \<in> {None, Some key}"
    using assms(1,4) by (cases "map_of rc (password, hexEncode salt)") (auto simp: routerOk_def)
  then show ?thesis
    unfolding Encrypt_value [OF k assms(2)] using assms(1)
    by (intro exI conjI, (rule refl)?)
      (auto simp: decryptAES256GCM_def splitParts_hex decodeParts_hex openSealed_tagged [OF assms(2,3)] simp del: Join.simps)
qed

text \<open>
  C24. Secrets survive. With an encryption key of at least 32 characters and a key derivation that succeeds, as scrypt does for
  these parameters, a non-empty text that is encrypted with any random salt and nonce of 16 bytes is decrypted to itself, by the
  shared code and by the router, whatever their caches have come to hold. Only the empty text is different: its
  ciphertext has an empty part, so the shared code refuses it, while the router returns it.
\<close>

theorem secrets_survive:
  assumes "32 \<le> length env" "pr_scrypt P env salt = Inr key" "length key = 32"
    and "length salt = saltLength" "length iv = ivLength" "cryptoReach P env c" "routerReach P rc"
  shows "\<exists>ct. EncryptWithKey P env (Inr salt) (Inr iv) plaintext = Inr ct
    \<and> fst (DecryptWithKey P env now ct c) = (if plaintext = [] then Inl ''invalid ciphertext format: empty part'' else Inr plaintext)
    \<and> fst (decryptAES256GCM P ct env rc) = Inr plaintext"
proof -
  have ne: "salt \<noteq> []" "iv \<noteq> []" using assms(4,5) by (auto simp: saltLength_def ivLength_def)
  have key: "getEncryptionKey env = Inr env" using assms(1) by (simp add: getEncryptionKey_def)
  obtain ct where ct: "Encrypt P (Inr salt) (Inr iv) plaintext env = Inr ct"
      "fst (Decrypt P now ct env c) = (if plaintext = [] then Inl ''invalid ciphertext format: empty part'' else Inr plaintext)"
    using Decrypt_Encrypt [OF assms(2,3) ne crypto.inv_reachable [OF assms(6)]] by blast
  moreover have "fst (decryptAES256GCM P ct env rc) = Inr plaintext"
    using router_Encrypt [OF assms(2,3) ne(2) router.inv_reachable [OF assms(7)], of plaintext] ct(1) by simp
  ultimately show ?thesis by (simp add: EncryptWithKey_def DecryptWithKey_def key)
qed

definition samplePrimitives :: primitives where
  "samplePrimitives = \<lparr>pr_sha256 = (\<lambda>s. take 8 s), pr_scrypt = (\<lambda>p s. Inr (take 32 (s @ p))), pr_aes = (\<lambda>k w. w XOR blockOf k)\<rparr>"

theorem key_cache_is_transparent_witness:
  "\<exists>c. c = cryptoStep samplePrimitives (replicate 32 CHR ''k'') [] (OpStore 5 ''salt'') \<and> length c = 1
     \<and> fst (DecryptWithKey samplePrimitives (replicate 32 CHR ''k'') 9 ''a:b'' c) = fst (DecryptWithKey samplePrimitives (replicate 32 CHR ''k'') 0 ''a:b'' [])"
proof -
  let ?e = "replicate 32 CHR ''k''"
  let ?c = "cryptoStep samplePrimitives ?e [] (OpStore 5 ''salt'')"
  have "cryptoReach samplePrimitives ?e []" by (rule reach_start) (rule refl)
  then have "cryptoReach samplePrimitives ?e ?c" by (rule reach_step) (rule refl)
  moreover have "length ?c = 1" by (simp add: samplePrimitives_def cacheSet_def maxCacheSize_def)
  ultimately show ?thesis using key_cache_is_transparent by blast
qed

theorem secrets_survive_witness:
  "\<exists>ct. EncryptWithKey samplePrimitives (replicate 32 CHR ''k'') (Inr (replicate 16 CHR ''s'')) (Inr (replicate 16 CHR ''i'')) ''token'' = Inr ct
     \<and> fst (DecryptWithKey samplePrimitives (replicate 32 CHR ''k'') 7 ct []) = Inr ''token''
     \<and> fst (decryptAES256GCM samplePrimitives ct (replicate 32 CHR ''k'') []) = Inr ''token''"
proof -
  let ?e = "replicate 32 CHR ''k''" and ?s = "replicate 16 CHR ''s''" and ?i = "replicate 16 CHR ''i''"
  have "cryptoReach samplePrimitives ?e []" "routerReach samplePrimitives []" by (auto intro: reach_start)
  moreover have "32 \<le> length ?e" "length ?s = saltLength" "length ?i = ivLength"
    "pr_scrypt samplePrimitives ?e ?s = Inr (take 32 (?s @ ?e))" "length (take 32 (?s @ ?e)) = 32"
    by (simp_all add: samplePrimitives_def saltLength_def ivLength_def)
  ultimately show ?thesis using secrets_survive [of ?e samplePrimitives ?s _ ?i "[]" "[]" "''token''" 7] by simp
qed

end
