(* ===== verification/TaskStore.thy ===== *)
theory TaskStore
  imports Store "HOL-Library.List_Lexorder" "HOL-Library.Char_ord"
begin

text \<open>
  The operations of \<open>go-shared/delegated_tasks.go\<close> on the table \<open>delegated_tasks\<close>, with the
  constraints that \<open>database/schema.sql\<close> puts on it: the primary key, the unique indexes on
  \<open>parent_session_id\<close> and \<open>child_session_id\<close>, and the foreign keys to sessions and agents (the
  foreign key to users is left to \<open>faults\<close>, the users table is not modelled). The theorems say what each
  operation returns and changes, that the constraints hold in every state, that a claim takes
  the right task and takes it once, and what the statistics and the chain queries compute.
\<close>

section \<open>Definitions\<close>

definition taskIs :: "string \<Rightarrow> string \<Rightarrow> DelegatedTask \<Rightarrow> bool" where
  "taskIs tid userID t = (t_ID t = tid \<and> t_UserID t = userID)"

definition clash :: "(DelegatedTask \<Rightarrow> string option) \<Rightarrow> string option \<Rightarrow> DelegatedTask list \<Rightarrow> bool" where
  "clash col v ts = (v \<noteq> None \<and> list_ex (\<lambda>t. col t = v) ts)"

definition sessionExists :: "db \<Rightarrow> string option \<Rightarrow> bool" where
  "sessionExists d v = (case v of None \<Rightarrow> True | Some i \<Rightarrow> list_ex (\<lambda>s. s_ID s = i) (db_sessions d))"

definition agentExists :: "db \<Rightarrow> string \<Rightarrow> bool" where
  "agentExists d i = list_ex (\<lambda>a. a_ID a = i) (db_agents d)"

definition insertTaskError :: "DelegatedTask \<Rightarrow> db \<Rightarrow> string option" where
  "insertTaskError t d =
     (if list_ex (\<lambda>r. t_ID r = t_ID t) (db_tasks d)
         \<or> clash t_ParentSessionID (t_ParentSessionID t) (db_tasks d)
         \<or> clash t_ChildSessionID (t_ChildSessionID t) (db_tasks d)
      then Some duplicateKey
      else if sessionExists d (t_ParentSessionID t) \<and> sessionExists d (t_ChildSessionID t)
              \<and> agentExists d (t_FromAgentID t) \<and> agentExists d (t_ToAgentID t)
      then None
      else Some foreignKey)"

definition CreateDelegatedTask :: "DelegatedTask \<Rightarrow> db \<Rightarrow> DelegatedTask result \<times> db" where
  "CreateDelegatedTask t d =
     (let (tid, d1) = newID d;
          (now, d2) = timeNow d1;
          row = t\<lparr>t_ID := tid, t_ClaimedAt := None, t_CompletedAt := None, t_CreatedAt := now\<rparr>
      in case execChecked ''create delegated task'' (insertTaskError row)
                (\<lambda>d. d\<lparr>db_tasks := db_tasks d @ [row]\<rparr>) d2 of
           (Inl e, d3) \<Rightarrow> (Inl e, d3)
         | (Inr _, d3) \<Rightarrow> (Inr (t\<lparr>t_ID := tid, t_CreatedAt := now\<rparr>), d3))"

definition GetDelegatedTask :: "string \<Rightarrow> string \<Rightarrow> db \<Rightarrow> DelegatedTask option result \<times> db" where
  "GetDelegatedTask tid userID =
     queryRow ''get delegated task'' (\<lambda>d. List.find (taskIs tid userID) (db_tasks d))"

definition GetDelegatedTaskByID :: "string \<Rightarrow> string \<Rightarrow> db \<Rightarrow> DelegatedTask option result \<times> db" where
  "GetDelegatedTaskByID tid userID =
     queryRow ''get delegated task by id'' (\<lambda>d. List.find (taskIs tid userID) (db_tasks d))"

text \<open>The total is \<open>COUNT(*) OVER ()\<close> of the rows before the page is cut, read from a row of the page.\<close>

definition listMatching :: "string \<Rightarrow> DelegatedTaskStatus option \<Rightarrow> DelegatedTask list \<Rightarrow> DelegatedTask list" where
  "listMatching userID status ts =
     filter (\<lambda>t. t_UserID t = userID \<and> (case status of None \<Rightarrow> True | Some s \<Rightarrow> t_Status t = s)) ts"

definition ListDelegatedTasks ::
    "string \<Rightarrow> DelegatedTaskStatus option \<Rightarrow> int \<Rightarrow> int \<Rightarrow> db \<Rightarrow> (DelegatedTask list \<times> nat) result \<times> db" where
  "ListDelegatedTasks userID status limit offset d =
     (case queryPage ''list delegated tasks'' ''scan delegated task'' ''iterate delegated tasks'' limit offset
             (\<lambda>d. map (\<lambda>t. (t, length (listMatching userID status (db_tasks d))))
                    (orderDesc t_CreatedAt (listMatching userID status (db_tasks d)))) d of
        (Inl e, d1) \<Rightarrow> (Inl e, d1)
      | (Inr rows, d1) \<Rightarrow> (Inr (map fst rows, if rows = [] then 0 else snd (last rows)), d1))"

definition setStatus :: "DelegatedTaskStatus \<Rightarrow> string option \<Rightarrow> nat \<Rightarrow> DelegatedTask \<Rightarrow> DelegatedTask" where
  "setStatus status errorMessage now t =
     (let t1 = t\<lparr>t_Status := status, t_ErrorMessage := errorMessage\<rparr>;
          t2 = (if status = TaskClaimed then t1\<lparr>t_ClaimedAt := Some now\<rparr> else t1)
      in if status \<in> {TaskDone, TaskFailed, TaskCancelled} then t2\<lparr>t_CompletedAt := Some now\<rparr> else t2)"

definition updateTasks ::
    "(DelegatedTask \<Rightarrow> bool) \<Rightarrow> (DelegatedTask \<Rightarrow> DelegatedTask) \<Rightarrow> db \<Rightarrow> db" where
  "updateTasks P f d = d\<lparr>db_tasks := updateRows P f (db_tasks d)\<rparr>"

definition UpdateDelegatedTaskStatus ::
    "string \<Rightarrow> string \<Rightarrow> DelegatedTaskStatus \<Rightarrow> string option \<Rightarrow> db \<Rightarrow> unit result \<times> db" where
  "UpdateDelegatedTaskStatus tid userID status errorMessage d =
     (let (now, d1) = timeNow d in
      execStmt ''update delegated task status''
        (updateTasks (taskIs tid userID) (setStatus status errorMessage now)) d1)"

definition updateChildError :: "string \<Rightarrow> string \<Rightarrow> string \<Rightarrow> db \<Rightarrow> string option" where
  "updateChildError tid userID child d =
     (if \<not> list_ex (taskIs tid userID) (db_tasks d) then None
      else if clash t_ChildSessionID (Some child) (filter (\<lambda>t. \<not> taskIs tid userID t) (db_tasks d)) then Some duplicateKey
      else if sessionExists d (Some child) then None
      else Some foreignKey)"

definition UpdateDelegatedTaskChild :: "string \<Rightarrow> string \<Rightarrow> string \<Rightarrow> db \<Rightarrow> unit result \<times> db" where
  "UpdateDelegatedTaskChild tid userID child =
     execChecked ''update delegated task child'' (updateChildError tid userID child)
       (updateTasks (taskIs tid userID) (\<lambda>t. t\<lparr>t_ChildSessionID := Some child\<rparr>))"

definition UpdateDelegatedTaskCost :: "string \<Rightarrow> string \<Rightarrow> rat \<Rightarrow> db \<Rightarrow> unit result \<times> db" where
  "UpdateDelegatedTaskCost tid userID costUSD =
     execStmt ''update delegated task cost''
       (updateTasks (taskIs tid userID) (\<lambda>t. t\<lparr>t_ActualCostUSD := Some costUSD\<rparr>))"

definition UpdateDelegatedTaskPriority :: "string \<Rightarrow> int \<Rightarrow> db \<Rightarrow> unit result \<times> db" where
  "UpdateDelegatedTaskPriority tid priority =
     execStmt ''update delegated task priority''
       (updateTasks (\<lambda>t. t_ID t = tid) (\<lambda>t. t\<lparr>t_Priority := priority\<rparr>))"

text \<open>The recursive query of \<open>GetDelegationChain\<close>, level by level; \<open>NULL\<close> equals nothing.\<close>

definition sqlEq :: "'a option \<Rightarrow> 'a option \<Rightarrow> bool" where
  "sqlEq a b = (a \<noteq> None \<and> a = b)"

definition linked :: "DelegatedTask \<Rightarrow> DelegatedTask \<Rightarrow> bool" where
  "linked c t = (sqlEq (t_ParentSessionID t) (t_ChildSessionID c) \<or> sqlEq (t_ChildSessionID t) (t_ParentSessionID c))"

fun chainLevels :: "string \<Rightarrow> DelegatedTask list \<Rightarrow> nat \<Rightarrow> DelegatedTask list \<Rightarrow> DelegatedTask list" where
  "chainLevels userID ts 0 level = level"
| "chainLevels userID ts (Suc n) level =
     level @ chainLevels userID ts n
       (concat (map (\<lambda>c. filter (\<lambda>t. t_UserID t = userID \<and> linked c t) ts) level))"

definition GetDelegationChain :: "string \<Rightarrow> string \<Rightarrow> db \<Rightarrow> DelegatedTask list result \<times> db" where
  "GetDelegationChain taskID userID =
     queryRows ''get delegation chain'' ''scan delegation chain task'' ''iterate delegation chain''
       (\<lambda>d. sort_key t_ID (remdups
              (chainLevels userID (db_tasks d) 20 (filter (taskIs taskID userID) (db_tasks d)))))"

record DelegationStats =
  TotalTasks :: nat
  ByStatus :: "DelegatedTaskStatus \<rightharpoonup> nat"
  TotalCostUSD :: rat
  AverageDurationMs :: "rat option"

definition taskDuration :: "DelegatedTask \<Rightarrow> rat option" where
  "taskDuration t =
     (case (t_ClaimedAt t, t_CompletedAt t) of
        (Some c, Some f) \<Rightarrow> Some (of_nat f - of_nat c)
      | _ \<Rightarrow> None)"

text \<open>A row of the grouped query: status, \<open>COUNT(*)\<close>, \<open>SUM(actual_cost_usd)\<close>, \<open>AVG(duration)\<close>.\<close>

definition avgOf :: "rat list \<Rightarrow> rat option" where
  "avgOf xs = (if xs = [] then None else Some (sum_list xs / of_nat (length xs)))"

definition statsRow ::
    "DelegatedTask list \<Rightarrow> DelegatedTaskStatus \<Rightarrow> DelegatedTaskStatus \<times> nat \<times> rat \<times> rat option" where
  "statsRow ts s =
     (let g = filter (\<lambda>t. t_Status t = s) ts
      in (s, length g, sum_list (List.map_filter t_ActualCostUSD g), avgOf (List.map_filter taskDuration g)))"

definition allStatuses :: "DelegatedTaskStatus list" where
  "allStatuses = [TaskPending, TaskClaimed, TaskRunning, TaskDone, TaskFailed, TaskCancelled]"

definition statsRows :: "string \<Rightarrow> DelegatedTask list \<Rightarrow> (DelegatedTaskStatus \<times> nat \<times> rat \<times> rat option) list" where
  "statsRows userID all =
     (let ts = filter (\<lambda>t. t_UserID t = userID) all
      in map (statsRow ts) (filter (\<lambda>s. list_ex (\<lambda>t. t_Status t = s) ts) allStatuses))"

definition addStatsRow ::
    "DelegatedTaskStatus \<times> nat \<times> rat \<times> rat option
      \<Rightarrow> (DelegatedTaskStatus \<rightharpoonup> nat) \<times> nat \<times> rat \<times> rat \<times> nat
      \<Rightarrow> (DelegatedTaskStatus \<rightharpoonup> nat) \<times> nat \<times> rat \<times> rat \<times> nat" where
  "addStatsRow row acc =
     (case (row, acc) of
        ((status, count, totalCost, avgDuration), (byStatus, totalTasks, totalCostUSD, durationSum, durationCount)) \<Rightarrow>
          (byStatus(status \<mapsto> count), totalTasks + count, totalCostUSD + totalCost,
           (case avgDuration of None \<Rightarrow> durationSum | Some a \<Rightarrow> durationSum + a * of_nat count),
           (case avgDuration of None \<Rightarrow> durationCount | Some _ \<Rightarrow> durationCount + count)))"

definition GetDelegationStats :: "string \<Rightarrow> db \<Rightarrow> DelegationStats result \<times> db" where
  "GetDelegationStats userID d =
     (case queryRows ''get delegation stats'' ''scan delegation stats'' ''iterate delegation stats''
             (\<lambda>d. statsRows userID (db_tasks d)) d of
        (Inl e, d1) \<Rightarrow> (Inl e, d1)
      | (Inr rows, d1) \<Rightarrow>
          (case fold addStatsRow rows (Map.empty, 0, 0, 0, 0) of
             (byStatus, totalTasks, totalCostUSD, durationSum, durationCount) \<Rightarrow>
               (Inr \<lparr>TotalTasks = totalTasks, ByStatus = byStatus, TotalCostUSD = totalCostUSD,
                     AverageDurationMs =
                       (if durationCount > 0 then Some (durationSum / of_nat durationCount) else None)\<rparr>, d1)))"

text \<open>The statement of \<open>ClaimNextTask\<close>: the inner query's candidate, then the update of that row.\<close>

definition blocked :: "DelegatedTask list \<Rightarrow> DelegatedTask \<Rightarrow> bool" where
  "blocked ts t = list_ex (\<lambda>bid. list_ex (\<lambda>u. t_ID u = bid \<and> t_Status u \<noteq> TaskDone) ts) (t_BlockedBy t)"

definition claimable :: "DelegatedTask list \<Rightarrow> string \<Rightarrow> DelegatedTask \<Rightarrow> bool" where
  "claimable ts toAgentID t = (t_ToAgentID t = toAgentID \<and> t_Status t = TaskPending \<and> \<not> blocked ts t)"

definition claimCandidate :: "DelegatedTask list \<Rightarrow> string \<Rightarrow> DelegatedTask option" where
  "claimCandidate ts toAgentID =
     (case orderDesc t_Priority (sort_key t_CreatedAt (filter (claimable ts toAgentID) ts)) of
        [] \<Rightarrow> None | t # _ \<Rightarrow> Some t)"

definition ClaimNextTask :: "string \<Rightarrow> db \<Rightarrow> DelegatedTask option result \<times> db" where
  "ClaimNextTask toAgentID d =
     (case statement d of
        (Some e, d1) \<Rightarrow> (Inl (''claim next task: '' @ e), d1)
      | (None, d1) \<Rightarrow>
          (case claimCandidate (db_tasks d1) toAgentID of
             None \<Rightarrow> (Inr None, d1)
           | Some c \<Rightarrow>
               (let (now, d2) = timeNow d1;
                    claim = (\<lambda>t. t\<lparr>t_Status := TaskClaimed, t_ClaimedAt := Some now\<rparr>)
                in (Inr (Some (claim c)), updateTasks (\<lambda>t. t_ID t = t_ID c) claim d2))))"

definition CompleteTask :: "string \<Rightarrow> string \<Rightarrow> rat option \<Rightarrow> db \<Rightarrow> unit result \<times> db" where
  "CompleteTask tid userID actualCostUSD d =
     (let (now, d1) = timeNow d in
      execStmt ''complete task''
        (updateTasks (taskIs tid userID)
           (\<lambda>t. t\<lparr>t_Status := TaskDone, t_CompletedAt := Some now, t_ActualCostUSD := actualCostUSD\<rparr>)) d1)"

text \<open>The recursive query of \<open>DetectDelegationCycle\<close>: rows are a delegating agent and the path behind it.\<close>

definition activeStatus :: "DelegatedTaskStatus \<Rightarrow> bool" where
  "activeStatus s = (s \<in> {TaskPending, TaskClaimed, TaskRunning})"

fun cycleLevels :: "DelegatedTask list \<Rightarrow> nat \<Rightarrow> (string \<times> string list) list \<Rightarrow> (string \<times> string list) list" where
  "cycleLevels ts 0 level = level"
| "cycleLevels ts (Suc n) level =
     level @ cycleLevels ts n
       (concat (map (\<lambda>(a, path).
          map (\<lambda>t. (t_FromAgentID t, path @ [t_FromAgentID t]))
            (filter (\<lambda>t. t_ToAgentID t = a \<and> t_FromAgentID t \<notin> set path) ts)) level))"

definition DetectDelegationCycle :: "string \<Rightarrow> string \<Rightarrow> string \<Rightarrow> db \<Rightarrow> bool result \<times> db" where
  "DetectDelegationCycle userID fromAgentID toAgentID d =
     (case statement d of
        (Some e, d1) \<Rightarrow> (Inl (''detect delegation cycle: '' @ e), d1)
      | (None, d1) \<Rightarrow>
          (let ts = filter (\<lambda>t. t_UserID t = userID \<and> activeStatus (t_Status t)) (db_tasks d1);
               start = map (\<lambda>t. (t_FromAgentID t, [t_FromAgentID t])) (filter (\<lambda>t. t_ToAgentID t = toAgentID) ts)
           in (Inr (list_ex (\<lambda>(a, _). a = fromAgentID) (cycleLevels ts 19 start)), d1)))"

record DelegatedTaskFilter =
  f_Status :: "DelegatedTaskStatus option"
  f_FromAgentID :: "string option"
  f_ToAgentID :: "string option"
  f_SortBy :: string
  f_SortOrder :: string

record DelegatedTaskListItem =
  i_Task :: DelegatedTask
  i_FromAgentName :: string
  i_FromAgentRole :: string
  i_ToAgentName :: string
  i_ToAgentRole :: string
  i_IsBlocked :: bool
  i_DurationMs :: "int option"
  i_ParentSessionTask :: "string option"
  i_ParentSessionStatus :: "SessionStatus option"
  i_ChildSessionTask :: "string option"
  i_ChildSessionStatus :: "SessionStatus option"
  i_ChildBranchName :: "string option"
  i_ChildPrURL :: "string option"

text \<open>In an ascending order \<open>NULL\<close> comes last, in a descending one first.\<close>

definition orderNulls :: "bool \<Rightarrow> ('r \<Rightarrow> nat option) \<Rightarrow> 'r list \<Rightarrow> 'r list" where
  "orderNulls asc k rs =
     (let some = filter (\<lambda>r. k r \<noteq> None) rs; none = filter (\<lambda>r. k r = None) rs
      in if asc then sort_key (\<lambda>r. the (k r)) some @ none else none @ orderDesc (\<lambda>r. the (k r)) some)"

definition orderTasks :: "string \<Rightarrow> string \<Rightarrow> DelegatedTask list \<Rightarrow> DelegatedTask list" where
  "orderTasks sortBy sortOrder ts =
     (if sortBy = ''priority'' then
        (if sortOrder = ''asc'' then sort_key t_Priority ts else orderDesc t_Priority ts)
      else if sortBy = ''completedAt'' then orderNulls (sortOrder = ''asc'') t_CompletedAt ts
      else if sortOrder = ''asc'' then sort_key t_CreatedAt ts
      else orderDesc t_CreatedAt ts)"

definition matchesFilter :: "string \<Rightarrow> DelegatedTaskFilter \<Rightarrow> DelegatedTask \<Rightarrow> bool" where
  "matchesFilter userID flt t =
     (t_UserID t = userID
      \<and> (case f_Status flt of None \<Rightarrow> True | Some s \<Rightarrow> t_Status t = s)
      \<and> (case f_FromAgentID flt of None \<Rightarrow> True | Some a \<Rightarrow> t_FromAgentID t = a)
      \<and> (case f_ToAgentID flt of None \<Rightarrow> True | Some a \<Rightarrow> t_ToAgentID t = a))"

text \<open>The joins: agents by inner join (none, no row), sessions by left join; ids are primary keys.\<close>

definition agentOf :: "db \<Rightarrow> string \<Rightarrow> Agent option" where
  "agentOf d i = List.find (\<lambda>a. a_ID a = i) (db_agents d)"

definition sessionOf :: "db \<Rightarrow> string option \<Rightarrow> Session option" where
  "sessionOf d v = (case v of None \<Rightarrow> None | Some i \<Rightarrow> List.find (\<lambda>s. s_ID s = i) (db_sessions d))"

definition listItem :: "db \<Rightarrow> DelegatedTask \<Rightarrow> DelegatedTaskListItem option" where
  "listItem d t =
     (case (agentOf d (t_FromAgentID t), agentOf d (t_ToAgentID t)) of
        (Some fa, Some ta) \<Rightarrow>
          (let ps = sessionOf d (t_ParentSessionID t); cs = sessionOf d (t_ChildSessionID t)
           in Some \<lparr>i_Task = t, i_FromAgentName = a_Name fa, i_FromAgentRole = a_Role fa,
                i_ToAgentName = a_Name ta, i_ToAgentRole = a_Role ta,
                i_IsBlocked = blocked (db_tasks d) t,
                i_DurationMs = map_option floor (taskDuration t),
                i_ParentSessionTask = map_option s_Task ps, i_ParentSessionStatus = map_option s_Status ps,
                i_ChildSessionTask = map_option s_Task cs, i_ChildSessionStatus = map_option s_Status cs,
                i_ChildBranchName = Option.bind cs s_BranchName, i_ChildPrURL = Option.bind cs s_PrURL\<rparr>)
      | _ \<Rightarrow> None)"

definition ListDelegatedTasksWithDetails ::
    "string \<Rightarrow> DelegatedTaskFilter \<Rightarrow> int \<Rightarrow> int \<Rightarrow> db \<Rightarrow> (DelegatedTaskListItem list \<times> nat) result \<times> db" where
  "ListDelegatedTasksWithDetails userID flt limit offset d =
     (case queryPage ''list delegated tasks with details'' ''scan delegated task with details''
             ''iterate delegated tasks with details'' limit offset
             (\<lambda>d. let items = List.map_filter (listItem d)
                            (orderTasks (f_SortBy flt) (f_SortOrder flt)
                               (filter (matchesFilter userID flt) (db_tasks d)))
                  in map (\<lambda>i. (i, length items)) items) d of
        (Inl e, d1) \<Rightarrow> (Inl e, d1)
      | (Inr rows, d1) \<Rightarrow> (Inr (map fst rows, if rows = [] then 0 else snd (last rows)), d1))"

section \<open>Constraints\<close>

text \<open>What the schema promises of the table: the primary key, the two unique columns, the foreign keys.\<close>

definition taskRefs :: "db \<Rightarrow> DelegatedTask \<Rightarrow> bool" where
  "taskRefs d t \<longleftrightarrow> sessionExists d (t_ParentSessionID t) \<and> sessionExists d (t_ChildSessionID t)
     \<and> agentExists d (t_FromAgentID t) \<and> agentExists d (t_ToAgentID t)"

definition uniqueCol :: "(DelegatedTask \<Rightarrow> string option) \<Rightarrow> DelegatedTask list \<Rightarrow> bool" where
  "uniqueCol col ts \<longleftrightarrow> (\<forall>t \<in> set ts. \<forall>u \<in> set ts. sqlEq (col t) (col u) \<longrightarrow> t_ID t = t_ID u)"

definition tasksOk :: "db \<Rightarrow> bool" where
  "tasksOk d \<longleftrightarrow> distinct (map t_ID (db_tasks d))
     \<and> uniqueCol t_ParentSessionID (db_tasks d) \<and> uniqueCol t_ChildSessionID (db_tasks d)
     \<and> (\<forall>t \<in> set (db_tasks d). taskRefs d t)"

interpretation task_table: keyed_table db_tasks "\<lambda>rs d. d\<lparr>db_tasks := rs\<rparr>" t_ID
  by unfold_locales simp

lemma tasksOk_keyed: "tasksOk d \<Longrightarrow> task_table.keyed d"
  by (simp add: tasksOk_def task_table.keyed_def)

lemma exists_tables:
  assumes "tables d' = tables d"
  shows "sessionExists d' v = sessionExists d v" "agentExists d' i = agentExists d i"
  using tables_eqD [OF assms] by (simp_all add: sessionExists_def agentExists_def cong: option.case_cong)

lemma tasksOk_tables:
  assumes "tables d' = tables d" "tasksOk d"
  shows "tasksOk d'"
  using assms(2) tables_eqD [OF assms(1)] exists_tables [OF assms(1)]
  by (simp add: tasksOk_def taskRefs_def)

lemma updateTasks_frame [frame_simps]:
  "db_agents (updateTasks P f d) = db_agents d" "db_sessions (updateTasks P f d) = db_sessions d"
  "db_locks (updateTasks P f d) = db_locks d" "db_events (updateTasks P f d) = db_events d"
  "db_schedules (updateTasks P f d) = db_schedules d" "db_users (updateTasks P f d) = db_users d"
  "db_github (updateTasks P f d) = db_github d" "db_apiKeys (updateTasks P f d) = db_apiKeys d"
  "db_workspaces (updateTasks P f d) = db_workspaces d" "db_history (updateTasks P f d) = db_history d"
  "db_usage (updateTasks P f d) = db_usage d" "db_clarifications (updateTasks P f d) = db_clarifications d"
  "db_pipelines (updateTasks P f d) = db_pipelines d"
  "db_tasks (updateTasks P f d) = updateRows P f (db_tasks d)"
  by (simp_all add: updateTasks_def)

lemma updateTasks_exists [frame_simps]:
  "sessionExists (updateTasks P f d) v = sessionExists d v"
  "agentExists (updateTasks P f d) i = agentExists d i"
  by (simp_all add: sessionExists_def agentExists_def frame_simps cong: option.case_cong)

definition keepsLinks :: "(DelegatedTask \<Rightarrow> DelegatedTask) \<Rightarrow> bool" where
  "keepsLinks f \<longleftrightarrow> (\<forall>t. t_ID (f t) = t_ID t \<and> t_ParentSessionID (f t) = t_ParentSessionID t
     \<and> t_ChildSessionID (f t) = t_ChildSessionID t \<and> t_FromAgentID (f t) = t_FromAgentID t
     \<and> t_ToAgentID (f t) = t_ToAgentID t)"

lemma uniqueCol_update:
  assumes "uniqueCol col ts" "\<And>t. col (f t) = col t" "\<And>t. t_ID (f t) = t_ID t"
  shows "uniqueCol col (updateRows P f ts)"
  using assms unfolding uniqueCol_def by (fastforce dest!: set_updateRows)

lemma tasksOk_update:
  assumes "tasksOk d" "keepsLinks f"
  shows "tasksOk (updateTasks P f d)"
proof -
  have "task_table.keyed (d\<lparr>db_tasks := updateRows P f (db_tasks d)\<rparr>)"
    using assms by (intro task_table.keyed_update tasksOk_keyed) (simp_all add: keepsLinks_def)
  moreover have "\<forall>t \<in> set (updateRows P f (db_tasks d)). taskRefs d t"
    using assms by (auto simp: tasksOk_def taskRefs_def keepsLinks_def dest!: set_updateRows)
  ultimately show ?thesis
    using assms by (simp add: tasksOk_def taskRefs_def frame_simps task_table.keyed_def uniqueCol_update keepsLinks_def)
qed

lemma keepsLinks_setStatus [simp]: "keepsLinks (setStatus s e n)"
  by (simp add: keepsLinks_def setStatus_def Let_def)

lemma tasksOk_insert:
  assumes "tasksOk d" "insertTaskError t d = None"
  shows "tasksOk (d\<lparr>db_tasks := db_tasks d @ [t]\<rparr>)"
proof -
  have new: "t_ID t \<notin> t_ID ` set (db_tasks d)" "taskRefs d t"
    "\<not> clash t_ParentSessionID (t_ParentSessionID t) (db_tasks d)"
    "\<not> clash t_ChildSessionID (t_ChildSessionID t) (db_tasks d)"
    using assms(2) by (auto simp: insertTaskError_def taskRefs_def list_ex_iff split: if_splits)
  have uniq: "uniqueCol col (db_tasks d @ [t])"
    if "uniqueCol col (db_tasks d)" "\<not> clash col (col t) (db_tasks d)" for col
  proof -
    have "col t = None \<or> (\<forall>x \<in> set (db_tasks d). col x \<noteq> col t)"
      using that(2) unfolding clash_def list_ex_iff by blast
    then have "\<forall>x \<in> set (db_tasks d). \<not> sqlEq (col x) (col t) \<and> \<not> sqlEq (col t) (col x)"
      unfolding sqlEq_def by metis
    with that(1) show ?thesis by (simp add: uniqueCol_def)
  qed
  have "\<And>u. taskRefs (d\<lparr>db_tasks := db_tasks d @ [t]\<rparr>) u = taskRefs d u"
    by (simp add: taskRefs_def sessionExists_def agentExists_def cong: option.case_cong)
  with assms(1) new uniq show ?thesis by (auto simp: tasksOk_def)
qed

lemma tasksOk_child:
  assumes "tasksOk d" "updateChildError i u c d = None"
  shows "tasksOk (updateTasks (taskIs i u) (\<lambda>t. t\<lparr>t_ChildSessionID := Some c\<rparr>) d)"
proof (cases "list_ex (taskIs i u) (db_tasks d)")
  case False
  then have "updateRows (taskIs i u) (\<lambda>t. t\<lparr>t_ChildSessionID := Some c\<rparr>) (db_tasks d) = db_tasks d"
    by (auto simp: updateRows_def list_ex_iff intro: map_idI)
  then show ?thesis using assms(1) by (simp add: updateTasks_def)
next
  case True
  let ?f = "\<lambda>t. t\<lparr>t_ChildSessionID := Some c\<rparr>"
  let ?ts = "updateRows (taskIs i u) ?f (db_tasks d)"
  have free: "\<forall>t \<in> set (db_tasks d). t_ChildSessionID t = Some c \<longrightarrow> taskIs i u t"
    and ses: "sessionExists d (Some c)"
    using assms(2) True by (auto simp: updateChildError_def clash_def list_ex_iff split: if_splits)
  have "uniqueCol t_ChildSessionID ?ts"
  proof (unfold uniqueCol_def, intro ballI impI)
    fix x y assume "x \<in> set ?ts" "y \<in> set ?ts" and eq: "sqlEq (t_ChildSessionID x) (t_ChildSessionID y)"
    then obtain a b where ab: "a \<in> set (db_tasks d)" "b \<in> set (db_tasks d)"
      "x = (if taskIs i u a then ?f a else a)" "y = (if taskIs i u b then ?f b else b)"
      by (blast dest: set_updateRows)
    then have ids: "t_ID x = t_ID a" "t_ID y = t_ID b" by simp_all
    show "t_ID x = t_ID y"
    proof (cases "taskIs i u a \<longleftrightarrow> taskIs i u b")
      case True
      have "sqlEq (t_ChildSessionID a) (t_ChildSessionID b)" if "\<not> taskIs i u a"
        using that True eq ab by simp
      then show ?thesis using True ids ab assms(1) by (auto simp: taskIs_def tasksOk_def uniqueCol_def)
    next
      case False
      with eq ab free show ?thesis by (metis DelegatedTask.select_convs(4) DelegatedTask.surjective DelegatedTask.update_convs(4) sqlEq_def)
    qed
  qed
  moreover have "uniqueCol t_ParentSessionID ?ts"
    using assms(1) by (intro uniqueCol_update) (simp_all add: tasksOk_def)
  moreover have "distinct (map t_ID ?ts)"
    using assms(1) by (simp add: tasksOk_def map_updateRows_keep)
  moreover have "\<forall>t \<in> set ?ts. taskRefs d t"
    using assms(1) ses by (auto simp: tasksOk_def taskRefs_def dest!: set_updateRows)
  ultimately show ?thesis by (simp add: tasksOk_def taskRefs_def frame_simps)
qed

text \<open>Every operation of the store keeps the constraints, whatever the environment does.\<close>

lemma tasksOk_execStmt [keeps]:
  assumes "execStmt m upd d = (r, d')" "tasksOk d" "\<And>x. tasksOk x \<Longrightarrow> tasksOk (upd x)"
  shows "tasksOk d'"
proof (cases r)
  case (Inl e)
  with assms show ?thesis by (metis execStmt_Inl tasksOk_tables)
next
  case (Inr v)
  with assms(1) obtain d1 where "tables d1 = tables d" "d' = upd d1" by (auto dest: execStmt_Inr)
  with assms(2,3) show ?thesis by (metis tasksOk_tables)
qed

lemma tasksOk_execChecked:
  assumes "execChecked m chk upd d = (r, d')" "tasksOk d" "\<And>x. tasksOk x \<Longrightarrow> chk x = None \<Longrightarrow> tasksOk (upd x)"
  shows "tasksOk d'"
proof (cases r)
  case (Inl e)
  with assms show ?thesis by (metis execChecked_Inl tasksOk_tables)
next
  case (Inr v)
  with assms(1) obtain d1 where "tables d1 = tables d" "chk d1 = None" "d' = upd d1"
    by (auto dest: execChecked_Inr)
  with assms(2,3) show ?thesis by (metis tasksOk_tables)
qed

lemma tasksOk_timeNow: "timeNow d = (n, d') \<Longrightarrow> tasksOk d \<Longrightarrow> tasksOk d'"
  using tasksOk_tables timeNow_tables by blast

lemma tasksOk_statement: "statement d = (n, d') \<Longrightarrow> tasksOk d \<Longrightarrow> tasksOk d'"
  using tasksOk_tables statement_tables by blast

lemma tasksOk_newID: "newID d = (n, d') \<Longrightarrow> tasksOk d \<Longrightarrow> tasksOk d'"
  using tasksOk_tables newID_tables by blast

lemma tasksOk_UpdateDelegatedTaskStatus [keeps]:
  "UpdateDelegatedTaskStatus i u s e d = (r, d') \<Longrightarrow> tasksOk d \<Longrightarrow> tasksOk d'"
  by (auto simp: UpdateDelegatedTaskStatus_def split: prod.splits
      elim!: tasksOk_execStmt intro: tasksOk_timeNow tasksOk_update)

lemma tasksOk_CompleteTask [keeps]:
  "CompleteTask i u c d = (r, d') \<Longrightarrow> tasksOk d \<Longrightarrow> tasksOk d'"
  by (auto simp: CompleteTask_def keepsLinks_def split: prod.splits
      elim!: tasksOk_execStmt intro: tasksOk_timeNow tasksOk_update)

lemma tasksOk_UpdateDelegatedTaskCost [keeps]:
  "UpdateDelegatedTaskCost i u c d = (r, d') \<Longrightarrow> tasksOk d \<Longrightarrow> tasksOk d'"
  unfolding UpdateDelegatedTaskCost_def
  by (erule tasksOk_execStmt) (auto simp: keepsLinks_def intro!: tasksOk_update)

lemma tasksOk_UpdateDelegatedTaskPriority [keeps]:
  "UpdateDelegatedTaskPriority i p d = (r, d') \<Longrightarrow> tasksOk d \<Longrightarrow> tasksOk d'"
  unfolding UpdateDelegatedTaskPriority_def
  by (erule tasksOk_execStmt) (auto simp: keepsLinks_def intro!: tasksOk_update)

lemma tasksOk_UpdateDelegatedTaskChild [keeps]:
  "UpdateDelegatedTaskChild i u c d = (r, d') \<Longrightarrow> tasksOk d \<Longrightarrow> tasksOk d'"
  unfolding UpdateDelegatedTaskChild_def by (erule tasksOk_execChecked) (auto intro: tasksOk_child)

lemma tasksOk_CreateDelegatedTask [keeps]:
  "CreateDelegatedTask t d = (r, d') \<Longrightarrow> tasksOk d \<Longrightarrow> tasksOk d'"
  unfolding CreateDelegatedTask_def Let_def
  by (auto split: prod.splits sum.splits elim!: tasksOk_execChecked
      intro: tasksOk_newID tasksOk_timeNow tasksOk_insert)

lemma tasksOk_ClaimNextTask [keeps]:
  "ClaimNextTask a d = (r, d') \<Longrightarrow> tasksOk d \<Longrightarrow> tasksOk d'"
  unfolding ClaimNextTask_def Let_def
  by (auto simp: keepsLinks_def split: prod.splits option.splits
      intro!: tasksOk_update intro: tasksOk_timeNow tasksOk_statement)

section \<open>Claiming\<close>

lemma orderDesc_stable: "filter (\<lambda>x. k x = v) (orderDesc k rs) = filter (\<lambda>x. k x = v) rs"
proof -
  have "filter (\<lambda>x. k x = v) (sort_key k (rev rs)) = filter (\<lambda>x. k x = v) (rev rs)"
    using sort_key_stable [of k v "rev rs"] by simp
  then show ?thesis by (simp add: orderDesc_def flip: rev_filter)
qed

text \<open>The head of \<open>ORDER BY k DESC, c ASC\<close>.\<close>

lemma orderDesc_head:
  assumes "orderDesc k (sort_key c rs) = t # ts"
  shows "t \<in> set rs"
    and "\<And>u. u \<in> set rs \<Longrightarrow> k u < k t \<or> k u = k t \<and> c t \<le> c u"
proof -
  have "set (t # ts) = set rs" using assms by (metis set_orderDesc set_sort)
  then show "t \<in> set rs" by auto
  fix u assume u: "u \<in> set rs"
  have "sorted_wrt (\<lambda>a b. k b \<le> k a) (t # ts)" using assms sorted_orderDesc by metis
  then have le: "k u \<le> k t" using u \<open>set (t # ts) = set rs\<close> by auto
  have "filter (\<lambda>x. k x = k t) (sort_key c rs) = t # filter (\<lambda>x. k x = k t) ts"
    using orderDesc_stable [of k "k t" "sort_key c rs"] assms by simp
  moreover have "sorted (map c (filter (\<lambda>x. k x = k t) (sort_key c rs)))"
    by (rule sorted_filter) simp
  ultimately have "sorted (map c (t # filter (\<lambda>x. k x = k t) ts))" by metis
  moreover have "set (filter (\<lambda>x. k x = k t) (sort_key c rs)) = {x \<in> set rs. k x = k t}" by auto
  ultimately have "k u = k t \<Longrightarrow> c t \<le> c u"
    using u \<open>filter (\<lambda>x. k x = k t) (sort_key c rs) = t # filter (\<lambda>x. k x = k t) ts\<close> by auto
  with le show "k u < k t \<or> k u = k t \<and> c t \<le> c u" by fastforce
qed

lemma claimCandidate_None: "claimCandidate ts a = None \<longleftrightarrow> (\<forall>t \<in> set ts. \<not> claimable ts a t)"
proof -
  have "claimCandidate ts a = None \<longleftrightarrow> orderDesc t_Priority (sort_key t_CreatedAt (filter (claimable ts a) ts)) = []"
    by (simp add: claimCandidate_def split: list.split del: orderDesc_Nil)
  also have "\<dots> \<longleftrightarrow> set (sort_key t_CreatedAt (filter (claimable ts a) ts)) = {}"
    by (simp only: orderDesc_Nil set_empty)
  also have "set (sort_key t_CreatedAt (filter (claimable ts a) ts)) = {t \<in> set ts. claimable ts a t}"
    by simp
  finally show ?thesis by auto
qed

lemma claimCandidate_Some:
  assumes "claimCandidate ts a = Some t"
  shows "t \<in> set ts" "claimable ts a t"
    and "\<And>u. u \<in> set ts \<Longrightarrow> claimable ts a u \<Longrightarrow>
           t_Priority u < t_Priority t \<or> t_Priority u = t_Priority t \<and> t_CreatedAt t \<le> t_CreatedAt u"
proof -
  obtain r where r: "orderDesc t_Priority (sort_key t_CreatedAt (filter (claimable ts a) ts)) = t # r"
    using assms by (auto simp: claimCandidate_def split: list.splits)
  show "t \<in> set ts" "claimable ts a t" using orderDesc_head(1) [OF r] by auto
  show "\<And>u. u \<in> set ts \<Longrightarrow> claimable ts a u \<Longrightarrow>
           t_Priority u < t_Priority t \<or> t_Priority u = t_Priority t \<and> t_CreatedAt t \<le> t_CreatedAt u"
    using orderDesc_head(2) [OF r] by simp
qed

lemma claimCandidate_ready: "claimCandidate ts a = Some t \<Longrightarrow> t \<in> set ts \<and> claimable ts a t"
  using claimCandidate_Some(1,2) by blast

definition claimRow :: "nat \<Rightarrow> DelegatedTask \<Rightarrow> DelegatedTask" where
  "claimRow now t = t\<lparr>t_Status := TaskClaimed, t_ClaimedAt := Some now\<rparr>"

lemma ClaimNextTask_cases:
  assumes "ClaimNextTask a d = (Inr r, d')"
  shows "r = None \<and> claimCandidate (db_tasks d) a = None \<and> tables d' = tables d
    \<or> (\<exists>t. r = Some (claimRow (clock d') t) \<and> claimCandidate (db_tasks d) a = Some t
          \<and> tables d' = tables (updateTasks (\<lambda>u. t_ID u = t_ID t) (claimRow (clock d')) d))"
proof -
  obtain d1 where d1: "statement d = (None, d1)" using assms
    by (auto simp: ClaimNextTask_def split: prod.splits option.splits)
  then have ts: "tables d1 = tables d" "db_tasks d1 = db_tasks d"
    using statement_tables tables_eqD(3) by blast+
  obtain now d2 where d2: "timeNow d1 = (now, d2)" by (cases "timeNow d1")
  then have "tables d2 = tables d" "clock d2 = now" using ts timeNow_tables timeNow_other by metis+
  moreover have "tables (updateTasks P f d2) = tables (updateTasks P f d)" for P f
    using tables_eqD [OF \<open>tables d2 = tables d\<close>] by (simp add: tables_def frame_simps)
  moreover have "clock (updateTasks P f d2) = clock d2" for P f by (simp add: updateTasks_def)
  ultimately show ?thesis
    using assms d1 d2 ts by (auto simp: ClaimNextTask_def claimRow_def [abs_def] Let_def split: option.splits)
qed

lemma updateRows_single:
  assumes "distinct (map k rs)" "r \<in> set rs"
  shows "updateRows (\<lambda>x. k x = k r) f rs = updateRows (\<lambda>x. x = r) (\<lambda>_. f r) rs"
  using assms unfolding updateRows_def by (auto dest: distinct_map_eqD)

text \<open>
  C8. A successful \<open>ClaimNextTask\<close> either finds that the agent has no pending task whose
  blockers are all done, and changes nothing, or returns one that has: the one of the highest
  priority and, among those, the earliest created, now \<open>claimed\<close> with the time of the claim; in
  the table that one row is replaced and every other row and table is as it was.
\<close>

theorem claim_takes_the_best_ready_task:
  assumes "tasksOk d" "ClaimNextTask a d = (Inr r, d')"
  shows "case r of
      None \<Rightarrow> (\<forall>t \<in> set (db_tasks d). \<not> claimable (db_tasks d) a t) \<and> tables d' = tables d
    | Some c \<Rightarrow> (\<exists>t \<in> set (db_tasks d). claimable (db_tasks d) a t
        \<and> (\<forall>u \<in> set (db_tasks d). claimable (db_tasks d) a u \<longrightarrow>
             t_Priority u < t_Priority t \<or> t_Priority u = t_Priority t \<and> t_CreatedAt t \<le> t_CreatedAt u)
        \<and> c = t\<lparr>t_Status := TaskClaimed, t_ClaimedAt := Some (clock d')\<rparr>
        \<and> tables d' = tables (d\<lparr>db_tasks := map (\<lambda>u. if u = t then c else u) (db_tasks d)\<rparr>))"
  using ClaimNextTask_cases [OF assms(2)]
proof (elim disjE exE conjE)
  fix t assume r: "r = Some (claimRow (clock d') t)" and c: "claimCandidate (db_tasks d) a = Some t"
    and d': "tables d' = tables (updateTasks (\<lambda>u. t_ID u = t_ID t) (claimRow (clock d')) d)"
  note t = claimCandidate_Some [OF c]
  have "updateTasks (\<lambda>u. t_ID u = t_ID t) (claimRow (clock d')) d
      = d\<lparr>db_tasks := map (\<lambda>u. if u = t then claimRow (clock d') t else u) (db_tasks d)\<rparr>"
    using updateRows_single [of t_ID "db_tasks d" t] assms(1) t(1)
    by (simp add: updateTasks_def tasksOk_def updateRows_def)
  with r d' t show ?thesis by (auto simp: claimRow_def [symmetric])
qed (simp add: claimCandidate_None)

text \<open>A run of the workers' claims: each polls some agent; the ids they were given, in order.\<close>

fun claimRun :: "string list \<Rightarrow> db \<Rightarrow> string list \<times> db" where
  "claimRun [] d = ([], d)"
| "claimRun (a # as) d =
     (case ClaimNextTask a d of
        (Inr (Some t), d1) \<Rightarrow> (let (ids, d2) = claimRun as d1 in (t_ID t # ids, d2))
      | (_, d1) \<Rightarrow> claimRun as d1)"

definition pendingIDs :: "db \<Rightarrow> string set" where
  "pendingIDs d = t_ID ` {t \<in> set (db_tasks d). t_Status t = TaskPending}"

lemma pendingIDs_tables: "tables d' = tables d \<Longrightarrow> pendingIDs d' = pendingIDs d"
  by (drule tables_eqD(3)) (simp add: pendingIDs_def)

lemma ClaimNextTask_pending:
  assumes "tasksOk d" "ClaimNextTask a d = (r, d')"
  shows "pendingIDs d' = (case r of Inr (Some t) \<Rightarrow> pendingIDs d - {t_ID t} | _ \<Rightarrow> pendingIDs d)"
    and "r = Inr (Some t) \<Longrightarrow> t_ID t \<in> pendingIDs d"
proof -
  have err: "tables d' = tables d" if "r = Inl e" for e
    using assms(2) that statement_tables
    by (auto simp: ClaimNextTask_def Let_def split: prod.splits option.splits)
  have upd: "pendingIDs (updateTasks (\<lambda>u. t_ID u = i) (claimRow n) d) = pendingIDs d - {i}" for i n
  proof -
    have "{t \<in> set (updateRows (\<lambda>u. t_ID u = i) (claimRow n) (db_tasks d)). t_Status t = TaskPending}
        = {t \<in> set (db_tasks d). t_Status t = TaskPending \<and> t_ID t \<noteq> i}"
      by (auto simp: updateRows_def claimRow_def split: if_splits)
    then show ?thesis unfolding pendingIDs_def frame_simps by blast
  qed
  have id: "t_ID (claimRow n t) = t_ID t" for n t by (simp add: claimRow_def)
  show "pendingIDs d' = (case r of Inr (Some t) \<Rightarrow> pendingIDs d - {t_ID t} | _ \<Rightarrow> pendingIDs d)"
  proof (cases r)
    case (Inl e)
    with pendingIDs_tables [OF err] show ?thesis by simp
  next
    case (Inr c)
    with assms(2) have "ClaimNextTask a d = (Inr c, d')" by simp
    from ClaimNextTask_cases [OF this] show ?thesis
    proof (elim disjE exE conjE)
      fix t assume "c = Some (claimRow (clock d') t)"
        and u: "tables d' = tables (updateTasks (\<lambda>u. t_ID u = t_ID t) (claimRow (clock d')) d)"
      with pendingIDs_tables [OF u] show ?thesis by (simp add: Inr upd id)
    next
      assume "c = None" and u: "tables d' = tables d"
      with pendingIDs_tables [OF u] show ?thesis by (simp add: Inr)
    qed
  qed
  show "t_ID t \<in> pendingIDs d" if "r = Inr (Some t)"
    using ClaimNextTask_cases [of a d "Some t" d'] assms(2) that
    by (auto simp: id pendingIDs_def claimable_def dest!: claimCandidate_ready)
qed

lemma claimRun_pending:
  "tasksOk d \<Longrightarrow> claimRun as d = (ids, d') \<Longrightarrow> distinct ids \<and> set ids \<subseteq> pendingIDs d"
proof (induction as arbitrary: d ids d')
  case (Cons a as)
  obtain r d1 where c: "ClaimNextTask a d = (r, d1)" by (cases "ClaimNextTask a d")
  obtain ids1 d2 where run: "claimRun as d1 = (ids1, d2)" by (cases "claimRun as d1")
  have ih: "distinct ids1 \<and> set ids1 \<subseteq> pendingIDs d1"
    using Cons.IH [OF _ run] tasksOk_ClaimNextTask [OF c] Cons.prems(1) by blast
  have ids: "ids = (case r of Inr (Some t) \<Rightarrow> t_ID t # ids1 | _ \<Rightarrow> ids1)"
    using Cons.prems(2) c run by (auto split: sum.splits option.splits)
  from ClaimNextTask_pending [OF Cons.prems(1) c] ih show ?case
    unfolding ids by (auto split: sum.splits option.splits)
qed simp

text \<open>
  C9. However many workers poll, for whatever agents and in whatever order, and whichever of
  the statements fail, no task is handed out twice, and every task handed out was pending before.
\<close>

theorem no_task_is_claimed_twice:
  assumes "tasksOk d" "claimRun as d = (ids, d')"
  shows "distinct ids \<and> (\<forall>i \<in> set ids. \<exists>t \<in> set (db_tasks d). t_ID t = i \<and> t_Status t = TaskPending)"
  using claimRun_pending [OF assms] by (auto simp: pendingIDs_def)

section \<open>A concrete store\<close>

text \<open>Two agents, one session and three tasks, the third waiting for the second; no faults.\<close>

definition sampleAgent :: "string \<Rightarrow> string \<Rightarrow> Agent" where
  "sampleAgent i role = \<lparr>a_ID = i, a_UserID = ''u'', a_Name = i, a_Role = role, a_APIKeyID = Some ''k'',
     a_CanDelegateTo = [], a_MaxCostPerTask = 5, a_MaxDelegationDepth = 3, a_Personality = [], a_VoiceID = [], a_ScopeConfig = ''{}'',
       a_AutonomyLevel = ''standard'', a_CreatedAt = 0, a_UpdatedAt = 0\<rparr>"

definition sampleTask :: "string \<Rightarrow> int \<Rightarrow> string list \<Rightarrow> DelegatedTask" where
  "sampleTask i prio blocks = \<lparr>t_ID = i, t_UserID = ''u'', t_ParentSessionID = None, t_ChildSessionID = None,
     t_FromAgentID = ''lead'', t_ToAgentID = ''jun'', t_Description = ''work'', t_Priority = prio,
     t_Status = TaskPending, t_ErrorMessage = None, t_BlockedBy = blocks, t_Context = None,
     t_MaxCostUSD = None, t_ActualCostUSD = None, t_ClaimedAt = None, t_CompletedAt = None, t_CreatedAt = 1\<rparr>"

definition sampleDb :: db where
  "sampleDb = \<lparr>db_agents = [sampleAgent ''lead'' ''lead'', sampleAgent ''jun'' ''junior''], db_sessions = [],
     db_tasks = [sampleTask ''t1'' 10 [], sampleTask ''t2'' 50 [], sampleTask ''t3'' 90 [''t2'']],
     db_locks = [], db_events = [], db_schedules = [], db_users = [], db_github = [], db_apiKeys = [],
     db_workspaces = [], db_history = [], db_usage = [], db_clarifications = [], db_pipelines = [], faults = [], clock = 100, ticks = [], entropy = [],
     cteFirst = False\<rparr>"

lemma sampleDb_ok: "tasksOk sampleDb"
  by (simp add: tasksOk_def uniqueCol_def sqlEq_def taskRefs_def sampleDb_def sampleTask_def sampleAgent_def
      sessionExists_def agentExists_def)

definition sampleClaimed :: DelegatedTask where
  "sampleClaimed = (sampleTask ''t2'' 50 [])\<lparr>t_Status := TaskClaimed, t_ClaimedAt := Some 100\<rparr>"

lemma sample_claim:
  "fst (ClaimNextTask ''jun'' sampleDb) = Inr (Some sampleClaimed)"
  by code_simp

theorem claim_takes_the_best_ready_task_witness:
  "\<exists>d'. ClaimNextTask ''jun'' sampleDb = (Inr (Some sampleClaimed), d') \<and>
     (\<exists>t \<in> set (db_tasks sampleDb). claimable (db_tasks sampleDb) ''jun'' t \<and> t_ID t = ''t2'')"
proof -
  obtain d' where c: "ClaimNextTask ''jun'' sampleDb = (Inr (Some sampleClaimed), d')"
    using sample_claim by (metis prod.collapse)
  from claim_takes_the_best_ready_task [OF sampleDb_ok c]
  obtain t where t: "t \<in> set (db_tasks sampleDb)" "claimable (db_tasks sampleDb) ''jun'' t"
    "sampleClaimed = t\<lparr>t_Status := TaskClaimed, t_ClaimedAt := Some (clock d')\<rparr>" by auto
  have "t_ID t = t_ID sampleClaimed" by (simp add: t(3))
  also have "\<dots> = ''t2''" by (simp add: sampleClaimed_def sampleTask_def)
  finally show ?thesis using c t(1,2) by blast
qed

lemma sample_run: "fst (claimRun [''jun'', ''lead'', ''jun'', ''jun''] sampleDb) = [''t2'', ''t1'']"
  by code_simp

theorem no_task_is_claimed_twice_witness:
  "fst (claimRun [''jun'', ''lead'', ''jun'', ''jun''] sampleDb) = [''t2'', ''t1''] \<and> distinct [''t2'', ''t1'']"
  using sample_run no_task_is_claimed_twice [OF sampleDb_ok, of "[''jun'', ''lead'', ''jun'', ''jun'']"]
  by (metis prod.collapse)

section \<open>Statistics\<close>

definition userTasks :: "string \<Rightarrow> db \<Rightarrow> DelegatedTask list" where
  "userTasks userID d = filter (\<lambda>t. t_UserID t = userID) (db_tasks d)"

lemma fold_addStatsRow:
  "fold addStatsRow rows (m, n, c, s, k) =
     (fold (\<lambda>(st, cnt, _). \<lambda>m. m(st \<mapsto> cnt)) rows m,
      n + sum_list (map (\<lambda>(_, cnt, _). cnt) rows),
      c + sum_list (map (\<lambda>(_, _, cost, _). cost) rows),
      s + sum_list (map (\<lambda>(_, cnt, _, avg). case avg of None \<Rightarrow> 0 | Some a \<Rightarrow> a * of_nat cnt) rows),
      k + sum_list (map (\<lambda>(_, cnt, _, avg). case avg of None \<Rightarrow> 0 | Some _ \<Rightarrow> cnt) rows))"
  by (induction rows arbitrary: m n c s k)
    (auto simp: addStatsRow_def algebra_simps split: option.splits)

lemma distinct_allStatuses: "distinct allStatuses" "set allStatuses = UNIV"
proof -
  show "distinct allStatuses" by (simp add: allStatuses_def)
  show "set allStatuses = UNIV" by (auto simp: allStatuses_def intro: DelegatedTaskStatus.exhaust)
qed

text \<open>Grouping: a sum over the groups of a sum over each group is the sum over all rows.\<close>

lemma sum_list_group:
  fixes f :: "'r \<Rightarrow> 'm :: comm_monoid_add"
  assumes "distinct ks" "\<And>x. x \<in> set xs \<Longrightarrow> g x \<in> set ks"
  shows "sum_list (map (\<lambda>k. sum_list (map f (filter (\<lambda>x. g x = k) xs))) ks) = sum_list (map f xs)"
  using assms(2)
proof (induction xs)
  case Nil
  then show ?case by (induction ks) auto
next
  case (Cons x xs)
  have "sum_list (map (\<lambda>k. sum_list (map f (filter (\<lambda>y. g y = k) (x # xs)))) ks)
      = sum_list (map (\<lambda>k. (if g x = k then f x else 0) + sum_list (map f (filter (\<lambda>y. g y = k) xs))) ks)"
    by (rule arg_cong [where f = sum_list]) simp
  also have "\<dots> = sum_list (map (\<lambda>k. if g x = k then f x else 0) ks)
      + sum_list (map (\<lambda>k. sum_list (map f (filter (\<lambda>y. g y = k) xs))) ks)"
    by (simp add: sum_list_addf)
  also have "sum_list (map (\<lambda>k. if g x = k then f x else 0) ks) = f x"
    using assms(1) Cons.prems [of x] by (simp add: sum_list_distinct_conv_sum_set)
  finally show ?case using Cons by simp
qed

lemma sum_map_filter: "sum_list (List.map_filter f xs) = sum_list (map (\<lambda>x. case f x of None \<Rightarrow> 0 | Some v \<Rightarrow> v) xs)"
  for f :: "'a \<Rightarrow> 'b :: comm_monoid_add option"
  by (induction xs) (auto simp: List.map_filter_def split: option.splits)

lemma length_map_filter: "length (List.map_filter f xs) = length (filter (\<lambda>x. f x \<noteq> None) xs)"
  by (simp add: List.map_filter_def)

lemma sum_statsRows:
  fixes h :: "DelegatedTaskStatus \<times> nat \<times> rat \<times> rat option \<Rightarrow> 'm :: comm_monoid_add"
  assumes "\<And>s. h (s, 0, 0, None) = 0"
  shows "sum_list (map h (statsRows u ts)) = sum_list (map (\<lambda>s. h (statsRow (filter (\<lambda>t. t_UserID t = u) ts) s)) allStatuses)"
proof -
  have "h (statsRow xs s) = 0" if "\<not> list_ex (\<lambda>t. t_Status t = s) xs" for xs s
  proof -
    from that have "filter (\<lambda>t. t_Status t = s) xs = []" by (simp add: filter_empty_conv list_ex_iff)
    then show ?thesis using assms by (simp add: statsRow_def List.map_filter_def avgOf_def)
  qed
  then show ?thesis
    unfolding statsRows_def Let_def map_map comp_def by (intro sum_list_map_filter) auto
qed

lemma byStatus_fold:
  assumes "distinct ks"
  shows "fold (\<lambda>(st, cnt, _). \<lambda>m. m(st \<mapsto> cnt)) (map (statsRow ts) ks) m s
    = (if s \<in> set ks then Some (length (filter (\<lambda>t. t_Status t = s) ts)) else m s)"
  using assms by (induction ks arbitrary: m) (auto simp: statsRow_def Let_def)

text \<open>All tasks of a status have a duration, or none has.\<close>

definition uniformDurations :: "DelegatedTask list \<Rightarrow> bool" where
  "uniformDurations ts \<longleftrightarrow> (\<forall>t \<in> set ts. \<forall>u \<in> set ts. t_Status t = t_Status u \<longrightarrow>
     (taskDuration t = None \<longleftrightarrow> taskDuration u = None))"

lemma uniform_group:
  assumes "uniformDurations ts"
  defines "g \<equiv> \<lambda>s. filter (\<lambda>t. t_Status t = s) ts"
  shows "(case avgOf (List.map_filter taskDuration (g s)) of None \<Rightarrow> 0 | Some a \<Rightarrow> a * of_nat (length (g s)))
         = sum_list (List.map_filter taskDuration (g s))"
    and "(case avgOf (List.map_filter taskDuration (g s)) of None \<Rightarrow> 0 | Some _ \<Rightarrow> length (g s))
         = length (List.map_filter taskDuration (g s))"
proof -
  have "length (List.map_filter taskDuration (g s)) = length (g s)" if "List.map_filter taskDuration (g s) \<noteq> []"
  proof -
    from that obtain t where "t \<in> set (g s)" "taskDuration t \<noteq> None"
      by (auto simp: List.map_filter_def filter_empty_conv)
    with assms have "\<forall>u \<in> set (g s). taskDuration u \<noteq> None" by (auto simp: uniformDurations_def g_def)
    then have "filter (\<lambda>x. taskDuration x \<noteq> None) (g s) = g s" by (simp add: filter_id_conv)
    then show ?thesis by (simp add: length_map_filter)
  qed
  then show "(case avgOf (List.map_filter taskDuration (g s)) of None \<Rightarrow> 0 | Some a \<Rightarrow> a * of_nat (length (g s)))
         = sum_list (List.map_filter taskDuration (g s))"
    "(case avgOf (List.map_filter taskDuration (g s)) of None \<Rightarrow> 0 | Some _ \<Rightarrow> length (g s))
         = length (List.map_filter taskDuration (g s))"
    by (auto simp: avgOf_def)
qed

lemma group_sum: "sum_list (map (\<lambda>s. sum_list (List.map_filter f (filter (\<lambda>t. t_Status t = s) ts))) allStatuses)
    = sum_list (List.map_filter f ts)"
  for f :: "DelegatedTask \<Rightarrow> 'b :: comm_monoid_add option"
  unfolding sum_map_filter by (rule sum_list_group) (simp_all add: distinct_allStatuses)

lemma group_length: "sum_list (map (\<lambda>s. length (filter P (filter (\<lambda>t. t_Status t = s) ts))) allStatuses)
    = length (filter P ts)"
proof -
  have len: "length (filter P xs) = sum_list (map (\<lambda>t. if P t then 1 else 0) xs)" for xs
    by (induction xs) auto
  show ?thesis unfolding len by (rule sum_list_group) (simp_all add: distinct_allStatuses)
qed

lemma delegation_stats_are_exact_facts:
  assumes "GetDelegationStats u d = (Inr st, d')"
  shows "TotalTasks st = length (userTasks u d)"
    and "TotalCostUSD st = sum_list (List.map_filter t_ActualCostUSD (userTasks u d))"
    and "\<forall>s. ByStatus st s = (let n = length (filter (\<lambda>t. t_Status t = s) (userTasks u d))
                              in if n = 0 then None else Some n)"
    and "uniformDurations (userTasks u d) \<Longrightarrow>
           AverageDurationMs st = avgOf (List.map_filter taskDuration (userTasks u d))"
proof -
  let ?ts = "userTasks u d" and ?rows = "statsRows u (db_tasks d)"
  obtain rows d1 where q: "queryRows ''get delegation stats'' ''scan delegation stats'' ''iterate delegation stats''
      (\<lambda>d. statsRows u (db_tasks d)) d = (Inr rows, d1)"
    using assms by (auto simp: GetDelegationStats_def split: prod.splits sum.splits)
  have rows: "rows = ?rows" using q by (rule queryRows_result) (metis tables_eqD(3))
  have st: "TotalTasks st = sum_list (map (\<lambda>(_, cnt, _). cnt) ?rows)"
    "TotalCostUSD st = sum_list (map (\<lambda>(_, _, cost, _). cost) ?rows)"
    "ByStatus st = fold (\<lambda>(st, cnt, _). \<lambda>m. m(st \<mapsto> cnt)) ?rows Map.empty"
    "AverageDurationMs st =
       (let s = sum_list (map (\<lambda>(_, cnt, _, avg). case avg of None \<Rightarrow> 0 | Some a \<Rightarrow> a * of_nat cnt) ?rows);
            k = sum_list (map (\<lambda>(_, cnt, _, avg). case avg of None \<Rightarrow> 0 | Some _ \<Rightarrow> cnt) ?rows)
        in if k > 0 then Some (s / of_nat k) else None)"
    using assms unfolding GetDelegationStats_def q rows fold_addStatsRow Let_def
    by (auto simp del: sum_list_eq_0_iff neq0_conv)
  have row: "statsRow ?ts s = (s, length (filter (\<lambda>t. t_Status t = s) ?ts),
      sum_list (List.map_filter t_ActualCostUSD (filter (\<lambda>t. t_Status t = s) ?ts)),
      avgOf (List.map_filter taskDuration (filter (\<lambda>t. t_Status t = s) ?ts)))" for s
    by (simp add: statsRow_def Let_def)
  show "TotalTasks st = length ?ts"
    using group_length [of "\<lambda>_. True" ?ts] by (simp add: st sum_statsRows row flip: userTasks_def)
  show "TotalCostUSD st = sum_list (List.map_filter t_ActualCostUSD ?ts)"
    using group_sum [of t_ActualCostUSD ?ts] by (simp add: st sum_statsRows row flip: userTasks_def)
  show "\<forall>s. ByStatus st s = (let n = length (filter (\<lambda>t. t_Status t = s) ?ts) in if n = 0 then None else Some n)"
    using distinct_allStatuses
    by (auto simp: st statsRows_def Let_def byStatus_fold list_ex_iff filter_empty_conv simp flip: userTasks_def)
  show "AverageDurationMs st = avgOf (List.map_filter taskDuration ?ts)" if "uniformDurations ?ts"
  proof -
    have "sum_list (map (\<lambda>(_, cnt, _, avg). case avg of None \<Rightarrow> 0 | Some a \<Rightarrow> a * of_nat cnt) ?rows)
        = sum_list (List.map_filter taskDuration ?ts)"
      using group_sum [of taskDuration ?ts]
      by (simp add: sum_statsRows row uniform_group(1) [OF that] flip: userTasks_def)
    moreover have "sum_list (map (\<lambda>(_, cnt, _, avg). case avg of None \<Rightarrow> 0 | Some _ \<Rightarrow> cnt) ?rows)
        = length (List.map_filter taskDuration ?ts)"
      using group_length [of "\<lambda>t. taskDuration t \<noteq> None" ?ts]
      by (simp add: sum_statsRows row uniform_group(2) [OF that] length_map_filter flip: userTasks_def)
    ultimately show ?thesis unfolding st(4) Let_def by (simp only:) (simp add: avgOf_def)
  qed
qed

text \<open>
  The statistics of a user: the number of tasks and the sum of the recorded costs are
  exact, the count per status is exact and absent for a status without tasks, and the average
  duration is the mean over the tasks that have one, provided that no status has both tasks
  with and tasks without a duration.
\<close>

theorem delegation_stats_are_exact:
  assumes "GetDelegationStats u d = (Inr st, d')"
  shows "TotalTasks st = length (userTasks u d)
    \<and> TotalCostUSD st = sum_list (List.map_filter t_ActualCostUSD (userTasks u d))
    \<and> (\<forall>s. ByStatus st s = (let n = length (filter (\<lambda>t. t_Status t = s) (userTasks u d))
                              in if n = 0 then None else Some n))
    \<and> (uniformDurations (userTasks u d) \<longrightarrow>
           AverageDurationMs st = avgOf (List.map_filter taskDuration (userTasks u d)))"
  using delegation_stats_are_exact_facts [OF assms] by blast

definition finishedTask :: "string \<Rightarrow> DelegatedTaskStatus \<Rightarrow> nat option \<Rightarrow> nat \<Rightarrow> DelegatedTask" where
  "finishedTask i s claimed completed =
     (sampleTask i 50 [])\<lparr>t_Status := s, t_ClaimedAt := claimed, t_CompletedAt := Some completed\<rparr>"

definition finishedDb :: "DelegatedTask list \<Rightarrow> db" where
  "finishedDb ts = sampleDb\<lparr>db_tasks := ts\<rparr>"

definition uniformTasks :: "DelegatedTask list" where
  "uniformTasks = [finishedTask ''t1'' TaskDone (Some 10) 110, finishedTask ''t2'' TaskDone (Some 0) 300,
     finishedTask ''t3'' TaskCancelled None 7]"

lemma finishedDb_stats: "\<exists>st. GetDelegationStats ''u'' (finishedDb ts) = (Inr st, finishedDb ts)"
  by (simp add: GetDelegationStats_def finishedDb_def sampleDb_def split: prod.splits)

theorem delegation_stats_are_exact_witness:
  "\<exists>st. GetDelegationStats ''u'' (finishedDb uniformTasks) = (Inr st, finishedDb uniformTasks)
     \<and> AverageDurationMs st = Some 200 \<and> TotalTasks st = 3"
proof -
  obtain st where st: "GetDelegationStats ''u'' (finishedDb uniformTasks) = (Inr st, finishedDb uniformTasks)"
    using finishedDb_stats by blast
  have ts: "userTasks ''u'' (finishedDb uniformTasks) = uniformTasks"
    by (simp add: userTasks_def finishedDb_def uniformTasks_def finishedTask_def sampleTask_def)
  have "uniformDurations uniformTasks"
    by (simp add: uniformDurations_def uniformTasks_def finishedTask_def sampleTask_def taskDuration_def)
  with delegation_stats_are_exact [OF st, unfolded ts]
  have "AverageDurationMs st = Some 200"
    by (simp add: avgOf_def List.map_filter_def uniformTasks_def finishedTask_def sampleTask_def taskDuration_def)
  moreover have "TotalTasks st = 3"
    using delegation_stats_are_exact [OF st, unfolded ts] by (simp add: uniformTasks_def)
  ultimately show ?thesis using st by blast
qed

text \<open>
  Without that proviso the average is wrong: \<open>AVG\<close> leaves out the tasks without a duration, but
  the code weights it with \<open>COUNT(*)\<close>, which counts them. A task cancelled before any worker
  claimed it has no duration. Here the two durations are 100 and 400, the reported mean is 300.
\<close>

lemma stats_average_is_biased:
  "let ts = [finishedTask ''t1'' TaskDone (Some 0) 100, finishedTask ''t2'' TaskCancelled (Some 0) 400,
             finishedTask ''t3'' TaskCancelled None 7]
   in map_sum id AverageDurationMs (fst (GetDelegationStats ''u'' (finishedDb ts))) = Inr (Some 300)
      \<and> avgOf (List.map_filter taskDuration ts) = Some 250"
  by code_simp

section \<open>Chains\<close>

definition linkRel :: "string \<Rightarrow> DelegatedTask list \<Rightarrow> (DelegatedTask \<times> DelegatedTask) set" where
  "linkRel userID ts = {(c, t). t \<in> set ts \<and> t_UserID t = userID \<and> linked c t}"

lemma set_chainLevels:
  "set (chainLevels u ts n level) = {t. \<exists>k \<le> n. \<exists>c \<in> set level. (c, t) \<in> linkRel u ts ^^ k}"
proof (induction n arbitrary: level)
  case (Suc n)
  let ?next = "concat (map (\<lambda>c. filter (\<lambda>t. t_UserID t = u \<and> linked c t) ts) level)"
  have next_level: "x \<in> set ?next \<longleftrightarrow> (\<exists>c \<in> set level. (c, x) \<in> linkRel u ts)" for x
    by (auto simp: linkRel_def)
  have "t \<in> set (chainLevels u ts (Suc n) level)
      \<longleftrightarrow> (\<exists>k \<le> Suc n. \<exists>c \<in> set level. (c, t) \<in> linkRel u ts ^^ k)" for t
  proof
    assume "t \<in> set (chainLevels u ts (Suc n) level)"
    then consider "t \<in> set level" | k x where "k \<le> n" "x \<in> set ?next" "(x, t) \<in> linkRel u ts ^^ k"
      using Suc.IH [of ?next] by auto
    then show "\<exists>k \<le> Suc n. \<exists>c \<in> set level. (c, t) \<in> linkRel u ts ^^ k"
    proof cases
      case 1
      then show ?thesis by (intro exI [of _ 0]) auto
    next
      case 2
      then obtain c where "c \<in> set level" "(c, x) \<in> linkRel u ts" using next_level by blast
      then have "(c, t) \<in> linkRel u ts ^^ Suc k" using 2 by (meson relpow_Suc_I2)
      then show ?thesis using \<open>c \<in> set level\<close> \<open>k \<le> n\<close> by (meson Suc_le_mono)
    qed
  next
    assume "\<exists>k \<le> Suc n. \<exists>c \<in> set level. (c, t) \<in> linkRel u ts ^^ k"
    then obtain k c where k: "k \<le> Suc n" "c \<in> set level" "(c, t) \<in> linkRel u ts ^^ k" by blast
    show "t \<in> set (chainLevels u ts (Suc n) level)"
    proof (cases k)
      case 0
      with k show ?thesis by simp
    next
      case (Suc j)
      with k obtain x where "(c, x) \<in> linkRel u ts" "(x, t) \<in> linkRel u ts ^^ j"
        by (metis relpow_Suc_D2)
      moreover have "x \<in> set ?next" using next_level calculation(1) k(2) by blast
      moreover have "j \<le> n" using k(1) Suc by simp
      ultimately have "t \<in> set (chainLevels u ts n ?next)" unfolding Suc.IH by blast
      then show ?thesis by simp
    qed
  qed
  then show ?case by blast
qed simp

text \<open>
  \<open>GetDelegationChain\<close> returns, in the order of their ids and each once, exactly the user's
  tasks that are at most twenty hand-overs away from the given task, in either direction.
\<close>

theorem delegation_chain_within_twenty_hops:
  assumes "GetDelegationChain taskID u d = (Inr ts, d')" "tasksOk d"
  shows "sorted (map t_ID ts) \<and> distinct (map t_ID ts)
    \<and> (\<forall>t. t \<in> set ts \<longleftrightarrow> (\<exists>k \<le> 20. \<exists>c \<in> set (db_tasks d). taskIs taskID u c \<and> (c, t) \<in> linkRel u (db_tasks d) ^^ k))"
proof -
  have ts: "ts = sort_key t_ID (remdups (chainLevels u (db_tasks d) 20 (filter (taskIs taskID u) (db_tasks d))))"
    using assms(1) unfolding GetDelegationChain_def by (rule queryRows_result) (metis tables_eqD(3))
  have mem: "t \<in> set ts \<longleftrightarrow> (\<exists>k \<le> 20. \<exists>c \<in> set (db_tasks d). taskIs taskID u c \<and> (c, t) \<in> linkRel u (db_tasks d) ^^ k)" for t
    unfolding ts by (auto simp: set_chainLevels)
  have sub: "set ts \<subseteq> set (db_tasks d)"
  proof
    fix t assume "t \<in> set ts"
    then obtain k c where "c \<in> set (db_tasks d)" "(c, t) \<in> linkRel u (db_tasks d) ^^ k" by (auto simp: mem)
    then show "t \<in> set (db_tasks d)" by (cases k) (auto simp: linkRel_def)
  qed
  have "distinct ts" unfolding ts by simp
  moreover have "inj_on t_ID (set ts)"
    using assms(2) sub by (auto simp: tasksOk_def distinct_map intro: inj_on_subset)
  ultimately show ?thesis using mem by (auto simp: distinct_map ts)
qed

lemma sample_chain: "GetDelegationChain ''t1'' ''u'' sampleDb = (Inr [sampleTask ''t1'' 10 []], sampleDb)"
proof -
  have "chainLevels ''u'' (db_tasks sampleDb) n (if n = 20 then [sampleTask ''t1'' 10 []] else [])
      = (if n = 20 then [sampleTask ''t1'' 10 []] else [])" if "n \<le> 20" for n
    using that
    by (induction n) (auto simp: sampleDb_def linked_def sqlEq_def sampleTask_def)
  from this [of 20] show ?thesis
    by (simp add: GetDelegationChain_def sampleDb_def taskIs_def sampleTask_def)
qed

theorem delegation_chain_within_twenty_hops_witness:
  "GetDelegationChain ''t1'' ''u'' sampleDb = (Inr [sampleTask ''t1'' 10 []], sampleDb)
   \<and> (\<forall>t. t \<in> set [sampleTask ''t1'' 10 []] \<longleftrightarrow>
        (\<exists>k \<le> 20. \<exists>c \<in> set (db_tasks sampleDb). taskIs ''t1'' ''u'' c \<and> (c, t) \<in> linkRel ''u'' (db_tasks sampleDb) ^^ k))"
  using sample_chain delegation_chain_within_twenty_hops [OF sample_chain sampleDb_ok] by blast

section \<open>Delegation cycles\<close>

text \<open>The active delegations of a user: who delegates to whom.\<close>

definition delegates :: "string \<Rightarrow> db \<Rightarrow> (string \<times> string) set" where
  "delegates userID d = {(t_FromAgentID t, t_ToAgentID t) | t.
     t \<in> set (db_tasks d) \<and> t_UserID t = userID \<and> activeStatus (t_Status t)}"

text \<open>A walk up from an agent to those who delegate to it, without repetition.\<close>

fun climbs :: "(string \<times> string) set \<Rightarrow> string \<Rightarrow> string list \<Rightarrow> string list \<Rightarrow> bool" where
  "climbs E a path [] = True"
| "climbs E a path (x # xs) = ((x, a) \<in> E \<and> x \<notin> set path \<and> climbs E x (path @ [x]) xs)"

lemma climbs_iff:
  "climbs E a path xs \<longleftrightarrow> successively (\<lambda>x y. (y, x) \<in> E) (a # xs) \<and> distinct xs \<and> set xs \<inter> set path = {}"
  by (induction xs arbitrary: a path) auto

lemma set_cycleLevels:
  fixes ts defines "E \<equiv> {(t_FromAgentID t, t_ToAgentID t) | t. t \<in> set ts}"
  shows "(b, q) \<in> set (cycleLevels ts n level) \<longleftrightarrow>
    (\<exists>a p xs. (a, p) \<in> set level \<and> length xs \<le> n \<and> climbs E a p xs \<and> b = last (a # xs) \<and> q = p @ xs)"
proof (induction n arbitrary: level)
  case (Suc n)
  let ?next = "concat (map (\<lambda>(a, path). map (\<lambda>t. (t_FromAgentID t, path @ [t_FromAgentID t]))
            (filter (\<lambda>t. t_ToAgentID t = a \<and> t_FromAgentID t \<notin> set path) ts)) level)"
  have nxt: "(y, r) \<in> set ?next \<longleftrightarrow> (\<exists>a p. (a, p) \<in> set level \<and> (y, a) \<in> E \<and> y \<notin> set p \<and> r = p @ [y])" for y r
    by (fastforce simp: E_def)
  have "(b, q) \<in> set (cycleLevels ts (Suc n) level) \<longleftrightarrow> (b, q) \<in> set level \<or>
      (\<exists>y r xs. (y, r) \<in> set ?next \<and> length xs \<le> n \<and> climbs E y r xs \<and> b = last (y # xs) \<and> q = r @ xs)"
    using Suc.IH [of ?next] by simp
  also have "\<dots> \<longleftrightarrow> (\<exists>a p xs. (a, p) \<in> set level \<and> length xs \<le> Suc n \<and> climbs E a p xs \<and> b = last (a # xs) \<and> q = p @ xs)"
    (is "?L \<longleftrightarrow> ?R")
  proof
    assume ?L
    then consider "(b, q) \<in> set level"
      | y a p xs where "(a, p) \<in> set level" "(y, a) \<in> E" "y \<notin> set p" "length xs \<le> n"
          "climbs E y (p @ [y]) xs" "b = last (y # xs)" "q = (p @ [y]) @ xs"
      unfolding nxt by blast
    then show ?R
    proof cases
      case 1
      then show ?thesis by (intro exI [of _ b] exI [of _ q] exI [of _ "[]"]) simp
    next
      case 2
      then show ?thesis by (intro exI [of _ a] exI [of _ p] exI [of _ "y # xs"]) simp
    qed
  next
    assume ?R
    then obtain a p xs where r: "(a, p) \<in> set level" "length xs \<le> Suc n" "climbs E a p xs" "b = last (a # xs)" "q = p @ xs"
      by blast
    show ?L
    proof (cases xs)
      case Nil
      with r show ?thesis by simp
    next
      case (Cons y ys)
      with r have "(y, p @ [y]) \<in> set ?next" unfolding nxt by auto
      with r Cons show ?thesis
        by (intro disjI2 exI [of _ y] exI [of _ "p @ [y]"] exI [of _ ys]) (simp del: set_concat)
    qed
  qed
  finally show ?case .
qed auto

text \<open>
  \<open>DetectDelegationCycle user from to\<close> answers whether the user's active tasks already lead
  from \<open>from\<close> to \<open>to\<close> over at most twenty delegations whose delegating agents are all different.
  (A new delegation from \<open>from\<close> to \<open>to\<close> closes a cycle when they lead from \<open>to\<close> to \<open>from\<close>.)
\<close>

theorem delegation_cycle_query_meaning:
  assumes "DetectDelegationCycle u from to d = (Inr b, d')"
  shows "b \<longleftrightarrow> (\<exists>path. path \<noteq> [] \<and> length path \<le> 20 \<and> distinct path \<and> last path = from
      \<and> successively (\<lambda>x y. (y, x) \<in> delegates u d) (to # path))"
proof -
  define ts where "ts = filter (\<lambda>t. t_UserID t = u \<and> activeStatus (t_Status t)) (db_tasks d)"
  define start where "start = map (\<lambda>t. (t_FromAgentID t, [t_FromAgentID t])) (filter (\<lambda>t. t_ToAgentID t = to) ts)"
  define E where "E = {(t_FromAgentID t, t_ToAgentID t) | t. t \<in> set ts}"
  have E: "E = delegates u d" by (auto simp: E_def delegates_def ts_def)
  obtain d1 where d1: "statement d = (None, d1)" using assms
    by (auto simp: DetectDelegationCycle_def split: prod.splits option.splits)
  then have "db_tasks d1 = db_tasks d" by (metis statement_tables tables_eqD(3))
  then have b: "b \<longleftrightarrow> (\<exists>q. (from, q) \<in> set (cycleLevels ts 19 start))"
    using assms d1 by (auto simp: DetectDelegationCycle_def ts_def start_def Let_def list_ex_iff)
  have start: "(a, p) \<in> set start \<longleftrightarrow> (a, to) \<in> E \<and> p = [a]" for a p
    by (auto simp: start_def E_def)
  have "b \<longleftrightarrow> (\<exists>a xs. (a, to) \<in> E \<and> length xs \<le> 19 \<and> climbs E a [a] xs \<and> from = last (a # xs))"
    unfolding b set_cycleLevels E_def [symmetric] start by blast
  also have "\<dots> \<longleftrightarrow> (\<exists>path. path \<noteq> [] \<and> length path \<le> 20 \<and> distinct path \<and> last path = from
      \<and> successively (\<lambda>x y. (y, x) \<in> E) (to # path))"
    unfolding climbs_iff
  proof (intro iffI; elim exE conjE)
    fix a xs assume "(a, to) \<in> E" "length xs \<le> 19" "from = last (a # xs)"
      "successively (\<lambda>x y. (y, x) \<in> E) (a # xs)" "distinct xs" "set xs \<inter> set [a] = {}"
    then show "\<exists>path. path \<noteq> [] \<and> length path \<le> 20 \<and> distinct path \<and> last path = from
        \<and> successively (\<lambda>x y. (y, x) \<in> E) (to # path)"
      by (intro exI [of _ "a # xs"]) auto
  next
    fix path assume "path \<noteq> []" "length path \<le> 20" "distinct path" "last path = from"
      "successively (\<lambda>x y. (y, x) \<in> E) (to # path)"
    then show "\<exists>a xs. (a, to) \<in> E \<and> length xs \<le> 19 \<and> (successively (\<lambda>x y. (y, x) \<in> E) (a # xs) \<and> distinct xs
        \<and> set xs \<inter> set [a] = {}) \<and> from = last (a # xs)"
      by (intro exI [of _ "hd path"] exI [of _ "tl path"]) (cases path; auto)
  qed
  finally show ?thesis unfolding E .
qed

text \<open>With one active task, from \<open>lead\<close> to \<open>jun\<close>: repeating it is reported, reversing it is not.\<close>

theorem delegation_cycle_query_meaning_witness:
  "DetectDelegationCycle ''u'' ''lead'' ''jun'' sampleDb = (Inr True, sampleDb)
   \<and> DetectDelegationCycle ''u'' ''jun'' ''lead'' sampleDb = (Inr False, sampleDb)
   \<and> (''lead'', ''jun'') \<in> delegates ''u'' sampleDb"
proof -
  have "delegates ''u'' sampleDb = {(''lead'', ''jun'')}"
  proof -
    have "delegates ''u'' d = set (map (\<lambda>t. (t_FromAgentID t, t_ToAgentID t))
        (filter (\<lambda>t. t_UserID t = ''u'' \<and> activeStatus (t_Status t)) (db_tasks d)))" for d
      by (auto simp: delegates_def)
    also have "map (\<lambda>t. (t_FromAgentID t, t_ToAgentID t))
        (filter (\<lambda>t. t_UserID t = ''u'' \<and> activeStatus (t_Status t)) (db_tasks sampleDb))
      = replicate 3 (''lead'', ''jun'')" by code_simp
    finally show ?thesis by simp
  qed
  moreover obtain b where b: "DetectDelegationCycle ''u'' ''lead'' ''jun'' sampleDb = (Inr b, sampleDb)"
    by (simp add: DetectDelegationCycle_def sampleDb_def)
  moreover obtain c where c: "DetectDelegationCycle ''u'' ''jun'' ''lead'' sampleDb = (Inr c, sampleDb)"
    by (simp add: DetectDelegationCycle_def sampleDb_def)
  moreover have "b"
    using delegation_cycle_query_meaning [OF b] calculation(1)
    by (simp add: exI [of _ "[''lead'']"])
  moreover have "\<not> c"
  proof
    assume c
    with delegation_cycle_query_meaning [OF c] obtain path where
      "path \<noteq> []" "successively (\<lambda>x y. (y, x) \<in> delegates ''u'' sampleDb) (''lead'' # path)" by blast
    then show False using calculation(1) by (cases path) auto
  qed
  ultimately show ?thesis by simp
qed

end
