(* ===== verification/Validator.thy ===== *)
theory Validator
  imports TaskStore SessionStore
begin

text \<open>
  The checks of \<open>bot/delegation/validator.go\<close>: who may delegate to whom (roles, allowlist, cost,
  description), how deep a chain of delegations may get, and whether the dependencies of a task
  run in a circle. The theorems: the exact conditions under which each check lets a delegation
  pass, and that the search for a circle returns and is right.
\<close>

section \<open>Roles, allowlist, cost and description\<close>

record AgentForValidation =
  v_ID :: string
  v_Role :: string
  v_MaxCostPerTask :: rat
  v_MaxDelegationDepth :: int
  v_CanDelegateTo :: "string list"

record ValidationResult =
  Allowed :: bool
  Reason :: string

definition allowed :: ValidationResult where
  "allowed = \<lparr>Allowed = True, Reason = []\<rparr>"

definition refused :: "string \<Rightarrow> ValidationResult" where
  "refused reason = \<lparr>Allowed = False, Reason = reason\<rparr>"

definition roleHierarchy :: "string \<Rightarrow> nat option" where
  "roleHierarchy = [''lead'' \<mapsto> 2, ''senior'' \<mapsto> 1, ''junior'' \<mapsto> 0]"

definition roleCanDelegateTo :: "string \<Rightarrow> string list option" where
  "roleCanDelegateTo = [''lead'' \<mapsto> [''senior'', ''junior''], ''senior'' \<mapsto> [''junior''], ''junior'' \<mapsto> []]"

text \<open>\<open>fmt\<close>'s \<open>%.2f\<close>: two decimals, rounded to nearest, a tie to the even digit.\<close>

definition roundEven :: "rat \<Rightarrow> nat" where
  "roundEven x =
     (let f = nat (floor x); r = x - of_nat f
      in if r < 1 / 2 then f else if r > 1 / 2 then Suc f else if even f then f else Suc f)"

definition fmtF2 :: "rat \<Rightarrow> string" where
  "fmtF2 x =
     (let n = roundEven (abs x * 100); c = n mod 100
      in (if x < 0 then ''-'' else []) @ Itoa (n div 100) @ ''.'' @ (if c < 10 then ''0'' else []) @ Itoa c)"

definition descriptionMinLength :: nat where "descriptionMinLength = 1"
definition descriptionMaxLength :: nat where "descriptionMaxLength = 2000"
definition maxDepthQueries :: nat where "maxDepthQueries = 20"

definition ValidateDelegation ::
    "AgentForValidation \<Rightarrow> AgentForValidation \<Rightarrow> string \<Rightarrow> rat option \<Rightarrow> ValidationResult" where
  "ValidateDelegation fromAgent toAgent description maxCostUSD =
     (if v_ID fromAgent = v_ID toAgent then
        refused ''An agent cannot delegate work to itself. Choose a different target agent.''
      else if roleHierarchy (v_Role fromAgent) = None \<or> roleHierarchy (v_Role fromAgent) = Some 0 then
        refused ''Junior agents cannot delegate work. Only senior and lead agents can delegate. Change the agent's role to senior or lead in the dashboard.''
      else if (case roleCanDelegateTo (v_Role fromAgent) of None \<Rightarrow> True | Some ts \<Rightarrow> v_Role toAgent \<notin> set ts) then
        refused (''A '' @ v_Role fromAgent @ '' agent cannot delegate to a '' @ v_Role toAgent @ '' agent. '' @
          (if v_Role fromAgent = ''senior''
           then ''Senior agents can only delegate to junior agents. Choose a junior agent.''
           else ''Lead agents can delegate to senior or junior agents. Choose an appropriate target agent.''))
      else if v_CanDelegateTo fromAgent \<noteq> [] \<and> v_ID toAgent \<notin> set (v_CanDelegateTo fromAgent) then
        refused ''This agent is not authorized to delegate to the selected target agent. Add the target agent to the delegation allowlist in the dashboard under agent settings.''
      else if (case maxCostUSD of None \<Rightarrow> False | Some c \<Rightarrow> c > v_MaxCostPerTask fromAgent) then
        refused (''Task cost limit ($'' @ fmtF2 (the maxCostUSD) @ '') exceeds this agent's maximum allowed cost ($'' @
          fmtF2 (v_MaxCostPerTask fromAgent) @ ''). Either lower the cost limit for this task or increase the agent's maximum cost in the dashboard.'')
      else if length description < descriptionMinLength then
        refused ''Task description is required and cannot be empty. Provide a clear description of what the agent should do.''
      else if length description > descriptionMaxLength then
        refused (''Task description is too long ('' @ Itoa (length description) @ '' characters). Maximum is '' @
          Itoa descriptionMaxLength @ '' characters. Try breaking this into multiple smaller tasks.'')
      else allowed)"

section \<open>Depth\<close>

text \<open>The recursive query: the tasks whose child is the session, then their parents' tasks, level by level.\<close>

fun ancestorLevels :: "string \<Rightarrow> DelegatedTask list \<Rightarrow> nat \<Rightarrow> DelegatedTask list \<Rightarrow> DelegatedTask list" where
  "ancestorLevels userID ts 0 level = level"
| "ancestorLevels userID ts (Suc n) level =
     level @ ancestorLevels userID ts n
       (concat (map (\<lambda>c. filter (\<lambda>t. t_UserID t = userID \<and> sqlEq (t_ChildSessionID t) (t_ParentSessionID c)) ts) level))"

definition ancestors :: "string \<Rightarrow> string \<Rightarrow> db \<Rightarrow> DelegatedTask list" where
  "ancestors sessionID userID d =
     ancestorLevels userID (db_tasks d) (maxDepthQueries - 1)
       (filter (\<lambda>t. t_ChildSessionID t = Some sessionID \<and> t_UserID t = userID) (db_tasks d))"

text \<open>The loop over the ancestors' child sessions; a missing one is the empty string.\<close>

fun revisits :: "string list \<Rightarrow> string list \<Rightarrow> bool" where
  "revisits visited [] = False"
| "revisits visited (c # cs) =
     (if c \<noteq> [] \<and> c \<in> set visited then True
      else revisits (if c \<noteq> [] then c # visited else visited) cs)"

definition childOrEmpty :: "DelegatedTask \<Rightarrow> string" where
  "childOrEmpty t = (case t_ChildSessionID t of None \<Rightarrow> [] | Some c \<Rightarrow> c)"

definition showInt :: "int \<Rightarrow> string" where
  "showInt i = (if i < 0 then ''-'' @ Itoa (nat (- i)) else Itoa (nat i))"

definition ValidateDelegationDepth :: "string \<Rightarrow> string \<Rightarrow> int \<Rightarrow> db \<Rightarrow> ValidationResult result \<times> db" where
  "ValidateDelegationDepth parentSessionID userID maxDepth d =
     (if parentSessionID = [] then (Inr allowed, d)
      else if maxDepth = 0 then
        (Inr (refused ''This agent cannot delegate. Change the agent's role to allow delegation.''), d)
      else if \<not> validSessionID parentSessionID then (Inr allowed, d)
      else
        tryCall ''check parent session'' (GetSession parentSessionID userID) (\<lambda>parent d1.
          if parent = None then
            (Inr (refused ''Parent session not found. The delegating session may have been deleted.''), d1)
          else
            case queryRows ''query delegation chain'' ''scan chain row'' ''iterate chain''
                   (ancestors parentSessionID userID) d1 of
              (Inl e, d2) \<Rightarrow> (Inl e, d2)
            | (Inr allAncestors, d2) \<Rightarrow>
                if allAncestors = [] then (Inr allowed, d2)
                else if revisits [parentSessionID] (map childOrEmpty allAncestors) then
                  (Inr (refused ''Circular delegation detected. This would create an infinite loop.''), d2)
                else if int (length allAncestors) \<ge> maxDepth then
                  (Inr (refused (''Maximum delegation depth ('' @ showInt maxDepth @
                     '') exceeded. This prevents chains from becoming too deep.'')), d2)
                else (Inr allowed, d2)) d)"

section \<open>Circular dependencies\<close>

record TaskForCycle =
  q_ID :: string
  q_BlockedBy :: "string list"

text \<open>The adjacency map: a later entry for an id replaces an earlier one; a missing id has no dependencies.\<close>

definition adjacency :: "string \<Rightarrow> string list \<Rightarrow> TaskForCycle list \<Rightarrow> string \<Rightarrow> string list" where
  "adjacency taskID blockedBy existingTasks n =
     (if n = taskID then blockedBy
      else case List.find (\<lambda>t. q_ID t = n) (rev existingTasks) of None \<Rightarrow> [] | Some t \<Rightarrow> q_BlockedBy t)"

text \<open>
  The recursive closure \<open>hasCycle\<close> with its two maps as lists; \<open>None\<close> is running out of fuel. The
  maps are returned with the answer, as the closure changes them in place.
\<close>

fun hasCycle :: "nat \<Rightarrow> (string \<Rightarrow> string list) \<Rightarrow> string \<Rightarrow> string list \<Rightarrow> string list
      \<Rightarrow> (bool \<times> string list \<times> string list) option"
  and anyCycle :: "nat \<Rightarrow> (string \<Rightarrow> string list) \<Rightarrow> string list \<Rightarrow> string list \<Rightarrow> string list
      \<Rightarrow> (bool \<times> string list \<times> string list) option" where
  "hasCycle 0 adj nodeID visited inStack = None"
| "hasCycle (Suc n) adj nodeID visited inStack =
     (if nodeID \<in> set inStack then Some (True, visited, inStack)
      else if nodeID \<in> set visited then Some (False, visited, inStack)
      else
        case anyCycle n adj (adj nodeID) (nodeID # visited) (nodeID # inStack) of
          None \<Rightarrow> None
        | Some (True, vis, stk) \<Rightarrow> Some (True, vis, stk)
        | Some (False, vis, stk) \<Rightarrow> Some (False, vis, removeAll nodeID stk))"
| "anyCycle n adj [] visited inStack = Some (False, visited, inStack)"
| "anyCycle n adj (depID # deps) visited inStack =
     (case hasCycle n adj depID visited inStack of
        None \<Rightarrow> None
      | Some (True, vis, stk) \<Rightarrow> Some (True, vis, stk)
      | Some (False, vis, stk) \<Rightarrow> anyCycle n adj deps vis stk)"

text \<open>Every node is entered at most once, so the number of ids named anywhere bounds the depth.\<close>

definition cycleFuel :: "string list \<Rightarrow> TaskForCycle list \<Rightarrow> nat" where
  "cycleFuel blockedBy existingTasks =
     2 + length blockedBy + sum_list (map (\<lambda>t. Suc (length (q_BlockedBy t))) existingTasks)"

definition DetectCyclesInBlockedBy :: "string \<Rightarrow> string list \<Rightarrow> TaskForCycle list \<Rightarrow> bool option" where
  "DetectCyclesInBlockedBy taskID blockedBy existingTasks =
     map_option fst (hasCycle (cycleFuel blockedBy existingTasks) (adjacency taskID blockedBy existingTasks) taskID [] [])"

section \<open>What the checks decide\<close>

lemma delegation_allowed_facts:
  "Allowed (ValidateDelegation f t description cost) \<longleftrightarrow>
     v_ID f \<noteq> v_ID t
     \<and> (\<exists>a b. roleHierarchy (v_Role f) = Some a \<and> roleHierarchy (v_Role t) = Some b \<and> b < a)
     \<and> (v_CanDelegateTo f = [] \<or> v_ID t \<in> set (v_CanDelegateTo f))
     \<and> (case cost of None \<Rightarrow> True | Some c \<Rightarrow> c \<le> v_MaxCostPerTask f)
     \<and> 1 \<le> length description \<and> length description \<le> 2000"
proof -
  have roles: "(case roleCanDelegateTo (v_Role f) of None \<Rightarrow> False | Some ts \<Rightarrow> v_Role t \<in> set ts)
      \<longleftrightarrow> (\<exists>a b. roleHierarchy (v_Role f) = Some a \<and> roleHierarchy (v_Role t) = Some b \<and> b < a)"
    by (auto simp: roleHierarchy_def roleCanDelegateTo_def)
  moreover have "roleHierarchy (v_Role f) \<noteq> None \<and> roleHierarchy (v_Role f) \<noteq> Some 0"
    if "\<exists>a b. roleHierarchy (v_Role f) = Some a \<and> roleHierarchy (v_Role t) = Some b \<and> b < a"
    using that by auto
  ultimately show ?thesis
    unfolding ValidateDelegation_def allowed_def refused_def descriptionMinLength_def descriptionMaxLength_def
    by (auto simp: not_less not_le Suc_le_eq split: option.splits)
qed

text \<open>
  C12. \<open>ValidateDelegation\<close> lets a delegation pass exactly when the target is another agent of a strictly lower
  role, the allowlist is empty or names the target, the cost limit (if any) is within the delegating
  agent's, and the description has 1 to 2000 bytes.
\<close>

theorem delegation_allowed_iff:
  "Allowed (ValidateDelegation f t description cost) \<longleftrightarrow>
     v_ID f \<noteq> v_ID t
     \<and> (\<exists>a b. roleHierarchy (v_Role f) = Some a \<and> roleHierarchy (v_Role t) = Some b \<and> b < a)
     \<and> (v_CanDelegateTo f = [] \<or> v_ID t \<in> set (v_CanDelegateTo f))
     \<and> (case cost of None \<Rightarrow> True | Some c \<Rightarrow> c \<le> v_MaxCostPerTask f)
     \<and> 1 \<le> length description \<and> length description \<le> 2000"
  by (rule delegation_allowed_facts)

lemma ancestorLevels_Nil [simp]: "ancestorLevels u ts n [] = []"
  by (induction n) simp_all

lemma ancestorLevels_head: "\<exists>r. ancestorLevels u ts n (t # l) = t # r"
  by (cases n) simp_all

lemma ancestors_cases:
  fixes p u d
  defines "ps \<equiv> filter (\<lambda>t. t_ChildSessionID t = Some p \<and> t_UserID t = u) (db_tasks d)"
  shows "ancestors p u d = [] \<longleftrightarrow> ps = []"
    and "ps \<noteq> [] \<Longrightarrow> p \<noteq> [] \<Longrightarrow> revisits [p] (map childOrEmpty (ancestors p u d))"
proof -
  show "ancestors p u d = [] \<longleftrightarrow> ps = []"
  proof (cases ps)
    case Nil
    then show ?thesis by (simp add: ancestors_def ps_def)
  next
    case (Cons t l)
    with ancestorLevels_head [of u "db_tasks d" "maxDepthQueries - 1" t l] show ?thesis
      unfolding ancestors_def ps_def by auto
  qed
  assume "ps \<noteq> []" "p \<noteq> []"
  then obtain t l where tl: "ps = t # l" by (cases ps) auto
  then have "t \<in> set ps" by simp
  then have "childOrEmpty t = p" by (simp add: ps_def childOrEmpty_def)
  moreover obtain r where "ancestors p u d = t # r"
    using ancestorLevels_head [of u "db_tasks d" "maxDepthQueries - 1" t l] tl unfolding ancestors_def ps_def by auto
  ultimately show "revisits [p] (map childOrEmpty (ancestors p u d))" using \<open>p \<noteq> []\<close> by simp
qed

text \<open>
  \<open>ValidateDelegationDepth\<close> lets a session delegate exactly when there is no session, or the
  depth limit is not zero and the session id is malformed or belongs to a session of the user that is not itself
  the child of a delegated task. The limit itself plays no further part: a session that was
  started by a delegation can never delegate.
\<close>

theorem depth_check_decision:
  assumes "ValidateDelegationDepth p u maxDepth d = (Inr r, d')"
  shows "Allowed r \<longleftrightarrow> p = [] \<or> maxDepth \<noteq> 0 \<and>
    (\<not> validSessionID p \<or>
      list_ex (sessionIs p u) (db_sessions d)
      \<and> \<not> list_ex (\<lambda>t. t_ChildSessionID t = Some p \<and> t_UserID t = u) (db_tasks d))"
proof (cases "p = [] \<or> maxDepth = 0 \<or> \<not> validSessionID p")
  case True
  then show ?thesis using assms by (auto simp: ValidateDelegationDepth_def allowed_def refused_def split: if_splits)
next
  case False
  then obtain s d1 where g: "GetSession p u d = (Inr s, d1)"
    using assms by (auto simp: ValidateDelegationDepth_def tryCall_def split: prod.splits sum.splits)
  have same: "tables d1 = tables d" and s: "s = List.find (sessionIs p u) (db_sessions d1)"
    using queryRow_tables queryRow_result g unfolding GetSession_def by blast+
  have ses: "s = None \<longleftrightarrow> \<not> list_ex (sessionIs p u) (db_sessions d)"
    unfolding s using tables_eqD(2) [OF same] by (simp add: find_None_iff_all list_ex_iff)
  show ?thesis
  proof (cases "s = None")
    case True
    then show ?thesis using assms False g ses
      by (auto simp: ValidateDelegationDepth_def tryCall_def refused_def)
  next
    case some: False
    obtain rows d2 where q: "queryRows ''query delegation chain'' ''scan chain row'' ''iterate chain'' (ancestors p u) d1 = (Inr rows, d2)"
      using assms False g some by (auto simp: ValidateDelegationDepth_def tryCall_def split: prod.splits sum.splits)
    have "rows = ancestors p u d1" using q by (rule queryRows_result) (simp add: ancestors_def tables_def)
    then have rows: "rows = ancestors p u d" using tables_eqD(3) [OF same] by (simp add: ancestors_def)
    have child: "list_ex (\<lambda>t. t_ChildSessionID t = Some p \<and> t_UserID t = u) (db_tasks d) \<longleftrightarrow> rows \<noteq> []"
      unfolding rows ancestors_cases(1) by (auto simp: list_ex_iff filter_empty_conv)
    have "rows \<noteq> [] \<Longrightarrow> revisits [p] (map childOrEmpty rows)"
      using ancestors_cases [of p u d] False unfolding rows by blast
    then show ?thesis using assms False g some q child ses
      by (auto simp: ValidateDelegationDepth_def tryCall_def allowed_def refused_def split: if_splits)
  qed
qed

section \<open>The search for a circle\<close>

definition deps :: "(string \<Rightarrow> string list) \<Rightarrow> (string \<times> string) set" where
  "deps adj = {(a, b). b \<in> set (adj a)}"

lemma hasCycle_Suc_cases:
  assumes "hasCycle (Suc n) adj v vis stk = Some (b, vis', stk')"
  obtains (onStack) "v \<in> set stk" "b" "vis' = vis" "stk' = stk"
  | (seen) "v \<notin> set stk" "v \<in> set vis" "\<not> b" "vis' = vis" "stk' = stk"
  | (entered) s where "v \<notin> set stk" "v \<notin> set vis" "anyCycle n adj (adj v) (v # vis) (v # stk) = Some (b, vis', s)"
      "stk' = (if b then s else removeAll v s)"
  using assms that by (auto split: if_splits option.splits prod.splits bool.splits)

lemma anyCycle_Cons_cases:
  assumes "anyCycle n adj (d # ds) vis stk = Some (b, vis', stk')"
  obtains (found) "b" "hasCycle n adj d vis stk = Some (True, vis', stk')"
  | (rest) v1 s1 where "hasCycle n adj d vis stk = Some (False, v1, s1)" "anyCycle n adj ds v1 s1 = Some (b, vis', stk')"
  using assms that by (auto split: option.splits prod.splits bool.splits)

lemma anyCycle_stack:
  assumes "\<And>v vis stk vis' stk'. hasCycle n adj v vis stk = Some (False, vis', stk') \<Longrightarrow> stk' = stk"
  shows "anyCycle n adj ds vis stk = Some (False, vis', stk') \<Longrightarrow> stk' = stk"
proof (induction ds arbitrary: vis stk)
  case (Cons d ds)
  from Cons.prems show ?case by (cases rule: anyCycle_Cons_cases) (use assms Cons.IH in blast)+
qed simp

lemma hasCycle_stack: "hasCycle n adj v vis stk = Some (False, vis', stk') \<Longrightarrow> stk' = stk"
proof (induction n arbitrary: v vis stk vis' stk')
  case (Suc n)
  from Suc.prems show ?case
  proof (cases rule: hasCycle_Suc_cases)
    case (entered s)
    then have "s = v # stk" using anyCycle_stack [of n adj] Suc.IH by blast
    with entered show ?thesis by simp
  qed simp_all
qed simp

lemma anyCycle_grows:
  assumes "\<And>v vis stk b vis' stk'. hasCycle n adj v vis stk = Some (b, vis', stk') \<Longrightarrow> set vis \<subseteq> set vis'"
  shows "anyCycle n adj ds vis stk = Some (b, vis', stk') \<Longrightarrow> set vis \<subseteq> set vis'"
proof (induction ds arbitrary: vis stk)
  case (Cons d ds)
  from Cons.prems show ?case
  proof (cases rule: anyCycle_Cons_cases)
    case found
    then show ?thesis using assms by blast
  next
    case (rest v1 s1)
    then show ?thesis using assms Cons.IH by (meson subset_trans)
  qed
qed simp

lemma hasCycle_grows: "hasCycle n adj v vis stk = Some (b, vis', stk') \<Longrightarrow> set vis \<subseteq> set vis'"
proof (induction n arbitrary: v vis stk b vis' stk')
  case (Suc n)
  from Suc.prems show ?case
  proof (cases rule: hasCycle_Suc_cases)
    case (entered s)
    from anyCycle_grows [OF Suc.IH this(3)] show ?thesis by simp
  qed simp_all
qed simp

text \<open>An answer \<open>true\<close>: the stack leads to the current node, so meeting a node of the stack closes a circle.\<close>

definition reachesCircle :: "(string \<Rightarrow> string list) \<Rightarrow> string \<Rightarrow> bool" where
  "reachesCircle adj v \<longleftrightarrow> (\<exists>x. (v, x) \<in> (deps adj)\<^sup>* \<and> (x, x) \<in> (deps adj)\<^sup>+)"

lemma reachesCircle_step: "e \<in> set (adj v) \<Longrightarrow> reachesCircle adj e \<Longrightarrow> reachesCircle adj v"
  unfolding reachesCircle_def deps_def by (meson case_prodI converse_rtrancl_into_rtrancl mem_Collect_eq)

lemma anyCycle_sound:
  assumes "\<And>v vis stk vis' stk'. hasCycle n adj v vis stk = Some (True, vis', stk') \<Longrightarrow>
      \<forall>s \<in> set stk. (s, v) \<in> (deps adj)\<^sup>+ \<Longrightarrow> reachesCircle adj v"
  shows "anyCycle n adj ds vis stk = Some (True, vis', stk') \<Longrightarrow>
      \<forall>s \<in> set stk. \<forall>e \<in> set ds. (s, e) \<in> (deps adj)\<^sup>+ \<Longrightarrow> \<exists>e \<in> set ds. reachesCircle adj e"
proof (induction ds arbitrary: vis stk)
  case (Cons d ds)
  from Cons.prems(1) show ?case
  proof (cases rule: anyCycle_Cons_cases)
    case found
    then show ?thesis using assms Cons.prems(2) by (meson list.set_intros(1))
  next
    case (rest v1 s1)
    then have "s1 = stk" using hasCycle_stack by blast
    with rest Cons.IH [of v1 s1] Cons.prems(2) show ?thesis by (meson list.set_intros(2))
  qed
qed simp

lemma hasCycle_sound:
  "hasCycle n adj v vis stk = Some (True, vis', stk') \<Longrightarrow> \<forall>s \<in> set stk. (s, v) \<in> (deps adj)\<^sup>+ \<Longrightarrow> reachesCircle adj v"
proof (induction n arbitrary: v vis stk vis' stk')
  case (Suc n)
  from Suc.prems(1) show ?case
  proof (cases rule: hasCycle_Suc_cases)
    case onStack
    with Suc.prems(2) show ?thesis unfolding reachesCircle_def by blast
  next
    case (entered s)
    have edge: "(v, e) \<in> deps adj" if "e \<in> set (adj v)" for e using that by (simp add: deps_def)
    have lead: "\<forall>s \<in> set (v # stk). \<forall>e \<in> set (adj v). (s, e) \<in> (deps adj)\<^sup>+"
      using Suc.prems(2) edge by (auto intro: trancl_into_trancl)
    have "\<exists>e \<in> set (adj v). reachesCircle adj e"
      by (rule anyCycle_sound [OF _ entered(3) lead]) (rule Suc.IH)
    then show ?thesis using reachesCircle_step by blast
  qed simp
qed simp

text \<open>An answer \<open>false\<close>: the nodes left behind are closed under dependencies and on no circle.\<close>

definition settled :: "(string \<Rightarrow> string list) \<Rightarrow> string list \<Rightarrow> string list \<Rightarrow> bool" where
  "settled adj vis stk \<longleftrightarrow> set stk \<subseteq> set vis
     \<and> (\<forall>x \<in> set vis - set stk. set (adj x) \<subseteq> set vis - set stk \<and> (x, x) \<notin> (deps adj)\<^sup>+)"

lemma settled_closed:
  assumes "settled adj vis stk" "x \<in> set vis - set stk" "(x, y) \<in> (deps adj)\<^sup>*"
  shows "y \<in> set vis - set stk"
  using assms(3,2)
proof (induction rule: rtrancl_induct)
  case (step y z)
  then show ?case using assms(1) by (auto simp: settled_def deps_def)
qed simp

lemma settled_pop:
  assumes "settled adj vis (v # stk)" "v \<notin> set stk" "set (adj v) \<subseteq> set vis - set (v # stk)"
  shows "settled adj vis stk"
proof -
  have "(v, v) \<notin> (deps adj)\<^sup>+"
  proof
    assume "(v, v) \<in> (deps adj)\<^sup>+"
    then obtain e where e: "(v, e) \<in> deps adj" "(e, v) \<in> (deps adj)\<^sup>*" by (meson tranclD)
    then have "e \<in> set vis - set (v # stk)" using assms(3) by (auto simp: deps_def)
    from settled_closed [OF assms(1) this e(2)] show False by simp
  qed
  with assms show ?thesis by (auto simp: settled_def)
qed

lemma anyCycle_complete:
  assumes "\<And>v vis stk vis' stk'. hasCycle n adj v vis stk = Some (False, vis', stk') \<Longrightarrow> settled adj vis stk \<Longrightarrow>
      settled adj vis' stk \<and> v \<in> set vis' - set stk"
  shows "anyCycle n adj ds vis stk = Some (False, vis', stk') \<Longrightarrow> settled adj vis stk \<Longrightarrow>
      settled adj vis' stk \<and> set ds \<subseteq> set vis' - set stk"
proof (induction ds arbitrary: vis stk)
  case (Cons d ds)
  from Cons.prems(1) show ?case
  proof (cases rule: anyCycle_Cons_cases)
    case (rest v1 s1)
    then have s1: "s1 = stk" using hasCycle_stack by blast
    have d: "settled adj v1 stk" "d \<in> set v1 - set stk" using assms [OF rest(1) Cons.prems(2)] by auto
    have "set v1 \<subseteq> set vis'" using anyCycle_grows [OF hasCycle_grows rest(2)] .
    with Cons.IH [of v1 s1] rest(2) s1 d show ?thesis by auto
  qed simp
qed simp

lemma hasCycle_complete:
  "hasCycle n adj v vis stk = Some (False, vis', stk') \<Longrightarrow> settled adj vis stk \<Longrightarrow>
     settled adj vis' stk \<and> v \<in> set vis' - set stk"
proof (induction n arbitrary: v vis stk vis' stk')
  case (Suc n)
  from Suc.prems(1) show ?case
  proof (cases rule: hasCycle_Suc_cases)
    case (entered s)
    have push: "settled adj (v # vis) (v # stk)"
      using Suc.prems(2) entered by (auto simp: settled_def)
    have any: "settled adj vis' (v # stk) \<and> set (adj v) \<subseteq> set vis' - set (v # stk)"
      by (rule anyCycle_complete [OF _ entered(3) push]) (rule Suc.IH)
    then have sub: "settled adj vis' (v # stk)" "set (adj v) \<subseteq> set vis' - set (v # stk)" by blast+
    from settled_pop [OF sub(1) entered(1) sub(2)] have "settled adj vis' stk" .
    moreover have "v \<in> set vis'" using sub(1) by (simp add: settled_def)
    ultimately show ?thesis using entered(1) by simp
  qed (use Suc.prems(2) in simp_all)
qed simp

text \<open>Fuel: every node entered is new and among the ids named.\<close>

lemma anyCycle_returns:
  assumes "\<And>v vis stk. v \<in> U \<Longrightarrow> card (U - set vis) < n \<Longrightarrow> hasCycle n adj v vis stk \<noteq> None" "finite U"
  shows "set ds \<subseteq> U \<Longrightarrow> card (U - set vis) < n \<Longrightarrow> anyCycle n adj ds vis stk \<noteq> None"
proof (induction ds arbitrary: vis stk)
  case (Cons d ds)
  obtain b v1 s1 where h: "hasCycle n adj d vis stk = Some (b, v1, s1)"
    using assms(1) [of d vis stk] Cons.prems by (cases "hasCycle n adj d vis stk") auto
  then have "set vis \<subseteq> set v1" by (rule hasCycle_grows)
  then have "card (U - set v1) \<le> card (U - set vis)" using assms(2) by (intro card_mono) auto
  with Cons h show ?case by (cases b) auto
qed simp

lemma hasCycle_returns:
  assumes "finite U" "\<And>v. v \<in> U \<Longrightarrow> set (adj v) \<subseteq> U"
  shows "v \<in> U \<Longrightarrow> card (U - set vis) < n \<Longrightarrow> hasCycle n adj v vis stk \<noteq> None"
proof (induction n arbitrary: v vis stk)
  case (Suc n)
  show ?case
  proof (cases "v \<in> set vis \<or> v \<in> set stk")
    case False
    then have "card (U - set (v # vis)) < card (U - set vis)"
      using Suc.prems(1) assms(1) by (intro psubset_card_mono) auto
    then have "anyCycle n adj (adj v) (v # vis) (v # stk) \<noteq> None"
      using Suc.prems assms by (intro anyCycle_returns [where U = U] Suc.IH) auto
    with False show ?thesis by (auto split: bool.splits)
  qed auto
qed simp

definition namedIDs :: "string \<Rightarrow> string list \<Rightarrow> TaskForCycle list \<Rightarrow> string list" where
  "namedIDs taskID blockedBy tasks = taskID # blockedBy @ concat (map (\<lambda>t. q_ID t # q_BlockedBy t) tasks)"

lemma length_namedIDs: "length (namedIDs t bs ex) < cycleFuel bs ex"
  by (simp add: namedIDs_def cycleFuel_def length_concat comp_def)

lemma adjacency_named: "set (adjacency t bs ex v) \<subseteq> set (namedIDs t bs ex)"
proof -
  have "set (q_BlockedBy u) \<subseteq> set (namedIDs t bs ex)" if "List.find (\<lambda>t. q_ID t = v) (rev ex) = Some u" for u
    using find_Some_iff_mem [OF that] by (auto simp: namedIDs_def)
  then show ?thesis
    by (cases "List.find (\<lambda>t. q_ID t = v) (rev ex)") (auto simp: adjacency_def namedIDs_def)
qed

text \<open>
  C13. The search for circular dependencies returns an answer on every input, and the answer is
  right: it is \<open>true\<close> exactly when following the dependencies from the task leads into a circle.
\<close>

theorem circular_dependency_check_is_exact:
  "\<exists>b. DetectCyclesInBlockedBy taskID blockedBy existing = Some b
     \<and> (b \<longleftrightarrow> (\<exists>x. (taskID, x) \<in> {(a, b). b \<in> set (adjacency taskID blockedBy existing a)}\<^sup>*
               \<and> (x, x) \<in> {(a, b). b \<in> set (adjacency taskID blockedBy existing a)}\<^sup>+))"
proof -
  let ?adj = "adjacency taskID blockedBy existing" and ?n = "cycleFuel blockedBy existing"
  let ?U = "set (namedIDs taskID blockedBy existing)"
  have "card (?U - set []) < ?n"
    using card_length [of "namedIDs taskID blockedBy existing"] length_namedIDs [of taskID blockedBy existing] by simp
  then have "hasCycle ?n ?adj taskID [] [] \<noteq> None"
    using adjacency_named by (intro hasCycle_returns [where U = ?U]) (auto simp: namedIDs_def)
  then obtain b vis stk where h: "hasCycle ?n ?adj taskID [] [] = Some (b, vis, stk)" by auto
  have "b \<longleftrightarrow> reachesCircle ?adj taskID"
  proof (cases b)
    case True
    then show ?thesis using hasCycle_sound [of ?n ?adj taskID "[]" "[]" vis stk] h by simp
  next
    case False
    then have st: "settled ?adj vis []" "taskID \<in> set vis - set []"
      using hasCycle_complete [of ?n ?adj taskID "[]" "[]" vis stk] h by (simp_all add: settled_def)
    have "(x, x) \<notin> (deps ?adj)\<^sup>+" if "(taskID, x) \<in> (deps ?adj)\<^sup>*" for x
      using settled_closed [OF st that] st(1) by (simp add: settled_def)
    with False show ?thesis by (auto simp: reachesCircle_def)
  qed
  then show ?thesis using h by (simp add: DetectCyclesInBlockedBy_def reachesCircle_def deps_def)
qed

definition nestedDb :: db where
  "nestedDb = sampleDb\<lparr>db_sessions := [(sampleSession ''childsession000000000001'')\<lparr>s_UserID := ''u''\<rparr>],
     db_tasks := [(sampleTask ''t1'' 50 [])\<lparr>t_ChildSessionID := Some ''childsession000000000001''\<rparr>]\<rparr>"

theorem depth_check_decision_witness:
  "\<exists>r. ValidateDelegationDepth ''childsession000000000001'' ''u'' 5 nestedDb = (Inr r, nestedDb) \<and> \<not> Allowed r"
proof -
  have "isl (fst (ValidateDelegationDepth ''childsession000000000001'' ''u'' 5 nestedDb)) = False" by code_simp
  then obtain r d' where v: "ValidateDelegationDepth ''childsession000000000001'' ''u'' 5 nestedDb = (Inr r, d')"
    by (metis prod.collapse sum.collapse(2))
  have "validSessionID ''childsession000000000001''" by code_simp
  moreover have "list_ex (\<lambda>t. t_ChildSessionID t = Some ''childsession000000000001'' \<and> t_UserID t = ''u'') (db_tasks nestedDb)"
    by (simp add: nestedDb_def sampleTask_def)
  ultimately have "\<not> Allowed r" using depth_check_decision [OF v] by simp
  moreover have "d' = nestedDb"
    using v by (auto simp: ValidateDelegationDepth_def tryCall_def GetSession_def nestedDb_def sampleDb_def split: if_splits)
  ultimately show ?thesis using v by blast
qed

end
