(* ===== verification/Delegation.thy ===== *)
theory Delegation
  imports Validator
begin

text \<open>
  Delegating work: \<open>bot/delegation/delegation.go\<close> (\<open>Delegate\<close>, \<open>OnTaskComplete\<close>,
  \<open>OnTaskFailed\<close>), \<open>scheduler.go\<close> (\<open>EnqueueTask\<close>, \<open>ResolveDependencies\<close>, \<open>CancelTask\<close>), \<open>events.go\<close>
  (\<open>LogDelegation\<close>) and the statements of \<open>go-shared/delegation_events.go\<close> and
  \<open>go-shared/agents.go\<close> they use. The building of the context for the target agent
  (\<open>context.go\<close>, which asks a language model for a summary) is an argument of \<open>Delegate\<close>; the theorems assume of it that it
  reads the store without changing it.

  The theorems: what a delegation checks and stores, the invariant of the task table over every
  run of the operations, that a finished task blocks nobody, and what a cancellation changes.
\<close>

section \<open>Agents and events\<close>

definition GetAgent :: "string \<Rightarrow> string \<Rightarrow> db \<Rightarrow> Agent option result \<times> db" where
  "GetAgent aid userID =
     queryRow ''get agent'' (\<lambda>d. List.find (\<lambda>a. a_ID a = aid \<and> a_UserID a = userID) (db_agents d))"

definition CreateDelegationEvent :: "DelegationEvent \<Rightarrow> db \<Rightarrow> unit result \<times> db" where
  "CreateDelegationEvent e d =
     (let (eid, d1) = newID d;
          (now, d2) = timeNow d1;
          row = e\<lparr>e_ID := eid, e_Timestamp := now\<rparr>
      in execChecked ''create delegation event''
           (\<lambda>d. if list_ex (\<lambda>r. e_ID r = eid) (db_events d) then Some duplicateKey else None)
           (\<lambda>d. d\<lparr>db_events := db_events d @ [row]\<rparr>) d2)"

definition GetDelegationEvents :: "string \<Rightarrow> int \<Rightarrow> db \<Rightarrow> DelegationEvent list result \<times> db" where
  "GetDelegationEvents userID limit =
     queryPage ''get delegation events'' ''scan delegation event'' ''iterate delegation events'' limit 0
       (\<lambda>d. orderDesc e_Timestamp (filter (\<lambda>e. e_UserID e = userID) (db_events d)))"

record LogDelegationOptions =
  g_UserID :: string
  g_FromSessionID :: string
  g_ToSessionID :: "string option"
  g_FromAgentID :: string
  g_ToAgentID :: string
  g_Action :: string
  g_Reason :: string
  g_CostUSD :: "rat option"

text \<open>\<open>[\x00-\x1F\x7F]\<close> and \<open>[^\x20-\x7E\n]\<close>: of a character outside ASCII every byte is removed.\<close>

definition controlChar :: "char \<Rightarrow> bool" where
  "controlChar c = ((of_char c :: nat) < 32 \<or> (of_char c :: nat) = 127)"

definition nonPrintable :: "char \<Rightarrow> bool" where
  "nonPrintable c = (\<not> (32 \<le> (of_char c :: nat) \<and> (of_char c :: nat) \<le> 126) \<and> (of_char c :: nat) \<noteq> 10)"

definition sanitizeReason :: "string \<Rightarrow> string" where
  "sanitizeReason r = take 4000 (filter (\<lambda>c. \<not> nonPrintable c) (filter (\<lambda>c. \<not> controlChar c) r))"

definition LogDelegation :: "LogDelegationOptions \<Rightarrow> db \<Rightarrow> unit result \<times> db" where
  "LogDelegation opts d =
     (let reason = sanitizeReason (g_Reason opts);
          event = \<lparr>e_ID = [], e_UserID = g_UserID opts, e_FromSessionID = g_FromSessionID opts,
                   e_ToSessionID = g_ToSessionID opts, e_FromAgentID = g_FromAgentID opts,
                   e_ToAgentID = g_ToAgentID opts, e_Action = g_Action opts,
                   e_Reason = (if reason = [] then None else Some reason),
                   e_CostUSD = g_CostUSD opts, e_Timestamp = 0\<rparr>
      in if (case g_CostUSD opts of None \<Rightarrow> False | Some c \<Rightarrow> c < 0 \<or> c > 10000) then (Inr (), d)
         else tryCall ''create delegation event'' (CreateDelegationEvent event) (\<lambda>_ d1. (Inr (), d1)) d)"

section \<open>The queue\<close>

definition maxTasksPerUser :: nat where
  "maxTasksPerUser = 100"

record EnqueueTaskOptions =
  n_UserID :: string
  n_FromAgentID :: string
  n_ToAgentID :: string
  n_ParentSessionID :: "string option"
  n_Description :: string
  n_Priority :: int
  n_BlockedBy :: "string list"
  n_Context :: DelegationContext
  n_MaxCostUSD :: "rat option"

definition activeCount :: "string \<Rightarrow> db \<Rightarrow> nat" where
  "activeCount userID d = length (filter (\<lambda>t. t_UserID t = userID \<and> activeStatus (t_Status t)) (db_tasks d))"

definition EnqueueTask :: "EnqueueTaskOptions \<Rightarrow> db \<Rightarrow> DelegatedTask result \<times> db" where
  "EnqueueTask opts d =
     (case statement d of
        (Some e, d1) \<Rightarrow> (Inl (''count active tasks: '' @ e), d1)
      | (None, d1) \<Rightarrow>
          if activeCount (n_UserID opts) d1 \<ge> maxTasksPerUser then
            (Inl (''task limit reached. You have '' @ Itoa (activeCount (n_UserID opts) d1) @
               '' active delegated tasks (maximum '' @ Itoa maxTasksPerUser @
               ''). Wait for tasks to complete or cancel existing tasks in the dashboard''), d1)
          else
            tryCall ''create delegated task''
              (CreateDelegatedTask
                 \<lparr>t_ID = [], t_UserID = n_UserID opts, t_ParentSessionID = n_ParentSessionID opts,
                  t_ChildSessionID = None, t_FromAgentID = n_FromAgentID opts, t_ToAgentID = n_ToAgentID opts,
                  t_Description = n_Description opts, t_Priority = n_Priority opts, t_Status = TaskPending,
                  t_ErrorMessage = None, t_BlockedBy = n_BlockedBy opts, t_Context = Some (n_Context opts),
                  t_MaxCostUSD = n_MaxCostUSD opts, t_ActualCostUSD = None, t_ClaimedAt = None,
                  t_CompletedAt = None, t_CreatedAt = 0\<rparr>)
              (\<lambda>created d2. (Inr created, d2)) d1)"

definition ResolveDependencies :: "string \<Rightarrow> string \<Rightarrow> db \<Rightarrow> unit result \<times> db" where
  "ResolveDependencies completedTaskID userID =
     execStmt ''remove completed task from blocked_by arrays''
       (updateTasks
          (\<lambda>t. t_UserID t = userID \<and> t_Status t = TaskPending \<and> completedTaskID \<in> set (t_BlockedBy t))
          (\<lambda>t. t\<lparr>t_BlockedBy := removeAll completedTaskID (t_BlockedBy t)\<rparr>))"

definition CancelTask :: "string \<Rightarrow> string \<Rightarrow> db \<Rightarrow> unit result \<times> db" where
  "CancelTask taskID userID =
     tryCall ''get task'' (GetDelegatedTaskByID taskID userID) (\<lambda>found d1.
       case found of
         None \<Rightarrow> (Inr (), d1)
       | Some task \<Rightarrow>
           if \<not> activeStatus (t_Status task) then (Inr (), d1)
           else
             tryCall ''update task status'' (UpdateDelegatedTaskStatus taskID userID TaskCancelled None) (\<lambda>_ d2.
               let d3 = (case t_ChildSessionID task of
                           None \<Rightarrow> d2
                         | Some child \<Rightarrow>
                             snd (execStmt [] (updateSessions
                               (\<lambda>s. s_ID s = child \<and>
                                  s_Status s \<in> {SessionPending, SessionRunning, SessionWaitingForClarification})
                               (\<lambda>s. s\<lparr>s_Status := SessionCancelling\<rparr>)) d2))
               in tryCall ''resolve dependencies'' (ResolveDependencies taskID (t_UserID task))
                    (\<lambda>_ d4. (Inr (), d4)) d3) d1)"

section \<open>Delegating\<close>

record DelegateOptions =
  o_FromSessionID :: string
  o_FromAgentID :: string
  o_ToAgentID :: string
  o_UserID :: string
  o_Description :: string
  o_Priority :: "int option"
  o_BlockedBy :: "string list"
  o_MaxCostUSD :: "rat option"
  o_ContextMode :: string

record ContextBuildOptions =
  b_FromSessionID :: string
  b_ToAgentID :: string
  b_Description :: string
  b_Mode :: string

record DelegationResponse =
  r_TaskID :: string
  r_Status :: DelegatedTaskStatus
  r_ToAgentID :: string
  r_Description :: string
  r_Priority :: int

type_synonym contextBuilder = "ContextBuildOptions \<Rightarrow> db \<Rightarrow> DelegationContext result \<times> db"

definition forValidation :: "Agent \<Rightarrow> AgentForValidation" where
  "forValidation a = \<lparr>v_ID = a_ID a, v_Role = a_Role a, v_MaxCostPerTask = a_MaxCostPerTask a,
     v_MaxDelegationDepth = a_MaxDelegationDepth a, v_CanDelegateTo = a_CanDelegateTo a\<rparr>"

text \<open>The checks on the delegating session.\<close>

definition checkSession :: "DelegateOptions \<Rightarrow> Agent \<Rightarrow> db \<Rightarrow> unit result \<times> db" where
  "checkSession opts fromAgent d =
     (if o_FromSessionID opts = [] then (Inr (), d)
      else
        case GetSession (o_FromSessionID opts) (o_UserID opts) d of
          (Inr (Some session), d1) \<Rightarrow>
            if s_UserID session \<noteq> o_UserID opts then (Inl ''not authorized to delegate from this session'', d1)
            else
              tryCall ''validate delegation depth''
                (ValidateDelegationDepth (o_FromSessionID opts) (o_UserID opts) (a_MaxDelegationDepth fromAgent))
                (\<lambda>res d2. if Allowed res then (Inr (), d2) else (Inl (Reason res), d2)) d1
        | (_, d1) \<Rightarrow> (Inl ''parent session not found'', d1))"

definition forCycle :: "DelegatedTask \<Rightarrow> TaskForCycle" where
  "forCycle t = \<lparr>q_ID = t_ID t, q_BlockedBy = t_BlockedBy t\<rparr>"

text \<open>The check of the dependencies against the user's active tasks.\<close>

definition checkBlockedBy :: "DelegateOptions \<Rightarrow> db \<Rightarrow> unit result \<times> db" where
  "checkBlockedBy opts d =
     (if o_BlockedBy opts = [] then (Inr (), d)
      else
        tryCall ''list pending tasks'' (ListDelegatedTasks (o_UserID opts) (Some TaskPending) 500 0) (\<lambda>(pending, _).
        tryCall ''list claimed tasks'' (ListDelegatedTasks (o_UserID opts) (Some TaskClaimed) 500 0) (\<lambda>(claimed, _).
        tryCall ''list running tasks'' (ListDelegatedTasks (o_UserID opts) (Some TaskRunning) 500 0) (\<lambda>(running, _) d3.
          if DetectCyclesInBlockedBy ''new-task'' (o_BlockedBy opts) (map forCycle (pending @ claimed @ running)) = Some True
          then (Inl ''circular dependency detected in task dependencies. This would create a deadlock'', d3)
          else (Inr (), d3)))) d)"

definition Delegate :: "contextBuilder \<Rightarrow> DelegateOptions \<Rightarrow> db \<Rightarrow> DelegationResponse result \<times> db" where
  "Delegate buildContext opts =
     tryCall ''get from agent'' (GetAgent (o_FromAgentID opts) (o_UserID opts)) (\<lambda>from d1.
     case from of
       None \<Rightarrow> (Inl (''delegating agent ('' @ o_FromAgentID opts @ '') not found''), d1)
     | Some fromAgent \<Rightarrow>
     tryCall ''get to agent'' (GetAgent (o_ToAgentID opts) (o_UserID opts)) (\<lambda>to d2.
     case to of
       None \<Rightarrow> (Inl (''target agent ('' @ o_ToAgentID opts @ '') not found''), d2)
     | Some toAgent \<Rightarrow>
     if a_UserID fromAgent \<noteq> o_UserID opts then (Inl ''you don't have access to the delegating agent'', d2)
     else if a_UserID toAgent \<noteq> o_UserID opts then (Inl ''you don't have access to the target agent'', d2)
     else
       let v = ValidateDelegation (forValidation fromAgent) (forValidation toAgent) (o_Description opts) (o_MaxCostUSD opts) in
       if \<not> Allowed v then (Inl (Reason v), d2)
       else
         case checkSession opts fromAgent d2 of
           (Inl e, d3) \<Rightarrow> (Inl e, d3)
         | (Inr _, d3) \<Rightarrow>
         (case checkBlockedBy opts d3 of
            (Inl e, d4) \<Rightarrow> (Inl e, d4)
          | (Inr _, d4) \<Rightarrow>
          tryCall ''build delegation context''
            (buildContext \<lparr>b_FromSessionID = o_FromSessionID opts, b_ToAgentID = o_ToAgentID opts,
               b_Description = o_Description opts,
               b_Mode = (if o_ContextMode opts = [] then ''summary'' else o_ContextMode opts)\<rparr>) (\<lambda>ctx.
          tryCall ''enqueue task''
            (EnqueueTask \<lparr>n_UserID = o_UserID opts, n_FromAgentID = o_FromAgentID opts, n_ToAgentID = o_ToAgentID opts,
               n_ParentSessionID = (if o_FromSessionID opts = [] then None else Some (o_FromSessionID opts)),
               n_Description = o_Description opts,
               n_Priority = (case o_Priority opts of None \<Rightarrow> 50 | Some p \<Rightarrow> p),
               n_BlockedBy = o_BlockedBy opts, n_Context = ctx, n_MaxCostUSD = o_MaxCostUSD opts\<rparr>) (\<lambda>task d6.
            let d7 = snd (LogDelegation \<lparr>g_UserID = o_UserID opts, g_FromSessionID = o_FromSessionID opts,
                       g_ToSessionID = None, g_FromAgentID = o_FromAgentID opts, g_ToAgentID = o_ToAgentID opts,
                       g_Action = ''delegated'', g_Reason = take 500 (o_Description opts), g_CostUSD = None\<rparr> d6)
            in (Inr \<lparr>r_TaskID = t_ID task, r_Status = t_Status task, r_ToAgentID = o_ToAgentID opts,
                     r_Description = o_Description opts, r_Priority = t_Priority task\<rparr>, d7))) d4)) d1)"

definition eventFor :: "DelegatedTask \<Rightarrow> string \<Rightarrow> string \<Rightarrow> rat option \<Rightarrow> LogDelegationOptions" where
  "eventFor task action reason cost =
     \<lparr>g_UserID = t_UserID task,
      g_FromSessionID = (case t_ParentSessionID task of None \<Rightarrow> [] | Some s \<Rightarrow> s),
      g_ToSessionID = t_ChildSessionID task, g_FromAgentID = t_FromAgentID task, g_ToAgentID = t_ToAgentID task,
      g_Action = action, g_Reason = reason, g_CostUSD = cost\<rparr>"

definition OnTaskComplete :: "string \<Rightarrow> string \<Rightarrow> rat option \<Rightarrow> db \<Rightarrow> unit result \<times> db" where
  "OnTaskComplete taskID userID actualCostUSD =
     tryCall ''get task'' (GetDelegatedTaskByID taskID userID) (\<lambda>found d1.
       case found of
         None \<Rightarrow> (Inr (), d1)
       | Some task \<Rightarrow>
           tryCall ''complete task'' (CompleteTask taskID userID actualCostUSD) (\<lambda>_.
           tryCall ''resolve dependencies'' (ResolveDependencies taskID (t_UserID task)) (\<lambda>_ d3.
             (Inr (), snd (LogDelegation (eventFor task ''completed'' [] actualCostUSD) d3)))) d1)"

definition OnTaskFailed :: "string \<Rightarrow> string \<Rightarrow> string \<Rightarrow> db \<Rightarrow> unit result \<times> db" where
  "OnTaskFailed taskID userID errorMsg =
     tryCall ''get task'' (GetDelegatedTaskByID taskID userID) (\<lambda>found d1.
       case found of
         None \<Rightarrow> (Inr (), d1)
       | Some task \<Rightarrow>
           let truncatedError = take 500 errorMsg in
           tryCall ''update task status'' (UpdateDelegatedTaskStatus taskID userID TaskFailed (Some truncatedError)) (\<lambda>_.
           tryCall ''resolve dependencies'' (ResolveDependencies taskID (t_UserID task)) (\<lambda>_ d3.
             (Inr (), snd (LogDelegation (eventFor task ''failed'' truncatedError None) d3)))) d1)"

section \<open>Reading and logging\<close>

lemma readOnly_GetAgent [readonly]: "readOnly (GetAgent a u)"
  unfolding GetAgent_def by (rule readonly)

lemma readOnly_GetSession [readonly]: "readOnly (GetSession s u)"
  unfolding GetSession_def by (rule readonly)

lemma readOnly_GetDelegatedTaskByID [readonly]: "readOnly (GetDelegatedTaskByID t u)"
  unfolding GetDelegatedTaskByID_def by (rule readonly)

lemma readOnly_ListDelegatedTasks [readonly]: "readOnly (ListDelegatedTasks u s l k)"
proof (rule readOnlyI)
  fix d r d' assume "ListDelegatedTasks u s l k d = (r, d')"
  then show "tables d' = tables d"
    by (auto simp: ListDelegatedTasks_def split: prod.splits sum.splits dest: queryPage_tables)
qed

lemma readOnly_ValidateDelegationDepth [readonly]: "readOnly (ValidateDelegationDepth p u m)"
proof (rule readOnlyI)
  fix d r d' assume v: "ValidateDelegationDepth p u m d = (r, d')"
  obtain x d1 where g: "GetSession p u d = (x, d1)" by (cases "GetSession p u d")
  obtain y d2 where q: "queryRows ''query delegation chain'' ''scan chain row'' ''iterate chain'' (ancestors p u) d1 = (y, d2)"
    by (cases "queryRows ''query delegation chain'' ''scan chain row'' ''iterate chain'' (ancestors p u) d1")
  have "d' \<in> {d, d1, d2}"
    using v g q by (auto simp: ValidateDelegationDepth_def tryCall_def split: if_splits sum.splits)
  moreover have "tables d1 = tables d" "tables d2 = tables d1"
    using readOnlyD [OF readOnly_GetSession g] queryRows_tables [OF q] .
  ultimately show "tables d' = tables d" by auto
qed

lemma LogDelegation_frame:
  assumes "LogDelegation opts d = (r, d')"
  shows "db_agents d' = db_agents d" "db_sessions d' = db_sessions d" "db_tasks d' = db_tasks d"
    "db_locks d' = db_locks d" "db_schedules d' = db_schedules d"
proof -
  obtain i d1 where n: "newID d = (i, d1)" by (cases "newID d")
  obtain now d2 where t: "timeNow d1 = (now, d2)" by (cases "timeNow d1")
  have same: "tables d2 = tables d" using newID_tables [OF n] timeNow_tables [OF t] by simp
  have ev: "tables d3 = tables d \<or> (\<exists>d4 es. tables d4 = tables d \<and> d3 = d4\<lparr>db_events := es\<rparr>)"
    if "CreateDelegationEvent e d = (x, d3)" for e x d3
    using that unfolding CreateDelegationEvent_def n t Let_def prod.case
    by (cases x) (auto dest!: execChecked_Inl execChecked_Inr simp: same, blast)
  have "tables d' = tables d \<or> (\<exists>d4 es. tables d4 = tables d \<and> d' = d4\<lparr>db_events := es\<rparr>)"
    using assms ev unfolding LogDelegation_def Let_def tryCall_def
    by (auto split: if_splits option.splits prod.splits sum.splits)
  then show "db_agents d' = db_agents d" "db_sessions d' = db_sessions d" "db_tasks d' = db_tasks d"
    "db_locks d' = db_locks d" "db_schedules d' = db_schedules d"
    by (auto dest: tables_eqD)
qed

lemma readOnly_checkSession [readonly]: "readOnly (checkSession opts a)"
proof (rule readOnlyI)
  fix d r d' assume c: "checkSession opts a d = (r, d')"
  have depth: "readOnly (tryCall ''validate delegation depth''
      (ValidateDelegationDepth p u m) (\<lambda>res d2. if Allowed res then (Inr (), d2) else (Inl (Reason res), d2)))" for p u m
    by (intro readonly)
  obtain x d1 where g: "GetSession (o_FromSessionID opts) (o_UserID opts) d = (x, d1)"
    by (cases "GetSession (o_FromSessionID opts) (o_UserID opts) d")
  have "tables d1 = tables d" using readOnlyD [OF readOnly_GetSession g] .
  with c g show "tables d' = tables d"
    by (auto simp: checkSession_def split: if_splits sum.splits option.splits dest!: readOnlyD [OF depth])
qed

lemma readOnly_checkBlockedBy [readonly]: "readOnly (checkBlockedBy opts)"
proof -
  have eq: "checkBlockedBy opts = (\<lambda>d. if o_BlockedBy opts = [] then (Inr (), d) else
        tryCall ''list pending tasks'' (ListDelegatedTasks (o_UserID opts) (Some TaskPending) 500 0) (\<lambda>p.
        tryCall ''list claimed tasks'' (ListDelegatedTasks (o_UserID opts) (Some TaskClaimed) 500 0) (\<lambda>c.
        tryCall ''list running tasks'' (ListDelegatedTasks (o_UserID opts) (Some TaskRunning) 500 0) (\<lambda>r d3.
          if DetectCyclesInBlockedBy ''new-task'' (o_BlockedBy opts) (map forCycle (fst p @ fst c @ fst r)) = Some True
          then (Inl ''circular dependency detected in task dependencies. This would create a deadlock'', d3)
          else (Inr (), d3)))) d)"
    by (rule ext) (simp add: checkBlockedBy_def case_prod_beta')
  show ?thesis unfolding eq by (intro readonly)
qed

section \<open>What a delegation stores\<close>

lemma CreateDelegatedTask_Inl: "CreateDelegatedTask t d = (Inl e, d') \<Longrightarrow> tables d' = tables d"
proof -
  assume c: "CreateDelegatedTask t d = (Inl e, d')"
  obtain i d1 where n: "newID d = (i, d1)" by (cases "newID d")
  obtain now d2 where t: "timeNow d1 = (now, d2)" by (cases "timeNow d1")
  have "tables d2 = tables d" using newID_tables [OF n] timeNow_tables [OF t] by simp
  then show ?thesis
    using c by (auto simp: CreateDelegatedTask_def n t Let_def split: prod.splits sum.splits dest: execChecked_Inl)
qed

lemma insertTaskError_tables:
  assumes "tables d' = tables d"
  shows "insertTaskError t d' = insertTaskError t d"
  using tables_eqD [OF assms] exists_tables [OF assms] by (simp add: insertTaskError_def)

lemma CreateDelegatedTask_Inr:
  assumes "CreateDelegatedTask t d = (Inr c, d')"
  obtains i now where "c = t\<lparr>t_ID := i, t_CreatedAt := now\<rparr>"
    "insertTaskError (t\<lparr>t_ID := i, t_ClaimedAt := None, t_CompletedAt := None, t_CreatedAt := now\<rparr>) d = None"
    "tables d' = tables (d\<lparr>db_tasks := db_tasks d @
       [t\<lparr>t_ID := i, t_ClaimedAt := None, t_CompletedAt := None, t_CreatedAt := now\<rparr>]\<rparr>)"
proof -
  obtain i d1 where n: "newID d = (i, d1)" by (cases "newID d")
  obtain now d2 where tm: "timeNow d1 = (now, d2)" by (cases "timeNow d1")
  let ?row = "t\<lparr>t_ID := i, t_ClaimedAt := None, t_CompletedAt := None, t_CreatedAt := now\<rparr>"
  let ?ins = "execChecked ''create delegated task'' (insertTaskError ?row) (\<lambda>d. d\<lparr>db_tasks := db_tasks d @ [?row]\<rparr>) d2"
  have same: "tables d2 = tables d" using newID_tables [OF n] timeNow_tables [OF tm] by simp
  have "\<exists>u. ?ins = (Inr u, d') \<and> c = t\<lparr>t_ID := i, t_CreatedAt := now\<rparr>"
    using assms by (auto simp: CreateDelegatedTask_def n tm Let_def split: prod.splits sum.splits)
  then have c: "c = t\<lparr>t_ID := i, t_CreatedAt := now\<rparr>" and ins: "?ins = (Inr (), d')" by auto
  obtain d3 where d3: "tables d3 = tables d2" "insertTaskError ?row d3 = None" "d' = d3\<lparr>db_tasks := db_tasks d3 @ [?row]\<rparr>"
    using execChecked_Inr [OF ins] by blast
  have eq: "tables d3 = tables d" using d3(1) same by simp
  have "insertTaskError ?row d3 = insertTaskError ?row d" by (rule insertTaskError_tables [OF eq])
  moreover have "tables d' = tables (d\<lparr>db_tasks := db_tasks d @ [?row]\<rparr>)"
    using tables_eqD [OF eq] by (simp add: d3(3) tables_def)
  ultimately show thesis using that c d3(2) by simp
qed

text \<open>The row that \<open>EnqueueTask\<close> inserts.\<close>

definition queuedTask :: "EnqueueTaskOptions \<Rightarrow> string \<Rightarrow> nat \<Rightarrow> DelegatedTask" where
  "queuedTask opts i now =
     \<lparr>t_ID = i, t_UserID = n_UserID opts, t_ParentSessionID = n_ParentSessionID opts,
      t_ChildSessionID = None, t_FromAgentID = n_FromAgentID opts, t_ToAgentID = n_ToAgentID opts,
      t_Description = n_Description opts, t_Priority = n_Priority opts, t_Status = TaskPending,
      t_ErrorMessage = None, t_BlockedBy = n_BlockedBy opts, t_Context = Some (n_Context opts),
      t_MaxCostUSD = n_MaxCostUSD opts, t_ActualCostUSD = None, t_ClaimedAt = None,
      t_CompletedAt = None, t_CreatedAt = now\<rparr>"

lemma EnqueueTask_Inl:
  assumes "EnqueueTask opts d = (Inl e, d')"
  shows "tables d' = tables d"
proof -
  obtain f d1 where s: "statement d = (f, d1)" by (cases "statement d")
  from statement_tables [OF this] assms show ?thesis
    by (auto simp: EnqueueTask_def s tryCall_def split: option.splits if_splits prod.splits sum.splits
        dest: CreateDelegatedTask_Inl)
qed

lemma EnqueueTask_Inr:
  assumes "EnqueueTask opts d = (Inr t, d')"
  obtains i now where "t = queuedTask opts i now" "activeCount (n_UserID opts) d < 100"
    "insertTaskError (queuedTask opts i now) d = None"
    "tables d' = tables (d\<lparr>db_tasks := db_tasks d @ [queuedTask opts i now]\<rparr>)"
proof -
  obtain f d1 where s: "statement d = (f, d1)" by (cases "statement d")
  note same = statement_tables [OF s]
  let ?t = "queuedTask opts [] 0"
  have f: "f = None" "\<not> activeCount (n_UserID opts) d1 \<ge> maxTasksPerUser"
    and c: "CreateDelegatedTask ?t d1 = (Inr t, d')"
    using assms by (auto simp: EnqueueTask_def s tryCall_def queuedTask_def split: option.splits if_splits prod.splits sum.splits)
  have row: "?t\<lparr>t_ID := i, t_ClaimedAt := None, t_CompletedAt := None, t_CreatedAt := now\<rparr> = queuedTask opts i now"
    "?t\<lparr>t_ID := i, t_CreatedAt := now\<rparr> = queuedTask opts i now" for i now
    by (simp_all add: queuedTask_def)
  obtain i now where i: "t = queuedTask opts i now" "insertTaskError (queuedTask opts i now) d1 = None"
    "tables d' = tables (d1\<lparr>db_tasks := db_tasks d1 @ [queuedTask opts i now]\<rparr>)"
    using c by (rule CreateDelegatedTask_Inr) (auto simp: row)
  show thesis
  proof (rule that [OF i(1)])
    show "activeCount (n_UserID opts) d < 100"
      using f(2) tables_eqD(3) [OF same] by (simp add: activeCount_def maxTasksPerUser_def)
    show "insertTaskError (queuedTask opts i now) d = None"
      using i(2) insertTaskError_tables [OF same] by simp
    show "tables d' = tables (d\<lparr>db_tasks := db_tasks d @ [queuedTask opts i now]\<rparr>)"
      using i(3) tables_eqD [OF same] by (simp add: tables_def)
  qed
qed

definition enqueueOptions :: "DelegateOptions \<Rightarrow> DelegationContext \<Rightarrow> EnqueueTaskOptions" where
  "enqueueOptions opts ctx =
     \<lparr>n_UserID = o_UserID opts, n_FromAgentID = o_FromAgentID opts, n_ToAgentID = o_ToAgentID opts,
      n_ParentSessionID = (if o_FromSessionID opts = [] then None else Some (o_FromSessionID opts)),
      n_Description = o_Description opts, n_Priority = (case o_Priority opts of None \<Rightarrow> 50 | Some p \<Rightarrow> p),
      n_BlockedBy = o_BlockedBy opts, n_Context = ctx, n_MaxCostUSD = o_MaxCostUSD opts\<rparr>"

lemma GetAgent_Some:
  assumes "GetAgent i u d = (Inr (Some a), d')"
  shows "a \<in> set (db_agents d)" "a_ID a = i" "a_UserID a = u"
proof -
  let ?P = "\<lambda>a. a_ID a = i \<and> a_UserID a = u"
  have f: "Some a = List.find ?P (db_agents d')" and t: "tables d' = tables d"
    using assms queryRow_result queryRow_tables unfolding GetAgent_def by blast+
  have "a \<in> set (db_agents d') \<and> ?P a" by (rule find_Some_iff_mem [OF f [symmetric]])
  then show "a \<in> set (db_agents d)" "a_ID a = i" "a_UserID a = u"
    unfolding tables_eqD(1) [OF t] by blast+
qed

text \<open>A successful delegation, taken apart; everything before the insert only reads.\<close>

lemma Delegate_Inr:
  assumes "Delegate build opts d = (Inr resp, d')" "\<And>c. readOnly (build c)"
  obtains fromAgent toAgent ctx task d5 d6 where
    "fromAgent \<in> set (db_agents d)" "a_ID fromAgent = o_FromAgentID opts" "a_UserID fromAgent = o_UserID opts"
    "toAgent \<in> set (db_agents d)" "a_ID toAgent = o_ToAgentID opts" "a_UserID toAgent = o_UserID opts"
    "Allowed (ValidateDelegation (forValidation fromAgent) (forValidation toAgent) (o_Description opts) (o_MaxCostUSD opts))"
    "tables d5 = tables d" "EnqueueTask (enqueueOptions opts ctx) d5 = (Inr task, d6)"
    "db_tasks d' = db_tasks d6" "db_sessions d' = db_sessions d6" "db_locks d' = db_locks d6" "db_agents d' = db_agents d6"
    "resp = \<lparr>r_TaskID = t_ID task, r_Status = t_Status task, r_ToAgentID = o_ToAgentID opts,
             r_Description = o_Description opts, r_Priority = t_Priority task\<rparr>"
proof -
  obtain fr d1 where g1: "GetAgent (o_FromAgentID opts) (o_UserID opts) d = (fr, d1)"
    by (cases "GetAgent (o_FromAgentID opts) (o_UserID opts) d")
  obtain tr d2 where g2: "GetAgent (o_ToAgentID opts) (o_UserID opts) d1 = (tr, d2)"
    by (cases "GetAgent (o_ToAgentID opts) (o_UserID opts) d1")
  have e1: "tables d1 = tables d" and e2: "tables d2 = tables d"
    using readOnlyD [OF readOnly_GetAgent g1] readOnlyD [OF readOnly_GetAgent g2] by simp_all
  obtain fa where fa: "fr = Inr (Some fa)"
    using assms(1) by (auto simp: Delegate_def tryCall_def g1 split: sum.splits option.splits)
  obtain ta where ta: "tr = Inr (Some ta)"
    using assms(1) by (auto simp: Delegate_def tryCall_def g1 g2 fa split: sum.splits option.splits)
  have fa': "fa \<in> set (db_agents d)" "a_ID fa = o_FromAgentID opts" "a_UserID fa = o_UserID opts"
    using GetAgent_Some [OF g1 [unfolded fa]] by simp_all
  have ta': "ta \<in> set (db_agents d)" "a_ID ta = o_ToAgentID opts" "a_UserID ta = o_UserID opts"
    using GetAgent_Some [OF g2 [unfolded ta]] tables_eqD(1) [OF e1] by simp_all
  let ?v = "ValidateDelegation (forValidation fa) (forValidation ta) (o_Description opts) (o_MaxCostUSD opts)"
  obtain s d3 where c3: "checkSession opts fa d2 = (s, d3)" by (cases "checkSession opts fa d2")
  obtain b d4 where c4: "checkBlockedBy opts d3 = (b, d4)" by (cases "checkBlockedBy opts d3")
  let ?bo = "\<lparr>b_FromSessionID = o_FromSessionID opts, b_ToAgentID = o_ToAgentID opts, b_Description = o_Description opts,
               b_Mode = (if o_ContextMode opts = [] then ''summary'' else o_ContextMode opts)\<rparr>"
  obtain c d5 where c5: "build ?bo d4 = (c, d5)" by (cases "build ?bo d4")
  have e5: "tables d5 = tables d"
    using readOnlyD [OF readOnly_checkSession c3] readOnlyD [OF readOnly_checkBlockedBy c4] readOnlyD [OF assms(2) c5] e2 by simp
  note run = assms(1) [unfolded Delegate_def tryCall_def g1 fa prod.case sum.case option.case g2 ta Let_def c3]
  have al: "Allowed ?v" using run fa'(3) ta'(3) by (auto split: if_splits)
  have s: "s = Inr ()" and b: "b = Inr ()"
    using run fa'(3) ta'(3) al c4 by (auto split: sum.splits)
  obtain ctx where ctx: "c = Inr ctx"
    using run fa'(3) ta'(3) al s b c4 c5 by (auto split: sum.splits)
  obtain x d6 where en: "EnqueueTask (enqueueOptions opts ctx) d5 = (x, d6)" by (cases "EnqueueTask (enqueueOptions opts ctx) d5")
  obtain task where task: "x = Inr task"
    using run fa'(3) ta'(3) al s b c4 c5 ctx en by (auto simp: enqueueOptions_def split: sum.splits)
  let ?log = "\<lparr>g_UserID = o_UserID opts, g_FromSessionID = o_FromSessionID opts,
      g_ToSessionID = None, g_FromAgentID = o_FromAgentID opts, g_ToAgentID = o_ToAgentID opts,
      g_Action = ''delegated'', g_Reason = take 500 (o_Description opts), g_CostUSD = None\<rparr>"
  obtain y d7 where lg: "LogDelegation ?log d6 = (y, d7)" by (cases "LogDelegation ?log d6")
  have "d' = d7" and "resp = \<lparr>r_TaskID = t_ID task, r_Status = t_Status task, r_ToAgentID = o_ToAgentID opts,
             r_Description = o_Description opts, r_Priority = t_Priority task\<rparr>"
    using run fa'(3) ta'(3) al s b c4 c5 ctx en task lg by (auto simp: enqueueOptions_def)
  then show thesis
    using that [OF fa' ta' al e5 en [unfolded task]] LogDelegation_frame [OF lg] by simp
qed

lemma Delegate_Inl:
  assumes "Delegate build opts d = (Inl e, d')" "\<And>c. readOnly (build c)"
  shows "tables d' = tables d"
proof -
  have en: "EnqueueTask o' d5 = (Inl x, d6) \<Longrightarrow> tables d6 = tables d5" for o' d5 x d6 by (rule EnqueueTask_Inl)
  obtain fr d1 where g1: "GetAgent (o_FromAgentID opts) (o_UserID opts) d = (fr, d1)"
    by (cases "GetAgent (o_FromAgentID opts) (o_UserID opts) d")
  obtain tr d2 where g2: "GetAgent (o_ToAgentID opts) (o_UserID opts) d1 = (tr, d2)"
    by (cases "GetAgent (o_ToAgentID opts) (o_UserID opts) d1")
  have e1: "tables d1 = tables d" and e2: "tables d2 = tables d"
    using readOnlyD [OF readOnly_GetAgent g1] readOnlyD [OF readOnly_GetAgent g2] by simp_all
  show ?thesis
  proof (cases "(\<exists>fa. fr = Inr (Some fa)) \<and> (\<exists>ta. tr = Inr (Some ta))")
    case False
    then have "d' = d1 \<or> d' = d2"
      using assms(1) by (auto simp: Delegate_def tryCall_def g1 g2 split: sum.splits option.splits)
    with e1 e2 show ?thesis by auto
  next
    case True
    then obtain fa ta where fa: "fr = Inr (Some fa)" and ta: "tr = Inr (Some ta)" by blast
    obtain s d3 where c3: "checkSession opts fa d2 = (s, d3)" by (cases "checkSession opts fa d2")
    obtain b d4 where c4: "checkBlockedBy opts d3 = (b, d4)" by (cases "checkBlockedBy opts d3")
    let ?bo = "\<lparr>b_FromSessionID = o_FromSessionID opts, b_ToAgentID = o_ToAgentID opts, b_Description = o_Description opts,
                 b_Mode = (if o_ContextMode opts = [] then ''summary'' else o_ContextMode opts)\<rparr>"
    obtain c d5 where c5: "build ?bo d4 = (c, d5)" by (cases "build ?bo d4")
    have e3: "tables d3 = tables d" "tables d4 = tables d" "tables d5 = tables d"
      using readOnlyD [OF readOnly_checkSession c3] readOnlyD [OF readOnly_checkBlockedBy c4] readOnlyD [OF assms(2) c5] e2
      by simp_all
    have "d' \<in> {d2, d3, d4, d5} \<or> (\<exists>o' x. EnqueueTask o' d5 = (Inl x, d'))"
      using assms(1) [unfolded Delegate_def tryCall_def g1 fa prod.case sum.case option.case g2 ta Let_def c3] c4 c5
      by (auto split: if_splits sum.splits prod.splits)
    with e2 e3 en show ?thesis by fastforce
  qed
qed

text \<open>
  C14. A delegation either changes nothing, when any check or statement before or at the insert
  fails, or adds exactly one pending task: for two different agents of the user, the target of a
  strictly lower role than the delegating agent, with the requested description, dependencies and cost limit, the
  requested or the default priority, and a new id, which the answer names; the user then has at
  most a hundred active tasks. No session or lock changes. The building of the context is assumed to only read the store.
\<close>

theorem delegate_adds_one_validated_task:
  assumes "Delegate build opts d = (r, d')" "\<And>c. readOnly (build c)"
  shows "case r of
      Inl e \<Rightarrow> tables d' = tables d
    | Inr resp \<Rightarrow>
        (\<exists>ctx now. let t = queuedTask (enqueueOptions opts ctx) (r_TaskID resp) now in
            db_tasks d' = db_tasks d @ [t] \<and> insertTaskError t d = None
            \<and> r_Status resp = TaskPending \<and> r_Priority resp = (case o_Priority opts of None \<Rightarrow> 50 | Some p \<Rightarrow> p))
        \<and> db_sessions d' = db_sessions d \<and> db_locks d' = db_locks d
        \<and> activeCount (o_UserID opts) d' \<le> 100
        \<and> (\<exists>f \<in> set (db_agents d). \<exists>t \<in> set (db_agents d). \<exists>a b.
             a_ID f = o_FromAgentID opts \<and> a_UserID f = o_UserID opts \<and> a_ID t = o_ToAgentID opts \<and> a_UserID t = o_UserID opts
             \<and> a_ID f \<noteq> a_ID t \<and> roleHierarchy (a_Role f) = Some a \<and> roleHierarchy (a_Role t) = Some b \<and> b < a)"
proof (cases r)
  case (Inl e)
  with Delegate_Inl assms show ?thesis by simp
next
  case (Inr resp)
  from assms(1) [unfolded Inr] assms(2) show ?thesis
  proof (rule Delegate_Inr, goal_cases)
    case (1 fa ta ctx task d5 d6)
    from 1(9) show ?thesis
    proof (rule EnqueueTask_Inr, goal_cases)
      case (1 i now)
      note en = this and del = \<open>tables d5 = tables d\<close>
      let ?t = "queuedTask (enqueueOptions opts ctx) i now"
      have tasks: "db_tasks d' = db_tasks d @ [?t]"
        using tables_eqD(3) [OF en(4)] tables_eqD(3) [OF del] \<open>db_tasks d' = db_tasks d6\<close> by simp
      have "activeCount (o_UserID opts) d < 100"
        using en(2) tables_eqD(3) [OF del] by (simp add: activeCount_def enqueueOptions_def)
      then have cnt: "activeCount (o_UserID opts) d' \<le> 100"
        by (simp add: activeCount_def tasks)
      have ins: "insertTaskError ?t d = None" using en(3) insertTaskError_tables [OF del] by simp
      have rest: "db_sessions d' = db_sessions d" "db_locks d' = db_locks d"
        using tables_eqD [OF en(4)] tables_eqD [OF del] \<open>db_sessions d' = db_sessions d6\<close> \<open>db_locks d' = db_locks d6\<close>
        by simp_all
      have "\<exists>a b. a_ID fa \<noteq> a_ID ta \<and> roleHierarchy (a_Role fa) = Some a \<and> roleHierarchy (a_Role ta) = Some b \<and> b < a"
        using delegation_allowed_facts \<open>Allowed _\<close> by (simp add: forValidation_def)
      then have "\<exists>f \<in> set (db_agents d). \<exists>t \<in> set (db_agents d). \<exists>a b.
             a_ID f = o_FromAgentID opts \<and> a_UserID f = o_UserID opts \<and> a_ID t = o_ToAgentID opts \<and> a_UserID t = o_UserID opts
             \<and> a_ID f \<noteq> a_ID t \<and> roleHierarchy (a_Role f) = Some a \<and> roleHierarchy (a_Role t) = Some b \<and> b < a"
        using \<open>fa \<in> set (db_agents d)\<close> \<open>ta \<in> set (db_agents d)\<close> \<open>a_ID fa = _\<close> \<open>a_UserID fa = _\<close> \<open>a_ID ta = _\<close> \<open>a_UserID ta = _\<close>
        by blast
      moreover have "r_TaskID resp = i" "r_Status resp = TaskPending"
        "r_Priority resp = (case o_Priority opts of None \<Rightarrow> 50 | Some p \<Rightarrow> p)"
        using \<open>resp = _\<close> en(1) by (simp_all add: queuedTask_def enqueueOptions_def)
      ultimately show ?thesis
        unfolding Inr Let_def sum.case using tasks cnt ins rest by blast
    qed
  qed
qed

text \<open>The branch of \<open>BuildDelegationContext\<close> for a delegation outside any session.\<close>

definition plainContext :: contextBuilder where
  "plainContext opts d =
     (Inr \<lparr>x_Summary = b_Description opts, x_RelevantFiles = [], x_GitDiff = None, x_ParentSessionOutput = None, x_Repo = None\<rparr>, d)"

lemma readOnly_plainContext: "readOnly (plainContext opts)"
  by (simp add: readOnly_def plainContext_def)

definition sampleOptions :: DelegateOptions where
  "sampleOptions = \<lparr>o_FromSessionID = [], o_FromAgentID = ''lead'', o_ToAgentID = ''jun'', o_UserID = ''u'',
     o_Description = ''fix the build'', o_Priority = None, o_BlockedBy = [], o_MaxCostUSD = Some 2, o_ContextMode = []\<rparr>"

lemma sample_delegation: "\<not> isl (fst (Delegate plainContext sampleOptions (sampleDb\<lparr>db_tasks := []\<rparr>)))"
  by (simp add: Delegate_def tryCall_def GetAgent_def sampleDb_def sampleOptions_def sampleAgent_def checkSession_def
      checkBlockedBy_def plainContext_def ValidateDelegation_def forValidation_def roleHierarchy_def
      roleCanDelegateTo_def descriptionMinLength_def descriptionMaxLength_def allowed_def EnqueueTask_def activeCount_def
      maxTasksPerUser_def CreateDelegatedTask_def newID_def timeNow_def insertTaskError_def clash_def
      sessionExists_def agentExists_def Let_def)

theorem delegate_adds_one_validated_task_witness:
  "\<exists>resp d'. Delegate plainContext sampleOptions (sampleDb\<lparr>db_tasks := []\<rparr>) = (Inr resp, d')
     \<and> length (db_tasks d') = 1 \<and> r_Priority resp = 50"
proof -
  obtain resp d' where del: "Delegate plainContext sampleOptions (sampleDb\<lparr>db_tasks := []\<rparr>) = (Inr resp, d')"
    using sample_delegation by (metis prod.collapse sum.collapse(2))
  from delegate_adds_one_validated_task [OF del readOnly_plainContext] del show ?thesis
    by (auto simp: Let_def sampleOptions_def)
qed

section \<open>The life of a task\<close>

definition taskTimes :: "DelegatedTask \<Rightarrow> bool" where
  "taskTimes t \<longleftrightarrow> (t_Status t = TaskClaimed \<longrightarrow> t_ClaimedAt t \<noteq> None)
     \<and> (t_Status t \<in> {TaskDone, TaskFailed, TaskCancelled} \<longrightarrow> t_CompletedAt t \<noteq> None)"

definition delegationInv :: "db \<Rightarrow> bool" where
  "delegationInv d \<longleftrightarrow> tasksOk d \<and> (\<forall>t \<in> set (db_tasks d). taskTimes t)"

interpretation delegation: table_invariant delegationInv
proof
  fix d d' :: db
  assume t: "tables d' = tables d" and i: "delegationInv d"
  then show "delegationInv d'" using tasksOk_tables [OF t] tables_eqD(3) [OF t] by (simp add: delegationInv_def)
qed

lemma times_update:
  "\<forall>t \<in> set ts. taskTimes t \<Longrightarrow> (\<And>t. taskTimes t \<Longrightarrow> taskTimes (f t)) \<Longrightarrow> \<forall>t \<in> set (updateRows P f ts). taskTimes t"
  by (auto dest!: set_updateRows)

lemma inv_updateTasks:
  assumes "delegationInv d" "keepsLinks f" "\<And>t. taskTimes t \<Longrightarrow> taskTimes (f t)"
  shows "delegationInv (updateTasks P f d)"
  using assms tasksOk_update by (auto simp: delegationInv_def frame_simps dest!: set_updateRows)

lemma kept_status: "delegation.kept (UpdateDelegatedTaskStatus i u s e)"
proof -
  have eq: "UpdateDelegatedTaskStatus i u s e = (\<lambda>d. let (now, d1) = timeNow d in
      execStmt ''update delegated task status'' (updateTasks (taskIs i u) (setStatus s e now)) d1)"
    by (rule ext) (simp add: UpdateDelegatedTaskStatus_def)
  show ?thesis unfolding eq
    by (intro delegation.kept_timeNow delegation.kept_execStmt inv_updateTasks)
      (auto simp: taskTimes_def setStatus_def Let_def)
qed

lemma kept_complete: "delegation.kept (CompleteTask i u c)"
proof -
  have eq: "CompleteTask i u c = (\<lambda>d. let (now, d1) = timeNow d in
      execStmt ''complete task'' (updateTasks (taskIs i u)
        (\<lambda>t. t\<lparr>t_Status := TaskDone, t_CompletedAt := Some now, t_ActualCostUSD := c\<rparr>)) d1)"
    by (rule ext) (simp add: CompleteTask_def)
  show ?thesis unfolding eq
    by (intro delegation.kept_timeNow delegation.kept_execStmt inv_updateTasks)
      (auto simp: taskTimes_def keepsLinks_def)
qed

lemma kept_resolve: "delegation.kept (ResolveDependencies i u)"
  unfolding ResolveDependencies_def
  by (intro delegation.kept_execStmt inv_updateTasks) (auto simp: taskTimes_def keepsLinks_def)

lemma taskTimes_child: "taskTimes t \<Longrightarrow> taskTimes (t\<lparr>t_ChildSessionID := c\<rparr>)"
  by (simp add: taskTimes_def)

lemma kept_child: "delegation.kept (UpdateDelegatedTaskChild i u c)"
  unfolding UpdateDelegatedTaskChild_def
proof (rule delegation.kept_execChecked)
  fix d assume i: "delegationInv d" and n: "updateChildError i u c d = None"
  let ?f = "\<lambda>t. t\<lparr>t_ChildSessionID := Some c\<rparr>"
  have "tasksOk (updateTasks (taskIs i u) ?f d)"
    using i n by (intro tasksOk_child) (simp_all add: delegationInv_def)
  moreover have "\<forall>t \<in> set (updateRows (taskIs i u) ?f (db_tasks d)). taskTimes t"
    using i by (intro times_update taskTimes_child) (simp_all add: delegationInv_def)
  ultimately show "delegationInv (updateTasks (taskIs i u) ?f d)"
    by (simp add: delegationInv_def frame_simps)
qed

lemma inv_events: "delegationInv d \<Longrightarrow> delegationInv (snd (LogDelegation opts d))"
proof -
  assume i: "delegationInv d"
  obtain r d' where l: "LogDelegation opts d = (r, d')" by (cases "LogDelegation opts d")
  note f = LogDelegation_frame [OF l]
  have "sessionExists d' v = sessionExists d v" "agentExists d' a = agentExists d a" for v a
    by (simp_all add: sessionExists_def agentExists_def f cong: option.case_cong)
  with i l f show ?thesis by (simp add: delegationInv_def tasksOk_def taskRefs_def)
qed

lemma inv_sessions:
  assumes "delegationInv d" "\<And>s. s_ID (f s) = s_ID s"
  shows "delegationInv (updateSessions P f d)"
proof -
  have "list_ex (\<lambda>s. s_ID s = i) (updateRows P f (db_sessions d)) = list_ex (\<lambda>s. s_ID s = i) (db_sessions d)" for i
    using assms(2) by (auto simp: list_ex_iff updateRows_def)
  then have "sessionExists (updateSessions P f d) v = sessionExists d v"
    "agentExists (updateSessions P f d) a = agentExists d a" for v a
    by (simp_all add: sessionExists_def agentExists_def frame_simps cong: option.case_cong)
  with assms(1) show ?thesis by (simp add: delegationInv_def tasksOk_def taskRefs_def frame_simps)
qed

lemma kept_OnTaskComplete: "delegation.kept (OnTaskComplete i u c)"
  unfolding OnTaskComplete_def
  by (intro delegation.kept_tryCall delegation.kept_case_option delegation.kept_finish kept_complete kept_resolve
      inv_events delegation.kept_readOnly readonly) simp_all

lemma kept_OnTaskFailed: "delegation.kept (OnTaskFailed i u m)"
  unfolding OnTaskFailed_def Let_def
  by (intro delegation.kept_tryCall delegation.kept_case_option delegation.kept_finish kept_status kept_resolve
      inv_events delegation.kept_readOnly readonly) simp_all

lemma kept_CancelTask: "delegation.kept (CancelTask i u)"
proof -
  have child: "delegationInv d \<Longrightarrow> delegationInv (case v of None \<Rightarrow> d | Some child \<Rightarrow>
      snd (execStmt [] (updateSessions (\<lambda>s. s_ID s = child \<and>
         s_Status s \<in> {SessionPending, SessionRunning, SessionWaitingForClarification}) (\<lambda>s. s\<lparr>s_Status := SessionCancelling\<rparr>)) d))"
    for d v
    by (auto split: option.split intro!: delegation.kept_snd delegation.kept_execStmt inv_sessions)
  have rest: "delegation.kept (\<lambda>d2. tryCall ''resolve dependencies'' (ResolveDependencies i w) (\<lambda>_ d4. (Inr (), d4)) (g d2))"
    if "\<And>d. delegationInv d \<Longrightarrow> delegationInv (g d)" for w g
  proof (rule delegation.keptI)
    have k: "delegation.kept (tryCall ''resolve dependencies'' (ResolveDependencies i w) (\<lambda>_ d4. (Inr (), d4)))"
      by (intro delegation.kept_tryCall delegation.kept_finish kept_resolve)
    fix d r d' assume "delegationInv d"
      and "tryCall ''resolve dependencies'' (ResolveDependencies i w) (\<lambda>_ d4. (Inr (), d4)) (g d) = (r, d')"
    then show "delegationInv d'" using delegation.keptD [OF k] that by blast
  qed
  show ?thesis
    unfolding CancelTask_def Let_def
    by (intro delegation.kept_tryCall delegation.kept_case_option delegation.kept_if delegation.kept_finish kept_status
        rest child delegation.kept_readOnly readonly) assumption
qed

lemma kept_claim: "delegation.kept (ClaimNextTask a)"
proof (rule delegation.keptI)
  fix d r d' assume i: "delegationInv d" and c: "ClaimNextTask a d = (r, d')"
  show "delegationInv d'"
  proof (cases r)
    case (Inl e)
    then have "tables d' = tables d"
      using c by (auto simp: ClaimNextTask_def Let_def split: prod.splits option.splits dest: statement_tables)
    from delegation.I_tables [OF this i] show ?thesis .
  next
    case (Inr v)
    have upd: "delegationInv (updateTasks P (claimRow n) d)" for P n
      using i by (rule inv_updateTasks) (auto simp: keepsLinks_def claimRow_def taskTimes_def)
    from ClaimNextTask_cases c Inr have "tables d' = tables d \<or> (\<exists>P n. tables d' = tables (updateTasks P (claimRow n) d))"
      by blast
    with delegation.I_tables i upd show ?thesis by blast
  qed
qed

lemma kept_Delegate:
  assumes "\<And>c. readOnly (build c)"
  shows "delegation.kept (Delegate build opts)"
proof (rule delegation.keptI)
  fix d r d' assume i: "delegationInv d" and del: "Delegate build opts d = (r, d')"
  show "delegationInv d'"
  proof (cases r)
    case (Inl e)
    with del Delegate_Inl assms delegation.I_tables i show ?thesis by metis
  next
    case (Inr resp)
    from del [unfolded Inr] assms show ?thesis
    proof (rule Delegate_Inr, goal_cases)
      case (1 fa ta ctx task d5 d6)
      from \<open>EnqueueTask _ d5 = _\<close> show ?thesis
      proof (rule EnqueueTask_Inr, goal_cases)
        case (1 j now)
        have i5: "delegationInv d5" using i \<open>tables d5 = tables d\<close> delegation.I_tables by blast
        let ?t = "queuedTask (enqueueOptions opts ctx) j now"
        have "delegationInv (d5\<lparr>db_tasks := db_tasks d5 @ [?t]\<rparr>)"
          using i5 tasksOk_insert 1(3) by (auto simp: delegationInv_def taskTimes_def queuedTask_def)
        then have i6: "delegationInv d6" using delegation.I_tables [OF 1(4)] by blast
        from del [unfolded Inr] have "db_agents d' = db_agents d6 \<and> db_sessions d' = db_sessions d6 \<and> db_tasks d' = db_tasks d6"
          using \<open>db_tasks d' = db_tasks d6\<close> \<open>db_sessions d' = db_sessions d6\<close> \<open>db_agents d' = db_agents d6\<close> by simp
        then show ?thesis
          using i6 by (simp add: delegationInv_def tasksOk_def taskRefs_def sessionExists_def agentExists_def cong: option.case_cong)
      qed
    qed
  qed
qed

text \<open>The steps of the delegation service; the worker's own updates of a task are among them.\<close>

datatype delegationLabel =
    LDelegate DelegateOptions | LClaim string | LStatus string string DelegatedTaskStatus "string option"
  | LChild string string string | LComplete string string "rat option" | LFail string string string | LCancel string string

inductive delegationStep :: "db \<Rightarrow> delegationLabel \<Rightarrow> db \<Rightarrow> bool" where
  step_delegate: "(\<And>c. readOnly (build c)) \<Longrightarrow> Delegate build opts d = (r, d') \<Longrightarrow> delegationStep d (LDelegate opts) d'"
| step_claim: "ClaimNextTask a d = (r1, d') \<Longrightarrow> delegationStep d (LClaim a) d'"
| step_status: "UpdateDelegatedTaskStatus i u s e d = (r2, d') \<Longrightarrow> delegationStep d (LStatus i u s e) d'"
| step_child: "UpdateDelegatedTaskChild i u c d = (r3, d') \<Longrightarrow> delegationStep d (LChild i u c) d'"
| step_complete: "OnTaskComplete i u co d = (r4, d') \<Longrightarrow> delegationStep d (LComplete i u co) d'"
| step_fail: "OnTaskFailed i u m d = (r5, d') \<Longrightarrow> delegationStep d (LFail i u m) d'"
| step_cancel: "CancelTask i u d = (r6, d') \<Longrightarrow> delegationStep d (LCancel i u) d'"

interpretation delegation_service: invariant_machine "\<lambda>d. db_tasks d = []" delegationStep delegationInv
proof
  fix d :: db
  assume "db_tasks d = []"
  then show "delegationInv d" by (simp add: delegationInv_def tasksOk_def uniqueCol_def)
next
  fix d l d'
  assume "delegationInv d" "delegationStep d l d'"
  then show "delegationInv d'"
    by (cases rule: delegationStep.cases [consumes 1, of d l d', rotated])
      (blast intro: delegation.keptD kept_Delegate kept_claim kept_status kept_child kept_OnTaskComplete
        kept_OnTaskFailed kept_CancelTask)+
qed

text \<open>
  C15. In every state that delegations, claims, the worker's updates, completions, failures and
  cancellations can reach from an empty task table, in any order and with any failing
  statements: task ids are different, no two tasks have the same parent session or the same child session, every task
  refers to existing agents and sessions, a claimed task has its claim time and a done, failed or cancelled task its completion time.
\<close>

theorem delegation_tables_stay_consistent:
  assumes "reach (\<lambda>d. db_tasks d = []) delegationStep d"
  shows "distinct (map t_ID (db_tasks d))
    \<and> uniqueCol t_ParentSessionID (db_tasks d) \<and> uniqueCol t_ChildSessionID (db_tasks d)
    \<and> (\<forall>t \<in> set (db_tasks d). taskRefs d t \<and> taskTimes t)"
  using delegation_service.inv_reachable [OF assms] by (simp add: delegationInv_def tasksOk_def)

theorem delegation_tables_stay_consistent_witness:
  "\<exists>d. reach (\<lambda>d. db_tasks d = []) delegationStep d \<and> db_tasks d \<noteq> [] \<and> distinct (map t_ID (db_tasks d))"
proof -
  let ?d = "sampleDb\<lparr>db_tasks := []\<rparr>"
  obtain resp d' where del: "Delegate plainContext sampleOptions ?d = (Inr resp, d')"
    using sample_delegation by (metis prod.collapse sum.collapse(2))
  have "reach (\<lambda>d. db_tasks d = []) delegationStep ?d" by (rule reach_start) simp
  moreover have "delegationStep ?d (LDelegate sampleOptions) d'" using readOnly_plainContext del by (rule step_delegate)
  ultimately have r: "reach (\<lambda>d. db_tasks d = []) delegationStep d'" by (rule reach_step)
  moreover from del have "db_tasks d' \<noteq> []"
  proof (rule Delegate_Inr [OF _ readOnly_plainContext], goal_cases)
    case (1 fa ta ctx task d5 d6)
    from \<open>EnqueueTask _ d5 = _\<close> show ?thesis
    proof (rule EnqueueTask_Inr, goal_cases)
      case (1 i now)
      from tables_eqD(3) [OF 1(4)] \<open>db_tasks d' = db_tasks d6\<close> show ?thesis by simp
    qed
  qed
  ultimately show ?thesis using delegation_tables_stay_consistent [OF r] by blast
qed

section \<open>Finishing a task\<close>

lemma execStmt_tasks:
  assumes "execStmt m (updateTasks P f) d = (Inr x, d')"
  shows "db_tasks d' = updateRows P f (db_tasks d)" "db_sessions d' = db_sessions d"
proof -
  obtain d1 where "tables d1 = tables d" "d' = updateTasks P f d1"
    using execStmt_Inr [of m "updateTasks P f" d d'] assms by auto
  then show "db_tasks d' = updateRows P f (db_tasks d)" "db_sessions d' = db_sessions d"
    using tables_eqD(2,3) [of d1 d] by (simp_all add: frame_simps)
qed

lemma CompleteTask_tasks:
  assumes "CompleteTask i u c d = (Inr x, d')"
  shows "\<exists>now. db_tasks d' = updateRows (taskIs i u)
      (\<lambda>t. t\<lparr>t_Status := TaskDone, t_CompletedAt := Some now, t_ActualCostUSD := c\<rparr>) (db_tasks d)"
proof -
  obtain now d1 where t: "timeNow d = (now, d1)" by (cases "timeNow d")
  from execStmt_tasks(1) [OF assms [unfolded CompleteTask_def t Let_def prod.case]] tables_eqD(3) [OF timeNow_tables [OF t]]
  show ?thesis by auto
qed

lemma UpdateStatus_tasks:
  assumes "UpdateDelegatedTaskStatus i u s e d = (Inr x, d')"
  shows "\<exists>now. db_tasks d' = updateRows (taskIs i u) (setStatus s e now) (db_tasks d)" "db_sessions d' = db_sessions d"
proof -
  obtain now d1 where t: "timeNow d = (now, d1)" by (cases "timeNow d")
  from execStmt_tasks [OF assms [unfolded UpdateDelegatedTaskStatus_def t Let_def prod.case]] tables_eqD(2,3) [OF timeNow_tables [OF t]]
  show "\<exists>now. db_tasks d' = updateRows (taskIs i u) (setStatus s e now) (db_tasks d)" "db_sessions d' = db_sessions d"
    by auto
qed

text \<open>Closing a task and then taking it off the other tasks' lists, in one pass over the table.\<close>

lemma close_then_resolve:
  assumes "\<And>t. t_Status (f t) \<noteq> TaskPending"
  shows "updateRows (\<lambda>t. t_UserID t = u \<and> t_Status t = TaskPending \<and> i \<in> set (t_BlockedBy t))
      (\<lambda>t. t\<lparr>t_BlockedBy := removeAll i (t_BlockedBy t)\<rparr>) (updateRows (taskIs i u) f ts)
    = map (\<lambda>t. if taskIs i u t then f t
        else if t_UserID t = u \<and> t_Status t = TaskPending then t\<lparr>t_BlockedBy := removeAll i (t_BlockedBy t)\<rparr>
        else t) ts"
  using assms by (simp add: updateRows_def)

lemma GetDelegatedTaskByID_found:
  assumes "GetDelegatedTaskByID i u d = (Inr found, d')"
  shows "tables d' = tables d" "found = List.find (taskIs i u) (db_tasks d)"
proof -
  show t: "tables d' = tables d" using readOnlyD [OF readOnly_GetDelegatedTaskByID assms] .
  show "found = List.find (taskIs i u) (db_tasks d)"
    using queryRow_result [OF assms [unfolded GetDelegatedTaskByID_def]] unfolding tables_eqD(3) [OF t] .
qed

lemma tryCall_found:
  assumes "tryCall msg (GetDelegatedTaskByID i u) k d = (Inr x, d')" "List.find (taskIs i u) (db_tasks d) = Some t"
  obtains d1 where "GetDelegatedTaskByID i u d = (Inr (Some t), d1)"
proof -
  obtain v d1 where v: "GetDelegatedTaskByID i u d = (Inr v, d1)" using tryCall_Inr [OF assms(1)] by blast
  from GetDelegatedTaskByID_found(2) [OF v] assms(2) v that show thesis by simp
qed

lemma taskIs_found: "list_ex (taskIs i u) ts \<Longrightarrow> \<exists>t. List.find (taskIs i u) ts = Some t \<and> t_UserID t = u"
  by (induction ts) (auto simp: taskIs_def)

lemma finished_task_blocks_nobody_facts:
  assumes "list_ex (taskIs i u) (db_tasks d)"
  defines "unblock \<equiv> \<lambda>t. if t_UserID t = u \<and> t_Status t = TaskPending then t\<lparr>t_BlockedBy := removeAll i (t_BlockedBy t)\<rparr> else t"
  shows "OnTaskComplete i u c d = (Inr x, d') \<Longrightarrow> \<exists>now. db_tasks d' =
      map (\<lambda>t. if taskIs i u t then t\<lparr>t_Status := TaskDone, t_CompletedAt := Some now, t_ActualCostUSD := c\<rparr> else unblock t)
        (db_tasks d)"
    and "OnTaskFailed i u m d = (Inr x, d') \<Longrightarrow> \<exists>now. db_tasks d' =
      map (\<lambda>t. if taskIs i u t then t\<lparr>t_Status := TaskFailed, t_ErrorMessage := Some (take 500 m), t_CompletedAt := Some now\<rparr>
               else unblock t) (db_tasks d)"
proof -
  assume run: "OnTaskComplete i u c d = (Inr x, d')"
  obtain t where t: "List.find (taskIs i u) (db_tasks d) = Some t" "t_UserID t = u" using taskIs_found assms(1) by blast
  obtain d1 where d1: "GetDelegatedTaskByID i u d = (Inr (Some t), d1)"
    using run [unfolded OnTaskComplete_def] t(1) by (rule tryCall_found)
  obtain y d2 where d2: "CompleteTask i u c d1 = (Inr y, d2)"
    and rest: "tryCall ''resolve dependencies'' (ResolveDependencies i u)
      (\<lambda>_ d3. (Inr (), snd (LogDelegation (eventFor t ''completed'' [] c) d3))) d2 = (Inr x, d')"
    using run unfolding OnTaskComplete_def by (auto simp: tryCall_def d1 t(2) split: prod.splits sum.splits)
  obtain z d3 where d3: "ResolveDependencies i u d2 = (Inr z, d3)" "d' = snd (LogDelegation (eventFor t ''completed'' [] c) d3)"
    using rest by (auto simp: tryCall_def split: prod.splits sum.splits)
  have "db_tasks d' = db_tasks d3" using LogDelegation_frame(3) d3(2) by (metis prod.collapse)
  moreover note execStmt_tasks(1) [OF d3(1) [unfolded ResolveDependencies_def]]
  moreover obtain now where "db_tasks d2 = updateRows (taskIs i u)
      (\<lambda>t. t\<lparr>t_Status := TaskDone, t_CompletedAt := Some now, t_ActualCostUSD := c\<rparr>) (db_tasks d1)"
    using CompleteTask_tasks [OF d2] by blast
  moreover note tables_eqD(3) [OF GetDelegatedTaskByID_found(1) [OF d1]]
  moreover note close_then_resolve [of "\<lambda>t. t\<lparr>t_Status := TaskDone, t_CompletedAt := Some now, t_ActualCostUSD := c\<rparr>" u i "db_tasks d"]
  ultimately show "\<exists>now. db_tasks d' =
      map (\<lambda>t. if taskIs i u t then t\<lparr>t_Status := TaskDone, t_CompletedAt := Some now, t_ActualCostUSD := c\<rparr> else unblock t)
        (db_tasks d)"
    unfolding unblock_def by (intro exI [of _ now]) simp
next
  assume run: "OnTaskFailed i u m d = (Inr x, d')"
  obtain t where t: "List.find (taskIs i u) (db_tasks d) = Some t" "t_UserID t = u" using taskIs_found assms(1) by blast
  obtain d1 where d1: "GetDelegatedTaskByID i u d = (Inr (Some t), d1)"
    using run [unfolded OnTaskFailed_def] t(1) by (rule tryCall_found)
  obtain y d2 where d2: "UpdateDelegatedTaskStatus i u TaskFailed (Some (take 500 m)) d1 = (Inr y, d2)"
    and rest: "tryCall ''resolve dependencies'' (ResolveDependencies i u)
      (\<lambda>_ d3. (Inr (), snd (LogDelegation (eventFor t ''failed'' (take 500 m) None) d3))) d2 = (Inr x, d')"
    using run unfolding OnTaskFailed_def by (auto simp: tryCall_def d1 t(2) Let_def split: prod.splits sum.splits)
  obtain z d3 where d3: "ResolveDependencies i u d2 = (Inr z, d3)"
    "d' = snd (LogDelegation (eventFor t ''failed'' (take 500 m) None) d3)"
    using rest by (auto simp: tryCall_def split: prod.splits sum.splits)
  have "db_tasks d' = db_tasks d3" using LogDelegation_frame(3) d3(2) by (metis prod.collapse)
  moreover note execStmt_tasks(1) [OF d3(1) [unfolded ResolveDependencies_def]]
  moreover obtain now where "db_tasks d2 = updateRows (taskIs i u) (setStatus TaskFailed (Some (take 500 m)) now) (db_tasks d1)"
    using UpdateStatus_tasks(1) [OF d2] by blast
  moreover note tables_eqD(3) [OF GetDelegatedTaskByID_found(1) [OF d1]]
  moreover have "setStatus TaskFailed (Some (take 500 m)) now =
      (\<lambda>t. t\<lparr>t_Status := TaskFailed, t_ErrorMessage := Some (take 500 m), t_CompletedAt := Some now\<rparr>)"
    by (rule ext) (simp add: setStatus_def)
  moreover note close_then_resolve
    [of "\<lambda>t. t\<lparr>t_Status := TaskFailed, t_ErrorMessage := Some (take 500 m), t_CompletedAt := Some now\<rparr>" u i "db_tasks d"]
  ultimately show "\<exists>now. db_tasks d' =
      map (\<lambda>t. if taskIs i u t then t\<lparr>t_Status := TaskFailed, t_ErrorMessage := Some (take 500 m), t_CompletedAt := Some now\<rparr>
               else unblock t) (db_tasks d)"
    unfolding unblock_def by (intro exI [of _ now]) simp
qed


lemma sample_completion: "\<exists>d'. OnTaskComplete ''t2'' ''u'' (Some 1) sampleDb = (Inr (), d')"
  by (simp add: OnTaskComplete_def tryCall_def GetDelegatedTaskByID_def CompleteTask_def ResolveDependencies_def
      timeNow_def sampleDb_def sampleTask_def taskIs_def updateTasks_def)


section \<open>Cancelling a task\<close>

lemma cancelChild_sessions:
  fixes v d
  defines "d' \<equiv> (case v of None \<Rightarrow> d | Some child \<Rightarrow> snd (execStmt [] (updateSessions
       (\<lambda>s. s_ID s = child \<and> s_Status s \<in> {SessionPending, SessionRunning, SessionWaitingForClarification})
       (\<lambda>s. s\<lparr>s_Status := SessionCancelling\<rparr>)) d))"
  shows "db_tasks d' = db_tasks d"
    and "db_sessions d' = db_sessions d \<or> db_sessions d' = map (\<lambda>s. if v = Some (s_ID s)
         \<and> s_Status s \<in> {SessionPending, SessionRunning, SessionWaitingForClarification}
       then s\<lparr>s_Status := SessionCancelling\<rparr> else s) (db_sessions d)"
proof -
  obtain e d1 where s: "statement d = (e, d1)" by (cases "statement d")
  note eq = tables_eqD(2,3) [OF statement_tables [OF s]]
  show "db_tasks d' = db_tasks d"
    using eq unfolding d'_def by (auto simp: execStmt_def s frame_simps split: option.splits)
  show "db_sessions d' = db_sessions d \<or> db_sessions d' = map (\<lambda>s. if v = Some (s_ID s)
         \<and> s_Status s \<in> {SessionPending, SessionRunning, SessionWaitingForClarification}
       then s\<lparr>s_Status := SessionCancelling\<rparr> else s) (db_sessions d)"
    using eq unfolding d'_def by (cases v; cases e) (simp_all add: execStmt_def s frame_simps updateRows_def eq_commute)
qed

text \<open>
  C17. Cancelling acts on active tasks only. A task that is done, failed or cancelled (or does
  not exist) is left alone with everything else; an active one becomes cancelled with its completion time and is taken off the lists
  of the user's pending tasks, and of the sessions at most its own child session changes, from an
  open status to cancelling.
\<close>

theorem cancel_acts_on_active_tasks_only:
  assumes "CancelTask i u d = (Inr x, d')"
  shows "case List.find (taskIs i u) (db_tasks d) of
      None \<Rightarrow> tables d' = tables d
    | Some t \<Rightarrow>
        if \<not> activeStatus (t_Status t) then tables d' = tables d
        else (\<exists>now. db_tasks d' = map (\<lambda>v. if taskIs i u v
                then v\<lparr>t_Status := TaskCancelled, t_ErrorMessage := None, t_CompletedAt := Some now\<rparr>
                else if t_UserID v = u \<and> t_Status v = TaskPending then v\<lparr>t_BlockedBy := removeAll i (t_BlockedBy v)\<rparr>
                else v) (db_tasks d))
          \<and> (db_sessions d' = db_sessions d \<or> db_sessions d' = map (\<lambda>s. if t_ChildSessionID t = Some (s_ID s)
               \<and> s_Status s \<in> {SessionPending, SessionRunning, SessionWaitingForClarification}
               then s\<lparr>s_Status := SessionCancelling\<rparr> else s) (db_sessions d))"
proof -
  obtain found d1 where f: "GetDelegatedTaskByID i u d = (Inr found, d1)"
    using tryCall_Inr [OF assms [unfolded CancelTask_def]] by blast
  have e1: "tables d1 = tables d" and found: "found = List.find (taskIs i u) (db_tasks d)"
    using GetDelegatedTaskByID_found [OF f] .
  show ?thesis
  proof (cases "found = None \<or> (\<exists>t. found = Some t \<and> \<not> activeStatus (t_Status t))")
    case True
    then have "d' = d1" using assms by (auto simp: CancelTask_def tryCall_def f)
    with True e1 found show ?thesis by (auto split: option.splits)
  next
    case False
    then obtain t where t: "found = Some t" "activeStatus (t_Status t)" by auto
    have user: "t_UserID t = u"
      using find_Some_iff_mem [of "taskIs i u" "db_tasks d" t] found t by (simp add: taskIs_def)
    obtain y d2 where d2: "UpdateDelegatedTaskStatus i u TaskCancelled None d1 = (Inr y, d2)"
      using assms by (auto simp: CancelTask_def tryCall_def f t split: prod.splits sum.splits)
    define d3 where "d3 = (case t_ChildSessionID t of None \<Rightarrow> d2 | Some child \<Rightarrow> snd (execStmt [] (updateSessions
         (\<lambda>s. s_ID s = child \<and> s_Status s \<in> {SessionPending, SessionRunning, SessionWaitingForClarification})
         (\<lambda>s. s\<lparr>s_Status := SessionCancelling\<rparr>)) d2))"
    have "tryCall ''resolve dependencies'' (ResolveDependencies i u) (\<lambda>_ d4. (Inr (), d4)) d3 = (Inr x, d')"
      using assms unfolding d3_def by (simp add: CancelTask_def tryCall_def f t d2 user Let_def)
    then obtain z where d4: "ResolveDependencies i u d3 = (Inr z, d')"
      by (auto simp: tryCall_def split: prod.splits sum.splits)
    note res = execStmt_tasks [OF d4 [unfolded ResolveDependencies_def]]
    note ch = cancelChild_sessions [of d2 "t_ChildSessionID t", folded d3_def]
    obtain now where now: "db_tasks d2 = updateRows (taskIs i u) (setStatus TaskCancelled None now) (db_tasks d1)"
      using UpdateStatus_tasks(1) [OF d2] by blast
    have st: "setStatus TaskCancelled None now =
        (\<lambda>v. v\<lparr>t_Status := TaskCancelled, t_ErrorMessage := None, t_CompletedAt := Some now\<rparr>)"
      by (rule ext) (simp add: setStatus_def)
    have tasks: "db_tasks d' = map (\<lambda>v. if taskIs i u v
                then v\<lparr>t_Status := TaskCancelled, t_ErrorMessage := None, t_CompletedAt := Some now\<rparr>
                else if t_UserID v = u \<and> t_Status v = TaskPending then v\<lparr>t_BlockedBy := removeAll i (t_BlockedBy v)\<rparr>
                else v) (db_tasks d)"
      using close_then_resolve [of "\<lambda>v. v\<lparr>t_Status := TaskCancelled, t_ErrorMessage := None, t_CompletedAt := Some now\<rparr>" u i "db_tasks d"]
      unfolding res(1) ch(1) now st tables_eqD(3) [OF e1] by simp
    have "db_sessions d2 = db_sessions d" using UpdateStatus_tasks(2) [OF d2] tables_eqD(2) [OF e1] by simp
    with ch(2) res(2) tasks t found show ?thesis by auto
  qed
qed

lemma sample_cancel: "\<exists>d'. CancelTask ''t2'' ''u'' sampleDb = (Inr (), d')"
  by (simp add: CancelTask_def tryCall_def GetDelegatedTaskByID_def UpdateDelegatedTaskStatus_def ResolveDependencies_def
      timeNow_def sampleDb_def sampleTask_def taskIs_def updateTasks_def activeStatus_def)

theorem cancel_acts_on_active_tasks_only_witness:
  "\<exists>d'. CancelTask ''t2'' ''u'' sampleDb = (Inr (), d') \<and> sampleTask ''t3'' 90 [] \<in> set (db_tasks d')"
proof -
  obtain d' where c: "CancelTask ''t2'' ''u'' sampleDb = (Inr (), d')" using sample_cancel by blast
  have f: "List.find (taskIs ''t2'' ''u'') (db_tasks sampleDb) = Some (sampleTask ''t2'' 50 [])"
    by (simp add: sampleDb_def sampleTask_def taskIs_def)
  have "activeStatus (t_Status (sampleTask ''t2'' 50 []))" by (simp add: sampleTask_def activeStatus_def)
  with cancel_acts_on_active_tasks_only [OF c] f obtain now where
    "db_tasks d' = map (\<lambda>v. if taskIs ''t2'' ''u'' v
                then v\<lparr>t_Status := TaskCancelled, t_ErrorMessage := None, t_CompletedAt := Some now\<rparr>
                else if t_UserID v = ''u'' \<and> t_Status v = TaskPending then v\<lparr>t_BlockedBy := removeAll ''t2'' (t_BlockedBy v)\<rparr>
                else v) (db_tasks sampleDb)" by auto
  then have "sampleTask ''t3'' 90 [] \<in> set (db_tasks d')" by (simp add: sampleDb_def sampleTask_def taskIs_def)
  with c show ?thesis by blast
qed

end
