(* ===== verification/Scheduler.thy ===== *)
theory Scheduler
  imports Schedules Cron Crypto Delegation
begin

text \<open>
  The scheduler of the bot: \<open>bot/scheduler/scheduler.go\<close> and \<open>executor.go\<close>. Its state is the struct \<open>Scheduler\<close> with
  the database and the caches of the process. The goroutines a poll starts are the list \<open>sd_active\<close>; one that ends
  first frees its place in the semaphore and then lowers the counter. The function that does the work
  (in \<open>bot/main.go\<close>, a container run that creates a session of its own) is the field \<open>sv_execute\<close> of the services.
\<close>

section \<open>State and parameters\<close>

definition maxConcurrent :: nat where
  "maxConcurrent = 5"

definition claimExtensionMs :: nat where
  "claimExtensionMs = 120000"

record SchedulerWorkRequest =
  rq_UserID :: string
  rq_AgentID :: string
  rq_Task :: string
  rq_Repo :: string
  rq_Provider :: LLMProvider
  rq_APIKey :: string
  rq_GithubToken :: string
  rq_AgentScope :: "string option"
  rq_BaseURL :: string
  rq_ModelID :: string

record ScheduleResult =
  sr_ScheduleName :: string
  sr_AgentName :: string
  sr_Task :: string
  sr_Status :: string
  sr_DurationMs :: nat
  sr_BranchName :: string
  sr_SessionID :: string

text \<open>What the scheduler is given: the cron library, the cryptographic primitives and the encryption key, whether a text is a JSON object, the work.\<close>

record services =
  sv_cron :: cronLib
  sv_prims :: primitives
  sv_key :: string
  sv_jsonObject :: "string \<Rightarrow> bool"
  sv_execute :: "SchedulerWorkRequest \<Rightarrow> db \<Rightarrow> unit result \<times> db"

record SchedulerState =
  sd_db :: db
  sd_zones :: zones
  sd_keys :: scryptCache
  sd_results :: "ScheduleResult list" \<comment> \<open>calls of \<open>notifyScheduleResult\<close>\<close>
  sd_stopped :: bool
  sd_isPolling :: bool
  sd_running :: nat
  sd_semaphore :: nat
  sd_active :: "AgentSchedule list"
  sd_late :: "AgentSchedule list" \<comment> \<open>executions that outlived their timeout\<close>

definition NewScheduler :: "db \<Rightarrow> zones \<Rightarrow> scryptCache \<Rightarrow> SchedulerState" where
  "NewScheduler d zs keys =
     \<lparr>sd_db = d, sd_zones = zs, sd_keys = keys, sd_results = [], sd_stopped = False, sd_isPolling = False, sd_running = 0,
      sd_semaphore = 0, sd_active = [], sd_late = []\<rparr>"

definition onDb :: "(db \<Rightarrow> 'a \<times> db) \<Rightarrow> SchedulerState \<Rightarrow> 'a \<times> SchedulerState" where
  "onDb m st = (let (r, d) = m (sd_db st) in (r, st\<lparr>sd_db := d\<rparr>))"

definition notifyScheduleResult :: "ScheduleResult \<Rightarrow> SchedulerState \<Rightarrow> SchedulerState" where
  "notifyScheduleResult r st = st\<lparr>sd_results := sd_results st @ [r]\<rparr>"

section \<open>Claiming\<close>

definition claimSchedule :: "string \<Rightarrow> nat \<Rightarrow> db \<Rightarrow> bool \<times> db" where
  "claimSchedule scheduleID expectedNextRunAt d =
     (let (now, d1) = timeNow d;
          newNextRunAt = now + claimExtensionMs;
          hit = (\<lambda>c. c_ID c = scheduleID \<and> c_NextRunAt c = expectedNextRunAt \<and> c_IsActive c)
      in case execCount '''' '''' (\<lambda>d. length (filter hit (db_schedules d)))
                (updateSchedules hit (\<lambda>c. c\<lparr>c_NextRunAt := newNextRunAt\<rparr>)) d1 of
           (Inl _, d2) \<Rightarrow> (False, d2)
         | (Inr rowsAffected, d2) \<Rightarrow> (rowsAffected > 0, d2))"

section \<open>Recording a run\<close>

definition nextRun :: "services \<Rightarrow> AgentSchedule \<Rightarrow> SchedulerState \<Rightarrow> nat result \<times> SchedulerState" where
  "nextRun W sch st =
     (let (now, st1) = onDb timeNow st;
          (r, zs) = ComputeNextRunAt (sv_cron W) now (c_CronExpression sch) (c_Timezone sch) None (sd_zones st1)
      in (r, st1\<lparr>sd_zones := zs\<rparr>))"

text \<open>\<open>nextRunAt, _ := ComputeNextRunAt(...)\<close>: an error leaves the zero time.\<close>

definition recordFailure :: "services \<Rightarrow> AgentSchedule \<Rightarrow> SchedulerState \<Rightarrow> SchedulerState" where
  "recordFailure W sch st =
     (let (r, st1) = nextRun W sch st;
          nextRunAt = (case r of Inl _ \<Rightarrow> 0 | Inr t \<Rightarrow> t)
      in snd (onDb (UpdateScheduleAfterRun (c_ID sch) ''error'' nextRunAt True) st1))"

definition failSession :: "string \<Rightarrow> string \<Rightarrow> SchedulerState \<Rightarrow> SchedulerState" where
  "failSession sid msg st = snd (onDb (UpdateSessionResult sid SessionError (Some msg) None None) st)"

text \<open>\<open>time.Now().Add(24 * time.Hour)\<close> when the next run cannot be computed.\<close>

definition nextRunOrTomorrow :: "services \<Rightarrow> AgentSchedule \<Rightarrow> SchedulerState \<Rightarrow> nat \<times> SchedulerState" where
  "nextRunOrTomorrow W sch st =
     (case nextRun W sch st of
        (Inr t, st1) \<Rightarrow> (t, st1)
      | (Inl _, st1) \<Rightarrow> (let (now, st2) = onDb timeNow st1 in (now + 86400000, st2)))"

definition markFailure :: "services \<Rightarrow> AgentSchedule \<Rightarrow> SchedulerState \<Rightarrow> SchedulerState" where
  "markFailure W sch st =
     (let (nextRunAt, st1) = nextRunOrTomorrow W sch st in
      case onDb (UpdateScheduleAfterRun (c_ID sch) ''error'' nextRunAt True) st1 of
        (Inl _, st2) \<Rightarrow> st2
      | (Inr _, st2) \<Rightarrow>
          let hit = (\<lambda>c. c_ID c = c_ID sch \<and> c_FailureCount c \<ge> 5) in
          (case onDb (execCount '''' '''' (\<lambda>d. length (filter hit (db_schedules d)))
                        (updateSchedules hit (\<lambda>c. c\<lparr>c_IsActive := False\<rparr>))) st2 of
             (Inl _, st3) \<Rightarrow> st3
           | (Inr rowsAffected, st3) \<Rightarrow>
               if rowsAffected > 0 then
                 (let (r, st4) = onDb (GetAgent (c_AgentID sch) (c_UserID sch)) st3;
                      agentName = (case r of Inr (Some a) \<Rightarrow> a_Name a | _ \<Rightarrow> c_AgentID sch)
                  in notifyScheduleResult
                       \<lparr>sr_ScheduleName = c_Name sch, sr_AgentName = agentName, sr_Task = c_Task sch, sr_Status = ''disabled'',
                        sr_DurationMs = 0, sr_BranchName = '''', sr_SessionID = ''''\<rparr> st4)
               else st3))"

section \<open>Executing\<close>

text \<open>An error carries the agent when it was found; the caller uses its name.\<close>

definition validateAndFetchScheduleData ::
    "(string \<Rightarrow> bool) \<Rightarrow> AgentSchedule \<Rightarrow> db
      \<Rightarrow> (Agent option \<times> string + Agent \<times> ApiKey \<times> GithubConnection \<times> string \<times> string option) \<times> db" where
  "validateAndFetchScheduleData jsonObject sch d =
     (case GetAgent (c_AgentID sch) (c_UserID sch) d of
        (Inl e, d1) \<Rightarrow> (Inl (None, ''get agent: '' @ e), d1)
      | (Inr None, d1) \<Rightarrow> (Inl (None, ''agent not found''), d1)
      | (Inr (Some agent), d1) \<Rightarrow>
          (case a_APIKeyID agent of
             None \<Rightarrow> (Inl (Some agent, ''agent has no API key configured''), d1)
           | Some kid \<Rightarrow>
               (case GetAPIKey kid (c_UserID sch) d1 of
                  (Inl e, d2) \<Rightarrow> (Inl (Some agent, ''get API key: '' @ e), d2)
                | (Inr None, d2) \<Rightarrow> (Inl (Some agent, ''API key not found''), d2)
                | (Inr (Some apiKey), d2) \<Rightarrow>
                    (case GetGithubConnection (c_UserID sch) d2 of
                       (Inl e, d3) \<Rightarrow> (Inl (Some agent, ''get GitHub connection: '' @ e), d3)
                     | (Inr None, d3) \<Rightarrow> (Inl (Some agent, ''GitHub connection not found''), d3)
                     | (Inr (Some conn), d3) \<Rightarrow>
                         (case gh_Repos conn of
                            [] \<Rightarrow> (Inl (Some agent, ''no repositories configured''), d3)
                          | repo # _ \<Rightarrow>
                              (Inr (agent, apiKey, conn, repo,
                                    if a_ScopeConfig agent \<noteq> [] \<and> jsonObject (a_ScopeConfig agent) then Some (a_ScopeConfig agent) else None), d3))))))"

definition scheduleSession :: "AgentSchedule \<Rightarrow> Session" where
  "scheduleSession sch =
     \<lparr>s_ID = '''', s_UserID = c_UserID sch, s_AgentID = c_AgentID sch, s_Task = c_Task sch, s_Status = SessionPending,
      s_ExecutionMode = ModeContainer, s_Output = None, s_BranchName = None, s_PrURL = None, s_Repo = None,
      s_ParentSessionID = None, s_ChainID = None, s_Position = 0, s_StartedAt = None, s_FinishedAt = None,
      s_ShareToken = None, s_ShareTokenExpiresAt = None, s_CoverageData = None, s_Starred = False,
      s_PlatformThreadID = None, s_PlatformUserID = None, s_ScheduleID = Some (c_ID sch), s_CreatedAt = 0, s_UpdatedAt = 0\<rparr>"

definition decryptSecret :: "services \<Rightarrow> string \<Rightarrow> SchedulerState \<Rightarrow> string result \<times> SchedulerState" where
  "decryptSecret W secret st =
     (let (now, st1) = onDb timeNow st;
          (r, keys) = DecryptWithKey (sv_prims W) (sv_key W) now secret (sd_keys st1)
      in (r, st1\<lparr>sd_keys := keys\<rparr>))"

definition orEmpty :: "string option \<Rightarrow> string" where
  "orEmpty v = (case v of None \<Rightarrow> '''' | Some s \<Rightarrow> s)"

text \<open>The end of \<open>executeSchedule\<close>, after the work has returned without an error.\<close>

definition finishRun :: "services \<Rightarrow> AgentSchedule \<Rightarrow> Agent \<Rightarrow> nat \<Rightarrow> string \<Rightarrow> SchedulerState \<Rightarrow> string option \<times> SchedulerState" where
  "finishRun W sch agent startTime sid st =
     (case onDb (GetSessionByID sid) st of
        (Inl e, st1) \<Rightarrow> (Some e, recordFailure W sch st1)
      | (Inr finished, st1) \<Rightarrow>
          let status = (case finished of Some s \<Rightarrow> if s_Status s = SessionDone then ''done'' else ''error'' | None \<Rightarrow> ''error'');
              (now, st2) = onDb timeNow st1;
              (nextRunAt, st3) = nextRunOrTomorrow W sch st2;
              st4 = snd (onDb (UpdateScheduleAfterRun (c_ID sch) status nextRunAt (status = ''error'')) st3);
              branchName = (case finished of Some s \<Rightarrow> orEmpty (s_BranchName s) | None \<Rightarrow> '''')
          in (None, notifyScheduleResult
                      \<lparr>sr_ScheduleName = c_Name sch, sr_AgentName = a_Name agent, sr_Task = c_Task sch, sr_Status = status,
                       sr_DurationMs = now - startTime, sr_BranchName = branchName, sr_SessionID = sid\<rparr> st4))"

text \<open>The decryption of the two secrets and the work.\<close>

definition runWork ::
    "services \<Rightarrow> AgentSchedule \<Rightarrow> nat \<Rightarrow> string \<Rightarrow> Agent \<times> ApiKey \<times> GithubConnection \<times> string \<times> string option
      \<Rightarrow> SchedulerState \<Rightarrow> string option \<times> SchedulerState" where
  "runWork W sch startTime sid fetched st =
     (let (agent, apiKey, conn, repo, scope) = fetched in
      case decryptSecret W (ak_APIKey apiKey) st of
        (Inl e, st1) \<Rightarrow> (Some e, recordFailure W sch (failSession sid ''Failed to decrypt API key'' st1))
      | (Inr key, st1) \<Rightarrow>
          (case decryptSecret W (gh_GithubToken conn) st1 of
             (Inl e, st2) \<Rightarrow> (Some e, recordFailure W sch (failSession sid ''Failed to decrypt GitHub token'' st2))
           | (Inr token, st2) \<Rightarrow>
               let req = \<lparr>rq_UserID = c_UserID sch, rq_AgentID = c_AgentID sch, rq_Task = c_Task sch, rq_Repo = repo,
                          rq_Provider = ak_Provider apiKey, rq_APIKey = key, rq_GithubToken = token, rq_AgentScope = scope,
                          rq_BaseURL = orEmpty (ak_BaseURL apiKey), rq_ModelID = orEmpty (ak_ModelID apiKey)\<rparr> in
               (case onDb (sv_execute W req) st2 of
                  (Inl e, st3) \<Rightarrow> (Some e, recordFailure W sch (failSession sid e st3))
                | (Inr _, st3) \<Rightarrow> finishRun W sch agent startTime sid st3)))"

definition executeSchedule :: "services \<Rightarrow> AgentSchedule \<Rightarrow> SchedulerState \<Rightarrow> string option \<times> SchedulerState" where
  "executeSchedule W sch st =
     (let (startTime, st1) = onDb timeNow st in
      case onDb (CreateSession (scheduleSession sch)) st1 of
        (Inl e, st2) \<Rightarrow> (Some e, recordFailure W sch st2)
      | (Inr session, st2) \<Rightarrow>
          (case onDb (validateAndFetchScheduleData (sv_jsonObject W) sch) st2 of
             (Inl (agent, msg), st3) \<Rightarrow>
               let st4 = recordFailure W sch (failSession (s_ID session) msg st3);
                   agentName = (case agent of Some a \<Rightarrow> a_Name a | None \<Rightarrow> c_AgentID sch);
                   (now, st5) = onDb timeNow st4
               in (Some ''validation failed'', notifyScheduleResult
                     \<lparr>sr_ScheduleName = c_Name sch, sr_AgentName = agentName, sr_Task = c_Task sch, sr_Status = ''error'',
                      sr_DurationMs = now - startTime, sr_BranchName = '''', sr_SessionID = s_ID session\<rparr> st5)
           | (Inr fetched, st3) \<Rightarrow>
               let repo = (case fetched of (_, _, _, r, _) \<Rightarrow> r);
                   st4 = snd (onDb (execStmt '''' (updateSessions (\<lambda>s. s_ID s = s_ID session) (\<lambda>s. s\<lparr>s_Repo := Some repo\<rparr>))) st3)
               in runWork W sch startTime (s_ID session) fetched st4))"

text \<open>A run that ends within the timeout; after the timeout only \<open>markFailure\<close> is called and the run goes on by itself.\<close>

definition executeWithTimeout :: "services \<Rightarrow> bool \<Rightarrow> AgentSchedule \<Rightarrow> SchedulerState \<Rightarrow> SchedulerState" where
  "executeWithTimeout W timedOut sch st =
     (if timedOut then markFailure W sch (st\<lparr>sd_late := sd_late st @ [sch]\<rparr>)
      else case executeSchedule W sch st of
             (Some e, st1) \<Rightarrow> markFailure W sch st1
           | (None, st1) \<Rightarrow> st1)"

section \<open>Polling\<close>

text \<open>
  The loop over the due schedules: \<open>slots\<close> is what remains of the slots counted before it. When the
  semaphore has no place, the run is recorded as failed; the \<open>break\<close> there leaves the \<open>select\<close> only.
\<close>

fun pollLoop :: "services \<Rightarrow> nat \<Rightarrow> AgentSchedule list \<Rightarrow> SchedulerState \<Rightarrow> SchedulerState" where
  "pollLoop W slots [] st = st"
| "pollLoop W slots (sch # rest) st =
     (if sd_stopped st then st
      else case slots of
             0 \<Rightarrow> st
           | Suc left \<Rightarrow>
               (case onDb (claimSchedule (c_ID sch) (c_NextRunAt sch)) st of
                  (False, st1) \<Rightarrow> pollLoop W left rest st1
                | (True, st1) \<Rightarrow>
                    if sd_semaphore st1 < maxConcurrent
                    then pollLoop W left rest
                           (st1\<lparr>sd_semaphore := sd_semaphore st1 + 1, sd_running := sd_running st1 + 1, sd_active := sd_active st1 @ [sch]\<rparr>)
                    else pollLoop W left rest (recordFailure W sch st1)))"

definition poll :: "services \<Rightarrow> SchedulerState \<Rightarrow> SchedulerState" where
  "poll W st =
     (if sd_isPolling st then st
      else if sd_stopped st then st
      else
        let st0 = st\<lparr>sd_isPolling := True\<rparr>;
            slots = int maxConcurrent - int (sd_running st0)
        in (if slots \<le> 0 then st0
            else let (now, st1) = onDb timeNow st0 in
              (case onDb (GetDueSchedules now) st1 of
                 (Inl _, st2) \<Rightarrow> st2
               | (Inr due, st2) \<Rightarrow> pollLoop W (nat slots) due st2))\<lparr>sd_isPolling := False\<rparr>)"

definition Stop :: "SchedulerState \<Rightarrow> SchedulerState" where
  "Stop st = st\<lparr>sd_stopped := True\<rparr>"

section \<open>Claims are exclusive\<close>

lemma execCount_outcome:
  assumes "execCount a b count upd d = (r, d')"
  shows "(\<exists>e. r = Inl e) \<and> tables d' = tables d \<and> clock d' = clock d
    \<or> (\<exists>d1. tables d1 = tables d \<and> clock d1 = clock d \<and> tables d' = tables (upd d1) \<and> clock d' = clock (upd d1)
         \<and> ((\<exists>e. r = Inl e) \<or> r = Inr (count d1)))"
proof -
  obtain o1 d1 where s1: "statement d = (o1, d1)" by (cases "statement d")
  obtain o2 d2 where s2: "statement (upd d1) = (o2, d2)" by (cases "statement (upd d1)")
  note t = statement_tables [OF s1] statement_tables [OF s2] statement_other [OF s1] statement_other [OF s2]
  show ?thesis
  proof (cases o1)
    case None
    with assms s1 s2 have "d' = d2" "(\<exists>e. r = Inl e) \<or> r = Inr (count d1)"
      by (auto simp: execCount_def split: option.splits)
    with t show ?thesis by (intro disjI2 exI [of _ d1]) simp
  next
    case (Some e)
    with assms s1 t show ?thesis by (intro disjI1) (auto simp: execCount_def)
  qed
qed

definition claimable_now :: "string \<Rightarrow> nat \<Rightarrow> AgentSchedule \<Rightarrow> bool" where
  "claimable_now cid expected c \<longleftrightarrow> c_ID c = cid \<and> c_NextRunAt c = expected \<and> c_IsActive c"

text \<open>A claim fails without a trace, or moves every row it hits two minutes into the future.\<close>

lemma claimSchedule_outcome:
  assumes "claimSchedule cid expected d = (b, d')"
  shows "clock d \<le> clock d'
    \<and> (\<not> b \<and> db_schedules d' = db_schedules d
       \<or> db_schedules d' = updateRows (claimable_now cid expected) (\<lambda>c. c\<lparr>c_NextRunAt := clock d' + claimExtensionMs\<rparr>) (db_schedules d)
         \<and> (b \<longrightarrow> (\<exists>c \<in> set (db_schedules d). claimable_now cid expected c)))"
proof -
  obtain now d1 where t: "timeNow d = (now, d1)" by (cases "timeNow d")
  let ?hit = "claimable_now cid expected"
  have hit: "?hit = (\<lambda>c. c_ID c = cid \<and> c_NextRunAt c = expected \<and> c_IsActive c)" by (rule ext) (simp add: claimable_now_def)
  obtain r d2 where e: "execCount '''' '''' (\<lambda>d. length (filter ?hit (db_schedules d)))
      (updateSchedules ?hit (\<lambda>c. c\<lparr>c_NextRunAt := now + claimExtensionMs\<rparr>)) d1 = (r, d2)"
    by (cases "execCount '''' '''' (\<lambda>d. length (filter ?hit (db_schedules d)))
      (updateSchedules ?hit (\<lambda>c. c\<lparr>c_NextRunAt := now + claimExtensionMs\<rparr>)) d1")
  have b: "d' = d2" "b = (\<exists>n. r = Inr n \<and> n > 0)"
    using assms e unfolding claimSchedule_def t hit by (auto simp: Let_def split: sum.splits)
  have c: "clock d1 = now" "clock d \<le> now" "db_schedules d1 = db_schedules d"
    using timeNow_other [OF t] tables_eqD(6) [OF timeNow_tables [OF t]] by auto
  let ?upd = "updateSchedules ?hit (\<lambda>c. c\<lparr>c_NextRunAt := now + claimExtensionMs\<rparr>)"
  consider (failed) "tables d2 = tables d1" "clock d2 = clock d1" "\<exists>er. r = Inl er"
    | (updated) d3 where "tables d3 = tables d1" "clock d3 = clock d1" "tables d2 = tables (?upd d3)" "clock d2 = clock (?upd d3)"
        "(\<exists>er. r = Inl er) \<or> r = Inr (length (filter ?hit (db_schedules d3)))"
    using execCount_outcome [OF e] by blast
  then show ?thesis
  proof cases
    case failed
    then show ?thesis using b c tables_eqD(6) [OF failed(1)] by auto
  next
    case updated
    have "db_schedules d2 = updateRows ?hit (\<lambda>c. c\<lparr>c_NextRunAt := now + claimExtensionMs\<rparr>) (db_schedules d)" "clock d2 = now"
      using tables_eqD(6) [OF updated(1)] tables_eqD(6) [OF updated(3)] updated(2,4) c by (simp_all add: updateSchedules_def)
    moreover have "filter ?hit (db_schedules d) \<noteq> []" if b
      using that b(2) updated(5) tables_eqD(6) [OF updated(1)] c(3) by auto
    ultimately show ?thesis using b(1) c(2) by (auto simp: filter_empty_conv)
  qed
qed

text \<open>Claims of any pollers, one after the other.\<close>

fun claims :: "(string \<times> nat) list \<Rightarrow> db \<Rightarrow> (string \<times> nat) list \<times> db" where
  "claims [] d = ([], d)"
| "claims ((cid, expected) # rest) d =
     (let (b, d1) = claimSchedule cid expected d; (won, d2) = claims rest d1
      in (if b then (cid, expected) # won else won, d2))"

lemma claim_leaves_none:
  assumes "claimSchedule i n d = (b, d')" "expected \<le> clock d"
    and "b \<and> (i, n) = (cid, expected) \<or> (\<forall>c \<in> set (db_schedules d). \<not> claimable_now cid expected c)"
  shows "\<forall>c \<in> set (db_schedules d'). \<not> claimable_now cid expected c"
proof -
  have o: "clock d \<le> clock d'" "\<not> b \<and> db_schedules d' = db_schedules d
      \<or> db_schedules d' = updateRows (claimable_now i n) (\<lambda>c. c\<lparr>c_NextRunAt := clock d' + claimExtensionMs\<rparr>) (db_schedules d)"
    using claimSchedule_outcome [OF assms(1)] by auto
  have moved: "\<not> claimable_now cid expected (c\<lparr>c_NextRunAt := clock d' + claimExtensionMs\<rparr>)" for c
    using o(1) assms(2) by (simp add: claimable_now_def claimExtensionMs_def)
  have "\<not> claimable_now cid expected (if claimable_now i n c then c\<lparr>c_NextRunAt := clock d' + claimExtensionMs\<rparr> else c)"
    if "c \<in> set (db_schedules d)" for c
    using that assms(3) moved by (cases "claimable_now i n c") auto
  then have "\<forall>c \<in> set (updateRows (claimable_now i n) (\<lambda>c. c\<lparr>c_NextRunAt := clock d' + claimExtensionMs\<rparr>) (db_schedules d)).
      \<not> claimable_now cid expected c" unfolding updateRows_def set_map by blast
  then show ?thesis using o(2) assms(3) by metis
qed

lemma claims_skip_taken:
  assumes "\<forall>c \<in> set (db_schedules d). \<not> claimable_now cid expected c" "expected \<le> clock d"
  shows "(cid, expected) \<notin> set (fst (claims pairs d))"
  using assms
proof (induction pairs arbitrary: d)
  case (Cons p rest)
  obtain i n where p: "p = (i, n)" by (cases p)
  obtain b d1 where c: "claimSchedule i n d = (b, d1)" by (cases "claimSchedule i n d")
  have "(cid, expected) \<notin> set (fst (claims rest d1))"
    using Cons.IH [of d1] claim_leaves_none [OF c Cons.prems(2)] Cons.prems claimSchedule_outcome [OF c] by auto
  moreover have "b \<Longrightarrow> (i, n) \<noteq> (cid, expected)" using claimSchedule_outcome [OF c] Cons.prems(1) by auto
  ultimately show ?case using p c by (auto simp: Let_def split: prod.splits)
qed simp

text \<open>
  A due run is claimed once. When any number of pollers try, in any order and with any statement failing, to claim schedules
  for the due times they have read, no due time of a schedule is claimed by two of them.
\<close>

theorem due_run_is_claimed_once:
  assumes "\<forall>(cid, expected) \<in> set pairs. expected \<le> clock d"
  shows "distinct (fst (claims pairs d))"
  using assms
proof (induction pairs arbitrary: d)
  case (Cons p rest)
  obtain i n where p: "p = (i, n)" by (cases p)
  obtain b d1 where c: "claimSchedule i n d = (b, d1)" by (cases "claimSchedule i n d")
  have le: "clock d \<le> clock d1" using claimSchedule_outcome [OF c] by simp
  then have "\<forall>(cid, expected) \<in> set rest. expected \<le> clock d1" using Cons.prems by force
  then have "distinct (fst (claims rest d1))" by (rule Cons.IH)
  moreover have "(i, n) \<notin> set (fst (claims rest d1))" if b
    using that Cons.prems p le by (intro claims_skip_taken claim_leaves_none [OF c]) auto
  ultimately show ?case using p c by (auto simp: Let_def split: prod.splits)
qed simp

section \<open>At most five runs at a time\<close>

definition frame :: "SchedulerState \<Rightarrow> nat \<times> nat \<times> AgentSchedule list \<times> bool \<times> bool" where
  "frame st = (sd_running st, sd_semaphore st, sd_active st, sd_isPolling st, sd_stopped st)"

lemma frame_onDb [frame_simps]: "onDb m st = (r, st') \<Longrightarrow> frame st' = frame st"
  by (auto simp: onDb_def frame_def split: prod.splits)

lemma frame_snd_onDb [frame_simps]: "frame (snd (onDb m st)) = frame st"
  by (simp add: onDb_def frame_def split: prod.splits)

lemma frame_notify [frame_simps]: "frame (notifyScheduleResult r st) = frame st"
  by (simp add: notifyScheduleResult_def frame_def)

lemma frame_nextRun: "nextRun W sch st = (r, st') \<Longrightarrow> frame st' = frame st"
  by (auto simp: nextRun_def Let_def frame_def onDb_def split: prod.splits)

lemma frame_recordFailure [frame_simps]: "frame (recordFailure W sch st) = frame st"
  by (auto simp: recordFailure_def Let_def frame_snd_onDb split: prod.split dest: frame_nextRun)

lemma frame_failSession [frame_simps]: "frame (failSession sid msg st) = frame st"
  by (simp add: failSession_def frame_snd_onDb)

lemma frame_nextRunOrTomorrow: "nextRunOrTomorrow W sch st = (t, st') \<Longrightarrow> frame st' = frame st"
  by (auto simp: nextRunOrTomorrow_def split: prod.splits sum.splits dest!: frame_nextRun frame_onDb)

lemma frame_markFailure [frame_simps]: "frame (markFailure W sch st) = frame st"
  unfolding markFailure_def Let_def
  by (auto simp: frame_notify split: prod.splits sum.splits if_splits dest!: frame_nextRunOrTomorrow frame_onDb)

lemma frame_decryptSecret: "decryptSecret W s st = (r, st') \<Longrightarrow> frame st' = frame st"
  by (auto simp: decryptSecret_def Let_def frame_def onDb_def split: prod.splits)

lemma frame_finishRun: "finishRun W sch agent t sid st = (r, st') \<Longrightarrow> frame st' = frame st"
  unfolding finishRun_def Let_def
  by (auto simp: frame_notify frame_recordFailure frame_snd_onDb split: prod.splits sum.splits dest!: frame_nextRunOrTomorrow frame_onDb)

lemma frame_runWork: "runWork W sch t sid fetched st = (r, st') \<Longrightarrow> frame st' = frame st"
  unfolding runWork_def Let_def
  by (auto simp: frame_recordFailure frame_failSession split: prod.splits sum.splits
      dest!: frame_decryptSecret frame_onDb frame_finishRun)

lemma frame_executeSchedule: "executeSchedule W sch st = (r, st') \<Longrightarrow> frame st' = frame st"
  unfolding executeSchedule_def Let_def
  by (auto simp: frame_recordFailure frame_failSession frame_notify frame_snd_onDb split: prod.splits sum.splits
      dest!: frame_onDb frame_runWork)

lemma frame_executeWithTimeout [frame_simps]: "frame (executeWithTimeout W b sch st) = frame st"
proof -
  have "frame (st\<lparr>sd_late := x\<rparr>) = frame st" for x by (simp add: frame_def)
  then show ?thesis
    unfolding executeWithTimeout_def
    by (auto simp: frame_markFailure split: prod.split option.split dest: frame_executeSchedule)
qed

text \<open>
  The steps of the scheduler: a poll, the end of the run at position \<open>i\<close> of the active ones (which frees its place in
  the semaphore), the decrement of the counter that follows, a run that ends after its timeout, and \<open>Stop\<close>.
\<close>

datatype schedulerOp = OpPoll | OpEnd nat bool | OpDecrement | OpLate nat | OpStop

fun schedulerStep :: "services \<Rightarrow> SchedulerState \<Rightarrow> schedulerOp \<Rightarrow> SchedulerState" where
  "schedulerStep W st OpPoll = poll W st"
| "schedulerStep W st (OpEnd i timedOut) =
     (if i < length (sd_active st)
      then (executeWithTimeout W timedOut (sd_active st ! i) st)
             \<lparr>sd_active := take i (sd_active st) @ drop (Suc i) (sd_active st), sd_semaphore := sd_semaphore st - 1\<rparr>
      else st)"
| "schedulerStep W st OpDecrement = (if sd_semaphore st < sd_running st then st\<lparr>sd_running := sd_running st - 1\<rparr> else st)"
| "schedulerStep W st (OpLate i) =
     (if i < length (sd_late st)
      then (snd (executeSchedule W (sd_late st ! i) st))\<lparr>sd_late := take i (sd_late st) @ drop (Suc i) (sd_late st)\<rparr> else st)"
| "schedulerStep W st OpStop = Stop st"

definition slotsOk :: "SchedulerState \<Rightarrow> bool" where
  "slotsOk st \<longleftrightarrow> length (sd_active st) = sd_semaphore st \<and> sd_semaphore st \<le> sd_running st \<and> sd_running st \<le> maxConcurrent
     \<and> \<not> sd_isPolling st"

lemma slotsOk_frame: "frame st' = frame st \<Longrightarrow> slotsOk st' = slotsOk st"
  by (simp add: slotsOk_def frame_def)

text \<open>With free slots the loop never meets a full semaphore, so it does not even look at the services.\<close>

lemma pollLoop_slots:
  assumes "length (sd_active st) = sd_semaphore st" "sd_semaphore st \<le> sd_running st" "sd_running st + slots \<le> maxConcurrent"
  shows "length (sd_active (pollLoop W slots due st)) = sd_semaphore (pollLoop W slots due st)
    \<and> sd_semaphore (pollLoop W slots due st) \<le> sd_running (pollLoop W slots due st)
    \<and> sd_running (pollLoop W slots due st) \<le> maxConcurrent \<and> sd_isPolling (pollLoop W slots due st) = sd_isPolling st
    \<and> pollLoop W slots due st = pollLoop W' slots due st"
  using assms
proof (induction due arbitrary: slots st)
  case Nil
  then show ?case by (simp add: maxConcurrent_def)
next
  case (Cons sch rest)
  show ?case
  proof (cases "sd_stopped st \<or> slots = 0")
    case True
    then show ?thesis using Cons.prems by (auto split: nat.splits)
  next
    case False
    then obtain left where left: "slots = Suc left" by (cases slots) auto
    obtain b st1 where c: "onDb (claimSchedule (c_ID sch) (c_NextRunAt sch)) st = (b, st1)"
      by (cases "onDb (claimSchedule (c_ID sch) (c_NextRunAt sch)) st")
    have f: "sd_running st1 = sd_running st" "sd_semaphore st1 = sd_semaphore st" "sd_active st1 = sd_active st" "sd_isPolling st1 = sd_isPolling st"
      using frame_onDb [OF c] by (auto simp: frame_def)
    let ?next = "if b then st1\<lparr>sd_semaphore := sd_semaphore st1 + 1, sd_running := sd_running st1 + 1, sd_active := sd_active st1 @ [sch]\<rparr> else st1"
    have loop: "pollLoop V slots (sch # rest) st = pollLoop V left rest ?next" for V
      using False left c f Cons.prems by (auto simp: maxConcurrent_def)
    have same: "sd_isPolling ?next = sd_isPolling st" using f by simp
    have "length (sd_active ?next) = sd_semaphore ?next" "sd_semaphore ?next \<le> sd_running ?next" "sd_running ?next + left \<le> maxConcurrent"
      using Cons.prems f left by auto
    from Cons.IH [OF this] show ?thesis unfolding loop using same by metis
  qed
qed

lemma poll_slots:
  assumes "slotsOk st"
  shows "slotsOk (poll W st)" "poll W st = poll W' st"
proof -
  let ?st0 = "st\<lparr>sd_isPolling := True\<rparr>"
  have run: "slotsOk (X\<lparr>sd_isPolling := False\<rparr>)" if "frame X = frame ?st0" for X
    using assms that by (simp add: slotsOk_def frame_def)
  have loop: "slotsOk ((pollLoop W (nat (int maxConcurrent - int (sd_running st))) due X)\<lparr>sd_isPolling := False\<rparr>)
      \<and> pollLoop W (nat (int maxConcurrent - int (sd_running st))) due X = pollLoop W' (nat (int maxConcurrent - int (sd_running st))) due X"
    if "frame X = frame ?st0" "int maxConcurrent - int (sd_running st) > 0" for X due
  proof -
    have "sd_running X + nat (int maxConcurrent - int (sd_running st)) \<le> maxConcurrent"
      "length (sd_active X) = sd_semaphore X" "sd_semaphore X \<le> sd_running X"
      using that assms by (auto simp: slotsOk_def frame_def)
    note p = pollLoop_slots [OF this(2,3,1), of W due W']
    let ?P = "pollLoop W (nat (int maxConcurrent - int (sd_running st))) due X"
    have "length (sd_active ?P) = sd_semaphore ?P" "sd_semaphore ?P \<le> sd_running ?P" "sd_running ?P \<le> maxConcurrent" using p by blast+
    then have "slotsOk (?P\<lparr>sd_isPolling := False\<rparr>)" by (simp add: slotsOk_def)
    with p show ?thesis by blast
  qed
  have frames: "frame Y = frame ?st0" if "onDb timeNow ?st0 = (now, X)" "onDb (GetDueSchedules now) X = (r, Y)" for now X r Y
    using frame_onDb [OF that(1)] frame_onDb [OF that(2)] by simp
  show "slotsOk (poll W st)"
    using assms run [of ?st0] run loop [THEN conjunct1] frames unfolding poll_def Let_def by (auto split: prod.split sum.split)
  show "poll W st = poll W' st"
    using loop [THEN conjunct2] frames unfolding poll_def Let_def by (auto split: prod.split sum.split)
qed

interpretation sched: invariant_machine "\<lambda>st. \<exists>d zs keys. st = NewScheduler d zs keys" "\<lambda>st opr st'. st' = schedulerStep W st opr" slotsOk for W
proof
  fix st assume "\<exists>d zs keys. st = NewScheduler d zs keys"
  then show "slotsOk st" by (auto simp: slotsOk_def NewScheduler_def)
next
  fix st opr st' assume ok: "slotsOk st" and st': "st' = schedulerStep W st opr"
  show "slotsOk st'"
  proof (cases opr)
    case OpPoll
    then show ?thesis using poll_slots(1) [OF ok] st' by simp
  next
    case (OpEnd i b)
    have "frame (executeWithTimeout W b (sd_active st ! i) st) = frame st" by (rule frame_executeWithTimeout)
    then show ?thesis using ok st' OpEnd by (auto simp: slotsOk_def frame_def)
  next
    case (OpLate i)
    obtain r st1 where e: "executeSchedule W (sd_late st ! i) st = (r, st1)" by (cases "executeSchedule W (sd_late st ! i) st")
    show ?thesis using ok st' OpLate e frame_executeSchedule [OF e] by (auto simp: slotsOk_def frame_def)
  qed (use ok st' in \<open>auto simp: slotsOk_def Stop_def\<close>)
qed

text \<open>
  At most five scheduled runs. In every state the scheduler can reach, at most five runs are active, the counter never
  says less than that, and a poll never finds the semaphore full: its branch that drops a claimed schedule, the only one that uses the services,
  is never taken.
\<close>

theorem at_most_five_scheduled_runs:
  assumes "reach (\<lambda>st. \<exists>d zs keys. st = NewScheduler d zs keys) (\<lambda>st opr st'. st' = schedulerStep W st opr) st"
  shows "length (sd_active st) \<le> 5 \<and> length (sd_active st) \<le> sd_running st \<and> sd_running st \<le> 5 \<and> (\<forall>W'. poll W st = poll W' st)"
  using sched.inv_reachable [OF assms] poll_slots(2) [of st W] by (auto simp: slotsOk_def maxConcurrent_def)

section \<open>How runs are counted\<close>

text \<open>Calls that leave the schedules alone, and calls that count one failed run, in a database that fails no statement.\<close>

definition silent :: "db \<Rightarrow> db \<Rightarrow> bool" where
  "silent d d' \<longleftrightarrow> faults d' = [] \<and> db_schedules d' = db_schedules d"

definition countsFailure :: "string \<Rightarrow> db \<Rightarrow> db \<Rightarrow> bool" where
  "countsFailure cid d d' \<longleftrightarrow> faults d' = []
     \<and> (\<exists>now next. db_schedules d' = updateRows (\<lambda>c. c_ID c = cid) (afterRun now ''error'' next True) (db_schedules d))"

lemma silent_trans: "silent d d1 \<Longrightarrow> silent d1 d2 \<Longrightarrow> silent d d2"
  "silent d d1 \<Longrightarrow> countsFailure cid d1 d2 \<Longrightarrow> countsFailure cid d d2"
  "countsFailure cid d d1 \<Longrightarrow> silent d1 d2 \<Longrightarrow> countsFailure cid d d2"
  by (auto simp: silent_def countsFailure_def)

lemma silent_timeNow: "faults d = [] \<Longrightarrow> timeNow d = (n, d') \<Longrightarrow> silent d d' \<and> db_sessions d' = db_sessions d"
  using timeNow_other [of d n d'] tables_eqD(2,6) [OF timeNow_tables] by (auto simp: silent_def)

lemma silent_onTime: "faults (sd_db st) = [] \<Longrightarrow> onDb timeNow st = (n, st') \<Longrightarrow> silent (sd_db st) (sd_db st') \<and> db_sessions (sd_db st') = db_sessions (sd_db st)"
  by (auto simp: onDb_def split: prod.splits dest: silent_timeNow)

lemma silent_nextRun:
  assumes "faults (sd_db st) = []" "nextRun W sch st = (r, st')"
  shows "silent (sd_db st) (sd_db st')"
  using assms silent_onTime [OF assms(1)] by (auto simp: nextRun_def Let_def split: prod.splits)

lemma UpdateScheduleAfterRun_quiet:
  assumes "faults d = []"
  shows "\<exists>d' now. UpdateScheduleAfterRun cid status next failed d = (Inr (), d') \<and> faults d' = []
    \<and> db_schedules d' = updateRows (\<lambda>c. c_ID c = cid) (afterRun now status next failed) (db_schedules d)"
proof -
  obtain now d1 where t: "timeNow d = (now, d1)" by (cases "timeNow d")
  have "faults d1 = []" "db_schedules d1 = db_schedules d" using silent_timeNow [OF assms t] by (auto simp: silent_def)
  then show ?thesis by (auto simp: UpdateScheduleAfterRun_def t updateSchedules_def)
qed

lemma onDb_UpdateScheduleAfterRun:
  assumes "faults (sd_db st) = []"
  obtains st' now where "onDb (UpdateScheduleAfterRun cid status next failed) st = (Inr (), st')" "faults (sd_db st') = []"
    "db_schedules (sd_db st') = updateRows (\<lambda>c. c_ID c = cid) (afterRun now status next failed) (db_schedules (sd_db st))"
    "sd_results st' = sd_results st"
  using UpdateScheduleAfterRun_quiet [OF assms, of cid status "next" failed] that by (auto simp: onDb_def)

lemma counts_recordFailure:
  assumes "faults (sd_db st) = []"
  shows "countsFailure (c_ID sch) (sd_db st) (sd_db (recordFailure W sch st))"
proof -
  obtain r st1 where n: "nextRun W sch st = (r, st1)" by (cases "nextRun W sch st")
  have s: "silent (sd_db st) (sd_db st1)" by (rule silent_nextRun [OF assms n])
  then have "faults (sd_db st1) = []" by (simp add: silent_def)
  from onDb_UpdateScheduleAfterRun [OF this] obtain st2 now where
    "onDb (UpdateScheduleAfterRun (c_ID sch) ''error'' (case r of Inl _ \<Rightarrow> 0 | Inr t \<Rightarrow> t) True) st1 = (Inr (), st2)" "faults (sd_db st2) = []"
    "db_schedules (sd_db st2) = updateRows (\<lambda>c. c_ID c = c_ID sch) (afterRun now ''error'' (case r of Inl _ \<Rightarrow> 0 | Inr t \<Rightarrow> t) True) (db_schedules (sd_db st1))"
    by metis
  then have "countsFailure (c_ID sch) (sd_db st1) (sd_db (recordFailure W sch st))"
    by (auto simp: recordFailure_def n countsFailure_def)
  with silent_trans(2) [OF s] show ?thesis .
qed

lemma silent_failSession: "faults (sd_db st) = [] \<Longrightarrow> silent (sd_db st) (sd_db (failSession sid msg st))"
proof -
  assume q: "faults (sd_db st) = []"
  obtain now d1 where t: "timeNow (sd_db st) = (now, d1)" by (cases "timeNow (sd_db st)")
  have "faults d1 = []" "db_schedules d1 = db_schedules (sd_db st)" using silent_timeNow [OF q t] by (auto simp: silent_def)
  then show ?thesis by (simp add: failSession_def onDb_def UpdateSessionResult_def t updateSessions_def silent_def)
qed

lemma counts_failed: "faults (sd_db st) = [] \<Longrightarrow> countsFailure (c_ID sch) (sd_db st) (sd_db (recordFailure W sch (failSession sid msg st)))"
  using silent_failSession [of st sid msg] counts_recordFailure [of "failSession sid msg st" sch W] silent_trans(2)
  by (auto simp: silent_def)

lemma silent_decryptSecret:
  assumes "faults (sd_db st) = []" "decryptSecret W s st = (r, st')"
  shows "silent (sd_db st) (sd_db st') \<and> db_sessions (sd_db st') = db_sessions (sd_db st)"
  using assms silent_onTime [OF assms(1)] by (auto simp: decryptSecret_def Let_def split: prod.splits)

lemma silent_nextRunOrTomorrow:
  assumes "faults (sd_db st) = []" "nextRunOrTomorrow W sch st = (t, st')"
  shows "silent (sd_db st) (sd_db st')"
proof -
  obtain r st1 where n: "nextRun W sch st = (r, st1)" by (cases "nextRun W sch st")
  have s: "silent (sd_db st) (sd_db st1)" by (rule silent_nextRun [OF assms(1) n])
  show ?thesis
  proof (cases r)
    case (Inl e)
    obtain now st2 where o: "onDb timeNow st1 = (now, st2)" by (cases "onDb timeNow st1")
    have "faults (sd_db st1) = []" using s by (simp add: silent_def)
    from silent_onTime [OF this o] s silent_trans(1) show ?thesis using assms(2) n Inl o by (auto simp: nextRunOrTomorrow_def)
  qed (use assms(2) n s in \<open>auto simp: nextRunOrTomorrow_def\<close>)
qed

definition pendingSession :: "string \<Rightarrow> db \<Rightarrow> bool" where
  "pendingSession sid d \<longleftrightarrow> (\<exists>s. List.find (\<lambda>s. s_ID s = sid) (db_sessions d) = Some s \<and> s_Status s = SessionPending)"

lemma counts_finishRun:
  assumes "faults (sd_db st) = []" "pendingSession sid (sd_db st)" "finishRun W sch agent t sid st = (r, st')"
  shows "r = None \<and> countsFailure (c_ID sch) (sd_db st) (sd_db st')"
proof -
  obtain s where s: "List.find (\<lambda>s. s_ID s = sid) (db_sessions (sd_db st)) = Some s" "s_Status s = SessionPending"
    using assms(2) by (auto simp: pendingSession_def)
  have g: "onDb (GetSessionByID sid) st = (Inr (Some s), st)"
    using assms(1) s(1) by (simp add: onDb_def GetSessionByID_def)
  obtain now st2 where o: "onDb timeNow st = (now, st2)" by (cases "onDb timeNow st")
  obtain n st3 where x: "nextRunOrTomorrow W sch st2 = (n, st3)" by (cases "nextRunOrTomorrow W sch st2")
  have 1: "silent (sd_db st) (sd_db st2)" using silent_onTime [OF assms(1) o] by simp
  then have "faults (sd_db st2) = []" by (simp add: silent_def)
  from silent_nextRunOrTomorrow [OF this x] have 2: "silent (sd_db st2) (sd_db st3)" .
  then have "faults (sd_db st3) = []" by (simp add: silent_def)
  from onDb_UpdateScheduleAfterRun [OF this] obtain st4 nw where 3:
    "onDb (UpdateScheduleAfterRun (c_ID sch) ''error'' n True) st3 = (Inr (), st4)" "faults (sd_db st4) = []"
    "db_schedules (sd_db st4) = updateRows (\<lambda>c. c_ID c = c_ID sch) (afterRun nw ''error'' n True) (db_schedules (sd_db st3))" by metis
  then have "countsFailure (c_ID sch) (sd_db st3) (sd_db st4)" by (auto simp: countsFailure_def)
  then have "countsFailure (c_ID sch) (sd_db st) (sd_db st4)" using 1 2 silent_trans by blast
  moreover have "r = None" "sd_db st' = sd_db st4"
    using assms(3) s(2) by (auto simp: finishRun_def g o x 3(1) Let_def notifyScheduleResult_def)
  ultimately show ?thesis by simp
qed

text \<open>
  The work runs in a session of its own, as \<open>ExecuteInContainer\<close> does: it does not touch the sessions there are,
  nor the schedules.
\<close>

definition ownSession :: "(SchedulerWorkRequest \<Rightarrow> db \<Rightarrow> unit result \<times> db) \<Rightarrow> bool" where
  "ownSession execute \<longleftrightarrow>
     (\<forall>req d r d'. faults d = [] \<longrightarrow> execute req d = (r, d') \<longrightarrow> silent d d'
        \<and> (\<forall>i \<in> s_ID ` set (db_sessions d). List.find (\<lambda>s. s_ID s = i) (db_sessions d') = List.find (\<lambda>s. s_ID s = i) (db_sessions d)))"

lemma ownSession_pending:
  assumes "ownSession execute" "faults d = []" "execute req d = (r, d')" "pendingSession sid d"
  shows "silent d d' \<and> pendingSession sid d'"
proof -
  from assms(4) obtain s where s: "List.find (\<lambda>s. s_ID s = sid) (db_sessions d) = Some s" "s_Status s = SessionPending"
    by (auto simp: pendingSession_def)
  from find_Some_iff_mem [OF s(1)] have "sid \<in> s_ID ` set (db_sessions d)" by auto
  with assms(1-3) s show ?thesis unfolding ownSession_def pendingSession_def by metis
qed

lemma counts_runWork:
  assumes "faults (sd_db st) = []" "ownSession (sv_execute W)" "pendingSession sid (sd_db st)"
    and "runWork W sch t sid (agent, apiKey, conn, repo, scope) st = (r, st')"
  shows "countsFailure (c_ID sch) (sd_db st) (sd_db st')"
proof -
  obtain r1 st1 where d1: "decryptSecret W (ak_APIKey apiKey) st = (r1, st1)" by (cases "decryptSecret W (ak_APIKey apiKey) st")
  obtain r2 st2 where d2: "decryptSecret W (gh_GithubToken conn) st1 = (r2, st2)" by (cases "decryptSecret W (gh_GithubToken conn) st1")
  have s1: "silent (sd_db st) (sd_db st1)" "db_sessions (sd_db st1) = db_sessions (sd_db st)" using silent_decryptSecret [OF assms(1) d1] by auto
  then have q1: "faults (sd_db st1) = []" by (simp add: silent_def)
  have s2: "silent (sd_db st1) (sd_db st2)" "db_sessions (sd_db st2) = db_sessions (sd_db st1)" using silent_decryptSecret [OF q1 d2] by auto
  then have q2: "faults (sd_db st2) = []" by (simp add: silent_def)
  have p2: "pendingSession sid (sd_db st2)" using assms(3) s1(2) s2(2) by (simp add: pendingSession_def)
  show ?thesis
  proof (cases r1)
    case (Inl e)
    then have "st' = recordFailure W sch (failSession sid ''Failed to decrypt API key'' st1)" using assms(4) d1 by (simp add: runWork_def)
    with counts_failed [OF q1] silent_trans(2) [OF s1(1)] show ?thesis by simp
  next
    case r1: (Inr key)
    show ?thesis
    proof (cases r2)
      case (Inl e)
      then have "st' = recordFailure W sch (failSession sid ''Failed to decrypt GitHub token'' st2)"
        using assms(4) d1 d2 r1 by (simp add: runWork_def)
      with counts_failed [OF q2] silent_trans(2) [OF s2(1)] silent_trans(2) [OF s1(1)] show ?thesis by simp
    next
      case r2: (Inr token)
      define req where "req = \<lparr>rq_UserID = c_UserID sch, rq_AgentID = c_AgentID sch, rq_Task = c_Task sch, rq_Repo = repo,
        rq_Provider = ak_Provider apiKey, rq_APIKey = key, rq_GithubToken = token, rq_AgentScope = scope,
        rq_BaseURL = orEmpty (ak_BaseURL apiKey), rq_ModelID = orEmpty (ak_ModelID apiKey)\<rparr>"
      obtain r3 d3 where e: "sv_execute W req (sd_db st2) = (r3, d3)" by (cases "sv_execute W req (sd_db st2)")
      let ?st3 = "st2\<lparr>sd_db := d3\<rparr>"
      have o: "onDb (sv_execute W req) st2 = (r3, ?st3)" by (simp add: onDb_def e)
      have s3: "silent (sd_db st2) d3" "pendingSession sid d3" using ownSession_pending [OF assms(2) q2 e p2] by auto
      then have q3: "faults (sd_db ?st3) = []" by (simp add: silent_def)
      have "countsFailure (c_ID sch) (sd_db ?st3) (sd_db st')"
      proof (cases r3)
        case (Inl e')
        then have "st' = recordFailure W sch (failSession sid e' ?st3)"
          using assms(4) d1 d2 r1 r2 o by (simp add: runWork_def req_def)
        with counts_failed [OF q3] show ?thesis by simp
      next
        case (Inr u)
        then have "finishRun W sch agent t sid ?st3 = (r, st')" using assms(4) d1 d2 r1 r2 o by (simp add: runWork_def req_def)
        with counts_finishRun [OF q3] s3(2) show ?thesis by simp
      qed
      then show ?thesis using s3(1) s2(1) s1(1) silent_trans(2) by fastforce
    qed
  qed
qed

lemma validate_reads: "faults d = [] \<Longrightarrow> snd (validateAndFetchScheduleData j sch d) = d"
  by (auto simp: validateAndFetchScheduleData_def GetAgent_def GetAPIKey_def GetGithubConnection_def split: option.split list.split)

lemma CreateSession_pending:
  assumes "faults d = []" "CreateSession s d = (r, d')" "s_Status s = SessionPending"
  shows "silent d d' \<and> (\<forall>row. r = Inr row \<longrightarrow> pendingSession (s_ID row) d')"
proof -
  obtain i d1 where i: "(if s_ID s = [] then newID d else (s_ID s, d)) = (i, d1)" by (cases "if s_ID s = [] then newID d else (s_ID s, d)")
  obtain now d2 where t: "timeNow d1 = (now, d2)" by (cases "timeNow d1")
  have q1: "faults d1 = []" "db_schedules d1 = db_schedules d"
    using i assms(1) newID_other [of d i d1] tables_eqD(6) [OF newID_tables, of d i d1] by (auto split: if_splits)
  have q2: "faults d2 = []" "db_schedules d2 = db_schedules d"
    using silent_timeNow [OF q1(1) t] q1 by (auto simp: silent_def)
  let ?row = "s\<lparr>s_ID := i, s_CreatedAt := now, s_UpdatedAt := now\<rparr>"
  have c: "CreateSession s d = (case insertSessionError ?row d2 of None \<Rightarrow> (Inr ?row, insertSession ?row d2)
      | Some e \<Rightarrow> (Inl (''create session'' @ '': '' @ e), d2))"
    using q2(1) by (simp add: CreateSession_def i t Let_def split: option.split)
  show ?thesis
  proof (cases "insertSessionError ?row d2")
    case None
    then have "\<forall>x \<in> set (db_sessions d2). s_ID x \<noteq> i" by (auto simp: insertSessionError_def list_ex_iff split: if_splits)
    then have "List.find (\<lambda>x. s_ID x = i) (db_sessions d2 @ [?row]) = Some ?row" by (simp add: find_append_none)
    with None c assms(2,3) q2 show ?thesis by (auto simp: silent_def insertSession_def pendingSession_def)
  qed (use c assms(2) q2 in \<open>auto simp: silent_def\<close>)
qed

lemma pending_repo:
  assumes "pendingSession i d"
  shows "pendingSession i (updateSessions P (\<lambda>s. s\<lparr>s_Repo := x\<rparr>) d)"
proof -
  have "List.find (\<lambda>s. s_ID s = i) (updateRows P (\<lambda>s. s\<lparr>s_Repo := x\<rparr>) ss)
      = map_option (\<lambda>s. if P s then s\<lparr>s_Repo := x\<rparr> else s) (List.find (\<lambda>s. s_ID s = i) ss)" for ss
    by (induction ss) (auto simp: updateRows_def)
  moreover obtain s where "List.find (\<lambda>s. s_ID s = i) (db_sessions d) = Some s" "s_Status s = SessionPending"
    using assms by (auto simp: pendingSession_def)
  ultimately show ?thesis by (cases "P s") (auto simp: pendingSession_def updateSessions_def)
qed

lemma counts_executeSchedule:
  assumes "faults (sd_db st) = []" "ownSession (sv_execute W)" "executeSchedule W sch st = (r, st')"
  shows "countsFailure (c_ID sch) (sd_db st) (sd_db st')"
proof -
  obtain t st1 where o: "onDb timeNow st = (t, st1)" by (cases "onDb timeNow st")
  have s1: "silent (sd_db st) (sd_db st1)" using silent_onTime [OF assms(1) o] by simp
  then have q1: "faults (sd_db st1) = []" by (simp add: silent_def)
  obtain c d2 where c: "CreateSession (scheduleSession sch) (sd_db st1) = (c, d2)" by (cases "CreateSession (scheduleSession sch) (sd_db st1)")
  have s2: "silent (sd_db st1) d2" "c = Inr row \<Longrightarrow> pendingSession (s_ID row) d2" for row
    using CreateSession_pending [OF q1 c] by (auto simp: scheduleSession_def)
  then have q2: "faults d2 = []" by (simp add: silent_def)
  let ?st2 = "st1\<lparr>sd_db := d2\<rparr>"
  have oc: "onDb (CreateSession (scheduleSession sch)) st1 = (c, ?st2)" by (simp add: onDb_def c)
  have "countsFailure (c_ID sch) d2 (sd_db st')"
  proof (cases c)
    case (Inl e)
    then have "st' = recordFailure W sch ?st2" using assms(3) o oc by (simp add: executeSchedule_def)
    with counts_recordFailure [of ?st2] q2 show ?thesis by simp
  next
    case (Inr row)
    obtain v where "validateAndFetchScheduleData (sv_jsonObject W) sch d2 = (v, d2)"
      using validate_reads [OF q2] by (metis prod.collapse)
    then have ov: "onDb (validateAndFetchScheduleData (sv_jsonObject W) sch) ?st2 = (v, ?st2)" by (simp add: onDb_def)
    show ?thesis
    proof (cases v)
      case (Inl a)
      obtain now st5 where t5: "onDb timeNow (recordFailure W sch (failSession (s_ID row) (snd a) ?st2)) = (now, st5)"
        by (cases "onDb timeNow (recordFailure W sch (failSession (s_ID row) (snd a) ?st2))")
      have k: "countsFailure (c_ID sch) d2 (sd_db (recordFailure W sch (failSession (s_ID row) (snd a) ?st2)))"
        using counts_failed [of ?st2] q2 by simp
      then have "silent (sd_db (recordFailure W sch (failSession (s_ID row) (snd a) ?st2))) (sd_db st5)"
        using silent_onTime [OF _ t5] by (simp add: countsFailure_def)
      moreover have "sd_db st' = sd_db st5"
        using assms(3) o oc ov Inl Inr t5 by (cases a) (auto simp: executeSchedule_def Let_def notifyScheduleResult_def)
      ultimately show ?thesis using silent_trans(3) [OF k] by simp
    next
      case v: (Inr fetched)
      obtain agent apiKey conn repo scope where f: "fetched = (agent, apiKey, conn, repo, scope)" by (cases fetched)
      let ?d4 = "updateSessions (\<lambda>s. s_ID s = s_ID row) (\<lambda>s. s\<lparr>s_Repo := Some repo\<rparr>) d2"
      have w: "runWork W sch t (s_ID row) fetched (st1\<lparr>sd_db := ?d4\<rparr>) = (r, st')"
        using assms(3) o oc ov v Inr f q2 by (simp add: executeSchedule_def onDb_def Let_def)
      have p: "pendingSession (s_ID row) d2" using s2(2) Inr by simp
      from p have p4: "pendingSession (s_ID row) ?d4" by (rule pending_repo)
      have "countsFailure (c_ID sch) ?d4 (sd_db st')"
        using counts_runWork [of "st1\<lparr>sd_db := ?d4\<rparr>" W "s_ID row"] assms(2) p4 w f q2 by (simp add: updateSessions_def)
      moreover have "silent d2 ?d4" using q2 by (simp add: silent_def updateSessions_def)
      ultimately show ?thesis using silent_trans(2) by blast
    qed
  qed
  then show ?thesis using s1 s2(1) silent_trans(2) by blast
qed

lemma markFailure_counts:
  assumes "faults (sd_db st) = []"
  shows "faults (sd_db (markFailure W sch st)) = []
    \<and> (\<exists>now next. db_schedules (sd_db (markFailure W sch st)) = updateRows (\<lambda>c. c_ID c = c_ID sch)
         (\<lambda>c. (afterRun now ''error'' next True c)\<lparr>c_IsActive := c_IsActive c \<and> c_FailureCount c + 1 < 5\<rparr>) (db_schedules (sd_db st)))"
proof -
  obtain n st1 where x: "nextRunOrTomorrow W sch st = (n, st1)" by (cases "nextRunOrTomorrow W sch st")
  have s: "silent (sd_db st) (sd_db st1)" by (rule silent_nextRunOrTomorrow [OF assms x])
  then have "faults (sd_db st1) = []" by (simp add: silent_def)
  from onDb_UpdateScheduleAfterRun [OF this] obtain st2 now where 2:
    "onDb (UpdateScheduleAfterRun (c_ID sch) ''error'' n True) st1 = (Inr (), st2)" "faults (sd_db st2) = []"
    "db_schedules (sd_db st2) = updateRows (\<lambda>c. c_ID c = c_ID sch) (afterRun now ''error'' n True) (db_schedules (sd_db st1))" by metis
  let ?hit = "\<lambda>c. c_ID c = c_ID sch \<and> c_FailureCount c \<ge> 5"
  let ?d3 = "updateSchedules ?hit (\<lambda>c. c\<lparr>c_IsActive := False\<rparr>) (sd_db st2)"
  have "sd_db (markFailure W sch st) = ?d3"
    unfolding markFailure_def x 2(1) Let_def prod.case sum.case
    using 2(2) by (simp add: onDb_def execCount_def updateSchedules_def GetAgent_def notifyScheduleResult_def)
  moreover have "db_schedules ?d3 = updateRows (\<lambda>c. c_ID c = c_ID sch)
      (\<lambda>c. (afterRun now ''error'' n True c)\<lparr>c_IsActive := c_IsActive c \<and> c_FailureCount c + 1 < 5\<rparr>) (db_schedules (sd_db st))"
    using s 2(3) by (auto simp: silent_def updateSchedules_def updateRows_def afterRun_def)
  ultimately show ?thesis using 2(2) by (auto simp: updateSchedules_def)
qed


section \<open>Witnesses\<close>

definition sampleSchedule :: AgentSchedule where
  "sampleSchedule = \<lparr>c_ID = ''c1'', c_UserID = ''u'', c_AgentID = ''a'', c_Name = ''nightly'', c_Task = ''test'', c_CronExpression = ''0,1 0 * * *'',
     c_Timezone = ''UTC'', c_IsActive = True, c_NextRunAt = 0, c_LastRunAt = None, c_LastStatus = None, c_RunCount = 4, c_FailureCount = 3,
     c_CreatedAt = 0, c_UpdatedAt = 0\<rparr>"

definition scheduleDb :: db where
  "scheduleDb = (sessionDb [])\<lparr>db_schedules := [sampleSchedule]\<rparr>"

definition sampleServices :: services where
  "sampleServices = \<lparr>sv_cron = twiceADay, sv_prims = samplePrimitives, sv_key = replicate 32 CHR ''k'', sv_jsonObject = (\<lambda>s. True),
     sv_execute = (\<lambda>req d. (Inr (), d))\<rparr>"

theorem due_run_is_claimed_once_witness:
  "fst (claims [(''c1'', 0), (''c1'', 0)] scheduleDb) = [(''c1'', 0)] \<and> distinct [(''c1'', 0 :: nat)]"
proof -
  have c: "fst (claims [(''c1'', 0), (''c1'', 0)] scheduleDb) = [(''c1'', 0)]" by code_simp
  have "\<forall>(cid, expected) \<in> set [(''c1'', 0), (''c1'', 0)]. expected \<le> clock scheduleDb" by simp
  from due_run_is_claimed_once [OF this] c show ?thesis by simp
qed

theorem at_most_five_scheduled_runs_witness:
  "\<exists>st. st = schedulerStep sampleServices (NewScheduler scheduleDb [] []) OpPoll \<and> sd_active st = [sampleSchedule] \<and> sd_running st \<le> 5"
proof -
  let ?start = "\<lambda>st. \<exists>d zs keys. st = NewScheduler d zs keys"
  let ?step = "\<lambda>st opr st'. st' = schedulerStep sampleServices st opr"
  let ?st = "schedulerStep sampleServices (NewScheduler scheduleDb [] []) OpPoll"
  have "reach ?start ?step (NewScheduler scheduleDb [] [])" by (rule reach_start) blast
  then have "reach ?start ?step ?st" by (rule reach_step) (rule refl)
  from at_most_five_scheduled_runs [OF this] have "sd_running ?st \<le> 5" by blast
  moreover have "sd_active ?st = [sampleSchedule]" by code_simp
  ultimately show ?thesis by blast
qed

lemma sampleServices_own: "ownSession (sv_execute sampleServices)"
  by (auto simp: ownSession_def sampleServices_def silent_def)


end
