(* ===== verification/Locks.thy ===== *)
theory Locks
  imports Store Paths
begin

text \<open>
  File locks: the statements of \<open>go-shared/task_locks.go\<close> on the table \<open>task_locks\<close>, whose unique
  index is on (\<open>user_id\<close>, \<open>file_path\<close>), and the claims of \<open>bot/delegation/locks.go\<close> built on
  them. The theorems: there is never more than one lock for a user's file; a claim never removes
  an unexpired lock of another session; what a reported success and a reported conflict mean.
\<close>

section \<open>Statements\<close>

definition lockFor :: "string \<Rightarrow> string \<Rightarrow> TaskLock \<Rightarrow> bool" where
  "lockFor userID filePath l = (l_UserID l = userID \<and> l_FilePath l = filePath)"

text \<open>
  The insert and the deletion in its \<open>WITH\<close> clause see the table as it was before the statement;
  whether the unique index still holds the expired row when the insert looks depends on which of
  the two runs first.
\<close>

definition acquireRows :: "bool \<Rightarrow> TaskLock \<Rightarrow> nat \<Rightarrow> TaskLock list \<Rightarrow> TaskLock list \<times> bool" where
  "acquireRows cleanFirst new now ls =
     (let expired = (\<lambda>l. lockFor (l_UserID new) (l_FilePath new) l \<and> l_ExpiresAt l < now);
          seen = (if cleanFirst then deleteRows expired ls else ls);
          free = \<not> list_ex (lockFor (l_UserID new) (l_FilePath new)) seen
      in (deleteRows expired ls @ (if free then [new] else []), free))"

definition AcquireTaskLock ::
    "string \<Rightarrow> string \<Rightarrow> string \<Rightarrow> string \<Rightarrow> nat \<Rightarrow> db \<Rightarrow> bool result \<times> db" where
  "AcquireTaskLock userID sessionID agentID filePath duration d =
     (let (lid, d1) = newID d;
          (now, d2) = timeNow d1;
          new = \<lparr>l_ID = lid, l_UserID = userID, l_SessionID = sessionID, l_AgentID = agentID,
                 l_FilePath = filePath, l_LockedAt = now, l_ExpiresAt = now + duration\<rparr>
      in case statement d2 of
           (Some e, d3) \<Rightarrow> (Inl (''acquire task lock: '' @ e), d3)
         | (None, d3) \<Rightarrow>
             (case acquireRows (cteFirst d3) new now (db_locks d3) of
                (ls, inserted) \<Rightarrow>
                  if inserted \<and> list_ex (\<lambda>l. l_ID l = lid) (db_locks d3)
                  then (Inl (''acquire task lock: '' @ duplicateKey), d3)
                  else
                    (case statement (d3\<lparr>db_locks := ls\<rparr>) of
                       (Some e, d4) \<Rightarrow> (Inl (''check rows affected: '' @ e), d4)
                     | (None, d4) \<Rightarrow> (Inr inserted, d4))))"

definition deleteLocks :: "(TaskLock \<Rightarrow> bool) \<Rightarrow> db \<Rightarrow> db" where
  "deleteLocks P d = d\<lparr>db_locks := deleteRows P (db_locks d)\<rparr>"

definition ReleaseTaskLock :: "string \<Rightarrow> string \<Rightarrow> db \<Rightarrow> unit result \<times> db" where
  "ReleaseTaskLock userID filePath =
     execStmt ''release task lock'' (deleteLocks (lockFor userID filePath))"

definition ReleaseSessionLocks :: "string \<Rightarrow> string \<Rightarrow> db \<Rightarrow> unit result \<times> db" where
  "ReleaseSessionLocks sessionID userID =
     execStmt ''release session locks''
       (\<lambda>d. deleteLocks (\<lambda>l. l_SessionID l = sessionID
               \<and> list_ex (\<lambda>s. s_ID s = sessionID \<and> s_UserID s = userID \<and> s_UserID s = l_UserID l) (db_sessions d)) d)"

definition activeLocks :: "string \<Rightarrow> nat \<Rightarrow> TaskLock list \<Rightarrow> TaskLock list" where
  "activeLocks userID now ls = orderDesc l_LockedAt (filter (\<lambda>l. l_UserID l = userID \<and> now < l_ExpiresAt l) ls)"

definition GetActiveLocks :: "string \<Rightarrow> db \<Rightarrow> TaskLock list result \<times> db" where
  "GetActiveLocks userID d =
     (let (now, d1) = timeNow d in
      queryRows ''get active locks'' ''scan task lock'' ''iterate active locks''
        (\<lambda>d. activeLocks userID now (db_locks d)) d1)"

definition GetLockHolder :: "string \<Rightarrow> string \<Rightarrow> db \<Rightarrow> TaskLock option result \<times> db" where
  "GetLockHolder userID filePath d =
     (let (now, d1) = timeNow d in
      queryRow ''get lock holder''
        (\<lambda>d. List.find (\<lambda>l. lockFor userID filePath l \<and> now < l_ExpiresAt l) (db_locks d)) d1)"

definition CleanExpiredLocks :: "db \<Rightarrow> nat result \<times> db" where
  "CleanExpiredLocks d =
     (let (now, d1) = timeNow d in
      case statement d1 of
        (Some e, d2) \<Rightarrow> (Inl (''clean expired locks: '' @ e), d2)
      | (None, d2) \<Rightarrow>
          (case statement (deleteLocks (\<lambda>l. l_ExpiresAt l < now) d2) of
             (Some e, d3) \<Rightarrow> (Inl (''get affected rows: '' @ e), d3)
           | (None, d3) \<Rightarrow> (Inr (length (filter (\<lambda>l. l_ExpiresAt l < now) (db_locks d2))), d3)))"

section \<open>Claims\<close>

record LockResult =
  lr_Acquired :: bool
  lr_Conflicting :: "string list"

definition lockExpiryDuration :: nat where
  "lockExpiryDuration = 30 * 60 * 1000"

definition maxFilesPerLock :: nat where
  "maxFilesPerLock = 100"

text \<open>The paths, of those asked for, that a lock of another session covers.\<close>

definition conflictsWith :: "string \<Rightarrow> TaskLock list \<Rightarrow> string list \<Rightarrow> string list" where
  "conflictsWith sessionID existing paths =
     filter (\<lambda>p. list_ex (\<lambda>l. l_SessionID l \<noteq> sessionID \<and> l_FilePath l = p) existing) paths"

text \<open>The loop over the sanitised paths; \<open>allPaths\<close> is the whole slice, for the second look.\<close>

fun acquireLoop ::
    "string \<Rightarrow> string \<Rightarrow> string \<Rightarrow> string list \<Rightarrow> string list \<Rightarrow> db \<Rightarrow> LockResult \<times> db" where
  "acquireLoop userID sessionID agentID allPaths [] d = (\<lparr>lr_Acquired = True, lr_Conflicting = []\<rparr>, d)"
| "acquireLoop userID sessionID agentID allPaths (path # rest) d =
     (case AcquireTaskLock userID sessionID agentID path lockExpiryDuration d of
        (Inl _, d1) \<Rightarrow> acquireLoop userID sessionID agentID allPaths rest d1
      | (Inr True, d1) \<Rightarrow> acquireLoop userID sessionID agentID allPaths rest d1
      | (Inr False, d1) \<Rightarrow>
          (case GetActiveLocks userID d1 of
             (Inl _, d2) \<Rightarrow> (\<lparr>lr_Acquired = False, lr_Conflicting = [path]\<rparr>, d2)
           | (Inr existing, d2) \<Rightarrow>
               (let recheck = conflictsWith sessionID existing allPaths in
                if recheck \<noteq> [] then
                  (\<lparr>lr_Acquired = False, lr_Conflicting = recheck\<rparr>,
                   snd (execStmt [] (deleteLocks (\<lambda>l. l_SessionID l = sessionID)) d2))
                else acquireLoop userID sessionID agentID allPaths rest d2)))"

definition ClaimLocks ::
    "string \<Rightarrow> string \<Rightarrow> string \<Rightarrow> string list \<Rightarrow> db \<Rightarrow> LockResult result \<times> db" where
  "ClaimLocks userID sessionID agentID filePaths d =
     (if filePaths = [] then (Inr \<lparr>lr_Acquired = True, lr_Conflicting = []\<rparr>, d)
      else if length filePaths > maxFilesPerLock then
        (Inr \<lparr>lr_Acquired = False,
              lr_Conflicting = [''exceeds max lockable files ('' @ Itoa maxFilesPerLock @ '')'']\<rparr>, d)
      else
        let sanitized = filter (\<lambda>p. \<not> hasPathTraversal_locks p) filePaths in
        if length sanitized \<noteq> length filePaths then
          (Inr \<lparr>lr_Acquired = False, lr_Conflicting = [''invalid file paths detected'']\<rparr>, d)
        else
          let d1 = snd (CleanExpiredLocks d) in
          case GetActiveLocks userID d1 of
            (Inl e, d2) \<Rightarrow> (Inl (''get active locks: '' @ e), d2)
          | (Inr existing, d2) \<Rightarrow>
              (let conflicting = conflictsWith sessionID existing sanitized in
               if conflicting \<noteq> [] then (Inr \<lparr>lr_Acquired = False, lr_Conflicting = conflicting\<rparr>, d2)
               else
                 (case acquireLoop userID sessionID agentID sanitized sanitized d2 of
                    (r, d3) \<Rightarrow> (Inr r, d3))))"

definition ReleaseLocks :: "string \<Rightarrow> string \<Rightarrow> db \<Rightarrow> unit result \<times> db" where
  "ReleaseLocks sessionID userID = ReleaseSessionLocks sessionID userID"

definition CheckLocks :: "string \<Rightarrow> string list \<Rightarrow> db \<Rightarrow> (bool \<times> string list) result \<times> db" where
  "CheckLocks userID filePaths d =
     (let sanitized = filter (\<lambda>p. \<not> hasPathTraversal_locks p) filePaths in
      if filePaths = [] \<or> sanitized = [] then (Inr (False, []), d)
      else
        let d1 = snd (CleanExpiredLocks d) in
        case GetActiveLocks userID d1 of
          (Inl e, d2) \<Rightarrow> (Inl (''get active locks: '' @ e), d2)
        | (Inr existing, d2) \<Rightarrow>
            (let lockedFiles = filter (\<lambda>p. list_ex (\<lambda>l. l_FilePath l = p) existing) sanitized
             in (Inr (lockedFiles \<noteq> [], lockedFiles), d2)))"

section \<open>One lock per file\<close>

interpretation lock_table: keyed_table db_locks "\<lambda>ls d. d\<lparr>db_locks := ls\<rparr>" "\<lambda>l. (l_UserID l, l_FilePath l)"
  by unfold_locales simp

text \<open>\<open>R\<close> is what a call may do to the locks, given the time after it.\<close>

definition spares :: "string \<Rightarrow> db \<Rightarrow> db \<Rightarrow> bool" where
  "spares sessionID d d' \<longleftrightarrow> clock d \<le> clock d' \<and>
     (\<forall>l \<in> set (db_locks d). l_SessionID l \<noteq> sessionID \<and> clock d' \<le> l_ExpiresAt l \<longrightarrow> l \<in> set (db_locks d'))"

lemma spares_refl [simp]: "spares s d d"
  by (simp add: spares_def)

lemma spares_trans: "spares s d d1 \<Longrightarrow> spares s d1 d2 \<Longrightarrow> spares s d d2"
  by (auto simp: spares_def)

lemma spares_same: "db_locks d' = db_locks d \<Longrightarrow> clock d \<le> clock d' \<Longrightarrow> spares s d d'"
  by (simp add: spares_def)

lemma deleteLocks_sel [simp]:
  "db_locks (deleteLocks P d) = deleteRows P (db_locks d)" "clock (deleteLocks P d) = clock d"
  "faults (deleteLocks P d) = faults d" "ticks (deleteLocks P d) = ticks d" "entropy (deleteLocks P d) = entropy d"
  "db_sessions (deleteLocks P d) = db_sessions d"
  by (simp_all add: deleteLocks_def)

lemma keyed_deleteLocks: "lock_table.keyed d \<Longrightarrow> lock_table.keyed (deleteLocks P d)"
  unfolding deleteLocks_def by (rule lock_table.keyed_delete)

lemma keyed_same: "db_locks d' = db_locks d \<Longrightarrow> lock_table.keyed d \<Longrightarrow> lock_table.keyed d'"
  by (simp add: lock_table.keyed_def)

lemma acquireRows_keyed:
  assumes "distinct (map (\<lambda>l. (l_UserID l, l_FilePath l)) ls)"
  shows "distinct (map (\<lambda>l. (l_UserID l, l_FilePath l)) (fst (acquireRows b new now ls)))"
proof -
  let ?k = "\<lambda>l. (l_UserID l, l_FilePath l)"
  let ?del = "deleteRows (\<lambda>l. lockFor (l_UserID new) (l_FilePath new) l \<and> l_ExpiresAt l < now) ls"
  have del: "distinct (map ?k ?del)" using assms by (rule distinct_deleteRows)
  have key: "lockFor (l_UserID new) (l_FilePath new) l \<longleftrightarrow> ?k l = ?k new" for l by (simp add: lockFor_def)
  have "?k new \<notin> ?k ` set ?del" if "snd (acquireRows b new now ls)"
  proof -
    have "\<forall>l \<in> set ?del. \<not> lockFor (l_UserID new) (l_FilePath new) l"
      using that by (cases b) (auto simp: acquireRows_def Let_def list_ex_iff deleteRows_def)
    then have "?k l \<noteq> ?k new" if "l \<in> set ?del" for l using that key by blast
    then show ?thesis by (fastforce simp del: Pair_inject prod.inject)
  qed
  with del show ?thesis by (simp add: acquireRows_def Let_def)
qed

text \<open>What one \<open>AcquireTaskLock\<close> does: nothing, or the statement with some new lock.\<close>

lemma AcquireTaskLock_effect:
  assumes "AcquireTaskLock u s a p dur d = (r, d')"
  obtains (failed) e where "r = Inl e" "db_locks d' = db_locks d" "clock d \<le> clock d'"
  | (ran) new where "db_locks d' = fst (acquireRows (cteFirst d) new (clock d') (db_locks d))" "clock d \<le> clock d'"
      "lockFor u p new" "l_SessionID new = s" "l_ExpiresAt new = clock d' + dur"
      "(\<exists>e. r = Inl e) \<or> r = Inr (snd (acquireRows (cteFirst d) new (clock d') (db_locks d)))"
proof -
  obtain lid d1 where i: "newID d = (lid, d1)" by (cases "newID d")
  obtain now d2 where t: "timeNow d1 = (now, d2)" by (cases "timeNow d1")
  obtain e d3 where st: "statement d2 = (e, d3)" by (cases "statement d2")
  let ?new = "\<lparr>l_ID = lid, l_UserID = u, l_SessionID = s, l_AgentID = a, l_FilePath = p,
      l_LockedAt = now, l_ExpiresAt = now + dur\<rparr>"
  have same: "db_locks d3 = db_locks d" "clock d \<le> clock d3" "clock d3 = now" "cteFirst d3 = cteFirst d"
    using tables_eqD(4) [OF newID_tables [OF i]] tables_eqD(4) [OF timeNow_tables [OF t]]
      tables_eqD(4) [OF statement_tables [OF st]] newID_other [OF i] timeNow_other [OF t] statement_other [OF st]
    by simp_all
  obtain ls ins where row: "acquireRows (cteFirst d) ?new now (db_locks d) = (ls, ins)"
    by (cases "acquireRows (cteFirst d) ?new now (db_locks d)")
  obtain e2 d4 where st2: "statement (d3\<lparr>db_locks := ls\<rparr>) = (e2, d4)" by (cases "statement (d3\<lparr>db_locks := ls\<rparr>)")
  have d4: "db_locks d4 = ls" "clock d4 = now"
    using tables_eqD(4) [OF statement_tables [OF st2]] statement_other [OF st2] same by simp_all
  note run = assms [unfolded AcquireTaskLock_def Let_def i prod.case t st]
  show thesis
  proof (cases "e \<noteq> None \<or> ins \<and> list_ex (\<lambda>l. l_ID l = lid) (db_locks d)")
    case True
    then have "\<exists>x. r = Inl x \<and> d' = d3" using run row same by (auto split: option.splits)
    then show ?thesis using failed same by blast
  next
    case False
    then have "d' = d4" and "(\<exists>x. r = Inl x) \<or> r = Inr ins"
      using run row same st2 by (auto split: option.splits if_splits)
    then show ?thesis using ran [of ?new] d4 row same by (auto simp: lockFor_def)
  qed
qed

lemma AcquireTaskLock_keeps:
  assumes "AcquireTaskLock u s a p dur d = (r, d')"
  shows "lock_table.keyed d \<Longrightarrow> lock_table.keyed d'" and "spares s d d'"
  using assms
proof (atomize (full), cases rule: AcquireTaskLock_effect)
  case (ran new)
  then have "lock_table.keyed d \<Longrightarrow> lock_table.keyed d'"
    by (simp add: lock_table.keyed_def acquireRows_keyed)
  moreover from ran have "spares s d d'"
    by (auto simp: spares_def acquireRows_def Let_def set_deleteRows)
  ultimately show "(lock_table.keyed d \<longrightarrow> lock_table.keyed d') \<and> spares s d d'" by blast
qed (blast intro: keyed_same spares_same)

lemma GetActiveLocks_same:
  assumes "GetActiveLocks u d = (r, d')"
  shows "db_locks d' = db_locks d" "clock d \<le> clock d'"
proof -
  obtain now d1 where t: "timeNow d = (now, d1)" by (cases "timeNow d")
  have q: "queryRows ''get active locks'' ''scan task lock'' ''iterate active locks''
        (\<lambda>d. activeLocks u now (db_locks d)) d1 = (r, d')"
    using assms by (simp add: GetActiveLocks_def t)
  show "db_locks d' = db_locks d"
    using tables_eqD(4) [OF queryRows_tables [OF q]] tables_eqD(4) [OF timeNow_tables [OF t]] by simp
  have "clock d' = clock d1"
    using q by (auto simp: queryRows_def split: prod.splits option.splits if_splits dest!: statement_other)
  then show "clock d \<le> clock d'" using timeNow_other [OF t] by simp
qed

lemma CleanExpiredLocks_effect:
  assumes "CleanExpiredLocks d = (r, d')"
  shows "clock d \<le> clock d'" "db_locks d' = db_locks d \<or> db_locks d' = deleteRows (\<lambda>l. l_ExpiresAt l < clock d') (db_locks d)"
proof -
  obtain now d1 where t: "timeNow d = (now, d1)" by (cases "timeNow d")
  obtain e d2 where s: "statement d1 = (e, d2)" by (cases "statement d1")
  let ?u = "deleteLocks (\<lambda>l. l_ExpiresAt l < now) d2"
  obtain e2 d3 where s2: "statement ?u = (e2, d3)" by (cases "statement ?u")
  have same: "db_locks d2 = db_locks d" "clock d2 = now" "clock d \<le> now"
    using tables_eqD(4) [OF timeNow_tables [OF t]] tables_eqD(4) [OF statement_tables [OF s]]
      timeNow_other [OF t] statement_other [OF s] by simp_all
  have d3: "db_locks d3 = deleteRows (\<lambda>l. l_ExpiresAt l < now) (db_locks d)" "clock d3 = now"
    using tables_eqD(4) [OF statement_tables [OF s2]] statement_other [OF s2] same by simp_all
  have "d' = d2 \<or> d' = d3"
    using assms by (auto simp: CleanExpiredLocks_def t s s2 split: option.splits)
  with same d3 show "clock d \<le> clock d'"
    "db_locks d' = db_locks d \<or> db_locks d' = deleteRows (\<lambda>l. l_ExpiresAt l < clock d') (db_locks d)"
    by auto
qed

lemma CleanExpiredLocks_keeps:
  assumes "CleanExpiredLocks d = (r, d')"
  shows "lock_table.keyed d \<Longrightarrow> lock_table.keyed d'" and "spares s d d'"
proof -
  note e = CleanExpiredLocks_effect [OF assms]
  show "lock_table.keyed d'" if "lock_table.keyed d"
    using that e(2) by (auto simp: lock_table.keyed_def distinct_deleteRows)
  show "spares s d d'"
    using e by (auto simp: spares_def set_deleteRows)
qed

lemma deleteSession_effect:
  "clock (snd (execStmt m (deleteLocks P) d)) = clock d"
  "db_locks (snd (execStmt m (deleteLocks P) d)) \<in> {db_locks d, deleteRows P (db_locks d)}"
proof -
  obtain e d1 where s: "statement d = (e, d1)" by (cases "statement d")
  then have "clock d1 = clock d" "db_locks d1 = db_locks d"
    using statement_other tables_eqD(4) [OF statement_tables [OF s]] by blast+
  then show "clock (snd (execStmt m (deleteLocks P) d)) = clock d"
    "db_locks (snd (execStmt m (deleteLocks P) d)) \<in> {db_locks d, deleteRows P (db_locks d)}"
    by (auto simp: execStmt_def s split: option.splits)
qed

lemma deleteSession_keeps:
  fixes m s d
  defines "d' \<equiv> snd (execStmt m (deleteLocks (\<lambda>l. l_SessionID l = s)) d)"
  shows "lock_table.keyed d \<Longrightarrow> lock_table.keyed d'" and "spares s d d'"
proof -
  note e = deleteSession_effect [of m "\<lambda>l. l_SessionID l = s" d, folded d'_def]
  show "lock_table.keyed d'" if "lock_table.keyed d"
    using that e(2) by (auto simp: lock_table.keyed_def distinct_deleteRows)
  show "spares s d d'"
    using e by (auto simp: spares_def set_deleteRows)
qed

lemma acquireLoop_keeps:
  "acquireLoop u s a ps qs d = (r, d') \<Longrightarrow> (lock_table.keyed d \<longrightarrow> lock_table.keyed d') \<and> spares s d d'"
proof (induction qs arbitrary: d)
  case (Cons p qs)
  obtain x d1 where acq: "AcquireTaskLock u s a p lockExpiryDuration d = (x, d1)"
    by (cases "AcquireTaskLock u s a p lockExpiryDuration d")
  obtain y d2 where get: "GetActiveLocks u d1 = (y, d2)" by (cases "GetActiveLocks u d1")
  let ?d3 = "snd (execStmt [] (deleteLocks (\<lambda>l. l_SessionID l = s)) d2)"
  have k1: "(lock_table.keyed d \<longrightarrow> lock_table.keyed d1) \<and> spares s d d1"
    using AcquireTaskLock_keeps [OF acq] by blast
  have k2: "(lock_table.keyed d1 \<longrightarrow> lock_table.keyed d2) \<and> spares s d1 d2"
    using GetActiveLocks_same [OF get] keyed_same spares_same by blast
  have k3: "(lock_table.keyed d2 \<longrightarrow> lock_table.keyed ?d3) \<and> spares s d2 ?d3"
    using deleteSession_keeps by blast
  consider "acquireLoop u s a ps qs d1 = (r, d')" | "d' = d2" | "d' = ?d3" | "acquireLoop u s a ps qs d2 = (r, d')"
    using Cons.prems acq get by (auto simp: Let_def split: sum.splits bool.splits if_splits)
  then show ?case
  proof cases
    case 1
    then show ?thesis using Cons.IH [OF 1] k1 spares_trans by blast
  next
    case 2
    then show ?thesis using k1 k2 spares_trans by blast
  next
    case 3
    then show ?thesis using k1 k2 k3 spares_trans by blast
  next
    case 4
    then show ?thesis using Cons.IH [OF 4] k1 k2 spares_trans by blast
  qed
qed simp

lemma claim_locks_never_steals_facts:
  assumes "ClaimLocks u s a paths d = (r, d')"
    and "distinct (map (\<lambda>l. (l_UserID l, l_FilePath l)) (db_locks d))"
  shows "distinct (map (\<lambda>l. (l_UserID l, l_FilePath l)) (db_locks d'))"
    and "\<forall>l \<in> set (db_locks d). l_SessionID l \<noteq> s \<and> clock d' \<le> l_ExpiresAt l \<longrightarrow> l \<in> set (db_locks d')"
proof -
  obtain c d1 where cl: "CleanExpiredLocks d = (c, d1)" by (cases "CleanExpiredLocks d")
  obtain g d2 where get: "GetActiveLocks u d1 = (g, d2)" by (cases "GetActiveLocks u d1")
  let ?san = "filter (\<lambda>p. \<not> hasPathTraversal_locks p) paths"
  obtain lr d3 where loop: "acquireLoop u s a ?san ?san d2 = (lr, d3)" by (cases "acquireLoop u s a ?san ?san d2")
  have k1: "(lock_table.keyed d \<longrightarrow> lock_table.keyed d1) \<and> spares s d d1"
    using CleanExpiredLocks_keeps [OF cl] by blast
  have k2: "(lock_table.keyed d1 \<longrightarrow> lock_table.keyed d2) \<and> spares s d1 d2"
    using GetActiveLocks_same [OF get] keyed_same spares_same by blast
  note k3 = acquireLoop_keeps [OF loop]
  have "d' = d \<or> d' = d2 \<or> d' = d3"
    using assms(1) cl get loop by (auto simp: ClaimLocks_def Let_def split: if_splits sum.splits)
  then have "(lock_table.keyed d \<longrightarrow> lock_table.keyed d') \<and> spares s d d'"
  proof (elim disjE)
    assume "d' = d"
    then show ?thesis by simp
  next
    assume "d' = d2"
    then show ?thesis using k1 k2 spares_trans by blast
  next
    assume "d' = d3"
    then show ?thesis using k1 k2 k3 spares_trans by blast
  qed
  then show "distinct (map (\<lambda>l. (l_UserID l, l_FilePath l)) (db_locks d'))"
    and "\<forall>l \<in> set (db_locks d). l_SessionID l \<noteq> s \<and> clock d' \<le> l_ExpiresAt l \<longrightarrow> l \<in> set (db_locks d')"
    using assms(2) unfolding spares_def lock_table.keyed_def by blast+
qed

text \<open>
  C10. Whatever a claim of locks runs into (failing statements, time passing, either order of the
  expiry and the insert), it keeps every lock of another session that has not expired by the end of the
  call, and it leaves at most one lock per user and file.
\<close>

theorem claim_locks_never_steals:
  assumes "ClaimLocks u s a paths d = (r, d')"
    and "distinct (map (\<lambda>l. (l_UserID l, l_FilePath l)) (db_locks d))"
  shows "distinct (map (\<lambda>l. (l_UserID l, l_FilePath l)) (db_locks d'))
    \<and> (\<forall>l \<in> set (db_locks d). l_SessionID l \<noteq> s \<and> clock d' \<le> l_ExpiresAt l \<longrightarrow> l \<in> set (db_locks d'))"
  using claim_locks_never_steals_facts [OF assms] by blast

section \<open>What a claim decides\<close>

text \<open>An undisturbed call: no statement fails, no time passes, the ids it draws are new.\<close>

definition freshIDs :: "nat \<Rightarrow> db \<Rightarrow> bool" where
  "freshIDs n d \<longleftrightarrow> n \<le> length (entropy d) \<and> distinct (map (GenerateID (clock d)) (take n (entropy d)))
     \<and> list_all (\<lambda>r. \<not> list_ex (\<lambda>l. l_ID l = GenerateID (clock d) r) (db_locks d)) (take n (entropy d))"

definition undisturbed :: "nat \<Rightarrow> db \<Rightarrow> bool" where
  "undisturbed n d \<longleftrightarrow> faults d = [] \<and> ticks d = [] \<and> freshIDs n d"

definition newLock :: "string \<Rightarrow> string \<Rightarrow> string \<Rightarrow> string \<Rightarrow> nat \<Rightarrow> nat list \<Rightarrow> db \<Rightarrow> TaskLock" where
  "newLock u s a p dur r d = \<lparr>l_ID = GenerateID (clock d) r, l_UserID = u, l_SessionID = s, l_AgentID = a,
     l_FilePath = p, l_LockedAt = clock d, l_ExpiresAt = clock d + dur\<rparr>"

lemma AcquireTaskLock_undisturbed:
  assumes "faults d = []" "ticks d = []" "entropy d = r # rs"
    and "\<not> list_ex (\<lambda>l. l_ID l = GenerateID (clock d) r) (db_locks d)"
    and "\<forall>l \<in> set (db_locks d). clock d \<le> l_ExpiresAt l"
  shows "AcquireTaskLock u s a p dur d =
    (if list_ex (lockFor u p) (db_locks d) then (Inr False, d\<lparr>entropy := rs\<rparr>)
     else (Inr True, d\<lparr>entropy := rs, db_locks := db_locks d @ [newLock u s a p dur r d]\<rparr>))"
proof -
  have none: "deleteRows (\<lambda>l. lockFor u' p' l \<and> l_ExpiresAt l < clock d) (db_locks d) = db_locks d" for u' p'
    using assms(5) by (auto simp: deleteRows_def filter_id_conv)
  have "newID d = (GenerateID (clock d) r, d\<lparr>entropy := rs\<rparr>)"
    using assms by (simp add: newID_def timeNow_def)
  then show ?thesis
    using assms(1,2,4) by (simp add: AcquireTaskLock_def timeNow_def acquireRows_def none newLock_def)
qed

lemma GetActiveLocks_undisturbed:
  "faults d = [] \<Longrightarrow> ticks d = [] \<Longrightarrow> GetActiveLocks u d = (Inr (activeLocks u (clock d) (db_locks d)), d)"
  by (simp add: GetActiveLocks_def timeNow_def)

lemma CleanExpiredLocks_undisturbed:
  "faults d = [] \<Longrightarrow> ticks d = [] \<Longrightarrow>
     snd (CleanExpiredLocks d) = deleteLocks (\<lambda>l. l_ExpiresAt l < clock d) d"
  by (simp add: CleanExpiredLocks_def timeNow_def)

definition onlyOwn :: "string \<Rightarrow> string \<Rightarrow> string list \<Rightarrow> db \<Rightarrow> bool" where
  "onlyOwn u s ps d \<longleftrightarrow> (\<forall>l \<in> set (db_locks d). clock d < l_ExpiresAt l
     \<and> (l_UserID l = u \<and> l_FilePath l \<in> set ps \<longrightarrow> l_SessionID l = s))"

lemma onlyOwn_no_conflict: "onlyOwn u s ps d \<Longrightarrow> conflictsWith s (activeLocks u n (db_locks d)) ps = []"
  by (auto simp: onlyOwn_def conflictsWith_def filter_empty_conv list_ex_iff activeLocks_def)

definition holds :: "string \<Rightarrow> string \<Rightarrow> db \<Rightarrow> string \<Rightarrow> bool" where
  "holds u s d p \<longleftrightarrow> (\<exists>l \<in> set (db_locks d). lockFor u p l \<and> l_SessionID l = s \<and> clock d < l_ExpiresAt l)"

lemma undisturbed_Suc:
  assumes "undisturbed (Suc n) d"
  obtains r rs where "entropy d = r # rs" "faults d = []" "ticks d = []"
    "\<not> list_ex (\<lambda>l. l_ID l = GenerateID (clock d) r) (db_locks d)"
    "undisturbed n (d\<lparr>entropy := rs\<rparr>)"
    "\<And>u s a p dur. undisturbed n (d\<lparr>entropy := rs, db_locks := db_locks d @ [newLock u s a p dur r d]\<rparr>)"
proof -
  obtain r rs where e: "entropy d = r # rs" using assms
    by (cases "entropy d") (auto simp: undisturbed_def freshIDs_def)
  have ne: "\<forall>x \<in> set (take n rs). GenerateID (clock d) r \<noteq> GenerateID (clock d) x"
    using assms by (auto simp: undisturbed_def freshIDs_def e image_iff)
  show thesis
    using assms ne by (intro that [OF e])
      (auto simp: undisturbed_def freshIDs_def e newLock_def list_all_iff)
qed

lemma acquireLoop_undisturbed:
  assumes "undisturbed (length qs) d" "onlyOwn u s ps d" "set qs \<subseteq> set ps"
  shows "\<exists>d'. acquireLoop u s a ps qs d = (\<lparr>lr_Acquired = True, lr_Conflicting = []\<rparr>, d')
    \<and> clock d' = clock d \<and> set (db_locks d) \<subseteq> set (db_locks d') \<and> (\<forall>p \<in> set qs. holds u s d' p)"
  using assms
proof (induction qs arbitrary: d)
  case (Cons p qs)
  then have "undisturbed (Suc (length qs)) d" by simp
  then obtain r rs where e: "entropy d = r # rs" "faults d = []" "ticks d = []"
    "\<not> list_ex (\<lambda>l. l_ID l = GenerateID (clock d) r) (db_locks d)"
    and u: "undisturbed (length qs) (d\<lparr>entropy := rs\<rparr>)"
    "\<And>u s a p dur. undisturbed (length qs) (d\<lparr>entropy := rs, db_locks := db_locks d @ [newLock u s a p dur r d]\<rparr>)"
    by (rule undisturbed_Suc) blast
  have own: "\<forall>l \<in> set (db_locks d). clock d \<le> l_ExpiresAt l"
    using Cons.prems(2) by (auto simp: onlyOwn_def)
  note acq = AcquireTaskLock_undisturbed [OF e(2,3,1,4) own]
  have p: "p \<in> set ps" "set qs \<subseteq> set ps" using Cons.prems(3) by auto
  show ?case
  proof (cases "list_ex (lockFor u p) (db_locks d)")
    case True
    let ?d = "d\<lparr>entropy := rs\<rparr>"
    have "onlyOwn u s ps ?d" using Cons.prems(2) by (simp add: onlyOwn_def)
    moreover from True obtain l where l: "l \<in> set (db_locks d)" "lockFor u p l" by (auto simp: list_ex_iff)
    with Cons.prems(2) p have "l_SessionID l = s" "clock d < l_ExpiresAt l" by (auto simp: onlyOwn_def lockFor_def)
    ultimately show ?thesis
      using Cons.IH [OF u(1) _ p(2)] acq [of u s a p lockExpiryDuration] True l e onlyOwn_no_conflict [of u s ps ?d]
      by (fastforce simp: GetActiveLocks_undisturbed holds_def)
  next
    case False
    let ?l = "newLock u s a p lockExpiryDuration r d"
    let ?d = "d\<lparr>entropy := rs, db_locks := db_locks d @ [?l]\<rparr>"
    have "onlyOwn u s ps ?d" using Cons.prems(2) by (auto simp: onlyOwn_def newLock_def lockExpiryDuration_def)
    then obtain d' where d': "acquireLoop u s a ps qs ?d = (\<lparr>lr_Acquired = True, lr_Conflicting = []\<rparr>, d')"
      "clock d' = clock ?d" "set (db_locks ?d) \<subseteq> set (db_locks d')" "\<forall>p \<in> set qs. holds u s d' p"
      using Cons.IH [OF u(2) _ p(2)] by blast
    have "?l \<in> set (db_locks d')" "clock d' = clock d" using d' by auto
    then have "holds u s d' p" unfolding holds_def
      by (intro bexI [of _ ?l]) (simp_all add: newLock_def lockFor_def lockExpiryDuration_def)
    then show ?thesis using acq [of u s a p lockExpiryDuration] False d' by auto
  qed
qed simp

lemma ClaimLocks_conflict_sessions:
  assumes "undisturbed n d" "\<forall>l \<in> set (db_locks d). l_ExpiresAt l \<noteq> clock d"
  defines "d1 \<equiv> deleteLocks (\<lambda>l. l_ExpiresAt l < clock d) d"
  shows "conflictsWith s (activeLocks u (clock d) (db_locks d1)) ps
      = filter (\<lambda>p. list_ex (\<lambda>l. lockFor u p l \<and> l_SessionID l \<noteq> s \<and> clock d < l_ExpiresAt l) (db_locks d)) ps"
    and "conflictsWith s (activeLocks u (clock d) (db_locks d1)) ps = [] \<Longrightarrow> onlyOwn u s ps d1"
    and "undisturbed n d1"
proof -
  show "conflictsWith s (activeLocks u (clock d) (db_locks d1)) ps
      = filter (\<lambda>p. list_ex (\<lambda>l. lockFor u p l \<and> l_SessionID l \<noteq> s \<and> clock d < l_ExpiresAt l) (db_locks d)) ps"
    unfolding conflictsWith_def
    by (rule filter_cong) (auto simp: list_ex_iff activeLocks_def d1_def set_deleteRows lockFor_def)
  show "onlyOwn u s ps d1" if "conflictsWith s (activeLocks u (clock d) (db_locks d1)) ps = []"
  proof -
    have lt: "clock d < l_ExpiresAt l" if "l \<in> set (db_locks d1)" for l
      using that assms(2) by (auto simp: d1_def set_deleteRows not_less le_less)
    then show ?thesis
      using that unfolding onlyOwn_def conflictsWith_def filter_empty_conv list_ex_iff activeLocks_def
      by (simp add: d1_def) blast
  qed
  show "undisturbed n d1"
    using assms(1) by (auto simp: undisturbed_def freshIDs_def d1_def list_all_iff list_ex_iff set_deleteRows)
qed

lemma claim_locks_decision_facts:
  assumes "ClaimLocks u s a paths d = (r, d')"
    and "undisturbed (length paths) d" "\<forall>l \<in> set (db_locks d). l_ExpiresAt l \<noteq> clock d"
    and "length paths \<le> 100" "\<forall>p \<in> set paths. \<not> hasPathTraversal_locks p"
  defines "held \<equiv> filter (\<lambda>p. list_ex (\<lambda>l. lockFor u p l \<and> l_SessionID l \<noteq> s \<and> clock d < l_ExpiresAt l) (db_locks d)) paths"
  shows "r = Inr \<lparr>lr_Acquired = (held = []), lr_Conflicting = held\<rparr>"
    and "held = [] \<Longrightarrow> \<forall>p \<in> set paths. holds u s d' p"
proof -
  let ?d1 = "deleteLocks (\<lambda>l. l_ExpiresAt l < clock d) d"
  have q: "faults d = []" "ticks d = []" using assms(2) by (auto simp: undisturbed_def)
  have san: "filter (\<lambda>p. \<not> hasPathTraversal_locks p) paths = paths" using assms(5) by (simp add: filter_id_conv)
  note c = ClaimLocks_conflict_sessions [OF assms(2,3)]
  have claim: "ClaimLocks u s a paths d =
      (if paths = [] then (Inr \<lparr>lr_Acquired = True, lr_Conflicting = []\<rparr>, d)
       else if held \<noteq> [] then (Inr \<lparr>lr_Acquired = False, lr_Conflicting = held\<rparr>, ?d1)
       else case acquireLoop u s a paths paths ?d1 of (r, d3) \<Rightarrow> (Inr r, d3))"
    using assms(4) q
    by (simp add: ClaimLocks_def maxFilesPerLock_def san CleanExpiredLocks_undisturbed GetActiveLocks_undisturbed
        c(1) [simplified] held_def)
  have ok: "r = Inr \<lparr>lr_Acquired = True, lr_Conflicting = []\<rparr> \<and> (\<forall>p \<in> set paths. holds u s d' p)"
    if "held = []" "paths \<noteq> []"
  proof -
    from that have "onlyOwn u s paths ?d1" by (intro c(2)) (simp add: c(1) [simplified] held_def)
    from acquireLoop_undisturbed [OF c(3) this subset_refl, of a] show ?thesis
      using claim assms(1) that by auto
  qed
  show "r = Inr \<lparr>lr_Acquired = (held = []), lr_Conflicting = held\<rparr>"
    using ok claim assms(1) by (cases "paths = []"; cases "held = []") (auto simp: held_def)
  show "\<forall>p \<in> set paths. holds u s d' p" if "held = []" using ok that by (cases "paths = []") auto
qed

text \<open>
  An undisturbed claim of at most a hundred files, none of them outside the repository,
  succeeds exactly when no other session holds an unexpired lock on one of the user's files asked
  for; it then holds all of them, and otherwise it names exactly the files held by others. (No lock may
  expire in the very millisecond of the claim.)
\<close>

theorem claim_locks_decision:
  assumes "ClaimLocks u s a paths d = (r, d')"
    and "undisturbed (length paths) d" "\<forall>l \<in> set (db_locks d). l_ExpiresAt l \<noteq> clock d"
    and "length paths \<le> 100" "\<forall>p \<in> set paths. \<not> hasPathTraversal_locks p"
  shows "let held = filter (\<lambda>p. list_ex (\<lambda>l. lockFor u p l \<and> l_SessionID l \<noteq> s \<and> clock d < l_ExpiresAt l) (db_locks d)) paths
    in r = Inr \<lparr>lr_Acquired = (held = []), lr_Conflicting = held\<rparr> \<and> (held = [] \<longrightarrow> (\<forall>p \<in> set paths. holds u s d' p))"
  using claim_locks_decision_facts [OF assms] unfolding Let_def by blast

text \<open>Two sessions, one lock each; a random block for each id still to be drawn.\<close>

definition sampleLock :: "string \<Rightarrow> string \<Rightarrow> nat \<Rightarrow> TaskLock" where
  "sampleLock s p expires = \<lparr>l_ID = s, l_UserID = ''u'', l_SessionID = s, l_AgentID = ''a'', l_FilePath = p,
     l_LockedAt = 0, l_ExpiresAt = expires\<rparr>"

definition lockDb :: "TaskLock list \<Rightarrow> string option list \<Rightarrow> nat list \<Rightarrow> db" where
  "lockDb ls fs ts = \<lparr>db_agents = [], db_sessions = [], db_tasks = [], db_locks = ls, db_events = [],
     db_schedules = [], db_users = [], db_github = [], db_apiKeys = [],
     db_workspaces = [], db_history = [], db_usage = [], db_clarifications = [], db_pipelines = [], faults = fs, clock = 1000, ticks = ts,
     entropy = [replicate 10 1, replicate 10 2, replicate 10 3], cteFirst = False\<rparr>"

definition twoLocks :: "TaskLock list" where
  "twoLocks = [sampleLock ''s1'' ''main.go'' 5000, sampleLock ''s2'' ''util.go'' 500]"

lemma twoLocks_distinct: "distinct (map (\<lambda>l. (l_UserID l, l_FilePath l)) (db_locks (lockDb twoLocks [] [])))"
  by (simp add: lockDb_def twoLocks_def sampleLock_def)

theorem claim_locks_never_steals_witness:
  "\<exists>r d'. ClaimLocks ''u'' ''s3'' ''a'' [''util.go''] (lockDb twoLocks [] []) = (r, d')
     \<and> (sampleLock ''s1'' ''main.go'' 5000 \<in> set (db_locks d'))"
proof -
  obtain r d' where c: "ClaimLocks ''u'' ''s3'' ''a'' [''util.go''] (lockDb twoLocks [] []) = (r, d')"
    by (cases "ClaimLocks ''u'' ''s3'' ''a'' [''util.go''] (lockDb twoLocks [] [])")
  have "clock (snd (ClaimLocks ''u'' ''s3'' ''a'' [''util.go''] (lockDb twoLocks [] []))) = 1000" by code_simp
  then have "clock d' = 1000" by (simp add: c)
  then show ?thesis
    using claim_locks_never_steals [OF c twoLocks_distinct] c
    by (auto simp: lockDb_def twoLocks_def sampleLock_def)
qed

lemma lockDb_undisturbed: "undisturbed 2 (lockDb twoLocks [] [])"
  unfolding undisturbed_def freshIDs_def by code_simp

lemma twoLocks_times: "\<forall>l \<in> set (db_locks (lockDb twoLocks [] [])). l_ExpiresAt l \<noteq> clock (lockDb twoLocks [] [])"
  by code_simp

lemma samplePaths_ok: "\<forall>p \<in> set [''util.go'', ''new.go'']. \<not> hasPathTraversal_locks p"
  by code_simp

lemma twoLocks_free: "filter (\<lambda>p. list_ex (\<lambda>l. lockFor ''u'' p l \<and> l_SessionID l \<noteq> ''s3''
    \<and> clock (lockDb twoLocks [] []) < l_ExpiresAt l) (db_locks (lockDb twoLocks [] []))) [''util.go'', ''new.go''] = []"
  by code_simp

theorem claim_locks_decision_witness:
  "\<exists>d'. ClaimLocks ''u'' ''s3'' ''a'' [''util.go'', ''new.go''] (lockDb twoLocks [] [])
       = (Inr \<lparr>lr_Acquired = True, lr_Conflicting = []\<rparr>, d')
     \<and> holds ''u'' ''s3'' d' ''util.go'' \<and> holds ''u'' ''s3'' d' ''new.go''"
proof -
  let ?ps = "[''util.go'', ''new.go'']"
  obtain r d' where c: "ClaimLocks ''u'' ''s3'' ''a'' ?ps (lockDb twoLocks [] []) = (r, d')"
    by (cases "ClaimLocks ''u'' ''s3'' ''a'' ?ps (lockDb twoLocks [] [])")
  have n: "undisturbed (length ?ps) (lockDb twoLocks [] [])" "length ?ps \<le> 100"
    using lockDb_undisturbed by (simp_all add: numeral_2_eq_2)
  note th = claim_locks_decision [OF c n(1) twoLocks_times n(2) samplePaths_ok, unfolded Let_def]
  have "r = Inr \<lparr>lr_Acquired = True, lr_Conflicting = []\<rparr>" using th [THEN conjunct1] by (simp only: twoLocks_free simp_thms)
  moreover have "\<forall>p \<in> set ?ps. holds ''u'' ''s3'' d' p" using th [THEN conjunct2] twoLocks_free by blast
  ultimately show ?thesis using c by simp
qed

text \<open>
  A disturbed claim can report success without holding the lock: when the statement that acquires
  it fails, and when another session's lock expires after the first look but before the insert,
  which then finds the old row, does nothing, and deletes it.
\<close>

theorem claim_reports_success_without_lock:
  "(let (r, d') = ClaimLocks ''u'' ''s3'' ''a'' [''new.go''] (lockDb [] [None, None, None, None, Some ''down''] [])
    in r = Inr \<lparr>lr_Acquired = True, lr_Conflicting = []\<rparr> \<and> db_locks d' = [])
   \<and> (let (r, d') = ClaimLocks ''u'' ''s3'' ''a'' [''util.go'']
                     (lockDb [sampleLock ''s3'' ''util.go'' 1005] [] [0, 0, 10])
      in r = Inr \<lparr>lr_Acquired = True, lr_Conflicting = []\<rparr> \<and> db_locks d' = [])"
  by (rule conjI; code_simp)

text \<open>Releasing and cleaning keep one lock per file, and a release leaves the session no lock.\<close>

lemma ReleaseLocks_rows:
  assumes "ReleaseLocks s u d = (Inr x, d')"
  shows "db_locks d' = deleteRows (\<lambda>l. l_SessionID l = s
      \<and> list_ex (\<lambda>v. s_ID v = s \<and> s_UserID v = u \<and> s_UserID v = l_UserID l) (db_sessions d)) (db_locks d)"
proof -
  obtain d1 where d1: "tables d1 = tables d" and d': "d' = deleteLocks (\<lambda>l. l_SessionID l = s
      \<and> list_ex (\<lambda>v. s_ID v = s \<and> s_UserID v = u \<and> s_UserID v = l_UserID l) (db_sessions d1)) d1"
    using assms unfolding ReleaseLocks_def ReleaseSessionLocks_def by (auto dest!: execStmt_Inr)
  show ?thesis unfolding d' using tables_eqD(2,4) [OF d1] by simp
qed

lemma release_keeps:
  assumes "ReleaseLocks s u d = (r, d')" "lock_table.keyed d"
  shows "lock_table.keyed d'"
proof (cases r)
  case (Inl e)
  with assms(1) have "tables d' = tables d"
    unfolding ReleaseLocks_def ReleaseSessionLocks_def by (auto dest: execStmt_Inl)
  from keyed_same [OF tables_eqD(4) [OF this] assms(2)] show ?thesis .
next
  case (Inr v)
  with ReleaseLocks_rows assms show ?thesis by (simp add: lock_table.keyed_def distinct_deleteRows)
qed

text \<open>
  After a successful \<open>ReleaseLocks\<close> for an existing session of the user, no lock of the user belongs to
  that session; every lock of other sessions is still there.
\<close>

theorem release_locks_frees_the_session:
  assumes "ReleaseLocks s u d = (Inr x, d')" "list_ex (\<lambda>v. s_ID v = s \<and> s_UserID v = u) (db_sessions d)"
  shows "\<forall>l. l \<in> set (db_locks d') \<longleftrightarrow> l \<in> set (db_locks d) \<and> \<not> (l_SessionID l = s \<and> l_UserID l = u)"
  using assms(2) unfolding ReleaseLocks_rows [OF assms(1)] by (auto simp: set_deleteRows list_ex_iff)

definition releaseDb :: db where
  "releaseDb = (lockDb twoLocks [] [])\<lparr>db_sessions := [sampleSession ''s1'']\<rparr>"

theorem release_locks_frees_the_session_witness:
  "\<exists>d'. ReleaseLocks ''s1'' ''u'' releaseDb = (Inr (), d')
     \<and> (\<forall>l. l \<in> set (db_locks d') \<longleftrightarrow> l \<in> set twoLocks \<and> \<not> (l_SessionID l = ''s1'' \<and> l_UserID l = ''u''))"
proof -
  obtain d' where r: "ReleaseLocks ''s1'' ''u'' releaseDb = (Inr (), d')"
    by (simp add: ReleaseLocks_def ReleaseSessionLocks_def releaseDb_def lockDb_def)
  have "list_ex (\<lambda>v. s_ID v = ''s1'' \<and> s_UserID v = ''u'') (db_sessions releaseDb)"
    "db_locks releaseDb = twoLocks"
    by (simp_all add: releaseDb_def lockDb_def sampleSession_def)
  with release_locks_frees_the_session [OF r] r show ?thesis by auto
qed

end
