(* ===== verification/Clarifications.thy ===== *)
theory Clarifications
  imports Accounts "HOL-Library.AList"
begin

text \<open>
  Questions of a running session to its user: the table (\<open>go-shared/clarifications.go\<close>) and the in-memory
  bus by which a waiting session hears of the answer (\<open>go-shared/clarification_bus.go\<close>). The two operations
  that run in a transaction are modelled with its begin, its commit and the deferred rollback.
\<close>

section \<open>The table\<close>

definition withTx :: "string \<Rightarrow> string \<Rightarrow> (db \<Rightarrow> 'a result \<times> db) \<Rightarrow> db \<Rightarrow> 'a result \<times> db" where
  "withTx bmsg cmsg body d =
     (case statement d of
        (Some e, d1) \<Rightarrow> (Inl (bmsg @ '': '' @ e), d1)
      | (None, d1) \<Rightarrow>
          (case body d1 of
             (Inl e, d2) \<Rightarrow> (Inl e, restoreTables d1 d2)
           | (Inr v, d2) \<Rightarrow>
               (case statement d2 of
                  (Some e, d3) \<Rightarrow> (Inl (cmsg @ '': '' @ e), restoreTables d1 d3)
                | (None, d3) \<Rightarrow> (Inr v, d3))))"

text \<open>\<open>QueryRowContext(...).Scan(...)\<close> where every error is returned, \<open>sql.ErrNoRows\<close> too.\<close>

definition queryOne :: "string \<Rightarrow> (db \<Rightarrow> 'a option) \<Rightarrow> db \<Rightarrow> 'a result \<times> db" where
  "queryOne msg sel d =
     (case statement d of
        (Some e, d1) \<Rightarrow> (Inl (msg @ '': '' @ e), d1)
      | (None, d1) \<Rightarrow>
          (case sel d1 of
             None \<Rightarrow> (Inl (msg @ '': sql: no rows in result set''), d1)
           | Some v \<Rightarrow> (Inr v, d1)))"

definition MaxClarificationsPerSession :: nat where
  "MaxClarificationsPerSession = 10"

definition questionsOf :: "string \<Rightarrow> db \<Rightarrow> Clarification list" where
  "questionsOf sid d = filter (\<lambda>c. cl_SessionID c = sid) (db_clarifications d)"

definition pendingOf :: "string \<Rightarrow> db \<Rightarrow> Clarification list" where
  "pendingOf sid d = filter (\<lambda>c. cl_Status c = ClarificationPending) (questionsOf sid d)"

definition insertClarificationError :: "Clarification \<Rightarrow> db \<Rightarrow> string option" where
  "insertClarificationError c d =
     (if list_ex (\<lambda>v. cl_ID v = cl_ID c) (db_clarifications d) then Some duplicateKey
      else if list_ex (\<lambda>s. s_ID s = cl_SessionID c) (db_sessions d) then None
      else Some foreignKey)"

definition newClarification :: "string \<Rightarrow> nat \<Rightarrow> string \<Rightarrow> string \<Rightarrow> Clarification" where
  "newClarification cid now sid question =
     \<lparr>cl_ID = cid, cl_SessionID = sid, cl_Question = question, cl_Answer = None, cl_Status = ClarificationPending,
      cl_AskedAt = now, cl_AnsweredAt = None\<rparr>"

definition insertClarification :: "string \<Rightarrow> string \<Rightarrow> db \<Rightarrow> Clarification result \<times> db" where
  "insertClarification sid question d =
     (let (cid, d1) = newID d; (now, d2) = timeNow d1; row = newClarification cid now sid question
      in case execChecked ''create clarification'' (insertClarificationError row)
                (\<lambda>d. d\<lparr>db_clarifications := db_clarifications d @ [row]\<rparr>) d2 of
           (Inl e, d3) \<Rightarrow> (Inl e, d3)
         | (Inr _, d3) \<Rightarrow> (Inr row, d3))"

definition CreateClarification :: "string \<Rightarrow> string \<Rightarrow> db \<Rightarrow> Clarification result \<times> db" where
  "CreateClarification sid question =
     withTx ''begin tx'' ''commit'' (\<lambda>d.
       case queryOne ''lock session'' (\<lambda>d. List.find (\<lambda>s. s_ID s = sid) (db_sessions d)) d of
         (Inl e, d1) \<Rightarrow> (Inl e, d1)
       | (Inr _, d1) \<Rightarrow>
           (case queryOne ''count clarifications'' (\<lambda>d. Some (length (questionsOf sid d))) d1 of
              (Inl e, d2) \<Rightarrow> (Inl e, d2)
            | (Inr count, d2) \<Rightarrow>
                if count \<ge> MaxClarificationsPerSession
                then (Inl (''max clarifications ('' @ Itoa MaxClarificationsPerSession @ '') reached for session''), d2)
                else insertClarification sid question d2))"

text \<open>The \<open>UPDATE ... FROM sessions\<close>: the question, whatever its status, if its session belongs to the user.\<close>

definition ownedQuestion :: "string \<Rightarrow> string \<Rightarrow> db \<Rightarrow> Clarification \<Rightarrow> bool" where
  "ownedQuestion cid userID d c =
     (cl_ID c = cid \<and> list_ex (\<lambda>s. s_ID s = cl_SessionID c \<and> s_UserID s = userID) (db_sessions d))"

definition setAnswer :: "string \<Rightarrow> nat \<Rightarrow> Clarification \<Rightarrow> Clarification" where
  "setAnswer answer now c = c\<lparr>cl_Answer := Some answer, cl_Status := ClarificationAnswered, cl_AnsweredAt := Some now\<rparr>"

definition AnswerClarification :: "string \<Rightarrow> string \<Rightarrow> string \<Rightarrow> db \<Rightarrow> unit result \<times> db" where
  "AnswerClarification cid userID answer d0 =
     (let (now, d) = timeNow d0 in
      withTx ''begin transaction'' ''commit transaction'' (\<lambda>d.
        case queryOne ''answer clarification'' (\<lambda>d. List.find (ownedQuestion cid userID d) (db_clarifications d)) d of
          (Inl e, d1) \<Rightarrow> (Inl e, d1)
        | (Inr c, d1) \<Rightarrow>
            let d2 = d1\<lparr>db_clarifications := updateRows (ownedQuestion cid userID d1) (setAnswer answer now) (db_clarifications d1)\<rparr>;
                sid = cl_SessionID c in
            (case queryOne ''count pending clarifications'' (\<lambda>d. Some (length (pendingOf sid d))) d2 of
               (Inl e, d3) \<Rightarrow> (Inl e, d3)
             | (Inr pendingCount, d3) \<Rightarrow>
                 if pendingCount = 0
                 then execStmt ''update session status''
                        (updateSessions (\<lambda>s. s_ID s = sid \<and> s_Status s = SessionWaitingForClarification)
                           (\<lambda>s. s\<lparr>s_Status := SessionRunning, s_UpdatedAt := now\<rparr>)) d3
                 else (Inr (), d3))) d)"

definition GetPendingClarifications :: "string \<Rightarrow> db \<Rightarrow> Clarification list result \<times> db" where
  "GetPendingClarifications sid =
     queryRows ''get pending clarifications'' ''scan pending clarification'' ''get pending clarifications rows''
       (\<lambda>d. sort_key cl_AskedAt (pendingOf sid d))"

definition ListClarifications :: "string \<Rightarrow> db \<Rightarrow> Clarification list result \<times> db" where
  "ListClarifications sid =
     queryRows ''list clarifications'' ''scan clarification'' ''list clarifications rows''
       (\<lambda>d. sort_key cl_AskedAt (questionsOf sid d))"

definition stale :: "nat \<Rightarrow> Clarification \<Rightarrow> bool" where
  "stale threshold c = (cl_Status c = ClarificationPending \<and> cl_AskedAt c < threshold)"

text \<open>The update is done once its statement has run, also when reading the returned ids fails.\<close>

definition ExpireStaleClarifications :: "nat \<Rightarrow> db \<Rightarrow> string list result \<times> db" where
  "ExpireStaleClarifications threshold d =
     (case statement d of
        (Some e, d1) \<Rightarrow> (Inl (''expire stale clarifications: '' @ e), d1)
      | (None, d1) \<Rightarrow>
          (let ids = map cl_ID (filter (stale threshold) (db_clarifications d1));
               d2 = d1\<lparr>db_clarifications := updateRows (stale threshold) (\<lambda>c. c\<lparr>cl_Status := ClarificationExpired\<rparr>) (db_clarifications d1)\<rparr>
           in case (if ids = [] then (None, d2) else statement d2) of
                (Some e, d3) \<Rightarrow> (Inl (''scan expired id: '' @ e), d3)
              | (None, d3) \<Rightarrow>
                  (case statement d3 of
                     (Some e, d4) \<Rightarrow> (Inl (''expire stale clarifications rows: '' @ e), d4)
                   | (None, d4) \<Rightarrow> (Inr ids, d4))))"

definition GetClarification :: "string \<Rightarrow> db \<Rightarrow> Clarification option result \<times> db" where
  "GetClarification cid = queryRow ''get clarification'' (\<lambda>d. List.find (\<lambda>c. cl_ID c = cid) (db_clarifications d))"

definition UpdateClarificationStatus :: "string \<Rightarrow> ClarificationStatus \<Rightarrow> db \<Rightarrow> unit result \<times> db" where
  "UpdateClarificationStatus cid status =
     execStmt ''update clarification status''
       (\<lambda>d. d\<lparr>db_clarifications := updateRows (\<lambda>c. cl_ID c = cid) (\<lambda>c. c\<lparr>cl_Status := status\<rparr>) (db_clarifications d)\<rparr>)"

definition CountPendingClarifications :: "string \<Rightarrow> db \<Rightarrow> nat result \<times> db" where
  "CountPendingClarifications sid =
     queryOne ''count pending clarifications'' (\<lambda>d. Some (length (pendingOf sid d)))"

section \<open>The bus\<close>

text \<open>A channel with room for one answer is a cell of a heap, its pointer the index.\<close>

record ClarificationBus =
  b_listeners :: "(string \<times> nat list) list"
  b_chans :: "string list list"

definition NewClarificationBus :: ClarificationBus where
  "NewClarificationBus = \<lparr>b_listeners = [], b_chans = []\<rparr>"

definition listenersOf :: "string \<Rightarrow> ClarificationBus \<Rightarrow> nat list" where
  "listenersOf cid b = (case map_of (b_listeners b) cid of None \<Rightarrow> [] | Some chs \<Rightarrow> chs)"

definition Subscribe_Bus :: "string \<Rightarrow> ClarificationBus \<Rightarrow> nat \<times> ClarificationBus" where
  "Subscribe_Bus cid b =
     (let ch = length (b_chans b) in
      (ch, b\<lparr>b_chans := b_chans b @ [[]], b_listeners := AList.update cid (listenersOf cid b @ [ch]) (b_listeners b)\<rparr>))"

definition trySend :: "string \<Rightarrow> nat \<Rightarrow> string list list \<Rightarrow> string list list" where
  "trySend answer ch chans = (if length (chans ! ch) < 1 then chans[ch := chans ! ch @ [answer]] else chans)"

definition Publish_Bus :: "string \<Rightarrow> string \<Rightarrow> ClarificationBus \<Rightarrow> ClarificationBus" where
  "Publish_Bus cid answer b =
     b\<lparr>b_chans := fold (trySend answer) (listenersOf cid b) (b_chans b), b_listeners := AList.delete cid (b_listeners b)\<rparr>"

definition Unsubscribe_Bus :: "string \<Rightarrow> nat \<Rightarrow> ClarificationBus \<Rightarrow> ClarificationBus" where
  "Unsubscribe_Bus cid ch b =
     (let filtered = filter (\<lambda>l. l \<noteq> ch) (listenersOf cid b) in
      if filtered = [] then b\<lparr>b_listeners := AList.delete cid (b_listeners b)\<rparr>
      else b\<lparr>b_listeners := AList.update cid filtered (b_listeners b)\<rparr>)"

text \<open>The waiting side takes the answer off its channel.\<close>

definition receiveAnswer :: "nat \<Rightarrow> ClarificationBus \<Rightarrow> string option \<times> ClarificationBus" where
  "receiveAnswer ch b =
     (case b_chans b ! ch of
        [] \<Rightarrow> (None, b)
      | a # rest \<Rightarrow> (Some a, b\<lparr>b_chans := (b_chans b)[ch := rest]\<rparr>))"

section \<open>Asking and answering\<close>

lemma withTx_Inl: "withTx b c body d = (Inl e, d') \<Longrightarrow> tables d' = tables d"
  by (auto simp: withTx_def split: prod.splits option.splits sum.splits dest!: statement_tables)

lemma withTx_Inr:
  assumes "withTx b c body d = (Inr v, d')"
  obtains d1 d2 where "tables d1 = tables d" "body d1 = (Inr v, d2)" "tables d' = tables d2"
  using assms by (auto simp: withTx_def split: prod.splits option.splits sum.splits dest!: statement_tables)

lemma queryOne_tables: "queryOne msg sel d = (r, d') \<Longrightarrow> tables d' = tables d"
  by (auto simp: queryOne_def split: prod.splits option.splits dest: statement_tables)

lemma queryOne_result: "queryOne msg sel d = (Inr v, d') \<Longrightarrow> sel d' = Some v"
  by (auto simp: queryOne_def split: prod.splits option.splits)

lemma questionsOf_tables: "tables d' = tables d \<Longrightarrow> questionsOf sid d' = questionsOf sid d \<and> pendingOf sid d' = pendingOf sid d"
  using tables_eqD(13) [of d' d] unfolding questionsOf_def pendingOf_def by (elim meta_impE) simp_all

lemma insertClarification_Inr:
  assumes "insertClarification sid q d = (Inr c, d')"
  shows "\<exists>cid now. c = newClarification cid now sid q \<and> cid \<notin> cl_ID ` set (db_clarifications d)
    \<and> sid \<in> s_ID ` set (db_sessions d) \<and> tables d' = tables (d\<lparr>db_clarifications := db_clarifications d @ [c]\<rparr>)"
proof -
  obtain cid d1 where n: "newID d = (cid, d1)" by (cases "newID d")
  obtain now d2 where t: "timeNow d1 = (now, d2)" by (cases "timeNow d1")
  let ?row = "newClarification cid now sid q"
  have same: "tables d2 = tables d" using newID_tables [OF n] timeNow_tables [OF t] by simp
  obtain d3 where ex: "execChecked ''create clarification'' (insertClarificationError ?row)
      (\<lambda>d. d\<lparr>db_clarifications := db_clarifications d @ [?row]\<rparr>) d2 = (Inr (), d3)" "c = ?row" "d' = d3"
    using assms by (auto simp: insertClarification_def n t Let_def split: prod.splits sum.splits)
  obtain d4 where d4: "tables d4 = tables d2" "insertClarificationError ?row d4 = None"
    "d3 = d4\<lparr>db_clarifications := db_clarifications d4 @ [?row]\<rparr>"
    using execChecked_Inr [OF ex(1)] by blast
  note eq = tables_eqD [OF d4(1) [unfolded same]]
  have "cid \<notin> cl_ID ` set (db_clarifications d)" "sid \<in> s_ID ` set (db_sessions d)"
    using d4(2) unfolding insertClarificationError_def eq by (auto simp: list_ex_iff newClarification_def split: if_splits)
  moreover have "tables d3 = tables (d\<lparr>db_clarifications := db_clarifications d @ [?row]\<rparr>)"
    using eq unfolding d4(3) tables_def by simp
  ultimately show ?thesis using ex(2,3) by blast
qed

text \<open>
  Asking. A question is recorded whole or not at all: when the session does not exist, already
  has ten questions, or any statement or the commit fails, no table changes; otherwise exactly one pending question with a new id is added, and
  the session then has at most ten.
\<close>

theorem asking_is_atomic_and_limited:
  assumes "CreateClarification sid q d = (r, d')"
  shows "case r of
      Inl e \<Rightarrow> tables d' = tables d
    | Inr c \<Rightarrow> (\<exists>cid now. c = newClarification cid now sid q \<and> cid \<notin> cl_ID ` set (db_clarifications d))
        \<and> sid \<in> s_ID ` set (db_sessions d) \<and> tables d' = tables (d\<lparr>db_clarifications := db_clarifications d @ [c]\<rparr>)
        \<and> length (questionsOf sid d') \<le> 10"
proof (cases r)
  case (Inl e)
  then show ?thesis using assms withTx_Inl unfolding CreateClarification_def by fastforce
next
  case (Inr c)
  obtain d1 d2 where tx: "tables d1 = tables d" "tables d' = tables d2"
    and body: "(case queryOne ''lock session'' (\<lambda>d. List.find (\<lambda>s. s_ID s = sid) (db_sessions d)) d1 of
         (Inl e, d1) \<Rightarrow> (Inl e, d1)
       | (Inr _, d1) \<Rightarrow>
           (case queryOne ''count clarifications'' (\<lambda>d. Some (length (questionsOf sid d))) d1 of
              (Inl e, d2) \<Rightarrow> (Inl e, d2)
            | (Inr count, d2) \<Rightarrow>
                if count \<ge> MaxClarificationsPerSession
                then (Inl (''max clarifications ('' @ Itoa MaxClarificationsPerSession @ '') reached for session''), d2)
                else insertClarification sid q d2)) = (Inr c, d2)"
    using assms unfolding Inr CreateClarification_def by (rule withTx_Inr)
  obtain v d3 where q1: "queryOne ''lock session'' (\<lambda>d. List.find (\<lambda>s. s_ID s = sid) (db_sessions d)) d1 = (Inr v, d3)"
    using body by (auto split: prod.splits sum.splits)
  obtain n d4 where q2: "queryOne ''count clarifications'' (\<lambda>d. Some (length (questionsOf sid d))) d3 = (Inr n, d4)"
    using body by (auto simp: q1 split: prod.splits sum.splits)
  have same: "tables d4 = tables d" using queryOne_tables [OF q1] queryOne_tables [OF q2] tx(1) by simp
  have n: "n < 10" "n = length (questionsOf sid d)" and ins: "insertClarification sid q d4 = (Inr c, d2)"
    using body queryOne_result [OF q2] questionsOf_tables [OF same] by (auto simp: q1 q2 MaxClarificationsPerSession_def split: if_splits)
  from insertClarification_Inr [OF ins] obtain cid now where c: "c = newClarification cid now sid q"
    "cid \<notin> cl_ID ` set (db_clarifications d4)" "sid \<in> s_ID ` set (db_sessions d4)"
    "tables d2 = tables (d4\<lparr>db_clarifications := db_clarifications d4 @ [c]\<rparr>)" by blast
  note eq = tables_eqD [OF same]
  have t: "tables d' = tables (d\<lparr>db_clarifications := db_clarifications d @ [c]\<rparr>)"
    using tx(2) c(4) eq by (simp add: tables_def)
  have "length (questionsOf sid d') = Suc (length (questionsOf sid d))"
    using questionsOf_tables [OF t, of sid] c(1) by (simp add: questionsOf_def newClarification_def)
  then show ?thesis using Inr n c eq t by auto
qed

lemma ownedQuestion_tables: "tables d' = tables d \<Longrightarrow> ownedQuestion cid u d' = ownedQuestion cid u d"
proof -
  assume "tables d' = tables d"
  note eq = tables_eqD(2) [OF this]
  show "ownedQuestion cid u d' = ownedQuestion cid u d" by (rule ext) (simp only: ownedQuestion_def eq)
qed

lemma updateSessions_tables:
  assumes "tables d' = tables d"
  shows "tables (updateSessions P f d') = tables (d\<lparr>db_sessions := updateRows P f (db_sessions d)\<rparr>)"
  using tables_eqD [OF assms] unfolding updateSessions_def tables_def by simp

definition answered :: "string \<Rightarrow> string \<Rightarrow> string \<Rightarrow> nat \<Rightarrow> db \<Rightarrow> db" where
  "answered cid u a now d =
     d\<lparr>db_clarifications := updateRows (ownedQuestion cid u d) (setAnswer a now) (db_clarifications d)\<rparr>"

definition resumed :: "string \<Rightarrow> nat \<Rightarrow> db \<Rightarrow> db" where
  "resumed sid now d =
     (if pendingOf sid d \<noteq> [] then d
      else d\<lparr>db_sessions := updateRows (\<lambda>s. s_ID s = sid \<and> s_Status s = SessionWaitingForClarification)
                               (\<lambda>s. s\<lparr>s_Status := SessionRunning, s_UpdatedAt := now\<rparr>) (db_sessions d)\<rparr>)"

text \<open>
  Answering. An answer is recorded whole or not at all: when the question does not exist or its session is not the
  user's, or a statement or the commit fails, no table changes. Otherwise the question becomes answered, whatever its status was,
  and its session, if it is waiting, runs again exactly when none of its questions is pending
  any more; nothing else changes.
\<close>

theorem answering_resumes_the_session:
  assumes "AnswerClarification cid u a d = (r, d')"
  shows "case r of
      Inl e \<Rightarrow> tables d' = tables d
    | Inr _ \<Rightarrow> (\<exists>c now. c \<in> set (db_clarifications d) \<and> ownedQuestion cid u d c
        \<and> tables d' = tables (resumed (cl_SessionID c) now (answered cid u a now d)))"
proof -
  obtain now d0 where t: "timeNow d = (now, d0)" by (cases "timeNow d")
  note tt = timeNow_tables [OF t]
  show ?thesis
  proof (cases r)
    case (Inl e)
    then show ?thesis using assms withTx_Inl tt unfolding AnswerClarification_def t Let_def prod.case by fastforce
  next
    case (Inr x)
    let ?own = "\<lambda>d. List.find (ownedQuestion cid u d) (db_clarifications d)"
    obtain d1 d2 where tx: "tables d1 = tables d0" "tables d' = tables d2"
      and body: "(case queryOne ''answer clarification'' ?own d1 of
          (Inl e, d1) \<Rightarrow> (Inl e, d1)
        | (Inr c, d1) \<Rightarrow>
            (case queryOne ''count pending clarifications'' (\<lambda>d. Some (length (pendingOf (cl_SessionID c) d))) (answered cid u a now d1) of
               (Inl e, d3) \<Rightarrow> (Inl e, d3)
             | (Inr pendingCount, d3) \<Rightarrow>
                 if pendingCount = 0
                 then execStmt ''update session status''
                        (updateSessions (\<lambda>s. s_ID s = cl_SessionID c \<and> s_Status s = SessionWaitingForClarification)
                           (\<lambda>s. s\<lparr>s_Status := SessionRunning, s_UpdatedAt := now\<rparr>)) d3
                 else (Inr (), d3))) = (Inr x, d2)"
      using assms unfolding Inr AnswerClarification_def t Let_def prod.case answered_def [symmetric] by (rule withTx_Inr)
    obtain c d3 where q1: "queryOne ''answer clarification'' ?own d1 = (Inr c, d3)" using body by (auto split: prod.splits sum.splits)
    have same: "tables d3 = tables d" using queryOne_tables [OF q1] tx(1) tt by simp
    obtain n d4 where q2: "queryOne ''count pending clarifications'' (\<lambda>d. Some (length (pendingOf (cl_SessionID c) d))) (answered cid u a now d3) = (Inr n, d4)"
      using body by (auto simp: q1 split: prod.splits sum.splits)
    have ans: "tables (answered cid u a now d3) = tables (answered cid u a now d)"
      using tables_eqD [OF same] unfolding answered_def tables_def ownedQuestion_tables [OF same] by simp
    then have same4: "tables d4 = tables (answered cid u a now d)" using queryOne_tables [OF q2] by simp
    have n: "n = length (pendingOf (cl_SessionID c) (answered cid u a now d))"
      using queryOne_result [OF q2] questionsOf_tables [OF same4] by simp
    have c: "c \<in> set (db_clarifications d)" "ownedQuestion cid u d c"
      using find_Some_iff_mem [OF queryOne_result [OF q1]] unfolding ownedQuestion_tables [OF same] tables_eqD(13) [OF same] by auto
    have "tables d2 = tables (resumed (cl_SessionID c) now (answered cid u a now d))"
    proof (cases "n = 0")
      case False
      then show ?thesis using body n same4 by (simp add: q1 q2 resumed_def)
    next
      case True
      then have "execStmt ''update session status''
          (updateSessions (\<lambda>s. s_ID s = cl_SessionID c \<and> s_Status s = SessionWaitingForClarification)
             (\<lambda>s. s\<lparr>s_Status := SessionRunning, s_UpdatedAt := now\<rparr>)) d4 = (Inr (), d2)"
        using body by (simp add: q1 q2)
      from execStmt_Inr [OF this] obtain d5 where d5: "tables d5 = tables d4"
        "d2 = updateSessions (\<lambda>s. s_ID s = cl_SessionID c \<and> s_Status s = SessionWaitingForClarification)
             (\<lambda>s. s\<lparr>s_Status := SessionRunning, s_UpdatedAt := now\<rparr>) d5" by blast
      have "pendingOf (cl_SessionID c) (answered cid u a now d) = []" using True n by simp
      then show ?thesis unfolding d5(2) resumed_def using updateSessions_tables [OF d5(1) [unfolded same4]] by simp
    qed
    with c tx(2) Inr show ?thesis by auto
  qed
qed

text \<open>
  An expired question keeps its session waiting: expiring changes no session, and only an answer
  ever moves a waiting session on.
\<close>

lemma expiring_leaves_sessions_waiting:
  assumes "ExpireStaleClarifications threshold d = (r, d')"
  shows "db_sessions d' = db_sessions d"
proof -
  obtain e d1 where s: "statement d = (e, d1)" by (cases "statement d")
  have "tables d' = tables d1 \<or> db_sessions d' = db_sessions d1"
    using assms s unfolding ExpireStaleClarifications_def Let_def
    by (auto split: prod.splits option.splits if_splits dest!: statement_tables) (auto simp: tables_def)
  then show ?thesis using tables_eqD(2) statement_tables [OF s] by metis
qed

definition askDb :: db where
  "askDb = accountDb\<lparr>db_sessions := [(sampleSession ''s1'')\<lparr>s_Status := SessionWaitingForClarification\<rparr>]\<rparr>"

theorem answering_resumes_the_session_witness:
  "\<exists>d'. AnswerClarification ''q'' ''u'' ''because'' askDb = (Inr (), d') \<and> map s_Status (db_sessions d') = [SessionRunning]"
proof -
  obtain r d' where a: "AnswerClarification ''q'' ''u'' ''because'' askDb = (r, d')"
    by (cases "AnswerClarification ''q'' ''u'' ''because'' askDb")
  have "fst (AnswerClarification ''q'' ''u'' ''because'' askDb) = Inr ()" by code_simp
  with a have r: "r = Inr ()" by simp
  from answering_resumes_the_session [OF a] r obtain c now where
    c: "c \<in> set (db_clarifications askDb)"
    "tables d' = tables (resumed (cl_SessionID c) now (answered ''q'' ''u'' ''because'' now askDb))" by auto
  have "cl_SessionID c = ''s1''" using c(1) by (simp add: askDb_def accountDb_def)
  then have "db_sessions d' = db_sessions (resumed ''s1'' now (answered ''q'' ''u'' ''because'' now askDb))"
    using tables_eqD(2) [OF c(2)] by simp
  then have "map s_Status (db_sessions d') = [SessionRunning]"
    by (simp add: askDb_def accountDb_def sessionDb_def sampleSession_def resumed_def answered_def pendingOf_def questionsOf_def
        updateRows_def ownedQuestion_def setAnswer_def)
  with a [unfolded r] show ?thesis by (intro exI [of _ d'] conjI)
qed

definition quietDb :: db where
  "quietDb = askDb\<lparr>db_clarifications := []\<rparr>"

lemma quietDb_asks: "\<exists>c d'. CreateClarification ''s1'' q quietDb = (Inr c, d')"
proof -
  have f: "faults quietDb = []" "ticks quietDb = []" "entropy quietDb = map (replicate 10) [1, 2, 3, 4]"
    "db_clarifications quietDb = []" "db_sessions quietDb = [(sampleSession ''s1'')\<lparr>s_Status := SessionWaitingForClarification\<rparr>]"
    by (simp_all add: quietDb_def askDb_def accountDb_def sessionDb_def)
  then show ?thesis
    by (simp add: CreateClarification_def withTx_def queryOne_def questionsOf_def MaxClarificationsPerSession_def insertClarification_def
        newID_def timeNow_def Let_def execChecked_def statement_def insertClarificationError_def newClarification_def sampleSession_def)
qed

theorem asking_is_atomic_and_limited_witness:
  "\<exists>c d'. CreateClarification ''s1'' ''really?'' quietDb = (Inr c, d') \<and> db_clarifications d' = [c]
     \<and> length (questionsOf ''s1'' d') \<le> 10"
proof -
  obtain c d' where a: "CreateClarification ''s1'' ''really?'' quietDb = (Inr c, d')" using quietDb_asks by blast
  from asking_is_atomic_and_limited [OF a] have
    t: "tables d' = tables (quietDb\<lparr>db_clarifications := db_clarifications quietDb @ [c]\<rparr>)" "length (questionsOf ''s1'' d') \<le> 10" by auto
  from tables_eqD(13) [OF t(1)] have "db_clarifications d' = [c]" by (simp add: quietDb_def)
  with a t(2) show ?thesis by blast
qed

section \<open>Delivery on the bus\<close>

datatype busOp = BusSubscribe string | BusPublish string string | BusUnsubscribe string nat | BusReceive nat

definition busStep :: "ClarificationBus \<Rightarrow> busOp \<Rightarrow> ClarificationBus" where
  "busStep b opr =
     (case opr of
        BusSubscribe cid \<Rightarrow> snd (Subscribe_Bus cid b)
      | BusPublish cid answer \<Rightarrow> Publish_Bus cid answer b
      | BusUnsubscribe cid ch \<Rightarrow> Unsubscribe_Bus cid ch b
      | BusReceive ch \<Rightarrow> snd (receiveAnswer ch b))"

text \<open>A channel that is registered is registered once, under one question, and still empty.\<close>

definition busOk :: "ClarificationBus \<Rightarrow> bool" where
  "busOk b \<longleftrightarrow>
     distinct (map fst (b_listeners b))
     \<and> (\<forall>cid. distinct (listenersOf cid b) \<and> (\<forall>ch \<in> set (listenersOf cid b). ch < length (b_chans b) \<and> b_chans b ! ch = []))
     \<and> (\<forall>c1 c2. c1 \<noteq> c2 \<longrightarrow> set (listenersOf c1 b) \<inter> set (listenersOf c2 b) = {})"

lemma listenersOf_update:
  "listenersOf c (b\<lparr>b_chans := x, b_listeners := AList.update cid chs (b_listeners b)\<rparr>) = (if c = cid then chs else listenersOf c b)"
  "listenersOf c (b\<lparr>b_listeners := AList.update cid chs (b_listeners b)\<rparr>) = (if c = cid then chs else listenersOf c b)"
  "listenersOf c (b\<lparr>b_chans := x, b_listeners := AList.delete cid (b_listeners b)\<rparr>) = (if c = cid then [] else listenersOf c b)"
  "listenersOf c (b\<lparr>b_listeners := AList.delete cid (b_listeners b)\<rparr>) = (if c = cid then [] else listenersOf c b)"
  "listenersOf c (b\<lparr>b_chans := x\<rparr>) = listenersOf c b"
  by (simp_all add: listenersOf_def update_conv' delete_conv')

lemma trySends:
  assumes "distinct chs" "\<forall>ch \<in> set chs. ch < length chans \<and> chans ! ch = []"
  shows "length (fold (trySend a) chs chans) = length chans"
    and "i < length chans \<Longrightarrow> fold (trySend a) chs chans ! i = (if i \<in> set chs then [a] else chans ! i)"
proof -
  have "length (fold (trySend a) chs chans) = length chans
      \<and> (\<forall>i < length chans. fold (trySend a) chs chans ! i = (if i \<in> set chs then [a] else chans ! i))"
    using assms
  proof (induction chs arbitrary: chans)
    case (Cons ch chs)
    have one: "trySend a ch chans = chans[ch := [a]]" using Cons.prems by (simp add: trySend_def)
    have "length (fold (trySend a) chs (chans[ch := [a]])) = length (chans[ch := [a]])
        \<and> (\<forall>i < length (chans[ch := [a]]). fold (trySend a) chs (chans[ch := [a]]) ! i
             = (if i \<in> set chs then [a] else chans[ch := [a]] ! i))"
      using Cons.prems by (intro Cons.IH) (auto simp: nth_list_update)
    then show ?case using Cons.prems by (auto simp: one nth_list_update)
  qed simp
  then show "length (fold (trySend a) chs chans) = length chans"
    "i < length chans \<Longrightarrow> fold (trySend a) chs chans ! i = (if i \<in> set chs then [a] else chans ! i)" by auto
qed

lemma busStep_ok:
  assumes ok: "busOk b"
  shows "busOk (busStep b opr)"
proof (cases opr)
  case (BusSubscribe cid)
  have "ch < length (b_chans b)" if "ch \<in> set (listenersOf c b)" for ch c using ok that by (auto simp: busOk_def)
  then show ?thesis
    using ok unfolding BusSubscribe busStep_def busOp.case Subscribe_Bus_def Let_def snd_conv busOk_def listenersOf_update
    by (auto simp: distinct_update nth_append less_Suc_eq)
next
  case (BusPublish cid a)
  have l: "distinct (listenersOf c b)" "\<forall>ch \<in> set (listenersOf c b). ch < length (b_chans b) \<and> b_chans b ! ch = []" for c
    using ok by (auto simp: busOk_def)
  have "fold (trySend a) (listenersOf cid b) (b_chans b) ! ch = []" if "c \<noteq> cid" "ch \<in> set (listenersOf c b)" for c ch
  proof -
    have "set (listenersOf c b) \<inter> set (listenersOf cid b) = {}" using ok that(1) unfolding busOk_def by blast
    then have "ch \<notin> set (listenersOf cid b)" "ch < length (b_chans b)" "b_chans b ! ch = []" using that(2) l(2) [of c] by auto
    then show ?thesis using trySends(2) [OF l, of ch a cid] by simp
  qed
  then show ?thesis
    using ok unfolding BusPublish busStep_def busOp.case Publish_Bus_def busOk_def listenersOf_update
    by (auto simp: distinct_delete trySends(1) [OF l])
next
  case (BusUnsubscribe cid ch)
  then show ?thesis
    using ok unfolding busStep_def busOk_def
    by (auto simp: Unsubscribe_Bus_def Let_def listenersOf_update distinct_update distinct_delete) blast+
next
  case (BusReceive ch)
  show ?thesis
  proof (cases "b_chans b ! ch")
    case (Cons x xs)
    then have "\<forall>c. ch \<notin> set (listenersOf c b)" using ok by (auto simp: busOk_def)
    then have "(b_chans b)[ch := xs] ! i = b_chans b ! i" if "i \<in> set (listenersOf c b)" for i c
      using that by (metis nth_list_update_neq)
    then show ?thesis
      using ok unfolding BusReceive busStep_def busOk_def
      by (auto simp: receiveAnswer_def Cons listenersOf_update nth_list_update)
  qed (use ok BusReceive in \<open>simp add: busStep_def receiveAnswer_def\<close>)
qed

interpretation bus: invariant_machine "\<lambda>b. b = NewClarificationBus" "\<lambda>b opr b'. b' = busStep b opr" busOk
proof
  show "busOk s" if "s = NewClarificationBus" for s
    using that by (simp add: busOk_def NewClarificationBus_def listenersOf_def)
qed (simp add: busStep_ok)

text \<open>
  C23. The bus delivers an answer exactly once. In every state the bus can reach, publishing an answer puts exactly that answer into every
  channel waiting for the question, which were all empty, leaves every other channel as it was, and
  unregisters the channels, so that a second answer to the same question reaches none of them.
\<close>

theorem bus_delivers_exactly_once:
  assumes "reach (\<lambda>b. b = NewClarificationBus) (\<lambda>b opr b'. b' = busStep b opr) b"
  shows "listenersOf cid (Publish_Bus cid a b) = []
    \<and> (\<forall>ch < length (b_chans b). b_chans (Publish_Bus cid a b) ! ch = (if ch \<in> set (listenersOf cid b) then [a] else b_chans b ! ch))
    \<and> b_chans (Publish_Bus cid a2 (Publish_Bus cid a b)) = b_chans (Publish_Bus cid a b)"
proof -
  have ok: "busOk b" using bus.inv_reachable [OF assms] .
  then have l: "distinct (listenersOf cid b)" "\<forall>ch \<in> set (listenersOf cid b). ch < length (b_chans b) \<and> b_chans b ! ch = []"
    by (auto simp: busOk_def)
  have "listenersOf cid (Publish_Bus cid a b) = []" by (simp add: Publish_Bus_def listenersOf_update)
  moreover from this have "b_chans (Publish_Bus cid a2 (Publish_Bus cid a b)) = b_chans (Publish_Bus cid a b)"
    by (simp add: Publish_Bus_def [of cid a2])
  ultimately show ?thesis using trySends(2) [OF l] by (simp add: Publish_Bus_def)
qed

theorem bus_delivers_exactly_once_witness:
  "\<exists>b. b = busStep (busStep NewClarificationBus (BusSubscribe ''q'')) (BusSubscribe ''p'')
     \<and> b_chans (Publish_Bus ''q'' ''yes'' b) ! 0 = [''yes''] \<and> b_chans (Publish_Bus ''q'' ''yes'' b) ! 1 = []"
proof -
  let ?b = "busStep (busStep NewClarificationBus (BusSubscribe ''q'')) (BusSubscribe ''p'')"
  have "reach (\<lambda>b. b = NewClarificationBus) (\<lambda>b opr b'. b' = busStep b opr) NewClarificationBus" by (rule reach_start) (rule refl)
  then have "reach (\<lambda>b. b = NewClarificationBus) (\<lambda>b opr b'. b' = busStep b opr) (busStep NewClarificationBus (BusSubscribe ''q''))"
    by (rule reach_step) (rule refl)
  then have r: "reach (\<lambda>b. b = NewClarificationBus) (\<lambda>b opr b'. b' = busStep b opr) ?b" by (rule reach_step) (rule refl)
  have "listenersOf ''q'' ?b = [0]" "b_chans ?b = [[], []]" by code_simp+
  then show ?thesis using bus_delivers_exactly_once [OF r, of "''q''" "''yes''"] by auto
qed

end
