(* ===== verification/Regexp.thy ===== *)
theory Regexp
  imports Json
begin

text \<open>
  The part of Go's \<open>regexp\<close> the program uses: patterns over runes, leftmost-first search as Perl does it, matching and replacement.
  A text is cut into runes as \<open>range\<close> does; a byte that starts no well-formed sequence is a rune of its own with value \<open>U+FFFD\<close>.
  The ends of the matches at a position are listed in the order in which a backtracking search finds them, so
  the match that Go reports is the first of the list.
\<close>

section \<open>Runes\<close>

function runesOf :: "string \<Rightarrow> string list" where
  "runesOf s = (if s = [] then [] else let n = max 1 (runeSize s) in take n s # runesOf (drop n s))"
  by auto
termination by (relation "measure length") auto

declare runesOf.simps [simp del]

definition runeVal :: "string \<Rightarrow> nat" where
  "runeVal r =
     (if runeSize r = 0 then 0xFFFD
      else case map of_char r of
             [a] \<Rightarrow> a
           | [a, b] \<Rightarrow> (a mod 32) * 64 + b mod 64
           | [a, b, c] \<Rightarrow> (a mod 16) * 4096 + (b mod 64) * 64 + c mod 64
           | [a, b, c, e] \<Rightarrow> (a mod 8) * 262144 + (b mod 64) * 4096 + (c mod 64) * 64 + e mod 64
           | _ \<Rightarrow> 0xFFFD)"

lemma concat_runesOf [simp]: "concat (runesOf s) = s"
  by (induction s rule: runesOf.induct) (subst runesOf.simps, simp add: Let_def)

lemma runeSize_ascii [simp]: "(of_char c :: nat) < 128 \<Longrightarrow> runeSize (c # s) = 1"
  by (simp add: runeSize_def)

lemma runesOf_Nil [simp]: "runesOf [] = []"
  by (simp add: runesOf.simps)

lemma runesOf_ascii_Cons [simp]: "(of_char c :: nat) < 128 \<Longrightarrow> runesOf (c # s) = [c] # runesOf s"
  by (subst runesOf.simps) simp

lemma runesOf_ascii: "\<forall>c \<in> set s. (of_char c :: nat) < 128 \<Longrightarrow> runesOf s = map (\<lambda>c. [c]) s"
  by (induction s) simp_all

lemma runeVal_ascii [simp]: "(of_char c :: nat) < 128 \<Longrightarrow> runeVal [c] = of_char c"
  by (simp add: runeVal_def)

text \<open>A rune is one ASCII character or made of bytes above 127 only, and then its value is above 127.\<close>

lemma cont_high: "contByte c \<Longrightarrow> 128 \<le> (of_char c :: nat)" "firstContOk b c \<Longrightarrow> 128 \<le> (of_char c :: nat)"
  by (auto simp: contByte_def firstContOk_def inRange_def split: if_splits)

lemma runeSize_high:
  assumes "128 \<le> (of_char c :: nat)" "b \<in> set (take (max 1 (runeSize (c # s))) (c # s))"
  shows "128 \<le> (of_char b :: nat)"
proof -
  have "\<forall>b \<in> set (take (runeSize (c # s)) (c # s)). 128 \<le> (of_char b :: nat)"
    using assms(1) unfolding runeSize_def
    by (auto simp: Let_def numeral_eq_Suc dest: cont_high split: list.splits if_splits)
  then show ?thesis using assms by (cases "runeSize (c # s)") auto
qed

lemma runesOf_high:
  assumes "r \<in> set (runesOf s)"
  shows "(\<exists>c. r = [c] \<and> (of_char c :: nat) < 128) \<or> (\<forall>b \<in> set r. 128 \<le> (of_char b :: nat))"
  using assms
proof (induction s rule: runesOf.induct)
  case (1 s)
  show ?case
  proof (cases s)
    case (Cons c cs)
    show ?thesis
    proof (cases "(of_char c :: nat) < 128")
      case True
      then show ?thesis using 1 Cons by auto
    next
      case False
      have "runesOf s = take (max 1 (runeSize s)) s # runesOf (drop (max 1 (runeSize s)) s)"
        by (subst runesOf.simps) (simp add: Cons Let_def)
      then consider "r = take (max 1 (runeSize s)) s" | "r \<in> set (runesOf (drop (max 1 (runeSize s)) s))" using 1(2) by auto
      then show ?thesis
      proof cases
        case 1
        then show ?thesis using runeSize_high [of c _ cs] False Cons by (auto simp: not_less)
      next
        case 2
        then show ?thesis using "1.IH" [OF _ refl] Cons by simp
      qed
    qed
  qed (use 1 in simp)
qed

section \<open>Patterns\<close>

datatype re =
    Eps
  | Cls "(nat \<times> nat) list" \<comment> \<open>a rune in one of the ranges\<close>
  | NotCls "(nat \<times> nat) list"
  | Cat re re
  | Or re re
  | Star bool re \<comment> \<open>greedy or lazy\<close>
  | Bol
  | Eol
  | WordB

definition inRanges :: "(nat \<times> nat) list \<Rightarrow> nat \<Rightarrow> bool" where
  "inRanges rs n \<longleftrightarrow> list_ex (\<lambda>(a, b). a \<le> n \<and> n \<le> b) rs"

definition wordClass :: "(nat \<times> nat) list" where
  "wordClass = [(48, 57), (65, 90), (95, 95), (97, 122)]"

definition digitClass :: "(nat \<times> nat) list" where
  "digitClass = [(48, 57)]"

definition spaceClass :: "(nat \<times> nat) list" where
  "spaceClass = [(9, 10), (12, 13), (32, 32)]"

definition alnumClass :: "(nat \<times> nat) list" where
  "alnumClass = [(48, 57), (65, 90), (97, 122)]"

definition anyRune :: re where
  "anyRune = NotCls [(10, 10)]"

fun lit :: "string \<Rightarrow> re" where
  "lit [] = Eps"
| "lit [c] = Cls [(of_char c, of_char c)]"
| "lit (c # cs) = Cat (Cls [(of_char c, of_char c)]) (lit cs)"

text \<open>A one-of class of ASCII characters.\<close>

definition oneOf :: "string \<Rightarrow> (nat \<times> nat) list" where
  "oneOf s = map (\<lambda>c. (of_char c, of_char c)) s"

fun reTimes :: "nat \<Rightarrow> re \<Rightarrow> re" where
  "reTimes 0 r = Eps"
| "reTimes (Suc n) r = Cat r (reTimes n r)"

definition atLeast :: "nat \<Rightarrow> re \<Rightarrow> re" where
  "atLeast n r = Cat (reTimes n r) (Star True r)"

definition plus1 :: "re \<Rightarrow> re" where
  "plus1 r = Cat r (Star True r)"

definition optional :: "re \<Rightarrow> re" where
  "optional r = Or r Eps"

fun alternatives :: "re list \<Rightarrow> re" where
  "alternatives [] = Cls []"
| "alternatives [r] = r"
| "alternatives (r # rs) = Or r (alternatives rs)"

definition wordAt :: "nat list \<Rightarrow> nat \<Rightarrow> bool" where
  "wordAt t i \<longleftrightarrow> i < length t \<and> inRanges wordClass (t ! i)"

text \<open>The ends of \<open>r*\<close>: another round that consumes something, or stop; the fuel is the length of what is left.\<close>

primrec starEnds :: "bool \<Rightarrow> (nat \<Rightarrow> nat list) \<Rightarrow> nat \<Rightarrow> nat \<Rightarrow> nat list" where
  "starEnds greedy f 0 i = [i]"
| "starEnds greedy f (Suc n) i =
     (let more = concat (map (starEnds greedy f n) (filter (\<lambda>j. i < j) (f i)))
      in if greedy then more @ [i] else i # more)"

primrec ends :: "nat list \<Rightarrow> re \<Rightarrow> nat \<Rightarrow> nat list" where
  "ends t Eps i = [i]"
| "ends t (Cls rs) i = (if i < length t \<and> inRanges rs (t ! i) then [Suc i] else [])"
| "ends t (NotCls rs) i = (if i < length t \<and> \<not> inRanges rs (t ! i) then [Suc i] else [])"
| "ends t (Cat a b) i = concat (map (ends t b) (ends t a i))"
| "ends t (Or a b) i = ends t a i @ ends t b i"
| "ends t (Star greedy a) i = starEnds greedy (ends t a) (length t - i) i"
| "ends t Bol i = (if i = 0 then [i] else [])"
| "ends t Eol i = (if i = length t then [i] else [])"
| "ends t WordB i = (if (0 < i \<and> wordAt t (i - 1)) \<noteq> wordAt t i then [i] else [])"

text \<open>Matches stay inside the text and consume at least \<open>minLen\<close> runes.\<close>

primrec minLen :: "re \<Rightarrow> nat" where
  "minLen Eps = 0"
| "minLen (Cls rs) = 1"
| "minLen (NotCls rs) = 1"
| "minLen (Cat a b) = minLen a + minLen b"
| "minLen (Or a b) = min (minLen a) (minLen b)"
| "minLen (Star g a) = 0"
| "minLen Bol = 0"
| "minLen Eol = 0"
| "minLen WordB = 0"

lemma starEnds_range:
  assumes "\<And>i j. i \<le> N \<Longrightarrow> j \<in> set (f i) \<Longrightarrow> j \<le> N" "i \<le> N" "j \<in> set (starEnds g f n i)"
  shows "i \<le> j \<and> j \<le> N"
  using assms(2,3)
proof (induction n arbitrary: i)
  case (Suc n)
  show ?case
  proof (cases "j = i")
    case False
    with Suc.prems(2) obtain k where k: "k \<in> set (f i)" "i < k" "j \<in> set (starEnds g f n k)"
      by (auto simp: Let_def split: if_splits)
    from Suc.IH [OF _ k(3)] assms(1) [OF Suc.prems(1) k(1)] k(2) show ?thesis by auto
  qed (use Suc.prems in simp)
qed simp

lemma ends_range: "i \<le> length t \<Longrightarrow> j \<in> set (ends t r i) \<Longrightarrow> i + minLen r \<le> j \<and> j \<le> length t"
proof (induction r arbitrary: i j)
  case (Cat a b)
  from Cat.prems(2) obtain k where k: "k \<in> set (ends t a i)" "j \<in> set (ends t b k)" by auto
  have "i + minLen a \<le> k" "k \<le> length t" using Cat.IH(1) [OF Cat.prems(1) k(1)] by auto
  moreover from this have "k + minLen b \<le> j" "j \<le> length t" using Cat.IH(2) [OF _ k(2)] by auto
  ultimately show ?case by simp
next
  case (Or a b)
  from Or.prems(2) consider "j \<in> set (ends t a i)" | "j \<in> set (ends t b i)" by auto
  then show ?case
  proof cases
    case 1
    from Or.IH(1) [OF Or.prems(1) this] show ?thesis by (auto simp: min_def)
  next
    case 2
    from Or.IH(2) [OF Or.prems(1) this] show ?thesis by (auto simp: min_def)
  qed
next
  case (Star g a)
  have "k \<le> length t" if "i \<le> length t" "k \<in> set (ends t a i)" for i k using Star.IH [OF that] by simp
  from starEnds_range [OF this _ Star.prems(2) [simplified]] Star.prems(1) show ?case by simp
qed (auto split: if_splits)

section \<open>Search and replacement\<close>

text \<open>The leftmost match at or after position \<open>i\<close>; \<open>fuel\<close> positions are tried.\<close>

fun searchFrom :: "nat list \<Rightarrow> re \<Rightarrow> nat \<Rightarrow> nat \<Rightarrow> (nat \<times> nat) option" where
  "searchFrom t r 0 i = None"
| "searchFrom t r (Suc n) i =
     (case ends t r i of j # _ \<Rightarrow> Some (i, j) | [] \<Rightarrow> searchFrom t r n (Suc i))"

definition runeVals :: "string \<Rightarrow> nat list" where
  "runeVals s = map runeVal (runesOf s)"

definition search :: "re \<Rightarrow> string \<Rightarrow> (nat \<times> nat) option" where
  "search r s = (let t = runeVals s in searchFrom t r (Suc (length t)) 0)"

definition MatchString :: "re \<Rightarrow> string \<Rightarrow> bool" where
  "MatchString r s \<longleftrightarrow> search r s \<noteq> None"

text \<open>\<open>FindString\<close> and the text of a match.\<close>

definition FindString :: "re \<Rightarrow> string \<Rightarrow> string" where
  "FindString r s =
     (case search r s of None \<Rightarrow> [] | Some (i, j) \<Rightarrow> concat (take (j - i) (drop i (runesOf s))))"

text \<open>
  \<open>ReplaceAllStringFunc\<close> for a pattern that never matches the empty text, as all of the program's are: runes outside a match
  are copied, the text of a match is given to \<open>f\<close>.
\<close>

function replaceFrom :: "string list \<Rightarrow> nat list \<Rightarrow> re \<Rightarrow> (string \<Rightarrow> string) \<Rightarrow> nat \<Rightarrow> string" where
  "replaceFrom rs t r f i =
     (if i \<ge> length rs then []
      else case ends t r i of
             [] \<Rightarrow> rs ! i @ replaceFrom rs t r f (Suc i)
           | j # _ \<Rightarrow>
               if j \<le> i then rs ! i @ replaceFrom rs t r f (Suc i)
               else f (concat (take (j - i) (drop i rs))) @ replaceFrom rs t r f j)"
  by pat_completeness auto
termination by (relation "measure (\<lambda>(rs, _, _, _, i). length rs - i)") auto

declare replaceFrom.simps [simp del]

definition ReplaceAllStringFunc :: "re \<Rightarrow> (string \<Rightarrow> string) \<Rightarrow> string \<Rightarrow> string" where
  "ReplaceAllStringFunc r f s = replaceFrom (runesOf s) (runeVals s) r f 0"

definition ReplaceAllString :: "re \<Rightarrow> string \<Rightarrow> string \<Rightarrow> string" where
  "ReplaceAllString r repl s = ReplaceAllStringFunc r (\<lambda>_. repl) s"

text \<open>Replacing single runes of a class.\<close>

lemma replaceFrom_class:
  assumes "t = map runeVal rs"
  shows "replaceFrom rs t (Cls cls) f i = concat (map (\<lambda>r. if inRanges cls (runeVal r) then f r else r) (drop i rs))"
  using assms
proof (induction rs t "Cls cls" f i rule: replaceFrom.induct)
  case (1 rs t f i)
  show ?case
  proof (cases "i < length rs")
    case True
    then have d: "drop i rs = rs ! i # drop (Suc i) rs" by (simp add: Cons_nth_drop_Suc)
    show ?thesis
      using 1 True by (subst replaceFrom.simps) (auto simp: d take_Suc_conv_app_nth)
  qed (subst replaceFrom.simps, simp)
qed

lemma ReplaceAllString_class:
  "ReplaceAllString (Cls cls) repl s = concat (map (\<lambda>r. if inRanges cls (runeVal r) then repl else r) (runesOf s))"
  by (simp add: ReplaceAllString_def ReplaceAllStringFunc_def runeVals_def replaceFrom_class)

text \<open>Removing a class of ASCII characters is a filter.\<close>

lemma inRanges_low: "list_all (\<lambda>(a, b). b < 128) cls \<Longrightarrow> inRanges cls n \<Longrightarrow> n < 128"
  by (auto simp: inRanges_def list_all_iff list_ex_iff)
end
