(* ===== verification/Sanitize.thy ===== *)
theory Sanitize
  imports Regexp "HOL-Library.AList"
begin

text \<open>
  What the orchestrator does to the text that goes into and comes out of a container (\<open>bot/orchestrator/sanitize.go\<close>), how it
  recognises that the agent has asked a question (\<open>question.go\<close>), and its buffers, timer and registry (\<open>timer.go\<close>, \<open>registry.go\<close>, \<open>outputBuffer\<close> in \<open>orchestrator.go\<close>).
\<close>

section \<open>Patterns\<close>

definition keyAssign :: "string \<Rightarrow> re" where
  "keyAssign name = Cat (lit (name @ ''='')) (plus1 (NotCls spaceClass))"

definition dashWord :: "(nat \<times> nat) list" where
  "dashWord = (45, 45) # wordClass"

definition sensitivePattern :: re where
  "sensitivePattern = alternatives
     [Cat (lit ''sk-'') (atLeast 20 (Cls alnumClass)),
      Cat (lit ''sk-ant-'') (atLeast 20 (Cls ((45, 45) # alnumClass))),
      Cat (lit ''ghp_'') (reTimes 36 (Cls alnumClass)),
      Cat (lit ''ghu_'') (reTimes 36 (Cls alnumClass)),
      Cat (lit ''xoxb-'') (plus1 (Cls ((45, 45) # alnumClass))),
      Cat (lit ''AKIA'') (reTimes 16 (Cls [(48, 57), (65, 90)])),
      Cat (lit ''npm_'') (reTimes 36 (Cls alnumClass)),
      Cat (lit ''-----BEGIN'') (Cat (Star True anyRune) (lit ''PRIVATE KEY-----'')),
      Cat (lit ''ya29.'') (plus1 (Cls dashWord)),
      Cat (lit ''AIza'') (reTimes 35 (Cls dashWord)),
      Cat (lit ''sk_'') (reTimes 40 (Cls alnumClass)),
      Cat (Cls (oneOf ''MN'')) (Cat (atLeast 23 (Cls alnumClass)) (Cat (lit ''.'') (Cat (reTimes 6 (Cls dashWord)) (Cat (lit ''.'') (reTimes 27 (Cls dashWord)))))),
      Cat (plus1 (Cls digitClass)) (Cat (lit ''-'') (Cat (plus1 (Cls [(48, 57), (97, 122)])) (lit ''.apps.googleusercontent.com''))),
      Cat (lit ''eyJ'') (Cat (atLeast 10 (Cls dashWord)) (Cat (lit ''.'') (Cat (atLeast 10 (Cls dashWord)) (Cat (lit ''.'') (atLeast 10 (Cls dashWord)))))),
      keyAssign ''ANTHROPIC_API_KEY'', keyAssign ''OPENAI_API_KEY'', keyAssign ''GEMINI_API_KEY'', keyAssign ''GITHUB_TOKEN'',
      keyAssign ''RELAY_SECRET'', keyAssign ''DEEPGRAM_API_KEY'', keyAssign ''ELEVENLABS_API_KEY'', keyAssign ''ENCRYPTION_KEY'',
      keyAssign ''GROQ_API_KEY'', keyAssign ''TOGETHER_API_KEY'', keyAssign ''FIREWORKS_API_KEY'', keyAssign ''DISCORD_TOKEN'', keyAssign ''NEXTAUTH_SECRET'',
      Cat (lit ''x-access-token:'') (Cat (plus1 (NotCls (oneOf ''@''))) (lit ''@'')),
      Cat (lit ''postgresql://'') (Cat (plus1 (NotCls (oneOf '':''))) (Cat (lit '':'') (Cat (plus1 (NotCls (oneOf ''@''))) (lit ''@'')))),
      Cat (atLeast 3 (Cls [(65, 90), (95, 95)]))
        (Cat (alternatives [lit ''KEY'', lit ''SECRET'', lit ''TOKEN'', lit ''PASSWORD'']) (Cat (lit ''='') (atLeast 8 (NotCls spaceClass))))]"

definition esc :: re where
  "esc = Cls [(0x1B, 0x1B)]"

definition csiTail :: re where
  "csiTail = Cat (Star True (Cls [(0x30, 0x3F)])) (Cat (Star True (Cls [(0x20, 0x2F)])) (Cls [(0x40, 0x7E)]))"

definition ansiPattern :: re where
  "ansiPattern = alternatives
     [Cat esc (Cat (lit ''['') csiTail),
      Cat esc (Cat (lit '']'') (Cat (Star False anyRune) (Or (Cls [(7, 7)]) (Cat esc (Cls [(0x5C, 0x5C)]))))),
      Cat esc (Cat (Cls (oneOf ''()#'')) (Cls alnumClass)),
      Cat esc (Cat (Cls [(0x20, 0x2F)]) (Cls [(0x30, 0x7E)])),
      Cat esc (Cls (oneOf ''=>NOMDEHFGJKSTclmnopq78'')),
      Cat (Cls [(0x9B, 0x9B)]) csiTail]"

definition controlClass :: "(nat \<times> nat) list" where
  "controlClass = [(0, 8), (0xB, 0xB), (0xC, 0xC), (0xE, 0x1F), (0x7F, 0x7F)]"

definition controlPattern :: re where
  "controlPattern = Cls controlClass"

section \<open>Sanitising\<close>

definition SanitizeOutput :: "string \<Rightarrow> string" where
  "SanitizeOutput text =
     ReplaceAllString controlPattern '''' (ReplaceAllString ansiPattern '''' (ReplaceAllString sensitivePattern ''[REDACTED]'' text))"

definition taskRune :: "nat \<Rightarrow> bool" where
  "taskRune r \<longleftrightarrow> 97 \<le> r \<and> r \<le> 122 \<or> 65 \<le> r \<and> r \<le> 90 \<or> 48 \<le> r \<and> r \<le> 57
     \<or> r = of_char (CHR '' '') \<or> r = of_char (CHR '','') \<or> r = of_char (CHR ''.'') \<or> r = of_char (CHR ''!'') \<or> r = of_char (CHR ''?'') \<or> r = of_char (CHR ''-'')"

definition SanitizeTask :: "string \<Rightarrow> string" where
  "SanitizeTask task = concat (filter (\<lambda>r. taskRune (runeVal r)) (runesOf task))"

definition StripANSI :: "string \<Rightarrow> string" where
  "StripANSI text = ReplaceAllString ansiPattern '''' text"

section \<open>Questions\<close>

definition questionKeywords :: re where
  "questionKeywords = Cat WordB (Cat (alternatives [lit ''which'', lit ''should i'', lit ''do you want'', lit ''could you'', lit ''please clarify'',
     lit ''choose'', lit ''select'', lit ''prefer'', lit ''would you like'']) WordB)"

definition codeLinePattern :: re where
  "codeLinePattern =
     Or (Cat Bol (Cat (Star True (Cls spaceClass)) (Cls (oneOf ''{(;}])#/*''))))
        (Cat Bol (Cat (Star True (Cls spaceClass)) (Cat (alternatives [lit ''import'', lit ''export'', lit ''const'', lit ''let'', lit ''var'', lit ''function'',
           lit ''class'', lit ''if'', lit ''else'', lit ''for'', lit ''while'', lit ''return'', lit ''switch'', lit ''case'']) WordB)))"

definition listItemPattern :: re where
  "listItemPattern = Cat Bol (Cat (Star True (Cls spaceClass))
     (Or (Cat (plus1 (Cls digitClass)) (Cat (Cls (oneOf ''.)'')) (Cls spaceClass))) (Cat (Cls (oneOf ''-*'')) (Cls spaceClass))))"

definition boundaryPattern :: re where
  "boundaryPattern = Cat Bol (Cat (alternatives [lit [CHR 0x60, CHR 0x60, CHR 0x60], lit ''---'', atLeast 3 (lit ''*''), atLeast 3 (lit ''='')]) Eol)"

definition nonEmptyLines :: "string list \<Rightarrow> string list" where
  "nonEmptyLines lines = filter (\<lambda>line. TrimSpace line \<noteq> []) lines"

text \<open>\<open>lower\<close> is the lower case of texts outside ASCII.\<close>

definition LooksLikeQuestion :: "(string \<Rightarrow> string) \<Rightarrow> string list \<Rightarrow> bool" where
  "LooksLikeQuestion lower lines =
     (let nonEmpty = nonEmptyLines lines in
      if nonEmpty = [] then False
      else let lastLine = TrimSpace (last nonEmpty) in
        if MatchString codeLinePattern lastLine then False
        else let hasQuestionMark = HasSuffix lastLine ''?'';
                 hasKeyword = MatchString questionKeywords (ToLower lower lastLine);
                 startsWithUppercase = (case lastLine of [] \<Rightarrow> False | c # _ \<Rightarrow> inRange 65 90 c)
             in if hasQuestionMark \<and> (hasKeyword \<or> startsWithUppercase) then True
                else if hasQuestionMark \<and> length lastLine > 10 then True
                else hasKeyword \<and> startsWithUppercase)"

text \<open>The loop of \<open>ExtractQuestion\<close>, from the last line upwards: \<open>n\<close> lines are left, \<open>lineCount\<close> is the number of lines.\<close>

fun collectQuestion :: "nat \<Rightarrow> string list \<Rightarrow> string list \<Rightarrow> nat \<Rightarrow> string list" where
  "collectQuestion lineCount nonEmpty collected 0 = collected"
| "collectQuestion lineCount nonEmpty collected (Suc i) =
     (if length collected \<ge> 15 then collected
      else let trimmed = TrimSpace (nonEmpty ! i) in
        if MatchString boundaryPattern trimmed then collected
        else if MatchString codeLinePattern trimmed \<and> \<not> MatchString listItemPattern trimmed then collected
        else let collected' = trimmed # collected in
          if \<not> MatchString listItemPattern trimmed \<and> length collected' \<ge> 3 \<and> int i < int lineCount - 3 then collected'
          else collectQuestion lineCount nonEmpty collected' i)"

definition ExtractQuestion :: "string list \<Rightarrow> string" where
  "ExtractQuestion lines =
     (let nonEmpty = nonEmptyLines lines in
      if nonEmpty = [] then '''' else Join (collectQuestion (length nonEmpty) nonEmpty [] (length nonEmpty)) [CHR 0x0A])"

section \<open>The rolling buffer and the output buffer\<close>

record RollingBuffer =
  rb_buffer :: "string list"
  rb_head :: nat
  rb_count :: nat
  rb_size :: nat

definition NewRollingBuffer :: "nat \<Rightarrow> RollingBuffer" where
  "NewRollingBuffer n = \<lparr>rb_buffer = replicate n '''', rb_head = 0, rb_count = 0, rb_size = n\<rparr>"

definition PushLine :: "string \<Rightarrow> RollingBuffer \<Rightarrow> RollingBuffer" where
  "PushLine item rb =
     rb\<lparr>rb_buffer := (rb_buffer rb)[rb_head rb := item], rb_head := (rb_head rb + 1) mod rb_size rb,
        rb_count := (if rb_count rb < rb_size rb then rb_count rb + 1 else rb_count rb)\<rparr>"

definition ToArray :: "RollingBuffer \<Rightarrow> string list" where
  "ToArray rb =
     (if rb_count rb < rb_size rb then take (rb_count rb) (rb_buffer rb)
      else drop (rb_head rb) (rb_buffer rb) @ take (rb_head rb) (rb_buffer rb))"

definition ClearLines :: "RollingBuffer \<Rightarrow> RollingBuffer" where
  "ClearLines rb = rb\<lparr>rb_head := 0, rb_count := 0\<rparr>"

record outputBuffer =
  ob_data :: string
  ob_max :: nat

definition newOutputBuffer :: "nat \<Rightarrow> outputBuffer" where
  "newOutputBuffer mx = \<lparr>ob_data = '''', ob_max = mx\<rparr>"

definition Write_Output :: "string \<Rightarrow> outputBuffer \<Rightarrow> outputBuffer" where
  "Write_Output p b =
     (let data = ob_data b @ p in
      b\<lparr>ob_data := (if length data > ob_max b * 2 then drop (length data - ob_max b) data else data)\<rparr>)"

definition String_Output :: "outputBuffer \<Rightarrow> string" where
  "String_Output b =
     (if length (ob_data b) > ob_max b then drop (length (ob_data b) - ob_max b) (ob_data b) else ob_data b)"

section \<open>The container timer\<close>

text \<open>
  \<open>ct_timer\<close> says whether the field holds a timer, \<open>ct_deadline\<close> when the pending one fires, and
  \<open>ct_callbacks\<close> how many timers have fired whose functions still wait for the mutex. \<open>ct_ran\<close> is not part of the code: the
  time spent unpaused before the current start.
\<close>

record ContainerTimer =
  ct_timer :: bool
  ct_deadline :: "nat option"
  ct_callbacks :: nat
  ct_remainingMs :: nat
  ct_startedAt :: nat
  ct_done :: bool
  ct_cancelled :: bool
  ct_ran :: nat

definition timerStart :: "nat \<Rightarrow> ContainerTimer \<Rightarrow> ContainerTimer" where
  "timerStart now ct = ct\<lparr>ct_startedAt := now, ct_timer := True, ct_deadline := Some (now + ct_remainingMs ct)\<rparr>"

definition NewContainerTimer :: "nat \<Rightarrow> nat \<Rightarrow> ContainerTimer" where
  "NewContainerTimer now totalMs =
     timerStart now \<lparr>ct_timer = False, ct_deadline = None, ct_callbacks = 0, ct_remainingMs = totalMs, ct_startedAt = 0,
                     ct_done = False, ct_cancelled = False, ct_ran = 0\<rparr>"

text \<open>The runtime starts the function of a timer whose time has come.\<close>

definition timerExpire :: "nat \<Rightarrow> ContainerTimer \<Rightarrow> ContainerTimer" where
  "timerExpire now ct =
     (case ct_deadline ct of
        Some t \<Rightarrow> if t \<le> now then ct\<lparr>ct_deadline := None, ct_callbacks := ct_callbacks ct + 1\<rparr> else ct
      | None \<Rightarrow> ct)"

text \<open>The function of the timer; closing a closed channel panics.\<close>

definition timerCallback :: "ContainerTimer \<Rightarrow> ContainerTimer go" where
  "timerCallback ct =
     (if ct_callbacks ct = 0 then Ret ct
      else let ct1 = ct\<lparr>ct_callbacks := ct_callbacks ct - 1\<rparr> in
        if \<not> ct_cancelled ct1 then (if ct_done ct1 then Panic else Ret (ct1\<lparr>ct_done := True\<rparr>)) else Ret ct1)"

definition timerPause :: "nat \<Rightarrow> ContainerTimer \<Rightarrow> ContainerTimer" where
  "timerPause now ct =
     (if ct_cancelled ct \<or> \<not> ct_timer ct then ct
      else ct\<lparr>ct_remainingMs := ct_remainingMs ct - (now - ct_startedAt ct), ct_ran := ct_ran ct + (now - ct_startedAt ct),
              ct_timer := False, ct_deadline := None\<rparr>)"

definition timerResume :: "nat \<Rightarrow> ContainerTimer \<Rightarrow> ContainerTimer" where
  "timerResume now ct = (if ct_cancelled ct \<or> ct_timer ct then ct else timerStart now ct)"

definition timerCancel :: "ContainerTimer \<Rightarrow> ContainerTimer" where
  "timerCancel ct = ct\<lparr>ct_cancelled := True, ct_timer := False, ct_deadline := (if ct_timer ct then None else ct_deadline ct)\<rparr>"

section \<open>The registry\<close>

type_synonym SessionRegistry = "(string \<times> string) list"

definition NewSessionRegistry :: SessionRegistry where
  "NewSessionRegistry = []"

definition Register :: "string \<Rightarrow> string \<Rightarrow> SessionRegistry \<Rightarrow> SessionRegistry" where
  "Register sessionID containerID sr = AList.update sessionID containerID sr"

definition Deregister :: "string \<Rightarrow> SessionRegistry \<Rightarrow> SessionRegistry" where
  "Deregister sessionID sr = AList.delete sessionID sr"

definition registryGet :: "string \<Rightarrow> SessionRegistry \<Rightarrow> string option" where
  "registryGet sessionID sr = map_of sr sessionID"

definition ActiveSessionIDs :: "SessionRegistry \<Rightarrow> string list" where
  "ActiveSessionIDs sr = map fst sr"

section \<open>What comes out is clean\<close>

lemma removed_class:
  assumes "list_all (\<lambda>(a, b). b < 128) cls" "c \<in> set (ReplaceAllString (Cls cls) '''' s)"
  shows "\<not> inRanges cls (of_char c)"
proof -
  from assms(2) obtain r where r: "r \<in> set (runesOf s)" "\<not> inRanges cls (runeVal r)" "c \<in> set r"
    by (auto simp: ReplaceAllString_class split: if_splits)
  from runesOf_high [OF r(1)] show ?thesis
  proof
    assume "\<exists>c. r = [c] \<and> (of_char c :: nat) < 128"
    then show ?thesis using r(2,3) by auto
  next
    assume "\<forall>b \<in> set r. 128 \<le> (of_char b :: nat)"
    then show ?thesis using r(3) inRanges_low [OF assms(1)] by (meson not_le)
  qed
qed

text \<open>No control character but tab, line feed and carriage return leaves a container.\<close>

lemma sanitized_output_has_no_controls: "c \<in> set (SanitizeOutput text) \<Longrightarrow> \<not> inRanges controlClass (of_char c)"
  unfolding SanitizeOutput_def controlPattern_def
  by (rule removed_class) (simp add: controlClass_def)

text \<open>
  Secrets are redacted before the escape sequences are removed, so a secret with a colour change inside is put
  together again by the second step and leaves in the clear.
\<close>

lemma coloured_secret_is_not_redacted:
  "SanitizeOutput (''sk-abcdefghij'' @ [CHR 0x1B] @ ''[0mklmnopqrst'') = ''sk-abcdefghijklmnopqrst''"
  "SanitizeOutput ''sk-abcdefghijklmnopqrst'' = ''[REDACTED]''"
  by code_simp+

lemma runeSize_take: "runeSize (take (runeSize s) s) = runeSize s"
proof (cases s)
  case (Cons c cs)
  show ?thesis
    unfolding Cons by (auto simp: runeSize_def Let_def numeral_eq_Suc split: list.splits if_splits)
qed (simp add: runeSize_def)

lemma runesOf_shape: "r \<in> set (runesOf s) \<Longrightarrow> \<exists>c cs. r = take (max 1 (runeSize (c # cs))) (c # cs)"
proof (induction s rule: runesOf.induct)
  case (1 s)
  then obtain c cs where s: "s = c # cs" by (cases s) auto
  have "runesOf s = take (max 1 (runeSize s)) s # runesOf (drop (max 1 (runeSize s)) s)"
    by (subst runesOf.simps) (simp add: s Let_def)
  then consider "r = take (max 1 (runeSize s)) s" | "r \<in> set (runesOf (drop (max 1 (runeSize s)) s))" using 1(2) by auto
  then show ?case using 1(1) s by cases auto
qed

lemma runeSize_shape:
  assumes "128 \<le> (of_char c :: nat)" "runeSize (c # cs) \<noteq> 0"
  shows "(\<exists>b rest. cs = b # rest \<and> runeSize (c # cs) = 2 \<and> 0xC2 \<le> (of_char c :: nat) \<and> (of_char c :: nat) \<le> 0xDF)
    \<or> (\<exists>b e rest. cs = b # e # rest \<and> runeSize (c # cs) = 3 \<and> 0xE0 \<le> (of_char c :: nat) \<and> (of_char c :: nat) \<le> 0xEF \<and> firstContOk (of_char c) b)
    \<or> (\<exists>b e g rest. cs = b # e # g # rest \<and> runeSize (c # cs) = 4 \<and> 0xF0 \<le> (of_char c :: nat) \<and> (of_char c :: nat) \<le> 0xF4 \<and> firstContOk (of_char c) b)"
  using assms by (auto simp: runeSize_def Let_def split: list.splits if_splits)

lemma cont_mod: "128 \<le> b \<Longrightarrow> b < 192 \<Longrightarrow> (b :: nat) mod 64 = b - 128"
  by (simp add: le_mod_geq)

lemma runeVal_high:
  assumes "r \<in> set (runesOf s)" "\<forall>b \<in> set r. 128 \<le> (of_char b :: nat)"
  shows "128 \<le> runeVal r"
proof -
  obtain c cs where r: "r = take (max 1 (runeSize (c # cs))) (c # cs)" using runesOf_shape [OF assms(1)] by blast
  then have "c \<in> set r" by (cases "runeSize (c # cs)") auto
  with assms(2) have c: "128 \<le> (of_char c :: nat)" by blast
  show ?thesis
  proof (cases "runeSize (c # cs) = 0")
    case True
    then have "r = [c]" using r by simp
    moreover have "runeSize [c] = 0" using c by (simp add: runeSize_def Let_def)
    ultimately show ?thesis by (simp add: runeVal_def)
  next
    case False
    then have same: "runeSize r = runeSize (c # cs)" and "r = take (runeSize (c # cs)) (c # cs)"
      using r runeSize_take [of "c # cs"] by (simp_all add: max_def)
    from runeSize_shape [OF c False] show ?thesis
    proof (elim disjE exE conjE)
      fix b rest assume h: "cs = b # rest" "runeSize (c # cs) = 2" "0xC2 \<le> (of_char c :: nat)" "(of_char c :: nat) \<le> 0xDF"
      then have "r = [c, b]" using \<open>r = take (runeSize (c # cs)) (c # cs)\<close> by (simp add: numeral_eq_Suc)
      then have "runeVal r = (of_char c mod 32) * 64 + of_char b mod 64" using same h(2) by (simp add: runeVal_def)
      moreover have "2 \<le> (of_char c :: nat) mod 32" using h(3,4) by presburger
      ultimately show ?thesis by simp
    next
      fix b e rest assume h: "cs = b # e # rest" "runeSize (c # cs) = 3" "0xE0 \<le> (of_char c :: nat)" "(of_char c :: nat) \<le> 0xEF" "firstContOk (of_char c) b"
      then have "r = [c, b, e]" using \<open>r = take (runeSize (c # cs)) (c # cs)\<close> by (simp add: numeral_eq_Suc)
      then have v: "runeVal r = (of_char c mod 16) * 4096 + (of_char b mod 64) * 64 + of_char e mod 64" using same h(2) by (simp add: runeVal_def)
      show ?thesis
      proof (cases "(of_char c :: nat) = 0xE0")
        case True
        then have "0xA0 \<le> (of_char b :: nat)" "(of_char b :: nat) \<le> 0xBF" using h(5) by (simp_all add: firstContOk_def inRange_def)
        then have "2 \<le> (of_char b :: nat) mod 64" by (simp add: cont_mod)
        then show ?thesis using v by simp
      next
        case False
        then have "1 \<le> (of_char c :: nat) mod 16" using h(3,4) by presburger
        then show ?thesis using v by simp
      qed
    next
      fix b e g rest assume h: "cs = b # e # g # rest" "runeSize (c # cs) = 4" "0xF0 \<le> (of_char c :: nat)" "(of_char c :: nat) \<le> 0xF4" "firstContOk (of_char c) b"
      then have "r = [c, b, e, g]" using \<open>r = take (runeSize (c # cs)) (c # cs)\<close> by (simp add: numeral_eq_Suc)
      then have v: "runeVal r = (of_char c mod 8) * 262144 + (of_char b mod 64) * 4096 + (of_char e mod 64) * 64 + of_char g mod 64"
        using same h(2) by (simp add: runeVal_def)
      show ?thesis
      proof (cases "(of_char c :: nat) = 0xF0")
        case True
        then have "0x90 \<le> (of_char b :: nat)" "(of_char b :: nat) \<le> 0xBF" using h(5) by (simp_all add: firstContOk_def inRange_def)
        then have "1 \<le> (of_char b :: nat) mod 64" by (simp add: cont_mod)
        then have "4096 \<le> ((of_char b :: nat) mod 64) * 4096" by simp
        then show ?thesis unfolding v by (simp add: trans_le_add1 trans_le_add2)
      next
        case False
        then have "1 \<le> (of_char c :: nat) mod 8" using h(3,4) by presburger
        then show ?thesis using v by simp
      qed
    qed
  qed
qed

lemma taskRune_low: "taskRune n \<Longrightarrow> n < 128"
  by (auto simp: taskRune_def)

lemma SanitizeTask_filter: "SanitizeTask s = filter (\<lambda>c. taskRune (of_char c)) s"
proof -
  have "(if taskRune (runeVal r) then r else []) = filter (\<lambda>c. taskRune (of_char c)) r" if "r \<in> set (runesOf s)" for r
    using runesOf_high [OF that]
  proof
    assume "\<forall>b \<in> set r. 128 \<le> (of_char b :: nat)"
    moreover from runeVal_high [OF that this] have "\<not> taskRune (runeVal r)" using taskRune_low by fastforce
    moreover have "filter (\<lambda>c. taskRune (of_char c)) r = []"
      using \<open>\<forall>b \<in> set r. 128 \<le> (of_char b :: nat)\<close> taskRune_low by (auto simp: filter_empty_conv) (metis not_less)
    ultimately show ?thesis by simp
  qed auto
  then have "concat (map (\<lambda>r. if taskRune (runeVal r) then r else []) (runesOf s)) = concat (map (filter (\<lambda>c. taskRune (of_char c))) (runesOf s))"
    by (intro arg_cong [of _ _ concat] map_cong) auto
  moreover have "concat (filter P xs) = concat (map (\<lambda>r. if P r then r else []) xs)" for P and xs :: "string list"
    by (induction xs) auto
  ultimately show ?thesis by (simp add: SanitizeTask_def filter_concat [symmetric])
qed

lemma SanitizeTask_id: "SanitizeTask s = s \<longleftrightarrow> (\<forall>c \<in> set s. taskRune (of_char c))"
  by (simp add: SanitizeTask_filter filter_id_conv)

lemma SanitizeTask_idem [simp]: "SanitizeTask (SanitizeTask s) = SanitizeTask s"
  by (simp add: SanitizeTask_filter)

section \<open>Buffers keep the newest\<close>

definition rollingOk :: "nat \<Rightarrow> string list \<Rightarrow> RollingBuffer \<Rightarrow> bool" where
  "rollingOk n xs rb \<longleftrightarrow>
     length (rb_buffer rb) = n \<and> rb_size rb = n \<and> rb_head rb = length xs mod n \<and> rb_count rb = min (length xs) n
     \<and> (\<forall>i < length xs. length xs \<le> i + n \<longrightarrow> rb_buffer rb ! (i mod n) = xs ! i)"

lemma rollingOk_new: "rollingOk n [] (NewRollingBuffer n)"
  by (simp add: rollingOk_def NewRollingBuffer_def)

lemma rollingOk_clear: "rollingOk n xs rb \<Longrightarrow> rollingOk n [] (ClearLines rb)"
  by (simp add: rollingOk_def ClearLines_def)

lemma rollingOk_push:
  assumes "rollingOk n xs rb" "0 < n"
  shows "rollingOk n (xs @ [x]) (PushLine x rb)"
proof -
  have "(rb_buffer rb)[length xs mod n := x] ! (i mod n) = (xs @ [x]) ! i"
    if "i < Suc (length xs)" "Suc (length xs) \<le> i + n" for i
  proof (cases "i = length xs")
    case True
    then show ?thesis using assms by (simp add: rollingOk_def)
  next
    case False
    with that have i: "i < length xs" "length xs - i < n" by auto
    have "i mod n \<noteq> length xs mod n"
    proof
      assume "i mod n = length xs mod n"
      then have "n dvd length xs - i" using i(1) by (metis mod_eq_dvd_iff_nat less_imp_le)
      with i show False by (auto dest: dvd_imp_le)
    qed
    then show ?thesis using assms i by (auto simp: rollingOk_def nth_append)
  qed
  then show ?thesis using assms by (auto simp: rollingOk_def PushLine_def mod_Suc_eq)
qed

lemma ToArray_newest:
  assumes "rollingOk n xs rb" "0 < n"
  shows "ToArray rb = drop (length xs - n) xs"
proof (cases "length xs < n")
  case True
  then have "take (length xs) (rb_buffer rb) = xs"
    using assms by (intro nth_equalityI) (auto simp: rollingOk_def)
  then show ?thesis using assms True by (simp add: ToArray_def rollingOk_def)
next
  case False
  let ?h = "length xs mod n" and ?b = "rb_buffer rb"
  have l: "length ?b = n" "?h < n" using assms by (auto simp: rollingOk_def)
  have "(drop ?h ?b @ take ?h ?b) ! j = xs ! (length xs - n + j)" if "j < n" for j
  proof -
    have "(length xs - n + j) mod n = (?h + j) mod n"
      using False by (metis le_add_diff_inverse2 mod_add_left_eq mod_add_self2 not_less add.commute add.assoc)
    moreover have "?b ! ((length xs - n + j) mod n) = xs ! (length xs - n + j)"
      using assms(1) that False by (auto simp: rollingOk_def)
    moreover have "(drop ?h ?b @ take ?h ?b) ! j = ?b ! ((?h + j) mod n)"
    proof (cases "?h + j < n")
      case True
      then have "j < n - ?h" by simp
      then show ?thesis using l True by (simp add: nth_append)
    next
      case False
      have "?h + j - n < n" using l(2) that by linarith
      with False have "(?h + j) mod n = ?h + j - n" using le_mod_geq [of n "?h + j"] mod_less [of "?h + j - n" n] by linarith
      moreover have ge: "\<not> j < n - ?h" "j - (n - ?h) = ?h + j - n" "j - (n - ?h) < ?h" using False l(2) that by linarith+
      moreover have "(drop ?h ?b @ take ?h ?b) ! j = take ?h ?b ! (j - (n - ?h))" using l(1) ge(1) by (simp add: nth_append)
      ultimately show ?thesis by simp
    qed
    ultimately show ?thesis by simp
  qed
  then have "drop ?h ?b @ take ?h ?b = drop (length xs - n) xs"
    using l False by (intro nth_equalityI) auto
  then show ?thesis using assms False by (auto simp: ToArray_def rollingOk_def)
qed

definition outputOk :: "nat \<Rightarrow> string \<Rightarrow> outputBuffer \<Rightarrow> bool" where
  "outputOk mx all b \<longleftrightarrow> ob_max b = mx \<and> (\<exists>old. all = old @ ob_data b \<and> (old = [] \<or> mx \<le> length (ob_data b)))"

lemma outputOk_write:
  assumes "outputOk mx all b"
  shows "outputOk mx (all @ p) (Write_Output p b)"
proof -
  obtain old where o: "ob_max b = mx" "all = old @ ob_data b" "old = [] \<or> mx \<le> length (ob_data b)"
    using assms by (auto simp: outputOk_def)
  show ?thesis
  proof (cases "length (ob_data b @ p) > mx * 2")
    case True
    let ?n = "length (ob_data b @ p) - mx"
    have "all @ p = (old @ take ?n (ob_data b @ p)) @ drop ?n (ob_data b @ p)" using o by (simp only: append_assoc append_take_drop_id)
    moreover have "mx \<le> length (drop ?n (ob_data b @ p))" using True by simp
    moreover have "ob_data (Write_Output p b) = drop ?n (ob_data b @ p)" "ob_max (Write_Output p b) = mx"
      using True o(1) by (simp_all add: Write_Output_def)
    ultimately show ?thesis unfolding outputOk_def by metis
  next
    case False
    then have "ob_data (Write_Output p b) = ob_data b @ p" "ob_max (Write_Output p b) = mx"
      using o(1) by (simp_all add: Write_Output_def)
    then show ?thesis using o(2,3) unfolding outputOk_def by (intro conjI exI [of _ old]) auto
  qed
qed

lemma String_Output_newest:
  assumes "outputOk mx all b"
  shows "String_Output b = drop (length all - mx) all"
  using assms by (auto simp: outputOk_def String_Output_def)

text \<open>
  The buffers refine "the newest part of everything". After any number of writes the output buffer yields exactly the last \<open>max\<close> bytes of all that was written,
  and after any number of lines since it was cleared the rolling buffer yields exactly the last \<open>n\<close> lines, in order.
\<close>

theorem buffers_keep_the_newest:
  "String_Output (fold Write_Output chunks (newOutputBuffer mx)) = drop (length (concat chunks) - mx) (concat chunks)
   \<and> (0 < n \<longrightarrow> ToArray (fold PushLine lines (ClearLines (fold PushLine before (NewRollingBuffer n)))) = drop (length lines - n) lines)"
proof -
  have "outputOk mx (all @ concat chunks) (fold Write_Output chunks b)" if "outputOk mx all b" for all b
    using that
  proof (induction chunks arbitrary: all b)
    case (Cons p ps)
    from Cons.IH [OF outputOk_write [OF Cons.prems, of p]] show ?case by simp
  qed simp
  from this [of "[]" "newOutputBuffer mx"] have "outputOk mx (concat chunks) (fold Write_Output chunks (newOutputBuffer mx))"
    by (simp add: outputOk_def newOutputBuffer_def)
  moreover have push: "rollingOk n (xs @ ls) (fold PushLine ls rb)" if "rollingOk n xs rb" "0 < n" for xs ls rb
    using that(1)
  proof (induction ls arbitrary: xs rb)
    case (Cons l ls)
    from Cons.IH [OF rollingOk_push [OF Cons.prems that(2), of l]] show ?case by simp
  qed simp
  have "rollingOk n lines (fold PushLine lines (ClearLines (fold PushLine before (NewRollingBuffer n))))" if "0 < n"
    using push [OF rollingOk_clear [OF push [OF rollingOk_new that]] that] by simp
  ultimately show ?thesis using String_Output_newest ToArray_newest by blast
qed

theorem buffers_keep_the_newest_witness:
  "String_Output (fold Write_Output [''abcd'', ''efgh'', ''ij''] (newOutputBuffer 4)) = ''ghij''
   \<and> ToArray (fold PushLine [''2'', ''3'', ''4''] (ClearLines (fold PushLine [''1''] (NewRollingBuffer 2)))) = [''3'', ''4'']"
  using buffers_keep_the_newest [of "[''abcd'', ''efgh'', ''ij'']" 4 2 "[''2'', ''3'', ''4'']" "[''1'']"] by simp

section \<open>The timer\<close>

text \<open>The timer together with the time; steps happen at later and later times.\<close>

datatype timerOp = TPause | TResume | TCancel | TExpire | TCallback

definition timerStep :: "ContainerTimer \<times> nat \<Rightarrow> timerOp \<times> nat \<Rightarrow> ContainerTimer \<times> nat \<Rightarrow> bool" where
  "timerStep s l s' =
     (let (ct, t) = s; (opr, now) = l in
      t \<le> now \<and>
      (case opr of
         TPause \<Rightarrow> s' = (timerPause now ct, now)
       | TResume \<Rightarrow> s' = (timerResume now ct, now)
       | TCancel \<Rightarrow> s' = (timerCancel ct, now)
       | TExpire \<Rightarrow> s' = (timerExpire now ct, now)
       | TCallback \<Rightarrow> timerCallback ct = Ret (fst s') \<and> snd s' = now))"

text \<open>How long the container has run unpaused.\<close>

definition unpaused :: "ContainerTimer \<Rightarrow> nat \<Rightarrow> nat" where
  "unpaused ct now = ct_ran ct + (if ct_timer ct then now - ct_startedAt ct else 0)"

definition timerOk :: "nat \<Rightarrow> ContainerTimer \<times> nat \<Rightarrow> bool" where
  "timerOk budget s \<longleftrightarrow>
     (let (ct, now) = s in
      (ct_timer ct \<longrightarrow> ct_startedAt ct \<le> now) \<and> ct_remainingMs ct = budget - ct_ran ct
      \<and> (\<forall>t. ct_deadline ct = Some t \<longrightarrow> ct_timer ct \<and> t = ct_startedAt ct + ct_remainingMs ct)
      \<and> (0 < ct_callbacks ct \<and> \<not> ct_cancelled ct \<longrightarrow> budget \<le> unpaused ct now))"

lemma timerStep_ok:
  assumes "timerOk budget (ct, t)" "timerStep (ct, t) (opr, now) (ct', t')"
  shows "timerOk budget (ct', t')"
proof -
  have le: "t \<le> now" using assms(2) by (simp add: timerStep_def)
  have later: "timerOk budget (ct, now)" using assms(1) le by (auto simp: timerOk_def unpaused_def)
  show ?thesis
  proof (cases opr)
    case TPause
    then show ?thesis using assms(2) later by (auto simp: timerStep_def timerOk_def timerPause_def unpaused_def)
  next
    case TResume
    then show ?thesis using assms(2) later by (auto simp: timerStep_def timerOk_def timerResume_def timerStart_def unpaused_def)
  next
    case TCancel
    then show ?thesis using assms(2) later by (auto simp: timerStep_def timerOk_def timerCancel_def unpaused_def)
  next
    case TExpire
    then show ?thesis using assms(2) later
      by (auto simp: timerStep_def timerOk_def timerExpire_def unpaused_def split: option.splits if_splits)
  next
    case TCallback
    then show ?thesis using assms(2) later
      by (auto simp: timerStep_def timerOk_def timerCallback_def unpaused_def Let_def split: if_splits)
  qed
qed

interpretation timer: invariant_machine "\<lambda>s. \<exists>now. s = (NewContainerTimer now budget, now)" timerStep "timerOk budget" for budget
proof
  fix s assume "\<exists>now. s = (NewContainerTimer now budget, now)"
  then show "timerOk budget s" by (auto simp: timerOk_def NewContainerTimer_def timerStart_def unpaused_def)
next
  fix s l s' assume "timerOk budget s" "timerStep s l s'"
  then show "timerOk budget s'" using timerStep_ok [of budget "fst s" "snd s" "fst l" "snd l" "fst s'" "snd s'"] by simp
qed

text \<open>
  A container gets its time. Whatever pauses, resumptions and late timer functions happen, the timer ends a container only after
  it has run for its whole time budget, not counting the time it spent paused.
\<close>

theorem container_gets_its_time:
  assumes "reach (\<lambda>s. \<exists>now. s = (NewContainerTimer now budget, now)) timerStep (ct, now)"
    and "timerCallback ct = Ret ct'" "\<not> ct_done ct" "ct_done ct'"
  shows "budget \<le> unpaused ct now"
  using timer.inv_reachable [OF assms(1)] assms(2-4)
  by (auto simp: timerOk_def timerCallback_def Let_def split: if_splits)

theorem container_gets_its_time_witness:
  "\<exists>ct. ct = timerExpire 25 (timerResume 15 (timerPause 5 (NewContainerTimer 0 10))) \<and> 10 \<le> unpaused ct 25"
proof -
  let ?start = "\<lambda>s. \<exists>now. s = (NewContainerTimer now 10, now)"
  let ?c0 = "NewContainerTimer 0 10"
  let ?ct = "timerExpire 25 (timerResume 15 (timerPause 5 ?c0))"
  have "reach ?start timerStep (?c0, 0)" by (rule reach_start) blast
  then have "reach ?start timerStep (timerPause 5 ?c0, 5)"
    by (rule reach_step [where l = "(TPause, 5)"]) (simp add: timerStep_def)
  then have "reach ?start timerStep (timerResume 15 (timerPause 5 ?c0), 15)"
    by (rule reach_step [where l = "(TResume, 15)"]) (simp add: timerStep_def)
  then have r: "reach ?start timerStep (?ct, 25)"
    by (rule reach_step [where l = "(TExpire, 25)"]) (simp add: timerStep_def)
  have d: "timerCallback ?ct = Ret (?ct\<lparr>ct_callbacks := 0, ct_done := True\<rparr>)" "\<not> ct_done ?ct" by code_simp+
  have "10 \<le> unpaused ?ct 25" by (rule container_gets_its_time [OF r d]) simp
  then show ?thesis by blast
qed

text \<open>
  A pause that comes after the timer has fired, and a resumption after it, start the timer again with no time left, and its function closes the channel a second
  time: the whole bot panics.
\<close>

lemma resumed_after_expiry_panics:
  "timerCallback (timerExpire 10 NEW) = Ret CLOSED \<Longrightarrow> NEW = NewContainerTimer 0 10 \<Longrightarrow>
   timerCallback (timerExpire 20 (timerResume 20 (timerPause 10 CLOSED))) = Panic"
  by (auto simp: timerCallback_def timerExpire_def timerResume_def timerPause_def NewContainerTimer_def timerStart_def Let_def)

lemma registry_exact:
  "registryGet i (Register j c sr) = (if i = j then Some c else registryGet i sr)"
  "registryGet i (Deregister j sr) = (if i = j then None else registryGet i sr)"
  "i \<in> set (ActiveSessionIDs sr) \<longleftrightarrow> registryGet i sr \<noteq> None"
  by (auto simp: registryGet_def Register_def Deregister_def ActiveSessionIDs_def update_conv delete_conv map_of_eq_None_iff
      dest: weak_map_of_SomeI intro: rev_image_eqI)

end
