(* ===== verification/RelayClient.thy ===== *)
theory RelayClient
  imports Json
begin

text \<open>
  The bot's side of the relay (\<open>bot/orchestrator/relay_client.go\<close>). The two mutexes make a
  critical section one step; \<open>flush\<close> has two of them, and so \<open>flushTake\<close> and \<open>flushWrite\<close> may be separated
  by the steps of other goroutines. The state carries what the outside sees: \<open>rc_wire\<close> are the messages written
  to the socket, \<open>rc_http\<close> the requests sent, and \<open>rc_writes\<close> says which of the next writes fail.
\<close>

section \<open>Model\<close>

record RelayConnection =
  rc_ws :: bool
  rc_chunks :: "string list"
  rc_total :: nat
  rc_flushTimer :: bool
  rc_closed :: bool
  rc_sessionID :: string
  rc_relayURL :: string
  rc_relaySecret :: string
  rc_inflight :: "string list" \<comment> \<open>data a \<open>flush\<close> has taken and not yet written\<close>
  rc_writes :: "bool list"
  rc_wire :: "string list"
  rc_http :: "(string \<times> string) list"

definition maxBufferSize :: nat where
  "maxBufferSize = 5 * 1024 * 1024"

text \<open>\<open>strings.Replace(s, old, new, 1)\<close>.\<close>

definition replaceFirst :: "string \<Rightarrow> string \<Rightarrow> string \<Rightarrow> string" where
  "replaceFirst s old new =
     (case Index s old of None \<Rightarrow> s | Some i \<Rightarrow> take i s @ new @ drop (i + length old) s)"

definition relayDialURL :: "string \<Rightarrow> string \<Rightarrow> string" where
  "relayDialURL sessionID relayURL =
     (let wsURL = replaceFirst relayURL ''http://'' ''ws://'';
          wsURL = replaceFirst wsURL ''https://'' ''wss://''
      in wsURL @ ''/ingest?sessionId='' @ sessionID)"

text \<open>The answer of the dialer is a parameter: whether the socket opens at this address with this secret, and which of its writes fail.\<close>

definition NewRelayConnection :: "(string \<Rightarrow> string \<Rightarrow> bool list option) \<Rightarrow> string \<Rightarrow> string \<Rightarrow> string \<Rightarrow> RelayConnection" where
  "NewRelayConnection dial sessionID relayURL relaySecret =
     (case dial (relayDialURL sessionID relayURL) relaySecret of
        None \<Rightarrow> \<lparr>rc_ws = False, rc_chunks = [], rc_total = 0, rc_flushTimer = False, rc_closed = True, rc_sessionID = sessionID,
                rc_relayURL = relayURL, rc_relaySecret = relaySecret, rc_inflight = [], rc_writes = [], rc_wire = [], rc_http = []\<rparr>
      | Some ws \<Rightarrow> \<lparr>rc_ws = True, rc_chunks = [], rc_total = 0, rc_flushTimer = False, rc_closed = False, rc_sessionID = sessionID,
                rc_relayURL = relayURL, rc_relaySecret = relaySecret, rc_inflight = [], rc_writes = ws, rc_wire = [], rc_http = []\<rparr>)"

text \<open>\<open>ws.WriteMessage\<close>: whether it succeeds, and the message on the wire when it does.\<close>

definition writeMessage :: "string \<Rightarrow> RelayConnection \<Rightarrow> bool \<times> RelayConnection" where
  "writeMessage data rc =
     (case rc_writes rc of
        False # bs \<Rightarrow> (False, rc\<lparr>rc_writes := bs\<rparr>)
      | True # bs \<Rightarrow> (True, rc\<lparr>rc_writes := bs, rc_wire := rc_wire rc @ [data]\<rparr>)
      | [] \<Rightarrow> (True, rc\<lparr>rc_wire := rc_wire rc @ [data]\<rparr>))"

definition Push_Relay :: "string \<Rightarrow> RelayConnection \<Rightarrow> RelayConnection" where
  "Push_Relay content rc =
     (if rc_closed rc then rc
      else
        let chunks = rc_chunks rc @ [content];
            n = rc_total rc + length content;
            rc1 = (if n > maxBufferSize then
                     let joined = concat chunks;
                         joined' = (if length joined > maxBufferSize then drop (length joined - maxBufferSize) joined else joined)
                     in rc\<lparr>rc_chunks := [joined'], rc_total := length joined'\<rparr>
                   else rc\<lparr>rc_chunks := chunks, rc_total := n\<rparr>)
        in if rc_ws rc1 then rc1\<lparr>rc_flushTimer := True\<rparr> else rc1)"

definition flushTake :: "RelayConnection \<Rightarrow> RelayConnection" where
  "flushTake rc =
     (let rc1 = rc\<lparr>rc_flushTimer := False\<rparr> in
      if rc_closed rc1 \<or> rc_chunks rc1 = [] then rc1
      else rc1\<lparr>rc_inflight := rc_inflight rc1 @ [concat (rc_chunks rc1)], rc_chunks := [], rc_total := 0\<rparr>)"

text \<open>The \<open>i\<close>-th of the waiting goroutines gets the write lock.\<close>

definition flushWrite :: "nat \<Rightarrow> RelayConnection \<Rightarrow> RelayConnection" where
  "flushWrite i rc =
     (if i < length (rc_inflight rc) then
        let data = rc_inflight rc ! i;
            rc1 = rc\<lparr>rc_inflight := take i (rc_inflight rc) @ drop (Suc i) (rc_inflight rc)\<rparr>
        in if rc_ws rc1 then snd (writeMessage data rc1) else rc1
      else rc)"

text \<open>The body of \<open>http.NewRequest("POST", url, ...)\<close> and \<open>client.Do\<close>; the outcome of a request is only printed.\<close>

definition pushStatusHTTP :: "string \<Rightarrow> RelayConnection \<Rightarrow> RelayConnection" where
  "pushStatusHTTP status rc =
     rc\<lparr>rc_http := rc_http rc @ [(rc_relayURL rc @ ''/sessions/'' @ rc_sessionID rc @ ''/status'',
                                 ''{'' @ jsonString ''status'' @ '':'' @ jsonString status @ ''}'')]\<rparr>"

definition endSessionHTTP :: "RelayConnection \<Rightarrow> RelayConnection" where
  "endSessionHTTP rc =
     rc\<lparr>rc_http := rc_http rc @ [(rc_relayURL rc @ ''/sessions/'' @ rc_sessionID rc @ ''/end'', '''')]\<rparr>"

definition statusMessage :: "string \<Rightarrow> string" where
  "statusMessage status =
     ''{'' @ jsonString ''content'' @ '':'' @ jsonString status @ '','' @ jsonString ''type'' @ '':'' @ jsonString ''status'' @ ''}''"

definition PushStatus :: "string \<Rightarrow> RelayConnection \<Rightarrow> RelayConnection" where
  "PushStatus status rc =
     (if rc_closed rc then rc
      else if rc_ws rc then
        (case writeMessage (statusMessage status) rc of
           (True, rc1) \<Rightarrow> rc1
         | (False, rc1) \<Rightarrow> pushStatusHTTP status rc1)
      else pushStatusHTTP status rc)"

text \<open>\<open>Close\<close>: its first critical section, and the rest with the data taken there.\<close>

definition closeTake :: "RelayConnection \<Rightarrow> string \<times> RelayConnection" where
  "closeTake rc =
     (concat (rc_chunks rc), rc\<lparr>rc_closed := True, rc_flushTimer := False, rc_chunks := [], rc_total := 0\<rparr>)"

definition closeFinish :: "string \<Rightarrow> RelayConnection \<Rightarrow> RelayConnection" where
  "closeFinish data rc =
     (let rc1 = (if data \<noteq> [] \<and> rc_ws rc then snd (writeMessage data rc) else rc);
          rc2 = endSessionHTTP rc1
      in rc2\<lparr>rc_ws := False\<rparr>)"

definition Close_Relay :: "RelayConnection \<Rightarrow> RelayConnection" where
  "Close_Relay rc = (if rc_closed rc then rc else (let (data, rc1) = closeTake rc in closeFinish data rc1))"

section \<open>Every byte in order\<close>

text \<open>The counter is exact and the buffer bounded.\<close>

definition relayOk :: "RelayConnection \<Rightarrow> bool" where
  "relayOk rc \<longleftrightarrow> rc_total rc = length (concat (rc_chunks rc)) \<and> rc_total rc \<le> maxBufferSize
     \<and> (rc_closed rc \<longrightarrow> rc_chunks rc = [])"

lemma writeMessage_frame [simp]:
  "rc_chunks (snd (writeMessage m rc)) = rc_chunks rc" "rc_total (snd (writeMessage m rc)) = rc_total rc"
  "rc_closed (snd (writeMessage m rc)) = rc_closed rc" "rc_inflight (snd (writeMessage m rc)) = rc_inflight rc"
  "rc_ws (snd (writeMessage m rc)) = rc_ws rc" "rc_sessionID (snd (writeMessage m rc)) = rc_sessionID rc"
  "rc_relayURL (snd (writeMessage m rc)) = rc_relayURL rc" "rc_http (snd (writeMessage m rc)) = rc_http rc"
  by (simp_all add: writeMessage_def split: list.split bool.split)

lemma writeMessage_no_faults [simp]:
  "rc_writes rc = [] \<Longrightarrow> writeMessage m rc = (True, rc\<lparr>rc_wire := rc_wire rc @ [m]\<rparr>)"
  by (simp add: writeMessage_def)

definition newest :: "nat \<Rightarrow> string \<Rightarrow> string" where
  "newest n s = drop (length s - n) s"

lemma newest_short [simp]: "length s \<le> n \<Longrightarrow> newest n s = s"
  by (simp add: newest_def)

lemma newest_append: "newest n (newest n a @ b) = newest n (a @ b)"
proof (cases "length a \<le> n")
  case False
  then have "length a + length b - (length a - n + n) + (length a - n) = length a + length b - n" by linarith
  with False show ?thesis by (simp add: newest_def)
qed simp

lemma Push_Relay_open:
  assumes "relayOk rc" "\<not> rc_closed rc"
  shows "relayOk (Push_Relay c rc)" "concat (rc_chunks (Push_Relay c rc)) = newest maxBufferSize (concat (rc_chunks rc) @ c)"
    and "rc_wire (Push_Relay c rc) = rc_wire rc" "rc_inflight (Push_Relay c rc) = rc_inflight rc"
    and "rc_closed (Push_Relay c rc) = rc_closed rc" "rc_writes (Push_Relay c rc) = rc_writes rc" "rc_ws (Push_Relay c rc) = rc_ws rc"
  using assms by (auto simp: Push_Relay_def relayOk_def Let_def newest_def)

lemma PushStatus_frame [simp]:
  "rc_chunks (PushStatus s rc) = rc_chunks rc" "rc_total (PushStatus s rc) = rc_total rc" "rc_closed (PushStatus s rc) = rc_closed rc"
  "rc_inflight (PushStatus s rc) = rc_inflight rc" "rc_ws (PushStatus s rc) = rc_ws rc"
  by (simp_all add: PushStatus_def writeMessage_def pushStatusHTTP_def split: list.split bool.split)

text \<open>The steps that other goroutines may interleave, other than closing.\<close>

datatype relayOp = RPush string | RTake | RWrite nat | RStatus string

definition relayStep :: "relayOp \<Rightarrow> RelayConnection \<Rightarrow> RelayConnection" where
  "relayStep opr rc =
     (case opr of
        RPush c \<Rightarrow> Push_Relay c rc
      | RTake \<Rightarrow> flushTake rc
      | RWrite i \<Rightarrow> flushWrite i rc
      | RStatus s \<Rightarrow> PushStatus s rc)"

lemma relayOk_step: "relayOk rc \<Longrightarrow> relayOk (relayStep opr rc)"
  by (cases opr; cases "rc_closed rc")
     (auto simp: relayStep_def Push_Relay_open Push_Relay_def flushTake_def flushWrite_def relayOk_def Let_def)

text \<open>What the connection holds and has sent, in order.\<close>

definition relayed :: "RelayConnection \<Rightarrow> string" where
  "relayed rc = concat (rc_wire rc) @ concat (rc_inflight rc) @ concat (rc_chunks rc)"

definition pushed :: "relayOp list \<Rightarrow> string" where
  "pushed ops = concat (map (\<lambda>opr. case opr of RPush c \<Rightarrow> c | _ \<Rightarrow> []) ops)"

definition inOrder :: "relayOp \<Rightarrow> bool" where
  "inOrder opr = (case opr of RPush _ \<Rightarrow> True | RTake \<Rightarrow> True | RWrite i \<Rightarrow> i = 0 | RStatus _ \<Rightarrow> False)"

definition liveRelay :: "RelayConnection \<Rightarrow> bool" where
  "liveRelay rc \<longleftrightarrow> relayOk rc \<and> rc_ws rc \<and> \<not> rc_closed rc \<and> rc_writes rc = []"

lemma relayStep_keeps:
  assumes "liveRelay rc" "inOrder opr" "length (concat (rc_chunks rc)) + length (pushed [opr]) \<le> maxBufferSize"
  shows "liveRelay (relayStep opr rc) \<and> relayed (relayStep opr rc) = relayed rc @ pushed [opr]
    \<and> length (concat (rc_chunks (relayStep opr rc))) \<le> length (concat (rc_chunks rc)) + length (pushed [opr])"
proof (cases opr)
  case (RPush c)
  then show ?thesis using assms
    by (simp add: liveRelay_def relayStep_def Push_Relay_open relayed_def pushed_def)
next
  case RTake
  then show ?thesis using assms by (auto simp: liveRelay_def relayStep_def relayed_def pushed_def flushTake_def relayOk_def Let_def)
next
  case (RWrite i)
  then show ?thesis using assms
    by (cases "rc_inflight rc") (auto simp: liveRelay_def relayStep_def relayed_def pushed_def flushWrite_def relayOk_def Let_def inOrder_def)
qed (use assms in \<open>simp add: inOrder_def\<close>)

lemma relay_keeps_order:
  assumes "liveRelay rc" "\<forall>opr \<in> set ops. inOrder opr" "length (concat (rc_chunks rc)) + length (pushed ops) \<le> maxBufferSize"
  shows "liveRelay (fold relayStep ops rc) \<and> relayed (fold relayStep ops rc) = relayed rc @ pushed ops"
  using assms
proof (induction ops arbitrary: rc)
  case Nil
  then show ?case by (simp add: pushed_def)
next
  case (Cons opr ops)
  have p: "pushed (opr # ops) = pushed [opr] @ pushed ops" by (simp add: pushed_def)
  with Cons.prems have l: "length (concat (rc_chunks rc)) + length (pushed [opr]) \<le> maxBufferSize"
    by simp
  from relayStep_keeps [OF Cons.prems(1) _ l] Cons.prems(2)
  have s: "liveRelay (relayStep opr rc)" "relayed (relayStep opr rc) = relayed rc @ pushed [opr]"
    "length (concat (rc_chunks (relayStep opr rc))) \<le> length (concat (rc_chunks rc)) + length (pushed [opr])" by auto
  have "length (pushed (opr # ops)) = length (pushed [opr]) + length (pushed ops)" by (simp add: p)
  with s(3) Cons.prems(3) have "length (concat (rc_chunks (relayStep opr rc))) + length (pushed ops) \<le> maxBufferSize" by linarith
  from Cons.IH [OF s(1) _ this] Cons.prems(2) s(2) p show ?case by simp
qed

text \<open>Closing writes what is buffered and nothing is lost, provided no flush has data in hand.\<close>

lemma closing_sends_the_rest:
  assumes "liveRelay rc" "rc_inflight rc = []"
  shows "concat (rc_wire (Close_Relay rc)) = relayed rc" "rc_closed (Close_Relay rc)" "\<not> rc_ws (Close_Relay rc)"
    "rc_http (Close_Relay rc) = rc_http rc @ [(rc_relayURL rc @ ''/sessions/'' @ rc_sessionID rc @ ''/end'', [])]"
  using assms by (auto simp: liveRelay_def relayed_def Close_Relay_def closeTake_def closeFinish_def endSessionHTTP_def Let_def)

text \<open>A flush that has taken its data before the connection is closed drops the data afterwards.\<close>

lemma late_flush_is_lost:
  assumes "liveRelay rc" "rc_chunks rc \<noteq> []" "rc_inflight rc = []"
  shows "rc_wire (flushWrite 0 (Close_Relay (flushTake rc))) = rc_wire rc"
  using assms by (auto simp: liveRelay_def Close_Relay_def closeTake_def closeFinish_def endSessionHTTP_def flushTake_def flushWrite_def Let_def)

end
