(* ===== verification/Orchestrator.thy ===== *)
theory Orchestrator
  imports Sanitize RelayClient Clarifications
begin

text \<open>
  Execution of a task in a container (\<open>bot/orchestrator/orchestrator.go\<close>). Docker, the platform that shows
  log messages and the other processes that use the database are parameters: \<open>Docker\<close> holds the answers of the daemon, and the list
  of events is a schedule, which says what the goroutines of one run do next: the reader receives a chunk or the end, a ticker
  fires, the time limit expires, the relay flushes, or somebody else changes the database. Steps between two blocking points are
  atomic. A run that has not returned when the schedule ends has no result.
\<close>

section \<open>Constants and requests\<close>

definition containerTimeoutMs :: nat where "containerTimeoutMs = 10 * 60 * 1000"
definition stallThresholdMs :: nat where "stallThresholdMs = 5000"
definition clarificationMaxWaitMs :: nat where "clarificationMaxWaitMs = 60 * 60 * 1000"
definition clarificationWarningTimeMs :: nat where "clarificationWarningTimeMs = 50 * 60 * 1000"
definition rollingBufferLines :: nat where "rollingBufferLines = 20"
definition maxClarificationsPerSession :: nat where "maxClarificationsPerSession = 5"
definition maxOutput :: nat where "maxOutput = 4000"
definition throttleMs :: nat where "throttleMs = 4000"
definition maxLogChars :: nat where "maxLogChars = 800"

definition envKeyMap :: "string \<rightharpoonup> string" where
  "envKeyMap = map_of
     [(''anthropic'', ''ANTHROPIC_API_KEY''), (''openai'', ''OPENAI_API_KEY''), (''google'', ''GEMINI_API_KEY''), (''venice'', ''OPENAI_API_KEY''),
      (''groq'', ''GROQ_API_KEY''), (''together'', ''TOGETHER_API_KEY''), (''fireworks'', ''FIREWORKS_API_KEY''), (''custom'', ''OPENAI_API_KEY'')]"

definition chatOnlyProviders :: "string list" where
  "chatOnlyProviders = [''venice'', ''groq'', ''together'', ''fireworks'', ''custom'']"

definition interactiveProviders :: "string list" where
  "interactiveProviders = [''anthropic'', ''google'']"

definition providerCLIMap :: "string \<rightharpoonup> string" where
  "providerCLIMap = map_of [(''anthropic'', ''claude''), (''openai'', ''codex''), (''google'', ''gemini'')]"

definition providerImageMap :: "string \<rightharpoonup> string" where
  "providerImageMap = map_of
     [(''anthropic'', ''shipmates-claude:latest''), (''openai'', ''shipmates-codex:latest''), (''google'', ''shipmates-gemini:latest'')]"

text \<open>The value of a missing key of a Go map of strings.\<close>

definition lookupStr :: "(string \<rightharpoonup> string) \<Rightarrow> string \<Rightarrow> string" where
  "lookupStr m k = (case m k of None \<Rightarrow> [] | Some v \<Rightarrow> v)"

definition nameClass :: "(nat \<times> nat) list" where
  "nameClass = alnumClass @ [(46, 46), (95, 95), (45, 45)]"

definition repoPart :: re where
  "repoPart = Cat (Cls alnumClass) (Star True (Cls nameClass))"

definition repoPattern :: re where
  "repoPattern = Cat Bol (Cat repoPart (Cat (lit ''/'') (Cat repoPart Eol)))"

definition branchPattern :: re where
  "branchPattern = Cat Bol (Cat (plus1 (Cls (alnumClass @ [(95, 95), (46, 46), (45, 45), (47, 47)]))) Eol)"

definition validateRepoName :: "string \<Rightarrow> unit result" where
  "validateRepoName repo =
     (let err = Inl (''invalid repository name: '' @ repo) in
      if length repo > 200 then err
      else if \<not> MatchString repoPattern repo then err
      else if Contains repo ''..'' then err
      else
        let parts = Split repo (CHR ''/'') in
        if length parts \<noteq> 2 then err
        else if list_ex (\<lambda>part. HasPrefix part ''-'' \<or> HasPrefix part ''.'' \<or> HasSuffix part ''-'' \<or> HasSuffix part ''.'') parts then err
        else Inr ())"

definition validateBranchName :: "string \<Rightarrow> unit result" where
  "validateBranchName branch =
     (if \<not> MatchString branchPattern branch then Inl (''invalid branch name: '' @ branch) else Inr ())"

record WorkRequest =
  wr_UserID :: string
  wr_AgentID :: string
  wr_Task :: string
  wr_Repo :: string
  wr_Provider :: string
  wr_APIKey :: string
  wr_GithubToken :: string
  wr_AgentScope :: "string option"
  wr_BaseURL :: string
  wr_ModelID :: string
  wr_PlatformUserID :: string
  wr_Mode :: string
  wr_LogFn :: "(string \<Rightarrow> string) option" \<comment> \<open>a message is answered by the id of its thread\<close>

record ContainerConfig =
  cc_Image :: string
  cc_WorkingDir :: string
  cc_Entrypoint :: "string list"
  cc_Cmd :: "string list"
  cc_Env :: "string list"
  cc_OpenStdin :: bool
  cc_StdinOnce :: bool
  cc_AttachStdin :: bool
  cc_AttachStdout :: bool
  cc_AttachStderr :: bool
  cc_Tty :: bool

record HostConfig =
  hc_AutoRemove :: bool
  hc_NetworkMode :: string
  hc_Memory :: int
  hc_MemorySwap :: int
  hc_CPUShares :: int
  hc_PidsLimit :: int
  hc_SecurityOpt :: "string list"
  hc_CapDrop :: "string list"
  hc_CapAdd :: "string list"
  hc_Tmpfs :: "(string \<times> string) list"

definition apos :: string where
  "apos = [CHR 0x27]"

definition containerScript :: "string \<Rightarrow> string \<Rightarrow> string" where
  "containerScript envKey cliCmd =
     ''printenv '' @ envKey @ '' > /run/secrets/api_key && '' @
     ''printenv GITHUB_TOKEN > /run/secrets/github_token && '' @
     ''chmod 600 /run/secrets/api_key /run/secrets/github_token && '' @
     ''export '' @ envKey @ ''=$(cat /run/secrets/api_key) && '' @
     ''export GITHUB_TOKEN=$(cat /run/secrets/github_token) && '' @
     ''git config --global credential.helper '' @ apos @ ''!f() { echo '' @ [quote] @ ''password=$(cat /run/secrets/github_token)'' @ [quote] @
       ''; echo '' @ [quote] @ ''username=x-access-token'' @ [quote] @ ''; }; f'' @ apos @ '' && '' @
     ''git clone --depth 1 '' @ [quote] @ ''https://github.com/'' @ apos @ ''$REPO'' @ apos @ ''.git'' @ [quote] @ '' . && '' @
     ''git checkout -b '' @ apos @ ''$BRANCH_NAME'' @ apos @ '' && '' @
     cliCmd @ '' -p '' @ [quote] @ ''$TASK'' @ [quote] @ '' && '' @
     ''git add -A && '' @
     ''git commit -m '' @ [quote] @ ''shipmates: $TASK'' @ [quote] @ '' && '' @
     ''git push origin '' @ apos @ ''$BRANCH_NAME'' @ apos"

definition containerConfig :: "WorkRequest \<Rightarrow> string \<Rightarrow> string \<Rightarrow> string \<Rightarrow> ContainerConfig" where
  "containerConfig req img sanitizedTask branchName =
     (let envKey = lookupStr envKeyMap (wr_Provider req);
          interactive = wr_Provider req \<in> set interactiveProviders
      in \<lparr>cc_Image = img, cc_WorkingDir = ''/workspace'', cc_Entrypoint = [''/bin/sh'', ''-c''],
          cc_Cmd = [containerScript envKey (lookupStr providerCLIMap (wr_Provider req))],
          cc_Env = [envKey @ ''='' @ wr_APIKey req, ''GITHUB_TOKEN='' @ wr_GithubToken req, ''BRANCH_NAME='' @ branchName,
                    ''REPO='' @ wr_Repo req, ''TASK='' @ sanitizedTask],
          cc_OpenStdin = interactive, cc_StdinOnce = False, cc_AttachStdin = interactive, cc_AttachStdout = interactive,
          cc_AttachStderr = interactive, cc_Tty = False\<rparr>)"

definition hostConfig :: HostConfig where
  "hostConfig =
     \<lparr>hc_AutoRemove = True, hc_NetworkMode = ''shipmates-agent'', hc_Memory = 512 * 1024 * 1024, hc_MemorySwap = 512 * 1024 * 1024,
      hc_CPUShares = 256, hc_PidsLimit = 256, hc_SecurityOpt = [''no-new-privileges''], hc_CapDrop = [''ALL''],
      hc_CapAdd = [''CHOWN'', ''DAC_OVERRIDE'', ''FOWNER''], hc_Tmpfs = [(''/run/secrets'', ''rw,noexec,nosuid,size=1m'')]\<rparr>"


section \<open>State of the orchestrator and of a run\<close>

record OrchestratorState =
  o_db :: db
  o_registry :: SessionRegistry
  o_relayURL :: string
  o_relaySecret :: string
  o_kills :: "string list" \<comment> \<open>the containers sent \<open>SIGKILL\<close>\<close>

text \<open>Where the goroutine that watches for questions stands.\<close>

datatype stallPhase =
    Watching
  | Awaiting string nat nat bool \<comment> \<open>the question's id, the deadline, the time of the warning and whether it was sent\<close>
  | StallReturned

record Run =
  rn_o :: OrchestratorState
  rn_relay :: RelayConnection
  rn_log :: "string list"
  rn_out :: outputBuffer
  rn_line :: string
  rn_lastLog :: nat
  rn_rolling :: RollingBuffer
  rn_timer :: ContainerTimer
  rn_lastOutput :: nat
  rn_pending :: bool
  rn_count :: nat
  rn_stdin :: "string list"
  rn_readerDone :: bool
  rn_stall :: stallPhase

datatype runEvent =
    GotChunk string
  | GotEnd
  | StallTick
  | AnswerTick
  | ContextDone
  | SeesDone
  | LimitTick
  | RelayTake
  | RelayWrite nat
  | OtherDb "db \<Rightarrow> db"

record Docker =
  dk_create :: "ContainerConfig \<Rightarrow> HostConfig \<Rightarrow> string result"
  dk_start :: "string \<Rightarrow> unit result"
  dk_open :: "string \<Rightarrow> unit result" \<comment> \<open>\<open>ContainerLogs\<close> or \<open>ContainerAttach\<close>\<close>
  dk_wait :: "string \<Rightarrow> int result"
  dk_dial :: "string \<Rightarrow> string \<Rightarrow> bool list option"
  dk_lower :: "string \<Rightarrow> string"
  dk_before :: "db \<Rightarrow> db" \<comment> \<open>what others do to the database before the container is created\<close>
  dk_events :: "runEvent list" \<comment> \<open>while the output is read\<close>
  dk_waitEvents :: "runEvent list" \<comment> \<open>while the end of the container is awaited\<close>
  dk_between :: "db \<Rightarrow> db" \<comment> \<open>between reading and writing the session's status\<close>

definition onRun :: "(db \<Rightarrow> 'a \<times> db) \<Rightarrow> Run \<Rightarrow> 'a \<times> Run" where
  "onRun m st = (let (r, d) = m (o_db (rn_o st)) in (r, st\<lparr>rn_o := (rn_o st)\<lparr>o_db := d\<rparr>\<rparr>))"

definition mapDb :: "(db \<Rightarrow> db) \<Rightarrow> Run \<Rightarrow> Run" where
  "mapDb f st = st\<lparr>rn_o := (rn_o st)\<lparr>o_db := f (o_db (rn_o st))\<rparr>\<rparr>"

definition killContainer :: "string \<Rightarrow> Run \<Rightarrow> Run" where
  "killContainer cid st = st\<lparr>rn_o := (rn_o st)\<lparr>o_kills := o_kills (rn_o st) @ [cid]\<rparr>\<rparr>"

definition logFn :: "WorkRequest \<Rightarrow> string \<Rightarrow> Run \<Rightarrow> string \<times> Run" where
  "logFn req msg st = ((case wr_LogFn req of None \<Rightarrow> [] | Some f \<Rightarrow> f msg), st\<lparr>rn_log := rn_log st @ [msg]\<rparr>)"

definition relayDo :: "(RelayConnection \<Rightarrow> RelayConnection) \<Rightarrow> Run \<Rightarrow> Run" where
  "relayDo f st = st\<lparr>rn_relay := f (rn_relay st)\<rparr>"

section \<open>Stuck sessions and cancellation\<close>

fun reconcileLoop :: "string list \<Rightarrow> db \<Rightarrow> db" where
  "reconcileLoop [] d = d"
| "reconcileLoop (i # ids) d =
     (let d1 = snd (UpdateSessionResult i SessionError (Some ''Bot restarted, session lost.'') None None d);
          (now, d2) = timeNow d1;
          d3 = snd (ExpireStaleClarifications (now - 60 * 60 * 1000) d2)
      in reconcileLoop ids d3)"

definition ReconcileStuckSessions :: "OrchestratorState \<Rightarrow> unit result \<times> OrchestratorState" where
  "ReconcileStuckSessions o1 =
     (let (now, d) = timeNow (o_db o1); cutoffTime = now - 30 * 1000 in
      case queryRows ''query stuck sessions'' ''scan stuck session id'' ''stuck sessions rows''
             (\<lambda>d. map s_ID (filter (\<lambda>s. s_Status s \<in> {SessionRunning, SessionWaitingForClarification} \<and> s_UpdatedAt s < cutoffTime) (db_sessions d))) d of
        (Inl e, d1) \<Rightarrow> (Inl e, o1\<lparr>o_db := d1\<rparr>)
      | (Inr ids, d1) \<Rightarrow>
          let stuckIDs = filter (\<lambda>i. registryGet i (o_registry o1) = None) ids in
          if stuckIDs = [] then (Inr (), o1\<lparr>o_db := d1\<rparr>)
          else (Inr (), o1\<lparr>o_db := reconcileLoop stuckIDs d1\<rparr>))"

text \<open>\<open>NewOrchestrator\<close>: the client of Docker and the two environment variables are its inputs; the watcher it starts is the two ticks below.\<close>

definition NewOrchestrator :: "unit result \<Rightarrow> string \<Rightarrow> string \<Rightarrow> db \<Rightarrow> OrchestratorState result \<times> db" where
  "NewOrchestrator newClient relayURLVar relaySecret d =
     (case newClient of
        Inl e \<Rightarrow> (Inl (''create docker client: '' @ e), d)
      | Inr _ \<Rightarrow>
          let relayURL = (if relayURLVar = [] then ''http://localhost:8080'' else relayURLVar) in
          if relaySecret = [] then (Inl ''RELAY_SECRET environment variable is required'', d)
          else
            let o1 = \<lparr>o_db = d, o_registry = NewSessionRegistry, o_relayURL = relayURL, o_relaySecret = relaySecret, o_kills = []\<rparr>;
                o2 = snd (ReconcileStuckSessions o1)
            in (Inr o2, o_db o2))"

text \<open>One tick of the watcher. \<open>o_kills\<close> records every kill sent; whether Docker carries it out is only printed.\<close>

definition cancelTick :: "OrchestratorState \<Rightarrow> OrchestratorState" where
  "cancelTick o1 =
     (let sessionIDs = ActiveSessionIDs (o_registry o1) in
      if sessionIDs = [] then o1
      else case GetSessionsByStatus sessionIDs SessionCancelling (o_db o1) of
        (Inl e, d) \<Rightarrow> o1\<lparr>o_db := d\<rparr>
      | (Inr cancelling, d) \<Rightarrow>
          o1\<lparr>o_db := d, o_kills := o_kills o1 @ List.map_filter (\<lambda>i. registryGet i (o_registry o1)) cancelling\<rparr>)"

definition expiryTick :: "OrchestratorState \<Rightarrow> OrchestratorState" where
  "expiryTick o1 =
     (let (now, d) = timeNow (o_db o1) in o1\<lparr>o_db := snd (ExpireStaleClarifications (now - 60 * 60 * 1000) d)\<rparr>)"

section \<open>Reading the output\<close>

definition newline :: char where
  "newline = CHR 0x0A"

definition lastBytes :: "nat \<Rightarrow> string \<Rightarrow> string" where
  "lastBytes n s = (if length s > n then drop (length s - n) s else s)"

definition fenced :: "string \<Rightarrow> string" where
  "fenced s = ''```'' @ [newline] @ s @ [newline] @ ''```''"

text \<open>The part of both readers that sends complete lines to the chat, at most every four seconds.\<close>

definition throttledLog :: "WorkRequest \<Rightarrow> Run \<Rightarrow> Run" where
  "throttledLog req st =
     (let (now, st1) = onRun timeNow st in
      if now - rn_lastLog st1 \<ge> throttleMs then
        case LastIndexByte (rn_line st1) newline of
          None \<Rightarrow> st1
        | Some i \<Rightarrow>
            let toSend = lastBytes maxLogChars (take (Suc i) (rn_line st1));
                st2 = snd (logFn req (fenced toSend) st1)
            in st2\<lparr>rn_line := drop (Suc i) (rn_line st1), rn_lastLog := now\<rparr>
      else st1)"

definition pushLines :: "string \<Rightarrow> RollingBuffer \<Rightarrow> RollingBuffer" where
  "pushLines text rb = fold (\<lambda>line rb. if line \<noteq> [] then PushLine line rb else rb) (Split text newline) rb"

definition readChunk :: "bool \<Rightarrow> WorkRequest \<Rightarrow> string \<Rightarrow> Run \<Rightarrow> Run" where
  "readChunk interactive req text st =
     (let sanitized = SanitizeOutput text;
          st1 = relayDo (Push_Relay sanitized) (st\<lparr>rn_out := Write_Output sanitized (rn_out st)\<rparr>);
          st2 = (if interactive then
                   let (now, st') = onRun timeNow st1
                   in st'\<lparr>rn_lastOutput := now, rn_rolling := pushLines sanitized (rn_rolling st')\<rparr>
                 else st1)
      in throttledLog req (st2\<lparr>rn_line := rn_line st2 @ sanitized\<rparr>))"

section \<open>Questions of the agent\<close>

fun replaceCRLF :: "string \<Rightarrow> string" where
  "replaceCRLF (c # e # s) =
     (if c = CHR 0x0D \<and> e = CHR 0x0A then CHR '' '' # replaceCRLF s else c # replaceCRLF (e # s))"
| "replaceCRLF s = s"

definition answerText :: "string \<Rightarrow> string" where
  "answerText answer =
     (let a1 = replaceCRLF answer;
          a2 = ReplaceByte a1 newline (CHR '' '');
          a3 = ReplaceAllString controlPattern [] a2
      in if length a3 > 2000 then take 2000 a3 else a3)"

text \<open>The question is stored and shown, the clock stops, and the goroutine waits for the answer.\<close>

definition raiseQuestion :: "WorkRequest \<Rightarrow> Session \<Rightarrow> string \<Rightarrow> Run \<Rightarrow> Run" where
  "raiseQuestion req session questionText st2 =
     (case onRun (CreateClarification (s_ID session) questionText) st2 of
        (Inl e, st3) \<Rightarrow> st3\<lparr>rn_pending := False\<rparr>
      | (Inr clarification, st3) \<Rightarrow>
          let mention = (case s_PlatformUserID session of
                           Some p \<Rightarrow> if p \<noteq> [] then ''<@'' @ p @ ''> '' else [] | None \<Rightarrow> []);
              (threadID, st4) = logFn req (mention @ ''Agent has a question:'' @ [newline] @ fenced questionText) st3;
              st5 = (if threadID \<noteq> [] then snd (onRun (UpdateSessionPlatformThreadID (s_ID session) threadID) st4) else st4);
              st6 = relayDo (Push_Relay ([newline] @ ''--- Agent is waiting for clarification ---'' @ [newline] @ questionText @ [newline])) st5;
              st7 = relayDo (PushStatus ''waiting_for_clarification'') st6;
              (pausedAt, st8) = onRun timeNow st7;
              st9 = st8\<lparr>rn_timer := timerPause pausedAt (rn_timer st8)\<rparr>;
              (t1, st10) = onRun timeNow st9;
              (t2, st11) = onRun timeNow st10
          in st11\<lparr>rn_stall := Awaiting (cl_ID clarification) (t1 + clarificationMaxWaitMs) (t2 + clarificationWarningTimeMs) False\<rparr>)"

definition stallTick :: "Docker \<Rightarrow> WorkRequest \<Rightarrow> Session \<Rightarrow> Run \<Rightarrow> Run" where
  "stallTick dk req session st =
     (if rn_pending st \<or> rn_count st \<ge> maxClarificationsPerSession then st
      else
        let (now, st1) = onRun timeNow st in
        if now - rn_lastOutput st1 < stallThresholdMs then st1
        else
          let strippedLines = map StripANSI (ToArray (rn_rolling st1)) in
          if \<not> LooksLikeQuestion (dk_lower dk) strippedLines then st1
          else raiseQuestion req session (ExtractQuestion strippedLines) (st1\<lparr>rn_pending := True, rn_count := Suc (rn_count st1)\<rparr>))"

definition warnOnce :: "WorkRequest \<Rightarrow> nat \<Rightarrow> nat \<Rightarrow> bool \<Rightarrow> Run \<Rightarrow> bool \<times> Run" where
  "warnOnce req now warningTime warningSent st =
     (if \<not> warningSent \<and> now > warningTime
      then (True, snd (logFn req ''The agent is still waiting for your answer. 10 minutes remaining before timeout.'' st))
      else (warningSent, st))"

text \<open>\<open>awaitClarificationAnswer\<close>: one tick; \<open>Some True\<close> when it returns true, \<open>None\<close> when it goes on.\<close>

definition awaitTick :: "WorkRequest \<Rightarrow> string \<Rightarrow> nat \<Rightarrow> nat \<Rightarrow> bool \<Rightarrow> Run \<Rightarrow> bool option \<times> bool \<times> Run" where
  "awaitTick req cid deadline warningTime warningSent st =
     (let (now, st1) = onRun timeNow st;
          (sent, st2) = warnOnce req now warningTime warningSent st1
      in if now > deadline then (Some False, sent, snd (onRun (UpdateClarificationStatus cid ClarificationExpired) st2))
         else case onRun (GetClarification cid) st2 of
           (Inl e, st3) \<Rightarrow> (Some False, sent, st3)
         | (Inr None, st3) \<Rightarrow> (Some False, sent, st3)
         | (Inr (Some c), st3) \<Rightarrow>
             if cl_Status c = ClarificationAnswered \<and> cl_Answer c \<noteq> None
             then (Some True, sent, st3\<lparr>rn_stdin := rn_stdin st3 @ [answerText (the (cl_Answer c)) @ [newline]]\<rparr>)
             else if cl_Status c = ClarificationExpired then (Some False, sent, st3)
             else (None, sent, st3))"

definition answerTick :: "WorkRequest \<Rightarrow> string \<Rightarrow> Run \<Rightarrow> Run" where
  "answerTick req containerID st =
     (case rn_stall st of
        Awaiting cid deadline warningTime warningSent \<Rightarrow>
          (case awaitTick req cid deadline warningTime warningSent st of
             (None, sent, st1) \<Rightarrow> st1\<lparr>rn_stall := Awaiting cid deadline warningTime sent\<rparr>
           | (Some True, _, st1) \<Rightarrow>
               let (t1, st2) = onRun timeNow st1;
                   st3 = st2\<lparr>rn_timer := timerResume t1 (rn_timer st2), rn_pending := False, rn_rolling := ClearLines (rn_rolling st2)\<rparr>;
                   (t2, st4) = onRun timeNow st3;
                   st5 = relayDo (PushStatus ''running'') (st4\<lparr>rn_lastOutput := t2\<rparr>)
               in snd (logFn req ''Got your answer, passing it to the agent.'' (st5\<lparr>rn_stall := Watching\<rparr>))
           | (Some False, _, st1) \<Rightarrow> killContainer containerID (st1\<lparr>rn_stall := StallReturned\<rparr>))
      | _ \<Rightarrow> st)"

text \<open>The time limit: the timer's function and the goroutine that waits for it.\<close>

definition limitTick :: "string \<Rightarrow> Run \<Rightarrow> Run go" where
  "limitTick containerID st =
     (let (now, st1) = onRun timeNow st in
      case timerCallback (timerExpire now (rn_timer st1)) of
        Panic \<Rightarrow> Panic
      | Ret t \<Rightarrow> Ret ((if ct_done t \<and> \<not> ct_done (rn_timer st1) then killContainer containerID st1 else st1)\<lparr>rn_timer := t\<rparr>))"

definition runStep :: "Docker \<Rightarrow> bool \<Rightarrow> WorkRequest \<Rightarrow> Session \<Rightarrow> string \<Rightarrow> runEvent \<Rightarrow> Run \<Rightarrow> Run go" where
  "runStep dk interactive req session containerID ev st =
     (case ev of
        GotChunk text \<Rightarrow> Ret (if rn_readerDone st \<or> text = [] then st else readChunk interactive req text st)
      | GotEnd \<Rightarrow> Ret (st\<lparr>rn_readerDone := True\<rparr>)
      | StallTick \<Rightarrow> Ret (if rn_stall st = Watching then stallTick dk req session st else st)
      | AnswerTick \<Rightarrow> Ret (answerTick req containerID st)
      | ContextDone \<Rightarrow> Ret (case rn_stall st of
                              Watching \<Rightarrow> st\<lparr>rn_stall := StallReturned\<rparr>
                            | Awaiting _ _ _ _ \<Rightarrow> killContainer containerID (st\<lparr>rn_stall := StallReturned\<rparr>)
                            | StallReturned \<Rightarrow> st)
      | SeesDone \<Rightarrow> Ret (if rn_readerDone st \<and> rn_stall st = Watching then st\<lparr>rn_stall := StallReturned\<rparr> else st)
      | LimitTick \<Rightarrow> limitTick containerID st
      | RelayTake \<Rightarrow> Ret (if rc_flushTimer (rn_relay st) then relayDo flushTake st else st)
      | RelayWrite i \<Rightarrow> Ret (relayDo (flushWrite i) st)
      | OtherDb f \<Rightarrow> Ret (mapDb f st))"

definition handlerDone :: "Run \<Rightarrow> bool" where
  "handlerDone st \<longleftrightarrow> rn_readerDone st \<and> rn_stall st = StallReturned"

fun runLoop :: "(runEvent \<Rightarrow> Run \<Rightarrow> Run go) \<Rightarrow> runEvent list \<Rightarrow> Run \<Rightarrow> Run go option" where
  "runLoop stp [] st = (if handlerDone st then Some (Ret st) else None)"
| "runLoop stp (e # es) st =
     (if handlerDone st then Some (Ret st)
      else case stp e st of Panic \<Rightarrow> Some Panic | Ret st1 \<Rightarrow> runLoop stp es st1)"

definition handleNonInteractiveContainer :: "Docker \<Rightarrow> WorkRequest \<Rightarrow> Session \<Rightarrow> string \<Rightarrow> Run \<Rightarrow> Run go option" where
  "handleNonInteractiveContainer dk req session containerID st =
     (case dk_open dk containerID of
        Inl e \<Rightarrow> Some (Ret st)
      | Inr _ \<Rightarrow> runLoop (runStep dk False req session containerID) (dk_events dk) (st\<lparr>rn_stall := StallReturned\<rparr>))"

definition handleInteractiveContainer :: "Docker \<Rightarrow> WorkRequest \<Rightarrow> Session \<Rightarrow> string \<Rightarrow> Run \<Rightarrow> Run go option" where
  "handleInteractiveContainer dk req session containerID st =
     (case dk_open dk containerID of
        Inl e \<Rightarrow> Some (Ret st)
      | Inr _ \<Rightarrow>
          let (now, st1) = onRun timeNow st in
          runLoop (runStep dk True req session containerID) (dk_events dk)
            (st1\<lparr>rn_lastOutput := now, rn_pending := False, rn_count := 0, rn_stall := Watching\<rparr>))"


section \<open>A run\<close>

text \<open>Once the handler has returned none of its goroutines is left; the relay, the time limit and other processes go on.\<close>

fun waitLoop :: "(runEvent \<Rightarrow> Run \<Rightarrow> Run go) \<Rightarrow> runEvent list \<Rightarrow> Run \<Rightarrow> Run go" where
  "waitLoop stp [] st = Ret st"
| "waitLoop stp (e # es) st = (case stp e st of Panic \<Rightarrow> Panic | Ret st1 \<Rightarrow> waitLoop stp es st1)"

definition failRun :: "WorkRequest \<Rightarrow> string \<Rightarrow> string \<Rightarrow> string \<Rightarrow> Run \<Rightarrow> Run" where
  "failRun req sid output msg st =
     snd (logFn req msg
       (snd (onRun (UpdateSessionResult sid SessionError (Some output) None None) (relayDo (PushStatus ''error'') st))))"

definition finishSession :: "Docker \<Rightarrow> WorkRequest \<Rightarrow> string \<Rightarrow> string \<Rightarrow> int \<Rightarrow> Run \<Rightarrow> Run" where
  "finishSession dk req sid branchName exitCode st =
     (let output = String_Output (rn_out st);
          outputSlice = lastBytes 2000 output;
          (current, st1) = onRun (GetSessionByID sid) st;
          st2 = mapDb (dk_between dk) st1;
          status = (case current of Inr (Some s) \<Rightarrow> Some (s_Status s) | _ \<Rightarrow> None)
      in if status = Some SessionCancelling \<or> status = Some SessionWaitingForClarification then
           let finalStatus = (if status = Some SessionWaitingForClarification then SessionError else SessionCancelled);
               (updated, st3) = onRun (UpdateSessionResultIfNotTerminal sid finalStatus (Some outputSlice) None None) st2
           in if updated = Inr True then
                (if finalStatus = SessionCancelled then snd (logFn req ''Task was cancelled.'' st3)
                 else snd (logFn req ''Agent timed out waiting for clarification.'' st3))
              else st3
         else if exitCode = 0 then
           let prURL = ''https://github.com/'' @ wr_Repo req @ ''/compare/'' @ branchName;
               (updated, st3) = onRun (UpdateSessionResultIfNotTerminal sid SessionDone (Some outputSlice) (Some branchName) (Some prURL)) st2
           in if updated = Inr True then
                snd (logFn req (''Finished the task. Branch: `'' @ branchName @ ''`'' @ [newline] @ fenced (lastBytes 1500 output)) st3)
              else st3
         else
           let (updated, st3) = onRun (UpdateSessionResultIfNotTerminal sid SessionError (Some outputSlice) None None) st2
           in if updated = Inr True then snd (logFn req ''Hit an error while working on the task. Check logs for details.'' st3)
              else st3)"

definition deregister :: "string \<Rightarrow> Run \<Rightarrow> Run" where
  "deregister sid st = st\<lparr>rn_o := (rn_o st)\<lparr>o_registry := Deregister sid (o_registry (rn_o st))\<rparr>\<rparr>"

text \<open>From the start of the container on; the deferred calls are done on each way out.\<close>

definition runContainer :: "Docker \<Rightarrow> WorkRequest \<Rightarrow> Session \<Rightarrow> string \<Rightarrow> string \<Rightarrow> Run \<Rightarrow> (unit result \<times> Run) go option" where
  "runContainer dk req session branchName containerID st =
     (let sid = s_ID session;
          st1 = st\<lparr>rn_o := (rn_o st)\<lparr>o_registry := Register sid containerID (o_registry (rn_o st))\<rparr>\<rparr>
      in case dk_start dk containerID of
           Inl e \<Rightarrow>
             Some (Ret (Inl (''start container: '' @ e),
               relayDo Close_Relay (deregister sid (failRun req sid e ''Failed to start container. Check server logs for details.'' st1))))
         | Inr _ \<Rightarrow>
             let (t0, st2) = onRun timeNow st1;
                 (t1, st3) = onRun timeNow st2;
                 st4 = st3\<lparr>rn_out := newOutputBuffer maxOutput, rn_line := [], rn_lastLog := t0, rn_rolling := NewRollingBuffer rollingBufferLines,
                           rn_timer := NewContainerTimer t1 containerTimeoutMs, rn_readerDone := False\<rparr>;
                 interactive = wr_Provider req \<in> set interactiveProviders
             in case (if interactive then handleInteractiveContainer dk req session containerID st4
                      else handleNonInteractiveContainer dk req session containerID st4) of
                  None \<Rightarrow> None
                | Some Panic \<Rightarrow> Some Panic
                | Some (Ret st5) \<Rightarrow>
                    (case waitLoop (runStep dk interactive req session containerID) (dk_waitEvents dk)
                            (st5\<lparr>rn_readerDone := True, rn_stall := StallReturned\<rparr>) of
                       Panic \<Rightarrow> Some Panic
                     | Ret st6 \<Rightarrow>
                         (case dk_wait dk containerID of
                            Inl e \<Rightarrow>
                              let st7 = failRun req sid e ''Container wait error. Check server logs for details.'' st6;
                                  st8 = st7\<lparr>rn_timer := timerCancel (rn_timer st7)\<rparr>
                              in Some (Ret (Inl (''container wait: '' @ e), relayDo Close_Relay (deregister sid st8)))
                          | Inr exitCode \<Rightarrow>
                              let st7 = st6\<lparr>rn_timer := timerCancel (rn_timer st6)\<rparr>;
                                  st8 = finishSession dk req sid branchName exitCode st7
                              in Some (Ret (Inr (), relayDo Close_Relay (deregister sid (st8\<lparr>rn_timer := timerCancel (rn_timer st8)\<rparr>)))))))"

definition containerSession :: "WorkRequest \<Rightarrow> nat \<Rightarrow> Session" where
  "containerSession req now =
     \<lparr>s_ID = [], s_UserID = wr_UserID req, s_AgentID = wr_AgentID req, s_Task = SanitizeTask (wr_Task req), s_Status = SessionRunning,
      s_ExecutionMode = ModeContainer, s_Output = None, s_BranchName = None, s_PrURL = None, s_Repo = Some (wr_Repo req),
      s_ParentSessionID = None, s_ChainID = None, s_Position = 0, s_StartedAt = Some now, s_FinishedAt = None,
      s_ShareToken = None, s_ShareTokenExpiresAt = None, s_CoverageData = None, s_Starred = False, s_PlatformThreadID = None,
      s_PlatformUserID = Some (wr_PlatformUserID req), s_ScheduleID = None, s_CreatedAt = 0, s_UpdatedAt = 0\<rparr>"

text \<open>The locals of a run before they are set.\<close>

definition idleRun :: "OrchestratorState \<Rightarrow> Run" where
  "idleRun o1 =
     \<lparr>rn_o = o1, rn_relay = NewRelayConnection (\<lambda>_ _. None) [] [] [], rn_log = [], rn_out = newOutputBuffer 0, rn_line = [], rn_lastLog = 0,
      rn_rolling = NewRollingBuffer 0, rn_timer = NewContainerTimer 0 0, rn_lastOutput = 0, rn_pending = False, rn_count = 0,
      rn_stdin = [], rn_readerDone = False, rn_stall = StallReturned\<rparr>"

definition ExecuteInContainer :: "Docker \<Rightarrow> WorkRequest \<Rightarrow> OrchestratorState \<Rightarrow> (unit result \<times> Run) go option" where
  "ExecuteInContainer dk req o1 =
     (let st = idleRun o1 in
      case validateRepoName (wr_Repo req) of
        Inl e \<Rightarrow> Some (Ret (Inl e, snd (logFn req ''Invalid repository name. Skipping task.'' st)))
      | Inr _ \<Rightarrow>
          if wr_Provider req \<in> set chatOnlyProviders then
            Some (Ret (Inl (''provider '' @ wr_Provider req @ '' is chat-only''),
              snd (logFn req ''This provider does not support container execution.'' st)))
          else case providerImageMap (wr_Provider req) of
            None \<Rightarrow> Some (Ret (Inl (''no image mapping for provider: '' @ wr_Provider req),
                      snd (logFn req ''Unknown provider. No container image available.'' st)))
          | Some img \<Rightarrow>
              let (now, st1) = onRun timeNow st in
              case onRun (CreateSession (containerSession req now)) st1 of
                (Inl e, st2) \<Rightarrow> Some (Ret (Inl (''create session: '' @ e), st2))
              | (Inr session, st2) \<Rightarrow>
                  let st3 = st2\<lparr>rn_relay := NewRelayConnection (dk_dial dk) (s_ID session) (o_relayURL o1) (o_relaySecret o1)\<rparr>;
                      st4 = mapDb (dk_before dk) (snd (logFn req (''Started working on: '' @ SanitizeTask (wr_Task req)) st3));
                      branchName = ''shipmates/'' @ s_ID session
                  in case validateBranchName branchName of
                       Inl e \<Rightarrow> Some (Ret (Inl e,
                                 relayDo Close_Relay (failRun req (s_ID session) e ''Invalid branch name. Skipping task.'' st4)))
                     | Inr _ \<Rightarrow>
                         (case dk_create dk (containerConfig req img (SanitizeTask (wr_Task req)) branchName) hostConfig of
                            Inl e \<Rightarrow> Some (Ret (Inl (''create container: '' @ e),
                                      relayDo Close_Relay (failRun req (s_ID session) e ''Failed to create container. Check server logs for details.'' st4)))
                          | Inr containerID \<Rightarrow> runContainer dk req session branchName containerID st4))"


section \<open>Names of repositories and branches\<close>

lemma searchFrom_anchored: "0 < i \<Longrightarrow> searchFrom t (Cat Bol r) n i = None"
  by (induction n arbitrary: i) simp_all

lemma MatchString_anchored: "MatchString (Cat Bol r) s \<longleftrightarrow> ends (runeVals s) r 0 \<noteq> []"
  by (auto simp: MatchString_def search_def Let_def searchFrom_anchored split: list.split)

lemma starEnds_class:
  "length t - i \<le> n \<Longrightarrow> i \<le> length t \<Longrightarrow>
     j \<in> set (starEnds g (ends t (Cls c)) n i) \<longleftrightarrow> i \<le> j \<and> j \<le> length t \<and> (\<forall>k. i \<le> k \<and> k < j \<longrightarrow> inRanges c (t ! k))"
proof (induction n arbitrary: i)
  case 0
  then show ?case by (auto dest: le_antisym)
next
  case (Suc n)
  show ?case
  proof (cases "i < length t \<and> inRanges c (t ! i)")
    case True
    with Suc.prems have "length t - Suc i \<le> n" "Suc i \<le> length t" by auto
    note ih = Suc.IH [OF this]
    have "(\<forall>k. i \<le> k \<and> k < j \<longrightarrow> Q k) \<longleftrightarrow> (i < j \<longrightarrow> Q i \<and> (\<forall>k. Suc i \<le> k \<and> k < j \<longrightarrow> Q k))" for Q
      by (auto simp: Suc_le_eq dest: le_neq_implies_less)
    note sp = this [of "\<lambda>k. inRanges c (t ! k)"]
    have "ends t (Cls c) i = [Suc i]" using True by simp
    then have "set (starEnds g (ends t (Cls c)) (Suc n) i) = insert i (set (starEnds g (ends t (Cls c)) n (Suc i)))"
      by (simp add: Let_def del: ends.simps)
    then show ?thesis using True by (auto simp: ih sp Suc_le_eq simp del: ends.simps starEnds.simps)
  next
    case False
    then have "i = length t \<or> (i < length t \<and> \<not> inRanges c (t ! i))" using Suc.prems by auto
    then show ?thesis using Suc.prems by (auto simp: Let_def)
  qed
qed

lemma ends_star_class:
  assumes "i \<le> length t"
  shows "j \<in> set (ends t (Star g (Cls c)) i) \<longleftrightarrow> i \<le> j \<and> j \<le> length t \<and> (\<forall>k. i \<le> k \<and> k < j \<longrightarrow> inRanges c (t ! k))"
  using starEnds_class [of t i "length t - i" j g c] assms by simp

lemma runeVals_ascii: "(\<forall>c \<in> set s. (of_char c :: nat) < 128) \<Longrightarrow> runeVals s = map of_char s"
  by (induction s) (simp_all add: runeVals_def)

lemma runeVals_low:
  assumes "\<forall>v \<in> set (runeVals s). v < 128"
  shows "runeVals s = map of_char s"
proof -
  have ascii: "\<exists>c. r = [c] \<and> (of_char c :: nat) < 128" if r: "r \<in> set (runesOf s)" for r
    using runesOf_high [OF r] runeVal_high [OF r] assms r by (fastforce simp: runeVals_def)
  have "\<forall>c \<in> set (concat (runesOf s)). (of_char c :: nat) < 128"
  proof
    fix c
    assume "c \<in> set (concat (runesOf s))"
    then obtain r where "r \<in> set (runesOf s)" "c \<in> set r" by (auto simp del: concat_runesOf)
    with ascii [of r] show "(of_char c :: nat) < 128" by auto
  qed
  then show ?thesis by (simp only: concat_runesOf runeVals_ascii)
qed

definition inClass :: "(nat \<times> nat) list \<Rightarrow> string \<Rightarrow> bool" where
  "inClass cls s \<longleftrightarrow> (\<forall>c \<in> set s. inRanges cls (of_char c))"

lemma runeVals_class:
  assumes "list_all (\<lambda>(a, b). b < 128) cls"
  shows "(\<forall>v \<in> set (runeVals s). inRanges cls v) \<longleftrightarrow> inClass cls s"
proof
  assume a: "\<forall>v \<in> set (runeVals s). inRanges cls v"
  with inRanges_low [OF assms] have "runeVals s = map of_char s" by (intro runeVals_low) blast
  with a show "inClass cls s" by (simp add: inClass_def)
next
  assume a: "inClass cls s"
  with inRanges_low [OF assms] have "runeVals s = map of_char s" by (intro runeVals_ascii) (auto simp: inClass_def)
  with a show "\<forall>v \<in> set (runeVals s). inRanges cls v" by (simp add: inClass_def)
qed

lemma ends_plus_class_Eol:
  "ends t (Cat (plus1 (Cls c)) Eol) 0 \<noteq> [] \<longleftrightarrow> t \<noteq> [] \<and> (\<forall>v \<in> set t. inRanges c v)"
proof -
  have "ends t (Cat (plus1 (Cls c)) Eol) 0 \<noteq> [] \<longleftrightarrow> (t \<noteq> [] \<and> inRanges c (t ! 0) \<and> length t \<in> set (ends t (Star True (Cls c)) 1))"
    by (auto simp: plus1_def)
  also have "\<dots> \<longleftrightarrow> t \<noteq> [] \<and> (\<forall>k < length t. inRanges c (t ! k))"
    by (cases t) (auto simp: ends_star_class less_Suc_eq_0_disj Suc_le_eq simp del: ends.simps)
  finally show ?thesis by (simp add: all_set_conv_all_nth)
qed

definition branchClass :: "(nat \<times> nat) list" where
  "branchClass = alnumClass @ [(95, 95), (46, 46), (45, 45), (47, 47)]"

lemma runeVals_Nil_iff: "runeVals s = [] \<longleftrightarrow> s = []"
  by (cases s) (simp_all add: runeVals_def runesOf.simps [of "_ # _"] Let_def)

text \<open>A branch name is accepted iff it is not empty and made of letters, digits and the four characters.\<close>

lemma validateBranchName_iff: "validateBranchName b = Inr () \<longleftrightarrow> b \<noteq> [] \<and> inClass branchClass b"
proof -
  have "list_all (\<lambda>(a, b). b < 128) branchClass" by (simp add: branchClass_def alnumClass_def)
  from runeVals_class [OF this, of b] show ?thesis
    by (simp only: validateBranchName_def branchPattern_def MatchString_anchored branchClass_def ends_plus_class_Eol runeVals_Nil_iff) simp
qed

text \<open>The names the code makes are therefore always accepted: the error branch is dead code.\<close>

lemma ends_repoPart:
  assumes "i \<le> length t"
  shows "j \<in> set (ends t repoPart i) \<longleftrightarrow>
    i < j \<and> j \<le> length t \<and> inRanges alnumClass (t ! i) \<and> (\<forall>k. i < k \<and> k < j \<longrightarrow> inRanges nameClass (t ! k))"
proof (cases "i < length t \<and> inRanges alnumClass (t ! i)")
  case True
  then show ?thesis by (auto simp: repoPart_def ends_star_class Suc_le_eq simp del: ends.simps(6))
next
  case False
  then show ?thesis by (auto simp: repoPart_def)
qed

lemma ends_repoPattern:
  "ends t (Cat repoPart (Cat (lit ''/'') (Cat repoPart Eol))) 0 \<noteq> [] \<longleftrightarrow>
     (\<exists>k. k \<in> set (ends t repoPart 0) \<and> k < length t \<and> t ! k = 47 \<and> length t \<in> set (ends t repoPart (Suc k)))"
  by (auto simp: inRanges_def split: if_splits)

definition repoName :: "string \<Rightarrow> bool" where
  "repoName p \<longleftrightarrow> p \<noteq> [] \<and> inRanges alnumClass (of_char (hd p)) \<and> inClass nameClass p"

lemma nameClass_alnum: "inRanges alnumClass n \<Longrightarrow> inRanges nameClass n"
  by (simp add: nameClass_def inRanges_def)

lemma repoName_nth:
  "repoName p \<longleftrightarrow> p \<noteq> [] \<and> inRanges alnumClass (of_char (p ! 0)) \<and> (\<forall>k. 0 < k \<and> k < length p \<longrightarrow> inRanges nameClass (of_char (p ! k)))"
proof (cases p)
  case (Cons c cs)
  have "(\<forall>k. 0 < k \<and> k < length p \<longrightarrow> inRanges nameClass (of_char (p ! k))) \<longleftrightarrow> inClass nameClass cs"
    unfolding Cons inClass_def all_set_conv_all_nth by (auto simp: gr0_conv_Suc)
  then show ?thesis using nameClass_alnum by (auto simp: Cons repoName_def inClass_def)
qed (simp add: repoName_def)

lemma nameClass_low: "list_all (\<lambda>(a, b). b < 128) nameClass"
  by (simp add: nameClass_def alnumClass_def)

lemma repoPattern_sound:
  assumes "MatchString repoPattern s"
  shows "\<exists>a b. s = a @ CHR ''/'' # b \<and> repoName a \<and> repoName b"
proof -
  let ?t = "runeVals s"
  from assms obtain k where k: "k \<in> set (ends ?t repoPart 0)" "k < length ?t" "?t ! k = 47" "length ?t \<in> set (ends ?t repoPart (Suc k))"
    unfolding repoPattern_def MatchString_anchored ends_repoPattern by blast
  from k(1) have p1: "0 < k" "inRanges alnumClass (?t ! 0)" "\<And>m. 0 < m \<Longrightarrow> m < k \<Longrightarrow> inRanges nameClass (?t ! m)"
    by (auto simp: ends_repoPart)
  from k(2,4) have p2: "Suc k < length ?t" "inRanges alnumClass (?t ! Suc k)"
    "\<And>m. Suc k < m \<Longrightarrow> m < length ?t \<Longrightarrow> inRanges nameClass (?t ! m)"
    by (auto simp: ends_repoPart)
  have "?t ! m < 128" if m: "m < length ?t" for m
  proof (cases "m = k")
    case False
    have "inRanges nameClass (?t ! m)"
    proof (cases "m = 0 \<or> m = Suc k")
      case True
      then show ?thesis using p1(2) p2(2) nameClass_alnum by auto
    next
      case False
      then show ?thesis using p1(3) [of m] p2(3) [of m] m \<open>m \<noteq> k\<close> by linarith
    qed
    then show ?thesis by (rule inRanges_low [OF nameClass_low])
  qed (use k(3) in simp)
  then have t: "?t = map of_char s" by (intro runeVals_low) (auto simp: in_set_conv_nth)
  then have l: "length ?t = length s" by simp
  have nth: "?t ! m = of_char (s ! m)" if "m < length s" for m using that by (simp add: t)
  have "s ! k = CHR ''/''"
  proof -
    have "(of_char (s ! k) :: nat) = of_char (CHR ''/'')" using k(2,3) nth [of k] l by simp
    then show ?thesis by (simp only: of_char_eq_iff)
  qed
  then have "s = take k s @ CHR ''/'' # drop (Suc k) s" using id_take_nth_drop [of k s] k(2) l by simp
  moreover have "0 < length s" using p1(1) k(2) l by linarith
  then have "inRanges alnumClass (of_char (s ! 0))" using nth [of 0] p1(2) by metis
  then have "repoName (take k s)"
    unfolding repoName_nth using p1 k(2) nth by (auto simp: l)
  moreover have "repoName (drop (Suc k) s)"
    unfolding repoName_nth using p2 l nth by auto
  ultimately show ?thesis by blast
qed

lemma repoPattern_complete:
  assumes s: "s = a @ CHR ''/'' # b" and a: "repoName a" and b: "repoName b"
  shows "MatchString repoPattern s"
proof -
  let ?t = "map of_char s :: nat list"
  have t: "runeVals s = ?t"
    using a b inRanges_low [OF nameClass_low] by (intro runeVals_ascii) (auto simp: s repoName_def inClass_def)
  have "length a \<in> set (ends ?t repoPart 0)"
    using a by (auto simp: ends_repoPart repoName_nth s nth_append)
  moreover have "?t ! k = of_char (b ! (k - Suc (length a)))" if "length a < k" "k < length s" for k
    using that by (simp add: s nth_append nth_Cons')
  then have "length ?t \<in> set (ends ?t repoPart (Suc (length a)))"
    using b by (auto simp: ends_repoPart repoName_nth s simp del: nth_map)
  moreover have "length a < length ?t" "?t ! length a = 47" by (simp_all add: s nth_append)
  ultimately show ?thesis
    unfolding repoPattern_def MatchString_anchored t ends_repoPattern by blast
qed

lemma nameClass_no_slash: "inClass nameClass p \<Longrightarrow> CHR ''/'' \<notin> set p"
  by (auto simp: inClass_def nameClass_def alnumClass_def inRanges_def)

definition cleanEdges :: "string \<Rightarrow> bool" where
  "cleanEdges p \<longleftrightarrow> last p \<noteq> CHR ''-'' \<and> last p \<noteq> CHR ''.''"

lemma repoName_edges:
  assumes "repoName p"
  shows "(HasPrefix p ''-'' \<or> HasPrefix p ''.'' \<or> HasSuffix p ''-'' \<or> HasSuffix p ''.'') \<longleftrightarrow> \<not> cleanEdges p"
proof -
  have n: "p \<noteq> []" and h: "inRanges alnumClass (of_char (hd p))" using assms by (simp_all add: repoName_def)
  then have "\<not> HasPrefix p ''-''" "\<not> HasPrefix p ''.''"
    by (cases p; auto simp: HasPrefix_def inRanges_def alnumClass_def)+
  moreover have "HasSuffix p [c] \<longleftrightarrow> last p = c" for c
    using n by (cases p rule: rev_cases) (auto simp: HasSuffix_def)
  ultimately show ?thesis by (auto simp: cleanEdges_def)
qed

text \<open>
  A repository name is accepted exactly when it is an owner and a name separated by one slash, each made of letters, digits, dots, underscores and dashes,
  beginning with a letter or digit and not ending in a dash or dot, without two dots in a row and at most 200 bytes long in all. It
  then has no character with a meaning to the shell, a URL or a path beyond that slash.
\<close>

theorem repository_name_check_is_exact:
  "validateRepoName repo = Inr () \<longleftrightarrow>
     length repo \<le> 200 \<and> \<not> Contains repo ''..''
     \<and> (\<exists>owner name. repo = owner @ ''/'' @ name \<and> repoName owner \<and> repoName name \<and> cleanEdges owner \<and> cleanEdges name)"
proof (cases "MatchString repoPattern repo")
  case True
  from repoPattern_sound [OF this] obtain a b where r: "repo = a @ CHR ''/'' # b" "repoName a" "repoName b" by blast
  then have free: "CHR ''/'' \<notin> set a" "CHR ''/'' \<notin> set b" using nameClass_no_slash by (auto simp: repoName_def)
  then have s: "Split repo (CHR ''/'') = [a, b]" by (simp add: r(1) Split_append_sep Split_no_sep_single)
  have u: "owner = a \<and> name = b" if "repo = owner @ ''/'' @ name" "repoName owner" for owner name
    using that r(1) append_Cons_eq_iff [OF free, of owner name] by simp
  have "validateRepoName repo = Inr () \<longleftrightarrow> length repo \<le> 200 \<and> \<not> Contains repo ''..'' \<and> cleanEdges a \<and> cleanEdges b"
    using True repoName_edges [OF r(2)] repoName_edges [OF r(3)] by (simp add: validateRepoName_def s Let_def)
  also have "cleanEdges a \<and> cleanEdges b \<longleftrightarrow>
      (\<exists>owner name. repo = owner @ ''/'' @ name \<and> repoName owner \<and> repoName name \<and> cleanEdges owner \<and> cleanEdges name)"
    using u r by auto
  finally show ?thesis by blast
next
  case False
  then have "\<not> (\<exists>owner name. repo = owner @ ''/'' @ name \<and> repoName owner \<and> repoName name)"
    using repoPattern_complete by auto
  with False show ?thesis by (auto simp: validateRepoName_def Let_def)
qed

section \<open>What a run leaves behind\<close>

text \<open>A call that makes no later statement fail.\<close>

definition calm :: "(db \<Rightarrow> 'a \<times> db) \<Rightarrow> bool" where
  "calm m \<longleftrightarrow> (\<forall>d. faults d = [] \<longrightarrow> faults (snd (m d)) = [])"

lemma timeNow_faults [simp]: "faults (snd (timeNow d)) = faults d"
  by (simp add: timeNow_def split: list.split)

lemma newID_faults [simp]: "faults (snd (newID d)) = faults d"
  by (simp add: newID_def timeNow_def Let_def split: list.split)

lemma updateSessions_faults [simp]: "faults (updateSessions P f d) = faults d"
  by (simp add: updateSessions_def)

lemma calm_calls [simp]:
  "calm timeNow" "calm (UpdateSessionResult a st b c e)" "calm (UpdateSessionPlatformThreadID a tid)" "calm (GetClarification a)"
  "calm (UpdateClarificationStatus a cs)" "calm (GetSessionByID a)"
  by (simp_all add: calm_def UpdateSessionResult_def UpdateSessionPlatformThreadID_def GetClarification_def
      UpdateClarificationStatus_def GetSessionByID_def Let_def split_def)

lemma calm_CreateSession [simp]: "calm (CreateSession s)"
  by (simp add: calm_def CreateSession_def Let_def split_def insertSession_def split: option.split)

lemma calm_ResultIfNotTerminal [simp]: "calm (UpdateSessionResultIfNotTerminal a st b c e)"
  by (simp add: calm_def UpdateSessionResultIfNotTerminal_def execCount_def Let_def split_def)

lemma calm_CreateClarification [simp]: "calm (CreateClarification a q)"
  by (auto simp: calm_def CreateClarification_def withTx_def queryOne_def insertClarification_def restoreTables_def Let_def split_def
      split: option.split sum.split)

definition quiet :: "Run \<Rightarrow> bool" where
  "quiet st \<longleftrightarrow> faults (o_db (rn_o st)) = []"

lemma run_parts [simp]:
  "calm m \<Longrightarrow> quiet st \<Longrightarrow> quiet (snd (onRun m st))" "o_registry (rn_o (snd (onRun m st))) = o_registry (rn_o st)"
  "quiet (snd (logFn req m2 st)) = quiet st" "rn_o (snd (logFn req m2 st)) = rn_o st"
  "quiet (relayDo f st) = quiet st" "rn_o (relayDo f st) = rn_o st"
  "quiet (killContainer c st) = quiet st" "o_registry (rn_o (killContainer c st)) = o_registry (rn_o st)"
  "quiet (deregister c st) = quiet st" "o_registry (rn_o (mapDb g st)) = o_registry (rn_o st)"
  "db_sessions (o_db (rn_o (deregister c st))) = db_sessions (o_db (rn_o st))"
  by (simp_all add: quiet_def calm_def onRun_def logFn_def relayDo_def killContainer_def deregister_def mapDb_def Let_def split_def)

lemma run_updates [simp]:
  "quiet (st\<lparr>rn_out := a\<rparr>) = quiet st" "quiet (st\<lparr>rn_line := b\<rparr>) = quiet st" "quiet (st\<lparr>rn_lastLog := c\<rparr>) = quiet st"
  "quiet (st\<lparr>rn_rolling := e\<rparr>) = quiet st" "quiet (st\<lparr>rn_timer := f\<rparr>) = quiet st" "quiet (st\<lparr>rn_lastOutput := g\<rparr>) = quiet st"
  "quiet (st\<lparr>rn_pending := h\<rparr>) = quiet st" "quiet (st\<lparr>rn_count := i\<rparr>) = quiet st" "quiet (st\<lparr>rn_stdin := j\<rparr>) = quiet st"
  "quiet (st\<lparr>rn_readerDone := k\<rparr>) = quiet st" "quiet (st\<lparr>rn_stall := l\<rparr>) = quiet st" "quiet (st\<lparr>rn_relay := m\<rparr>) = quiet st"
  by (simp_all add: quiet_def)

text \<open>The steps of a run keep the registry, and the statements succeeding.\<close>

definition steady :: "Run \<Rightarrow> Run \<Rightarrow> bool" where
  "steady st st' \<longleftrightarrow> (quiet st \<longrightarrow> quiet st') \<and> o_registry (rn_o st') = o_registry (rn_o st)"

lemma steady_readChunk: "steady st (readChunk i req c st)"
  by (simp add: steady_def readChunk_def throttledLog_def Let_def split_def split: option.split)

lemma steady_raiseQuestion: "steady st (raiseQuestion req s q st)"
proof -
  obtain r st3 where c: "onRun (CreateClarification (s_ID s) q) st = (r, st3)" by fastforce
  then have "quiet st \<Longrightarrow> quiet st3" "o_registry (rn_o st3) = o_registry (rn_o st)"
    using run_parts(1,2) [of "CreateClarification (s_ID s) q" st] by simp_all
  then show ?thesis unfolding raiseQuestion_def c by (cases r) (simp_all add: steady_def Let_def split_def)
qed

lemma steady_stallTick: "steady st (stallTick dk req s st)"
proof -
  have q: "quiet st \<Longrightarrow> quiet (raiseQuestion req s x (snd (onRun timeNow st)\<lparr>rn_pending := True, rn_count := n\<rparr>))"
    "o_registry (rn_o (raiseQuestion req s x (snd (onRun timeNow st)\<lparr>rn_pending := True, rn_count := n\<rparr>))) = o_registry (rn_o st)" for x n
    using steady_raiseQuestion [of "snd (onRun timeNow st)\<lparr>rn_pending := True, rn_count := n\<rparr>" req s x] by (simp_all add: steady_def)
  show ?thesis by (simp add: steady_def stallTick_def Let_def split_def q)
qed

lemma warnOnce_parts [simp]: "quiet (snd (warnOnce req n t w st)) = quiet st" "rn_o (snd (warnOnce req n t w st)) = rn_o st"
  by (simp_all add: warnOnce_def)

lemma steady_awaitTick: "steady st (snd (snd (awaitTick req c a b w st)))"
  by (auto simp: steady_def awaitTick_def Let_def split_def split: sum.split option.split)

lemma steady_refl: "steady st st"
  by (simp add: steady_def)

lemma steady_trans: "steady a b \<Longrightarrow> steady b c \<Longrightarrow> steady a c"
  by (simp add: steady_def)

lemma steady_answerTick: "steady st (answerTick req c st)"
proof (cases "rn_stall st")
  case (Awaiting cid a b w)
  obtain r s st1 where t: "awaitTick req cid a b w st = (r, s, st1)" by (metis prod_cases3)
  with steady_awaitTick [of st req cid a b w] have "steady st st1" by simp
  moreover have "steady st1 (answerTick req c st)"
    unfolding answerTick_def Awaiting stallPhase.case t prod.case
    by (auto simp: steady_def Let_def split_def split: option.split bool.split)
  ultimately show ?thesis by (rule steady_trans)
qed (simp_all add: answerTick_def steady_def)

definition calmEvent :: "runEvent \<Rightarrow> bool" where
  "calmEvent ev = (case ev of OtherDb f \<Rightarrow> \<forall>d. faults d = [] \<longrightarrow> faults (f d) = [] | _ \<Rightarrow> True)"

lemma steady_runStep:
  assumes "runStep dk i req s c ev st = Ret st'" "calmEvent ev"
  shows "steady st st'"
proof (cases ev)
  case LimitTick
  then show ?thesis using assms
    by (auto simp: runStep_def limitTick_def Let_def split_def steady_def split: go.splits if_splits)
next
  case (OtherDb f)
  then show ?thesis using assms by (auto simp: runStep_def calmEvent_def steady_def quiet_def mapDb_def)
qed (use assms steady_readChunk steady_stallTick steady_answerTick in
  \<open>auto simp: runStep_def steady_def split: if_splits stallPhase.splits\<close>)

lemma steady_runLoop:
  "runLoop (runStep dk i req s c) es st = Some (Ret st') \<Longrightarrow> list_all calmEvent es \<Longrightarrow> steady st st'"
proof (induction es arbitrary: st)
  case (Cons e es)
  then show ?case by (auto simp: steady_refl split: if_splits go.splits intro: steady_trans [OF steady_runStep])
qed (simp add: steady_def split: if_splits)

lemma steady_waitLoop:
  "waitLoop (runStep dk i req s c) es st = Ret st' \<Longrightarrow> list_all calmEvent es \<Longrightarrow> steady st st'"
proof (induction es arbitrary: st)
  case (Cons e es)
  then show ?case by (auto split: go.splits intro: steady_trans [OF steady_runStep])
qed (simp add: steady_def)

text \<open>The other users of the database make no statement of the run fail.\<close>

definition calmDocker :: "Docker \<Rightarrow> bool" where
  "calmDocker dk \<longleftrightarrow> list_all calmEvent (dk_events dk) \<and> list_all calmEvent (dk_waitEvents dk)
     \<and> calmEvent (OtherDb (dk_before dk)) \<and> calmEvent (OtherDb (dk_between dk))"

definition allAt :: "(SessionStatus \<Rightarrow> bool) \<Rightarrow> string \<Rightarrow> Run \<Rightarrow> bool" where
  "allAt P sid st \<longleftrightarrow> (\<forall>s \<in> set (db_sessions (o_db (rn_o st))). s_ID s = sid \<longrightarrow> P (s_Status s))"

lemma allAt_parts [simp]:
  "allAt P sid (snd (logFn req m st)) = allAt P sid st" "allAt P sid (relayDo f st) = allAt P sid st"
  "allAt P sid (deregister c st) = allAt P sid st" "allAt P sid (st\<lparr>rn_timer := t\<rparr>) = allAt P sid st"
  by (simp_all add: allAt_def)

lemma allAt_update:
  assumes "db_sessions (o_db (rn_o st)) = updateRows hit f rs"
    and "\<And>s. hit s \<Longrightarrow> P (s_Status (f s))" "\<And>s. s_ID s = sid \<Longrightarrow> \<not> hit s \<Longrightarrow> P (s_Status s)"
  shows "allAt P sid st"
  unfolding allAt_def assms(1) using assms(2,3) by (auto simp: updateRows_def)

lemma failRun_fails:
  assumes "quiet st"
  shows "allAt (\<lambda>x. x = SessionError) sid (failRun req sid e m st)"
proof -
  let ?st = "relayDo (PushStatus ''error'') st"
  obtain n d where t: "timeNow (o_db (rn_o st)) = (n, d)" by (cases "timeNow (o_db (rn_o st))")
  have f: "faults d = []" using assms timeNow_other [OF t] by (simp add: quiet_def)
  have "db_sessions (o_db (rn_o (snd (onRun (UpdateSessionResult sid SessionError (Some e) None None) ?st))))
      = updateRows (\<lambda>s. s_ID s = sid) (setResult SessionError (Some e) None None n) (db_sessions d)"
    by (simp add: onRun_def UpdateSessionResult_def t f updateSessions_def)
  then have "allAt (\<lambda>x. x = SessionError) sid (snd (onRun (UpdateSessionResult sid SessionError (Some e) None None) ?st))"
    by (rule allAt_update) simp_all
  then show ?thesis by (simp add: failRun_def)
qed

lemma ResultIfNotTerminal_closes:
  assumes "quiet st" "closedStatus x"
  shows "allAt closedStatus sid (snd (onRun (UpdateSessionResultIfNotTerminal sid x a b c) st))"
proof -
  let ?d = "o_db (rn_o st)"
  have "faults ?d = []" using assms(1) by (simp add: quiet_def)
  from ResultIfNotTerminal_no_faults [OF this] obtain u d'
    where u: "UpdateSessionResultIfNotTerminal sid x a b c ?d = (Inr u, d')" by blast
  from this show ?thesis
  proof (cases rule: ResultIfNotTerminal_effect)
    case ran
    then have "db_sessions (o_db (rn_o (snd (onRun (UpdateSessionResultIfNotTerminal sid x a b c) st))))
      = updateRows (\<lambda>s. s_ID s = sid \<and> \<not> closedStatus (s_Status s)) (setResult x a b c (clock d')) (db_sessions ?d)"
      by (simp add: onRun_def u)
    then show ?thesis by (rule allAt_update) (use assms(2) in auto)
  qed simp
qed

lemma closed_ends [simp]: "closedStatus SessionDone" "closedStatus SessionError" "closedStatus SessionCancelled"
  by (simp_all add: closedStatus_def)

lemma finishSession_settles:
  assumes "quiet st" "calmDocker dk"
  shows "allAt closedStatus sid (finishSession dk req sid b x st)"
proof -
  let ?st = "mapDb (dk_between dk) (snd (onRun (GetSessionByID sid) st))"
  have "quiet ?st" using assms by (auto simp: quiet_def calmDocker_def calmEvent_def mapDb_def onRun_def Let_def split_def GetSessionByID_def)
  note ends = ResultIfNotTerminal_closes [OF this]
  show ?thesis unfolding finishSession_def Let_def split_def by (auto simp: ends)
qed

lemma failRun_steady: "steady st (failRun req sid e m st)"
  by (simp add: steady_def failRun_def)

lemma finishSession_registry: "o_registry (rn_o (finishSession dk req sid b x st)) = o_registry (rn_o st)"
  unfolding finishSession_def Let_def split_def by auto

lemma Close_Relay_closed [simp]: "rc_closed (Close_Relay rc)"
  by (auto simp: Close_Relay_def closeTake_def closeFinish_def endSessionHTTP_def Let_def)

lemma steady_handlers:
  assumes "calmDocker dk"
  shows "handleInteractiveContainer dk req s c st = Some (Ret st') \<Longrightarrow> steady st st'"
    and "handleNonInteractiveContainer dk req s c st = Some (Ret st') \<Longrightarrow> steady st st'"
  using assms
  by (auto simp: handleInteractiveContainer_def handleNonInteractiveContainer_def calmDocker_def Let_def split_def steady_def
      split: sum.splits dest!: steady_runLoop)

text \<open>How a run that made a session ends: nothing is added to the registry, the stream is closed and the session is decided.\<close>

definition concluded :: "SessionRegistry \<Rightarrow> string \<Rightarrow> unit result \<Rightarrow> Run \<Rightarrow> bool" where
  "concluded reg sid r st \<longleftrightarrow> set (o_registry (rn_o st)) \<subseteq> set reg \<and> rc_closed (rn_relay st)
     \<and> allAt (case r of Inl _ \<Rightarrow> (\<lambda>x. x = SessionError) | Inr _ \<Rightarrow> closedStatus) sid st"

lemma deregister_registry:
  "o_registry (rn_o st) = Register sid c reg \<Longrightarrow> set (o_registry (rn_o (deregister sid st))) \<subseteq> set reg"
  by (simp add: deregister_def Register_def Deregister_def AList.delete_update_same) (auto simp: AList.delete_eq)

lemma concluded_close:
  "o_registry (rn_o st) = Register sid c reg \<Longrightarrow>
   concluded reg sid r (relayDo Close_Relay (deregister sid st)) \<longleftrightarrow>
     allAt (case r of Inl _ \<Rightarrow> (\<lambda>x. x = SessionError) | Inr _ \<Rightarrow> closedStatus) sid st"
  using deregister_registry [of st sid c reg] by (simp add: concluded_def) (simp add: relayDo_def)

lemma runContainer_concludes:
  assumes "runContainer dk req s b c st = Some (Ret (r, st'))" "quiet st" "calmDocker dk"
  shows "concluded (o_registry (rn_o st)) (s_ID s) r st'"
proof (cases "dk_start dk c")
  case (Inl e)
  define st1 where "st1 = st\<lparr>rn_o := (rn_o st)\<lparr>o_registry := Register (s_ID s) c (o_registry (rn_o st))\<rparr>\<rparr>"
  have "quiet st1" using assms(2) by (simp add: st1_def quiet_def)
  moreover have "o_registry (rn_o (failRun req (s_ID s) e m st1)) = Register (s_ID s) c (o_registry (rn_o st))" for m
    using failRun_steady [of st1] by (simp add: steady_def st1_def)
  ultimately show ?thesis using assms(1) Inl
    by (auto simp: runContainer_def Let_def st1_def [symmetric] failRun_fails concluded_close)
next
  case (Inr u)
  define st1 where "st1 = st\<lparr>rn_o := (rn_o st)\<lparr>o_registry := Register (s_ID s) c (o_registry (rn_o st))\<rparr>\<rparr>"
  define st3 where "st3 = snd (onRun timeNow (snd (onRun timeNow st1)))"
  define st4 where "st4 = st3\<lparr>rn_out := newOutputBuffer maxOutput, rn_line := [], rn_lastLog := fst (onRun timeNow st1),
    rn_rolling := NewRollingBuffer rollingBufferLines, rn_timer := NewContainerTimer (fst (onRun timeNow (snd (onRun timeNow st1)))) containerTimeoutMs,
    rn_readerDone := False\<rparr>"
  define i where "i \<longleftrightarrow> wr_Provider req \<in> set interactiveProviders"
  have "quiet st1" using assms(2) by (simp add: st1_def quiet_def)
  then have q4: "quiet st4" by (simp add: st4_def st3_def)
  obtain st5 st6 where h: "(if i then handleInteractiveContainer dk req s c st4 else handleNonInteractiveContainer dk req s c st4) = Some (Ret st5)"
    and w: "waitLoop (runStep dk i req s c) (dk_waitEvents dk) (st5\<lparr>rn_readerDone := True, rn_stall := StallReturned\<rparr>) = Ret st6"
    and r: "(case dk_wait dk c of
        Inl e \<Rightarrow> r = Inl (''container wait: '' @ e) \<and>
          (let st7 = failRun req (s_ID s) e ''Container wait error. Check server logs for details.'' st6
           in st' = relayDo Close_Relay (deregister (s_ID s) (st7\<lparr>rn_timer := timerCancel (rn_timer st7)\<rparr>)))
      | Inr x \<Rightarrow> r = Inr () \<and>
          (let st8 = finishSession dk req (s_ID s) b x (st6\<lparr>rn_timer := timerCancel (rn_timer st6)\<rparr>)
           in st' = relayDo Close_Relay (deregister (s_ID s) (st8\<lparr>rn_timer := timerCancel (rn_timer st8)\<rparr>))))"
    using assms(1) Inr unfolding runContainer_def Let_def split_def st4_def st3_def st1_def i_def
    by (auto split: option.splits go.splits sum.splits)
  have "steady st4 st5" using h steady_handlers [OF assms(3)] by (auto split: if_splits)
  with q4 have "quiet st5" by (simp add: steady_def)
  moreover have "steady (st5\<lparr>rn_readerDone := True, rn_stall := StallReturned\<rparr>) st6"
    using steady_waitLoop [OF w] assms(3) by (simp add: calmDocker_def)
  ultimately have q6: "quiet st6" by (simp add: steady_def)
  have g: "o_registry (rn_o st6) = Register (s_ID s) c (o_registry (rn_o st))"
    using \<open>steady st4 st5\<close> \<open>steady _ st6\<close> by (simp add: steady_def st4_def st3_def st1_def)
  have "o_registry (rn_o (failRun req (s_ID s) e m st6)) = Register (s_ID s) c (o_registry (rn_o st))" for e m
    using failRun_steady [of st6] g by (simp add: steady_def)
  then show ?thesis
    using r g failRun_fails [OF q6] finishSession_settles [OF _ assms(3), of "st6\<lparr>rn_timer := timerCancel (rn_timer st6)\<rparr>"] q6
    by (auto simp: Let_def concluded_close finishSession_registry split: sum.splits)
qed

lemma CreateSession_outcome:
  assumes "CreateSession s d = (r, d')"
  shows "case r of
      Inl e \<Rightarrow> db_sessions d' = db_sessions d
    | Inr row \<Rightarrow> s_ID row \<notin> s_ID ` set (db_sessions d) \<and> db_sessions d' = db_sessions d @ [row]
        \<and> s_Task row = s_Task s \<and> s_AgentID row = s_AgentID s"
proof -
  obtain sid d1 where i: "(if s_ID s = [] then newID d else (s_ID s, d)) = (sid, d1)" by fastforce
  then have t1: "db_sessions d1 = db_sessions d" by (auto split: if_splits dest: newID_tables tables_eqD)
  obtain now d2 where t: "timeNow d1 = (now, d2)" by fastforce
  then have t2: "db_sessions d2 = db_sessions d" using t1 timeNow_tables tables_eqD(2) by metis
  let ?row = "s\<lparr>s_ID := sid, s_CreatedAt := now, s_UpdatedAt := now\<rparr>"
  obtain x d3 where x: "execChecked ''create session'' (insertSessionError ?row) (insertSession ?row) d2 = (x, d3)" by fastforce
  have same: "db_sessions d0 = db_sessions d2" if "statement d2 = (f, d0)" for f d0
    using statement_tables [OF that] by (rule tables_eqD(2))
  have "case x of Inl e \<Rightarrow> db_sessions d3 = db_sessions d
      | Inr _ \<Rightarrow> sid \<notin> s_ID ` set (db_sessions d) \<and> db_sessions d3 = db_sessions d @ [?row]"
    using x by (auto simp: execChecked_def insertSession_def insertSessionError_def list_ex_iff t2 same
        split: prod.splits option.splits sum.splits if_splits)
  then show ?thesis using assms unfolding CreateSession_def i t Let_def prod.case x by (auto split: sum.splits)
qed


lemma GenerateID_class: "inClass branchClass (GenerateID t r)"
proof -
  have "inRanges branchClass (of_char c)" if "idChar c" for c
    using that by (auto simp: idChar_def Let_def inRanges_def branchClass_def alnumClass_def)
  moreover have "idChar (asciiLower c)" if "c \<in> set (take 25 (EncodeToString (timestampBytes t @ r)))" for c
    using that set_encodeGroups alphabet_chars unfolding EncodeToString_def by (metis in_set_takeD subsetD)
  ultimately show ?thesis by (auto simp: inClass_def GenerateID_def)
qed

text \<open>The names the code makes are always accepted: the error branch is dead code.\<close>

lemma generated_branch_is_valid: "validateBranchName (''shipmates/'' @ GenerateID t r) = Inr ()"
  using GenerateID_class [of t r]
  by (simp add: validateBranchName_iff inClass_def) (simp add: branchClass_def alnumClass_def inRanges_def)

definition sampleRequest :: WorkRequest where
  "sampleRequest = \<lparr>wr_UserID = ''u'', wr_AgentID = ''a'', wr_Task = ''Fix it: now'', wr_Repo = ''acme/app'', wr_Provider = ''openai'', wr_APIKey = ''k'',
     wr_GithubToken = ''t'', wr_AgentScope = None, wr_BaseURL = [], wr_ModelID = [], wr_PlatformUserID = [], wr_Mode = [], wr_LogFn = None\<rparr>"

definition sampleDocker :: Docker where
  "sampleDocker = \<lparr>dk_create = (\<lambda>_ _. Inr ''c1''), dk_start = (\<lambda>_. Inr ()), dk_open = (\<lambda>_. Inr ()), dk_wait = (\<lambda>_. Inr 0), dk_dial = (\<lambda>_ _. Some []),
     dk_lower = id, dk_before = id, dk_events = [GotChunk ''hi'', GotEnd], dk_waitEvents = [], dk_between = id\<rparr>"

definition sampleOrchestrator :: OrchestratorState where
  "sampleOrchestrator = \<lparr>o_db = sessionDb [], o_registry = [], o_relayURL = ''http://r'', o_relaySecret = ''s'', o_kills = []\<rparr>"

lemma sample_texts:
  "validateRepoName ''acme/app'' = Inr ()" "SanitizeOutput ''hi'' = ''hi''" "SanitizeTask ''Fix it: now'' = ''Fix it now''"
  by code_simp+

lemma run_frame [simp]:
  "rn_readerDone (snd (onRun m st)) = rn_readerDone st" "rn_stall (snd (onRun m st)) = rn_stall st"
  "rn_readerDone (snd (logFn req x st)) = rn_readerDone st" "rn_stall (snd (logFn req x st)) = rn_stall st"
  "rn_readerDone (relayDo f st) = rn_readerDone st" "rn_stall (relayDo f st) = rn_stall st"
  by (simp_all add: onRun_def logFn_def relayDo_def Let_def split_def)

lemma readChunk_frame [simp]:
  "rn_readerDone (readChunk i req t st) = rn_readerDone st" "rn_stall (readChunk i req t st) = rn_stall st"
  by (simp_all add: readChunk_def throttledLog_def Let_def split_def split: option.split)

lemma plain_run_returns:
  assumes "dk_start dk c = Inr ()" "dk_open dk c = Inr ()" "wr_Provider req \<notin> set interactiveProviders" "dk_wait dk c = Inr x"
    and "dk_events dk = [GotChunk t, GotEnd]" "dk_waitEvents dk = []"
  shows "\<exists>st'. runContainer dk req s b c st = Some (Ret (Inr (), st'))"
  using assms by (simp add: runContainer_def handleNonInteractiveContainer_def runStep_def handlerDone_def Let_def split_def)

lemma sample_container_run: "\<exists>st. ExecuteInContainer sampleDocker sampleRequest sampleOrchestrator = Some (Ret (Inr (), st))"
proof -
  have r: "\<exists>st'. runContainer sampleDocker sampleRequest s b ''c1'' st = Some (Ret (Inr (), st'))" for s b st
    by (rule plain_run_returns) (simp_all add: sampleDocker_def sampleRequest_def interactiveProviders_def)
  obtain now st1 where t: "onRun timeNow (idleRun sampleOrchestrator) = (now, st1)" by fastforce
  then have st1: "rn_o st1 = sampleOrchestrator"
    by (auto simp: onRun_def timeNow_def idleRun_def sampleOrchestrator_def sessionDb_def)
  have "\<exists>s d. CreateSession (containerSession sampleRequest now) (sessionDb []) = (Inr s, d) \<and> s_ID s = GenerateID 1000 (replicate 10 1)"
    by (simp add: CreateSession_def containerSession_def newID_def timeNow_def sessionDb_def insertSessionError_def sampleRequest_def Let_def)
  then obtain s st2 where c: "onRun (CreateSession (containerSession sampleRequest now)) st1 = (Inr s, st2)"
    and s: "s_ID s = GenerateID 1000 (replicate 10 1)"
    by (auto simp: onRun_def st1 sampleOrchestrator_def)
  have p: "wr_Repo sampleRequest = ''acme/app''" "wr_Provider sampleRequest = ''openai''" "dk_create sampleDocker = (\<lambda>_ _. Inr ''c1'')"
    by (simp_all add: sampleRequest_def sampleDocker_def)
  show ?thesis
    unfolding ExecuteInContainer_def Let_def t prod.case c p sample_texts(1) sum.case s generated_branch_is_valid
    using r by (simp add: chatOnlyProviders_def providerImageMap_def)
qed


section \<open>Questions\<close>

text \<open>The lines an agent is given as answers: each a single line of at most 2000 bytes.\<close>

definition singleLine :: "string \<Rightarrow> bool" where
  "singleLine l \<longleftrightarrow> (\<exists>a. l = a @ [newline] \<and> newline \<notin> set a \<and> length a \<le> 2000)"

lemma answerText_line: "newline \<notin> set (answerText a)" "length (answerText a) \<le> 2000"
proof -
  let ?a = "ReplaceByte (replaceCRLF a) newline (CHR '' '')"
  have "newline \<notin> set ?a" by (auto simp: ReplaceByte_def newline_def)
  moreover have "set (ReplaceAllString controlPattern [] ?a) \<subseteq> set ?a"
  proof
    fix c
    assume "c \<in> set (ReplaceAllString controlPattern [] ?a)"
    then have "c \<in> set (concat (runesOf ?a))"
      by (auto simp: controlPattern_def ReplaceAllString_class simp del: concat_runesOf split: if_splits)
    then show "c \<in> set ?a" by (simp only: concat_runesOf)
  qed
  ultimately have n: "newline \<notin> set (ReplaceAllString controlPattern [] ?a)" by blast
  then show "newline \<notin> set (answerText a)" unfolding answerText_def Let_def by (auto dest: in_set_takeD)
  show "length (answerText a) \<le> 2000" by (simp add: answerText_def Let_def)
qed

definition askOk :: "Run \<Rightarrow> bool" where
  "askOk st \<longleftrightarrow> rn_count st \<le> maxClarificationsPerSession \<and> length (rn_stdin st) \<le> rn_count st
     \<and> (\<forall>l \<in> set (rn_stdin st). singleLine l)
     \<and> (rn_pending st \<longrightarrow> length (rn_stdin st) < rn_count st)
     \<and> (ct_deadline (rn_timer st) \<noteq> None \<longrightarrow> ct_timer (rn_timer st)) \<and> \<not> ct_cancelled (rn_timer st)
     \<and> (case rn_stall st of
          Watching \<Rightarrow> \<not> rn_pending st
        | Awaiting _ _ _ _ \<Rightarrow> rn_pending st \<and> ct_deadline (rn_timer st) = None
        | StallReturned \<Rightarrow> True)"

lemma ask_frame [simp]:
  "rn_count (snd (onRun m st)) = rn_count st" "rn_stdin (snd (onRun m st)) = rn_stdin st" "rn_pending (snd (onRun m st)) = rn_pending st"
  "rn_timer (snd (onRun m st)) = rn_timer st"
  "rn_count (snd (logFn req x st)) = rn_count st" "rn_stdin (snd (logFn req x st)) = rn_stdin st" "rn_pending (snd (logFn req x st)) = rn_pending st"
  "rn_timer (snd (logFn req x st)) = rn_timer st"
  "rn_count (relayDo f st) = rn_count st" "rn_stdin (relayDo f st) = rn_stdin st" "rn_pending (relayDo f st) = rn_pending st"
  "rn_timer (relayDo f st) = rn_timer st"
  "rn_count (killContainer c st) = rn_count st" "rn_stdin (killContainer c st) = rn_stdin st" "rn_pending (killContainer c st) = rn_pending st"
  "rn_stall (killContainer c st) = rn_stall st" "rn_timer (killContainer c st) = rn_timer st"
  "rn_count (mapDb g st) = rn_count st" "rn_stdin (mapDb g st) = rn_stdin st" "rn_pending (mapDb g st) = rn_pending st"
  "rn_stall (mapDb g st) = rn_stall st" "rn_timer (mapDb g st) = rn_timer st"
  by (simp_all add: onRun_def logFn_def relayDo_def killContainer_def mapDb_def Let_def split_def)

lemma askOk_cong:
  "rn_count st' = rn_count st \<Longrightarrow> rn_stdin st' = rn_stdin st \<Longrightarrow> rn_pending st' = rn_pending st \<Longrightarrow> rn_stall st' = rn_stall st
     \<Longrightarrow> rn_timer st' = rn_timer st \<Longrightarrow> askOk st' = askOk st"
  by (cases "rn_stall st") (simp_all add: askOk_def)

lemma askOk_readChunk: "askOk st \<Longrightarrow> askOk (readChunk i req t st)"
  by (subst askOk_cong [of _ st]) (simp_all add: readChunk_def throttledLog_def Let_def split_def split: option.split)

lemma askOk_raiseQuestion:
  assumes "askOk st" "rn_stall st = Watching" "rn_count st < maxClarificationsPerSession"
    and st2: "rn_count st2 = Suc (rn_count st)" "rn_stdin st2 = rn_stdin st" "rn_timer st2 = rn_timer st" "rn_stall st2 = Watching" "rn_pending st2"
  shows "askOk (raiseQuestion req s q st2)"
proof -
  obtain r st3 where c: "onRun (CreateClarification (s_ID s) q) st2 = (r, st3)" by fastforce
  then have f: "rn_count st3 = Suc (rn_count st)" "rn_stdin st3 = rn_stdin st" "rn_timer st3 = rn_timer st" "rn_stall st3 = Watching" "rn_pending st3"
    using ask_frame(1-4) [of "CreateClarification (s_ID s) q" st2] run_frame(2) [of "CreateClarification (s_ID s) q" st2] st2 by simp_all
  show ?thesis
    using assms(1-3) f unfolding raiseQuestion_def c
    by (cases r) (auto simp: askOk_def Let_def split_def timerPause_def)
qed

lemma askOk_stallTick:
  assumes "askOk st" "rn_stall st = Watching"
  shows "askOk (stallTick dk req s st)"
proof -
  let ?st1 = "snd (onRun timeNow st)"
  have "askOk ?st1" using assms(1) by (subst askOk_cong [of _ st]) simp_all
  moreover have "askOk (raiseQuestion req s q (?st1\<lparr>rn_pending := True, rn_count := Suc (rn_count ?st1)\<rparr>))"
    if "rn_count st < maxClarificationsPerSession" for q
    by (rule askOk_raiseQuestion [OF assms that]) (simp_all add: assms(2))
  ultimately show ?thesis using assms(1) by (simp add: stallTick_def Let_def split_def not_le)
qed

lemma warnOnce_frame [simp]:
  "rn_count (snd (warnOnce req n t w st)) = rn_count st" "rn_stdin (snd (warnOnce req n t w st)) = rn_stdin st"
  "rn_pending (snd (warnOnce req n t w st)) = rn_pending st" "rn_timer (snd (warnOnce req n t w st)) = rn_timer st"
  "rn_stall (snd (warnOnce req n t w st)) = rn_stall st"
  by (simp_all add: warnOnce_def)

lemma awaitTick_fields:
  "rn_count (snd (snd (awaitTick req c a b w st))) = rn_count st" "rn_pending (snd (snd (awaitTick req c a b w st))) = rn_pending st"
  "rn_stall (snd (snd (awaitTick req c a b w st))) = rn_stall st" "rn_timer (snd (snd (awaitTick req c a b w st))) = rn_timer st"
  by (simp_all add: awaitTick_def Let_def split_def split: sum.split option.split)

lemma awaitTick_stdin:
  "if fst (awaitTick req c a b w st) = Some True
   then (\<exists>x. rn_stdin (snd (snd (awaitTick req c a b w st))) = rn_stdin st @ [answerText x @ [newline]])
   else rn_stdin (snd (snd (awaitTick req c a b w st))) = rn_stdin st"
  by (auto simp: awaitTick_def Let_def split_def split: sum.split option.split)

lemma awaitTick_frame:
  assumes "awaitTick req c a b w st = (r, w', st')"
  shows "rn_count st' = rn_count st" "rn_pending st' = rn_pending st" "rn_stall st' = rn_stall st" "rn_timer st' = rn_timer st"
    "if r = Some True then (\<exists>x. rn_stdin st' = rn_stdin st @ [answerText x @ [newline]]) else rn_stdin st' = rn_stdin st"
  using awaitTick_fields [of req c a b w st] awaitTick_stdin [of req c a b w st] unfolding assms fst_conv snd_conv by - assumption+

lemma askOk_answerTick:
  assumes "askOk st"
  shows "askOk (answerTick req cid st)"
proof (cases "rn_stall st")
  case (Awaiting c a b w)
  obtain r w' st1 where t: "awaitTick req c a b w st = (r, w', st1)" by (metis prod_cases3)
  note f = awaitTick_frame [OF t]
  consider "r = None" | "r = Some False" | "r = Some True" by (cases r) auto
  then show ?thesis
  proof cases
    case 1
    then show ?thesis using assms f unfolding answerTick_def Awaiting stallPhase.case t prod.case by (simp add: askOk_def Awaiting)
  next
    case 2
    then show ?thesis using assms f unfolding answerTick_def Awaiting stallPhase.case t prod.case by (simp add: askOk_def Awaiting)
  next
    case 3
    then obtain x where "rn_stdin st1 = rn_stdin st @ [answerText x @ [newline]]" using f(5) by auto
    moreover have "singleLine (answerText x @ [newline])" using answerText_line [of x] by (auto simp: singleLine_def)
    ultimately show ?thesis using assms f(1-4) 3 unfolding answerTick_def Awaiting stallPhase.case t prod.case
      by (auto simp: askOk_def Awaiting Let_def split_def timerResume_def timerStart_def)
  qed
qed (use assms in \<open>simp_all add: answerTick_def\<close>)

lemma askOk_limitTick:
  assumes "askOk st" "limitTick c st = Ret st'"
  shows "askOk st'"
proof -
  let ?t = "timerExpire (fst (onRun timeNow st)) (rn_timer st)"
  obtain t where t: "timerCallback ?t = Ret t" and s: "st' = (if ct_done t \<and> \<not> ct_done (rn_timer st)
      then killContainer c (snd (onRun timeNow st)) else snd (onRun timeNow st))\<lparr>rn_timer := t\<rparr>"
    using assms(2) by (auto simp: limitTick_def Let_def split_def split: go.splits)
  have "ct_deadline t \<noteq> None \<longrightarrow> ct_deadline (rn_timer st) \<noteq> None" "ct_timer t = ct_timer (rn_timer st)" "ct_cancelled t = ct_cancelled (rn_timer st)"
    using t by (auto simp: timerCallback_def timerExpire_def Let_def split: option.splits if_splits)
  then show ?thesis using assms(1) by (cases "rn_stall st") (auto simp: s askOk_def)
qed

lemma askOk_runStep:
  assumes "askOk st" "runStep dk i req s c ev st = Ret st'"
  shows "askOk st'"
proof (cases ev)
  case ContextDone
  then show ?thesis using assms by (cases "rn_stall st") (auto simp: runStep_def askOk_def)
next
  case StallTick
  then show ?thesis using assms askOk_stallTick by (auto simp: runStep_def)
next
  case LimitTick
  then show ?thesis using assms askOk_limitTick by (simp add: runStep_def)
next
  case (OtherDb f)
  then show ?thesis using assms by (auto simp: runStep_def askOk_cong [of "mapDb f st" st])
next
  case SeesDone
  have "askOk (st\<lparr>rn_stall := StallReturned\<rparr>)" using assms(1) by (simp add: askOk_def)
  then show ?thesis using assms SeesDone by (simp add: runStep_def split: if_splits)
next
  case GotEnd
  have "askOk (st\<lparr>rn_readerDone := True\<rparr>)" using assms(1) by (subst askOk_cong [of _ st]) simp_all
  then show ?thesis using assms(2) GotEnd by (simp add: runStep_def)
qed (use assms askOk_readChunk askOk_answerTick in \<open>auto simp: runStep_def askOk_cong [of "relayDo _ st" st]\<close>)

text \<open>
  The states of the interactive handler, from the one it sets up before its goroutines start.
\<close>

definition handlerStart :: "Run \<Rightarrow> bool" where
  "handlerStart st \<longleftrightarrow> (\<exists>now. rn_timer st = NewContainerTimer now containerTimeoutMs) \<and> rn_pending st = False \<and> rn_count st = 0
     \<and> rn_stdin st = [] \<and> rn_stall st = Watching"

interpretation asking: invariant_machine handlerStart "\<lambda>st ev st'. runStep dk i req s c ev st = Ret st'" askOk for dk i req s c
proof
  fix st
  assume "handlerStart st"
  then show "askOk st" by (auto simp: handlerStart_def askOk_def NewContainerTimer_def timerStart_def)
qed (rule askOk_runStep)

text \<open>
  C27. Questions of an agent. In every state that the reader, the two tickers, the time limit and other users of the database can bring a container's
  run to, in whatever order they act, at most five questions have been asked; while one waits for its answer no other is asked and the time limit of the
  container stands still; the agent has been sent at most one answer per question, and each answer is a single line of at
  most 2000 bytes.
\<close>

theorem questions_are_limited_and_stop_the_clock:
  assumes "reach handlerStart (\<lambda>st ev st'. runStep dk True req s c ev st = Ret st') st"
  shows "rn_count st \<le> 5 \<and> length (rn_stdin st) \<le> rn_count st \<and> (\<forall>l \<in> set (rn_stdin st). singleLine l)
    \<and> (\<forall>q d w b. rn_stall st = Awaiting q d w b \<longrightarrow>
         ct_deadline (rn_timer st) = None \<and> stallTick dk req s st = st \<and> length (rn_stdin st) < rn_count st)"
proof -
  have ok: "askOk st" by (rule asking.inv_reachable [OF assms])
  then have "stallTick dk req s st = st" if "rn_stall st = Awaiting q d w b" for q d w b
    using that by (simp add: stallTick_def askOk_def)
  with ok show ?thesis by (auto simp: askOk_def maxClarificationsPerSession_def)
qed

definition askingRun :: Run where
  "askingRun = (idleRun sampleOrchestrator)\<lparr>rn_timer := NewContainerTimer 1000 containerTimeoutMs, rn_stall := Watching\<rparr>"

theorem questions_are_limited_and_stop_the_clock_witness:
  "\<exists>st. reach handlerStart (\<lambda>st ev st'. runStep sampleDocker True sampleRequest (sampleSession ''s1'') ''c1'' ev st = Ret st') st
     \<and> rn_readerDone st \<and> rn_stall st = Watching \<and> rn_count st \<le> 5"
proof -
  let ?step = "\<lambda>st ev st'. runStep sampleDocker True sampleRequest (sampleSession ''s1'') ''c1'' ev st = Ret st'"
  have "handlerStart askingRun" by (auto simp: handlerStart_def askingRun_def idleRun_def)
  then have "reach handlerStart ?step askingRun" by (rule reach_start)
  moreover have "?step askingRun GotEnd (askingRun\<lparr>rn_readerDone := True\<rparr>)" by (simp add: runStep_def)
  ultimately have r: "reach handlerStart ?step (askingRun\<lparr>rn_readerDone := True\<rparr>)"
    by (rule reach_step [where l = GotEnd and step = ?step and s = askingRun])
  note q = questions_are_limited_and_stop_the_clock [OF r]
  from q have "rn_count (askingRun\<lparr>rn_readerDone := True\<rparr>) \<le> 5" by blast
  moreover have "rn_stall (askingRun\<lparr>rn_readerDone := True\<rparr>) = Watching" by (simp add: askingRun_def)
  moreover have "rn_readerDone (askingRun\<lparr>rn_readerDone := True\<rparr>)" by simp
  ultimately show ?thesis using r by blast
qed

text \<open>
  While it waits for an answer the goroutine looks neither at the end of the container's output nor at a cancellation: only the answer, the
  expiry of the question, its deadline or the end of the context make it return, so the handler of a container that is gone may wait for up to an hour.
\<close>

lemma waiting_ignores_the_end:
  assumes "rn_stall st = Awaiting q a b w" "ev \<notin> {AnswerTick, ContextDone}" "runStep dk True req s c ev st = Ret st'"
  shows "rn_stall st' = Awaiting q a b w \<and> \<not> handlerDone st'"
proof -
  have "rn_stall st' = rn_stall st"
  proof (cases ev)
    case LimitTick
    then show ?thesis using assms(3) by (auto simp: runStep_def limitTick_def Let_def split_def split: go.splits if_splits)
  qed (use assms in \<open>auto simp: runStep_def split: if_splits\<close>)
  then show ?thesis using assms(1) by (simp add: handlerDone_def)
qed

lemma waiting_ends_at_the_deadline:
  assumes "rn_stall st = Awaiting q a b w" "a < fst (onRun timeNow st)"
  shows "rn_stall (answerTick req c st) = StallReturned"
  using assms by (simp add: answerTick_def awaitTick_def Let_def split_def)

section \<open>Stuck and cancelled sessions\<close>

definition lostSession :: "nat \<Rightarrow> SessionRegistry \<Rightarrow> Session \<Rightarrow> bool" where
  "lostSession now reg s \<longleftrightarrow> s_Status s \<in> {SessionRunning, SessionWaitingForClarification} \<and> s_UpdatedAt s < now - 30 * 1000
     \<and> registryGet (s_ID s) reg = None"

lemma ExpireStale_sessions:
  "faults d = [] \<Longrightarrow> faults (snd (ExpireStaleClarifications t d)) = [] \<and> db_sessions (snd (ExpireStaleClarifications t d)) = db_sessions d"
  by (simp add: ExpireStaleClarifications_def Let_def)

lemma reconcileLoop_sessions:
  assumes "faults d = []"
  shows "map s_ID (db_sessions (reconcileLoop ids d)) = map s_ID (db_sessions d)
    \<and> (\<forall>s \<in> set (db_sessions (reconcileLoop ids d)). if s_ID s \<in> set ids then s_Status s = SessionError else s \<in> set (db_sessions d))"
  using assms
proof (induction ids arbitrary: d)
  case (Cons i ids)
  obtain n d1 where t: "timeNow d = (n, d1)" by fastforce
  have d1: "faults d1 = []" "db_sessions d1 = db_sessions d"
    using Cons.prems timeNow_other [OF t] tables_eqD(2) [OF timeNow_tables [OF t]] by simp_all
  define d2 where "d2 = updateSessions (\<lambda>s. s_ID s = i) (setResult SessionError (Some ''Bot restarted, session lost.'') None None n) d1"
  obtain m d3 where t3: "timeNow d2 = (m, d3)" by fastforce
  have d3: "faults d3 = []" "db_sessions d3 = db_sessions d2"
    using d1 timeNow_other [OF t3] tables_eqD(2) [OF timeNow_tables [OF t3]] by (simp_all add: d2_def)
  define d4 where "d4 = snd (ExpireStaleClarifications (m - 60 * 60 * 1000) d3)"
  have d4: "faults d4 = []" "db_sessions d4 = db_sessions d2" using ExpireStale_sessions [OF d3(1)] d3(2) by (simp_all add: d4_def)
  have e: "reconcileLoop (i # ids) d = reconcileLoop ids d4"
    using d1 by (simp add: UpdateSessionResult_def t Let_def t3 d2_def [symmetric] d4_def split_def)
  have s2: "db_sessions d2 = updateRows (\<lambda>s. s_ID s = i) (setResult SessionError (Some ''Bot restarted, session lost.'') None None n) (db_sessions d)"
    by (simp add: d2_def updateSessions_def d1)
  note ih = Cons.IH [OF d4(1), unfolded d4(2)]
  have "map s_ID (db_sessions d2) = map s_ID (db_sessions d)" by (simp add: s2 updateRows_def)
  moreover have "if s_ID s \<in> set (i # ids) then s_Status s = SessionError else s \<in> set (db_sessions d)"
    if s: "s \<in> set (db_sessions (reconcileLoop ids d4))" for s
  proof (cases "s_ID s \<in> set ids")
    case False
    with ih s have "s \<in> set (db_sessions d2)" by auto
    then show ?thesis using False by (auto simp: s2 updateRows_def)
  qed (use ih s in auto)
  ultimately show ?case unfolding e using ih by simp
qed simp

text \<open>
  After a restart the sessions that were running or waiting, are not registered and have not been touched for thirty seconds fail, and no
  other session changes.
\<close>

lemma reconciliation_is_exact:
  assumes "ReconcileStuckSessions o1 = (r, o2)" "faults (o_db o1) = []" "distinct (map s_ID (db_sessions (o_db o1)))"
  shows "r = Inr () \<and> o_registry o2 = o_registry o1 \<and> map s_ID (db_sessions (o_db o2)) = map s_ID (db_sessions (o_db o1))
    \<and> (\<forall>s \<in> set (db_sessions (o_db o1)). \<forall>s' \<in> set (db_sessions (o_db o2)). s_ID s' = s_ID s \<longrightarrow>
         (if lostSession (fst (timeNow (o_db o1))) (o_registry o1) s then s_Status s' = SessionError else s' = s))"
proof -
  obtain now d where t: "timeNow (o_db o1) = (now, d)" by fastforce
  have d: "faults d = []" "db_sessions d = db_sessions (o_db o1)"
    using assms(2) timeNow_other [OF t] tables_eqD(2) [OF timeNow_tables [OF t]] by simp_all
  define ids where "ids = filter (\<lambda>i. registryGet i (o_registry o1) = None)
     (map s_ID (filter (\<lambda>s. s_Status s \<in> {SessionRunning, SessionWaitingForClarification} \<and> s_UpdatedAt s < now - 30 * 1000) (db_sessions (o_db o1))))"
  have o2: "r = Inr ()" "o2 = o1\<lparr>o_db := reconcileLoop ids d\<rparr>"
    using assms(1) d by (auto simp: ReconcileStuckSessions_def t Let_def ids_def split: if_splits)
  have lost: "s_ID s \<in> set ids \<longleftrightarrow> lostSession now (o_registry o1) s" if "s \<in> set (db_sessions (o_db o1))" for s
    using that distinct_map_eqD [OF assms(3)] by (auto simp: ids_def lostSession_def)
  note l = reconcileLoop_sessions [OF d(1), of ids]
  have "if lostSession now (o_registry o1) s then s_Status s' = SessionError else s' = s"
    if "s \<in> set (db_sessions (o_db o1))" "s' \<in> set (db_sessions (reconcileLoop ids d))" "s_ID s' = s_ID s" for s s'
    using that lost [OF that(1)] l distinct_map_eqD [OF assms(3)] d(2) by (metis (no_types, lifting))
  then show ?thesis using o2 l d(2) by (simp add: t)
qed

text \<open>The watcher kills the containers of the registered sessions that are being cancelled.\<close>

lemma cancelTick_kills:
  assumes "faults (o_db o1) = []" "distinct (map fst (o_registry o1))"
  shows "set (o_kills (cancelTick o1)) = set (o_kills o1) \<union>
    {c. \<exists>s \<in> set (db_sessions (o_db o1)). s_Status s = SessionCancelling \<and> registryGet (s_ID s) (o_registry o1) = Some c}"
proof -
  have reg: "i \<in> set (ActiveSessionIDs (o_registry o1)) \<longleftrightarrow> registryGet i (o_registry o1) \<noteq> None" for i
    by (simp add: ActiveSessionIDs_def registryGet_def map_of_eq_None_iff)
  then show ?thesis using assms(1)
    by (auto simp: cancelTick_def Let_def GetSessionsByStatus_def map_filter_def intro: rev_image_eqI)
qed

end
