(* ===== verification/Worker.thy ===== *)
theory Worker
  imports Delegation Locks Accounts Crypto Clarifications Orchestrator
begin

text \<open>
  The worker that runs delegated tasks (\<open>bot/delegation/worker.go\<close>): one poll of the queue, the run of one task, and the
  cache of decrypted keys. The function that executes the work is a parameter, as in the code; a run of it that does not return has the value \<open>None\<close>. So
  are the texts that are JSON objects, the cost recorded in the metadata of a usage record, and the collation that orders agent ids.
  A Go map is a list of its entries in the order the runtime visits them.
\<close>

section \<open>Model\<close>

definition maxConcurrentSessionsPerUser :: nat where "maxConcurrentSessionsPerUser = 3"
definition maxAgentsPerPoll :: nat where "maxAgentsPerPoll = 20"
definition maxDecryptionCacheSize :: nat where "maxDecryptionCacheSize = 1000"
definition decryptCacheTTL :: nat where "decryptCacheTTL = 5 * 60 * 1000"

record decryptCacheEntry =
  dc_key :: string
  dc_lastUsed :: nat
  dc_expiresAt :: nat

type_synonym decryptCache = "(string \<times> (string \<times> decryptCacheEntry) list) list"

record DelegatedWork =
  dw_UserID :: string
  dw_AgentID :: string
  dw_Task :: string
  dw_Repo :: string
  dw_Provider :: string
  dw_APIKey :: string
  dw_GithubToken :: string
  dw_AgentScope :: "string option"
  dw_BaseURL :: string
  dw_ModelID :: string
  dw_PlatformUserID :: string

record runDelegatedTaskOptions =
  rd_delegatedTaskID :: string
  rd_userID :: string
  rd_agentID :: string
  rd_task :: string
  rd_repo :: string
  rd_provider :: string
  rd_apiKey :: string
  rd_githubToken :: string
  rd_agentScope :: "string option"
  rd_baseURL :: string
  rd_modelID :: string

record workerEnv =
  we_prims :: primitives
  we_key :: string
  we_jsonObject :: "string \<Rightarrow> bool"
  we_costCents :: "string \<Rightarrow> rat option" \<comment> \<open>the number under \<open>costCents\<close> of a JSON object, if there is one\<close>
  we_order :: "string \<Rightarrow> nat"
  we_execute :: "(DelegatedWork \<Rightarrow> db \<Rightarrow> (unit result \<times> db) option) option"

record WorkerState =
  ww_db :: db
  ww_keys :: scryptCache
  ww_cache :: decryptCache
  ww_running :: bool
  ww_isProcessing :: bool
  ww_active :: "runDelegatedTaskOptions list" \<comment> \<open>the goroutines started and not yet done\<close>

definition NewWorker :: "db \<Rightarrow> scryptCache \<Rightarrow> WorkerState" where
  "NewWorker d keys = \<lparr>ww_db = d, ww_keys = keys, ww_cache = [], ww_running = False, ww_isProcessing = False, ww_active = []\<rparr>"

definition onWorker :: "(db \<Rightarrow> 'a \<times> db) \<Rightarrow> WorkerState \<Rightarrow> 'a \<times> WorkerState" where
  "onWorker m st = (let (r, d) = m (ww_db st) in (r, st\<lparr>ww_db := d\<rparr>))"

text \<open>\<open>Stop\<close>, which waits for the goroutines to be done before it drops the cache.\<close>

definition Stop_Worker :: "WorkerState \<Rightarrow> WorkerState option" where
  "Stop_Worker st =
     (if \<not> ww_running st then Some st
      else if ww_active st \<noteq> [] then None
      else Some (st\<lparr>ww_running := False, ww_cache := []\<rparr>))"

section \<open>Decrypted keys\<close>

definition totalEntries :: "decryptCache \<Rightarrow> nat" where
  "totalEntries c = sum_list (map (\<lambda>(_, userCache). length userCache) c)"

fun oldestEntry :: "(string \<times> string \<times> nat) option \<Rightarrow> (string \<times> string \<times> nat) list \<Rightarrow> (string \<times> string \<times> nat) option" where
  "oldestEntry acc [] = acc"
| "oldestEntry acc ((u, k, t) # es) =
     oldestEntry (case acc of None \<Rightarrow> Some (u, k, t) | Some (u0, k0, t0) \<Rightarrow> if t < t0 then Some (u, k, t) else acc) es"

definition cacheEntries :: "decryptCache \<Rightarrow> (string \<times> string \<times> nat) list" where
  "cacheEntries c = concat (map (\<lambda>(u, es). map (\<lambda>(k, e). (u, k, dc_lastUsed e)) es) c)"

definition userCacheOf :: "string \<Rightarrow> decryptCache \<Rightarrow> (string \<times> decryptCacheEntry) list" where
  "userCacheOf u c = (case map_of c u of None \<Rightarrow> [] | Some es \<Rightarrow> es)"

definition evictOldestDecryptEntry :: "decryptCache \<Rightarrow> decryptCache" where
  "evictOldestDecryptEntry c =
     (case oldestEntry None (cacheEntries c) of
        None \<Rightarrow> c
      | Some (u, k, _) \<Rightarrow>
          if u = [] then c
          else
            let userCache = AList.delete k (userCacheOf u c) in
            if userCache = [] then AList.delete u c else AList.update u userCache c)"

text \<open>The loop that evicts; \<open>None\<close> when it never ends.\<close>

partial_function (option) evictLoop :: "decryptCache \<Rightarrow> decryptCache option" where
  "evictLoop c =
     (if totalEntries c > maxDecryptionCacheSize then evictLoop (evictOldestDecryptEntry c) else Some c)"

definition cachedKey :: "nat \<Rightarrow> string \<Rightarrow> string \<Rightarrow> decryptCache \<Rightarrow> decryptCacheEntry option" where
  "cachedKey now userID encryptedKey c =
     (case map_of c userID of
        None \<Rightarrow> None
      | Some userCache \<Rightarrow>
          (case map_of userCache encryptedKey of
             None \<Rightarrow> None
           | Some e \<Rightarrow> if now < dc_expiresAt e then Some e else None))"

definition storeKey :: "string \<Rightarrow> string \<Rightarrow> decryptCacheEntry \<Rightarrow> decryptCache \<Rightarrow> decryptCache" where
  "storeKey userID encryptedKey e c = AList.update userID (AList.update encryptedKey e (userCacheOf userID c)) c"

definition getCachedDecryptedKey :: "workerEnv \<Rightarrow> string \<Rightarrow> string \<Rightarrow> WorkerState \<Rightarrow> (string \<times> WorkerState) option" where
  "getCachedDecryptedKey env userID encryptedKey st =
     (let (now, st1) = onWorker timeNow st in
      case cachedKey now userID encryptedKey (ww_cache st1) of
        Some e \<Rightarrow> Some (dc_key e, st1\<lparr>ww_cache := storeKey userID encryptedKey (e\<lparr>dc_lastUsed := now\<rparr>) (ww_cache st1)\<rparr>)
      | None \<Rightarrow>
          (let (t, st2) = onWorker timeNow st1;
               (r, keys) = DecryptWithKey (we_prims env) (we_key env) t encryptedKey (ww_keys st2);
               st3 = st2\<lparr>ww_keys := keys\<rparr>
           in case r of
                Inl _ \<Rightarrow> Some ([], st3)
              | Inr decrypted \<Rightarrow>
                  map_option (\<lambda>c. (decrypted, st3\<lparr>ww_cache := c\<rparr>))
                    (evictLoop (storeKey userID encryptedKey
                       \<lparr>dc_key = decrypted, dc_lastUsed = now, dc_expiresAt = now + decryptCacheTTL\<rparr> (ww_cache st3)))))"

section \<open>The run of a task\<close>

definition finishedTaskSession :: "runDelegatedTaskOptions \<Rightarrow> db \<Rightarrow> Session option" where
  "finishedTaskSession opts d =
     (case orderDesc s_CreatedAt (filter (\<lambda>s. s_UserID s = rd_userID opts \<and> s_AgentID s = rd_agentID opts \<and> s_Task s = rd_task opts
             \<and> s_Status s \<in> {SessionDone, SessionError, SessionCancelled}) (db_sessions d)) of
        [] \<Rightarrow> None | s # _ \<Rightarrow> Some s)"

text \<open>The loop over the usage records: a row that cannot be scanned or decoded is skipped.\<close>

fun sumCosts :: "workerEnv \<Rightarrow> UsageRecord list \<Rightarrow> db \<Rightarrow> rat \<times> db" where
  "sumCosts env [] d = (0, d)"
| "sumCosts env (u # us) d =
     (case statement d of
        (Some _, d1) \<Rightarrow> sumCosts env us d1
      | (None, d1) \<Rightarrow>
          (let (total, d2) = sumCosts env us d1 in
           case ur_Metadata u of
             None \<Rightarrow> (total, d2)
           | Some m \<Rightarrow> (case we_costCents env m of None \<Rightarrow> (total, d2) | Some c \<Rightarrow> (c / 100 + total, d2))))"

definition completeWithCost :: "workerEnv \<Rightarrow> runDelegatedTaskOptions \<Rightarrow> string \<Rightarrow> db \<Rightarrow> db" where
  "completeWithCost env opts sessionID d =
     (case statement d of
        (Some _, d1) \<Rightarrow> d1
      | (None, d1) \<Rightarrow>
          (let (totalCostUSD, d2) = sumCosts env (filter (\<lambda>u. ur_SessionID u = Some sessionID \<and> ur_Type u = LLMTokens) (db_usage d1)) d1;
               actualCost = (if totalCostUSD > 0 then Some totalCostUSD else None)
           in snd (OnTaskComplete (rd_delegatedTaskID opts) (rd_userID opts) actualCost d2)))"

definition failTask :: "runDelegatedTaskOptions \<Rightarrow> string \<Rightarrow> db \<Rightarrow> db" where
  "failTask opts msg d = snd (OnTaskFailed (rd_delegatedTaskID opts) (rd_userID opts) msg d)"

text \<open>What follows when the work has returned without an error.\<close>

definition settleTask :: "workerEnv \<Rightarrow> runDelegatedTaskOptions \<Rightarrow> db \<Rightarrow> unit result \<times> db" where
  "settleTask env opts d =
     (case queryOne ''find session'' (finishedTaskSession opts) d of
        (Inl e, d1) \<Rightarrow> (Inl e, failTask opts ''No session found after execution'' d1)
      | (Inr s, d1) \<Rightarrow>
          let d2 = snd (UpdateDelegatedTaskChild (rd_delegatedTaskID opts) (rd_userID opts) (s_ID s) d1);
              d3 = (if s_Status s = SessionDone then completeWithCost env opts (s_ID s) d2
                    else if s_Status s = SessionCancelled then failTask opts ''Task was cancelled'' d2
                    else failTask opts ''Task execution failed'' d2)
          in (Inr (), snd (ReleaseSessionLocks (s_ID s) (rd_userID opts) d3)))"

definition runDelegatedTask :: "workerEnv \<Rightarrow> runDelegatedTaskOptions \<Rightarrow> WorkerState \<Rightarrow> (unit result \<times> WorkerState) option" where
  "runDelegatedTask env opts st =
     (case we_execute env of
        None \<Rightarrow> Some (Inl ''execute function not set'',
                  st\<lparr>ww_db := failTask opts ''System not ready to execute tasks. This is a configuration error. Please contact support.'' (ww_db st)\<rparr>)
      | Some executeFn \<Rightarrow>
          (case getCachedDecryptedKey env (rd_userID opts) (rd_apiKey opts) st of
             None \<Rightarrow> None
           | Some (apiKey, st1) \<Rightarrow>
               (case getCachedDecryptedKey env (rd_userID opts) (rd_githubToken opts) st1 of
                  None \<Rightarrow> None
                | Some (token, st2) \<Rightarrow>
                    (case onWorker (UpdateDelegatedTaskStatus (rd_delegatedTaskID opts) (rd_userID opts) TaskRunning None) st2 of
                       (Inl e, st3) \<Rightarrow> Some (Inl (''update task to running: '' @ e), st3)
                     | (Inr _, st3) \<Rightarrow>
                         (case executeFn \<lparr>dw_UserID = rd_userID opts, dw_AgentID = rd_agentID opts, dw_Task = rd_task opts, dw_Repo = rd_repo opts,
                                         dw_Provider = rd_provider opts, dw_APIKey = apiKey, dw_GithubToken = token, dw_AgentScope = rd_agentScope opts,
                                         dw_BaseURL = rd_baseURL opts, dw_ModelID = rd_modelID opts, dw_PlatformUserID = []\<rparr> (ww_db st3) of
                            None \<Rightarrow> None
                          | Some (Inl e, d) \<Rightarrow> Some (Inl e, st3\<lparr>ww_db := failTask opts (take 500 e) d\<rparr>)
                          | Some (Inr _, d) \<Rightarrow> (let (r, d') = settleTask env opts d in Some (r, st3\<lparr>ww_db := d'\<rparr>)))))))"

text \<open>\<open>main.go\<close>: the work of the bot is a run in a container.\<close>

definition buildOrchRequest :: "DelegatedWork \<Rightarrow> WorkRequest" where
  "buildOrchRequest w =
     \<lparr>wr_UserID = dw_UserID w, wr_AgentID = dw_AgentID w, wr_Task = dw_Task w, wr_Repo = dw_Repo w, wr_Provider = dw_Provider w,
      wr_APIKey = dw_APIKey w, wr_GithubToken = dw_GithubToken w, wr_AgentScope = dw_AgentScope w, wr_BaseURL = dw_BaseURL w,
      wr_ModelID = dw_ModelID w, wr_PlatformUserID = dw_PlatformUserID w, wr_Mode = [], wr_LogFn = None\<rparr>"

definition delegationExecuteFn :: "Docker \<Rightarrow> OrchestratorState \<Rightarrow> DelegatedWork \<Rightarrow> db \<Rightarrow> (unit result \<times> db) option" where
  "delegationExecuteFn dk o1 w d =
     (case ExecuteInContainer dk (buildOrchRequest w) (o1\<lparr>o_db := d\<rparr>) of
        Some (Ret (r, run)) \<Rightarrow> Some (r, o_db (rn_o run))
      | _ \<Rightarrow> None)"

section \<open>The queue\<close>

definition canStartNewSession :: "string \<Rightarrow> db \<Rightarrow> bool result \<times> db" where
  "canStartNewSession userID d =
     (case CountActiveSessions userID d of
        (Inl e, d1) \<Rightarrow> (Inl e, d1)
      | (Inr count, d1) \<Rightarrow> (Inr (count < maxConcurrentSessionsPerUser), d1))"

definition workerRepoPattern :: re where
  "workerRepoPattern =
     Cat Bol (Cat (plus1 (Cls (alnumClass @ [(95, 95), (45, 45)])))
       (Cat (lit ''/'') (Cat (plus1 (Cls (alnumClass @ [(95, 95), (46, 46), (45, 45)]))) Eol)))"

definition providerName :: "LLMProvider \<Rightarrow> string" where
  "providerName p =
     (case p of Anthropic \<Rightarrow> ''anthropic'' | OpenAI \<Rightarrow> ''openai'' | Google \<Rightarrow> ''google'' | Venice \<Rightarrow> ''venice'' | Groq \<Rightarrow> ''groq''
      | Together \<Rightarrow> ''together'' | Fireworks \<Rightarrow> ''fireworks'' | Custom \<Rightarrow> ''custom'')"

definition optStr :: "string option \<Rightarrow> string" where
  "optStr v = (case v of None \<Rightarrow> [] | Some s \<Rightarrow> s)"

definition delegationPrefix :: "DelegationContext \<Rightarrow> string \<Rightarrow> string" where
  "delegationPrefix ctx description =
     (if x_Summary ctx \<noteq> [] then
        ''Context from delegating agent:'' @ [newline] @ x_Summary ctx @ [newline, newline] @ ''Task: '' @ description
      else description)"

text \<open>From the claimed task on: the goroutine to start, or the message with which the task fails.\<close>

definition prepareRun ::
    "workerEnv \<Rightarrow> string \<Rightarrow> DelegatedTask \<Rightarrow> Agent \<Rightarrow> ApiKey \<Rightarrow> GithubConnection \<Rightarrow> db \<Rightarrow> runDelegatedTaskOptions result \<times> db" where
  "prepareRun env userID task agent apiKey githubConn d =
     (case t_Context task of
        None \<Rightarrow> (Inl ''Task context is corrupted. This is a system error, not your fault. Please try creating a new task.'', d)
      | Some ctx \<Rightarrow>
          let (parentSession, d1) =
                (case t_ParentSessionID task of
                   None \<Rightarrow> (None, d)
                 | Some p \<Rightarrow> (case GetSession p userID d of (Inl _, d') \<Rightarrow> (None, d') | (Inr s, d') \<Rightarrow> (s, d')));
              taskRepo = (case x_Repo ctx of Some r \<Rightarrow> Some r | None \<Rightarrow> (case parentSession of None \<Rightarrow> None | Some s \<Rightarrow> s_Repo s))
          in case taskRepo of
               None \<Rightarrow> (Inl ''No repository specified. The delegating agent must specify which repo to work on.'', d1)
             | Some repo \<Rightarrow>
                 if \<not> MatchString workerRepoPattern repo
                 then (Inl (''Invalid repository format: '' @ repo @ ''. Expected format: owner/repo''), d1)
                 else (Inr \<lparr>rd_delegatedTaskID = t_ID task, rd_userID = userID, rd_agentID = a_ID agent,
                            rd_task = delegationPrefix ctx (t_Description task), rd_repo = repo, rd_provider = providerName (ak_Provider apiKey),
                            rd_apiKey = ak_APIKey apiKey, rd_githubToken = gh_GithubToken githubConn,
                            rd_agentScope = (if a_ScopeConfig agent \<noteq> [] \<and> we_jsonObject env (a_ScopeConfig agent) then Some (a_ScopeConfig agent) else None),
                            rd_baseURL = optStr (ak_BaseURL apiKey), rd_modelID = optStr (ak_ModelID apiKey)\<rparr>, d1))"

definition taskOf :: "workerEnv \<Rightarrow> string \<Rightarrow> DelegatedTask \<Rightarrow> Agent \<Rightarrow> db \<Rightarrow> runDelegatedTaskOptions result \<times> db" where
  "taskOf env userID task agent d =
     (if a_UserID agent \<noteq> t_UserID task then (Inl ''Agent does not belong to task owner'', d)
      else case a_APIKeyID agent of
        None \<Rightarrow> (Inl (''Agent '' @ a_Name agent @ '' is missing an API key. Add one in the dashboard.''), d)
      | Some kid \<Rightarrow>
          (case GetAPIKey kid userID d of
             (Inr (Some apiKey), d1) \<Rightarrow>
               (case GetGithubConnection userID d1 of
                  (Inr (Some githubConn), d2) \<Rightarrow> prepareRun env userID task agent apiKey githubConn d2
                | (_, d2) \<Rightarrow> (Inl ''GitHub account not connected. Connect your GitHub account in the dashboard.'', d2))
           | (_, d1) \<Rightarrow> (Inl ''Agent API key not found. Please configure an API key in the dashboard.'', d1)))"

text \<open>One round of the loop over the agents with pending tasks. An agent that is not found is a nil pointer, which the next line follows.\<close>

definition pollAgent :: "workerEnv \<Rightarrow> string \<times> string \<Rightarrow> WorkerState \<Rightarrow> WorkerState go" where
  "pollAgent env a st =
     (let (toAgentID, userID) = a in
      case onWorker (canStartNewSession userID) st of
        (Inl _, st1) \<Rightarrow> Ret st1
      | (Inr False, st1) \<Rightarrow> Ret st1
      | (Inr True, st1) \<Rightarrow>
          (case onWorker (ClaimNextTask toAgentID) st1 of
             (Inl _, st2) \<Rightarrow> Ret st2
           | (Inr None, st2) \<Rightarrow> Ret st2
           | (Inr (Some task), st2) \<Rightarrow>
               let fail = (\<lambda>msg st. st\<lparr>ww_db := snd (OnTaskFailed (t_ID task) (t_UserID task) msg (ww_db st))\<rparr>) in
               (case onWorker (GetAgent toAgentID userID) st2 of
                  (Inl e, st3) \<Rightarrow> Ret (fail (''Failed to fetch agent details: '' @ e) st3)
                | (Inr None, st3) \<Rightarrow> Panic
                | (Inr (Some agent), st3) \<Rightarrow>
                    (case onWorker (taskOf env userID task agent) st3 of
                       (Inl msg, st4) \<Rightarrow> Ret (fail msg st4)
                     | (Inr opts, st4) \<Rightarrow> Ret (st4\<lparr>ww_active := ww_active st4 @ [opts]\<rparr>)))))"

fun pollAgents :: "workerEnv \<Rightarrow> (string \<times> string) list \<Rightarrow> WorkerState \<Rightarrow> WorkerState go" where
  "pollAgents env [] st = Ret st"
| "pollAgents env (a # as) st = (case pollAgent env a st of Panic \<Rightarrow> Panic | Ret st1 \<Rightarrow> pollAgents env as st1)"

definition readyAgents :: "workerEnv \<Rightarrow> db \<Rightarrow> (string \<times> string) list" where
  "readyAgents env d =
     take maxAgentsPerPoll (sort_key (\<lambda>p. we_order env (fst p))
       (remdups (map (\<lambda>t. (t_ToAgentID t, t_UserID t)) (filter (\<lambda>t. t_Status t = TaskPending \<and> t_BlockedBy t = []) (db_tasks d)))))"

definition processTaskQueue :: "workerEnv \<Rightarrow> WorkerState \<Rightarrow> (unit result \<times> WorkerState) go" where
  "processTaskQueue env st =
     (if ww_isProcessing st then Ret (Inr (), st)
      else
        case onWorker (queryRows ''query agents with pending tasks'' ''scan agent'' ''iterate agents'' (readyAgents env)) (st\<lparr>ww_isProcessing := True\<rparr>) of
          (Inl e, st1) \<Rightarrow> Ret (Inl e, st1\<lparr>ww_isProcessing := False\<rparr>)
        | (Inr agents, st1) \<Rightarrow>
            (case pollAgents env agents st1 of
               Panic \<Rightarrow> Panic
             | Ret st2 \<Rightarrow> Ret (Inr (), st2\<lparr>ww_isProcessing := False\<rparr>)))"

text \<open>\<open>Start\<close> up to its first poll; every tick of its ticker is another \<open>processTaskQueue\<close>, whose error is only printed.\<close>

definition Start_Worker :: "workerEnv \<Rightarrow> WorkerState \<Rightarrow> WorkerState go" where
  "Start_Worker env st =
     (if ww_running st then Ret st
      else case processTaskQueue env (st\<lparr>ww_running := True\<rparr>) of Panic \<Rightarrow> Panic | Ret (_, st1) \<Rightarrow> Ret st1)"

section \<open>The cache of decrypted keys\<close>

text \<open>Users and keys are the keys of Go maps; a user's map is never empty and no user has the empty id.\<close>

definition cacheShape :: "decryptCache \<Rightarrow> bool" where
  "cacheShape c \<longleftrightarrow> distinct (map fst c) \<and> [] \<notin> fst ` set c"

lemma oldestEntry_mem: "oldestEntry acc es = Some x \<Longrightarrow> x \<in> set es \<or> acc = Some x"
  by (induction acc es rule: oldestEntry.induct) (auto split: option.splits if_splits prod.splits)

lemma oldestEntry_None: "oldestEntry acc es = None \<longleftrightarrow> acc = None \<and> es = []"
  by (induction acc es rule: oldestEntry.induct) (auto split: option.splits if_splits prod.splits)

lemma oldestEntry_oldest:
  "oldestEntry acc es = Some (u, k, t) \<Longrightarrow> (\<forall>(u', k', t') \<in> set es. t \<le> t') \<and> (\<forall>u0 k0 t0. acc = Some (u0, k0, t0) \<longrightarrow> t \<le> t0)"
  by (induction acc es rule: oldestEntry.induct) (force split: option.splits if_splits prod.splits)+

lemma totalEntries_Cons [simp]: "totalEntries ((u, es) # c) = length es + totalEntries c"
  by (simp add: totalEntries_def)

lemma totalEntries_update: "totalEntries (AList.update u es c) + length (userCacheOf u c) = totalEntries c + length es"
  by (induction c) (auto simp: userCacheOf_def totalEntries_def)

lemma totalEntries_delete: "distinct (map fst c) \<Longrightarrow> totalEntries (AList.delete u c) + length (userCacheOf u c) = totalEntries c"
proof (induction c)
  case (Cons p c)
  obtain v es where p: "p = (v, es)" by force
  show ?case
  proof (cases "v = u")
    case True
    then have "u \<notin> fst ` set c" using Cons.prems p by simp
    then show ?thesis using p True by (simp add: userCacheOf_def AList.delete_eq filter_True image_iff split_def)
  next
    case False
    then show ?thesis using Cons p by (simp add: userCacheOf_def)
  qed
qed (simp add: totalEntries_def userCacheOf_def)

lemma length_delete_less: "k \<in> fst ` set es \<Longrightarrow> length (AList.delete k es) < length es"
  by (auto simp: AList.delete_eq length_filter_less)

lemma cacheShape_update: "cacheShape c \<Longrightarrow> u \<noteq> [] \<Longrightarrow> cacheShape (AList.update u es c)"
  by (auto simp: cacheShape_def distinct_update dom_update)

lemma cacheShape_delete: "cacheShape c \<Longrightarrow> cacheShape (AList.delete u c)"
  by (auto simp: cacheShape_def AList.delete_eq intro: distinct_map_filter)

lemma cacheEntries_mem:
  assumes "distinct (map fst c)" "(u, k, t) \<in> set (cacheEntries c)"
  shows "k \<in> fst ` set (userCacheOf u c)" "u \<in> fst ` set c"
proof -
  from assms(2) obtain es e where m: "(u, es) \<in> set c" "(k, e) \<in> set es" by (auto simp: cacheEntries_def)
  then have "map_of c u = Some es" using assms(1) by (simp add: map_of_eq_Some_iff)
  with m show "k \<in> fst ` set (userCacheOf u c)" "u \<in> fst ` set c" by (force simp: userCacheOf_def)+
qed

lemma cacheEntries_empty: "cacheEntries c = [] \<longleftrightarrow> totalEntries c = 0"
  by (induction c) (auto simp: cacheEntries_def totalEntries_def)

lemma evict_shrinks:
  assumes "cacheShape c" "0 < totalEntries c"
  shows "cacheShape (evictOldestDecryptEntry c)" "totalEntries (evictOldestDecryptEntry c) < totalEntries c"
proof -
  have d: "distinct (map fst c)" "[] \<notin> fst ` set c" using assms(1) by (simp_all add: cacheShape_def)
  obtain u k t where o: "oldestEntry None (cacheEntries c) = Some (u, k, t)"
    using oldestEntry_None [of None "cacheEntries c"] cacheEntries_empty [of c] assms(2) by (cases "oldestEntry None (cacheEntries c)") auto
  then have m: "(u, k, t) \<in> set (cacheEntries c)" using oldestEntry_mem by fastforce
  note f = cacheEntries_mem [OF d(1) m]
  have u: "u \<noteq> []" using f(2) d(2) by metis
  have "length (AList.delete k (userCacheOf u c)) < length (userCacheOf u c)" by (rule length_delete_less [OF f(1)])
  then show "totalEntries (evictOldestDecryptEntry c) < totalEntries c"
    using totalEntries_update [of u "AList.delete k (userCacheOf u c)" c] totalEntries_delete [OF d(1), of u] u
    by (auto simp: evictOldestDecryptEntry_def o Let_def)
  show "cacheShape (evictOldestDecryptEntry c)"
    using cacheShape_delete [OF assms(1)] cacheShape_update [OF assms(1) u] u by (simp add: evictOldestDecryptEntry_def o Let_def)
qed

lemma evictLoop_returns:
  assumes "cacheShape c"
  shows "\<exists>c'. evictLoop c = Some c' \<and> cacheShape c' \<and> totalEntries c' \<le> maxDecryptionCacheSize"
  using assms
proof (induction "totalEntries c" arbitrary: c rule: less_induct)
  case less
  show ?case
  proof (cases "totalEntries c > maxDecryptionCacheSize")
    case True
    then have "evictLoop c = evictLoop (evictOldestDecryptEntry c)" by (simp add: evictLoop.simps)
    moreover have "0 < totalEntries c" using True by simp
    note e = evict_shrinks [OF less.prems this]
    ultimately show ?thesis using less.hyps [OF e(2) e(1)] by simp
  qed (use less.prems in \<open>simp add: evictLoop.simps\<close>)
qed

text \<open>Were the oldest entry one of a user with the empty id, nothing would be evicted and the loop would never end.\<close>

lemma evictLoop_hangs:
  assumes "totalEntries c > maxDecryptionCacheSize" "oldestEntry None (cacheEntries c) = Some ([], k, t)"
  shows "evictLoop c = None"
proof -
  have same: "evictOldestDecryptEntry c = c" using assms(2) by (simp add: evictOldestDecryptEntry_def)
  have "x \<noteq> c" if "evictLoop x = Some y" for x y
    using _ that by (rule evictLoop.raw_induct [where P = "\<lambda>x y. x \<noteq> c"]) (use assms(1) same in \<open>auto split: if_splits\<close>)
  then show ?thesis by (cases "evictLoop c") auto
qed

text \<open>The plaintext of a stored secret, or nothing when it cannot be decrypted.\<close>

definition plainKey :: "workerEnv \<Rightarrow> string \<Rightarrow> string option" where
  "plainKey env k = (case fst (DecryptWithKey (we_prims env) (we_key env) 0 k []) of Inl _ \<Rightarrow> None | Inr p \<Rightarrow> Some p)"

definition soundCache :: "workerEnv \<Rightarrow> decryptCache \<Rightarrow> bool" where
  "soundCache env c \<longleftrightarrow> (\<forall>u k e. map_of (userCacheOf u c) k = Some e \<longrightarrow> plainKey env k = Some (dc_key e))"

definition keysOk :: "workerEnv \<Rightarrow> WorkerState \<Rightarrow> bool" where
  "keysOk env st \<longleftrightarrow> cacheShape (ww_cache st) \<and> totalEntries (ww_cache st) \<le> maxDecryptionCacheSize
     \<and> cacheOk (we_prims env) (we_key env) (ww_keys st) \<and> soundCache env (ww_cache st)"

lemma userCacheOf_update: "userCacheOf v (AList.update u es c) = (if v = u then es else userCacheOf v c)"
  by (simp add: userCacheOf_def update_conv')

lemma userCacheOf_delete: "userCacheOf v (AList.delete u c) = (if v = u then [] else userCacheOf v c)"
  by (simp add: userCacheOf_def delete_conv')

lemma soundCache_store: "soundCache env c \<Longrightarrow> plainKey env k = Some (dc_key e) \<Longrightarrow> soundCache env (storeKey u k e c)"
  by (auto simp: soundCache_def storeKey_def userCacheOf_update update_conv' split: if_splits)

lemma soundCache_evict:
  assumes "soundCache env c"
  shows "soundCache env (evictOldestDecryptEntry c)"
proof (cases "oldestEntry None (cacheEntries c)")
  case (Some x)
  then show ?thesis using assms
    by (auto simp: soundCache_def evictOldestDecryptEntry_def Let_def userCacheOf_update userCacheOf_delete delete_conv' split: prod.split if_splits)
qed (use assms in \<open>simp add: evictOldestDecryptEntry_def\<close>)

lemma soundCache_evictLoop:
  assumes "evictLoop c = Some c'"
  shows "soundCache env c \<longrightarrow> soundCache env c'"
  using _ assms
  by (rule evictLoop.raw_induct [where P = "\<lambda>c c'. soundCache env c \<longrightarrow> soundCache env c'"]) (auto split: if_splits intro: soundCache_evict)

lemma length_update_present: "k \<in> fst ` set es \<Longrightarrow> length (AList.update k e es) = length es"
  by (induction es) auto

lemma totalEntries_touch:
  "map_of (userCacheOf u c) k \<noteq> None \<Longrightarrow> totalEntries (storeKey u k e c) = totalEntries c"
proof -
  assume "map_of (userCacheOf u c) k \<noteq> None"
  then have "k \<in> fst ` set (userCacheOf u c)" by (metis map_of_eq_None_iff)
  then have "length (AList.update k e (userCacheOf u c)) = length (userCacheOf u c)" by (rule length_update_present)
  then show ?thesis using totalEntries_update [of u "AList.update k e (userCacheOf u c)" c] by (simp add: storeKey_def)
qed

lemma DecryptWithKey_ok:
  assumes "cacheOk (we_prims env) (we_key env) keys"
  shows "cacheOk (we_prims env) (we_key env) (snd (DecryptWithKey (we_prims env) (we_key env) t k keys))"
    and "plainKey env k = (case fst (DecryptWithKey (we_prims env) (we_key env) t k keys) of Inl _ \<Rightarrow> None | Inr p \<Rightarrow> Some p)"
  using assms Decrypt_ok(1) [OF assms] Decrypt_ok(2) [OF assms, of t k 0]
  by (auto simp: DecryptWithKey_def plainKey_def getEncryptionKey_def)

lemma cachedKey_userCache: "cachedKey now u k c = Some e \<Longrightarrow> map_of (userCacheOf u c) k = Some e"
  by (auto simp: cachedKey_def userCacheOf_def split: option.splits if_splits)

lemma cacheShape_store: "cacheShape c \<Longrightarrow> u \<noteq> [] \<Longrightarrow> cacheShape (storeKey u k e c)"
  by (simp add: storeKey_def cacheShape_update)

lemma hit_keeps:
  assumes "keysOk env st" "u \<noteq> []" "cachedKey now u k (ww_cache st) = Some e"
  shows "keysOk env (st\<lparr>ww_cache := storeKey u k (e\<lparr>dc_lastUsed := now\<rparr>) (ww_cache st)\<rparr>)" "plainKey env k = Some (dc_key e)"
proof -
  have m: "map_of (userCacheOf u (ww_cache st)) k = Some e" by (rule cachedKey_userCache [OF assms(3)])
  show p: "plainKey env k = Some (dc_key e)" using assms(1) m by (auto simp: keysOk_def soundCache_def)
  show "keysOk env (st\<lparr>ww_cache := storeKey u k (e\<lparr>dc_lastUsed := now\<rparr>) (ww_cache st)\<rparr>)"
    using assms(1,2) m p by (simp add: keysOk_def cacheShape_store totalEntries_touch soundCache_store)
qed

text \<open>
  C29. The cache of decrypted keys. For a user with an id the lookup always returns, also when entries must be evicted; it returns the plaintext
  of the stored secret, or the empty string when the secret cannot be decrypted, whatever is cached and has expired or was evicted before; afterwards the
  cache again holds at most a thousand entries, each with the plaintext of its key.
\<close>

theorem decrypted_keys_are_right_and_bounded:
  assumes "keysOk env st" "userID \<noteq> []"
  shows "\<exists>key st'. getCachedDecryptedKey env userID k st = Some (key, st') \<and> keysOk env st' \<and> totalEntries (ww_cache st') \<le> 1000
    \<and> key = (case plainKey env k of None \<Rightarrow> [] | Some p \<Rightarrow> p)"
proof -
  obtain now st1 where t1: "onWorker timeNow st = (now, st1)" by fastforce
  obtain t st2 where t2: "onWorker timeNow st1 = (t, st2)" by fastforce
  have c: "ww_cache st1 = ww_cache st" "ww_keys st1 = ww_keys st" "ww_cache st2 = ww_cache st" "ww_keys st2 = ww_keys st"
    using t1 t2 by (auto simp: onWorker_def Let_def split: prod.splits)
  then have k1: "keysOk env st1" and k2: "keysOk env st2" using assms(1) by (simp_all add: keysOk_def)
  have small: "totalEntries (ww_cache x) \<le> 1000" if "keysOk env x" for x using that by (simp add: keysOk_def maxDecryptionCacheSize_def)
  show ?thesis
  proof (cases "cachedKey now userID k (ww_cache st1)")
    case (Some e)
    note h = hit_keeps [OF k1 assms(2) Some]
    show ?thesis using h small [OF h(1)] by (simp add: getCachedDecryptedKey_def t1 Some)
  next
    case None
    obtain r keys where d: "DecryptWithKey (we_prims env) (we_key env) t k (ww_keys st2) = (r, keys)" by fastforce
    have ok: "cacheOk (we_prims env) (we_key env) (ww_keys st2)" using k2 by (simp add: keysOk_def)
    note dk = DecryptWithKey_ok [OF ok, where t = t and k = k, unfolded d fst_conv snd_conv]
    show ?thesis
    proof (cases r)
      case (Inl e)
      have "keysOk env (st2\<lparr>ww_keys := keys\<rparr>)" using k2 dk(1) by (simp add: keysOk_def)
      then show ?thesis using dk(2) Inl small [OF k2] by (simp add: getCachedDecryptedKey_def t1 t2 None d)
    next
      case (Inr p)
      let ?c = "storeKey userID k \<lparr>dc_key = p, dc_lastUsed = now, dc_expiresAt = now + decryptCacheTTL\<rparr> (ww_cache st2)"
      have "cacheShape ?c" using k2 assms(2) by (simp add: keysOk_def cacheShape_store)
      from evictLoop_returns [OF this] obtain c' where l: "evictLoop ?c = Some c'" "cacheShape c'" "totalEntries c' \<le> maxDecryptionCacheSize" by blast
      have "soundCache env ?c" using k2 dk(2) Inr by (intro soundCache_store) (simp_all add: keysOk_def)
      then have "soundCache env c'" using soundCache_evictLoop [OF l(1)] by blast
      then have "keysOk env (st2\<lparr>ww_keys := keys, ww_cache := c'\<rparr>)" using l dk(1) by (simp add: keysOk_def)
      moreover have "getCachedDecryptedKey env userID k st = Some (p, st2\<lparr>ww_keys := keys, ww_cache := c'\<rparr>)"
        using l(1) Inr by (simp add: getCachedDecryptedKey_def t1 t2 None d)
      ultimately show ?thesis using dk(2) Inr small by (intro exI conjI) (assumption, blast, blast, simp)
    qed
  qed
qed

section \<open>Delegated work whose session cannot be found again\<close>

lemma queryOne_no_faults: "faults d = [] \<Longrightarrow> queryOne msg sel d = (case sel d of None \<Rightarrow> (Inl (msg @ '': sql: no rows in result set''), d) | Some v \<Rightarrow> (Inr v, d))"
  by (simp add: queryOne_def split: option.split)

lemma OnTaskFailed_no_faults:
  assumes "faults d = []"
  shows "fst (OnTaskFailed i u m d) = Inr ()"
  using assms
  by (auto simp: OnTaskFailed_def tryCall_def GetDelegatedTaskByID_def UpdateDelegatedTaskStatus_def ResolveDependencies_def Let_def split_def updateTasks_def
      split: option.split)

lemma failTask_fails:
  assumes "faults d = []" "t \<in> set (db_tasks (failTask opts msg d))" "taskIs (rd_delegatedTaskID opts) (rd_userID opts) t"
  shows "t_Status t = TaskFailed \<and> t_ErrorMessage t = Some (take 500 msg)"
proof (cases "list_ex (taskIs (rd_delegatedTaskID opts) (rd_userID opts)) (db_tasks d)")
  case True
  have r: "OnTaskFailed (rd_delegatedTaskID opts) (rd_userID opts) msg d = (Inr (), failTask opts msg d)"
    using OnTaskFailed_no_faults [OF assms(1)] by (simp add: failTask_def prod_eq_iff)
  from finished_task_blocks_nobody_facts(2) [OF True r] assms(2,3) show ?thesis
    by (auto simp: taskIs_def split: if_splits)
next
  case False
  then have "List.find (taskIs (rd_delegatedTaskID opts) (rd_userID opts)) (db_tasks d) = None" by (simp add: find_None_iff list_ex_iff)
  then have "failTask opts msg d = d" using assms(1) by (simp add: failTask_def OnTaskFailed_def tryCall_def GetDelegatedTaskByID_def)
  then show ?thesis using False assms(2,3) by (auto simp: list_ex_iff)
qed

text \<open>
  What the orchestrator does with the text of a task: the sessions that are there after the work were there before or carry the cleaned
  text, and the statements that follow still succeed.
\<close>

definition cleansTask :: "(DelegatedWork \<Rightarrow> db \<Rightarrow> (unit result \<times> db) option) \<Rightarrow> bool" where
  "cleansTask f \<longleftrightarrow> (\<forall>w d r d'. f w d = Some (r, d') \<longrightarrow> faults d = [] \<longrightarrow> faults d' = []
     \<and> s_Task ` set (db_sessions d') \<subseteq> s_Task ` set (db_sessions d) \<union> {SanitizeTask (dw_Task w)})"

lemma settleTask_lost:
  assumes "faults d = []" "rd_task opts \<notin> s_Task ` set (db_sessions d)"
  shows "settleTask env opts d = (Inl ''find session: sql: no rows in result set'', failTask opts ''No session found after execution'' d)"
proof -
  have "filter (\<lambda>s. s_UserID s = rd_userID opts \<and> s_AgentID s = rd_agentID opts \<and> s_Task s = rd_task opts
      \<and> s_Status s \<in> {SessionDone, SessionError, SessionCancelled}) (db_sessions d) = []"
    using assms(2) by (auto simp: filter_empty_conv image_iff)
  then have "finishedTaskSession opts d = None" by (simp only: finishedTaskSession_def) (simp add: orderDesc_def)
  then show ?thesis using assms(1) by (simp add: settleTask_def queryOne_no_faults)
qed

lemma getCachedDecryptedKey_db:
  "getCachedDecryptedKey env u k st = Some (x, st') \<Longrightarrow> faults (ww_db st') = faults (ww_db st) \<and> db_sessions (ww_db st') = db_sessions (ww_db st)"
proof -
  assume g: "getCachedDecryptedKey env u k st = Some (x, st')"
  have t: "faults (ww_db b) = faults (ww_db a) \<and> db_sessions (ww_db b) = db_sessions (ww_db a)" if "onWorker timeNow a = (n, b)" for a b n
  proof -
    obtain m d where d: "timeNow (ww_db a) = (m, d)" by fastforce
    with that have "ww_db b = d" by (auto simp: onWorker_def)
    then show ?thesis using timeNow_other [OF d] tables_eqD(2) [OF timeNow_tables [OF d]] by simp
  qed
  obtain n1 a where a: "onWorker timeNow st = (n1, a)" by fastforce
  obtain n2 b where b: "onWorker timeNow a = (n2, b)" by fastforce
  have "ww_db st' = ww_db a \<or> ww_db st' = ww_db b"
    using g by (auto simp: getCachedDecryptedKey_def a b Let_def split: prod.splits option.splits sum.splits)
  then show ?thesis using t [OF a] t [OF b] by auto
qed

text \<open>
  Delegated work that is lost. The session of a delegated task is created with the cleaned text of the task and looked up with the
  original one. So when a task's text has a character that cleaning removes, and no older session has that very text, then the run
  of the task never finds the session of its work: with every outcome of the work, also a successful one, the delegated task ends as failed.
\<close>

theorem uncleaned_delegated_task_always_fails:
  assumes "runDelegatedTask env opts st = Some (r, st')" "we_execute env = Some f" "cleansTask f"
    and "SanitizeTask (rd_task opts) \<noteq> rd_task opts" "rd_task opts \<notin> s_Task ` set (db_sessions (ww_db st))" "faults (ww_db st) = []"
    and "t \<in> set (db_tasks (ww_db st'))" "taskIs (rd_delegatedTaskID opts) (rd_userID opts) t"
  shows "(\<exists>e. r = Inl e) \<and> t_Status t = TaskFailed"
proof -
  obtain k1 st1 k2 st2 where k: "getCachedDecryptedKey env (rd_userID opts) (rd_apiKey opts) st = Some (k1, st1)"
    "getCachedDecryptedKey env (rd_userID opts) (rd_githubToken opts) st1 = Some (k2, st2)"
    using assms(1,2) by (auto simp: runDelegatedTask_def split: option.splits)
  note s2 = getCachedDecryptedKey_db [OF k(1)] getCachedDecryptedKey_db [OF k(2)]
  obtain x st3 where u: "onWorker (UpdateDelegatedTaskStatus (rd_delegatedTaskID opts) (rd_userID opts) TaskRunning None) st2 = (x, st3)" by fastforce
  have s3: "x = Inr ()" "faults (ww_db st3) = []" "db_sessions (ww_db st3) = db_sessions (ww_db st)"
    using u s2 assms(6) timeNow_tables [of "ww_db st2"] timeNow_other [of "ww_db st2"]
    by (auto simp: onWorker_def UpdateDelegatedTaskStatus_def updateTasks_def Let_def split: prod.splits dest: tables_eqD(2))
  let ?w = "\<lparr>dw_UserID = rd_userID opts, dw_AgentID = rd_agentID opts, dw_Task = rd_task opts, dw_Repo = rd_repo opts,
    dw_Provider = rd_provider opts, dw_APIKey = k1, dw_GithubToken = k2, dw_AgentScope = rd_agentScope opts,
    dw_BaseURL = rd_baseURL opts, dw_ModelID = rd_modelID opts, dw_PlatformUserID = []\<rparr>"
  obtain y d where f: "f ?w (ww_db st3) = Some (y, d)"
    using assms(1) unfolding runDelegatedTask_def assms(2) k u by (auto simp: k u s3(1) split: option.splits)
  have "faults d = [] \<and> s_Task ` set (db_sessions d) \<subseteq> s_Task ` set (db_sessions (ww_db st3)) \<union> {SanitizeTask (dw_Task ?w)}"
    using assms(3) f s3(2) unfolding cleansTask_def by blast
  then have d: "faults d = []" "rd_task opts \<notin> s_Task ` set (db_sessions d)" using assms(4,5) s3(3) by auto
  note lost = settleTask_lost [OF d]
  have "runDelegatedTask env opts st = (case y of Inl e \<Rightarrow> Some (Inl e, st3\<lparr>ww_db := failTask opts (take 500 e) d\<rparr>)
      | Inr _ \<Rightarrow> Some (Inl ''find session: sql: no rows in result set'', st3\<lparr>ww_db := failTask opts ''No session found after execution'' d\<rparr>))"
    unfolding runDelegatedTask_def assms(2) option.case k prod.case u s3(1) sum.case f by (cases y) (simp_all add: lost)
  then obtain e msg where e: "r = Inl e" "ww_db st' = failTask opts msg d"
    using assms(1) by (cases y) auto
  have "t \<in> set (db_tasks (failTask opts msg d))" using assms(7) e(2) by simp
  from failTask_fails [OF d(1) this assms(8)] e(1) show ?thesis by blast
qed

lemma failTask_present:
  assumes "faults d = []" "list_ex (taskIs (rd_delegatedTaskID opts) (rd_userID opts)) (db_tasks d)"
  shows "\<exists>t \<in> set (db_tasks (failTask opts msg d)). taskIs (rd_delegatedTaskID opts) (rd_userID opts) t"
proof -
  have r: "OnTaskFailed (rd_delegatedTaskID opts) (rd_userID opts) msg d = (Inr (), failTask opts msg d)"
    using OnTaskFailed_no_faults [OF assms(1)] by (simp add: failTask_def prod_eq_iff)
  obtain t where t: "t \<in> set (db_tasks d)" "taskIs (rd_delegatedTaskID opts) (rd_userID opts) t" using assms(2) by (auto simp: list_ex_iff)
  from finished_task_blocks_nobody_facts(2) [OF assms(2) r] obtain now where m: "db_tasks (failTask opts msg d) =
      map (\<lambda>t. if taskIs (rd_delegatedTaskID opts) (rd_userID opts) t
               then t\<lparr>t_Status := TaskFailed, t_ErrorMessage := Some (take 500 msg), t_CompletedAt := Some now\<rparr>
               else if t_UserID t = rd_userID opts \<and> t_Status t = TaskPending then t\<lparr>t_BlockedBy := removeAll (rd_delegatedTaskID opts) (t_BlockedBy t)\<rparr>
               else t) (db_tasks d)" by blast
  have "t\<lparr>t_Status := TaskFailed, t_ErrorMessage := Some (take 500 msg), t_CompletedAt := Some now\<rparr> \<in> set (db_tasks (failTask opts msg d))"
    unfolding m set_map using t by (intro image_eqI [of _ _ t]) simp_all
  then show ?thesis using t(2) by (intro bexI) (simp_all add: taskIs_def)
qed

text \<open>Work that succeeds and leaves a finished session.\<close>

definition successfulWork :: "DelegatedWork \<Rightarrow> db \<Rightarrow> (unit result \<times> db) option" where
  "successfulWork w d =
     Some (Inr (), d\<lparr>db_sessions := db_sessions d @ [(sampleSession ''s9'')\<lparr>s_Task := SanitizeTask (dw_Task w), s_Status := SessionDone\<rparr>]\<rparr>)"

definition sampleWorkerEnv :: workerEnv where
  "sampleWorkerEnv = \<lparr>we_prims = samplePrimitives, we_key = [], we_jsonObject = (\<lambda>_. True), we_costCents = (\<lambda>_. None), we_order = (\<lambda>_. 0),
     we_execute = Some successfulWork\<rparr>"

definition sampleRunOptions :: runDelegatedTaskOptions where
  "sampleRunOptions = \<lparr>rd_delegatedTaskID = ''t2'', rd_userID = ''u'', rd_agentID = ''a'', rd_task = ''Fix: the build'', rd_repo = ''acme/app'', rd_provider = ''openai'',
     rd_apiKey = ''k'', rd_githubToken = ''g'', rd_agentScope = None, rd_baseURL = [], rd_modelID = []\<rparr>"

definition workedDb :: db where
  "workedDb =
     (let d = snd (UpdateDelegatedTaskStatus ''t2'' ''u'' TaskRunning None sampleDb)
      in d\<lparr>db_sessions := db_sessions d @ [(sampleSession ''s9'')\<lparr>s_Task := ''Fix the build'', s_Status := SessionDone\<rparr>]\<rparr>)"

lemma workedDb_facts:
  "faults workedDb = []" "rd_task sampleRunOptions \<notin> s_Task ` set (db_sessions workedDb)" "list_ex (taskIs ''t2'' ''u'') (db_tasks workedDb)"
  by code_simp+

lemma sample_delegated_run:
  "runDelegatedTask sampleWorkerEnv sampleRunOptions (NewWorker sampleDb [])
      = Some (Inl ''find session: sql: no rows in result set'',
              (NewWorker sampleDb [])\<lparr>ww_db := failTask sampleRunOptions ''No session found after execution'' workedDb\<rparr>)"
proof -
  let ?d = "snd (UpdateDelegatedTaskStatus ''t2'' ''u'' TaskRunning None sampleDb)"
  have f: "faults sampleDb = []" "ticks sampleDb = []" by code_simp+
  then have t: "timeNow sampleDb = (clock sampleDb, sampleDb)" by (simp add: timeNow_def)
  have k: "getCachedDecryptedKey sampleWorkerEnv u k (NewWorker sampleDb []) = Some ([], NewWorker sampleDb [])" for u k
    by (simp add: getCachedDecryptedKey_def onWorker_def NewWorker_def t cachedKey_def sampleWorkerEnv_def DecryptWithKey_def getEncryptionKey_def)
  have s: "SanitizeTask ''Fix: the build'' = ''Fix the build''" by code_simp
  have u: "fst (UpdateDelegatedTaskStatus ''t2'' ''u'' TaskRunning None sampleDb) = Inr ()" by code_simp
  have e: "we_execute sampleWorkerEnv = Some successfulWork" by (simp add: sampleWorkerEnv_def)
  have o: "rd_task sampleRunOptions = ''Fix: the build''" "rd_delegatedTaskID sampleRunOptions = ''t2''" "rd_userID sampleRunOptions = ''u''"
    by (simp_all add: sampleRunOptions_def)
  have w: "onWorker (UpdateDelegatedTaskStatus ''t2'' ''u'' TaskRunning None) (NewWorker sampleDb []) = (Inr (), (NewWorker sampleDb [])\<lparr>ww_db := ?d\<rparr>)"
    using u by (simp add: onWorker_def NewWorker_def split_def)
  show ?thesis
    unfolding runDelegatedTask_def e option.case k prod.case o w sum.case successfulWork_def
    using settleTask_lost [OF workedDb_facts(1,2), of sampleWorkerEnv] by (simp add: s workedDb_def Let_def)
qed

theorem uncleaned_delegated_task_always_fails_witness:
  "\<exists>r st t. runDelegatedTask sampleWorkerEnv sampleRunOptions (NewWorker sampleDb []) = Some (r, st)
     \<and> t \<in> set (db_tasks (ww_db st)) \<and> taskIs ''t2'' ''u'' t \<and> t_Status t = TaskFailed"
proof -
  define st where "st = (NewWorker sampleDb [])\<lparr>ww_db := failTask sampleRunOptions ''No session found after execution'' workedDb\<rparr>"
  note r = sample_delegated_run [folded st_def]
  have o: "rd_delegatedTaskID sampleRunOptions = ''t2''" "rd_userID sampleRunOptions = ''u''" by (simp_all add: sampleRunOptions_def)
  obtain t where t: "t \<in> set (db_tasks (ww_db st))" "taskIs ''t2'' ''u'' t"
    using failTask_present [of workedDb sampleRunOptions] workedDb_facts o by (auto simp: st_def)
  have e: "we_execute sampleWorkerEnv = Some successfulWork" "cleansTask successfulWork"
    by (auto simp: sampleWorkerEnv_def cleansTask_def successfulWork_def)
  have s: "SanitizeTask (rd_task sampleRunOptions) \<noteq> rd_task sampleRunOptions"
    "rd_task sampleRunOptions \<notin> s_Task ` set (db_sessions (ww_db (NewWorker sampleDb [])))" "faults (ww_db (NewWorker sampleDb [])) = []"
    by code_simp+
  have "taskIs (rd_delegatedTaskID sampleRunOptions) (rd_userID sampleRunOptions) t" using t(2) o by simp
  from uncleaned_delegated_task_always_fails [OF r e s t(1) this] have "t_Status t = TaskFailed" by blast
  with r t show ?thesis by blast
qed

theorem decrypted_keys_are_right_and_bounded_witness:
  "\<exists>key st'. getCachedDecryptedKey sampleWorkerEnv ''u'' ''not a secret'' (NewWorker sampleDb []) = Some (key, st')
     \<and> totalEntries (ww_cache st') \<le> 1000 \<and> key = []"
proof -
  have k: "keysOk sampleWorkerEnv (NewWorker sampleDb [])"
    by (simp add: keysOk_def NewWorker_def cacheShape_def totalEntries_def soundCache_def userCacheOf_def cacheOk_def cacheGet_def)
  have "plainKey sampleWorkerEnv ''not a secret'' = None"
    by (simp add: plainKey_def sampleWorkerEnv_def DecryptWithKey_def getEncryptionKey_def)
  with decrypted_keys_are_right_and_bounded [OF k, of "''u''" "''not a secret''"] show ?thesis by auto
qed

text \<open>The check of the worker lets names pass that the orchestrator refuses.\<close>

lemma repository_checks_differ:
  "MatchString workerRepoPattern ''acme/..'' \<and> validateRepoName ''acme/..'' \<noteq> Inr ()"
  "\<not> MatchString workerRepoPattern ''acme.io/app'' \<and> validateRepoName ''acme.io/app'' = Inr ()"
  by code_simp+

section \<open>A poll settles what it claims\<close>

lemma calm_LogDelegation: "calm (LogDelegation opts)"
  by (auto simp: calm_def LogDelegation_def CreateDelegationEvent_def tryCall_def Let_def split_def split: sum.split)

lemma updateTasks_faults [simp]: "faults (updateTasks P f d) = faults d" "db_agents (updateTasks P f d) = db_agents d"
  by (simp_all add: updateTasks_def)

lemma timeNow_agents [simp]: "db_agents (snd (timeNow d)) = db_agents d"
  by (simp add: timeNow_def split: list.split)

lemma OnTaskFailed_quiet:
  assumes "faults d = []"
  shows "faults (snd (OnTaskFailed i u m d)) = []" "db_agents (snd (OnTaskFailed i u m d)) = db_agents d"
proof -
  have l: "faults x = [] \<Longrightarrow> faults (snd (LogDelegation opts x)) = []" "db_agents (snd (LogDelegation opts x)) = db_agents x" for opts x
    using calm_LogDelegation [of opts] LogDelegation_frame(1) [of opts x] by (auto simp: calm_def prod_eq_iff)
  show "faults (snd (OnTaskFailed i u m d)) = []" "db_agents (snd (OnTaskFailed i u m d)) = db_agents d"
    using assms by (auto simp: OnTaskFailed_def tryCall_def GetDelegatedTaskByID_def UpdateDelegatedTaskStatus_def ResolveDependencies_def
        Let_def split_def l split: option.split)
qed

definition ownTasks :: "db \<Rightarrow> bool" where
  "ownTasks d \<longleftrightarrow> distinct (map a_ID (db_agents d))
     \<and> (\<forall>t \<in> set (db_tasks d). \<exists>a \<in> set (db_agents d). a_ID a = t_ToAgentID t \<and> a_UserID a = t_UserID t)"

definition claimedIDs :: "db \<Rightarrow> string set" where
  "claimedIDs d = t_ID ` {t \<in> set (db_tasks d). t_Status t = TaskClaimed}"

text \<open>A change of the tasks that keeps their ids, owners and receivers.\<close>

definition sameOwners :: "db \<Rightarrow> db \<Rightarrow> bool" where
  "sameOwners d d' \<longleftrightarrow> map (\<lambda>t. (t_ID t, t_UserID t, t_ToAgentID t)) (db_tasks d') = map (\<lambda>t. (t_ID t, t_UserID t, t_ToAgentID t)) (db_tasks d)
     \<and> db_agents d' = db_agents d"

lemma sameOwners_trans: "sameOwners a b \<Longrightarrow> sameOwners b c \<Longrightarrow> sameOwners a c"
  by (simp add: sameOwners_def)

lemma sameOwners_own: "sameOwners d d' \<Longrightarrow> ownTasks d \<Longrightarrow> ownTasks d'"
proof -
  assume s: "sameOwners d d'" and o: "ownTasks d"
  have "\<exists>t0 \<in> set (db_tasks d). t_ToAgentID t0 = t_ToAgentID t \<and> t_UserID t0 = t_UserID t" if "t \<in> set (db_tasks d')" for t
  proof -
    have "(t_ID t, t_UserID t, t_ToAgentID t) \<in> set (map (\<lambda>t. (t_ID t, t_UserID t, t_ToAgentID t)) (db_tasks d))"
      using that s unfolding sameOwners_def by (metis (no_types, lifting) image_eqI list.set_map)
    then show ?thesis by auto
  qed
  then show "ownTasks d'" using o s by (fastforce simp: ownTasks_def sameOwners_def)
qed

lemma sameOwners_update:
  assumes "db_tasks d' = map f (db_tasks d)" "db_agents d' = db_agents d" "\<And>t. t_ID (f t) = t_ID t \<and> t_UserID (f t) = t_UserID t \<and> t_ToAgentID (f t) = t_ToAgentID t"
  shows "sameOwners d d'"
  using assms by (simp add: sameOwners_def)

lemma fail_claimed:
  assumes "faults d = []" "list_ex (taskIs i u) (db_tasks d)"
  shows "sameOwners d (snd (OnTaskFailed i u m d))" "faults (snd (OnTaskFailed i u m d)) = []"
    "claimedIDs (snd (OnTaskFailed i u m d)) \<subseteq> t_ID ` {t \<in> set (db_tasks d). t_Status t = TaskClaimed \<and> \<not> taskIs i u t}"
proof -
  have r: "OnTaskFailed i u m d = (Inr (), snd (OnTaskFailed i u m d))" using OnTaskFailed_no_faults [OF assms(1)] by (simp add: prod_eq_iff)
  from finished_task_blocks_nobody_facts(2) [OF assms(2) r] obtain now where e: "db_tasks (snd (OnTaskFailed i u m d)) =
      map (\<lambda>t. if taskIs i u t then t\<lparr>t_Status := TaskFailed, t_ErrorMessage := Some (take 500 m), t_CompletedAt := Some now\<rparr>
               else if t_UserID t = u \<and> t_Status t = TaskPending then t\<lparr>t_BlockedBy := removeAll i (t_BlockedBy t)\<rparr> else t) (db_tasks d)" by blast
  show "sameOwners d (snd (OnTaskFailed i u m d))"
    by (rule sameOwners_update [OF e OnTaskFailed_quiet(2) [OF assms(1)]]) simp
  show "faults (snd (OnTaskFailed i u m d)) = []" by (rule OnTaskFailed_quiet(1) [OF assms(1)])
  show "claimedIDs (snd (OnTaskFailed i u m d)) \<subseteq> t_ID ` {t \<in> set (db_tasks d). t_Status t = TaskClaimed \<and> \<not> taskIs i u t}"
    unfolding claimedIDs_def e by (auto split: if_splits)
qed

lemma prepareRun_reads:
  assumes "faults d = []"
  shows "snd (prepareRun env u t a k g d) = d" "fst (prepareRun env u t a k g d) = Inr opts \<Longrightarrow> rd_delegatedTaskID opts = t_ID t"
proof -
  obtain x where x: "(case t_ParentSessionID t of None \<Rightarrow> (None, d)
      | Some p \<Rightarrow> (case GetSession p u d of (Inl _, d') \<Rightarrow> (None, d') | (Inr s, d') \<Rightarrow> (s, d'))) = (x, d)"
    using assms by (cases "t_ParentSessionID t") (auto simp: GetSession_def)
  show "snd (prepareRun env u t a k g d) = d" "fst (prepareRun env u t a k g d) = Inr opts \<Longrightarrow> rd_delegatedTaskID opts = t_ID t"
    unfolding prepareRun_def x Let_def prod.case by (auto split: option.splits if_splits)
qed

lemma taskOf_reads:
  assumes "faults d = []"
  shows "snd (taskOf env u t a d) = d" "fst (taskOf env u t a d) = Inr opts \<Longrightarrow> rd_delegatedTaskID opts = t_ID t"
  using assms prepareRun_reads [OF assms]
  by (auto simp: taskOf_def GetAPIKey_def GetGithubConnection_def split: option.splits if_splits)

text \<open>The state of a poll: statements succeed, ids are unique and every task belongs to the owner of its receiver.\<close>

definition pollOk :: "WorkerState \<Rightarrow> bool" where
  "pollOk st \<longleftrightarrow> faults (ww_db st) = [] \<and> distinct (map t_ID (db_tasks (ww_db st))) \<and> ownTasks (ww_db st)"

definition settles :: "WorkerState \<Rightarrow> WorkerState \<Rightarrow> bool" where
  "settles st st' \<longleftrightarrow> pollOk st' \<and> sameOwners (ww_db st) (ww_db st') \<and> set (ww_active st) \<subseteq> set (ww_active st')
     \<and> claimedIDs (ww_db st') \<subseteq> claimedIDs (ww_db st) \<union> rd_delegatedTaskID ` set (ww_active st')"

lemma distinct_sameOwners: "sameOwners d d' \<Longrightarrow> distinct (map t_ID (db_tasks d)) \<Longrightarrow> distinct (map t_ID (db_tasks d'))"
proof -
  assume s: "sameOwners d d'" and d: "distinct (map t_ID (db_tasks d))"
  have "map t_ID x = map fst (map (\<lambda>t. (t_ID t, t_UserID t, t_ToAgentID t)) x)" for x by simp
  note e = this [of "db_tasks d'"] this [of "db_tasks d"]
  have "map t_ID (db_tasks d') = map t_ID (db_tasks d)" unfolding e using s by (simp only: sameOwners_def)
  with d show ?thesis by simp
qed

lemma settles_trans:
  assumes "settles a b" "settles b c"
  shows "settles a c"
proof -
  have ab: "sameOwners (ww_db a) (ww_db b)" "set (ww_active a) \<subseteq> set (ww_active b)"
      "claimedIDs (ww_db b) \<subseteq> claimedIDs (ww_db a) \<union> rd_delegatedTaskID ` set (ww_active b)"
    and bc: "pollOk c" "sameOwners (ww_db b) (ww_db c)" "set (ww_active b) \<subseteq> set (ww_active c)"
      "claimedIDs (ww_db c) \<subseteq> claimedIDs (ww_db b) \<union> rd_delegatedTaskID ` set (ww_active c)"
    using assms by (simp_all add: settles_def)
  have "claimedIDs (ww_db c) \<subseteq> claimedIDs (ww_db a) \<union> rd_delegatedTaskID ` set (ww_active c)" using ab(3) bc(3,4) by blast
  then show ?thesis using bc(1) sameOwners_trans [OF ab(1) bc(2)] subset_trans [OF ab(2) bc(3)] by (simp add: settles_def)
qed

lemma settles_refl: "pollOk st \<Longrightarrow> settles st st"
  by (auto simp: settles_def sameOwners_def)

lemma settlesI:
  assumes "pollOk st" "faults (ww_db st') = []" "sameOwners (ww_db st) (ww_db st')" "set (ww_active st) \<subseteq> set (ww_active st')"
    "claimedIDs (ww_db st') \<subseteq> claimedIDs (ww_db st) \<union> rd_delegatedTaskID ` set (ww_active st')"
  shows "settles st st'"
  using assms sameOwners_own distinct_sameOwners by (auto simp: settles_def pollOk_def)

lemma pollAgent_claims:
  assumes ok: "pollOk st" and c: "claimCandidate (db_tasks (ww_db st)) a = Some c"
    and d2: "faults d2 = []" "db_agents d2 = db_agents (ww_db st)"
      "db_tasks d2 = map (\<lambda>t. if t_ID t = t_ID c then claimRow n t else t) (db_tasks (ww_db st))"
  shows "sameOwners (ww_db st) d2" "list_ex (taskIs (t_ID c) (t_UserID c)) (db_tasks d2)"
    "claimedIDs d2 \<subseteq> insert (t_ID c) (claimedIDs (ww_db st))"
    "t_ID ` {t \<in> set (db_tasks d2). t_Status t = TaskClaimed \<and> \<not> taskIs (t_ID c) (t_UserID c) t} \<subseteq> claimedIDs (ww_db st)"
proof -
  show "sameOwners (ww_db st) d2" by (rule sameOwners_update [OF d2(3,2)]) (simp add: claimRow_def)
  have m: "c \<in> set (db_tasks (ww_db st))" using claimCandidate_ready [OF c] by blast
  then have "claimRow n c \<in> set (db_tasks d2)" unfolding d2(3) set_map by (intro image_eqI [of _ _ c]) simp_all
  then show "list_ex (taskIs (t_ID c) (t_UserID c)) (db_tasks d2)" by (auto simp: list_ex_iff taskIs_def claimRow_def intro: bexI [of _ "claimRow n c"])
  show "claimedIDs d2 \<subseteq> insert (t_ID c) (claimedIDs (ww_db st))" unfolding claimedIDs_def d2(3) by (auto simp: claimRow_def)
  have same: "t = c" if "t \<in> set (db_tasks (ww_db st))" "t_ID t = t_ID c" for t
    using that m ok distinct_map_eqD [of t_ID] by (auto simp: pollOk_def)
  show "t_ID ` {t \<in> set (db_tasks d2). t_Status t = TaskClaimed \<and> \<not> taskIs (t_ID c) (t_UserID c) t} \<subseteq> claimedIDs (ww_db st)"
    unfolding claimedIDs_def d2(3) by (auto simp: claimRow_def taskIs_def dest: same)
qed

lemma pollAgent_settles:
  assumes ok: "pollOk st" and owner: "\<exists>x \<in> set (db_agents (ww_db st)). a_ID x = a \<and> a_UserID x = u"
  shows "\<exists>st'. pollAgent env (a, u) st = Ret st' \<and> settles st st'"
proof -
  let ?d = "ww_db st"
  have f: "faults ?d = []" using ok by (simp add: pollOk_def)
  define n where "n = length (filter (\<lambda>s. s_UserID s = u \<and> activeSession (s_Status s)) (db_sessions ?d))"
  have start: "onWorker (canStartNewSession u) st = (Inr (n < maxConcurrentSessionsPerUser), st)"
    using f by (simp add: onWorker_def canStartNewSession_def CountActiveSessions_def n_def)
  show ?thesis
  proof (cases "claimCandidate (db_tasks ?d) a")
    case None
    then have "onWorker (ClaimNextTask a) st = (Inr None, st)" using f by (simp add: onWorker_def ClaimNextTask_def)
    then show ?thesis using settles_refl [OF ok] by (cases "n < maxConcurrentSessionsPerUser") (simp_all add: pollAgent_def start)
  next
    case (Some c)
    obtain now d1 where t: "timeNow ?d = (now, d1)" by fastforce
    define d2 where "d2 = updateTasks (\<lambda>t. t_ID t = t_ID c) (claimRow now) d1"
    have claim: "onWorker (ClaimNextTask a) st = (Inr (Some (claimRow now c)), st\<lparr>ww_db := d2\<rparr>)"
      using f Some by (simp add: onWorker_def ClaimNextTask_def t d2_def claimRow_def [abs_def])
    have d2: "faults d2 = []" "db_agents d2 = db_agents ?d" "db_tasks d2 = map (\<lambda>t. if t_ID t = t_ID c then claimRow now t else t) (db_tasks ?d)"
      using f timeNow_other [OF t] tables_eqD(1,3) [OF timeNow_tables [OF t]] by (simp_all add: d2_def) (simp add: updateTasks_def updateRows_def)
    note cl = pollAgent_claims [OF ok Some d2]
    obtain ag where ag: "List.find (\<lambda>x. a_ID x = a \<and> a_UserID x = u) (db_agents d2) = Some ag"
      using owner d2(2) by (cases "List.find (\<lambda>x. a_ID x = a \<and> a_UserID x = u) (db_agents d2)") (auto simp: find_None_iff)
    have get: "onWorker (GetAgent a u) (st\<lparr>ww_db := d2\<rparr>) = (Inr (Some ag), st\<lparr>ww_db := d2\<rparr>)"
      using ag d2(1) by (simp add: onWorker_def GetAgent_def)
    obtain r where r: "onWorker (taskOf env u (claimRow now c) ag) (st\<lparr>ww_db := d2\<rparr>) = (r, st\<lparr>ww_db := d2\<rparr>)"
      "\<And>opts. r = Inr opts \<Longrightarrow> rd_delegatedTaskID opts = t_ID c"
      using taskOf_reads [OF d2(1), of env u "claimRow now c" ag] by (auto simp: onWorker_def split_def claimRow_def)
    define fin where "fin = (case r of
        Inl msg \<Rightarrow> st\<lparr>ww_db := snd (OnTaskFailed (t_ID c) (t_UserID c) msg d2)\<rparr>
      | Inr opts \<Rightarrow> st\<lparr>ww_db := d2, ww_active := ww_active st @ [opts]\<rparr>)"
    have "settles st fin"
    proof (cases r)
      case (Inl msg)
      note fc = fail_claimed [OF d2(1) cl(2), of msg]
      show ?thesis by (rule settlesI [OF ok]) (use Inl fc cl sameOwners_trans [OF cl(1) fc(1)] in \<open>auto simp: fin_def\<close>)
    next
      case (Inr opts)
      show ?thesis by (rule settlesI [OF ok]) (use Inr r(2) d2 cl in \<open>auto simp: fin_def\<close>)
    qed
    moreover have i: "t_ID (claimRow now c) = t_ID c" "t_UserID (claimRow now c) = t_UserID c" by (simp_all add: claimRow_def)
    then have "pollAgent env (a, u) st = Ret (if n < maxConcurrentSessionsPerUser then fin else st)"
      by (cases "n < maxConcurrentSessionsPerUser"; cases r) (simp_all add: pollAgent_def start claim get r(1) fin_def)
    ultimately show ?thesis using settles_refl [OF ok] by (cases "n < maxConcurrentSessionsPerUser") simp_all
  qed
qed

lemma pollAgents_settle:
  assumes "pollOk st" "\<forall>(a, u) \<in> set as. \<exists>x \<in> set (db_agents (ww_db st)). a_ID x = a \<and> a_UserID x = u"
  shows "\<exists>st'. pollAgents env as st = Ret st' \<and> settles st st'"
  using assms
proof (induction as arbitrary: st)
  case (Cons p as)
  obtain a u where p: "p = (a, u)" by force
  from pollAgent_settles [OF Cons.prems(1), of a u env] Cons.prems(2) p obtain st1 where
    s1: "pollAgent env (a, u) st = Ret st1" "settles st st1" by auto
  then have "pollOk st1" "db_agents (ww_db st1) = db_agents (ww_db st)" by (simp_all add: settles_def sameOwners_def)
  from Cons.IH [OF this(1)] Cons.prems(2) this(2) obtain st2 where "pollAgents env as st1 = Ret st2" "settles st1 st2" by auto
  then show ?case using s1 p settles_trans by auto
qed (simp add: settles_refl)



end
