(* ===== verification/Pipelines.thy ===== *)
theory Pipelines
  imports Schedules Scheduler Worker
begin

text \<open>
  Issue pipelines: the statements of \<open>go-shared/issue_pipelines.go\<close>, the service that works on labelled GitHub issues
  (\<open>bot/issue_pipeline/pipeline.go\<close>, \<open>executor.go\<close>) and its calls of GitHub (\<open>github.go\<close>). The state is the struct \<open>PipelineService\<close> with the
  database and the key cache of the process; the requests sent to GitHub and the calls of \<open>notifyScheduleResult\<close> are recorded in order. What GitHub answers, and
  how long the rate limiter makes a caller wait, may depend on all requests so far. The work is a parameter, in
  \<open>bot/main.go\<close> a container run; work that does not return has the value \<open>None\<close>.
\<close>

section \<open>The store\<close>

definition printInt :: "int \<Rightarrow> string" where
  "printInt i = (if i < 0 then ''-'' @ Itoa (nat (- i)) else Itoa (nat i))"

record IssuePipelineWithAgent =
  iw_Pipeline :: IssuePipeline
  iw_AgentName :: string

definition pipelineIs :: "string \<Rightarrow> string \<Rightarrow> IssuePipeline \<Rightarrow> bool" where
  "pipelineIs pid userID p = (ip_ID p = pid \<and> ip_UserID p = userID)"

definition updatePipelines :: "(IssuePipeline \<Rightarrow> bool) \<Rightarrow> (IssuePipeline \<Rightarrow> IssuePipeline) \<Rightarrow> db \<Rightarrow> db" where
  "updatePipelines P f d = d\<lparr>db_pipelines := updateRows P f (db_pipelines d)\<rparr>"

text \<open>The primary key, the unique index on the session, and the references to agent and session.\<close>

definition sessionRefError :: "string option \<Rightarrow> (IssuePipeline \<Rightarrow> bool) \<Rightarrow> db \<Rightarrow> string option" where
  "sessionRefError sid others d =
     (case sid of
        None \<Rightarrow> None
      | Some i \<Rightarrow>
          if list_ex (\<lambda>v. others v \<and> ip_SessionID v = Some i) (db_pipelines d) then Some duplicateKey
          else if list_ex (\<lambda>s. s_ID s = i) (db_sessions d) then None else Some foreignKey)"

definition insertPipelineError :: "IssuePipeline \<Rightarrow> db \<Rightarrow> string option" where
  "insertPipelineError p d =
     (if list_ex (\<lambda>v. ip_ID v = ip_ID p) (db_pipelines d) then Some duplicateKey
      else if list_ex (\<lambda>a. a_ID a = ip_AgentID p) (db_agents d) then sessionRefError (ip_SessionID p) (\<lambda>_. True) d
      else Some foreignKey)"

definition CreateIssuePipeline :: "IssuePipeline \<Rightarrow> db \<Rightarrow> IssuePipeline result \<times> db" where
  "CreateIssuePipeline p d =
     (let (pid, d1) = newID d; (now, d2) = timeNow d1;
          row = p\<lparr>ip_ID := pid, ip_CreatedAt := now, ip_UpdatedAt := now\<rparr>
      in case execChecked ''create issue pipeline'' (insertPipelineError row) (\<lambda>d. d\<lparr>db_pipelines := db_pipelines d @ [row]\<rparr>) d2 of
           (Inl e, d3) \<Rightarrow> (Inl e, d3)
         | (Inr _, d3) \<Rightarrow> (Inr row, d3))"

definition GetIssuePipeline :: "string \<Rightarrow> string \<Rightarrow> db \<Rightarrow> IssuePipeline option result \<times> db" where
  "GetIssuePipeline pid userID = queryRow ''get issue pipeline'' (\<lambda>d. List.find (pipelineIs pid userID) (db_pipelines d))"

text \<open>\<open>COUNT(*) OVER()\<close> comes with every row; a page without rows has the count 0.\<close>

definition countedPage :: "(db \<Rightarrow> 'a list) \<Rightarrow> 'a list result \<times> db \<Rightarrow> ('a list \<times> nat) result \<times> db" where
  "countedPage sel r =
     (case r of
        (Inl e, d1) \<Rightarrow> (Inl e, d1)
      | (Inr rows, d1) \<Rightarrow> (Inr (rows, if rows = [] then 0 else length (sel d1)), d1))"

definition ListIssuePipelines :: "string \<Rightarrow> int \<Rightarrow> int \<Rightarrow> db \<Rightarrow> (IssuePipeline list \<times> nat) result \<times> db" where
  "ListIssuePipelines userID limit offset d =
     (let sel = (\<lambda>d. orderDesc ip_CreatedAt (filter (\<lambda>p. ip_UserID p = userID) (db_pipelines d))) in
      countedPage sel (queryPage ''list issue pipelines'' ''scan issue pipeline'' ''iterate issue pipelines'' limit offset sel d))"

definition pipelineWithAgent :: "db \<Rightarrow> IssuePipeline \<Rightarrow> IssuePipelineWithAgent option" where
  "pipelineWithAgent d p =
     map_option (\<lambda>a. \<lparr>iw_Pipeline = p, iw_AgentName = a_Name a\<rparr>) (List.find (\<lambda>a. a_ID a = ip_AgentID p) (db_agents d))"

definition ListIssuePipelinesWithAgent :: "string \<Rightarrow> int \<Rightarrow> int \<Rightarrow> db \<Rightarrow> (IssuePipelineWithAgent list \<times> nat) result \<times> db" where
  "ListIssuePipelinesWithAgent userID limit offset d =
     (let sel = (\<lambda>d. orderDesc (ip_CreatedAt \<circ> iw_Pipeline)
                       (List.map_filter (pipelineWithAgent d) (filter (\<lambda>p. ip_UserID p = userID) (db_pipelines d)))) in
      countedPage sel (queryPage ''list issue pipelines with agent'' ''scan issue pipeline with agent'' ''iterate issue pipelines with agent''
        limit offset sel d))"

definition pipelineStatusRow :: "nat \<Rightarrow> string \<Rightarrow> string option \<Rightarrow> IssuePipeline \<Rightarrow> IssuePipeline" where
  "pipelineStatusRow now status errorMessage p =
     p\<lparr>ip_Status := status, ip_ErrorMessage := errorMessage, ip_UpdatedAt := now,
       ip_StartedAt := (if status = ''running'' then Some now else ip_StartedAt p),
       ip_FinishedAt := (if status = ''done'' \<or> status = ''error'' then Some now else ip_FinishedAt p)\<rparr>"

definition UpdateIssuePipelineStatus :: "string \<Rightarrow> string \<Rightarrow> string \<Rightarrow> string option \<Rightarrow> db \<Rightarrow> unit result \<times> db" where
  "UpdateIssuePipelineStatus pid userID status errorMessage d =
     (let (now, d1) = timeNow d in
      execStmt ''update issue pipeline status'' (updatePipelines (pipelineIs pid userID) (pipelineStatusRow now status errorMessage)) d1)"

definition UpdateIssuePipelineResult :: "string \<Rightarrow> string \<Rightarrow> int \<Rightarrow> string \<Rightarrow> string \<Rightarrow> string \<Rightarrow> db \<Rightarrow> unit result \<times> db" where
  "UpdateIssuePipelineResult pid userID prNumber prURL branchName sessionID d =
     (let (now, d1) = timeNow d; hit = pipelineIs pid userID in
      execChecked ''update issue pipeline result''
        (\<lambda>d. if list_ex hit (db_pipelines d) then sessionRefError (Some sessionID) (\<lambda>v. \<not> hit v) d else None)
        (updatePipelines hit (\<lambda>p. p\<lparr>ip_PrNumber := Some prNumber, ip_PrURL := Some prURL, ip_BranchName := Some branchName,
                                    ip_SessionID := Some sessionID, ip_UpdatedAt := now\<rparr>)) d1)"

definition GetPendingIssuePipelines :: "int \<Rightarrow> db \<Rightarrow> IssuePipeline list result \<times> db" where
  "GetPendingIssuePipelines limit =
     (let n = (if limit \<le> 0 then 100 else nat limit) in
      queryRows ''get pending issue pipelines'' ''scan pending issue pipeline'' ''iterate pending issue pipelines''
        (\<lambda>d. take n (sort_key ip_CreatedAt (filter (\<lambda>p. ip_Status p = ''pending'') (db_pipelines d)))))"

section \<open>GitHub\<close>

record GithubRequest =
  gr_Method :: string
  gr_URL :: string
  gr_Token :: string
  gr_Payload :: "(string \<times> string) list"

record PullRequest =
  pr_Number :: int
  pr_URL :: string

record PipelineWork =
  pw_UserID :: string
  pw_AgentID :: string
  pw_Task :: string
  pw_Repo :: string
  pw_Provider :: string
  pw_APIKey :: string
  pw_GithubToken :: string
  pw_AgentScope :: "string option"
  pw_BaseURL :: string
  pw_ModelID :: string

text \<open>
  What the service is given. \<open>pe_branchFormat\<close> stands for \<open>branchFormatPattern\<close>: its text uses a negative look-ahead, which Go's \<open>regexp\<close> does not have, so
  there is no compiled pattern to translate (see \<open>branchFormatPattern_does_not_compile\<close>). A response is its status
  and its body; \<open>json.Marshal\<close> of a map of strings does not fail, nor does \<open>http.NewRequest\<close> on the URLs built here.
\<close>

record pipelineEnv =
  pe_prims :: primitives
  pe_key :: string
  pe_branchFormat :: "string \<Rightarrow> bool"
  pe_wait :: "GithubRequest list \<Rightarrow> string option"
  pe_http :: "GithubRequest list \<Rightarrow> (nat \<times> string) result"
  pe_decodePull :: "string \<Rightarrow> PullRequest result"
  pe_decodeBranch :: "string \<Rightarrow> string result"
  pe_execute :: "PipelineWork \<Rightarrow> db \<Rightarrow> (unit result \<times> db) option"

record PipelineState =
  pl_db :: db
  pl_keys :: scryptCache
  pl_requests :: "GithubRequest list"
  pl_results :: "ScheduleResult list" \<comment> \<open>calls of \<open>notifyScheduleResult\<close>\<close>
  pl_stopped :: bool
  pl_isPolling :: bool
  pl_running :: nat
  pl_semaphore :: nat
  pl_active :: "IssuePipeline list"
  pl_late :: "IssuePipeline list" \<comment> \<open>executions that outlived their timeout\<close>

definition repoFormatPattern :: re where
  "repoFormatPattern =
     Cat Bol (Cat (plus1 (Cls (alnumClass @ oneOf ''_-''))) (Cat (lit ''/'') (Cat (plus1 (Cls (alnumClass @ oneOf ''_-''))) Eol)))"

definition branchFormatPatternText :: string where
  "branchFormatPatternText = ''^(?!refs/)[a-zA-Z0-9_.'' @ [CHR 0x5C] @ ''-]+(/[a-zA-Z0-9_.'' @ [CHR 0x5C] @ ''-]+)*$''"

text \<open>
  The flags between \<open>(?\<close> and the colon or parenthesis, as the parser of \<open>regexp\<close> reads them, and a text whose first \<open>(?\<close>, outside
  classes and escapes, opens neither a named group nor flags: \<open>MustCompile\<close> panics on it.
\<close>

fun perlFlagsOk :: "bool \<Rightarrow> bool \<Rightarrow> string \<Rightarrow> bool" where
  "perlFlagsOk negated saw [] = False"
| "perlFlagsOk negated saw (c # t) =
     (if c \<in> set ''imsU'' then perlFlagsOk negated True t
      else if c = CHR ''-'' then \<not> negated \<and> perlFlagsOk True False t
      else if c \<in> set '':)'' then \<not> negated \<or> saw
      else False)"

definition badPerlGroup :: "string \<Rightarrow> bool" where
  "badPerlGroup s =
     (case Index s ''(?'' of
        None \<Rightarrow> False
      | Some n \<Rightarrow>
          (let t = drop (n + 2) s in
           CHR ''['' \<notin> set (take n s) \<and> CHR 0x5C \<notin> set (take n s)
           \<and> \<not> HasPrefix t ''P<'' \<and> \<not> HasPrefix t ''<'' \<and> \<not> perlFlagsOk False False t))"

lemma branchFormatPattern_does_not_compile: "badPerlGroup branchFormatPatternText"
  by code_simp

text \<open>\<open>strings.NewReplacer\<close> on single characters.\<close>

definition escapeMarkdown :: "string \<Rightarrow> string" where
  "escapeMarkdown s = concat (map (\<lambda>c. if c \<in> set ''[]()*_`<>'' then [CHR 0x5C, c] else [c]) s)"

text \<open>Sending a request: the wait for the limiter, then the exchange.\<close>

definition githubDo :: "pipelineEnv \<Rightarrow> GithubRequest \<Rightarrow> PipelineState \<Rightarrow> (nat \<times> string) result \<times> PipelineState" where
  "githubDo env req st =
     (case pe_wait env (pl_requests st) of
        Some e \<Rightarrow> (Inl (''rate limit wait: '' @ e), st)
      | None \<Rightarrow>
          (let reqs = pl_requests st @ [req] in
           (wrapErr ''execute request: '' (pe_http env reqs), st\<lparr>pl_requests := reqs\<rparr>)))"

definition createPullRequest ::
    "pipelineEnv \<Rightarrow> string \<Rightarrow> string \<Rightarrow> string \<Rightarrow> string \<Rightarrow> string \<Rightarrow> string \<Rightarrow> PipelineState \<Rightarrow> PullRequest result \<times> PipelineState" where
  "createPullRequest env token repo head base title body st =
     (if \<not> MatchString repoFormatPattern repo then (Inl (''invalid repository format: '' @ repo), st)
      else if \<not> pe_branchFormat env head then (Inl (''invalid head branch name: '' @ head), st)
      else if \<not> pe_branchFormat env base then (Inl (''invalid base branch name: '' @ base), st)
      else
        case githubDo env \<lparr>gr_Method = ''POST'', gr_URL = ''https://api.github.com/repos/'' @ repo @ ''/pulls'', gr_Token = token,
               gr_Payload = [(''title'', title), (''body'', body), (''head'', head), (''base'', base)]\<rparr> st of
          (Inl e, st1) \<Rightarrow> (Inl e, st1)
        | (Inr (status, answer), st1) \<Rightarrow>
            if status \<noteq> 201 then (Inl (''failed to create pull request: '' @ Itoa status @ '' '' @ take 10240 answer), st1)
            else (wrapErr ''decode response: '' (pe_decodePull env answer), st1))"

definition commentOnIssue :: "pipelineEnv \<Rightarrow> string \<Rightarrow> string \<Rightarrow> int \<Rightarrow> string \<Rightarrow> PipelineState \<Rightarrow> unit result \<times> PipelineState" where
  "commentOnIssue env token repo issueNumber body st =
     (if \<not> MatchString repoFormatPattern repo then (Inl (''invalid repository format: '' @ repo), st)
      else
        case githubDo env \<lparr>gr_Method = ''POST'', gr_URL = ''https://api.github.com/repos/'' @ repo @ ''/issues/'' @ printInt issueNumber @ ''/comments'',
               gr_Token = token, gr_Payload = [(''body'', body)]\<rparr> st of
          (Inl e, st1) \<Rightarrow> (Inl e, st1)
        | (Inr (status, answer), st1) \<Rightarrow>
            if status \<noteq> 201 then (Inl (''failed to comment on issue: '' @ Itoa status @ '' '' @ take 10240 answer), st1)
            else (Inr (), st1))"

definition getDefaultBranch :: "pipelineEnv \<Rightarrow> string \<Rightarrow> string \<Rightarrow> PipelineState \<Rightarrow> string result \<times> PipelineState" where
  "getDefaultBranch env token repo st =
     (if \<not> MatchString repoFormatPattern repo then (Inl (''invalid repository format: '' @ repo), st)
      else
        case githubDo env \<lparr>gr_Method = ''GET'', gr_URL = ''https://api.github.com/repos/'' @ repo, gr_Token = token, gr_Payload = []\<rparr> st of
          (Inl e, st1) \<Rightarrow> (Inl e, st1)
        | (Inr (status, answer), st1) \<Rightarrow>
            if status \<noteq> 200 then (Inl (''failed to get repository info: '' @ Itoa status @ '' '' @ take 10240 answer), st1)
            else (wrapErr ''decode response: '' (pe_decodeBranch env answer), st1))"

section \<open>The service\<close>

definition maxConcurrentPipelines :: nat where
  "maxConcurrentPipelines = 3"

definition NewPipelineService :: "db \<Rightarrow> scryptCache \<Rightarrow> PipelineState" where
  "NewPipelineService d keys =
     \<lparr>pl_db = d, pl_keys = keys, pl_requests = [], pl_results = [], pl_stopped = False, pl_isPolling = False, pl_running = 0,
      pl_semaphore = 0, pl_active = [], pl_late = []\<rparr>"

definition onPipe :: "(db \<Rightarrow> 'a \<times> db) \<Rightarrow> PipelineState \<Rightarrow> 'a \<times> PipelineState" where
  "onPipe m st = (let (r, d) = m (pl_db st) in (r, st\<lparr>pl_db := d\<rparr>))"

definition validateAndFetchPipelineData ::
    "IssuePipeline \<Rightarrow> db \<Rightarrow> (Agent \<times> ApiKey \<times> GithubConnection \<times> string) result \<times> db" where
  "validateAndFetchPipelineData pipeline d =
     (case GetAgent (ip_AgentID pipeline) (ip_UserID pipeline) d of
        (Inl e, d1) \<Rightarrow> (Inl (''get agent: '' @ e), d1)
      | (Inr None, d1) \<Rightarrow> (Inl ''agent not found'', d1)
      | (Inr (Some agent), d1) \<Rightarrow>
          (case a_APIKeyID agent of
             None \<Rightarrow> (Inl ''agent has no API key configured'', d1)
           | Some kid \<Rightarrow>
               (case GetAPIKey kid (ip_UserID pipeline) d1 of
                  (Inl e, d2) \<Rightarrow> (Inl (''get API key: '' @ e), d2)
                | (Inr None, d2) \<Rightarrow> (Inl ''API key not found'', d2)
                | (Inr (Some apiKey), d2) \<Rightarrow>
                    (case GetGithubConnection (ip_UserID pipeline) d2 of
                       (Inl e, d3) \<Rightarrow> (Inl (''get GitHub connection: '' @ e), d3)
                     | (Inr None, d3) \<Rightarrow> (Inl ''GitHub connection not found'', d3)
                     | (Inr (Some conn), d3) \<Rightarrow> (Inr (agent, apiKey, conn, a_ScopeConfig agent), d3)))))"

definition claimPipeline :: "string \<Rightarrow> db \<Rightarrow> bool \<times> db" where
  "claimPipeline pid d =
     (let hit = (\<lambda>p. ip_ID p = pid \<and> ip_Status p = ''pending'') in
      case execCount [] [] (\<lambda>d. length (filter hit (db_pipelines d)))
             (\<lambda>d. updatePipelines hit (\<lambda>p. p\<lparr>ip_Status := ''running'', ip_StartedAt := Some (clock d), ip_UpdatedAt := clock d\<rparr>) d) d of
        (Inl _, d1) \<Rightarrow> (False, d1)
      | (Inr rowsAffected, d1) \<Rightarrow> (rowsAffected > 0, d1))"

definition setPipelineError :: "IssuePipeline \<Rightarrow> string \<Rightarrow> PipelineState \<Rightarrow> PipelineState" where
  "setPipelineError pipeline msg st = snd (onPipe (UpdateIssuePipelineStatus (ip_ID pipeline) (ip_UserID pipeline) ''error'' (Some msg)) st)"

definition markPipelineFailure :: "IssuePipeline \<Rightarrow> string \<Rightarrow> PipelineState \<Rightarrow> PipelineState" where
  "markPipelineFailure pipeline errMsg st = setPipelineError pipeline errMsg st"

definition failPipelineSession :: "string \<Rightarrow> string \<Rightarrow> PipelineState \<Rightarrow> PipelineState" where
  "failPipelineSession sid msg st = snd (onPipe (UpdateSessionResult sid SessionError (Some msg) None None) st)"

definition pipelineTask :: "IssuePipeline \<Rightarrow> string" where
  "pipelineTask pipeline =
     ''GitHub Issue #'' @ printInt (ip_IssueNumber pipeline) @ '': '' @ ip_IssueTitle pipeline @ [newline, newline] @ take 10000 (ip_IssueBody pipeline)"

definition pipelineSession :: "IssuePipeline \<Rightarrow> Session" where
  "pipelineSession pipeline =
     \<lparr>s_ID = [], s_UserID = ip_UserID pipeline, s_AgentID = ip_AgentID pipeline, s_Task = pipelineTask pipeline, s_Status = SessionPending,
      s_ExecutionMode = ModeContainer, s_Output = None, s_BranchName = None, s_PrURL = None, s_Repo = Some (ip_Repo pipeline),
      s_ParentSessionID = None, s_ChainID = None, s_Position = 0, s_StartedAt = None, s_FinishedAt = None,
      s_ShareToken = None, s_ShareTokenExpiresAt = None, s_CoverageData = None, s_Starred = False,
      s_PlatformThreadID = None, s_PlatformUserID = None, s_ScheduleID = None, s_CreatedAt = 0, s_UpdatedAt = 0\<rparr>"

definition decryptPipelineSecret :: "pipelineEnv \<Rightarrow> string \<Rightarrow> PipelineState \<Rightarrow> string result \<times> PipelineState" where
  "decryptPipelineSecret env secret st =
     (let (now, st1) = onPipe timeNow st;
          (r, keys) = DecryptWithKey (pe_prims env) (pe_key env) now secret (pl_keys st1)
      in (r, st1\<lparr>pl_keys := keys\<rparr>))"

text \<open>A comment on the issue whose failure is only printed.\<close>

definition tryComment :: "pipelineEnv \<Rightarrow> string \<Rightarrow> IssuePipeline \<Rightarrow> string \<Rightarrow> PipelineState \<Rightarrow> PipelineState" where
  "tryComment env token pipeline body st = snd (commentOnIssue env token (ip_Repo pipeline) (ip_IssueNumber pipeline) body st)"

definition prErrorComment :: "Agent \<Rightarrow> string" where
  "prErrorComment agent =
     ''**'' @ escapeMarkdown (a_Name agent) @ ''** attempted to work on this issue but encountered an error creating the pull request.'' @ [newline, newline]
       @ ''The team has been notified. You can check the session details in the Shipmates dashboard.''"

definition errorComment :: "Agent \<Rightarrow> string" where
  "errorComment agent =
     ''**'' @ escapeMarkdown (a_Name agent) @ ''** attempted to work on this issue but encountered an error.'' @ [newline, newline]
       @ ''The team has been notified. You can check the session details in the Shipmates dashboard.''"

text \<open>The pull request for a branch that the work has made.\<close>

definition openPullRequest ::
    "pipelineEnv \<Rightarrow> IssuePipeline \<Rightarrow> Agent \<Rightarrow> string \<Rightarrow> nat \<Rightarrow> string \<Rightarrow> string \<Rightarrow> PipelineState \<Rightarrow> string option \<times> PipelineState" where
  "openPullRequest env pipeline agent token startTime sid branchName st =
     (case getDefaultBranch env token (ip_Repo pipeline) st of
        (Inl e, st1) \<Rightarrow>
          (Some (''get default branch: '' @ e),
           markPipelineFailure pipeline (''Failed to get default branch: '' @ e) (tryComment env token pipeline (prErrorComment agent) st1))
      | (Inr defaultBranch, st1) \<Rightarrow>
          let n = printInt (ip_IssueNumber pipeline);
              prTitle = ''Fix #'' @ n @ '': '' @ ip_IssueTitle pipeline;
              prBody = ''Resolves #'' @ n @ [newline, newline] @ ip_IssueTitle pipeline @ [newline, newline] @ ''---'' @ [newline] @ ''Automated by Shipmates''
          in (case createPullRequest env token (ip_Repo pipeline) branchName defaultBranch prTitle prBody st1 of
                (Inl e, st2) \<Rightarrow>
                  (Some (''create PR: '' @ e),
                   markPipelineFailure pipeline (''Failed to create PR: '' @ e) (tryComment env token pipeline (prErrorComment agent) st2))
              | (Inr pr, st2) \<Rightarrow>
                  let st3 = tryComment env token pipeline
                        (''**'' @ escapeMarkdown (a_Name agent) @ ''** created a pull request to address this issue: #'' @ printInt (pr_Number pr)
                          @ [newline, newline] @ ''Branch: `'' @ escapeMarkdown branchName @ ''`'') st2;
                      st4 = snd (onPipe (execStmt [] (\<lambda>d. updatePipelines (\<lambda>p. ip_ID p = ip_ID pipeline)
                              (\<lambda>p. p\<lparr>ip_Status := ''done'', ip_PrNumber := Some (pr_Number pr), ip_PrURL := Some (pr_URL pr),
                                     ip_BranchName := Some branchName, ip_FinishedAt := Some (clock d), ip_UpdatedAt := clock d\<rparr>) d)) st3);
                      (now, st5) = onPipe timeNow st4
                  in (None, st5\<lparr>pl_results := pl_results st5 @
                       [\<lparr>sr_ScheduleName = ''Issue #'' @ n, sr_AgentName = a_Name agent, sr_Task = ip_IssueTitle pipeline, sr_Status = ''done'',
                         sr_DurationMs = now - startTime, sr_BranchName = branchName, sr_SessionID = sid\<rparr>]\<rparr>)))"

text \<open>What follows when the work has returned without an error.\<close>

definition finishPipeline ::
    "pipelineEnv \<Rightarrow> IssuePipeline \<Rightarrow> Agent \<Rightarrow> string \<Rightarrow> nat \<Rightarrow> string \<Rightarrow> PipelineState \<Rightarrow> string option \<times> PipelineState" where
  "finishPipeline env pipeline agent token startTime sid st =
     (case onPipe (GetSessionByID sid) st of
        (Inl e, st1) \<Rightarrow> (Some e, markPipelineFailure pipeline (''Failed to get finished session: '' @ e) st1)
      | (Inr None, st1) \<Rightarrow> (Some ''finished session is nil'', markPipelineFailure pipeline ''Finished session not found'' st1)
      | (Inr (Some s), st1) \<Rightarrow>
          if s_Status s = SessionDone \<and> s_BranchName s \<noteq> None \<and> s_BranchName s \<noteq> Some []
          then openPullRequest env pipeline agent token startTime sid (the (s_BranchName s)) st1
          else (None, setPipelineError pipeline (if s_Status s = SessionError then ''Agent execution failed'' else ''No branch created'')
                        (tryComment env token pipeline (errorComment agent) st1)))"

text \<open>The decryption of the two secrets and the work; \<open>None\<close> when the work does not return.\<close>

definition runPipelineWork ::
    "pipelineEnv \<Rightarrow> IssuePipeline \<Rightarrow> nat \<Rightarrow> string \<Rightarrow> Agent \<times> ApiKey \<times> GithubConnection \<times> string \<Rightarrow> PipelineState
      \<Rightarrow> (string option \<times> PipelineState) option" where
  "runPipelineWork env pipeline startTime sid fetched st =
     (let (agent, apiKey, conn, scope) = fetched in
      case decryptPipelineSecret env (ak_APIKey apiKey) st of
        (Inl e, st1) \<Rightarrow> Some (Some e, setPipelineError pipeline ''Failed to decrypt API key'' (failPipelineSession sid ''Failed to decrypt API key'' st1))
      | (Inr key, st1) \<Rightarrow>
          (case decryptPipelineSecret env (gh_GithubToken conn) st1 of
             (Inl e, st2) \<Rightarrow>
               Some (Some e, setPipelineError pipeline ''Failed to decrypt GitHub token'' (failPipelineSession sid ''Failed to decrypt GitHub token'' st2))
           | (Inr token, st2) \<Rightarrow>
               (case pe_execute env \<lparr>pw_UserID = ip_UserID pipeline, pw_AgentID = ip_AgentID pipeline, pw_Task = pipelineTask pipeline,
                      pw_Repo = ip_Repo pipeline, pw_Provider = providerName (ak_Provider apiKey), pw_APIKey = key, pw_GithubToken = token,
                      pw_AgentScope = Some scope, pw_BaseURL = optStr (ak_BaseURL apiKey), pw_ModelID = optStr (ak_ModelID apiKey)\<rparr> (pl_db st2) of
                  None \<Rightarrow> None
                | Some (Inl e, d) \<Rightarrow> Some (Some e, markPipelineFailure pipeline e (failPipelineSession sid e (st2\<lparr>pl_db := d\<rparr>)))
                | Some (Inr _, d) \<Rightarrow> Some (finishPipeline env pipeline agent token startTime sid (st2\<lparr>pl_db := d\<rparr>)))))"

definition linkSession :: "IssuePipeline \<Rightarrow> string \<Rightarrow> db \<Rightarrow> unit result \<times> db" where
  "linkSession pipeline sid =
     (let hit = (\<lambda>p. ip_ID p = ip_ID pipeline) in
      execChecked [] (\<lambda>d. if list_ex hit (db_pipelines d) then sessionRefError (Some sid) (\<lambda>v. \<not> hit v) d else None)
        (\<lambda>d. updatePipelines hit (\<lambda>p. p\<lparr>ip_SessionID := Some sid, ip_StartedAt := Some (clock d), ip_UpdatedAt := clock d\<rparr>) d))"

definition executePipeline :: "pipelineEnv \<Rightarrow> IssuePipeline \<Rightarrow> PipelineState \<Rightarrow> (string option \<times> PipelineState) option" where
  "executePipeline env pipeline st =
     (let (startTime, st1) = onPipe timeNow st in
      case onPipe (validateAndFetchPipelineData pipeline) st1 of
        (Inl e, st2) \<Rightarrow> Some (Some ''validation failed'', setPipelineError pipeline e st2)
      | (Inr fetched, st2) \<Rightarrow>
          (case onPipe (CreateSession (pipelineSession pipeline)) st2 of
             (Inl e, st3) \<Rightarrow> Some (Some e, setPipelineError pipeline ''Failed to create session'' st3)
           | (Inr session, st3) \<Rightarrow>
               let st4 = snd (onPipe (linkSession pipeline (s_ID session)) st3)
               in runPipelineWork env pipeline startTime (s_ID session) fetched st4))"

text \<open>A run that ends within the timeout; after the timeout the pipeline is marked and the run goes on by itself.\<close>

definition executePipelineWithTimeout :: "pipelineEnv \<Rightarrow> bool \<Rightarrow> IssuePipeline \<Rightarrow> PipelineState \<Rightarrow> PipelineState option" where
  "executePipelineWithTimeout env timedOut pipeline st =
     (if timedOut then Some (markPipelineFailure pipeline ''Execution timeout after 30 minutes'' (st\<lparr>pl_late := pl_late st @ [pipeline]\<rparr>))
      else case executePipeline env pipeline st of
             None \<Rightarrow> None
           | Some (Some e, st1) \<Rightarrow> Some (markPipelineFailure pipeline e st1)
           | Some (None, st1) \<Rightarrow> Some st1)"

text \<open>The loop over the pending pipelines; the \<open>break\<close> of the full semaphore leaves the \<open>select\<close> only.\<close>

fun pollPipelineLoop :: "nat \<Rightarrow> IssuePipeline list \<Rightarrow> PipelineState \<Rightarrow> PipelineState" where
  "pollPipelineLoop slots [] st = st"
| "pollPipelineLoop slots (p # rest) st =
     (if pl_stopped st then st
      else case slots of
             0 \<Rightarrow> st
           | Suc left \<Rightarrow>
               (case onPipe (claimPipeline (ip_ID p)) st of
                  (False, st1) \<Rightarrow> pollPipelineLoop left rest st1
                | (True, st1) \<Rightarrow>
                    if pl_semaphore st1 < maxConcurrentPipelines
                    then pollPipelineLoop left rest
                           (st1\<lparr>pl_semaphore := pl_semaphore st1 + 1, pl_running := pl_running st1 + 1, pl_active := pl_active st1 @ [p]\<rparr>)
                    else pollPipelineLoop left rest (setPipelineError p ''Failed to acquire execution slot'' st1)))"

definition pollPipelines :: "PipelineState \<Rightarrow> PipelineState" where
  "pollPipelines st =
     (if pl_isPolling st then st
      else if pl_stopped st then st
      else
        let st0 = st\<lparr>pl_isPolling := True\<rparr>;
            slots = int maxConcurrentPipelines - int (pl_running st0)
        in (if slots \<le> 0 then st0
            else case onPipe (GetPendingIssuePipelines slots) st0 of
                   (Inl _, st1) \<Rightarrow> st1
                 | (Inr pending, st1) \<Rightarrow> pollPipelineLoop (nat slots) pending st1)\<lparr>pl_isPolling := False\<rparr>)"

text \<open>\<open>Start\<close> up to the goroutine, which polls at every tick, and \<open>Stop\<close>, which waits until nothing runs.\<close>

definition Start_Pipeline :: "PipelineState \<Rightarrow> PipelineState" where
  "Start_Pipeline st = (if pl_stopped st then st else pollPipelines st)"

definition Stop_Pipeline :: "PipelineState \<Rightarrow> PipelineState option" where
  "Stop_Pipeline st =
     (let st1 = st\<lparr>pl_stopped := True\<rparr> in
      if pl_running st1 > 0 \<and> pl_active st1 \<noteq> [] then None else Some st1)"

text \<open>\<open>main.go\<close>: the work of a pipeline and of a schedule is a run in a container.\<close>

definition pipelineExecuteFn :: "Docker \<Rightarrow> OrchestratorState \<Rightarrow> PipelineWork \<Rightarrow> db \<Rightarrow> (unit result \<times> db) option" where
  "pipelineExecuteFn dk o1 w d =
     delegationExecuteFn dk o1
       \<lparr>dw_UserID = pw_UserID w, dw_AgentID = pw_AgentID w, dw_Task = pw_Task w, dw_Repo = pw_Repo w, dw_Provider = pw_Provider w,
        dw_APIKey = pw_APIKey w, dw_GithubToken = pw_GithubToken w, dw_AgentScope = pw_AgentScope w, dw_BaseURL = pw_BaseURL w,
        dw_ModelID = pw_ModelID w, dw_PlatformUserID = []\<rparr> d"

definition scheduleExecuteFn :: "Docker \<Rightarrow> OrchestratorState \<Rightarrow> SchedulerWorkRequest \<Rightarrow> db \<Rightarrow> (unit result \<times> db) option" where
  "scheduleExecuteFn dk o1 w d =
     delegationExecuteFn dk o1
       \<lparr>dw_UserID = rq_UserID w, dw_AgentID = rq_AgentID w, dw_Task = rq_Task w, dw_Repo = rq_Repo w, dw_Provider = providerName (rq_Provider w),
        dw_APIKey = rq_APIKey w, dw_GithubToken = rq_GithubToken w, dw_AgentScope = rq_AgentScope w, dw_BaseURL = rq_BaseURL w,
        dw_ModelID = rq_ModelID w, dw_PlatformUserID = []\<rparr> d"

section \<open>No pipeline opens a pull request\<close>

definition isPullRequest :: "GithubRequest \<Rightarrow> bool" where
  "isPullRequest req \<longleftrightarrow> gr_Method req = ''POST'' \<and> HasSuffix (gr_URL req) ''/pulls''"

definition pulls :: "PipelineState \<Rightarrow> GithubRequest list" where
  "pulls st = filter isPullRequest (pl_requests st)"

text \<open>Calls after which no statement fails when none did before.\<close>

definition quiet :: "(db \<Rightarrow> 'a \<times> db) \<Rightarrow> bool" where
  "quiet m \<longleftrightarrow> (\<forall>d. faults d = [] \<longrightarrow> faults (snd (m d)) = [])"

lemma quietI: "(\<And>d. faults d = [] \<Longrightarrow> faults (snd (m d)) = []) \<Longrightarrow> quiet m"
  by (simp add: quiet_def)

lemma quietD: "quiet m \<Longrightarrow> m d = (r, d') \<Longrightarrow> faults d = [] \<Longrightarrow> faults d' = []"
  by (metis quiet_def snd_conv)

lemma quiet_timeNow: "quiet timeNow"
  by (rule quietI) (metis prod.collapse timeNow_other)

lemma quiet_newID: "quiet newID"
  by (rule quietI) (metis prod.collapse newID_other)

lemma quiet_CreateSession: "quiet (CreateSession s)"
proof (rule quietI)
  fix d :: db assume q: "faults d = []"
  obtain i d1 where i: "(if s_ID s = [] then newID d else (s_ID s, d)) = (i, d1)" by fastforce
  obtain now d2 where t: "timeNow d1 = (now, d2)" by fastforce
  have "faults d1 = []" using i q quietD [OF quiet_newID] by (auto split: if_splits)
  then have "faults d2 = []" using quietD [OF quiet_timeNow t] by simp
  then show "faults (snd (CreateSession s d)) = []" by (simp add: CreateSession_def i t insertSession_def Let_def split: option.split)
qed

lemma quiet_UpdateSessionResult: "quiet (UpdateSessionResult sid s o1 b p)"
  by (rule quietI) (use quietD [OF quiet_timeNow] in \<open>auto simp: UpdateSessionResult_def updateSessions_def Let_def split: prod.split\<close>)

lemma quiet_linkSession: "quiet (linkSession p sid)"
  by (rule quietI) (auto simp: linkSession_def updatePipelines_def Let_def split: option.split)

lemma quiet_validate: "faults d = [] \<Longrightarrow> snd (validateAndFetchPipelineData p d) = d"
  by (auto simp: validateAndFetchPipelineData_def GetAgent_def GetAPIKey_def GetGithubConnection_def split: option.split)

lemma onPipe_simps [simp]:
  "pl_requests (snd (onPipe m st)) = pl_requests st" "pl_db (snd (onPipe m st)) = snd (m (pl_db st))"
  "fst (onPipe m st) = fst (m (pl_db st))"
  by (simp_all add: onPipe_def split_def Let_def)

lemma onPipe_eqD: "onPipe m st = (r, st') \<Longrightarrow> pl_requests st' = pl_requests st \<and> m (pl_db st) = (r, pl_db st')"
  by (auto simp: onPipe_def split: prod.splits)

text \<open>A pipeline that is marked carries the status \<open>error\<close>.\<close>

definition failedPipeline :: "IssuePipeline \<Rightarrow> db \<Rightarrow> bool" where
  "failedPipeline p d \<longleftrightarrow> (\<forall>v \<in> set (db_pipelines d). pipelineIs (ip_ID p) (ip_UserID p) v \<longrightarrow> ip_Status v = ''error'')"

lemma setPipelineError_requests [simp]: "pl_requests (setPipelineError p msg st) = pl_requests st"
  "pl_requests (markPipelineFailure p msg st) = pl_requests st" "pl_requests (failPipelineSession sid msg st) = pl_requests st"
  by (simp_all add: setPipelineError_def markPipelineFailure_def failPipelineSession_def)

lemma setPipelineError_fails:
  assumes "faults (pl_db st) = []"
  shows "faults (pl_db (setPipelineError p msg st)) = [] \<and> failedPipeline p (pl_db (setPipelineError p msg st))"
proof -
  obtain now d1 where t: "timeNow (pl_db st) = (now, d1)" by fastforce
  then have q: "faults d1 = []" using quietD [OF quiet_timeNow t assms] by simp
  then have "pl_db (setPipelineError p msg st) = updatePipelines (pipelineIs (ip_ID p) (ip_UserID p)) (pipelineStatusRow now ''error'' (Some msg)) d1"
    by (simp add: setPipelineError_def UpdateIssuePipelineStatus_def t)
  then show ?thesis using q by (auto simp: failedPipeline_def updatePipelines_def updateRows_def pipelineIs_def pipelineStatusRow_def)
qed

text \<open>What a piece of the service may do: no pull request, and a failed pipeline at the end when no statement fails.\<close>

definition withoutPull :: "IssuePipeline \<Rightarrow> PipelineState \<Rightarrow> PipelineState \<Rightarrow> bool" where
  "withoutPull p st st' \<longleftrightarrow> pulls st' = pulls st
     \<and> (faults (pl_db st) = [] \<longrightarrow> faults (pl_db st') = [] \<and> failedPipeline p (pl_db st'))"

lemma withoutPull_mark: "withoutPull p st (setPipelineError p msg st)"
  using setPipelineError_fails [of st p msg] by (auto simp: withoutPull_def pulls_def)

lemma withoutPull_after:
  assumes "pulls st1 = pulls st" "faults (pl_db st) = [] \<longrightarrow> faults (pl_db st1) = []" "withoutPull p st1 st'"
  shows "withoutPull p st st'"
  using assms by (simp add: withoutPull_def)

lemma withoutPull_failed: "withoutPull p st (setPipelineError p msg (failPipelineSession sid m st))"
  by (rule withoutPull_after [OF _ _ withoutPull_mark])
    (use quiet_UpdateSessionResult in \<open>auto simp: pulls_def failPipelineSession_def quiet_def\<close>)

lemma not_suffix_comments: "\<not> suffix ''/pulls'' (x @ ''/comments'')"
  by (simp add: suffix_def)

lemma tryComment_frame: "pulls (tryComment env token p body st) = pulls st" "pl_db (tryComment env token p body st) = pl_db st"
proof -
  have "\<not> isPullRequest \<lparr>gr_Method = ''POST'', gr_URL = ''https://api.github.com/repos/'' @ ip_Repo p @ ''/issues/'' @ printInt (ip_IssueNumber p) @ ''/comments'',
       gr_Token = token, gr_Payload = [(''body'', body)]\<rparr>"
    using not_suffix_comments [of "''https://api.github.com/repos/'' @ ip_Repo p @ ''/issues/'' @ printInt (ip_IssueNumber p)"]
    by (simp add: isPullRequest_def HasSuffix_def)
  then show "pulls (tryComment env token p body st) = pulls st" "pl_db (tryComment env token p body st) = pl_db st"
    by (auto simp: tryComment_def commentOnIssue_def githubDo_def pulls_def Let_def wrapErr_def split: option.splits sum.splits prod.splits)
qed

text \<open>The work runs in a session of its own, as \<open>ExecuteInContainer\<close> does: a session that waits to be started still does so afterwards.\<close>

definition keepsPending :: "(PipelineWork \<Rightarrow> db \<Rightarrow> (unit result \<times> db) option) \<Rightarrow> bool" where
  "keepsPending f \<longleftrightarrow> (\<forall>w d r d'. f w d = Some (r, d') \<longrightarrow>
     (faults d = [] \<longrightarrow> faults d' = []) \<and> (\<forall>sid. pendingSession sid d \<longrightarrow> pendingSession sid d'))"

lemma finishPipeline_withoutPull:
  assumes "pendingSession sid (pl_db st)" "finishPipeline env p agent token t sid st = (r, st')"
  shows "withoutPull p st st'"
proof -
  obtain x st1 where g: "onPipe (GetSessionByID sid) st = (x, st1)" by fastforce
  have st1: "pl_requests st1 = pl_requests st" "GetSessionByID sid (pl_db st) = (x, pl_db st1)" using onPipe_eqD [OF g] by auto
  have q: "faults (pl_db st) = [] \<longrightarrow> faults (pl_db st1) = []" using st1(2) by (auto simp: GetSessionByID_def)
  have sel: "db_sessions (pl_db st1) = db_sessions (pl_db st)" using st1(2) queryRow_tables tables_eqD(2) unfolding GetSessionByID_def by metis
  obtain s where s: "List.find (\<lambda>s. s_ID s = sid) (db_sessions (pl_db st)) = Some s" "s_Status s = SessionPending"
    using assms(1) by (auto simp: pendingSession_def)
  have x: "\<exists>e. x = Inl e \<or> x = Inr (Some s)"
  proof (cases x)
    case (Inr v)
    then have "v = List.find (\<lambda>s. s_ID s = sid) (db_sessions (pl_db st1))" using st1(2) queryRow_result unfolding GetSessionByID_def by fastforce
    then show ?thesis using Inr s(1) sel by simp
  qed auto
  have w: "withoutPull p st1 st'"
    using x assms(2) s(2) unfolding finishPipeline_def g
    by (auto simp: markPipelineFailure_def withoutPull_mark intro!: withoutPull_after [OF tryComment_frame(1) _ withoutPull_mark]) (simp_all add: tryComment_frame)
  show ?thesis by (rule withoutPull_after [OF _ q w]) (simp add: pulls_def st1)
qed

lemma decryptPipelineSecret_frame:
  assumes "decryptPipelineSecret env s st = (r, st')"
  shows "pl_requests st' = pl_requests st \<and> db_sessions (pl_db st') = db_sessions (pl_db st) \<and> (faults (pl_db st) = [] \<longrightarrow> faults (pl_db st') = [])"
proof -
  obtain now st1 where o: "onPipe timeNow st = (now, st1)" by fastforce
  have t: "timeNow (pl_db st) = (now, pl_db st1)" "pl_requests st1 = pl_requests st" using onPipe_eqD [OF o] by auto
  have "pl_requests st' = pl_requests st1 \<and> pl_db st' = pl_db st1"
    using assms by (auto simp: decryptPipelineSecret_def o split: prod.splits)
  then show ?thesis using t quietD [OF quiet_timeNow t(1)] tables_eqD(2) [OF timeNow_tables [OF t(1)]] by simp
qed

lemma runPipelineWork_withoutPull:
  assumes "pendingSession sid (pl_db st)" "keepsPending (pe_execute env)"
    and "runPipelineWork env p t sid (agent, apiKey, conn, scope) st = Some (r, st')"
  shows "withoutPull p st st'"
proof -
  obtain r1 st1 where d1: "decryptPipelineSecret env (ak_APIKey apiKey) st = (r1, st1)" by fastforce
  obtain r2 st2 where d2: "decryptPipelineSecret env (gh_GithubToken conn) st1 = (r2, st2)" by fastforce
  note f = decryptPipelineSecret_frame [OF d1] decryptPipelineSecret_frame [OF d2]
  have p2: "pendingSession sid (pl_db st2)" using assms(1) f by (simp add: pendingSession_def)
  have w1: "withoutPull p st st'" if "withoutPull p st1 st'"
    by (rule withoutPull_after [OF _ _ that]) (use f in \<open>simp_all add: pulls_def\<close>)
  have w2: "withoutPull p st st'" if "withoutPull p st2 st'"
    by (rule withoutPull_after [OF _ _ that]) (use f in \<open>simp_all add: pulls_def\<close>)
  show ?thesis
  proof (cases r1)
    case (Inl e)
    then show ?thesis using assms(3) d1 w1 withoutPull_failed by (auto simp: runPipelineWork_def)
  next
    case r1: (Inr key)
    show ?thesis
    proof (cases r2)
      case (Inl e)
      then show ?thesis using assms(3) d1 d2 r1 w2 withoutPull_failed by (auto simp: runPipelineWork_def)
    next
      case r2: (Inr token)
      define w where "w = \<lparr>pw_UserID = ip_UserID p, pw_AgentID = ip_AgentID p, pw_Task = pipelineTask p,
        pw_Repo = ip_Repo p, pw_Provider = providerName (ak_Provider apiKey), pw_APIKey = key, pw_GithubToken = token,
        pw_AgentScope = Some scope, pw_BaseURL = optStr (ak_BaseURL apiKey), pw_ModelID = optStr (ak_ModelID apiKey)\<rparr>"
      have run: "runPipelineWork env p t sid (agent, apiKey, conn, scope) st = (case pe_execute env w (pl_db st2) of
          None \<Rightarrow> None
        | Some (Inl e, d) \<Rightarrow> Some (Some e, markPipelineFailure p e (failPipelineSession sid e (st2\<lparr>pl_db := d\<rparr>)))
        | Some (Inr _, d) \<Rightarrow> Some (finishPipeline env p agent token t sid (st2\<lparr>pl_db := d\<rparr>)))"
        by (simp add: runPipelineWork_def d1 d2 r1 r2 w_def)
      then obtain y d where y: "pe_execute env w (pl_db st2) = Some (y, d)" using assms(3) by (auto split: option.splits)
      have d: "faults (pl_db st2) = [] \<longrightarrow> faults d = []" "pendingSession sid d" using assms(2) y p2 unfolding keepsPending_def by blast+
      have "withoutPull p (st2\<lparr>pl_db := d\<rparr>) st'"
      proof (cases y)
        case (Inl e)
        then show ?thesis using assms(3) run y withoutPull_failed by (auto simp: markPipelineFailure_def)
      next
        case (Inr u)
        then have "finishPipeline env p agent token t sid (st2\<lparr>pl_db := d\<rparr>) = (r, st')" using assms(3) run y by simp
        then show ?thesis using finishPipeline_withoutPull [of sid "st2\<lparr>pl_db := d\<rparr>"] d(2) by simp
      qed
      then show ?thesis by (intro w2) (rule withoutPull_after, use d(1) in \<open>simp_all add: pulls_def\<close>)
    qed
  qed
qed

lemma CreateSession_waits:
  assumes "CreateSession s d = (Inr row, d')" "s_Status s = SessionPending"
  shows "pendingSession (s_ID row) d'"
proof -
  have o: "s_ID row \<notin> s_ID ` set (db_sessions d)" "db_sessions d' = db_sessions d @ [row]" using CreateSession_outcome [OF assms(1)] by auto
  have "s_Status row = s_Status s" using assms(1) by (auto simp: CreateSession_def Let_def split: prod.splits sum.splits if_splits)
  moreover have "List.find (\<lambda>x. s_ID x = s_ID row) (db_sessions d @ [row]) = Some row" using o(1) by (subst find_append_none) (auto simp: image_iff)
  then have "List.find (\<lambda>x. s_ID x = s_ID row) (db_sessions d') = Some row" using o(2) by simp
  ultimately show ?thesis using assms(2) by (simp add: pendingSession_def)
qed

lemma linkSession_sessions: "db_sessions (snd (linkSession p sid d)) = db_sessions d"
proof -
  obtain e d1 where s: "statement d = (e, d1)" by fastforce
  then have "db_sessions d1 = db_sessions d" by (rule tables_eqD(2) [OF statement_tables])
  then show ?thesis by (simp add: linkSession_def execChecked_def s updatePipelines_def Let_def split: option.split)
qed

lemma executePipeline_withoutPull:
  assumes "keepsPending (pe_execute env)" "executePipeline env p st = Some (r, st')"
  shows "withoutPull p st st'"
proof -
  obtain t st1 where o1: "onPipe timeNow st = (t, st1)" by fastforce
  obtain v st2 where o2: "onPipe (validateAndFetchPipelineData p) st1 = (v, st2)" by fastforce
  obtain c st3 where o3: "onPipe (CreateSession (pipelineSession p)) st2 = (c, st3)" by fastforce
  note e = onPipe_eqD [OF o1] onPipe_eqD [OF o2] onPipe_eqD [OF o3]
  have q: "faults (pl_db st) = [] \<longrightarrow> faults (pl_db st2) = [] \<and> faults (pl_db st3) = []"
    using e quietD [OF quiet_timeNow] quiet_validate [of "pl_db st1" p] quietD [OF quiet_CreateSession] by (metis snd_conv)
  have w2: "withoutPull p st st'" if "withoutPull p st2 st'"
    by (rule withoutPull_after [OF _ _ that]) (use e q in \<open>simp_all add: pulls_def\<close>)
  have w3: "withoutPull p st st'" if "withoutPull p st3 st'"
    by (rule withoutPull_after [OF _ _ that]) (use e q in \<open>simp_all add: pulls_def\<close>)
  show ?thesis
  proof (cases v)
    case (Inl m)
    then show ?thesis using assms(2) w2 withoutPull_mark by (auto simp: executePipeline_def o1 o2)
  next
    case v: (Inr fetched)
    show ?thesis
    proof (cases c)
      case (Inl m)
      then show ?thesis using assms(2) w3 withoutPull_mark v by (auto simp: executePipeline_def o1 o2 o3)
    next
      case c: (Inr row)
      define st4 where "st4 = snd (onPipe (linkSession p (s_ID row)) st3)"
      have "CreateSession (pipelineSession p) (pl_db st2) = (Inr row, pl_db st3)" using e c by simp
      then have "pendingSession (s_ID row) (pl_db st3)" by (rule CreateSession_waits) (simp add: pipelineSession_def)
      then have p4: "pendingSession (s_ID row) (pl_db st4)" by (simp add: st4_def pendingSession_def linkSession_sessions)
      have run: "runPipelineWork env p t (s_ID row) fetched st4 = Some (r, st')"
        using assms(2) v c by (simp add: executePipeline_def o1 o2 o3 st4_def)
      obtain agent apiKey conn scope where f: "fetched = (agent, apiKey, conn, scope)" by (cases fetched)
      from runPipelineWork_withoutPull [OF p4 assms(1) run [unfolded f]] have "withoutPull p st4 st'" .
      then show ?thesis by (intro w3) (rule withoutPull_after, use quiet_linkSession in \<open>auto simp: st4_def pulls_def quiet_def\<close>)
    qed
  qed
qed


lemma pipeline_returns:
  assumes "\<And>w d. pe_execute env w d \<noteq> None"
  shows "\<exists>st'. executePipelineWithTimeout env timedOut p st = Some st'"
proof -
  define g where "g = (\<lambda>w d. the (pe_execute env w d))"
  have "pe_execute env w d = Some (g w d)" for w d using assms by (simp add: g_def)
  then have "runPipelineWork env p t sid fetched s \<noteq> None" for t sid fetched s
    by (simp add: runPipelineWork_def split_def split: sum.split)
  then have "executePipeline env p st \<noteq> None"
    unfolding executePipeline_def Let_def by (auto split: prod.split sum.split)
  then show ?thesis by (auto simp: executePipelineWithTimeout_def split: option.split)
qed

text \<open>Work that succeeds and leaves a finished session with a branch.\<close>

definition successfulPipelineWork :: "PipelineWork \<Rightarrow> db \<Rightarrow> (unit result \<times> db) option" where
  "successfulPipelineWork w d =
     Some (Inr (), d\<lparr>db_sessions := db_sessions d @ [(sampleSession ''s9'')\<lparr>s_Status := SessionDone, s_BranchName := Some ''fix''\<rparr>]\<rparr>)"

definition samplePipelineEnv :: pipelineEnv where
  "samplePipelineEnv = \<lparr>pe_prims = samplePrimitives, pe_key = replicate 32 CHR ''k'', pe_branchFormat = (\<lambda>_. True), pe_wait = (\<lambda>_. None),
     pe_http = (\<lambda>_. Inr (201, [])), pe_decodePull = (\<lambda>_. Inr \<lparr>pr_Number = 1, pr_URL = ''u''\<rparr>), pe_decodeBranch = (\<lambda>_. Inr ''main''),
     pe_execute = successfulPipelineWork\<rparr>"

definition samplePipeline :: IssuePipeline where
  "samplePipeline = \<lparr>ip_ID = ''p1'', ip_UserID = ''u'', ip_AgentID = ''a'', ip_Repo = ''acme/app'', ip_IssueNumber = 7, ip_IssueTitle = ''crash'', ip_IssueBody = ''it fails'',
     ip_IssueLabels = [], ip_Status = ''pending'', ip_PrNumber = None, ip_PrURL = None, ip_BranchName = None, ip_ErrorMessage = None, ip_SessionID = None,
     ip_StartedAt = None, ip_FinishedAt = None, ip_CreatedAt = 0, ip_UpdatedAt = 0\<rparr>"

definition pipelineDb :: db where
  "pipelineDb = (sessionDb [])\<lparr>db_pipelines := [samplePipeline]\<rparr>"

lemma successfulPipelineWork_keeps: "keepsPending successfulPipelineWork"
proof -
  have "List.find (\<lambda>s. s_ID s = i) (xs @ ys) = Some x" if "List.find (\<lambda>s. s_ID s = i) xs = Some x" for xs ys :: "Session list" and i x
    using that by (induction xs) (auto split: if_splits)
  then show ?thesis by (auto simp: keepsPending_def successfulPipelineWork_def pendingSession_def)
qed


section \<open>Claims and slots\<close>

text \<open>A sequence of claims, by any number of processes.\<close>

fun pipelineClaims :: "string list \<Rightarrow> db \<Rightarrow> string list \<times> db" where
  "pipelineClaims [] d = ([], d)"
| "pipelineClaims (pid # pids) d =
     (let (ok, d1) = claimPipeline pid d; (won, d2) = pipelineClaims pids d1 in (if ok then pid # won else won, d2))"

definition waiting :: "string \<Rightarrow> db \<Rightarrow> bool" where
  "waiting pid d \<longleftrightarrow> (\<exists>p \<in> set (db_pipelines d). ip_ID p = pid \<and> ip_Status p = ''pending'')"

lemma claimPipeline_outcome:
  assumes "claimPipeline pid d = (b, d')"
  shows "b \<Longrightarrow> waiting pid d \<and> \<not> waiting pid d'" "waiting q d' \<Longrightarrow> waiting q d"
proof -
  let ?hit = "\<lambda>p. ip_ID p = pid \<and> ip_Status p = ''pending''"
  let ?upd = "\<lambda>d. updatePipelines ?hit (\<lambda>p. p\<lparr>ip_Status := ''running'', ip_StartedAt := Some (clock d), ip_UpdatedAt := clock d\<rparr>) d"
  obtain r d2 where e: "execCount [] [] (\<lambda>d. length (filter ?hit (db_pipelines d))) ?upd d = (r, d2)" by fastforce
  have b: "d' = d2" "b = (\<exists>n. r = Inr n \<and> n > 0)" using assms e by (auto simp: claimPipeline_def split: sum.splits)
  have upd: "db_pipelines (?upd d1) = updateRows ?hit (\<lambda>p. p\<lparr>ip_Status := ''running'', ip_StartedAt := Some (clock d1), ip_UpdatedAt := clock d1\<rparr>) (db_pipelines d)"
    if "tables d1 = tables d" for d1 using tables_eqD(14) [OF that] by (simp add: updatePipelines_def)
  consider "tables d' = tables d" "\<not> b" | d1 where "tables d1 = tables d" "tables d' = tables (?upd d1)" "b \<longrightarrow> filter ?hit (db_pipelines d1) \<noteq> []"
    using execCount_outcome [OF e] b by fastforce
  note out = this
  show "waiting pid d \<and> \<not> waiting pid d'" if b: "b"
    using out
  proof cases
    case (2 d1)
    from 2(3) b tables_eqD(14) [OF 2(1)] have "waiting pid d" by (auto simp: waiting_def filter_empty_conv)
    moreover have "\<not> waiting pid d'" unfolding waiting_def tables_eqD(14) [OF 2(2)] upd [OF 2(1)] by (auto dest!: set_updateRows split: if_splits)
    ultimately show ?thesis ..
  qed (use b in simp)
  show "waiting q d" if w: "waiting q d'"
    using out
  proof cases
    case 1
    then show ?thesis using w tables_eqD(14) [OF 1(1)] by (simp add: waiting_def)
  next
    case (2 d1)
    then show ?thesis using w unfolding waiting_def tables_eqD(14) [OF 2(2)] upd [OF 2(1)] by (auto simp: updateRows_def split: if_splits)
  qed
qed

lemma pipelineClaims_waiting: "pid \<in> set (fst (pipelineClaims pids d)) \<Longrightarrow> waiting pid d"
proof (induction pids arbitrary: d)
  case (Cons q pids)
  obtain b d1 where c: "claimPipeline q d = (b, d1)" by fastforce
  from Cons claimPipeline_outcome [OF c] show ?case by (auto simp: c split_def Let_def split: if_splits)
qed simp

text \<open>
  A pipeline is claimed once: of any sequence of claims, by any number of processes and with any statements failing, at most one claim of a pipeline
  succeeds, and only one that was pending.
\<close>

theorem pipeline_is_claimed_once: "distinct (fst (pipelineClaims pids d)) \<and> (\<forall>pid \<in> set (fst (pipelineClaims pids d)). waiting pid d)"
proof (rule conjI)
  show "distinct (fst (pipelineClaims pids d))"
  proof (induction pids arbitrary: d)
    case (Cons q pids)
    obtain b d1 where c: "claimPipeline q d = (b, d1)" by fastforce
    have "b \<Longrightarrow> q \<notin> set (fst (pipelineClaims pids d1))" using claimPipeline_outcome(1) [OF c] pipelineClaims_waiting by blast
    then show ?case using Cons.IH [of d1] by (simp add: c split_def Let_def)
  qed simp
qed (use pipelineClaims_waiting in blast)

lemma pipeline_claims_sample:
  "fst (pipelineClaims [''p1'', ''p1''] pipelineDb) = [''p1''] \<and> distinct (fst (pipelineClaims [''p1'', ''p1''] pipelineDb)) \<and> waiting ''p1'' pipelineDb"
proof -
  have c: "fst (pipelineClaims [''p1'', ''p1''] pipelineDb) = [''p1'']" by code_simp
  show ?thesis using pipeline_is_claimed_once [of "[''p1'', ''p1'']" pipelineDb] unfolding c by simp
qed

text \<open>The steps of the service: a poll, the end of the execution at position \<open>i\<close>, the decrement that follows, one that ends after its timeout, and \<open>Stop\<close>.\<close>

datatype pipelineOp = PipePoll | PipeEnd nat bool | PipeDecrement | PipeLate nat | PipeStop

inductive pipelineStep :: "pipelineEnv \<Rightarrow> PipelineState \<Rightarrow> pipelineOp \<Rightarrow> PipelineState \<Rightarrow> bool" for env where
  poll: "pipelineStep env st PipePoll (pollPipelines st)"
| end_: "i < length (pl_active st) \<Longrightarrow> executePipelineWithTimeout env timedOut (pl_active st ! i) st = Some st1
    \<Longrightarrow> pipelineStep env st (PipeEnd i timedOut)
          (st1\<lparr>pl_active := take i (pl_active st) @ drop (Suc i) (pl_active st), pl_semaphore := pl_semaphore st - 1\<rparr>)"
| decrement: "pl_semaphore st < pl_running st \<Longrightarrow> pipelineStep env st PipeDecrement (st\<lparr>pl_running := pl_running st - 1\<rparr>)"
| late: "i < length (pl_late st) \<Longrightarrow> executePipeline env (pl_late st ! i) st = Some (r, st1)
    \<Longrightarrow> pipelineStep env st (PipeLate i) (st1\<lparr>pl_late := take i (pl_late st) @ drop (Suc i) (pl_late st)\<rparr>)"
| stop: "pipelineStep env st PipeStop (st\<lparr>pl_stopped := True\<rparr>)"

inductive_cases pipelineStep_cases: "pipelineStep env st opr st'"

definition pframe :: "PipelineState \<Rightarrow> nat \<times> nat \<times> IssuePipeline list \<times> bool \<times> bool" where
  "pframe st = (pl_running st, pl_semaphore st, pl_active st, pl_stopped st, pl_isPolling st)"

lemma pframe_onPipe: "onPipe m st = (r, st') \<Longrightarrow> pframe st' = pframe st"
  by (auto simp: onPipe_def pframe_def split: prod.splits)

lemma pframe_snd [simp]: "pframe (snd (onPipe m st)) = pframe st"
  by (simp add: onPipe_def pframe_def split_def Let_def)

lemma pframe_marks [simp]:
  "pframe (setPipelineError p msg st) = pframe st" "pframe (markPipelineFailure p msg st) = pframe st" "pframe (failPipelineSession sid msg st) = pframe st"
  by (simp_all add: setPipelineError_def markPipelineFailure_def failPipelineSession_def)

lemma pframe_githubDo: "githubDo env req st = (r, st') \<Longrightarrow> pframe st' = pframe st"
  by (auto simp: githubDo_def pframe_def Let_def split: option.splits)

lemma pframe_createPullRequest: "createPullRequest env t r h b ti bo st = (x, st') \<Longrightarrow> pframe st' = pframe st"
  by (auto simp: createPullRequest_def split: if_splits prod.splits sum.splits dest: pframe_githubDo)

lemma pframe_getDefaultBranch: "getDefaultBranch env t r st = (x, st') \<Longrightarrow> pframe st' = pframe st"
  by (auto simp: getDefaultBranch_def split: if_splits prod.splits sum.splits dest: pframe_githubDo)

lemma pframe_commentOnIssue: "commentOnIssue env t r n bo st = (x, st') \<Longrightarrow> pframe st' = pframe st"
  by (auto simp: commentOnIssue_def split: if_splits prod.splits sum.splits dest: pframe_githubDo)

lemma pframe_tryComment [simp]: "pframe (tryComment env t p bo st) = pframe st"
  using pframe_commentOnIssue [of env t "ip_Repo p" "ip_IssueNumber p" bo st] by (metis tryComment_def prod.collapse)

lemma pframe_results [simp]: "pframe (st\<lparr>pl_results := x\<rparr>) = pframe st" "pframe (st\<lparr>pl_late := l\<rparr>) = pframe st" "pframe (st\<lparr>pl_db := d\<rparr>) = pframe st"
  "pframe (st\<lparr>pl_keys := k\<rparr>) = pframe st"
  by (simp_all add: pframe_def)

lemma pframe_openPullRequest: "openPullRequest env p agent token t sid br st = (r, st') \<Longrightarrow> pframe st' = pframe st"
proof -
  assume o: "openPullRequest env p agent token t sid br st = (r, st')"
  obtain b st1 where g: "getDefaultBranch env token (ip_Repo p) st = (b, st1)" by fastforce
  note f1 = pframe_getDefaultBranch [OF g]
  show ?thesis
  proof (cases b)
    case (Inl e)
    then show ?thesis using o f1 by (auto simp: openPullRequest_def g)
  next
    case (Inr base)
    define n where "n = printInt (ip_IssueNumber p)"
    obtain x st2 where c: "createPullRequest env token (ip_Repo p) br base (''Fix #'' @ n @ '': '' @ ip_IssueTitle p)
      (''Resolves #'' @ n @ [newline, newline] @ ip_IssueTitle p @ [newline, newline] @ ''---'' @ [newline] @ ''Automated by Shipmates'') st1 = (x, st2)" by fastforce
    note f2 = pframe_createPullRequest [OF c]
    have "pframe st' = pframe st2"
      using o unfolding openPullRequest_def g Inr sum.case prod.case Let_def n_def [symmetric] c
      by (cases x) (auto split: prod.splits dest: pframe_onPipe)
    then show ?thesis using f1 f2 by simp
  qed
qed

lemma pframe_finishPipeline: "finishPipeline env p agent token t sid st = (r, st') \<Longrightarrow> pframe st' = pframe st"
  by (auto simp: finishPipeline_def split: prod.splits sum.splits option.splits if_splits dest!: pframe_onPipe pframe_openPullRequest)

lemma pframe_decrypt: "decryptPipelineSecret env s st = (r, st') \<Longrightarrow> pframe st' = pframe st"
  by (auto simp: decryptPipelineSecret_def split: prod.splits dest: pframe_onPipe)

lemma pframe_runPipelineWork: "runPipelineWork env p t sid fetched st = Some (r, st') \<Longrightarrow> pframe st' = pframe st"
  by (auto simp: runPipelineWork_def split: prod.splits sum.splits option.splits dest!: pframe_decrypt pframe_finishPipeline)

lemma pframe_executePipeline: "executePipeline env p st = Some (r, st') \<Longrightarrow> pframe st' = pframe st"
  by (auto simp: executePipeline_def Let_def split: prod.splits sum.splits dest!: pframe_onPipe pframe_runPipelineWork)

lemma pframe_executePipelineWithTimeout: "executePipelineWithTimeout env b p st = Some st' \<Longrightarrow> pframe st' = pframe st"
  by (auto simp: executePipelineWithTimeout_def split: if_splits prod.splits option.splits dest: pframe_executePipeline)

definition pipeSlotsOk :: "PipelineState \<Rightarrow> bool" where
  "pipeSlotsOk st \<longleftrightarrow> length (pl_active st) = pl_semaphore st \<and> pl_semaphore st \<le> pl_running st \<and> pl_running st \<le> maxConcurrentPipelines
     \<and> \<not> pl_isPolling st"

lemma pollPipelineLoop_slots:
  assumes "length (pl_active st) = pl_semaphore st" "pl_semaphore st \<le> pl_running st" "pl_running st + slots \<le> maxConcurrentPipelines"
  shows "let st' = pollPipelineLoop slots ps st in
    length (pl_active st') = pl_semaphore st' \<and> pl_semaphore st' \<le> pl_running st' \<and> pl_running st' \<le> maxConcurrentPipelines
    \<and> pl_isPolling st' = pl_isPolling st"
  using assms
proof (induction ps arbitrary: slots st)
  case (Cons p rest)
  show ?case
  proof (cases "pl_stopped st \<or> slots = 0")
    case True
    then show ?thesis using Cons.prems by (auto split: nat.splits)
  next
    case False
    then obtain left where left: "slots = Suc left" by (cases slots) auto
    obtain b st1 where c: "onPipe (claimPipeline (ip_ID p)) st = (b, st1)" by fastforce
    have f: "pl_running st1 = pl_running st" "pl_semaphore st1 = pl_semaphore st" "pl_active st1 = pl_active st" "pl_isPolling st1 = pl_isPolling st"
      using pframe_onPipe [OF c] by (auto simp: pframe_def)
    let ?next = "if b then st1\<lparr>pl_semaphore := pl_semaphore st1 + 1, pl_running := pl_running st1 + 1, pl_active := pl_active st1 @ [p]\<rparr> else st1"
    have loop: "pollPipelineLoop slots (p # rest) st = pollPipelineLoop left rest ?next"
      using False left c f Cons.prems by (auto simp: maxConcurrentPipelines_def)
    have "length (pl_active ?next) = pl_semaphore ?next" "pl_semaphore ?next \<le> pl_running ?next" "pl_running ?next + left \<le> maxConcurrentPipelines"
      "pl_isPolling ?next = pl_isPolling st"
      using Cons.prems f left by auto
    from Cons.IH [OF this(1-3)] this(4) show ?thesis unfolding loop by metis
  qed
qed (simp add: maxConcurrentPipelines_def)

lemma pollPipelines_slots:
  assumes "pipeSlotsOk st"
  shows "pipeSlotsOk (pollPipelines st)"
proof (cases "pl_stopped st \<or> int maxConcurrentPipelines - int (pl_running st) \<le> 0")
  case True
  then show ?thesis using assms by (auto simp: pollPipelines_def pipeSlotsOk_def Let_def)
next
  case False
  define slots where "slots = int maxConcurrentPipelines - int (pl_running st)"
  obtain r st1 where g: "onPipe (GetPendingIssuePipelines slots) (st\<lparr>pl_isPolling := True\<rparr>) = (r, st1)" by fastforce
  have f: "length (pl_active st1) = pl_semaphore st1" "pl_semaphore st1 \<le> pl_running st1" "pl_running st1 + nat slots \<le> maxConcurrentPipelines"
    using pframe_onPipe [OF g] assms False by (auto simp: pframe_def pipeSlotsOk_def slots_def)
  have p: "pollPipelines st = (case r of Inl _ \<Rightarrow> st1 | Inr ps \<Rightarrow> pollPipelineLoop (nat slots) ps st1)\<lparr>pl_isPolling := False\<rparr>"
    using False assms g unfolding pollPipelines_def pipeSlotsOk_def slots_def by (cases r) (simp_all add: Let_def)
  show ?thesis
  proof (cases r)
    case (Inl e)
    then show ?thesis using f p by (simp add: pipeSlotsOk_def)
  next
    case (Inr ps)
    then show ?thesis using pollPipelineLoop_slots [OF f, of ps] p by (simp add: pipeSlotsOk_def Let_def)
  qed
qed

interpretation pipes: invariant_machine "\<lambda>st. \<exists>d keys. st = NewPipelineService d keys" "pipelineStep env" pipeSlotsOk for env
proof
  fix st assume "\<exists>d keys. st = NewPipelineService d keys"
  then show "pipeSlotsOk st" by (auto simp: pipeSlotsOk_def NewPipelineService_def)
next
  fix st opr st' assume ok: "pipeSlotsOk st" and "pipelineStep env st opr st'"
  from this(2) show "pipeSlotsOk st'"
  proof cases
    case poll
    then show ?thesis using pollPipelines_slots [OF ok] by simp
  next
    case (end_ i timedOut st1)
    then show ?thesis using ok pframe_executePipelineWithTimeout [OF end_(4)] by (auto simp: pipeSlotsOk_def pframe_def)
  next
    case (late i r st1)
    then show ?thesis using ok pframe_executePipeline [OF late(4)] by (auto simp: pipeSlotsOk_def pframe_def)
  qed (use ok in \<open>auto simp: pipeSlotsOk_def\<close>)
qed

text \<open>In every state the service can reach at most three executions are active, and the counter never says less.\<close>

lemma at_most_three_pipelines:
  assumes "reach (\<lambda>st. \<exists>d keys. st = NewPipelineService d keys) (pipelineStep env) st"
  shows "length (pl_active st) \<le> pl_running st \<and> pl_running st \<le> 3"
  using pipes.inv_reachable [OF assms] by (simp add: pipeSlotsOk_def maxConcurrentPipelines_def)

section \<open>Keys and references\<close>

lemma kept_updatePipelines:
  assumes "\<And>p. ip_AgentID (f p) = ip_AgentID p" "\<And>p. p \<in> set (db_pipelines d) \<Longrightarrow> P p \<Longrightarrow> refTo (s_ID ` set (db_sessions d)) (ip_SessionID p) \<Longrightarrow> refTo (s_ID ` set (db_sessions d)) (ip_SessionID (f p))"
  shows "refsOk d \<Longrightarrow> refsOk (updatePipelines P f d)"
  using assms by (auto simp: refsOk_def uniqueOk_def linksOk_def Let_def updatePipelines_def dest!: set_updateRows)

lemma sessionRefError_ref: "sessionRefError v others d = None \<Longrightarrow> refTo (s_ID ` set (db_sessions d)) v"
  by (cases v) (auto simp: sessionRefError_def list_ex_iff split: if_splits)

lemma kept_CreateIssuePipeline: "refs.kept (CreateIssuePipeline p)"
  unfolding CreateIssuePipeline_def [abs_def]
proof (intro refs.kept_newRow, unfold Let_def, intro refs.kept_bind refs.kept_execChecked)
  fix pid now d
  let ?row = "p\<lparr>ip_ID := pid, ip_CreatedAt := now, ip_UpdatedAt := now\<rparr>"
  assume i: "refsOk d" and "insertPipelineError ?row d = None"
  then have "ip_AgentID p \<in> a_ID ` set (db_agents d)" "refTo (s_ID ` set (db_sessions d)) (ip_SessionID p)"
    by (auto simp: insertPipelineError_def list_ex_iff split: if_splits dest: sessionRefError_ref intro: rev_image_eqI)
  with i show "refsOk (d\<lparr>db_pipelines := db_pipelines d @ [?row]\<rparr>)" by (auto simp: refsOk_def uniqueOk_def linksOk_def Let_def)
qed (auto intro!: refs.keptI)

lemma kept_UpdateIssuePipelineStatus: "refs.kept (UpdateIssuePipelineStatus pid u status msg)"
  unfolding UpdateIssuePipelineStatus_def [abs_def]
  by (intro refs.kept_timeNow refs.kept_execStmt kept_updatePipelines) (simp_all add: pipelineStatusRow_def)

lemma kept_linkSession: "refs.kept (linkSession p sid)"
  unfolding linkSession_def Let_def
  by (intro refs.kept_execChecked kept_updatePipelines)
    (auto simp: updatePipelines_def updateRows_none list_ex_iff dest!: sessionRefError_ref split: if_splits)

lemma kept_UpdateIssuePipelineResult: "refs.kept (UpdateIssuePipelineResult pid u n url b sid)"
  unfolding UpdateIssuePipelineResult_def [abs_def] Let_def
  by (intro refs.kept_timeNow [unfolded Let_def] refs.kept_execChecked kept_updatePipelines)
    (auto simp: list_ex_iff dest!: sessionRefError_ref split: if_splits)

end
