(* ===== verification/Notifier.thy ===== *)
theory Notifier
  imports Pipelines
begin

text \<open>
  The messages about finished work (\<open>bot/issue_pipeline/notifier.go\<close> and the nearly identical \<open>bot/scheduler/notifier.go\<close>): the escaping of texts, the choice of
  the channel, and the caches with their recently-used lists. A cache is a Go map and a \<open>container/list\<close>; a list element is its identity and the
  key it carries, front first, since \<open>Remove\<close> and \<open>MoveToFront\<close> look at identities. Discord, Slack and the rate limiters are parameters; the messages
  that were sent are recorded.
\<close>

section \<open>Caches\<close>

definition notifierCacheSize :: nat where "notifierCacheSize = 500"
definition slackCacheTTLMs :: nat where "slackCacheTTLMs = 5 * 60 * 1000"
definition discordCacheTTLMs :: nat where "discordCacheTTLMs = 5 * 60 * 1000"
definition workspaceCacheTTLMs :: nat where "workspaceCacheTTLMs = 30000"

record 'v lruEntry =
  le_value :: 'v
  le_expiresAt :: nat
  le_element :: nat

record 'v lruCache =
  lc_map :: "(string \<times> 'v lruEntry) list"
  lc_list :: "(nat \<times> string) list"
  lc_next :: nat

definition emptyCache :: "'v lruCache" where
  "emptyCache = \<lparr>lc_map = [], lc_list = [], lc_next = 0\<rparr>"

definition MoveToFront :: "nat \<Rightarrow> (nat \<times> string) list \<Rightarrow> (nat \<times> string) list" where
  "MoveToFront el l = filter (\<lambda>x. fst x = el) l @ filter (\<lambda>x. fst x \<noteq> el) l"

definition touchEntry :: "nat \<Rightarrow> 'v lruCache \<Rightarrow> 'v lruCache" where
  "touchEntry el c = c\<lparr>lc_list := MoveToFront el (lc_list c)\<rparr>"

text \<open>The insertion into a cache of at most \<open>cap\<close> entries: the oldest element and the key it carries go first.\<close>

definition evictBack :: "nat \<Rightarrow> 'v lruCache \<Rightarrow> 'v lruCache" where
  "evictBack cap c =
     (if length (lc_map c) \<ge> cap \<and> lc_list c \<noteq> []
      then c\<lparr>lc_map := AList.delete (snd (last (lc_list c))) (lc_map c), lc_list := butlast (lc_list c)\<rparr>
      else c)"

definition storeEntry :: "nat \<Rightarrow> string \<Rightarrow> 'v \<Rightarrow> nat \<Rightarrow> 'v lruCache \<Rightarrow> 'v lruCache" where
  "storeEntry cap key v expiresAt c =
     (let c1 = evictBack cap c in
      c1\<lparr>lc_map := AList.update key \<lparr>le_value = v, le_expiresAt = expiresAt, le_element = lc_next c1\<rparr> (lc_map c1),
         lc_list := (lc_next c1, key) # lc_list c1, lc_next := Suc (lc_next c1)\<rparr>)"

definition evictExpired :: "nat \<Rightarrow> 'v lruCache \<Rightarrow> 'v lruCache" where
  "evictExpired now c =
     (let gone = filter (\<lambda>(_, e). le_expiresAt e < now) (lc_map c) in
      c\<lparr>lc_map := filter (\<lambda>(_, e). \<not> le_expiresAt e < now) (lc_map c),
        lc_list := filter (\<lambda>(el, _). el \<notin> set (map (le_element \<circ> snd) gone)) (lc_list c)\<rparr>)"

section \<open>State and parameters\<close>

record discordChannel =
  dch_ID :: string
  dch_isText :: bool
  dch_Name :: string

record notifierEnv =
  ne_client :: bool \<comment> \<open>the Discord client is set\<close>
  ne_clientState :: bool
  ne_guild :: "string \<Rightarrow> string result" \<comment> \<open>the system channel of a guild\<close>
  ne_guildChannels :: "string \<Rightarrow> discordChannel list result"
  ne_permissions :: "string \<Rightarrow> (64 word) result"
  ne_discordWait :: "string option"
  ne_discordSend :: "string \<Rightarrow> string \<Rightarrow> string option"
  ne_slackConversations :: "string \<Rightarrow> (string \<times> string) list result" \<comment> \<open>id and name\<close>
  ne_slackWait :: "string option"
  ne_slackPost :: "string \<Rightarrow> string \<Rightarrow> string \<Rightarrow> string option"
  ne_appURL :: string \<comment> \<open>\<open>NEXTAUTH_URL\<close>\<close>

record NotifierState =
  nt_db :: db
  nt_workspaces :: "Workspace list lruCache"
  nt_discord :: "string lruCache"
  nt_slack :: "(string \<times> string) lruCache"
  nt_sent :: "(Platform \<times> string \<times> string) list" \<comment> \<open>channel and text of the messages the platforms accepted\<close>

definition onNotifier :: "(db \<Rightarrow> 'a \<times> db) \<Rightarrow> NotifierState \<Rightarrow> 'a \<times> NotifierState" where
  "onNotifier m st = (let (r, d) = m (nt_db st) in (r, st\<lparr>nt_db := d\<rparr>))"

definition evictExpiredEntries :: "NotifierState \<Rightarrow> NotifierState" where
  "evictExpiredEntries st =
     (let (now, st1) = onNotifier timeNow st in
      st1\<lparr>nt_discord := evictExpired now (nt_discord st1), nt_slack := evictExpired now (nt_slack st1),
          nt_workspaces := evictExpired now (nt_workspaces st1)\<rparr>)"

section \<open>Texts\<close>

definition zeroWidthSpace :: string where
  "zeroWidthSpace = [CHR 0xE2, CHR 0x80, CHR 0x8B]"

definition mentionPattern :: re where
  "mentionPattern = Cat (lit ''@'') (Or (lit ''everyone'') (lit ''here''))"

definition discordEscapePattern :: re where
  "discordEscapePattern = Cls (oneOf (''*_`~|'' @ [CHR 0x5C]))"

definition slackMentionPattern :: re where
  "slackMentionPattern = Cat (lit ''<!'') (Cat (alternatives [lit ''everyone'', lit ''here'', lit ''channel'']) (lit ''>''))"

definition slackEscapePattern :: re where
  "slackEscapePattern = Cls (oneOf ''*_~`'')"

text \<open>The group \<open>$1\<close> of a mention is its text without the first character.\<close>

definition escapeDiscordMarkdown :: "string \<Rightarrow> string" where
  "escapeDiscordMarkdown text =
     (let t1 = ReplaceAllStringFunc mentionPattern (\<lambda>m. ''@'' @ zeroWidthSpace @ tl m) text;
          t2 = ReplaceAllStringFunc discordEscapePattern (\<lambda>c. [CHR 0x5C] @ c) t1
      in take 200 t2)"

definition escapeSlackMarkdown :: "string \<Rightarrow> string" where
  "escapeSlackMarkdown text = take 200 (ReplaceAllString slackEscapePattern [] (ReplaceAllString slackMentionPattern ''(mention)'' text))"

definition durationStr :: "nat \<Rightarrow> string" where
  "durationStr ms =
     (let durationSeconds = ms div 1000; minutes = durationSeconds div 60; seconds = durationSeconds mod 60 in
      if minutes > 0 then Itoa minutes @ ''m '' @ Itoa seconds @ ''s'' else Itoa seconds @ ''s'')"

definition statusLabel :: "string \<Rightarrow> string" where
  "statusLabel status =
     (if status = ''error'' then ''Failed'' else if status = ''disabled'' then ''Auto-Disabled After 5 Failures'' else ''Completed'')"

definition sessionURL :: "notifierEnv \<Rightarrow> string \<Rightarrow> string" where
  "sessionURL env sessionID =
     (if sessionID \<noteq> [] then (if ne_appURL env = [] then ''https://app.shipmates.dev'' else ne_appURL env) @ ''/dashboard/sessions/'' @ sessionID else [])"

text \<open>The text of a message; the platforms differ in the escaping and in the mark of bold text.\<close>

definition resultMessage :: "notifierEnv \<Rightarrow> (string \<Rightarrow> string) \<Rightarrow> string \<Rightarrow> ScheduleResult \<Rightarrow> string" where
  "resultMessage env escape bold r =
     (let url = sessionURL env (sr_SessionID r);
          branchLine = (if sr_BranchName r \<noteq> [] then [newline] @ ''Branch: `'' @ escape (sr_BranchName r) @ ''`'' else []);
          viewLine = (if url \<noteq> [] then [newline] @ ''View: '' @ url else []);
          durationLine = (if sr_DurationMs r > 0 then [newline] @ ''Duration: '' @ durationStr (sr_DurationMs r) else [])
      in bold @ ''Scheduled Task '' @ statusLabel (sr_Status r) @ bold @ [newline] @ ''Schedule: '' @ escape (sr_ScheduleName r) @ [newline]
         @ ''Agent: '' @ escape (sr_AgentName r) @ [newline] @ ''Task: '' @ escape (take 150 (sr_Task r)) @ durationLine @ branchLine @ viewLine)"

section \<open>Sending\<close>

definition fetchWorkspaces :: "string \<Rightarrow> NotifierState \<Rightarrow> Workspace list result \<times> NotifierState" where
  "fetchWorkspaces userID st =
     (let fetch = (\<lambda>st.
        (case onNotifier (ListWorkspaces userID) st of
           (Inl e, st1) \<Rightarrow> (Inl e, st1)
         | (Inr ws, st1) \<Rightarrow>
             (let (now, st2) = onNotifier timeNow st1 in
              (Inr ws, st2\<lparr>nt_workspaces := storeEntry notifierCacheSize userID ws (now + workspaceCacheTTLMs) (nt_workspaces st2)\<rparr>))))
      in case map_of (lc_map (nt_workspaces st)) userID of
           None \<Rightarrow> fetch st
         | Some e \<Rightarrow>
             (let (now, st1) = onNotifier timeNow st in
              if now < le_expiresAt e
              then (Inr (le_value e), st1\<lparr>nt_workspaces := touchEntry (le_element e) (nt_workspaces st1)\<rparr>)
              else fetch st1))"

definition firstID :: "(discordChannel \<Rightarrow> bool) \<Rightarrow> discordChannel list \<Rightarrow> string" where
  "firstID P chs = (case List.find P chs of None \<Rightarrow> [] | Some ch \<Rightarrow> dch_ID ch)"

definition mayWrite :: "notifierEnv \<Rightarrow> discordChannel \<Rightarrow> bool" where
  "mayWrite env ch = (dch_isText ch \<and> (case ne_permissions env (dch_ID ch) of Inl _ \<Rightarrow> False | Inr perms \<Rightarrow> bit perms 11))"

definition findDiscordChannel :: "notifierEnv \<Rightarrow> string \<Rightarrow> string result" where
  "findDiscordChannel env guildID =
     (if \<not> ne_client env then Inl ''discord client not initialized''
      else if \<not> ne_clientState env then Inl ''discord client state not initialized''
      else case ne_guild env guildID of
        Inl e \<Rightarrow> Inl (''get guild: '' @ e)
      | Inr systemChannelID \<Rightarrow>
          (let target =
             (if systemChannelID \<noteq> [] then Inr systemChannelID
              else case ne_guildChannels env guildID of
                Inl e \<Rightarrow> Inl (''get guild channels: '' @ e)
              | Inr channels \<Rightarrow>
                  (let named = firstID (\<lambda>ch. dch_isText ch \<and> dch_Name ch = ''shipmates'') channels in
                   Inr (if named = [] then firstID (mayWrite env) channels else named)))
           in case target of
                Inl e \<Rightarrow> Inl e
              | Inr [] \<Rightarrow> Inl (''no writable text channel found in guild '' @ guildID)
              | Inr t \<Rightarrow> Inr t))"

definition resolveDiscordChannel :: "notifierEnv \<Rightarrow> string \<Rightarrow> NotifierState \<Rightarrow> string result \<times> NotifierState" where
  "resolveDiscordChannel env guildID st =
     (let resolve = (\<lambda>st.
        (case findDiscordChannel env guildID of
           Inl e \<Rightarrow> (Inl e, st)
         | Inr target \<Rightarrow>
             (let (now, st1) = onNotifier timeNow st in
              (Inr target, st1\<lparr>nt_discord := storeEntry notifierCacheSize guildID target (now + discordCacheTTLMs) (nt_discord st1)\<rparr>))))
      in case map_of (lc_map (nt_discord st)) guildID of
           None \<Rightarrow> resolve st
         | Some e \<Rightarrow>
             (let (now, st1) = onNotifier timeNow st in
              if now < le_expiresAt e
              then (Inr (le_value e), st1\<lparr>nt_discord := touchEntry (le_element e) (nt_discord st1)\<rparr>)
              else resolve st1))"

definition discordText :: "string \<Rightarrow> string" where
  "discordText message = (if length message > 1900 then take 1900 message @ ''...'' else message)"

definition sendDiscord :: "notifierEnv \<Rightarrow> string \<Rightarrow> string \<Rightarrow> NotifierState \<Rightarrow> unit result \<times> NotifierState" where
  "sendDiscord env channelID message st =
     (case ne_discordSend env channelID (discordText message) of
        Some e \<Rightarrow> (Inl (''send message: '' @ e), st)
      | None \<Rightarrow> (Inr (), st\<lparr>nt_sent := nt_sent st @ [(Discord, channelID, discordText message)]\<rparr>))"

definition sendDiscordNotification :: "notifierEnv \<Rightarrow> string \<Rightarrow> string \<Rightarrow> NotifierState \<Rightarrow> unit result \<times> NotifierState" where
  "sendDiscordNotification env guildID message st =
     (case ne_discordWait env of
        Some e \<Rightarrow> (Inl (''rate limit wait: '' @ e), st)
      | None \<Rightarrow>
          (case resolveDiscordChannel env guildID st of
             (Inl e, st1) \<Rightarrow> (Inl e, st1)
           | (Inr channelID, st1) \<Rightarrow>
               if \<not> ne_client env then (Inl ''discord client not initialized'', st1) else sendDiscord env channelID message st1))"

text \<open>The scheduler's version has no cache.\<close>

definition sendDiscordNotification_scheduler :: "notifierEnv \<Rightarrow> string \<Rightarrow> string \<Rightarrow> NotifierState \<Rightarrow> unit result \<times> NotifierState" where
  "sendDiscordNotification_scheduler env guildID message st =
     (case ne_discordWait env of
        Some e \<Rightarrow> (Inl (''rate limit wait: '' @ e), st)
      | None \<Rightarrow>
          (case findDiscordChannel env guildID of
             Inl e \<Rightarrow> (Inl e, st)
           | Inr channelID \<Rightarrow> sendDiscord env channelID message st))"

definition slackID :: "string \<Rightarrow> (string \<times> string) list \<Rightarrow> string" where
  "slackID name chs = (case List.find (\<lambda>(_, n). n = name) chs of None \<Rightarrow> [] | Some (i, _) \<Rightarrow> i)"

definition findSlackChannel :: "(string \<times> string) list \<Rightarrow> string" where
  "findSlackChannel chs =
     (let named = slackID ''shipmates'' chs; t1 = (if named = [] then slackID ''general'' chs else named)
      in if t1 = [] \<and> chs \<noteq> [] then fst (hd chs) else t1)"

definition resolveSlackChannel :: "notifierEnv \<Rightarrow> string \<Rightarrow> NotifierState \<Rightarrow> (string \<times> string) result \<times> NotifierState" where
  "resolveSlackChannel env teamID st =
     (let resolve = (\<lambda>st.
        (case onNotifier (GetWorkspaceByPlatform Slack teamID) st of
           (Inl e, st1) \<Rightarrow> (Inl (''get workspace: '' @ e), st1)
         | (Inr w, st1) \<Rightarrow>
             (case (case w of None \<Rightarrow> None | Some ws \<Rightarrow> wk_BotToken ws) of
                None \<Rightarrow> (Inl ''workspace or bot token not found'', st1)
              | Some token \<Rightarrow>
                  (case ne_slackConversations env token of
                     Inl e \<Rightarrow> (Inl (''get conversations: '' @ e), st1)
                   | Inr chs \<Rightarrow>
                       (let target = findSlackChannel chs in
                        if target = [] then (Inl ''no suitable channel found'', st1)
                        else
                          (let (now, st2) = onNotifier timeNow st1 in
                           (Inr (target, token),
                            st2\<lparr>nt_slack := storeEntry notifierCacheSize teamID (target, token) (now + slackCacheTTLMs) (nt_slack st2)\<rparr>)))))))
      in case map_of (lc_map (nt_slack st)) teamID of
           None \<Rightarrow> resolve st
         | Some e \<Rightarrow>
             (let (now, st1) = onNotifier timeNow st in
              if now < le_expiresAt e
              then (Inr (le_value e), st1\<lparr>nt_slack := touchEntry (le_element e) (nt_slack st1)\<rparr>)
              else resolve st1))"

definition sendSlackNotification :: "notifierEnv \<Rightarrow> string \<Rightarrow> string \<Rightarrow> NotifierState \<Rightarrow> unit result \<times> NotifierState" where
  "sendSlackNotification env teamID message st =
     (case ne_slackWait env of
        Some e \<Rightarrow> (Inl (''rate limit wait: '' @ e), st)
      | None \<Rightarrow>
          (case resolveSlackChannel env teamID st of
             (Inl e, st1) \<Rightarrow> (Inl e, st1)
           | (Inr (channelID, token), st1) \<Rightarrow>
               (case ne_slackPost env token channelID message of
                  Some e \<Rightarrow> (Inl (''post message: '' @ e), st1)
                | None \<Rightarrow> (Inr (), st1\<lparr>nt_sent := nt_sent st1 @ [(Slack, channelID, message)]\<rparr>))))"

text \<open>The loop over the workspaces; a message that cannot be sent is only printed.\<close>

fun notifyWorkspaces ::
    "(string \<Rightarrow> string \<Rightarrow> NotifierState \<Rightarrow> unit result \<times> NotifierState) \<Rightarrow> notifierEnv \<Rightarrow> ScheduleResult \<Rightarrow> Workspace list \<Rightarrow> NotifierState \<Rightarrow> NotifierState" where
  "notifyWorkspaces discord env r [] st = st"
| "notifyWorkspaces discord env r (w # ws) st =
     notifyWorkspaces discord env r ws
       (case wk_Platform w of
          Discord \<Rightarrow> snd (discord (wk_PlatformID w) (resultMessage env escapeDiscordMarkdown ''**'' r) st)
        | Slack \<Rightarrow> snd (sendSlackNotification env (wk_PlatformID w) (resultMessage env escapeSlackMarkdown ''*'' r) st))"

definition notifyPipelineResult :: "notifierEnv \<Rightarrow> string \<Rightarrow> ScheduleResult \<Rightarrow> NotifierState \<Rightarrow> NotifierState" where
  "notifyPipelineResult env userID r st =
     (case fetchWorkspaces userID st of
        (Inl _, st1) \<Rightarrow> st1
      | (Inr ws, st1) \<Rightarrow> notifyWorkspaces (sendDiscordNotification env) env r ws st1)"

definition notifyScheduleResult_scheduler :: "notifierEnv \<Rightarrow> string \<Rightarrow> ScheduleResult \<Rightarrow> NotifierState \<Rightarrow> NotifierState" where
  "notifyScheduleResult_scheduler env userID r st =
     (case fetchWorkspaces userID st of
        (Inl _, st1) \<Rightarrow> st1
      | (Inr ws, st1) \<Rightarrow> notifyWorkspaces (sendDiscordNotification_scheduler env) env r ws st1)"

section \<open>What a cache returns\<close>

text \<open>
  The operations on one cache, in the order of their critical sections: an entry is stored, a live entry is touched, or expired entries
  are evicted.
\<close>

datatype 'v cacheOp = Store string 'v nat | Touch nat | Evict nat

fun cacheStep :: "nat \<Rightarrow> 'v lruCache \<Rightarrow> 'v cacheOp \<Rightarrow> 'v lruCache" where
  "cacheStep cap c (Store key v expiresAt) = storeEntry cap key v expiresAt c"
| "cacheStep cap c (Touch el) = touchEntry el c"
| "cacheStep cap c (Evict now) = evictExpired now c"

definition cacheAfter :: "nat \<Rightarrow> 'v cacheOp list \<Rightarrow> 'v lruCache" where
  "cacheAfter cap ops = foldl (cacheStep cap) emptyCache ops"

text \<open>What the cache promises to hold for a key: what was stored last under it.\<close>

fun stored :: "'v cacheOp list \<Rightarrow> string \<Rightarrow> ('v \<times> nat) option" where
  "stored [] key = None"
| "stored (Store k v t # ops) key = (case stored ops key of Some x \<Rightarrow> Some x | None \<Rightarrow> if k = key then Some (v, t) else None)"
| "stored (_ # ops) key = stored ops key"

text \<open>Keys and elements are distinct, and the element of every entry is in the list and carries its key.\<close>

definition lruOk :: "'v lruCache \<Rightarrow> bool" where
  "lruOk c \<longleftrightarrow> distinct (map fst (lc_map c)) \<and> distinct (map fst (lc_list c)) \<and> (\<forall>(el, _) \<in> set (lc_list c). el < lc_next c)
     \<and> (\<forall>(k, e) \<in> set (lc_map c). (le_element e, k) \<in> set (lc_list c))"

lemma set_MoveToFront [simp]: "set (MoveToFront el l) = set l"
  by (auto simp: MoveToFront_def)

lemma distinct_MoveToFront: "distinct (map fst l) \<Longrightarrow> distinct (map fst (MoveToFront el l))"
  by (auto simp: MoveToFront_def distinct_map_filter)

lemma lruOk_touch: "lruOk c \<Longrightarrow> lruOk (touchEntry el c)"
  by (simp add: lruOk_def touchEntry_def distinct_MoveToFront)

lemma lruOk_element:
  assumes "lruOk c" "(k, e) \<in> set (lc_map c)" "(el, k') \<in> set (lc_list c)" "le_element e = el"
  shows "k' = k"
  using assms eq_key_imp_eq_value [of "lc_list c" el k k'] by (auto simp: lruOk_def)

lemma lruOk_evictBack:
  assumes "lruOk c"
  shows "lruOk (evictBack cap c)"
proof (cases "length (lc_map c) \<ge> cap \<and> lc_list c \<noteq> []")
  case True
  obtain el k where b: "last (lc_list c) = (el, k)" by fastforce
  have l: "lc_list c = butlast (lc_list c) @ [(el, k)]" using True b by (metis append_butlast_last_id)
  then have d: "distinct (map fst (butlast (lc_list c) @ [(el, k)]))" using assms by (simp add: lruOk_def)
  have m: "(el, k) \<in> set (lc_list c)" using l by (metis in_set_conv_decomp)
  have "(le_element e, k') \<in> set (butlast (lc_list c))" if "(k', e) \<in> set (lc_map c)" "k' \<noteq> k" for k' e
  proof -
    have "(le_element e, k') \<in> set (butlast (lc_list c) @ [(el, k)])" using assms that(1) l by (auto simp: lruOk_def)
    then show ?thesis using that(2) by auto
  qed
  moreover have "distinct (map fst (AList.delete k (lc_map c)))" using assms by (simp add: lruOk_def AList.delete_eq distinct_map_filter)
  ultimately show ?thesis
    using True d assms b by (auto simp: evictBack_def lruOk_def AList.delete_eq dest: in_set_butlastD)
next
  case False
  then show ?thesis using assms unfolding evictBack_def by (simp only: if_False)
qed

lemma set_AList_update: "x \<in> set (AList.update k v al) \<Longrightarrow> x = (k, v) \<or> x \<in> set al"
  by (induction al) (auto split: if_splits)

lemma lruOk_store:
  assumes "lruOk c"
  shows "lruOk (storeEntry cap key v t c)"
proof -
  define c1 where "c1 = evictBack cap c"
  have ok: "lruOk c1" using lruOk_evictBack [OF assms] by (simp add: c1_def)
  let ?e = "\<lparr>le_value = v, le_expiresAt = t, le_element = lc_next c1\<rparr>"
  have u: "x = (key, ?e) \<or> x \<in> set (lc_map c1)" if "x \<in> set (AList.update key ?e (lc_map c1))" for x
    using that by (rule set_AList_update)
  have "distinct (map fst (AList.update key ?e (lc_map c1)))" using ok by (simp add: lruOk_def distinct_update)
  then show ?thesis
    using ok u unfolding storeEntry_def c1_def [symmetric] Let_def lruOk_def by (fastforce dest: u)
qed

lemma lruOk_evictExpired:
  assumes "lruOk c"
  shows "lruOk (evictExpired now c)"
proof -
  let ?gone = "filter (\<lambda>(_, e). le_expiresAt e < now) (lc_map c)"
  have "le_element e \<notin> set (map (le_element \<circ> snd) ?gone)" if m: "(k, e) \<in> set (lc_map c)" "\<not> le_expiresAt e < now" for k e
  proof
    assume "le_element e \<in> set (map (le_element \<circ> snd) ?gone)"
    then obtain k' e' where e': "(k', e') \<in> set (lc_map c)" "le_expiresAt e' < now" "le_element e' = le_element e" by auto
    have "(le_element e, k) \<in> set (lc_list c)" using assms m(1) by (auto simp: lruOk_def)
    then have "k = k'" using lruOk_element [OF assms e'(1)] e'(3) by blast
    then have "e = e'" using assms m(1) e'(1) by (auto simp: lruOk_def dest: eq_key_imp_eq_value)
    then show False using m(2) e'(2) by simp
  qed
  then show ?thesis using assms unfolding lruOk_def evictExpired_def Let_def by (fastforce simp: distinct_map_filter)
qed

lemma lruOk_step: "lruOk c \<Longrightarrow> lruOk (cacheStep cap c opr)"
  by (cases opr) (simp_all add: lruOk_store lruOk_touch lruOk_evictExpired)

lemma lookup_step:
  assumes "lruOk c" "map_of (lc_map (cacheStep cap c opr)) key = Some e"
  shows "(\<exists>v t. opr = Store key v t \<and> le_value e = v \<and> le_expiresAt e = t)
    \<or> (\<forall>v t. opr \<noteq> Store key v t) \<and> map_of (lc_map c) key = Some e"
proof (cases opr)
  case (Store k v t)
  have "map_of (lc_map (evictBack cap c)) key = Some e' \<Longrightarrow> map_of (lc_map c) key = Some e'" for e'
    by (auto simp: evictBack_def AList.delete_conv' split: if_splits)
  then show ?thesis using assms(2) Store by (auto simp: storeEntry_def Let_def update_conv split: if_splits)
next
  case (Touch el)
  then show ?thesis using assms(2) by (simp add: touchEntry_def)
next
  case (Evict now)
  have d: "distinct (map fst (lc_map c))" using assms(1) by (simp add: lruOk_def)
  have "(key, e) \<in> set (lc_map c)" using assms(2) Evict by (auto simp: evictExpired_def Let_def dest!: map_of_SomeD)
  then show ?thesis using Evict d by (simp add: map_of_eq_Some_iff)
qed

lemma stored_snoc: "stored (ops @ [opr]) key = (case opr of Store k v t \<Rightarrow> if k = key then Some (v, t) else stored ops key | _ \<Rightarrow> stored ops key)"
  by (induction ops key rule: stored.induct) (auto split: cacheOp.split option.split)



text \<open>
  An entry that is stored again while its expired predecessor is still there leaves the predecessor's element in the list. When that element is the oldest, the
  cache evicts nothing and grows beyond its bound.
\<close>

lemma cache_exceeds_its_bound:
  "length (lc_map (cacheAfter 2
     [Store ''a'' v 10, Store ''a'' v 20, Evict 21, Store ''b'' v 50, Store ''c'' v 50, Store ''d'' v 50])) = 3"
  by (simp add: cacheAfter_def emptyCache_def storeEntry_def evictBack_def evictExpired_def Let_def)

section \<open>Mentions\<close>

definition mentionFree :: "string \<Rightarrow> bool" where
  "mentionFree s \<longleftrightarrow> (\<forall>n. \<not> prefix ''@everyone'' (drop n s) \<and> \<not> prefix ''@here'' (drop n s))"

lemma ends_lit: "ends t (lit w) i = (if i \<le> length t \<and> take (length w) (drop i t) = map of_char w then [i + length w] else if w = [] then [i] else [])"
proof (induction w arbitrary: i rule: lit.induct)
  case (2 c)
  then show ?case by (cases "drop i t") (auto simp: inRanges_def hd_drop_conv_nth [symmetric] drop_eq_Nil2 nth_via_drop)
next
  case (3 c c' cs)
  show ?case
  proof (cases "i < length t")
    case True
    then have d: "drop i t = t ! i # drop (Suc i) t" by (simp add: Cons_nth_drop_Suc)
    show ?thesis using True 3 [of "Suc i"] by (auto simp: d inRanges_def)
  qed (auto simp: inRanges_def)
qed simp

text \<open>A rune is an ASCII character or consists of higher bytes.\<close>

definition okRune :: "string \<Rightarrow> bool" where
  "okRune r \<longleftrightarrow> (\<exists>c. r = [c] \<and> (of_char c :: nat) < 128) \<or> (r \<noteq> [] \<and> (\<forall>b \<in> set r. 128 \<le> (of_char b :: nat)) \<and> 128 \<le> runeVal r)"

lemma okRune_runesOf: "r \<in> set (runesOf s) \<Longrightarrow> okRune r"
proof -
  assume r: "r \<in> set (runesOf s)"
  have "r \<noteq> []" using r
  proof (induction s rule: runesOf.induct)
    case (1 s)
    then show ?case using runesOf.simps [of s] by (cases "s = []") (auto simp: Let_def)
  qed
  then show ?thesis using runesOf_high [OF r] runeVal_high [OF r] by (auto simp: okRune_def)
qed

lemma okRune_ascii:
  assumes "okRune r" "runeVal r = of_char c" "(of_char c :: nat) < 128"
  shows "r = [c]"
  using assms by (auto simp: okRune_def)

definition hits :: "string \<Rightarrow> string list \<Rightarrow> bool" where
  "hits w rs \<longleftrightarrow> take (length w) (map runeVal rs) = map of_char w"

lemma hits_runes:
  assumes "\<forall>r \<in> set rs. okRune r" "hits w rs" "\<forall>c \<in> set w. (of_char c :: nat) < 128"
  shows "take (length w) rs = map (\<lambda>c. [c]) w"
  using assms
proof (induction w arbitrary: rs)
  case (Cons c w)
  then obtain r rs' where rs: "rs = r # rs'" by (cases rs) (auto simp: hits_def)
  with Cons.prems have "r = [c]" "hits w rs'" by (auto simp: hits_def intro: okRune_ascii)
  then show ?case using Cons.IH [of rs'] Cons.prems rs by simp
qed simp

text \<open>The first replacement, on runes.\<close>

function hush :: "string list \<Rightarrow> string" where
  "hush rs =
     (case rs of
        [] \<Rightarrow> []
      | r # rs' \<Rightarrow>
          if hits ''@everyone'' rs then ''@'' @ zeroWidthSpace @ ''everyone'' @ hush (drop 9 rs)
          else if hits ''@here'' rs then ''@'' @ zeroWidthSpace @ ''here'' @ hush (drop 5 rs)
          else r @ hush rs')"
  by auto
termination by (relation "measure length") auto

declare hush.simps [simp del]

lemma replace_mentions:
  assumes "\<forall>r \<in> set rs. okRune r" "t = map runeVal rs"
  shows "replaceFrom rs t mentionPattern (\<lambda>m. ''@'' @ zeroWidthSpace @ tl m) i = hush (drop i rs)"
  using assms
proof (induction rs t mentionPattern "\<lambda>m. ''@'' @ zeroWidthSpace @ tl m" i rule: replaceFrom.induct)
  case (1 rs t i)
  have sub: "\<forall>r \<in> set (drop i rs). okRune r" using 1(4) by (auto dest: in_set_dropD)
  have ends: "ends t mentionPattern i = (if hits ''@everyone'' (drop i rs) then [i + 9] else if hits ''@here'' (drop i rs) then [i + 5] else [])"
    if "i < length rs"
  proof -
    have d: "drop i rs = rs ! i # drop (Suc i) rs" using that by (simp add: Cons_nth_drop_Suc)
    have l: "ends t (lit w) (Suc i) = (if take (length w) (drop (Suc i) t) = map of_char w then [Suc i + length w] else [])" if "w \<noteq> []" for w
      using that \<open>i < length rs\<close> 1(5) by (simp add: ends_lit)
    have e: "ends t (lit ''@'') i = (if runeVal (rs ! i) = 64 then [Suc i] else [])"
      using that 1(5) by (simp add: inRanges_def)
    have h: "hits (CHR ''@'' # w) (drop i rs) \<longleftrightarrow> runeVal (rs ! i) = 64 \<and> take (length w) (drop (Suc i) t) = map of_char w" for w
      using 1(5) by (simp add: hits_def d drop_map)
    have n: "\<not> (hits ''@everyone'' (drop i rs) \<and> hits ''@here'' (drop i rs))"
      by (cases "drop (Suc i) rs") (auto simp: hits_def d)
    define E H where "E = (take (length ''everyone'') (drop (Suc i) t) = map of_char ''everyone'')"
      and "H = (take (length ''here'') (drop (Suc i) t) = map of_char ''here'')"
    have le: "ends t (lit ''everyone'') (Suc i) = (if E then [Suc i + length ''everyone''] else [])" unfolding E_def by (rule l) simp
    have lh: "ends t (lit ''here'') (Suc i) = (if H then [Suc i + length ''here''] else [])" unfolding H_def by (rule l) simp
    have he: "hits ''@everyone'' (drop i rs) \<longleftrightarrow> runeVal (rs ! i) = 64 \<and> E" unfolding E_def by (rule h)
    have hh: "hits ''@here'' (drop i rs) \<longleftrightarrow> runeVal (rs ! i) = 64 \<and> H" unfolding H_def by (rule h)
    show ?thesis
      using n unfolding mentionPattern_def ends.simps(4,5) e he hh
      by (cases "runeVal (rs ! i) = 64"; cases E; cases H) (simp_all add: le lh del: lit.simps)
  qed
  show ?case
  proof (cases "i < length rs")
    case True
    then have d: "drop i rs = rs ! i # drop (Suc i) rs" by (simp add: Cons_nth_drop_Suc)
    consider (every) "hits ''@everyone'' (drop i rs)" | (here) "\<not> hits ''@everyone'' (drop i rs)" "hits ''@here'' (drop i rs)"
      | (none) "\<not> hits ''@everyone'' (drop i rs)" "\<not> hits ''@here'' (drop i rs)" by blast
    then show ?thesis
    proof cases
      case every
      have "take 9 (drop i rs) = map (\<lambda>c. [c]) ''@everyone''" using hits_runes [OF sub every] by (simp add: numeral_eq_Suc)
      then have "concat (take 9 (drop i rs)) = ''@everyone''" by simp
      then show ?thesis using 1 True every ends [OF True]
        by (subst replaceFrom.simps, subst hush.simps) (simp add: d drop_drop add.commute)
    next
      case here
      have "take 5 (drop i rs) = map (\<lambda>c. [c]) ''@here''" using hits_runes [OF sub here(2)] by (simp add: numeral_eq_Suc)
      then have "concat (take 5 (drop i rs)) = ''@here''" by simp
      then show ?thesis using 1 True here ends [OF True]
        by (subst replaceFrom.simps, subst hush.simps) (simp add: d drop_drop add.commute)
    next
      case none
      then show ?thesis using 1 True ends [OF True] by (subst replaceFrom.simps, subst hush.simps) (simp add: d)
    qed
  qed (subst replaceFrom.simps, subst hush.simps, simp)
qed

lemma hush_Nil: "hush [] = []"
  by (simp add: hush.simps)

lemma hits_Nil: "hits (c # w) [] = False"
  by (simp add: hits_def)

lemma hush_every: "hits ''@everyone'' rs \<Longrightarrow> hush rs = ''@'' @ zeroWidthSpace @ ''everyone'' @ hush (drop 9 rs)"
  by (subst hush.simps) (auto simp: hits_Nil split: list.split)

lemma hush_here: "\<not> hits ''@everyone'' rs \<Longrightarrow> hits ''@here'' rs \<Longrightarrow> hush rs = ''@'' @ zeroWidthSpace @ ''here'' @ hush (drop 5 rs)"
  by (subst hush.simps) (auto simp: hits_Nil split: list.split)

lemma hush_none: "\<not> hits ''@everyone'' (r # rs) \<Longrightarrow> \<not> hits ''@here'' (r # rs) \<Longrightarrow> hush (r # rs) = r @ hush rs"
  by (subst hush.simps) simp

lemma hush_starts:
  assumes "\<forall>r \<in> set rs. okRune r" "prefix w (hush rs)" "\<forall>c \<in> set w. (of_char c :: nat) < 128 \<and> c \<noteq> CHR ''@''"
  shows "hits w rs"
  using assms
proof (induction w arbitrary: rs)
  case (Cons c w)
  obtain r rs' where rs: "rs = r # rs'" using Cons.prems(2) by (cases rs) (auto simp: hush_Nil)
  have at: "\<not> prefix (c # w) (''@'' @ x)" for x using Cons.prems(3) by auto
  have "\<not> hits ''@everyone'' rs" using Cons.prems(2) at hush_every by metis
  moreover from this have "\<not> hits ''@here'' rs" using Cons.prems(2) at hush_here by metis
  ultimately have "hush rs = r @ hush rs'" unfolding rs by (rule hush_none)
  then have p: "prefix (c # w) (r @ hush rs')" using Cons.prems(2) by simp
  have "okRune r" using Cons.prems(1) rs by simp
  then consider "r = [c]" | "\<forall>b \<in> set r. 128 \<le> (of_char b :: nat)" "r \<noteq> []" using p by (auto simp: okRune_def)
  then show ?case
  proof cases
    case 1
    then have "hits w rs'" using Cons.IH [of rs'] Cons.prems p rs by simp
    then show ?thesis using 1 rs Cons.prems(3) by (simp add: hits_def)
  next
    case 2
    then show ?thesis using p Cons.prems(3) by (cases r) auto
  qed
qed (simp add: hits_def)

lemma prefix_drop_append:
  assumes "prefix (c # w) (drop n (u @ v))" "c \<notin> set u"
  shows "\<exists>m. prefix (c # w) (drop m v)"
proof (cases "n < length u")
  case True
  then have "drop n u = u ! n # drop (Suc n) u" "u ! n \<in> set u" by (simp_all add: Cons_nth_drop_Suc)
  then show ?thesis using assms True by auto
qed (use assms in auto)

lemma mentionFree_append: "mentionFree v \<Longrightarrow> CHR ''@'' \<notin> set u \<Longrightarrow> mentionFree (u @ v)"
  unfolding mentionFree_def using prefix_drop_append [of "CHR ''@''" "''everyone''" _ u v] prefix_drop_append [of "CHR ''@''" "''here''" _ u v] by blast

lemma mentionFree_Cons:
  "mentionFree v \<Longrightarrow> \<not> prefix ''everyone'' v \<Longrightarrow> \<not> prefix ''here'' v \<Longrightarrow> mentionFree (CHR ''@'' # v)"
  unfolding mentionFree_def by (metis Cons_prefix_Cons drop_Cons' drop_0)

lemma mentionFree_hush: "\<forall>r \<in> set rs. okRune r \<Longrightarrow> mentionFree (hush rs)"
proof (induction rs rule: hush.induct)
  case (1 rs)
  have quiet: "mentionFree (''@'' @ zeroWidthSpace @ w @ v)" if "mentionFree v" "CHR ''@'' \<notin> set w" for v w
    using mentionFree_append [OF that(1), of "zeroWidthSpace @ w"] that(2)
    by (auto simp: zeroWidthSpace_def intro!: mentionFree_Cons)
  show ?case
  proof (cases rs)
    case Nil
    then show ?thesis by (simp add: mentionFree_def hush_Nil)
  next
    case (Cons r rs')
    have sub: "\<forall>r \<in> set (drop k rs). okRune r" for k using "1.prems" by (auto dest: in_set_dropD)
    consider (every) "hits ''@everyone'' rs" | (here) "\<not> hits ''@everyone'' rs" "hits ''@here'' rs"
      | (none) "\<not> hits ''@everyone'' rs" "\<not> hits ''@here'' rs" by blast
    then show ?thesis
    proof cases
      case every
      have "mentionFree (hush (drop 9 rs))" using "1.IH"(1) [OF Cons every] sub by blast
      then show ?thesis unfolding hush_every [OF every] by (rule quiet) simp
    next
      case here
      have "mentionFree (hush (drop 5 rs))" using "1.IH"(2) [OF Cons here] sub by blast
      then show ?thesis unfolding hush_here [OF here] by (rule quiet) simp
    next
      case none
      have ok: "\<forall>r \<in> set rs'. okRune r" "okRune r" using "1.prems" Cons by auto
      have v: "mentionFree (hush rs')" using "1.IH"(3) [OF Cons none] ok by blast
      have "mentionFree (r @ hush rs')"
      proof (cases "r = ''@''")
        case True
        have "\<not> prefix ''everyone'' (hush rs')" "\<not> prefix ''here'' (hush rs')"
          using none True Cons hush_starts [OF ok(1), of "''everyone''"] hush_starts [OF ok(1), of "''here''"] by (auto simp: hits_def)
        then show ?thesis using mentionFree_Cons [OF v] True by simp
      next
        case False
        then have "CHR ''@'' \<notin> set r" using ok(2) by (auto simp: okRune_def)
        then show ?thesis using mentionFree_append [OF v] by simp
      qed
      then show ?thesis using hush_none none unfolding Cons by simp
    qed
  qed
qed

text \<open>Inserting backslashes brings no mention about.\<close>

lemma prefix_inserted:
  assumes "prefix w (u @ concat (map (\<lambda>r. if P r then b # r else r) rs))" "b \<notin> set w"
  shows "prefix w (u @ concat rs)"
  using assms
proof (induction rs arbitrary: u w)
  case (Cons r rs)
  show ?case
  proof (cases "P r")
    case True
    from Cons.prems(1) consider "prefix w u" | w' where "w = u @ w'" "prefix w' (b # r @ concat (map (\<lambda>r. if P r then b # r else r) rs))"
      using True by (auto simp: prefix_append)
    then show ?thesis
    proof cases
      case 2
      then have "w' = []" using Cons.prems(2) by (cases w') auto
      then show ?thesis using 2 by simp
    qed (simp add: prefix_prefix)
  next
    case False
    then show ?thesis using Cons.IH [of w "u @ r"] Cons.prems by simp
  qed
qed simp

lemma drop_inserted:
  assumes "prefix w (drop n (concat (map (\<lambda>r. if P r then b # r else r) rs)))" "b \<notin> set w" "w \<noteq> []"
  shows "\<exists>m. prefix w (drop m (concat rs))"
  using assms(1)
proof (induction rs arbitrary: n)
  case (Cons r rs)
  let ?f = "\<lambda>r. if P r then b # r else r"
  show ?case
  proof (cases "n < length (?f r)")
    case True
    then have p: "prefix w (drop n (?f r) @ concat (map ?f rs))" using Cons.prems by simp
    have "drop n (?f r) = drop (if P r then n - 1 else n) r \<or> hd (drop n (?f r)) = b" by (cases "P r"; cases n) simp_all
    moreover have "(if P r then n - 1 else n) \<le> length r" using True by auto
    ultimately obtain k where k: "drop n (?f r) = drop k r \<or> hd (drop n (?f r)) = b" "k \<le> length r" by blast
    have "hd (drop n (?f r)) \<noteq> b" using p True assms(2,3) by (cases w; cases "drop n (?f r)") auto
    then have "prefix w (drop k r @ concat (map ?f rs))" using k p by simp
    then have "prefix w (drop k r @ concat rs)" by (rule prefix_inserted) (rule assms(2))
    then show ?thesis using k(2) by (intro exI [of _ k]) simp
  next
    case False
    then have "prefix w (drop (n - length (?f r)) (concat (map ?f rs)))" using Cons.prems by simp
    from Cons.IH [OF this] obtain m where "prefix w (drop m (concat rs))" ..
    then show ?thesis by (intro exI [of _ "length r + m"]) simp
  qed
qed (use assms(3) in simp)

text \<open>
  C31. Escaped texts mention nobody. Whatever a schedule, an agent, a task or a branch is called, the text that goes into a Discord message has at most 200 bytes and
  contains neither \<open>@everyone\<close> nor \<open>@here\<close>.
\<close>

theorem escaped_text_mentions_nobody:
  "length (escapeDiscordMarkdown s) \<le> 200
   \<and> \<not> Contains (escapeDiscordMarkdown s) ''@everyone'' \<and> \<not> Contains (escapeDiscordMarkdown s) ''@here''"
proof -
  define t1 where "t1 = ReplaceAllStringFunc mentionPattern (\<lambda>m. ''@'' @ zeroWidthSpace @ tl m) s"
  define cls where "cls = oneOf (''*_`~|'' @ [CHR 0x5C])"
  have "t1 = hush (runesOf s)"
    using replace_mentions [of "runesOf s" _ 0] okRune_runesOf by (simp add: t1_def ReplaceAllStringFunc_def runeVals_def)
  then have free: "mentionFree t1" using mentionFree_hush okRune_runesOf by simp
  have e: "escapeDiscordMarkdown s = take 200 (concat (map (\<lambda>r. if inRanges cls (runeVal r) then CHR 0x5C # r else r) (runesOf t1)))"
    unfolding escapeDiscordMarkdown_def t1_def [symmetric] Let_def
    by (simp add: discordEscapePattern_def ReplaceAllStringFunc_def runeVals_def replaceFrom_class cls_def cong: if_cong)
  have none: "\<not> Contains (escapeDiscordMarkdown s) (CHR ''@'' # w)"
    if "CHR 0x5C \<notin> set w" "\<And>n. \<not> prefix (CHR ''@'' # w) (drop n t1)" for w
  proof
    assume "Contains (escapeDiscordMarkdown s) (CHR ''@'' # w)"
    then obtain u v where "escapeDiscordMarkdown s = u @ (CHR ''@'' # w) @ v" by (auto simp: Contains_iff)
    then have "prefix (CHR ''@'' # w) (drop (length u) (escapeDiscordMarkdown s))" by simp
    then have "prefix (CHR ''@'' # w) (drop (length u) (concat (map (\<lambda>r. if inRanges cls (runeVal r) then CHR 0x5C # r else r) (runesOf t1))))"
      unfolding e drop_take using take_is_prefix prefix_order.trans by blast
    from drop_inserted [OF this] that show False by auto
  qed
  show ?thesis using free none [of "''everyone''"] none [of "''here''"] by (simp add: e mentionFree_def)
qed

text \<open>The Slack version removes the marks after the mentions, and so makes mentions of texts that had none.\<close>

lemma slack_escaping_makes_mentions: "escapeSlackMarkdown ''<!every_one>'' = ''<!everyone>''"
  by code_simp

end
