(* ===== verification/Hub.thy ===== *)
theory Hub
  imports Json "HOL-Library.AList"
begin

text \<open>
  The hub of the stream relay (\<open>stream-relay/relay/hub.go\<close>, \<open>session.go\<close>): subscribers with a bounded
  buffer each, grouped by session, a limit on their number, and a sequence counter per session.

  A subscriber is a cell of a heap and its pointer the index of the cell, so two sessions that name
  the same pointer share it. A Go map is an association list with distinct keys (its order plays no
  role), a map used as a set a list of pointers. Every method of the hub holds the mutex or touches one
  atomic cell, except that \<open>Publish\<close> sends after it has released the mutex; what the readers of the
  buffers do meanwhile is the argument \<open>reads\<close>. The ghost field \<open>u_Read\<close> keeps what a reader has taken.
\<close>

section \<open>Subscribers\<close>

record Subscriber =
  u_Send :: "string list"
  u_Cap :: nat
  u_Done :: bool
  u_Drops :: nat
  u_Read :: "string list"

definition NewSubscriber :: "nat \<Rightarrow> Subscriber" where
  "NewSubscriber bufferSize = \<lparr>u_Send = [], u_Cap = bufferSize, u_Done = False, u_Drops = 0, u_Read = []\<rparr>"

definition Close_Subscriber :: "Subscriber \<Rightarrow> Subscriber" where
  "Close_Subscriber s = s\<lparr>u_Done := True\<rparr>"

definition IsClosed :: "Subscriber \<Rightarrow> bool" where
  "IsClosed s = u_Done s"

definition IncrementDrops :: "Subscriber \<Rightarrow> Subscriber" where
  "IncrementDrops s = s\<lparr>u_Drops := u_Drops s + 1\<rparr>"

definition Drops :: "Subscriber \<Rightarrow> nat" where
  "Drops s = u_Drops s"

text \<open>The reader takes up to \<open>n\<close> messages off the buffer.\<close>

definition takeMessages :: "nat \<Rightarrow> Subscriber \<Rightarrow> Subscriber" where
  "takeMessages n s = s\<lparr>u_Send := drop n (u_Send s), u_Read := u_Read s @ take n (u_Send s)\<rparr>"

definition buildDropMarker :: "string \<Rightarrow> nat \<Rightarrow> string" where
  "buildDropMarker sessionID now =
     marshalChunk \<lparr>k_SessionID = sessionID, k_Sequence = 0, k_Content = [], k_Type = ''dropped'',
       k_Timestamp = now, k_Dropped = 1\<rparr>"

definition sendDropMarker :: "string \<Rightarrow> nat \<Rightarrow> Subscriber \<Rightarrow> Subscriber" where
  "sendDropMarker sessionID now s =
     (if u_Done s then s
      else if length (u_Send s) < u_Cap s then s\<lparr>u_Send := u_Send s @ [buildDropMarker sessionID now]\<rparr>
      else s)"

text \<open>
  One turn of the loop of \<open>Publish\<close>: nothing for a closed subscriber, a send when the buffer has room,
  and otherwise a counted drop and a try to send the marker, before which the reader has taken \<open>n\<close> messages.
\<close>

definition offer :: "string \<Rightarrow> string \<Rightarrow> nat \<Rightarrow> nat \<Rightarrow> Subscriber \<Rightarrow> Subscriber" where
  "offer sessionID data now n s =
     (if u_Done s then s
      else if length (u_Send s) < u_Cap s then s\<lparr>u_Send := u_Send s @ [data]\<rparr>
      else sendDropMarker sessionID now (takeMessages n (IncrementDrops s)))"

section \<open>The hub\<close>

record Hub =
  h_sessions :: "(string \<times> nat list) list"
  h_sequence :: "(string \<times> nat) list"
  h_maxConns :: int
  h_activeConns :: int
  h_heap :: "Subscriber list"

definition NewHub :: "int \<Rightarrow> Hub" where
  "NewHub maxConns = \<lparr>h_sessions = [], h_sequence = [], h_maxConns = maxConns, h_activeConns = 0, h_heap = []\<rparr>"

definition subscribersOf :: "Hub \<Rightarrow> string \<Rightarrow> nat list" where
  "subscribersOf h sessionID = (case map_of (h_sessions h) sessionID of None \<Rightarrow> [] | Some subs \<Rightarrow> subs)"

definition modifySub :: "nat \<Rightarrow> (Subscriber \<Rightarrow> Subscriber) \<Rightarrow> Hub \<Rightarrow> Hub" where
  "modifySub p f h = h\<lparr>h_heap := (h_heap h)[p := f (h_heap h ! p)]\<rparr>"

definition Subscribe :: "string \<Rightarrow> Hub \<Rightarrow> nat result \<times> Hub" where
  "Subscribe sessionID h =
     (if h_activeConns h \<ge> h_maxConns h then (Inl ''max connections reached'', h)
      else
        (let sub = length (h_heap h) in
         (Inr sub, h\<lparr>h_activeConns := h_activeConns h + 1,
                     h_heap := h_heap h @ [NewSubscriber 256],
                     h_sessions := AList.update sessionID (subscribersOf h sessionID @ [sub]) (h_sessions h)\<rparr>)))"

definition Unsubscribe :: "string \<Rightarrow> nat \<Rightarrow> Hub \<Rightarrow> Hub" where
  "Unsubscribe sessionID sub h =
     (let h1 = (case map_of (h_sessions h) sessionID of
                  None \<Rightarrow> h
                | Some subs \<Rightarrow>
                    (let exists = sub \<in> set subs;
                         subs' = (if exists then removeAll sub subs else subs) in
                     h\<lparr>h_activeConns := (if exists then h_activeConns h - 1 else h_activeConns h),
                       h_sessions := (if subs' = [] then AList.delete sessionID (h_sessions h)
                                      else AList.update sessionID subs' (h_sessions h))\<rparr>))
      in modifySub sub Close_Subscriber h1)"

definition Publish :: "(nat \<Rightarrow> nat) \<Rightarrow> string \<Rightarrow> string \<Rightarrow> nat \<Rightarrow> Hub \<Rightarrow> Hub" where
  "Publish reads sessionID data now h =
     fold (\<lambda>sub. modifySub sub (offer sessionID data now (reads sub))) (subscribersOf h sessionID) h"

definition NextSequence :: "string \<Rightarrow> Hub \<Rightarrow> nat \<times> Hub" where
  "NextSequence sessionID h =
     (let counter = (case map_of (h_sequence h) sessionID of None \<Rightarrow> 0 | Some n \<Rightarrow> n) + 1
      in (counter, h\<lparr>h_sequence := AList.update sessionID counter (h_sequence h)\<rparr>))"

definition CleanupSequence :: "string \<Rightarrow> Hub \<Rightarrow> Hub" where
  "CleanupSequence sessionID h = h\<lparr>h_sequence := AList.delete sessionID (h_sequence h)\<rparr>"

definition SubscriberCount :: "string \<Rightarrow> Hub \<Rightarrow> nat" where
  "SubscriberCount sessionID h = length (subscribersOf h sessionID)"

definition TotalSubscribers :: "Hub \<Rightarrow> nat" where
  "TotalSubscribers h = fold (\<lambda>(_, subs) total. total + length subs) (h_sessions h) 0"

definition ActiveConnections :: "Hub \<Rightarrow> int" where
  "ActiveConnections h = h_activeConns h"

definition CleanupOrphanedSequences :: "Hub \<Rightarrow> Hub" where
  "CleanupOrphanedSequences h =
     h\<lparr>h_sequence := filter (\<lambda>(sessionID, _). SubscriberCount sessionID h \<noteq> 0) (h_sequence h)\<rparr>"

text \<open>The reader of one subscriber, the sending loop of \<open>handleWebSocket\<close>, takes its next message.\<close>

definition Receive :: "nat \<Rightarrow> Hub \<Rightarrow> string option \<times> Hub" where
  "Receive sub h =
     (case u_Send (h_heap h ! sub) of
        [] \<Rightarrow> (None, h)
      | data # _ \<Rightarrow> (Some data, modifySub sub (takeMessages 1) h))"

text \<open>Everything the hub's clients can do; \<open>StartSequenceCleanup\<close> only calls the last one on a timer.\<close>

datatype hubOp =
    OpSubscribe string | OpUnsubscribe string nat | OpPublish "nat \<Rightarrow> nat" string string nat
  | OpNextSequence string | OpCleanupSequence string | OpReceive nat | OpCleanupOrphaned

definition hubStep :: "Hub \<Rightarrow> hubOp \<Rightarrow> Hub" where
  "hubStep h opr =
     (case opr of
        OpSubscribe s \<Rightarrow> snd (Subscribe s h)
      | OpUnsubscribe s p \<Rightarrow> Unsubscribe s p h
      | OpPublish reads s data now \<Rightarrow> Publish reads s data now h
      | OpNextSequence s \<Rightarrow> snd (NextSequence s h)
      | OpCleanupSequence s \<Rightarrow> CleanupSequence s h
      | OpReceive p \<Rightarrow> snd (Receive p h)
      | OpCleanupOrphaned \<Rightarrow> CleanupOrphanedSequences h)"

section \<open>Association lists\<close>

definition entryCount :: "('k \<times> 'a list) list \<Rightarrow> nat" where
  "entryCount xs = sum_list (map (length \<circ> snd) xs)"

lemma entryCount_simps [simp]: "entryCount [] = 0" "entryCount (x # xs) = length (snd x) + entryCount xs"
  by (simp_all add: entryCount_def)

lemma entryCount_update:
  "distinct (map fst xs) \<Longrightarrow>
     entryCount (AList.update k v xs) + (case map_of xs k of None \<Rightarrow> 0 | Some u \<Rightarrow> length u) = entryCount xs + length v"
  by (induction xs) (auto split: option.splits)

lemma entryCount_delete:
  "distinct (map fst xs) \<Longrightarrow>
     entryCount (AList.delete k xs) + (case map_of xs k of None \<Rightarrow> 0 | Some u \<Rightarrow> length u) = entryCount xs"
proof (induction xs)
  case (Cons x xs)
  have "AList.delete (fst x) xs = xs" using Cons.prems by (intro delete_id) (auto simp: image_iff)
  with Cons show ?case by (cases "fst x = k") (auto simp: AList.delete_eq split: option.splits)
qed simp

lemma TotalSubscribers_count: "TotalSubscribers h = entryCount (h_sessions h)"
proof -
  have "fold (\<lambda>(_, subs) total. total + length subs) xs n = n + entryCount xs" for xs :: "(string \<times> nat list) list" and n
    by (induction xs arbitrary: n) auto
  then show ?thesis by (simp add: TotalSubscribers_def)
qed

section \<open>The invariant\<close>

text \<open>
  One list of pointers per session, none empty, no pointer twice or in two sessions, all of them
  allocated; the connection counter is their number and within the limit; no buffer is overfull.
\<close>

definition hubOk :: "Hub \<Rightarrow> bool" where
  "hubOk h \<longleftrightarrow>
     distinct (map fst (h_sessions h)) \<and> [] \<notin> snd ` set (h_sessions h)
     \<and> (\<forall>s. distinct (subscribersOf h s) \<and> (\<forall>p \<in> set (subscribersOf h s). p < length (h_heap h)))
     \<and> (\<forall>s t. s \<noteq> t \<longrightarrow> set (subscribersOf h s) \<inter> set (subscribersOf h t) = {})
     \<and> h_activeConns h = int (entryCount (h_sessions h)) \<and> h_activeConns h \<le> h_maxConns h
     \<and> (\<forall>u \<in> set (h_heap h). length (u_Send u) \<le> u_Cap u)"

lemma subscribersOf_cong: "h_sessions h' = h_sessions h \<Longrightarrow> subscribersOf h' = subscribersOf h"
  by (rule ext) (simp add: subscribersOf_def)

lemma modifySub_frame [simp]:
  "h_sessions (modifySub p f h) = h_sessions h" "h_sequence (modifySub p f h) = h_sequence h"
  "h_maxConns (modifySub p f h) = h_maxConns h" "h_activeConns (modifySub p f h) = h_activeConns h"
  "length (h_heap (modifySub p f h)) = length (h_heap h)" "subscribersOf (modifySub p f h) = subscribersOf h"
  by (simp_all add: modifySub_def) (rule subscribersOf_cong, simp)

lemma heap_modifySub:
  "p < length (h_heap h) \<Longrightarrow> h_heap (modifySub q f h) ! p = (if q = p then f (h_heap h ! p) else h_heap h ! p)"
  by (simp add: modifySub_def)

text \<open>Changes to the cells that respect the buffers' capacity keep the invariant.\<close>

definition bounded :: "Subscriber \<Rightarrow> bool" where
  "bounded u = (length (u_Send u) \<le> u_Cap u)"

lemma modifySub_hubOk:
  assumes "hubOk h" "\<And>u. bounded u \<Longrightarrow> bounded (f u)"
  shows "hubOk (modifySub p f h)"
proof -
  have "\<forall>u \<in> set (h_heap (modifySub p f h)). length (u_Send u) \<le> u_Cap u"
  proof (cases "p < length (h_heap h)")
    case True
    then show ?thesis
      using assms unfolding hubOk_def modifySub_def bounded_def
      by (auto dest!: set_update_subset_insert [THEN subsetD])
  next
    case False
    then have "h_heap (modifySub p f h) = h_heap h" by (simp add: modifySub_def list_update_beyond)
    then show ?thesis using assms(1) by (simp add: hubOk_def)
  qed
  then show ?thesis using assms(1) by (simp add: hubOk_def)
qed

lemma bounded_ops:
  "bounded u \<Longrightarrow> bounded (Close_Subscriber u)" "bounded u \<Longrightarrow> bounded (takeMessages n u)"
  "bounded u \<Longrightarrow> bounded (IncrementDrops u)" "bounded u \<Longrightarrow> bounded (sendDropMarker s now u)"
  by (auto simp: bounded_def Close_Subscriber_def takeMessages_def IncrementDrops_def sendDropMarker_def)

lemma bounded_offer: "bounded u \<Longrightarrow> bounded (offer s data now n u)"
  by (auto simp: offer_def bounded_ops) (auto simp: bounded_def)

lemma publish_fold:
  "subscribersOf (fold (\<lambda>p. modifySub p (g p)) ps h) = subscribersOf h"
  "length (h_heap (fold (\<lambda>p. modifySub p (g p)) ps h)) = length (h_heap h)"
  by (induction ps arbitrary: h) simp_all

lemma publish_hubOk: "hubOk h \<Longrightarrow> hubOk (Publish reads s data now h)"
proof -
  have "hubOk h \<Longrightarrow> hubOk (fold (\<lambda>p. modifySub p (offer s data now (reads p))) ps h)" for ps
    by (induction ps arbitrary: h) (simp_all add: modifySub_hubOk bounded_offer)
  then show "hubOk h \<Longrightarrow> hubOk (Publish reads s data now h)" by (simp add: Publish_def)
qed

lemma subscribersOf_update:
  "subscribersOf (h\<lparr>h_activeConns := a, h_heap := hp, h_sessions := AList.update s ps (h_sessions h)\<rparr>) t
     = (if t = s then ps else subscribersOf h t)"
  "subscribersOf (h\<lparr>h_activeConns := a, h_sessions := AList.update s ps (h_sessions h)\<rparr>) t
     = (if t = s then ps else subscribersOf h t)"
  "subscribersOf (h\<lparr>h_activeConns := a, h_sessions := AList.delete s (h_sessions h)\<rparr>) t
     = (if t = s then [] else subscribersOf h t)"
  by (simp_all add: subscribersOf_def update_conv' delete_conv')

lemma snd_update_subset: "snd ` set (AList.update k v xs) \<subseteq> insert v (snd ` set xs)"
  by (induction xs) auto

lemma snd_delete_subset: "snd ` set (AList.delete k xs) \<subseteq> snd ` set xs"
  by (auto simp: AList.delete_eq)

lemma Subscribe_hubOk:
  assumes "hubOk h"
  shows "hubOk (snd (Subscribe s h))"
proof (cases "h_activeConns h \<ge> h_maxConns h")
  case False
  let ?p = "length (h_heap h)" and ?ps = "subscribersOf h s @ [length (h_heap h)]"
  let ?h' = "h\<lparr>h_activeConns := h_activeConns h + 1, h_heap := h_heap h @ [NewSubscriber 256],
      h_sessions := AList.update s ?ps (h_sessions h)\<rparr>"
  have "entryCount (AList.update s ?ps (h_sessions h)) = entryCount (h_sessions h) + 1"
    using entryCount_update [of "h_sessions h" s ?ps] assms
    by (cases "map_of (h_sessions h) s") (simp_all add: hubOk_def subscribersOf_def)
  moreover have "[] \<notin> snd ` set (AList.update s ?ps (h_sessions h))"
    using snd_update_subset [of s ?ps "h_sessions h"] assms by (auto simp: hubOk_def)
  moreover have "p < ?p" if "p \<in> set (subscribersOf h t)" for p t using assms that by (auto simp: hubOk_def)
  ultimately have "hubOk ?h'"
    using assms False unfolding hubOk_def subscribersOf_update
    by (auto simp: distinct_update NewSubscriber_def less_Suc_eq)
  then show ?thesis using False by (simp add: Subscribe_def Let_def)
qed (simp add: Subscribe_def assms)

lemma Unsubscribe_hubOk:
  assumes "hubOk h"
  shows "hubOk (Unsubscribe s p h)"
proof (cases "map_of (h_sessions h) s")
  case None
  then show ?thesis using assms by (simp add: Unsubscribe_def modifySub_hubOk bounded_ops)
next
  case (Some subs)
  let ?subs = "if p \<in> set subs then removeAll p subs else subs"
  let ?a = "if p \<in> set subs then h_activeConns h - 1 else h_activeConns h"
  let ?ses = "if ?subs = [] then AList.delete s (h_sessions h) else AList.update s ?subs (h_sessions h)"
  let ?h = "h\<lparr>h_activeConns := ?a, h_sessions := ?ses\<rparr>"
  have subs: "subscribersOf h s = subs" "distinct subs" "subs \<noteq> []"
  proof -
    show s: "subscribersOf h s = subs" using Some by (simp add: subscribersOf_def)
    show "distinct subs" using assms s unfolding hubOk_def by blast
    have "subs \<in> snd ` set (h_sessions h)" using map_of_SomeD [OF Some] by (simp add: rev_image_eqI)
    moreover have "[] \<notin> snd ` set (h_sessions h)" using assms by (simp add: hubOk_def)
    ultimately show "subs \<noteq> []" by blast
  qed
  have d: "distinct (map fst (h_sessions h))" "[] \<notin> snd ` set (h_sessions h)" using assms by (auto simp: hubOk_def)
  have len: "int (length ?subs) = int (length subs) + (?a - h_activeConns h)"
    using subs(2,3) by (cases "p \<in> set subs")
      (simp_all add: distinct_remove1_removeAll [symmetric] length_remove1 of_nat_diff Suc_le_eq)
  have cnt: "int (entryCount ?ses) = ?a"
    using entryCount_update [OF d(1), of s ?subs] entryCount_delete [OF d(1), of s] Some len assms
    by (auto simp: hubOk_def)
  have at: "subscribersOf ?h t = (if t = s then ?subs else subscribersOf h t)" for t
    using subscribersOf_update(2,3) [where h = h and a = ?a and s = s and t = t] by (cases "?subs = []") auto
  have keys: "distinct (map fst ?ses)" using d(1) by (simp add: distinct_update distinct_delete)
  have nonempty: "[] \<notin> snd ` set ?ses"
  proof (cases "?subs = []")
    case True
    show ?thesis unfolding if_P [OF True] using snd_delete_subset [of s "h_sessions h"] d(2) by blast
  next
    case False
    show ?thesis
      unfolding if_not_P [OF False]
    proof
      assume "[] \<in> snd ` set (AList.update s ?subs (h_sessions h))"
      from subsetD [OF snd_update_subset this] show False using False d(2) by (metis insertE)
    qed
  qed
  have sub: "set ?subs \<subseteq> set subs" "distinct ?subs" using subs(2) by (auto simp: distinct_removeAll)
  have le: "?a \<le> h_maxConns h" using assms by (auto simp: hubOk_def)
  have each: "distinct (subscribersOf ?h t) \<and> (\<forall>q \<in> set (subscribersOf ?h t). q < length (h_heap h))" for t
  proof -
    have old: "distinct (subscribersOf h t)" "\<forall>q \<in> set (subscribersOf h t). q < length (h_heap h)"
      using assms by (simp_all add: hubOk_def)
    show ?thesis
    proof (cases "t = s")
      case True
      then show ?thesis unfolding at if_P [OF True] using old(2) sub subs(1) by blast
    next
      case False
      then show ?thesis unfolding at if_not_P [OF False] using old by blast
    qed
  qed
  have apart: "set (subscribersOf ?h t) \<inter> set (subscribersOf ?h v) = {}" if "t \<noteq> v" for t v
  proof -
    have "set (subscribersOf ?h x) \<subseteq> set (subscribersOf h x)" for x unfolding at using sub subs(1) by auto
    then show ?thesis using assms that unfolding hubOk_def by blast
  qed
  have "\<forall>u \<in> set (h_heap h). length (u_Send u) \<le> u_Cap u" using assms by (simp add: hubOk_def)
  with each apart cnt keys nonempty le have "hubOk ?h" by (simp add: hubOk_def)
  then show ?thesis
    unfolding Unsubscribe_def Some Let_def option.case by (rule modifySub_hubOk) (rule bounded_ops)
qed

lemma hubOk_sequence [simp]: "hubOk (h\<lparr>h_sequence := x\<rparr>) = hubOk h"
  using subscribersOf_cong [of "h\<lparr>h_sequence := x\<rparr>" h] by (simp add: hubOk_def)

lemma hubStep_hubOk: "hubOk h \<Longrightarrow> hubOk (hubStep h opr)"
  by (cases opr)
    (auto simp: hubStep_def Subscribe_hubOk Unsubscribe_hubOk publish_hubOk NextSequence_def Let_def CleanupSequence_def
      CleanupOrphanedSequences_def Receive_def modifySub_hubOk bounded_ops split: list.splits)

lemma NewHub_hubOk: "0 \<le> m \<Longrightarrow> hubOk (NewHub m)"
  by (simp add: hubOk_def NewHub_def subscribersOf_def)

interpretation hub: invariant_machine "\<lambda>h. \<exists>m \<ge> 0. h = NewHub m" "\<lambda>h opr h'. h' = hubStep h opr" hubOk
  by unfold_locales (auto simp: hubStep_hubOk NewHub_hubOk)

text \<open>
  C18. The limit on connections. In every state the hub can reach, by any sequence of calls of any
  of its clients, the connection counter is the number of registered subscribers and within the
  limit, and a new subscription succeeds exactly when fewer than the limit are registered (so an
  unsubscription always makes room again, also when it is called twice); no session is kept without
  subscribers, no subscriber is registered twice, and no buffer holds more than its capacity.
\<close>

theorem connection_limit_is_exact:
  assumes "reach (\<lambda>h. \<exists>m \<ge> 0. h = NewHub m) (\<lambda>h opr h'. h' = hubStep h opr) h"
  shows "ActiveConnections h = int (TotalSubscribers h) \<and> int (TotalSubscribers h) \<le> h_maxConns h
    \<and> (\<forall>s. (\<exists>p. fst (Subscribe s h) = Inr p) \<longleftrightarrow> int (TotalSubscribers h) < h_maxConns h)
    \<and> (\<forall>s subs. (s, subs) \<in> set (h_sessions h) \<longrightarrow> subs \<noteq> [] \<and> distinct subs)
    \<and> (\<forall>u \<in> set (h_heap h). length (u_Send u) \<le> u_Cap u)"
proof -
  have ok: "hubOk h" using hub.inv_reachable assms .
  have "subs \<noteq> [] \<and> distinct subs" if "(s, subs) \<in> set (h_sessions h)" for s subs
  proof -
    have "map_of (h_sessions h) s = Some subs" using ok that by (simp add: hubOk_def)
    then have "subscribersOf h s = subs" by (simp add: subscribersOf_def)
    moreover have "subs \<in> snd ` set (h_sessions h)" using that by (rule rev_image_eqI) simp
    moreover have "[] \<notin> snd ` set (h_sessions h)" "distinct (subscribersOf h s)" using ok by (simp_all add: hubOk_def)
    ultimately show ?thesis by metis
  qed
  then show ?thesis
    using ok by (auto simp: hubOk_def TotalSubscribers_count ActiveConnections_def Subscribe_def Let_def)
qed

lemma reach_NewHub: "0 \<le> m \<Longrightarrow> reach (\<lambda>h. \<exists>m \<ge> 0. h = NewHub m) (\<lambda>h opr h'. h' = hubStep h opr) (NewHub m)"
  by (rule reach_start) blast

lemma reach_hubStep:
  "reach (\<lambda>h. \<exists>m \<ge> 0. h = NewHub m) (\<lambda>h opr h'. h' = hubStep h opr) h \<Longrightarrow>
   reach (\<lambda>h. \<exists>m \<ge> 0. h = NewHub m) (\<lambda>h opr h'. h' = hubStep h opr) (hubStep h opr)"
  by (erule reach_step) simp

theorem connection_limit_is_exact_witness:
  "\<exists>h. h = hubStep (hubStep (NewHub 2) (OpSubscribe ''s'')) (OpSubscribe ''t'') \<and> TotalSubscribers h = 2
     \<and> (\<forall>s. \<not> (\<exists>p. fst (Subscribe s h) = Inr p))
     \<and> (\<exists>p. fst (Subscribe ''s'' (hubStep h (OpUnsubscribe ''t'' 1))) = Inr p)"
proof -
  let ?h = "hubStep (hubStep (NewHub 2) (OpSubscribe ''s'')) (OpSubscribe ''t'')"
  have r: "reach (\<lambda>h. \<exists>m \<ge> 0. h = NewHub m) (\<lambda>h opr h'. h' = hubStep h opr) ?h"
    by (intro reach_hubStep reach_NewHub) simp
  have n: "TotalSubscribers ?h = 2" "h_maxConns ?h = 2" "TotalSubscribers (hubStep ?h (OpUnsubscribe ''t'' 1)) = 1"
    "h_maxConns (hubStep ?h (OpUnsubscribe ''t'' 1)) = 2"
    by code_simp+
  have "\<forall>s. \<not> (\<exists>p. fst (Subscribe s ?h) = Inr p)"
    using connection_limit_is_exact [OF r] n by auto
  moreover have "\<exists>p. fst (Subscribe ''s'' (hubStep ?h (OpUnsubscribe ''t'' 1))) = Inr p"
    using connection_limit_is_exact [OF reach_hubStep [OF r, of "OpUnsubscribe ''t'' 1"]] n by auto
  ultimately show ?thesis using n(1) by blast
qed

section \<open>Delivery\<close>

text \<open>Everything a subscriber was handed, taken or still buffered.\<close>

definition received :: "Subscriber \<Rightarrow> string list" where
  "received u = u_Read u @ u_Send u"

lemma received_ops [simp]:
  "received (takeMessages n u) = received u" "received (IncrementDrops u) = received u" "received (Close_Subscriber u) = received u"
  "u_Drops (takeMessages n u) = u_Drops u" "u_Drops (IncrementDrops u) = u_Drops u + 1" "u_Drops (Close_Subscriber u) = u_Drops u"
  by (simp_all add: received_def takeMessages_def IncrementDrops_def Close_Subscriber_def)

text \<open>
  What happened to the messages \<open>offered\<close> to a subscriber between two states of it: the accepted
  ones, in order, were received, shuffled with drop markers of which there are no more than drops,
  and the others were counted as drops.
\<close>

definition accounted :: "Subscriber \<Rightarrow> Subscriber \<Rightarrow> string list \<Rightarrow> bool" where
  "accounted u u' offered \<longleftrightarrow>
     (\<exists>accepted markers news. received u' = received u @ news \<and> news \<in> shuffles accepted markers
        \<and> subseq accepted offered \<and> (\<forall>m \<in> set markers. \<exists>s now. m = buildDropMarker s now)
        \<and> u_Drops u' = u_Drops u + (length offered - length accepted) \<and> length markers + u_Drops u \<le> u_Drops u')"

lemma shuffles_append:
  "xs \<in> shuffles a m \<Longrightarrow> ys \<in> shuffles b n \<Longrightarrow> xs @ ys \<in> shuffles (a @ b) (m @ n)"
proof (induction a m arbitrary: xs rule: shuffles.induct)
  case (1 m)
  then show ?case by (induction m arbitrary: xs) (auto intro: Cons_in_shuffles_rightI)
next
  case (2 a)
  then show ?case by (induction a arbitrary: xs) (auto intro: Cons_in_shuffles_leftI)
next
  case (3 x a y m)
  then show ?case by (auto intro: Cons_in_shuffles_leftI Cons_in_shuffles_rightI)
qed

lemma accounted_refl: "received u' = received u \<Longrightarrow> u_Drops u' = u_Drops u \<Longrightarrow> accounted u u' []"
  unfolding accounted_def by (intro exI [of _ "[]"]) simp

lemma accounted_trans:
  assumes "accounted u v xs" "accounted v w ys"
  shows "accounted u w (xs @ ys)"
proof -
  obtain a m n where v: "received v = received u @ n" "n \<in> shuffles a m" "subseq a xs"
    "\<forall>k \<in> set m. \<exists>s now. k = buildDropMarker s now" "u_Drops v = u_Drops u + (length xs - length a)"
    "length m + u_Drops u \<le> u_Drops v"
    using assms(1) unfolding accounted_def by blast
  obtain b k l where w: "received w = received v @ l" "l \<in> shuffles b k" "subseq b ys"
    "\<forall>i \<in> set k. \<exists>s now. i = buildDropMarker s now" "u_Drops w = u_Drops v + (length ys - length b)"
    "length k + u_Drops v \<le> u_Drops w"
    using assms(2) unfolding accounted_def by blast
  have len: "length a \<le> length xs" "length b \<le> length ys" using v(3) w(3) by (auto dest: list_emb_length)
  show ?thesis
    unfolding accounted_def
  proof (intro exI conjI)
    show "received w = received u @ n @ l" using v(1) w(1) by simp
    show "n @ l \<in> shuffles (a @ b) (m @ k)" using v(2) w(2) by (rule shuffles_append)
    show "subseq (a @ b) (xs @ ys)" using v(3) w(3) by (rule list_emb_append_mono)
    show "u_Drops w = u_Drops u + (length (xs @ ys) - length (a @ b))" using v(5) w(5) len by simp
    show "length (m @ k) + u_Drops u \<le> u_Drops w" using v(6) w(6) by simp
  qed (use v(4) w(4) in auto)
qed

lemma accounted_offer:
  assumes "\<not> u_Done u"
  shows "accounted u (offer s data now n u) [data]"
proof -
  consider "length (u_Send u) < u_Cap u" | "\<not> length (u_Send u) < u_Cap u" by blast
  then show ?thesis
  proof cases
    case 1
    then show ?thesis
      unfolding accounted_def using assms
      by (intro exI [of _ "[data]"] exI [of _ "[]"]) (simp add: offer_def received_def)
  next
    case 2
    let ?u = "takeMessages n (IncrementDrops u)"
    have o: "offer s data now n u = sendDropMarker s now ?u" using 2 assms by (simp add: offer_def)
    have u: "received ?u = received u" "u_Drops ?u = u_Drops u + 1" by simp_all
    consider "sendDropMarker s now ?u = ?u" | "sendDropMarker s now ?u = ?u\<lparr>u_Send := u_Send ?u @ [buildDropMarker s now]\<rparr>"
      unfolding sendDropMarker_def by argo
    then show ?thesis
    proof cases
      case 1
      then show ?thesis
        unfolding accounted_def o 1 u by (intro exI [of _ "[]"]) simp
    next
      case 2
      have "received (sendDropMarker s now ?u) = received u @ [buildDropMarker s now]"
        "u_Drops (sendDropMarker s now ?u) = u_Drops u + 1"
        unfolding 2 u(1) [symmetric] by (simp_all add: received_def)
      then show ?thesis
        unfolding accounted_def o by (intro exI [of _ "[]"] exI [of _ "[buildDropMarker s now]"] conjI) auto
    qed
  qed
qed

text \<open>The messages offered to a subscriber along a run: those published to a session that holds it while it is open.\<close>

fun offered :: "nat \<Rightarrow> Hub \<Rightarrow> hubOp list \<Rightarrow> string list" where
  "offered p h [] = []"
| "offered p h (opr # ops) =
     (case opr of
        OpPublish reads s data now \<Rightarrow> if p \<in> set (subscribersOf h s) \<and> \<not> u_Done (h_heap h ! p) then [data] else []
      | _ \<Rightarrow> []) @ offered p (hubStep h opr) ops"

definition hubRun :: "Hub \<Rightarrow> hubOp list \<Rightarrow> Hub" where
  "hubRun h ops = foldl hubStep h ops"

lemma fold_modifySub_heap:
  assumes "distinct ps" "p < length (h_heap h)"
  shows "h_heap (fold (\<lambda>q. modifySub q (g q)) ps h) ! p = (if p \<in> set ps then g p (h_heap h ! p) else h_heap h ! p)"
  using assms by (induction ps arbitrary: h) (auto simp: heap_modifySub)

lemma Publish_heap:
  assumes "hubOk h" "p < length (h_heap h)"
  shows "h_heap (Publish reads s data now h) ! p =
    (if p \<in> set (subscribersOf h s) then offer s data now (reads p) (h_heap h ! p) else h_heap h ! p)"
  using assms unfolding Publish_def by (subst fold_modifySub_heap) (auto simp: hubOk_def)

lemma hubStep_length: "p < length (h_heap h) \<Longrightarrow> p < length (h_heap (hubStep h opr))"
  by (cases opr)
    (auto simp: hubStep_def Subscribe_def Unsubscribe_def Publish_def publish_fold NextSequence_def Let_def CleanupSequence_def
      CleanupOrphanedSequences_def Receive_def split: list.splits option.splits)

lemma hubStep_accounted:
  assumes "hubOk h" "p < length (h_heap h)"
  shows "accounted (h_heap h ! p) (h_heap (hubStep h opr) ! p) (offered p h [opr])"
proof (cases opr)
  case (OpPublish reads s data now)
  then show ?thesis
    using Publish_heap [OF assms] accounted_offer
    by (auto simp: hubStep_def intro!: accounted_refl) (auto simp: offer_def)
qed (use assms(2) in \<open>auto simp: hubStep_def Subscribe_def Unsubscribe_def NextSequence_def Let_def CleanupSequence_def
      CleanupOrphanedSequences_def Receive_def heap_modifySub nth_append split: list.splits option.splits intro!: accounted_refl\<close>)

lemma hubRun_accounted:
  "hubOk h \<Longrightarrow> p < length (h_heap h) \<Longrightarrow> accounted (h_heap h ! p) (h_heap (hubRun h ops) ! p) (offered p h ops)"
proof (induction ops arbitrary: h)
  case (Cons opr ops)
  have o: "offered p h (opr # ops) = offered p h [opr] @ offered p (hubStep h opr) ops" by simp
  have "accounted (h_heap (hubStep h opr) ! p) (h_heap (hubRun (hubStep h opr) ops) ! p) (offered p (hubStep h opr) ops)"
    using Cons.prems by (intro Cons.IH hubStep_hubOk hubStep_length)
  from accounted_trans [OF hubStep_accounted [OF Cons.prems, of opr] this]
  show ?case unfolding o by (simp add: hubRun_def)
qed (simp add: hubRun_def accounted_refl)

text \<open>
  C19. No message disappears silently. Along any run of the hub from a reachable state, with
  subscriptions, unsubscriptions, publications and reads interleaved in any way, what a subscriber receives is
  exactly the messages offered to it in the order of publication, less the ones that found its
  buffer full, each of which is counted in its drop counter, and shuffled with at most one drop marker
  per counted drop; messages of other sessions never reach it.
\<close>

theorem every_message_delivered_or_counted:
  assumes "reach (\<lambda>h. \<exists>m \<ge> 0. h = NewHub m) (\<lambda>h opr h'. h' = hubStep h opr) h" "p < length (h_heap h)"
  shows "\<exists>accepted markers news.
     received (h_heap (hubRun h ops) ! p) = received (h_heap h ! p) @ news \<and> news \<in> shuffles accepted markers
     \<and> subseq accepted (offered p h ops) \<and> (\<forall>m \<in> set markers. \<exists>s now. m = buildDropMarker s now)
     \<and> Drops (h_heap (hubRun h ops) ! p) = Drops (h_heap h ! p) + (length (offered p h ops) - length accepted)
     \<and> length markers + Drops (h_heap h ! p) \<le> Drops (h_heap (hubRun h ops) ! p)"
  using hubRun_accounted [OF hub.inv_reachable [OF assms(1)] assms(2), of ops] unfolding accounted_def Drops_def .

theorem every_message_delivered_or_counted_witness:
  "\<exists>h ops accepted. h = hubStep (NewHub 1) (OpSubscribe ''s'')
     \<and> ops = [OpPublish (\<lambda>_. 0) ''s'' ''one'' 5, OpPublish (\<lambda>_. 0) ''other'' ''two'' 6, OpReceive 0]
     \<and> offered 0 h ops = [''one''] \<and> received (h_heap (hubRun h ops) ! 0) = accepted \<and> subseq accepted [''one'']
     \<and> length accepted + Drops (h_heap (hubRun h ops) ! 0) = 1"
proof -
  let ?h = "hubStep (NewHub 1) (OpSubscribe ''s'')"
  let ?ops = "[OpPublish (\<lambda>_. 0) ''s'' ''one'' 5, OpPublish (\<lambda>_. 0) ''other'' ''two'' 6, OpReceive 0]"
  have r: "reach (\<lambda>h. \<exists>m \<ge> 0. h = NewHub m) (\<lambda>h opr h'. h' = hubStep h opr) ?h" "0 < length (h_heap ?h)"
    by (intro reach_hubStep reach_NewHub) (simp_all add: hubStep_def Subscribe_def NewHub_def)
  have o: "offered 0 ?h ?ops = [''one'']" "received (h_heap ?h ! 0) = []" "Drops (h_heap ?h ! 0) = 0"
    "Drops (h_heap (hubRun ?h ?ops) ! 0) = 0"
    by code_simp+
  obtain accepted markers news where t: "received (h_heap (hubRun ?h ?ops) ! 0) = news" "news \<in> shuffles accepted markers"
    "subseq accepted [''one'']" "length markers \<le> 0" "0 = Suc 0 - length accepted"
    using every_message_delivered_or_counted [OF r, of ?ops] unfolding o by auto
  then have "news = accepted" "length accepted = 1" by (auto dest: list_emb_length)
  then show ?thesis using t o by (intro exI [of _ ?h] exI [of _ ?ops] exI [of _ accepted]) simp
qed

text \<open>
  The drop marker, meant to tell the client about a gap, only arrives when the reader takes a
  message between the failed send and the marker: while the buffer stays full, it is dropped too.
\<close>

lemma drop_marker_needs_a_reader:
  assumes "\<not> u_Done u" "length (u_Send u) = u_Cap u"
  shows "received (offer s data now n u) = received u @ (if n = 0 \<or> u_Cap u = 0 then [] else [buildDropMarker s now])"
    and "u_Drops (offer s data now n u) = u_Drops u + 1"
  using assms by (auto simp: offer_def sendDropMarker_def takeMessages_def IncrementDrops_def received_def)

text \<open>Sequence numbers of a session count up from 1, whatever happens to other sessions, until they are cleaned up.\<close>

lemma NextSequence_value:
  "fst (NextSequence s h) = (case map_of (h_sequence h) s of None \<Rightarrow> 0 | Some n \<Rightarrow> n) + 1"
  "map_of (h_sequence (snd (NextSequence s h))) = (map_of (h_sequence h))(s \<mapsto> fst (NextSequence s h))"
  "map_of (h_sequence (CleanupSequence s h)) = (map_of (h_sequence h))(s := None)"
  by (simp_all add: NextSequence_def CleanupSequence_def Let_def update_conv' delete_conv')

lemma NextSequence_frame [simp]:
  "h_sessions (snd (NextSequence s h)) = h_sessions h" "h_heap (snd (NextSequence s h)) = h_heap h"
  "h_sessions (CleanupSequence s h) = h_sessions h" "h_heap (CleanupSequence s h) = h_heap h"
  by (simp_all add: NextSequence_def CleanupSequence_def Let_def)

lemma Publish_frame [simp]:
  "h_sequence (Publish reads s data now h) = h_sequence h" "h_sessions (Publish reads s data now h) = h_sessions h"
proof -
  have "h_sequence (fold (\<lambda>q. modifySub q (g q)) ps h) = h_sequence h
      \<and> h_sessions (fold (\<lambda>q. modifySub q (g q)) ps h) = h_sessions h" for ps g
    by (induction ps arbitrary: h) simp_all
  then show "h_sequence (Publish reads s data now h) = h_sequence h" "h_sessions (Publish reads s data now h) = h_sessions h"
    by (simp_all add: Publish_def)
qed

end
