(* ===== verification/Relay.thy ===== *)
theory Relay
  imports Hub "HOL-Library.Word"
begin

unbundle bit_operations_syntax

text \<open>
  The stream relay service (\<open>stream-relay/main.go\<close>): the HTTP handlers by which a session's output, status and
  end arrive, the ingest and the viewing websocket, the limiters by address and by session, the inactivity timers, and
  the workers that write the output to the table \<open>session_outputs\<close> in batches.

  The record \<open>env\<close> holds the configuration, and as parameters the code outside this repository: the rate
  limiter (\<open>golang.org/x/time/rate\<close>), the decoding of JSON request bodies and the text syntax of IP addresses; its field
  \<open>reads\<close> says what the readers of the subscribers' buffers take while \<open>Publish\<close> runs. The record
  \<open>relay\<close> holds the globals of the program, the tables of the database it uses (\<open>r_sessionIDs\<close> are the keys of \<open>sessions\<close>,
  which \<open>session_outputs\<close> references) and the outcome of the coming database calls (\<open>r_faults\<close>, \<open>True\<close> for a failure). Time is in nanoseconds
  and stands still during one operation. The handlers run one after another: they share state only through the
  hub, the maps and the channels, each of which is locked or atomic.
\<close>

section \<open>Environment and state\<close>

record persistJob =
  j_sessionID :: string
  j_sequence :: nat
  j_content :: string

record 'l ipLimiter =
  il_limiter :: 'l
  il_lastSeen :: nat

record outputRow =
  y_SessionID :: string
  y_Sequence :: nat
  y_Content :: string
  y_CreatedAt :: nat

type_synonym ipnet = "nat list \<times> nat"

record 'l env =
  NewLimiter :: "rat \<Rightarrow> nat \<Rightarrow> 'l"
  Allow :: "nat \<Rightarrow> 'l \<Rightarrow> bool \<times> 'l"
  decodeContent :: "string \<Rightarrow> string option"
  decodeStatus :: "string \<Rightarrow> string option"
  decodeTyped :: "string \<Rightarrow> (string \<times> string) option"
  ParseIP :: "string \<Rightarrow> nat list option"
  reads :: "nat \<Rightarrow> nat"
  relaySecret :: string
  allowedOrigins :: "string list"
  requireOriginChk :: bool
  trustedProxy :: string
  trustedProxyNet :: "ipnet option"

record 'l relay =
  r_hub :: Hub
  r_channels :: "persistJob list list"
  r_batches :: "persistJob list list"
  r_persistDrops :: nat
  r_timers :: "(string \<times> nat) list"
  r_http :: "(string \<times> 'l ipLimiter) list"
  r_ws :: "(string \<times> 'l ipLimiter) list"
  r_status :: "(string \<times> 'l) list"
  r_clock :: nat
  r_outputs :: "outputRow list"
  r_sessionIDs :: "string list"
  r_faults :: "bool list"

record request =
  q_RemoteAddr :: string
  q_ForwardedFor :: string
  q_Origin :: string
  q_Secret :: string
  q_SessionID :: string
  q_LastSequence :: string
  q_Body :: string

type_synonym response = "nat \<times> string"

definition second :: nat where
  "second = 1000000000"

definition sessionInactivityTime :: nat where
  "sessionInactivityTime = 10 * 60 * second"

definition unixMilli :: "'l relay \<Rightarrow> nat" where
  "unixMilli st = r_clock st div 1000000"

definition allowedStatuses :: "string list" where
  "allowedStatuses = [''running'', ''waiting_for_clarification'', ''done'', ''error'', ''cancelled'', ''cancelling'', ''pending'']"

section \<open>Limiters\<close>

definition getStatusLimiter :: "'l env \<Rightarrow> string \<Rightarrow> 'l relay \<Rightarrow> 'l \<times> 'l relay" where
  "getStatusLimiter env sessionID st =
     (case map_of (r_status st) sessionID of
        Some l \<Rightarrow> (l, st)
      | None \<Rightarrow> (let l = NewLimiter env 1 2 in (l, st\<lparr>r_status := AList.update sessionID l (r_status st)\<rparr>)))"

definition getHTTPLimiter :: "'l env \<Rightarrow> string \<Rightarrow> 'l relay \<Rightarrow> 'l \<times> 'l relay" where
  "getHTTPLimiter env ip st =
     (let now = r_clock st;
          limiter = (case map_of (r_http st) ip of Some entry \<Rightarrow> il_limiter entry | None \<Rightarrow> NewLimiter env 100 100)
      in (limiter, st\<lparr>r_http := AList.update ip \<lparr>il_limiter = limiter, il_lastSeen = now\<rparr> (r_http st)\<rparr>))"

definition getWSLimiter :: "'l env \<Rightarrow> string \<Rightarrow> 'l relay \<Rightarrow> 'l \<times> 'l relay" where
  "getWSLimiter env ip st =
     (let now = r_clock st;
          limiter = (case map_of (r_ws st) ip of Some entry \<Rightarrow> il_limiter entry | None \<Rightarrow> NewLimiter env (1 / 6) 10)
      in (limiter, st\<lparr>r_ws := AList.update ip \<lparr>il_limiter = limiter, il_lastSeen = now\<rparr> (r_ws st)\<rparr>))"

text \<open>\<open>getXLimiter(key).Allow()\<close>: the call changes the limiter the map points to.\<close>

definition allowStatus :: "'l env \<Rightarrow> string \<Rightarrow> 'l relay \<Rightarrow> bool \<times> 'l relay" where
  "allowStatus env sessionID st =
     (let (l, st1) = getStatusLimiter env sessionID st; (ok, l') = Allow env (r_clock st) l
      in (ok, st1\<lparr>r_status := AList.update sessionID l' (r_status st1)\<rparr>))"

definition allowHTTP :: "'l env \<Rightarrow> string \<Rightarrow> 'l relay \<Rightarrow> bool \<times> 'l relay" where
  "allowHTTP env ip st =
     (let (l, st1) = getHTTPLimiter env ip st; (ok, l') = Allow env (r_clock st) l
      in (ok, st1\<lparr>r_http := AList.update ip \<lparr>il_limiter = l', il_lastSeen = r_clock st\<rparr> (r_http st1)\<rparr>))"

definition allowWS :: "'l env \<Rightarrow> string \<Rightarrow> 'l relay \<Rightarrow> bool \<times> 'l relay" where
  "allowWS env ip st =
     (let (l, st1) = getWSLimiter env ip st; (ok, l') = Allow env (r_clock st) l
      in (ok, st1\<lparr>r_ws := AList.update ip \<lparr>il_limiter = l', il_lastSeen = r_clock st\<rparr> (r_ws st1)\<rparr>))"

definition cleanupLimiters :: "'l relay \<Rightarrow> 'l relay" where
  "cleanupLimiters st =
     (let stale = (\<lambda>e. il_lastSeen e + 5 * 60 * second < r_clock st) in
      st\<lparr>r_http := filter (\<lambda>(_, e). \<not> stale e) (r_http st), r_ws := filter (\<lambda>(_, e). \<not> stale e) (r_ws st)\<rparr>)"

section \<open>Addresses and origins\<close>

definition To4 :: "nat list \<Rightarrow> nat list option" where
  "To4 ip =
     (if length ip = 4 then Some ip
      else if length ip = 16 \<and> take 12 ip = replicate 10 0 @ [255, 255] then Some (drop 12 ip)
      else None)"

definition Contains_IPNet :: "ipnet \<Rightarrow> nat list \<Rightarrow> bool" where
  "Contains_IPNet n ip0 =
     (let (nn, ones) = n; ip = (case To4 ip0 of Some x \<Rightarrow> x | None \<Rightarrow> ip0) in
      length ip = length nn \<and> take ones (concat (map byteBits ip)) = take ones (concat (map byteBits nn)))"

definition privateRanges :: "ipnet list" where
  "privateRanges =
     [([10, 0, 0, 0], 8), ([172, 16, 0, 0], 12), ([192, 168, 0, 0], 16), ([127, 0, 0, 0], 8),
      (replicate 15 0 @ [1], 128), (252 # replicate 15 0, 7)]"

definition isPrivateIP :: "nat list \<Rightarrow> bool" where
  "isPrivateIP ip = list_ex (\<lambda>network. Contains_IPNet network ip) privateRanges"

text \<open>The host of \<open>net.SplitHostPort\<close>, \<open>None\<close> for its errors.\<close>

definition SplitHost :: "string \<Rightarrow> string option" where
  "SplitHost hostport =
     (case LastIndexByte hostport (CHR '':'') of
        None \<Rightarrow> None
      | Some i \<Rightarrow>
          if HasPrefix hostport ''['' then
            (case Index hostport '']'' of
               None \<Rightarrow> None
             | Some e \<Rightarrow>
                 if e + 1 = i \<and> \<not> Contains (drop 1 hostport) ''['' \<and> \<not> Contains (drop (e + 1) hostport) '']''
                 then Some (drop 1 (take e hostport)) else None)
          else
            let host = take i hostport in
            if Contains host '':'' \<or> Contains hostport ''['' \<or> Contains hostport '']'' then None else Some host)"

definition lastPublic :: "'l env \<Rightarrow> string \<Rightarrow> string option" where
  "lastPublic env xff =
     List.find (\<lambda>candidate. case ParseIP env candidate of None \<Rightarrow> False | Some ip \<Rightarrow> \<not> isPrivateIP ip)
       (map TrimSpace (rev (Split xff (CHR '',''))))"

definition extractIP :: "'l env \<Rightarrow> request \<Rightarrow> string" where
  "extractIP env r =
     (let remoteHost = (case SplitHost (q_RemoteAddr r) of Some h \<Rightarrow> h | None \<Rightarrow> q_RemoteAddr r);
          trusted = (case trustedProxyNet env of
                       Some net \<Rightarrow> (case ParseIP env remoteHost of None \<Rightarrow> False | Some ip \<Rightarrow> Contains_IPNet net ip)
                     | None \<Rightarrow> trustedProxy env \<noteq> [] \<and> remoteHost = trustedProxy env)
      in if trusted \<and> q_ForwardedFor r \<noteq> []
         then (case lastPublic env (q_ForwardedFor r) of Some c \<Rightarrow> c | None \<Rightarrow> remoteHost)
         else remoteHost)"

definition checkOrigin :: "'l env \<Rightarrow> request \<Rightarrow> bool" where
  "checkOrigin env r =
     (if allowedOrigins env = [] then \<not> (requireOriginChk env \<and> q_Origin r \<noteq> [])
      else list_ex (\<lambda>allowed. q_Origin r = allowed) (allowedOrigins env))"

definition authenticateRelay :: "'l env \<Rightarrow> request \<Rightarrow> bool" where
  "authenticateRelay env r = (q_Secret r = relaySecret env)"

section \<open>Persistence\<close>

text \<open>\<open>fnv.New32a\<close>: exclusive or with the byte, then a multiplication that wraps at 32 bits.\<close>

definition hashSessionID :: "string \<Rightarrow> nat" where
  "hashSessionID sessionID =
     unat (fold (\<lambda>c hash. (hash XOR of_nat (of_char c)) * 16777619) sessionID (2166136261 :: 32 word))"

definition enqueuePersist :: "string \<Rightarrow> nat \<Rightarrow> string \<Rightarrow> 'l relay \<Rightarrow> 'l relay" where
  "enqueuePersist sessionID sequence content st =
     (let idx = hashSessionID sessionID mod length (r_channels st);
          ch = r_channels st ! idx;
          job = \<lparr>j_sessionID = sessionID, j_sequence = sequence, j_content = content\<rparr>
      in if length ch < 1024 then st\<lparr>r_channels := (r_channels st)[idx := ch @ [job]]\<rparr>
         else st\<lparr>r_persistDrops := r_persistDrops st + 1\<rparr>)"

fun batchRows :: "nat \<Rightarrow> nat \<Rightarrow> string" where
  "batchRows i 0 = []"
| "batchRows i (Suc n) =
     (if i > 0 then '', '' else []) @
     ''(gen_random_uuid(), $'' @ Itoa (i * 3 + 1) @ '', $'' @ Itoa (i * 3 + 2) @ '', $'' @ Itoa (i * 3 + 3) @ '', NOW())'' @
     batchRows (Suc i) n"

definition buildBatchQuery :: "nat \<Rightarrow> string" where
  "buildBatchQuery n =
     ''INSERT INTO session_outputs (id, session_id, sequence, content, created_at) VALUES '' @ batchRows 0 n @
     '' ON CONFLICT DO NOTHING''"

text \<open>
  What the statement does in the database: a row whose session and sequence number are taken is
  skipped; the whole statement fails on a number that is no \<open>integer\<close>, on a text that PostgreSQL does not
  store (a NUL byte or invalid UTF-8), and on a new row of a session that does not exist.
\<close>

function validUTF8 :: "string \<Rightarrow> bool" where
  "validUTF8 s =
     (if s = [] then True else if runeSize s = 0 then False else validUTF8 (drop (runeSize s) s))"
  by pat_completeness auto
termination by (relation "measure length") auto

declare validUTF8.simps [simp del]

definition storableText :: "string \<Rightarrow> bool" where
  "storableText s = (CHR 0x00 \<notin> set s \<and> validUTF8 s)"

definition jobKey :: "persistJob \<Rightarrow> string \<times> nat" where
  "jobKey job = (j_sessionID job, j_sequence job)"

definition rowKey :: "outputRow \<Rightarrow> string \<times> nat" where
  "rowKey row = (y_SessionID row, y_Sequence row)"

definition insertRow :: "nat \<Rightarrow> persistJob \<Rightarrow> outputRow list \<Rightarrow> outputRow list" where
  "insertRow now job rows =
     (if jobKey job \<in> rowKey ` set rows then rows
      else rows @ [\<lparr>y_SessionID = j_sessionID job, y_Sequence = j_sequence job, y_Content = j_content job, y_CreatedAt = now\<rparr>])"

definition rejects :: "string list \<Rightarrow> outputRow list \<Rightarrow> persistJob \<Rightarrow> bool" where
  "rejects known rows job =
     (j_sequence job > 2147483647 \<or> \<not> storableText (j_content job)
      \<or> (j_sessionID job \<notin> set known \<and> jobKey job \<notin> rowKey ` set rows))"

definition execBatch :: "persistJob list \<Rightarrow> 'l relay \<Rightarrow> 'l relay" where
  "execBatch batch st =
     (let st1 = st\<lparr>r_faults := tl (r_faults st)\<rparr>;
          broken = (r_faults st \<noteq> [] \<and> hd (r_faults st))
      in if broken \<or> list_ex (rejects (r_sessionIDs st) (r_outputs st)) batch then st1
         else st1\<lparr>r_outputs := fold (insertRow (unixMilli st)) batch (r_outputs st)\<rparr>)"

function flushBatch :: "persistJob list \<Rightarrow> 'l relay \<Rightarrow> 'l relay" where
  "flushBatch batch st =
     (if batch = [] then st
      else
        (let size = (if length batch > 50 then 50 else length batch);
             st1 = execBatch (take size batch) st
         in if length batch > 50 then flushBatch (drop 50 batch) st1 else st1))"
  by pat_completeness auto
termination by (relation "measure (length \<circ> fst)") auto

declare flushBatch.simps [simp del]

text \<open>The turns of a worker's \<open>select\<close>: a job off its channel, the ticker, and the closed \<open>done\<close>, after which it returns.\<close>

datatype workerEvent = WJob | WTick | WDone

definition setBatch :: "nat \<Rightarrow> persistJob list \<Rightarrow> 'l relay \<Rightarrow> 'l relay" where
  "setBatch i batch st = st\<lparr>r_batches := (r_batches st)[i := batch]\<rparr>"

definition persistWorker :: "nat \<Rightarrow> workerEvent \<Rightarrow> 'l relay \<Rightarrow> 'l relay" where
  "persistWorker i ev st =
     (let ch = r_channels st ! i; batch = r_batches st ! i in
      case ev of
        WJob \<Rightarrow>
          (case ch of
             [] \<Rightarrow> st
           | job # rest \<Rightarrow>
               (let st1 = st\<lparr>r_channels := (r_channels st)[i := rest]\<rparr>; batch' = batch @ [job] in
                if length batch' \<ge> 50 then setBatch i [] (flushBatch batch' st1) else setBatch i batch' st1))
      | WTick \<Rightarrow> if length batch > 0 then setBatch i [] (flushBatch batch st) else st
      | WDone \<Rightarrow> setBatch i [] (flushBatch (batch @ ch) (st\<lparr>r_channels := (r_channels st)[i := []]\<rparr>)))"

definition startPersistWorkers :: "nat \<Rightarrow> 'l relay \<Rightarrow> 'l relay" where
  "startPersistWorkers n st = st\<lparr>r_channels := replicate n [], r_batches := replicate n []\<rparr>"

section \<open>Publishing\<close>

definition publishChunk :: "'l env \<Rightarrow> string \<Rightarrow> string \<Rightarrow> string \<Rightarrow> 'l relay \<Rightarrow> (string \<times> nat) \<times> 'l relay" where
  "publishChunk env sessionID content chunkType st =
     (let (seq, h1) = NextSequence sessionID (r_hub st);
          data = marshalChunk \<lparr>k_SessionID = sessionID, k_Sequence = seq, k_Content = content, k_Type = chunkType,
                   k_Timestamp = unixMilli st, k_Dropped = 0\<rparr>
      in ((data, seq), st\<lparr>r_hub := Publish (reads env) sessionID data (unixMilli st) h1\<rparr>))"

definition resetSessionTimer :: "string \<Rightarrow> 'l relay \<Rightarrow> 'l relay" where
  "resetSessionTimer sessionID st =
     st\<lparr>r_timers := AList.update sessionID (r_clock st + sessionInactivityTime) (r_timers st)\<rparr>"

definition cancelSessionTimer :: "string \<Rightarrow> 'l relay \<Rightarrow> 'l relay" where
  "cancelSessionTimer sessionID st = st\<lparr>r_timers := AList.delete sessionID (r_timers st)\<rparr>"

definition cleanupSequence :: "string \<Rightarrow> 'l relay \<Rightarrow> 'l relay" where
  "cleanupSequence sessionID st = st\<lparr>r_hub := CleanupSequence sessionID (r_hub st)\<rparr>"

text \<open>The last three calls of an end: of \<open>handleEnd\<close>, of the timer and of a closed ingest connection.\<close>

definition publishEnd :: "'l env \<Rightarrow> string \<Rightarrow> 'l relay \<Rightarrow> 'l relay" where
  "publishEnd env sessionID st =
     (let ((_, seq), st1) = publishChunk env sessionID [] ''end'' st
      in cleanupSequence sessionID (enqueuePersist sessionID seq [] st1))"

text \<open>The function of the inactivity timer, run when its time has come.\<close>

definition autoClose :: "'l env \<Rightarrow> string \<Rightarrow> 'l relay \<Rightarrow> 'l relay" where
  "autoClose env sessionID st =
     (case map_of (r_timers st) sessionID of
        None \<Rightarrow> st
      | Some t \<Rightarrow>
          if t \<le> r_clock st then publishEnd env sessionID (st\<lparr>r_timers := AList.delete sessionID (r_timers st)\<rparr>) else st)"

section \<open>Handlers\<close>

definition forbidden :: response where "forbidden = (403, ''forbidden'')"
definition tooMany :: response where "tooMany = (429, ''rate limit exceeded'')"
definition badSession :: response where "badSession = (400, ''invalid sessionId'')"
definition noContent :: response where "noContent = (204, [])"

text \<open>The handler writes no answer of its own when the upgrade fails.\<close>

definition upgradeFailed :: response where "upgradeFailed = (0, [])"

definition storeChunk :: "'l env \<Rightarrow> string \<Rightarrow> string \<Rightarrow> 'l relay \<Rightarrow> 'l relay" where
  "storeChunk env sessionID content st =
     (let ((_, seq), st1) = publishChunk env sessionID content ''data'' st in enqueuePersist sessionID seq content st1)"

definition handleChunk :: "'l env \<Rightarrow> request \<Rightarrow> 'l relay \<Rightarrow> response \<times> 'l relay" where
  "handleChunk env r st =
     (if \<not> authenticateRelay env r then (forbidden, st)
      else
        case allowHTTP env (extractIP env r) st of
          (False, st1) \<Rightarrow> (tooMany, st1)
        | (True, st1) \<Rightarrow>
            let sessionID = q_SessionID r in
            if sessionID = [] \<or> \<not> validSessionID sessionID then (badSession, st1)
            else
              (case decodeContent env (take (2 ^ 20) (q_Body r)) of
                 None \<Rightarrow> ((400, ''invalid json''), st1)
               | Some content \<Rightarrow> (noContent, resetSessionTimer sessionID (storeChunk env sessionID content st1))))"

definition handleStatus :: "'l env \<Rightarrow> request \<Rightarrow> 'l relay \<Rightarrow> response \<times> 'l relay" where
  "handleStatus env r st =
     (if \<not> authenticateRelay env r then (forbidden, st)
      else
        case allowHTTP env (extractIP env r) st of
          (False, st1) \<Rightarrow> (tooMany, st1)
        | (True, st1) \<Rightarrow>
            let sessionID = q_SessionID r in
            if sessionID = [] \<or> \<not> validSessionID sessionID then (badSession, st1)
            else
              (case decodeStatus env (take (2 ^ 10) (q_Body r)) of
                 None \<Rightarrow> ((400, ''invalid json''), st1)
               | Some status \<Rightarrow>
                   if status = [] then ((400, ''invalid json''), st1)
                   else if status \<notin> set allowedStatuses then ((400, ''invalid status''), st1)
                   else
                     (case allowStatus env sessionID st1 of
                        (False, st2) \<Rightarrow> ((429, ''status rate limit exceeded''), st2)
                      | (True, st2) \<Rightarrow>
                          (noContent, resetSessionTimer sessionID (snd (publishChunk env sessionID status ''status'' st2))))))"

definition handleEnd :: "'l env \<Rightarrow> request \<Rightarrow> 'l relay \<Rightarrow> response \<times> 'l relay" where
  "handleEnd env r st =
     (if \<not> authenticateRelay env r then (forbidden, st)
      else
        let sessionID = q_SessionID r in
        if sessionID = [] \<or> \<not> validSessionID sessionID then (badSession, st)
        else (noContent, publishEnd env sessionID (cancelSessionTimer sessionID st)))"

text \<open>
  An ingest connection: the checks before the upgrade (\<open>upgradeOk\<close> stands for the websocket library,
  which also refuses what \<open>checkOrigin\<close> refuses), one message read, and the end of the read loop.
\<close>

definition handleIngest :: "'l env \<Rightarrow> bool \<Rightarrow> request \<Rightarrow> 'l relay \<Rightarrow> (response + string) \<times> 'l relay" where
  "handleIngest env upgradeOk r st =
     (if \<not> authenticateRelay env r then (Inl forbidden, st)
      else
        case allowWS env (extractIP env r) st of
          (False, st1) \<Rightarrow> (Inl tooMany, st1)
        | (True, st1) \<Rightarrow>
            let sessionID = q_SessionID r in
            if sessionID = [] \<or> \<not> validSessionID sessionID then (Inl badSession, st1)
            else if \<not> (upgradeOk \<and> checkOrigin env r) then (Inl upgradeFailed, st1)
            else (Inr sessionID, st1))"

definition ingestMessage :: "'l env \<Rightarrow> string \<Rightarrow> string \<Rightarrow> 'l relay \<Rightarrow> 'l relay" where
  "ingestMessage env sessionID msg st =
     (case (if HasPrefix msg ''{'' then decodeTyped env msg else None) of
        Some (typ, status) \<Rightarrow>
          if typ = ''status'' \<and> status \<in> set allowedStatuses then
            (case allowStatus env sessionID st of
               (False, st1) \<Rightarrow> st1
             | (True, st1) \<Rightarrow> resetSessionTimer sessionID (snd (publishChunk env sessionID status ''status'' st1)))
          else storeChunk env sessionID msg st
      | None \<Rightarrow> storeChunk env sessionID msg st)"

definition ingestClosed :: "'l env \<Rightarrow> string \<Rightarrow> 'l relay \<Rightarrow> 'l relay" where
  "ingestClosed env sessionID st = publishEnd env sessionID st"

section \<open>Viewing\<close>

definition historyRows :: "string \<Rightarrow> nat \<Rightarrow> 'l relay \<Rightarrow> outputRow list" where
  "historyRows sessionID afterSequence st =
     take 1000 (sort_key y_Sequence (filter (\<lambda>row. y_SessionID row = sessionID \<and> y_Sequence row > afterSequence) (r_outputs st)))"

definition historyChunk :: "string \<Rightarrow> outputRow \<Rightarrow> string" where
  "historyChunk sessionID row =
     marshalChunk \<lparr>k_SessionID = sessionID, k_Sequence = y_Sequence row, k_Content = y_Content row, k_Type = ''data'',
       k_Timestamp = y_CreatedAt row, k_Dropped = 0\<rparr>"

text \<open>
  \<open>streamHistory\<close>: the messages written and whether it returned without an error; the connection accepts \<open>writes\<close> more
  messages. The query takes one database outcome, the end of its rows another.
\<close>

definition streamHistory :: "nat \<Rightarrow> string \<Rightarrow> nat \<Rightarrow> 'l relay \<Rightarrow> (string list \<times> bool) \<times> 'l relay" where
  "streamHistory writes sessionID afterSequence st =
     (let broken = (r_faults st \<noteq> [] \<and> hd (r_faults st)); st1 = st\<lparr>r_faults := tl (r_faults st)\<rparr> in
      if broken then ((take writes [''{'' @ jsonString ''error'' @ '':'' @ jsonString ''failed to load history'' @ ''}''], False), st1)
      else
        let msgs = map (historyChunk sessionID) (historyRows sessionID afterSequence st) in
        if writes < length msgs then ((take writes msgs, False), st1)
        else ((msgs, \<not> (r_faults st1 \<noteq> [] \<and> hd (r_faults st1))), st1\<lparr>r_faults := tl (r_faults st1)\<rparr>))"

text \<open>\<open>strconv.Atoi\<close>: an optional sign and decimal digits, within 64 bits.\<close>

definition digitsValue :: "string \<Rightarrow> int" where
  "digitsValue ds = fold (\<lambda>c n. 10 * n + (of_char c - 48)) ds 0"

definition Atoi :: "string \<Rightarrow> int option" where
  "Atoi s =
     (let neg = HasPrefix s ''-''; ds = (if neg \<or> HasPrefix s ''+'' then drop 1 s else s);
          n = (if neg then - digitsValue ds else digitsValue ds) in
      if ds = [] \<or> list_ex (\<lambda>c. (of_char c :: nat) < 48 \<or> (of_char c :: nat) > 57) ds then None
      else if n < - (2 ^ 63) \<or> n \<ge> 2 ^ 63 then None
      else Some n)"

datatype wsResult = WsRefused response | WsClosed "string list" | WsOpen "string list" nat

definition handleWebSocket :: "'l env \<Rightarrow> bool \<Rightarrow> nat \<Rightarrow> request \<Rightarrow> 'l relay \<Rightarrow> wsResult \<times> 'l relay" where
  "handleWebSocket env upgradeOk writes r st =
     (let sessionID = q_SessionID r in
      if sessionID = [] \<or> \<not> validSessionID sessionID then (WsRefused badSession, st)
      else
        case allowWS env (extractIP env r) st of
          (False, st1) \<Rightarrow> (WsRefused tooMany, st1)
        | (True, st1) \<Rightarrow>
            if \<not> (upgradeOk \<and> checkOrigin env r) then (WsRefused upgradeFailed, st1)
            else
              let afterSequence = (if q_LastSequence r = [] then 0
                                   else case Atoi (q_LastSequence r) of Some p \<Rightarrow> if p \<ge> 0 then nat p else 0 | None \<Rightarrow> 0) in
              (case streamHistory writes sessionID afterSequence st1 of
                 ((sent, False), st2) \<Rightarrow> (WsClosed sent, st2)
               | ((sent, True), st2) \<Rightarrow>
                   (case Subscribe sessionID (r_hub st2) of
                      (Inl _, _) \<Rightarrow>
                        (WsClosed (sent @ take (writes - length sent)
                           [''{'' @ jsonString ''error'' @ '':'' @ jsonString ''subscription unavailable'' @ ''}'']), st2)
                    | (Inr sub, h) \<Rightarrow> (WsOpen sent sub, st2\<lparr>r_hub := h\<rparr>))))"

text \<open>
  One turn of the sending loop when a message is ready: it is written (if the connection still
  accepts it), and the deferred clean-up unsubscribes when the write failed or the message was an end. The
  other ways out of the loop are \<open>viewerGone\<close>.
\<close>

definition viewerTurn :: "bool \<Rightarrow> string \<Rightarrow> nat \<Rightarrow> 'l relay \<Rightarrow> (string option \<times> bool) \<times> 'l relay" where
  "viewerTurn writeOk sessionID sub st =
     (case Receive sub (r_hub st) of
        (None, _) \<Rightarrow> ((None, True), st)
      | (Some data, h) \<Rightarrow>
          if \<not> writeOk then ((None, False), st\<lparr>r_hub := Unsubscribe sessionID sub h\<rparr>)
          else if Contains data endMarker then ((Some data, False), st\<lparr>r_hub := Unsubscribe sessionID sub h\<rparr>)
          else ((Some data, True), st\<lparr>r_hub := h\<rparr>))"

definition viewerGone :: "string \<Rightarrow> nat \<Rightarrow> 'l relay \<Rightarrow> 'l relay" where
  "viewerGone sessionID sub st = st\<lparr>r_hub := Unsubscribe sessionID sub (r_hub st)\<rparr>"

definition handleHealth :: "'l relay \<Rightarrow> nat \<times> nat \<times> int \<times> nat" where
  "handleHealth st = (200, TotalSubscribers (r_hub st), ActiveConnections (r_hub st), r_persistDrops st)"

section \<open>Batches\<close>

text \<open>A statement touches the table and the database's outcomes only.\<close>

lemma execBatch_frame [simp]:
  "r_channels (execBatch b st) = r_channels st" "r_batches (execBatch b st) = r_batches st" "r_hub (execBatch b st) = r_hub st"
  "r_sessionIDs (execBatch b st) = r_sessionIDs st" "r_clock (execBatch b st) = r_clock st"
  by (simp_all add: execBatch_def Let_def)

lemma execBatch_commutes [simp]:
  "execBatch b (st\<lparr>r_channels := c\<rparr>) = (execBatch b st)\<lparr>r_channels := c\<rparr>"
  "execBatch b (st\<lparr>r_batches := bs\<rparr>) = (execBatch b st)\<lparr>r_batches := bs\<rparr>"
  by (simp_all add: execBatch_def Let_def unixMilli_def)

lemma execBatches_frame [simp]:
  "r_channels (fold execBatch gs st) = r_channels st" "r_batches (fold execBatch gs st) = r_batches st"
  "r_hub (fold execBatch gs st) = r_hub st" "r_sessionIDs (fold execBatch gs st) = r_sessionIDs st"
  "r_clock (fold execBatch gs st) = r_clock st"
  by (induction gs arbitrary: st) simp_all

lemma execBatches_commute [simp]:
  "fold execBatch gs (st\<lparr>r_channels := c\<rparr>) = (fold execBatch gs st)\<lparr>r_channels := c\<rparr>"
  "fold execBatch gs (st\<lparr>r_batches := bs\<rparr>) = (fold execBatch gs st)\<lparr>r_batches := bs\<rparr>"
  by (induction gs arbitrary: st) simp_all

definition groupsOk :: "persistJob list list \<Rightarrow> bool" where
  "groupsOk gs = list_all (\<lambda>g. g \<noteq> [] \<and> length g \<le> 50) gs"

lemma flushBatch_groups: "\<exists>gs. concat gs = batch \<and> groupsOk gs \<and> flushBatch batch st = fold execBatch gs st"
proof (induction batch st rule: flushBatch.induct)
  case (1 batch st)
  consider "batch = []" | "batch \<noteq> []" "length batch \<le> 50" | "length batch > 50" by fastforce
  then show ?case
  proof cases
    case 1
    then show ?thesis by (intro exI [of _ "[]"]) (simp add: groupsOk_def flushBatch.simps)
  next
    case 2
    then show ?thesis by (intro exI [of _ "[batch]"]) (simp add: groupsOk_def flushBatch.simps)
  next
    case 3
    then have "batch \<noteq> []" by auto
    with 1 [OF this refl refl] 3 obtain gs where
      "concat gs = drop 50 batch" "groupsOk gs" "flushBatch (drop 50 batch) (execBatch (take 50 batch) st) = fold execBatch gs (execBatch (take 50 batch) st)"
      by auto
    with 3 \<open>batch \<noteq> []\<close> show ?thesis
      by (intro exI [of _ "take 50 batch # gs"]) (simp add: groupsOk_def flushBatch.simps [of batch])
  qed
qed

section \<open>The workers\<close>

text \<open>
  Where a worker's run has got to: the jobs it has written, in groups of at most 50, its batch and
  its channel are together what its batch and its channel were before.
\<close>

lemma persistWorker_step:
  assumes "i < length (r_channels st)" "i < length (r_batches st)" "ev \<noteq> WDone"
  shows "\<exists>gs b c. concat gs @ b @ c = r_batches st ! i @ r_channels st ! i \<and> groupsOk gs
     \<and> (ev = WJob \<longrightarrow> c = tl (r_channels st ! i)) \<and> (ev = WTick \<longrightarrow> c = r_channels st ! i \<and> b = [])
     \<and> persistWorker i ev st = (fold execBatch gs st)\<lparr>r_channels := (r_channels st)[i := c], r_batches := (r_batches st)[i := b]\<rparr>"
proof (cases ev)
  case WJob
  show ?thesis
  proof (cases "r_channels st ! i")
    case Nil
    then have "(r_channels st)[i := []] = r_channels st" by (metis list_update_id)
    then show ?thesis
      using WJob Nil by (intro exI [of _ "[]"] exI [of _ "r_batches st ! i"]) (simp add: persistWorker_def groupsOk_def)
  next
    case (Cons job rest)
    let ?b = "r_batches st ! i @ [job]"
    obtain gs where gs: "concat gs = ?b" "groupsOk gs"
      "flushBatch ?b (st\<lparr>r_channels := (r_channels st)[i := rest]\<rparr>)
        = fold execBatch gs (st\<lparr>r_channels := (r_channels st)[i := rest]\<rparr>)"
      using flushBatch_groups by metis
    show ?thesis
    proof (cases "length ?b \<ge> 50")
      case True
      then show ?thesis
        using WJob Cons gs by (intro exI [of _ gs] exI [of _ "[]"] exI [of _ rest]) (simp add: persistWorker_def setBatch_def)
    next
      case False
      then show ?thesis
        using WJob Cons by (intro exI [of _ "[]"] exI [of _ ?b] exI [of _ rest]) (simp add: persistWorker_def setBatch_def groupsOk_def)
    qed
  qed
next
  case WTick
  obtain gs where gs: "concat gs = r_batches st ! i" "groupsOk gs" "flushBatch (r_batches st ! i) st = fold execBatch gs st"
    using flushBatch_groups by metis
  show ?thesis
  proof (cases "r_batches st ! i = []")
    case True
    then have "(r_batches st)[i := []] = r_batches st" by (metis list_update_id)
    with True WTick show ?thesis
      by (intro exI [of _ "[]"] exI [of _ "r_channels st ! i"]) (simp add: persistWorker_def groupsOk_def)
  next
    case False
    with WTick gs show ?thesis
      by (intro exI [of _ gs] exI [of _ "[]"] exI [of _ "r_channels st ! i"]) (simp add: persistWorker_def setBatch_def)
  qed
qed (use assms in simp)

lemma groupsOk_append: "groupsOk gs \<Longrightarrow> groupsOk hs \<Longrightarrow> groupsOk (gs @ hs)"
  by (simp add: groupsOk_def)

lemma persistWorker_run:
  assumes "i < length (r_channels st)" "i < length (r_batches st)" "WDone \<notin> set evs"
  shows "\<exists>gs b c. concat gs @ b @ c = r_batches st ! i @ r_channels st ! i \<and> groupsOk gs
     \<and> c = drop (length (filter ((=) WJob) evs)) (r_channels st ! i) \<and> (evs \<noteq> [] \<and> last evs = WTick \<longrightarrow> b = [])
     \<and> fold (persistWorker i) evs st = (fold execBatch gs st)\<lparr>r_channels := (r_channels st)[i := c], r_batches := (r_batches st)[i := b]\<rparr>"
  using assms(3)
proof (induction evs rule: rev_induct)
  case Nil
  show ?case
    by (rule exI [of _ "[]"], rule exI [of _ "r_batches st ! i"], rule exI [of _ "r_channels st ! i"]) (simp add: groupsOk_def)
next
  case (snoc ev evs)
  from snoc obtain gs b c where run: "concat gs @ b @ c = r_batches st ! i @ r_channels st ! i" "groupsOk gs"
    "c = drop (length (filter ((=) WJob) evs)) (r_channels st ! i)"
    "fold (persistWorker i) evs st = (fold execBatch gs st)\<lparr>r_channels := (r_channels st)[i := c], r_batches := (r_batches st)[i := b]\<rparr>"
    by auto
  let ?s = "fold (persistWorker i) evs st"
  have at: "r_channels ?s = (r_channels st)[i := c]" "r_batches ?s = (r_batches st)[i := b]" unfolding run(4) by simp_all
  with assms have bnd: "i < length (r_channels ?s)" "i < length (r_batches ?s)" "r_channels ?s ! i = c" "r_batches ?s ! i = b"
    by simp_all
  have "ev \<noteq> WDone" using snoc.prems by auto
  from persistWorker_step [OF bnd(1,2) this] obtain hs b' c' where step: "concat hs @ b' @ c' = b @ c" "groupsOk hs"
    "ev = WJob \<longrightarrow> c' = tl c" "ev = WTick \<longrightarrow> c' = c \<and> b' = []"
    "persistWorker i ev ?s = (fold execBatch hs ?s)\<lparr>r_channels := (r_channels ?s)[i := c'], r_batches := (r_batches ?s)[i := b']\<rparr>"
    unfolding bnd(3,4) by blast
  have c': "c' = drop (length (filter ((=) WJob) (evs @ [ev]))) (r_channels st ! i)"
    using step(3,4) run(3) \<open>ev \<noteq> WDone\<close> by (cases ev) (simp_all add: tl_drop drop_Suc)
  show ?case
  proof (intro exI conjI)
    show "concat (gs @ hs) @ b' @ c' = r_batches st ! i @ r_channels st ! i" using run(1) step(1) by simp
    show "groupsOk (gs @ hs)" using run(2) step(2) by (rule groupsOk_append)
    show "c' = drop (length (filter ((=) WJob) (evs @ [ev]))) (r_channels st ! i)" by (rule c')
    show "evs @ [ev] \<noteq> [] \<and> last (evs @ [ev]) = WTick \<longrightarrow> b' = []" using step(4) by simp
    show "fold (persistWorker i) (evs @ [ev]) st
        = (fold execBatch (gs @ hs) st)\<lparr>r_channels := (r_channels st)[i := c'], r_batches := (r_batches st)[i := b']\<rparr>"
      using step(5) at run(4) by simp
  qed
qed

text \<open>
  C20. The output queue drains. However the turns of a worker's loop are scheduled, once it has had as many
  turns with a job as its channel held and then a tick of its timer, its channel and its batch are empty, and every job it
  had was put, in order, into exactly one statement, each with between one and fifty jobs; whether the
  statements fail makes no difference. The other workers' queues are untouched.
\<close>

theorem persist_worker_drains_its_queue:
  assumes "i < length (r_channels st)" "i < length (r_batches st)" "WDone \<notin> set evs"
    and "length (r_channels st ! i) \<le> length (filter ((=) WJob) evs)"
  shows "\<exists>gs. concat gs = r_batches st ! i @ r_channels st ! i \<and> (\<forall>g \<in> set gs. 1 \<le> length g \<and> length g \<le> 50)
     \<and> fold (persistWorker i) (evs @ [WTick]) st
       = (fold execBatch gs st)\<lparr>r_channels := (r_channels st)[i := []], r_batches := (r_batches st)[i := []]\<rparr>"
proof -
  have "WDone \<notin> set (evs @ [WTick])" using assms(3) by simp
  from persistWorker_run [OF assms(1,2) this] obtain gs b c where run:
    "concat gs @ b @ c = r_batches st ! i @ r_channels st ! i" "groupsOk gs"
    "c = drop (length (filter ((=) WJob) (evs @ [WTick]))) (r_channels st ! i)"
    "evs @ [WTick] \<noteq> [] \<and> last (evs @ [WTick]) = WTick \<longrightarrow> b = []"
    "fold (persistWorker i) (evs @ [WTick]) st
      = (fold execBatch gs st)\<lparr>r_channels := (r_channels st)[i := c], r_batches := (r_batches st)[i := b]\<rparr>"
    by blast
  have "c = []" "b = []" using run(3,4) assms(4) by simp_all
  with run show ?thesis
    by (intro exI [of _ gs]) (auto simp: groupsOk_def list_all_iff Suc_le_eq)
qed

section \<open>Storing chunks\<close>

definition workerOf :: "string \<Rightarrow> 'l relay \<Rightarrow> nat" where
  "workerOf sessionID st = hashSessionID sessionID mod length (r_channels st)"

definition lastSequence :: "string \<Rightarrow> 'l relay \<Rightarrow> nat" where
  "lastSequence sessionID st = (case map_of (h_sequence (r_hub st)) sessionID of None \<Rightarrow> 0 | Some n \<Rightarrow> n)"

definition chunkJob :: "string \<Rightarrow> nat \<Rightarrow> string \<Rightarrow> persistJob" where
  "chunkJob sessionID sequence content = \<lparr>j_sessionID = sessionID, j_sequence = sequence, j_content = content\<rparr>"

lemma publishChunk_effect:
  assumes "publishChunk env s content typ st = ((data, seq), st')"
  shows "seq = lastSequence s st + 1" "lastSequence s st' = seq" "t \<noteq> s \<Longrightarrow> lastSequence t st' = lastSequence t st"
    "st' = st\<lparr>r_hub := r_hub st'\<rparr>"
  using assms by (auto simp: publishChunk_def lastSequence_def Let_def NextSequence_def update_conv' split: prod.splits)

lemma storeChunk_effect:
  assumes "length (r_channels st ! workerOf s st) < 1024" "r_channels st \<noteq> []"
  shows "lastSequence s (storeChunk env s content st) = lastSequence s st + 1"
    and "storeChunk env s content st = st\<lparr>r_hub := r_hub (storeChunk env s content st),
      r_channels := (r_channels st)[workerOf s st :=
        r_channels st ! workerOf s st @ [chunkJob s (lastSequence s st + 1) content]]\<rparr>"
proof -
  obtain data seq st1 where p: "publishChunk env s content ''data'' st = ((data, seq), st1)"
    by (metis prod.collapse)
  note e = publishChunk_effect [OF p]
  have ch: "r_channels st1 = r_channels st" "length (r_channels st1 ! workerOf s st) < 1024"
    using assms(1) by (subst e(4), simp)+
  have st: "storeChunk env s content st = st1\<lparr>r_channels := (r_channels st)[workerOf s st :=
        r_channels st ! workerOf s st @ [chunkJob s (lastSequence s st + 1) content]]\<rparr>"
    using ch e(1) by (simp add: storeChunk_def p enqueuePersist_def Let_def workerOf_def chunkJob_def)
  show "lastSequence s (storeChunk env s content st) = lastSequence s st + 1"
    using e(1,2) unfolding st by (simp add: lastSequence_def)
  show "storeChunk env s content st = st\<lparr>r_hub := r_hub (storeChunk env s content st),
      r_channels := (r_channels st)[workerOf s st :=
        r_channels st ! workerOf s st @ [chunkJob s (lastSequence s st + 1) content]]\<rparr>"
    unfolding st by (subst e(4)) simp
qed

fun chunkJobs :: "string \<Rightarrow> nat \<Rightarrow> string list \<Rightarrow> persistJob list" where
  "chunkJobs s n [] = []"
| "chunkJobs s n (c # cs) = chunkJob s (Suc n) c # chunkJobs s (Suc n) cs"

lemma chunkJobs_map: "chunkJobs s n cs = map (\<lambda>i. chunkJob s (Suc (n + i)) (cs ! i)) [0..<length cs]"
proof (induction cs arbitrary: n)
  case (Cons c cs)
  show ?case by (simp add: Cons upt_conv_Cons map_Suc_upt [symmetric] del: upt_Suc)
qed simp

lemma length_chunkJobs [simp]: "length (chunkJobs s n cs) = length cs"
  by (simp add: chunkJobs_map)

lemma storeChunks_effect:
  assumes "length (r_channels st ! workerOf s st) + length cs \<le> 1024" "r_channels st \<noteq> []"
  shows "lastSequence s (fold (storeChunk env s) cs st) = lastSequence s st + length cs
    \<and> fold (storeChunk env s) cs st = st\<lparr>r_hub := r_hub (fold (storeChunk env s) cs st),
        r_channels := (r_channels st)[workerOf s st := r_channels st ! workerOf s st @ chunkJobs s (lastSequence s st) cs]\<rparr>"
  using assms
proof (induction cs arbitrary: st)
  case (Cons c cs)
  let ?s = "storeChunk env s c st" and ?w = "workerOf s st"
  have room: "length (r_channels st ! ?w) < 1024" using Cons.prems(1) by simp
  note one = storeChunk_effect [OF room Cons.prems(2), of env c]
  have w: "?w < length (r_channels st)" using Cons.prems(2) by (simp add: workerOf_def)
  have ch: "r_channels ?s = (r_channels st)[?w := r_channels st ! ?w @ [chunkJob s (lastSequence s st + 1) c]]"
    by (subst one(2)) simp
  then have ws: "workerOf s ?s = ?w" by (simp add: workerOf_def)
  have pre: "length (r_channels ?s ! workerOf s ?s) + length cs \<le> 1024" "r_channels ?s \<noteq> []"
    using Cons.prems w unfolding ws ch by simp_all
  note rest = Cons.IH [OF pre]
  have "fold (storeChunk env s) (c # cs) st = ?s\<lparr>r_hub := r_hub (fold (storeChunk env s) (c # cs) st),
      r_channels := (r_channels st)[?w := r_channels st ! ?w @ chunkJobs s (lastSequence s st) (c # cs)]\<rparr>"
    using rest [THEN conjunct2] w one(1) unfolding ws ch by simp
  moreover have "?s\<lparr>r_hub := h, r_channels := x\<rparr> = st\<lparr>r_hub := h, r_channels := x\<rparr>" for h x by (subst one(2)) simp
  moreover have "lastSequence s (fold (storeChunk env s) (c # cs) st) = lastSequence s st + length (c # cs)"
    using rest [THEN conjunct1] one(1) by simp
  ultimately show ?case by metis
qed simp

section \<open>The table of outputs\<close>

definition chunkRow :: "nat \<Rightarrow> persistJob \<Rightarrow> outputRow" where
  "chunkRow now job = \<lparr>y_SessionID = j_sessionID job, y_Sequence = j_sequence job, y_Content = j_content job, y_CreatedAt = now\<rparr>"

lemma chunkRow_key [simp]: "rowKey (chunkRow now job) = jobKey job"
  by (simp add: chunkRow_def rowKey_def jobKey_def)

lemma insertRows_fresh:
  "distinct (map jobKey jobs) \<Longrightarrow> jobKey ` set jobs \<inter> rowKey ` set rows = {} \<Longrightarrow>
     fold (insertRow now) jobs rows = rows @ map (chunkRow now) jobs"
proof (induction jobs arbitrary: rows)
  case (Cons job jobs)
  have "insertRow now job rows = rows @ [chunkRow now job]" using Cons.prems by (auto simp: insertRow_def chunkRow_def)
  moreover have "fold (insertRow now) jobs (rows @ [chunkRow now job]) = (rows @ [chunkRow now job]) @ map (chunkRow now) jobs"
    using Cons.prems by (intro Cons.IH) auto
  ultimately show ?case by simp
qed simp

lemma insertRows_taken: "jobKey ` set jobs \<subseteq> rowKey ` set rows \<Longrightarrow> fold (insertRow now) jobs rows = rows"
  by (induction jobs) (auto simp: insertRow_def)

lemma execBatches_clean:
  assumes "r_faults st = []" "\<And>job rows. job \<in> set (concat gs) \<Longrightarrow> \<not> rejects (r_sessionIDs st) rows job"
  shows "r_outputs (fold execBatch gs st) = fold (insertRow (unixMilli st)) (concat gs) (r_outputs st)
    \<and> r_faults (fold execBatch gs st) = []"
  using assms
proof (induction gs arbitrary: st)
  case (Cons g gs)
  have "\<not> list_ex (rejects (r_sessionIDs st) (r_outputs st)) g" using Cons.prems(2) by (auto simp: list_ex_iff)
  then have one: "execBatch g st = st\<lparr>r_outputs := fold (insertRow (unixMilli st)) g (r_outputs st)\<rparr>"
    using Cons.prems(1) by (simp add: execBatch_def)
  have "r_outputs (fold execBatch gs (execBatch g st))
      = fold (insertRow (unixMilli (execBatch g st))) (concat gs) (r_outputs (execBatch g st)) \<and> r_faults (fold execBatch gs (execBatch g st)) = []"
    using Cons.prems by (intro Cons.IH) (simp_all add: one)
  then show ?case by (simp add: one unixMilli_def)
qed simp

lemma execBatches_taken:
  "jobKey ` set (concat gs) \<subseteq> rowKey ` set (r_outputs st) \<Longrightarrow> r_outputs (fold execBatch gs st) = r_outputs st"
proof (induction gs arbitrary: st)
  case (Cons g gs)
  have "r_outputs (execBatch g st) = r_outputs st"
    using Cons.prems by (auto simp: execBatch_def Let_def intro!: insertRows_taken)
  with Cons.IH [of "execBatch g st"] Cons.prems show ?case by (simp add: image_Un)
qed simp

text \<open>A worker with an empty batch writes the jobs of its channel, and nothing else.\<close>

lemma drain_effect:
  assumes "i < length (r_channels st)" "i < length (r_batches st)" "r_batches st ! i = []" "r_channels st ! i = jobs"
  obtains gs where "concat gs = jobs"
    "fold (persistWorker i) (replicate (length jobs) WJob @ [WTick]) st
      = (fold execBatch gs st)\<lparr>r_channels := (r_channels st)[i := []], r_batches := (r_batches st)[i := []]\<rparr>"
proof -
  have "WDone \<notin> set (replicate (length jobs) WJob @ [WTick])" by simp
  from persistWorker_run [OF assms(1,2) this] show thesis
    using that assms(3,4) by fastforce
qed

definition sentRow :: "string \<Rightarrow> nat \<Rightarrow> string list \<Rightarrow> nat \<Rightarrow> string" where
  "sentRow s now cs i = marshalChunk \<lparr>k_SessionID = s, k_Sequence = i + 1, k_Content = cs ! i, k_Type = ''data'',
     k_Timestamp = now, k_Dropped = 0\<rparr>"

lemma historyRows_jobs:
  assumes "\<forall>row \<in> set rows. y_SessionID row \<noteq> s" "length cs \<le> 1000"
  shows "map (historyChunk s) (take 1000 (sort_key y_Sequence (filter (\<lambda>row. y_SessionID row = s \<and> y_Sequence row > k)
      (rows @ map (chunkRow now) (chunkJobs s 0 cs))))) = map (sentRow s now cs) [k..<length cs]"
proof -
  let ?row = "\<lambda>i. chunkRow now (chunkJob s (Suc i) (cs ! i))"
  have "filter (\<lambda>row. y_SessionID row = s \<and> y_Sequence row > k) rows = []" using assms(1) by (auto simp: filter_empty_conv)
  moreover have "filter (\<lambda>i. k \<le> i) [0..<n] = [k..<n]" for n
    by (induction n) (auto simp: not_less_eq_eq)
  then have "filter (\<lambda>row. y_SessionID row = s \<and> y_Sequence row > k) (map ?row [0..<length cs]) = map ?row [k..<length cs]"
    by (simp add: filter_map comp_def chunkRow_def chunkJob_def less_Suc_eq_le)
  moreover have "sort_key y_Sequence (map ?row [k..<length cs]) = map ?row [k..<length cs]"
    by (intro sort_key_id_if_sorted)
      (simp add: comp_def chunkRow_def chunkJob_def map_Suc_upt del: upt_Suc)
  moreover have "length (map ?row [k..<length cs]) \<le> 1000" using assms(2) by simp
  ultimately have eq: "take 1000 (sort_key y_Sequence (filter (\<lambda>row. y_SessionID row = s \<and> y_Sequence row > k)
      (rows @ map ?row [0..<length cs]))) = map ?row [k..<length cs]"
    by (simp only: filter_append append_Nil take_all)
  have jobs: "map (chunkRow now) (chunkJobs s 0 cs) = map ?row [0..<length cs]" by (simp add: chunkJobs_map)
  show ?thesis unfolding jobs eq by (simp add: historyChunk_def sentRow_def chunkRow_def chunkJob_def)
qed


text \<open>
  A session that is used again after its end loses its output. The end of a session resets its
  sequence numbers, so the chunks of its next run get the numbers 1, 2, ... once more; as long as those
  numbers are in the table from the first run, the insert skips every one of them: nothing of
  the new run is stored, and viewers who connect later see the old output in its place.
\<close>

theorem restarted_session_loses_its_output:
  assumes "r_channels st \<noteq> []" "workerOf s st < length (r_batches st)"
    and "r_channels st ! workerOf s st = []" "r_batches st ! workerOf s st = []"
    and "\<forall>i \<in> {1..length cs}. (s, i) \<in> rowKey ` set (r_outputs st)" "length cs \<le> 1024"
  shows "let st0 = cleanupSequence s st; st1 = fold (storeChunk env s) cs st0;
             st2 = fold (persistWorker (workerOf s st)) (replicate (length cs) WJob @ [WTick]) st1
         in r_outputs st2 = r_outputs st \<and> r_persistDrops st2 = r_persistDrops st"
proof -
  let ?w = "workerOf s st" and ?jobs = "chunkJobs s 0 cs"
  define st0 where "st0 = cleanupSequence s st"
  define st1 where "st1 = fold (storeChunk env s) cs st0"
  have st0: "workerOf s st0 = ?w" "r_channels st0 = r_channels st" "r_batches st0 = r_batches st" "r_outputs st0 = r_outputs st"
    "r_persistDrops st0 = r_persistDrops st" "lastSequence s st0 = 0"
    by (simp_all add: st0_def cleanupSequence_def workerOf_def lastSequence_def CleanupSequence_def delete_conv')
  have "length (r_channels st0 ! workerOf s st0) + length cs \<le> 1024" "r_channels st0 \<noteq> []" using assms(1,3,6) st0 by simp_all
  from storeChunks_effect [OF this, of env]
  have st1: "st1 = st0\<lparr>r_hub := r_hub st1, r_channels := (r_channels st)[?w := ?jobs]\<rparr>"
    unfolding st1_def by (simp add: st0 assms(3))
  have w: "?w < length (r_channels st)" using assms(1) by (simp add: workerOf_def)
  have q: "?w < length (r_channels st1)" "?w < length (r_batches st1)" "r_batches st1 ! ?w = []" "r_channels st1 ! ?w = ?jobs"
    using w assms(2,4) st0 by (subst st1, simp)+
  obtain gs where gs: "concat gs = ?jobs" and st2: "fold (persistWorker ?w) (replicate (length ?jobs) WJob @ [WTick]) st1
      = (fold execBatch gs st1)\<lparr>r_channels := (r_channels st1)[?w := []], r_batches := (r_batches st1)[?w := []]\<rparr>"
    using drain_effect [OF q] by blast
  have old: "r_outputs st1 = r_outputs st" "r_persistDrops st1 = r_persistDrops st" using st0 by (subst st1, simp)+
  have "jobKey ` set (concat gs) \<subseteq> rowKey ` set (r_outputs st1)"
    using assms(5) unfolding gs old by (auto simp: chunkJobs_map jobKey_def chunkJob_def)
  from execBatches_taken [OF this] have "r_outputs (fold execBatch gs st1) = r_outputs st" by (simp add: old)
  moreover have "r_persistDrops (fold execBatch hs v) = r_persistDrops v" for hs and v :: "'a relay"
    by (induction hs arbitrary: v) (simp_all add: execBatch_def Let_def)
  ultimately show ?thesis using st2 old unfolding st0_def [symmetric] st1_def [symmetric] Let_def by simp
qed

section \<open>A concrete relay\<close>

text \<open>A limiter that always allows, a decoder that takes the whole body, no proxies; four workers and one known session.\<close>

definition sampleEnv :: "unit env" where
  "sampleEnv = \<lparr>NewLimiter = \<lambda>_ _. (), Allow = \<lambda>_ l. (True, l), decodeContent = Some, decodeStatus = Some,
     decodeTyped = \<lambda>_. Some (''status'', ''running''), ParseIP = \<lambda>_. None, reads = \<lambda>_. 0, relaySecret = ''key'', allowedOrigins = [],
     requireOriginChk = True, trustedProxy = [], trustedProxyNet = None\<rparr>"

definition sampleID :: string where
  "sampleID = ''abcdefghijklmnopqrst''"

definition sampleRelay :: "outputRow list \<Rightarrow> unit relay" where
  "sampleRelay rows = \<lparr>r_hub = NewHub 10, r_channels = replicate 4 [], r_batches = replicate 4 [], r_persistDrops = 0, r_timers = [],
     r_http = [], r_ws = [], r_status = [], r_clock = 5000000, r_outputs = rows, r_sessionIDs = [sampleID], r_faults = []\<rparr>"

lemma sampleRelay_idle:
  "r_channels (sampleRelay rows) \<noteq> []" "workerOf sampleID (sampleRelay rows) < length (r_batches (sampleRelay rows))"
  "r_channels (sampleRelay rows) ! workerOf sampleID (sampleRelay rows) = []" "r_batches (sampleRelay rows) ! workerOf sampleID (sampleRelay rows) = []"
  "r_faults (sampleRelay rows) = []" "sampleID \<in> set (r_sessionIDs (sampleRelay rows))" "lastSequence sampleID (sampleRelay rows) = 0"
  by (simp_all add: sampleRelay_def workerOf_def lastSequence_def NewHub_def)

lemma storableText_hello: "storableText ''hello''" "storableText ''world''"
  by code_simp+


definition firstRun :: "outputRow list" where
  "firstRun = [\<lparr>y_SessionID = sampleID, y_Sequence = 1, y_Content = ''old'', y_CreatedAt = 1\<rparr>]"

theorem restarted_session_loses_its_output_witness:
  "\<exists>st2. st2 = fold (persistWorker (workerOf sampleID (sampleRelay firstRun))) (replicate 1 WJob @ [WTick])
       (fold (storeChunk sampleEnv sampleID) [''new''] (cleanupSequence sampleID (sampleRelay firstRun)))
     \<and> r_outputs st2 = firstRun"
proof -
  have "\<forall>i \<in> {1..length [''new'']}. (sampleID, i) \<in> rowKey ` set (r_outputs (sampleRelay firstRun))"
    by (simp add: sampleRelay_def firstRun_def rowKey_def)
  from restarted_session_loses_its_output [OF sampleRelay_idle(1-4) this, of sampleEnv] show ?thesis
    by (simp add: Let_def sampleRelay_def)
qed

theorem persist_worker_drains_its_queue_witness:
  "\<exists>st gs. r_channels st = [[chunkJob ''s'' 1 ''x'', chunkJob ''s'' 2 ''y'']] \<and> concat gs = [chunkJob ''s'' 1 ''x'', chunkJob ''s'' 2 ''y'']
     \<and> fold (persistWorker 0) ([WTick, WJob, WTick, WJob] @ [WTick]) st
       = (fold execBatch gs (st :: unit relay))\<lparr>r_channels := [[]], r_batches := [[]]\<rparr>"
proof -
  let ?st = "(sampleRelay [])\<lparr>r_channels := [[chunkJob ''s'' 1 ''x'', chunkJob ''s'' 2 ''y'']], r_batches := [[]]\<rparr>"
  have "0 < length (r_channels ?st)" "0 < length (r_batches ?st)" "WDone \<notin> set [WTick, WJob, WTick, WJob]"
    "length (r_channels ?st ! 0) \<le> length (filter ((=) WJob) [WTick, WJob, WTick, WJob])"
    by simp_all
  from persist_worker_drains_its_queue [OF this] obtain gs where
    "concat gs = [chunkJob ''s'' 1 ''x'', chunkJob ''s'' 2 ''y'']"
    "fold (persistWorker 0) ([WTick, WJob, WTick, WJob] @ [WTick]) ?st = (fold execBatch gs ?st)\<lparr>r_channels := [[]], r_batches := [[]]\<rparr>"
    by auto
  then show ?thesis by (intro exI [of _ ?st] exI [of _ gs]) simp
qed

section \<open>Further facts\<close>

text \<open>The worker index is always in range, although the hash wraps around.\<close>

lemma enqueue_index_in_range: "0 < n \<Longrightarrow> hashSessionID s mod n < n \<and> hashSessionID s < 2 ^ 32"
proof -
  have "unat w < 2 ^ 32" for w :: "32 word" by (rule order_less_le_trans [OF unsigned_less]) simp
  then show "0 < n \<Longrightarrow> hashSessionID s mod n < n \<and> hashSessionID s < 2 ^ 32" by (simp add: hashSessionID_def)
qed

text \<open>The statement for \<open>n\<close> rows has as many placeholders as \<open>flushBatch\<close> passes arguments.\<close>

definition placeholders :: "string \<Rightarrow> nat" where
  "placeholders q = length (filter ((=) (CHR ''$'')) q)"

lemma placeholders_simps [simp]:
  "placeholders (u @ v) = placeholders u + placeholders v" "placeholders [] = 0"
  "placeholders (c # cs) = (if c = CHR ''$'' then 1 else 0) + placeholders cs"
  by (simp_all add: placeholders_def)

lemma placeholders_Itoa [simp]: "placeholders (Itoa n) = 0"
  using Itoa_digits [of "CHR ''$''" n] by (auto simp: placeholders_def filter_empty_conv)

lemma batch_query_arity: "placeholders (buildBatchQuery n) = 3 * n"
proof -
  have "placeholders (batchRows i n) = 3 * n" for i
    by (induction n arbitrary: i) auto
  then show ?thesis by (simp add: buildBatchQuery_def)
qed

text \<open>
  One bad job sinks its whole batch: a chunk for a session that does not exist, or with a NUL byte,
  makes the statement fail, and the up to 49 chunks of other sessions beside it are lost with it.
\<close>

lemma bad_job_sinks_its_batch:
  "job \<in> set batch \<Longrightarrow> rejects (r_sessionIDs st) (r_outputs st) job \<Longrightarrow> r_outputs (execBatch batch st) = r_outputs st"
  by (auto simp: execBatch_def Let_def list_ex_iff)

text \<open>
  Data on an ingest connection does not put off the inactivity timer, only a status does: ten minutes
  after its last status a session is closed while its output is still streaming in.
\<close>

lemma storeChunk_timers: "r_timers (storeChunk env s c st) = r_timers st" "r_clock (storeChunk env s c st) = r_clock st"
  by (simp_all add: storeChunk_def publishChunk_def enqueuePersist_def Let_def split: prod.splits)

lemma ingest_data_does_not_reset_timer:
  assumes "map_of (r_timers st) s = Some t" "t \<le> now"
  shows "let st1 = (fold (storeChunk env s) cs st)\<lparr>r_clock := now\<rparr>
         in autoClose env s st1 = publishEnd env s (st1\<lparr>r_timers := AList.delete s (r_timers st1)\<rparr>)"
proof -
  have "r_timers (fold (storeChunk env s) cs st) = r_timers st"
    by (induction cs arbitrary: st) (simp_all add: storeChunk_timers)
  with assms show ?thesis by (simp add: autoClose_def Let_def)
qed

text \<open>Without the secret no handler of the relay changes anything.\<close>

lemma unauthenticated_requests_are_refused:
  assumes "q_Secret r \<noteq> relaySecret env"
  shows "handleChunk env r st = (forbidden, st)" "handleStatus env r st = (forbidden, st)"
    "handleEnd env r st = (forbidden, st)" "handleIngest env up r st = (Inl forbidden, st)"
  using assms by (simp_all add: handleChunk_def handleStatus_def handleEnd_def handleIngest_def authenticateRelay_def)

text \<open>An address taken from \<open>X-Forwarded-For\<close> is one the header names and is not a private one.\<close>

lemma extractIP_from_header:
  assumes "lastPublic env xff = Some c"
  shows "c \<in> TrimSpace ` set (Split xff (CHR '',''))" "\<exists>ip. ParseIP env c = Some ip \<and> \<not> isPrivateIP ip"
proof -
  from find_Some_iff_mem [OF assms [unfolded lastPublic_def]]
  have c: "c \<in> set (map TrimSpace (rev (Split xff (CHR '',''))))" "case ParseIP env c of None \<Rightarrow> False | Some ip \<Rightarrow> \<not> isPrivateIP ip"
    by auto
  show "c \<in> TrimSpace ` set (Split xff (CHR '',''))" using c(1) by simp
  show "\<exists>ip. ParseIP env c = Some ip \<and> \<not> isPrivateIP ip" using c(2) by (cases "ParseIP env c") auto
qed

end
