(* ===== verification/Webhooks.thy ===== *)
theory Webhooks
  imports Pipelines Relay
begin

text \<open>
  The webhook router (\<open>webhook-router/main.go\<close>, \<open>store.go\<close>): the limits on requests, the check of signatures, the choice of the agent that works for a
  repository, and the handling of the four kinds of GitHub events. HMAC is modelled in full over the SHA-256 parameter of \<open>Crypto\<close>. Parameters are the
  decoding of JSON texts, the folding of letter case, the answers of the two services behind the router, and
  the reading of an array literal by PostgreSQL. A decoded JSON object is a list of keys and values.
\<close>

section \<open>Rate limits\<close>

definition rateLimitWindowMS :: int where "rateLimitWindowMS = 60 * 1000"
definition rateLimitMaxPerIP :: nat where "rateLimitMaxPerIP = 15"
definition rateLimitMaxGlobal :: nat where "rateLimitMaxGlobal = 300"
definition cleanupIntervalMS :: int where "cleanupIntervalMS = 60 * 1000"
definition maxRequestBodySize :: nat where "maxRequestBodySize = 1 * 1024 * 1024"

record rateLimits =
  rl_map :: "(string \<times> int list) list"
  rl_lastCleanup :: int
  rl_globalCount :: nat
  rl_globalStart :: int
  rl_cleanups :: "int list" \<comment> \<open>goroutines of \<open>cleanupRateLimits\<close> that have not run yet\<close>

definition timestamps :: "string \<Rightarrow> rateLimits \<Rightarrow> int list" where
  "timestamps ip rl = (case map_of (rl_map rl) ip of None \<Rightarrow> [] | Some ts \<Rightarrow> ts)"

definition checkRateLimit :: "int \<Rightarrow> string \<Rightarrow> rateLimits \<Rightarrow> bool \<times> rateLimits" where
  "checkRateLimit now ip rl =
     (let windowStart = now - rateLimitWindowMS;
          rl1 = (if now - rl_globalStart rl > rateLimitWindowMS then rl\<lparr>rl_globalCount := 0, rl_globalStart := now\<rparr> else rl)
      in if rl_globalCount rl1 \<ge> rateLimitMaxGlobal then (False, rl1)
         else
           let recent = filter (\<lambda>ts. ts > windowStart) (timestamps ip rl1);
               rl2 = rl1\<lparr>rl_map := AList.update ip recent (rl_map rl1)\<rparr>
           in if length recent \<ge> rateLimitMaxPerIP then (False, rl2)
              else
                let rl3 = rl2\<lparr>rl_map := AList.update ip (recent @ [now]) (rl_map rl2), rl_globalCount := rl_globalCount rl2 + 1\<rparr>
                in (True, if now - rl_lastCleanup rl3 > cleanupIntervalMS
                          then rl3\<lparr>rl_lastCleanup := now, rl_cleanups := rl_cleanups rl3 @ [windowStart]\<rparr> else rl3))"

text \<open>
  A limiter is looked at under its lock and removed from the map after the lock is released; \<open>cleanupRateLimits\<close> is both parts with nothing between them.
\<close>

definition cleanupScan :: "int \<Rightarrow> rateLimits \<Rightarrow> string list" where
  "cleanupScan windowStart rl = map fst (filter (\<lambda>(_, ts). list_all (\<lambda>t. \<not> t > windowStart) ts) (rl_map rl))"

definition cleanupDelete :: "string list \<Rightarrow> rateLimits \<Rightarrow> rateLimits" where
  "cleanupDelete ips rl = rl\<lparr>rl_map := filter (\<lambda>(ip, _). ip \<notin> set ips) (rl_map rl)\<rparr>"

definition cleanupRateLimits :: "int \<Rightarrow> rateLimits \<Rightarrow> rateLimits" where
  "cleanupRateLimits windowStart rl = cleanupDelete (cleanupScan windowStart rl) rl"

section \<open>Signatures\<close>

definition hmacKey :: "primitives \<Rightarrow> string \<Rightarrow> string" where
  "hmacKey P secret = (let k = (if length secret > 64 then pr_sha256 P secret else secret) in k @ replicate (64 - length k) (CHR 0x00))"

definition hmacSHA256 :: "primitives \<Rightarrow> string \<Rightarrow> string \<Rightarrow> string" where
  "hmacSHA256 P secret payload =
     (let k = hmacKey P secret in
      pr_sha256 P (xorBytes (replicate 64 (CHR 0x5C)) k @ pr_sha256 P (xorBytes (replicate 64 (CHR 0x36)) k @ payload)))"

definition verifyHMACSignature :: "primitives \<Rightarrow> string \<Rightarrow> string \<Rightarrow> string \<Rightarrow> bool" where
  "verifyHMACSignature P payload signature secret =
     (if \<not> HasPrefix signature ''sha256='' then False
      else case hexDecode (drop (length ''sha256='') signature) of
             Inl _ \<Rightarrow> False
           | Inr expectedMAC \<Rightarrow> expectedMAC = hmacSHA256 P secret payload)"

section \<open>The context of a repository\<close>

datatype jval = JNull | JBool bool | JNum rat | JStr string | JArr "jval list" | JObj "(string \<times> jval) list"


record webhookContext =
  wc_UserID :: string
  wc_AgentID :: string
  wc_AgentName :: string
  wc_AgentRole :: string
  wc_Personality :: string
  wc_GithubToken :: string
  wc_APIKeyID :: string
  wc_Provider :: string
  wc_EncryptedKey :: string
  wc_BaseURL :: string
  wc_ModelID :: string
  wc_WebhookSecret :: string
  wc_IssueLabel :: string

record routePayload =
  rp_UserID :: string
  rp_AgentID :: string
  rp_AgentName :: string
  rp_AgentRole :: string
  rp_Personality :: string
  rp_GithubToken :: string
  rp_Provider :: string
  rp_APIKey :: string
  rp_BaseURL :: string
  rp_ModelID :: string

record reviewRequest =
  rv_route :: routePayload
  rv_Repo :: string
  rv_PRNumber :: int
  rv_PRTitle :: string
  rv_PRBody :: string
  rv_Action :: string

record diagnosisRequest =
  dg_route :: routePayload
  dg_Repo :: string
  dg_PRNumber :: int
  dg_CommitSHA :: string
  dg_WorkflowName :: string
  dg_RunID :: int

datatype forward = ReviewForward string string reviewRequest | DiagnosisForward string string diagnosisRequest

record routerEnv =
  ro_prims :: primitives
  ro_encryptionKey :: string
  ro_prReviewServiceURL :: string
  ro_ciDiagnosisServiceURL :: string
  ro_decode :: "string \<Rightarrow> (string \<times> jval) list option"
  ro_scopeRepos :: "string \<Rightarrow> string list option" \<comment> \<open>the repositories of a scope that decodes\<close>
  ro_equalFold :: "string \<Rightarrow> string \<Rightarrow> bool"
  ro_textArray :: "string \<Rightarrow> string list option" \<comment> \<open>PostgreSQL's reading of an array literal\<close>
  ro_service :: "forward \<Rightarrow> (nat \<times> string) result"

record routerState =
  ro_db :: db
  ro_keys :: routerCache
  ro_limits :: rateLimits
  ro_forwarding :: "forward list" \<comment> \<open>the goroutines in the worker pool\<close>

text \<open>The rows of the join: every agent of a connection in the order of creation, or none, each with the oldest key.\<close>

definition contextRows :: "string \<Rightarrow> db \<Rightarrow> (GithubConnection \<times> Agent option \<times> ApiKey option) list" where
  "contextRows repo d =
     concat (map (\<lambda>gc.
       let agents = sort_key a_CreatedAt (filter (\<lambda>a. a_UserID a = gh_UserID gc) (db_agents d));
           key = (case sort_key ak_CreatedAt (filter (\<lambda>k. ak_UserID k = gh_UserID gc) (db_apiKeys d)) of [] \<Rightarrow> None | k # _ \<Rightarrow> Some k)
       in if agents = [] then [(gc, None, key)] else map (\<lambda>a. (gc, Some a, key)) agents)
       (filter (\<lambda>gc. repo \<in> set (gh_Repos gc) \<and> gh_WebhookSecret gc \<noteq> None) (db_github d)))"

text \<open>The loop over the agents: the first one, unless a later one has the repository in its scope.\<close>

fun selectAgent :: "routerEnv \<Rightarrow> string \<Rightarrow> Agent option \<Rightarrow> Agent list \<Rightarrow> Agent option" where
  "selectAgent env repo sel [] = sel"
| "selectAgent env repo sel (a # as) =
     (let sel1 = (case sel of None \<Rightarrow> Some a | Some s \<Rightarrow> Some s);
          repos = (case ro_scopeRepos env (a_ScopeConfig a) of None \<Rightarrow> [] | Some rs \<Rightarrow> rs)
      in selectAgent env repo (if list_ex (\<lambda>r. ro_equalFold env r repo) repos then Some a else sel1) as)"

text \<open>
  The variables of the scan loop: the connection of the last row, all agents, and the first key. The query and a scan can fail; the
  loop does not ask \<open>rows.Err()\<close>, so an error of the iteration only ends the rows, here before the first one.
\<close>

definition readContextRows :: "string \<Rightarrow> db \<Rightarrow> (GithubConnection \<times> Agent option \<times> ApiKey option) list result \<times> db" where
  "readContextRows repo d =
     (case statement d of
        (Some e, d1) \<Rightarrow> (Inl (''query webhook context: '' @ e), d1)
      | (None, d1) \<Rightarrow>
          (case (if contextRows repo d1 = [] then (None, d1) else statement d1) of
             (Some e, d2) \<Rightarrow> (Inl (''scan webhook context: '' @ e), d2)
           | (None, d2) \<Rightarrow>
               (case statement d2 of (Some _, d3) \<Rightarrow> (Inr [], d3) | (None, d3) \<Rightarrow> (Inr (contextRows repo d1), d3))))"

definition contextOf :: "routerEnv \<Rightarrow> string \<Rightarrow> (GithubConnection \<times> Agent option \<times> ApiKey option) list \<Rightarrow> string + webhookContext" where
  "contextOf env repo rows =
     (if rows = [] then Inl ''no matching github connection''
      else
        let conn = fst (last rows);
            agents = List.map_filter (\<lambda>(_, a, _). a) rows;
            keys = List.map_filter (\<lambda>(_, _, k). k) rows
        in case agents of
             [] \<Rightarrow> Inl ''no agent configured''
           | _ # _ \<Rightarrow>
               (case keys of
                  [] \<Rightarrow> Inl ''no API key configured''
                | k # _ \<Rightarrow>
                    let a = (case selectAgent env repo None agents of Some a \<Rightarrow> a | None \<Rightarrow> hd agents) in
                    Inr \<lparr>wc_UserID = gh_UserID conn, wc_AgentID = a_ID a, wc_AgentName = a_Name a, wc_AgentRole = a_Role a,
                         wc_Personality = a_Personality a, wc_GithubToken = gh_GithubToken conn, wc_APIKeyID = ak_ID k,
                         wc_Provider = providerName (ak_Provider k), wc_EncryptedKey = ak_APIKey k, wc_BaseURL = optStr (ak_BaseURL k),
                         wc_ModelID = optStr (ak_ModelID k), wc_WebhookSecret = optStr (gh_WebhookSecret conn),
                         wc_IssueLabel = (case gh_IssueLabel conn of None \<Rightarrow> ''shipmates'' | Some l \<Rightarrow> if l \<noteq> [] then l else ''shipmates'')\<rparr>))"

text \<open>\<open>Inl\<close> is an error of the database; the inner sum is the reason that there is no context, or the context.\<close>

definition resolveWebhookContext :: "routerEnv \<Rightarrow> string \<Rightarrow> db \<Rightarrow> (string + webhookContext) result \<times> db" where
  "resolveWebhookContext env repo d =
     (case readContextRows repo d of
        (Inl e, d1) \<Rightarrow> (Inl e, d1)
      | (Inr rows, d1) \<Rightarrow> (Inr (contextOf env repo rows), d1))"

definition buildRoutePayload :: "routerEnv \<Rightarrow> webhookContext \<Rightarrow> routerCache \<Rightarrow> routePayload result \<times> routerCache" where
  "buildRoutePayload env ctx keys =
     (case decryptAES256GCM (ro_prims env) (wc_GithubToken ctx) (ro_encryptionKey env) keys of
        (Inl e, keys1) \<Rightarrow> (Inl (''decrypt github token: '' @ e), keys1)
      | (Inr githubToken, keys1) \<Rightarrow>
          (case decryptAES256GCM (ro_prims env) (wc_EncryptedKey ctx) (ro_encryptionKey env) keys1 of
             (Inl e, keys2) \<Rightarrow> (Inl (''decrypt api key: '' @ e), keys2)
           | (Inr apiKey, keys2) \<Rightarrow>
               (Inr \<lparr>rp_UserID = wc_UserID ctx, rp_AgentID = wc_AgentID ctx, rp_AgentName = wc_AgentName ctx, rp_AgentRole = wc_AgentRole ctx,
                     rp_Personality = wc_Personality ctx, rp_GithubToken = githubToken, rp_Provider = wc_Provider ctx, rp_APIKey = apiKey,
                     rp_BaseURL = wc_BaseURL ctx, rp_ModelID = wc_ModelID ctx\<rparr>, keys2)))"

section \<open>Events\<close>

datatype routerBody = ErrorBody string | FlagBody string

type_synonym routerResponse = "nat \<times> routerBody"

definition writeError :: "nat \<Rightarrow> string \<Rightarrow> routerResponse" where "writeError status message = (status, ErrorBody message)"
definition ignored :: routerResponse where "ignored = (200, FlagBody ''ignored'')"
definition forwarded :: routerResponse where "forwarded = (202, FlagBody ''forwarded'')"
definition queued :: routerResponse where "queued = (200, FlagBody ''queued'')"

definition strField :: "string \<Rightarrow> (string \<times> jval) list \<Rightarrow> string" where
  "strField k ob = (case map_of ob k of Some (JStr s) \<Rightarrow> s | _ \<Rightarrow> [])"

definition objField :: "string \<Rightarrow> (string \<times> jval) list \<Rightarrow> (string \<times> jval) list option" where
  "objField k ob = (case map_of ob k of Some (JObj x) \<Rightarrow> Some x | _ \<Rightarrow> None)"

text \<open>\<open>int(f)\<close> of a float64 cuts off the fraction.\<close>

definition truncateNum :: "rat \<Rightarrow> int" where
  "truncateNum r = (if r < 0 then - floor (- r) else floor r)"

definition numField :: "string \<Rightarrow> (string \<times> jval) list \<Rightarrow> int" where
  "numField k ob = (case map_of ob k of Some (JNum r) \<Rightarrow> truncateNum r | _ \<Rightarrow> 0)"

definition firstPullRequest :: "(string \<times> jval) list \<Rightarrow> int" where
  "firstPullRequest ob = (case map_of ob ''pull_requests'' of Some (JArr (JObj pr # _)) \<Rightarrow> numField ''number'' pr | _ \<Rightarrow> 0)"

definition boundedForward :: "forward \<Rightarrow> routerState \<Rightarrow> routerState" where
  "boundedForward f st = (if length (ro_forwarding st) < 50 then st\<lparr>ro_forwarding := ro_forwarding st @ [f]\<rparr> else st)"

text \<open>The end of the goroutine at position \<open>i\<close>; an error is only printed.\<close>

definition forwardToService :: "routerEnv \<Rightarrow> forward \<Rightarrow> unit result" where
  "forwardToService env f =
     (case ro_service env f of
        Inl e \<Rightarrow> Inl (''forward request: '' @ e)
      | Inr (status, body) \<Rightarrow> if status \<ge> 400 then Inl (''service returned '' @ Itoa status @ '': '' @ take 4096 body) else Inr ())"

definition forwardDone :: "nat \<Rightarrow> routerState \<Rightarrow> routerState" where
  "forwardDone i st = st\<lparr>ro_forwarding := take i (ro_forwarding st) @ drop (Suc i) (ro_forwarding st)\<rparr>"

definition forwardWith :: "routerEnv \<Rightarrow> webhookContext \<Rightarrow> (routePayload \<Rightarrow> forward) \<Rightarrow> routerState \<Rightarrow> routerResponse \<times> routerState" where
  "forwardWith env ctx mk st =
     (case buildRoutePayload env ctx (ro_keys st) of
        (Inl _, keys) \<Rightarrow> (writeError 500 ''failed to decrypt credentials'', st\<lparr>ro_keys := keys\<rparr>)
      | (Inr route, keys) \<Rightarrow> (forwarded, boundedForward (mk route) (st\<lparr>ro_keys := keys\<rparr>)))"

definition handlePullRequest :: "routerEnv \<Rightarrow> (string \<times> jval) list \<Rightarrow> webhookContext \<Rightarrow> routerState \<Rightarrow> routerResponse \<times> routerState" where
  "handlePullRequest env payload ctx st =
     (let action = strField ''action'' payload in
      if action \<noteq> ''opened'' \<and> action \<noteq> ''synchronize'' then (ignored, st)
      else case objField ''pull_request'' payload of
        None \<Rightarrow> (writeError 400 ''missing pull_request data'', st)
      | Some pr \<Rightarrow>
          let repo = (case objField ''repository'' payload of None \<Rightarrow> [] | Some r \<Rightarrow> strField ''full_name'' r) in
          forwardWith env ctx (\<lambda>route. ReviewForward (ro_prReviewServiceURL env) ''/reviews''
            \<lparr>rv_route = route, rv_Repo = repo, rv_PRNumber = numField ''number'' pr, rv_PRTitle = strField ''title'' pr,
             rv_PRBody = strField ''body'' pr, rv_Action = action\<rparr>) st)"

definition handleCheckSuite :: "routerEnv \<Rightarrow> (string \<times> jval) list \<Rightarrow> webhookContext \<Rightarrow> string \<Rightarrow> routerState \<Rightarrow> routerResponse \<times> routerState" where
  "handleCheckSuite env payload ctx repo st =
     (if strField ''action'' payload \<noteq> ''completed'' then (ignored, st)
      else case objField ''check_suite'' payload of
        None \<Rightarrow> (ignored, st)
      | Some suite \<Rightarrow>
          if strField ''conclusion'' suite \<noteq> ''failure'' then (ignored, st)
          else forwardWith env ctx (\<lambda>route. DiagnosisForward (ro_ciDiagnosisServiceURL env) ''/diagnoses''
            \<lparr>dg_route = route, dg_Repo = repo, dg_PRNumber = firstPullRequest suite, dg_CommitSHA = strField ''head_sha'' suite,
             dg_WorkflowName = ''check_suite'', dg_RunID = 0\<rparr>) st)"

definition handleCheckRun :: "routerEnv \<Rightarrow> (string \<times> jval) list \<Rightarrow> webhookContext \<Rightarrow> string \<Rightarrow> routerState \<Rightarrow> routerResponse \<times> routerState" where
  "handleCheckRun env payload ctx repo st =
     (if strField ''action'' payload \<noteq> ''completed'' then (ignored, st)
      else case objField ''check_run'' payload of
        None \<Rightarrow> (ignored, st)
      | Some run \<Rightarrow>
          if strField ''conclusion'' run \<noteq> ''failure'' then (ignored, st)
          else forwardWith env ctx (\<lambda>route. DiagnosisForward (ro_ciDiagnosisServiceURL env) ''/diagnoses''
            \<lparr>dg_route = route, dg_Repo = repo,
             dg_PRNumber = (case objField ''check_suite'' run of None \<Rightarrow> 0 | Some suite \<Rightarrow> firstPullRequest suite),
             dg_CommitSHA = strField ''head_sha'' run, dg_WorkflowName = strField ''name'' run, dg_RunID = 0\<rparr>) st)"

definition labelNames :: "(string \<times> jval) list \<Rightarrow> string list" where
  "labelNames issue =
     (case map_of issue ''labels'' of
        Some (JArr ls) \<Rightarrow> List.map_filter (\<lambda>l. case l of JObj ob \<Rightarrow> (case map_of ob ''name'' of Some (JStr s) \<Rightarrow> Some s | _ \<Rightarrow> None) | _ \<Rightarrow> None) ls
      | _ \<Rightarrow> [])"

definition shouldQueue :: "(string \<times> jval) list \<Rightarrow> string list \<Rightarrow> string \<Rightarrow> bool" where
  "shouldQueue payload labels issueLabel =
     (if strField ''action'' payload = ''labeled'' then
        (case objField ''label'' payload of None \<Rightarrow> False | Some l \<Rightarrow> map_of l ''name'' = Some (JStr issueLabel))
      else if strField ''action'' payload = ''opened'' then issueLabel \<in> set labels
      else False)"

text \<open>\<open>json.Marshal\<close> of a slice of strings; the slice without elements is nil.\<close>

definition marshalLabels :: "string list \<Rightarrow> string" where
  "marshalLabels labels = (if labels = [] then ''null'' else ''['' @ Join (map jsonString labels) '','' @ '']'')"

text \<open>The id of the row is a new UUID of the server; the literal has to be one that PostgreSQL reads as an array of texts.\<close>

definition createIssuePipeline ::
    "routerEnv \<Rightarrow> string \<Rightarrow> string \<Rightarrow> string \<Rightarrow> string \<Rightarrow> int \<Rightarrow> string \<Rightarrow> string \<Rightarrow> string list \<Rightarrow> db \<Rightarrow> unit result \<times> db" where
  "createIssuePipeline env uuid userID agentID repo issueNumber issueTitle issueBody labels d =
     (let (now, d1) = timeNow d;
          row = \<lparr>ip_ID = uuid, ip_UserID = userID, ip_AgentID = agentID, ip_Repo = repo, ip_IssueNumber = issueNumber, ip_IssueTitle = issueTitle,
                 ip_IssueBody = take 10000 issueBody, ip_IssueLabels = (case ro_textArray env (marshalLabels labels) of None \<Rightarrow> [] | Some ls \<Rightarrow> ls), ip_Status = ''pending'',
                 ip_PrNumber = None, ip_PrURL = None, ip_BranchName = None, ip_ErrorMessage = None, ip_SessionID = None, ip_StartedAt = None,
                 ip_FinishedAt = None, ip_CreatedAt = now, ip_UpdatedAt = now\<rparr>
      in execChecked ''insert issue pipeline''
           (\<lambda>d. case ro_textArray env (marshalLabels labels) of
                  None \<Rightarrow> Some (''pq: malformed array literal: '' @ [CHR 0x22] @ marshalLabels labels @ [CHR 0x22])
                | Some _ \<Rightarrow> insertPipelineError row d)
           (\<lambda>d. d\<lparr>db_pipelines := db_pipelines d @ [row]\<rparr>) d1)"

definition handleIssues :: "routerEnv \<Rightarrow> string \<Rightarrow> (string \<times> jval) list \<Rightarrow> webhookContext \<Rightarrow> string \<Rightarrow> routerState \<Rightarrow> routerResponse \<times> routerState" where
  "handleIssues env uuid payload ctx repo st =
     (case objField ''issue'' payload of
        None \<Rightarrow> (writeError 400 ''missing issue data'', st)
      | Some issue \<Rightarrow>
          let labels = labelNames issue in
          if \<not> shouldQueue payload labels (wc_IssueLabel ctx) then (ignored, st)
          else
            (case createIssuePipeline env uuid (wc_UserID ctx) (wc_AgentID ctx) repo (numField ''number'' issue) (strField ''title'' issue)
                    (strField ''body'' issue) labels (ro_db st) of
               (Inl _, d) \<Rightarrow> (writeError 500 ''failed to queue issue'', st\<lparr>ro_db := d\<rparr>)
             | (Inr _, d) \<Rightarrow> (queued, st\<lparr>ro_db := d\<rparr>)))"

record webhookRequest =
  hq_UserAgent :: string
  hq_ForwardedFor :: string
  hq_RemoteAddr :: string
  hq_Event :: string
  hq_Signature :: string
  hq_Body :: string
  hq_ReadFails :: bool

definition clientIP :: "webhookRequest \<Rightarrow> string" where
  "clientIP r =
     (if hq_ForwardedFor r \<noteq> [] then TrimSpace (hd (Split (hq_ForwardedFor r) (CHR '','')))
      else case SplitHost (hq_RemoteAddr r) of Some host \<Rightarrow> host | None \<Rightarrow> ''unknown'')"

definition dispatch :: "routerEnv \<Rightarrow> string \<Rightarrow> string \<Rightarrow> (string \<times> jval) list \<Rightarrow> webhookContext \<Rightarrow> string \<Rightarrow> routerState \<Rightarrow> routerResponse \<times> routerState" where
  "dispatch env uuid event payload ctx repo st =
     (if event = ''pull_request'' then handlePullRequest env payload ctx st
      else if event = ''check_suite'' then handleCheckSuite env payload ctx repo st
      else if event = ''check_run'' then handleCheckRun env payload ctx repo st
      else if event = ''issues'' then handleIssues env uuid payload ctx repo st
      else (ignored, st))"

text \<open>From the decoded payload on: the context, the signature, the handler of the event.\<close>

definition routeEvent :: "routerEnv \<Rightarrow> string \<Rightarrow> webhookRequest \<Rightarrow> (string \<times> jval) list \<Rightarrow> routerState \<Rightarrow> routerResponse \<times> routerState" where
  "routeEvent env uuid r payload st =
     (let repo = (case objField ''repository'' payload of None \<Rightarrow> [] | Some ob \<Rightarrow> strField ''full_name'' ob) in
      if repo = [] then (writeError 400 ''missing repository'', st)
      else case resolveWebhookContext env repo (ro_db st) of
        (Inl _, d) \<Rightarrow> (writeError 500 ''failed to resolve webhook context'', st\<lparr>ro_db := d\<rparr>)
      | (Inr (Inl notFound), d) \<Rightarrow> (writeError 404 notFound, st\<lparr>ro_db := d\<rparr>)
      | (Inr (Inr ctx), d) \<Rightarrow>
          if \<not> verifyHMACSignature (ro_prims env) (hq_Body r) (hq_Signature r) (wc_WebhookSecret ctx)
          then (writeError 401 ''invalid signature'', st\<lparr>ro_db := d\<rparr>)
          else dispatch env uuid (hq_Event r) payload ctx repo (st\<lparr>ro_db := d\<rparr>))"

definition handleWebhook :: "routerEnv \<Rightarrow> string \<Rightarrow> webhookRequest \<Rightarrow> routerState \<Rightarrow> routerResponse \<times> routerState" where
  "handleWebhook env uuid r st =
     (if \<not> HasPrefix (hq_UserAgent r) ''GitHub-Hookshot/'' then (writeError 403 ''invalid User-Agent'', st)
      else
        let (now, d1) = timeNow (ro_db st);
            (ok, limits) = checkRateLimit (int now) (clientIP r) (ro_limits st);
            st1 = st\<lparr>ro_db := d1, ro_limits := limits\<rparr>
        in if \<not> ok then (writeError 429 ''rate limit exceeded, retry after 60 seconds'', st1)
           else if hq_ReadFails r \<or> length (hq_Body r) > maxRequestBodySize then (writeError 400 ''request body too large'', st1)
           else if hq_Event r \<notin> {''pull_request'', ''check_suite'', ''check_run'', ''issues''} then (ignored, st1)
           else case ro_decode env (hq_Body r) of
             None \<Rightarrow> (writeError 400 ''invalid JSON payload'', st1)
           | Some payload \<Rightarrow> routeEvent env uuid r payload st1)"

text \<open>\<open>handleHealth\<close>: whether the ping of the database succeeds.\<close>

definition routerHealth :: "db \<Rightarrow> (nat \<times> string) \<times> db" where
  "routerHealth d = (case statement d of (Some _, d1) \<Rightarrow> ((503, ''degraded''), d1) | (None, d1) \<Rightarrow> ((200, ''ok''), d1))"

section \<open>The limits hold\<close>

text \<open>Requests at times that do not decrease, and clean-ups at any later moment; the requests that were let through are recorded.\<close>

datatype rateOp = Request nat string | Cleanup nat

type_synonym rateRun = "int \<times> rateLimits \<times> (int \<times> string) list"

definition startLimits :: "int \<Rightarrow> rateRun" where
  "startLimits t = (t, \<lparr>rl_map = [], rl_lastCleanup = 0, rl_globalCount = 0, rl_globalStart = t, rl_cleanups = []\<rparr>, [])"

fun rateStep :: "rateRun \<Rightarrow> rateOp \<Rightarrow> rateRun" where
  "rateStep (now, rl, acc) (Request dt ip) =
     (let now1 = now + int dt; (ok, rl1) = checkRateLimit now1 ip rl in (now1, rl1, if ok then acc @ [(now1, ip)] else acc))"
| "rateStep (now, rl, acc) (Cleanup i) =
     (now, if i < length (rl_cleanups rl) then cleanupRateLimits (rl_cleanups rl ! i) rl else rl, acc)"

definition timesOf :: "string \<Rightarrow> (int \<times> string) list \<Rightarrow> int list" where
  "timesOf ip acc = map fst (filter (\<lambda>x. snd x = ip) acc)"

definition window :: "int \<Rightarrow> int list \<Rightarrow> int list" where
  "window t xs = filter (\<lambda>x. t - rateLimitWindowMS < x \<and> x \<le> t) xs"

lemma timesOf_snoc [simp]: "timesOf ip (acc @ [(t, ip')]) = timesOf ip acc @ (if ip' = ip then [t] else [])"
  by (simp add: timesOf_def)

lemma timestamps_update: "timestamps ip (rl\<lparr>rl_map := AList.update ip' v (rl_map rl)\<rparr>) = (if ip = ip' then v else timestamps ip rl)"
  by (simp add: timestamps_def update_conv')

lemma timestamps_other [simp]: "timestamps ip (rl\<lparr>rl_globalCount := c\<rparr>) = timestamps ip rl" "timestamps ip (rl\<lparr>rl_globalStart := s\<rparr>) = timestamps ip rl"
  "timestamps ip (rl\<lparr>rl_lastCleanup := l\<rparr>) = timestamps ip rl" "timestamps ip (rl\<lparr>rl_cleanups := q\<rparr>) = timestamps ip rl"
  by (simp_all add: timestamps_def)

text \<open>One call: what it does to the timestamps, the counter and the clean-ups.\<close>

lemma checkRateLimit_outcome:
  assumes "checkRateLimit now ip rl = (ok, rl')" "rl_globalCount rl \<le> rateLimitMaxGlobal"
  shows "rl_globalCount rl' \<le> rateLimitMaxGlobal" "set (rl_cleanups rl') \<subseteq> insert (now - rateLimitWindowMS) (set (rl_cleanups rl))"
    "ip' \<noteq> ip \<Longrightarrow> timestamps ip' rl' = timestamps ip' rl"
    "\<not> ok \<Longrightarrow> timestamps ip rl' = timestamps ip rl \<or> timestamps ip rl' = filter (\<lambda>t. t > now - rateLimitWindowMS) (timestamps ip rl)"
    "ok \<Longrightarrow> timestamps ip rl' = filter (\<lambda>t. t > now - rateLimitWindowMS) (timestamps ip rl) @ [now]
       \<and> length (filter (\<lambda>t. t > now - rateLimitWindowMS) (timestamps ip rl)) < rateLimitMaxPerIP"
    "distinct (map fst (rl_map rl)) \<Longrightarrow> distinct (map fst (rl_map rl'))"
proof -
  define rl1 where "rl1 = (if now - rl_globalStart rl > rateLimitWindowMS then rl\<lparr>rl_globalCount := 0, rl_globalStart := now\<rparr> else rl)"
  define recent where "recent = filter (\<lambda>t. t > now - rateLimitWindowMS) (timestamps ip rl)"
  have r1: "timestamps i rl1 = timestamps i rl" "rl_globalCount rl1 \<le> rateLimitMaxGlobal" "rl_cleanups rl1 = rl_cleanups rl" for i
    using assms(2) by (simp_all add: rl1_def)
  define rl2 where "rl2 = rl1\<lparr>rl_map := AList.update ip recent (rl_map rl1)\<rparr>"
  define rl3 where "rl3 = rl2\<lparr>rl_map := AList.update ip (recent @ [now]) (rl_map rl2), rl_globalCount := rl_globalCount rl2 + 1\<rparr>"
  define rl4 where "rl4 = (if now - rl_lastCleanup rl3 > cleanupIntervalMS
      then rl3\<lparr>rl_lastCleanup := now, rl_cleanups := rl_cleanups rl3 @ [now - rateLimitWindowMS]\<rparr> else rl3)"
  have c: "checkRateLimit now ip rl = (if rl_globalCount rl1 \<ge> rateLimitMaxGlobal then (False, rl1)
      else if length recent \<ge> rateLimitMaxPerIP then (False, rl2) else (True, rl4))"
    unfolding checkRateLimit_def rl1_def [symmetric] Let_def r1(1) recent_def [symmetric] rl2_def [symmetric] rl3_def [symmetric] rl4_def [symmetric] ..
  have t2: "timestamps i rl2 = (if i = ip then recent else timestamps i rl)" for i by (simp add: rl2_def timestamps_update r1)
  have t3: "timestamps i rl3 = (if i = ip then recent @ [now] else timestamps i rl)" for i by (simp add: rl3_def timestamps_update t2)
  have t4: "timestamps i rl4 = (if i = ip then recent @ [now] else timestamps i rl)" for i using t3 by (simp add: rl4_def)
  consider "ok = False" "rl' = rl1" | "ok = False" "rl' = rl2" | "ok = True" "rl' = rl4" "length recent < rateLimitMaxPerIP" "rl_globalCount rl1 < rateLimitMaxGlobal"
    using assms(1) unfolding c by (auto split: if_splits)
  note cs = this
  show "rl_globalCount rl' \<le> rateLimitMaxGlobal" using cs r1(2) by cases (auto simp: rl2_def rl3_def rl4_def)
  show "set (rl_cleanups rl') \<subseteq> insert (now - rateLimitWindowMS) (set (rl_cleanups rl))" using cs r1(3) by cases (auto simp: rl2_def rl3_def rl4_def)
  show "ip' \<noteq> ip \<Longrightarrow> timestamps ip' rl' = timestamps ip' rl" using cs r1(1) t2 t4 by cases auto
  show "\<not> ok \<Longrightarrow> timestamps ip rl' = timestamps ip rl \<or> timestamps ip rl' = filter (\<lambda>t. t > now - rateLimitWindowMS) (timestamps ip rl)"
    using cs r1(1) t2 by cases (auto simp: recent_def)
  show "ok \<Longrightarrow> timestamps ip rl' = filter (\<lambda>t. t > now - rateLimitWindowMS) (timestamps ip rl) @ [now]
       \<and> length (filter (\<lambda>t. t > now - rateLimitWindowMS) (timestamps ip rl)) < rateLimitMaxPerIP"
    using cs t4 by cases (auto simp: recent_def)
  show "distinct (map fst (rl_map rl)) \<Longrightarrow> distinct (map fst (rl_map rl'))"
    using cs by cases (auto simp: rl1_def rl2_def rl3_def rl4_def distinct_update)
qed

definition limitsOk :: "rateRun \<Rightarrow> bool" where
  "limitsOk = (\<lambda>(now, rl, acc). distinct (map fst (rl_map rl)) \<and> rl_globalCount rl \<le> rateLimitMaxGlobal \<and> (\<forall>w \<in> set (rl_cleanups rl). w \<le> now - rateLimitWindowMS)
     \<and> (\<forall>ip. (\<forall>x \<in> set (timesOf ip acc). x \<le> now)
         \<and> (\<forall>w \<ge> now - rateLimitWindowMS. filter (\<lambda>t. t > w) (timestamps ip rl) = filter (\<lambda>t. t > w) (timesOf ip acc))
         \<and> (\<forall>t. length (window t (timesOf ip acc)) \<le> rateLimitMaxPerIP)))"

lemma limitsOk_request:
  assumes ok: "limitsOk (now, rl, acc)" and c: "checkRateLimit now1 ip rl = (b, rl1)" and le: "now \<le> now1"
  shows "limitsOk (now1, rl1, if b then acc @ [(now1, ip)] else acc)"
proof -
  have g: "rl_globalCount rl \<le> rateLimitMaxGlobal" using ok by (simp add: limitsOk_def)
  note out = checkRateLimit_outcome [OF c g]
  have same: "filter (\<lambda>t. t > w) (timestamps i rl) = filter (\<lambda>t. t > w) (timesOf i acc)" if "w \<ge> now1 - rateLimitWindowMS" for i w
    using ok that le by (auto simp: limitsOk_def)
  have old: "x \<le> now" if "x \<in> set (timesOf i acc)" for x i using ok that by (auto simp: limitsOk_def)
  have win: "length (window t (timesOf i acc)) \<le> rateLimitMaxPerIP" for t i using ok by (simp add: limitsOk_def)
  let ?acc = "if b then acc @ [(now1, ip)] else acc"
  have ts: "filter (\<lambda>t. t > w) (timestamps i rl1) = filter (\<lambda>t. t > w) (timesOf i ?acc)" if w: "w \<ge> now1 - rateLimitWindowMS" for i w
  proof (cases "i = ip")
    case False
    then show ?thesis using out(3) [of i] same [OF w, of i] by simp
  next
    case True
    have two: "filter (\<lambda>t. t > w) (filter (\<lambda>t. t > now1 - rateLimitWindowMS) xs) = filter (\<lambda>t. t > w) xs" for xs :: "int list"
      using w by (auto intro: filter_cong)
    show ?thesis
    proof (cases b)
      case b: True
      then have e: "timestamps ip rl1 = filter (\<lambda>t. t > now1 - rateLimitWindowMS) (timestamps ip rl) @ [now1]" using out(5) by blast
      have "filter (\<lambda>t. t > w) (timestamps ip rl1) = filter (\<lambda>t. t > w) (timestamps ip rl) @ filter (\<lambda>t. t > w) [now1]"
        unfolding e filter_append two ..
      then show ?thesis using same [OF w, of ip] True b by simp
    next
      case b: False
      then show ?thesis using out(4) same [OF w, of ip] True two by auto
    qed
  qed
  have bound: "length (window t (timesOf i ?acc)) \<le> rateLimitMaxPerIP" for t i
  proof (cases "b \<and> i = ip \<and> now1 \<le> t")
    case False
    then have "window t (timesOf i ?acc) = window t (timesOf i acc)" by (auto simp: window_def)
    then show ?thesis using win by simp
  next
    case True
    have "length (filter (\<lambda>x. t - rateLimitWindowMS < x \<and> x \<le> t) xs) \<le> length (filter (\<lambda>t. t > now1 - rateLimitWindowMS) xs)" for xs :: "int list"
      using True by (induction xs) auto
    then have "length (window t (timesOf ip acc)) \<le> length (filter (\<lambda>t. t > now1 - rateLimitWindowMS) (timestamps ip rl))"
      using same [of "now1 - rateLimitWindowMS" ip] by (simp add: window_def)
    then show ?thesis using True out(5) by (simp add: window_def)
  qed
  have "x \<le> now1" if "x \<in> set (timesOf i ?acc)" for x i using that old [of x i] le by (auto split: if_splits)
  moreover have "\<forall>w \<in> set (rl_cleanups rl1). w \<le> now1 - rateLimitWindowMS" using ok out(2) le by (fastforce simp: limitsOk_def)
  moreover have "distinct (map fst (rl_map rl1))" using ok out(6) by (simp add: limitsOk_def)
  ultimately show ?thesis using out(1) ts bound by (simp add: limitsOk_def)
qed

lemma limitsOk_cleanup:
  assumes ok: "limitsOk (now, rl, acc)" and w0: "w0 \<in> set (rl_cleanups rl)"
  shows "limitsOk (now, cleanupRateLimits w0 rl, acc)"
proof -
  have le: "w0 \<le> now - rateLimitWindowMS" and d: "distinct (map fst (rl_map rl))" using assms by (auto simp: limitsOk_def)
  have t: "filter (\<lambda>t. t > w) (timestamps ip (cleanupRateLimits w0 rl)) = filter (\<lambda>t. t > w) (timestamps ip rl)" if "w \<ge> now - rateLimitWindowMS" for ip w
  proof (cases "ip \<in> set (cleanupScan w0 rl)")
    case False
    have "map_of (filter (\<lambda>(i, _). i \<notin> S) xs) ip = map_of xs ip" if "ip \<notin> S" for S and xs :: "(string \<times> int list) list"
      using that by (induction xs) auto
    then show ?thesis using False by (simp add: timestamps_def cleanupRateLimits_def cleanupDelete_def)
  next
    case True
    then obtain ts where m: "(ip, ts) \<in> set (rl_map rl)" "\<forall>t \<in> set ts. \<not> t > w0" by (auto simp: cleanupScan_def list_all_iff)
    have "map_of (filter (\<lambda>(i, _). i \<notin> S) xs) ip = None" if "ip \<in> S" for S and xs :: "(string \<times> int list) list"
      using that by (induction xs) auto
    then have e: "timestamps ip (cleanupRateLimits w0 rl) = []" using True by (simp add: timestamps_def cleanupRateLimits_def cleanupDelete_def)
    have "map_of (rl_map rl) ip = Some ts" using m(1) d by (simp add: map_of_eq_Some_iff)
    then have "filter (\<lambda>t. t > w) (timestamps ip rl) = []" using m(2) le that by (fastforce simp: timestamps_def filter_empty_conv)
    then show ?thesis using e by simp
  qed
  have f: "rl_globalCount (cleanupRateLimits w0 rl) = rl_globalCount rl" "rl_cleanups (cleanupRateLimits w0 rl) = rl_cleanups rl"
    "distinct (map fst (rl_map (cleanupRateLimits w0 rl)))"
    using d by (simp_all add: cleanupRateLimits_def cleanupDelete_def distinct_map_filter)
  show ?thesis using ok t f by (simp add: limitsOk_def)
qed

lemma limitsOk_run: "limitsOk (foldl rateStep (startLimits t) ops)"
proof (induction ops rule: rev_induct)
  case Nil
  show ?case by (simp add: limitsOk_def startLimits_def timestamps_def timesOf_def window_def)
next
  case (snoc opr ops)
  obtain now rl acc where s: "foldl rateStep (startLimits t) ops = (now, rl, acc)" by (metis prod.exhaust)
  show ?case
  proof (cases opr)
    case (Request dt ip)
    obtain b rl1 where c: "checkRateLimit (now + int dt) ip rl = (b, rl1)" by fastforce
    have "limitsOk (now, rl, acc)" using snoc s by simp
    from limitsOk_request [OF this c] show ?thesis using s Request c by (simp add: Let_def)
  next
    case (Cleanup i)
    then show ?thesis using snoc s limitsOk_cleanup [of now rl acc] by simp
  qed
qed


text \<open>A request between the two parts of a clean-up is forgotten.\<close>

lemma interrupted_cleanup_forgets:
  assumes "map_of (rl_map rl) ip = Some []" "cleanupScan w rl = [ip]" "checkRateLimit now ip rl = (True, rl1)"
  shows "timestamps ip (cleanupDelete (cleanupScan w rl) rl1) = []"
proof -
  have "map_of (filter (\<lambda>(i, _). i \<notin> {ip}) xs) ip = None" for xs :: "(string \<times> int list) list" by (induction xs) auto
  then show ?thesis by (simp add: timestamps_def cleanupDelete_def assms(2))
qed

section \<open>Signatures and contexts\<close>

text \<open>GitHub's own signature is accepted.\<close>

lemma signed_payload_verifies: "verifyHMACSignature P payload (''sha256='' @ hexEncode (hmacSHA256 P secret payload)) secret"
  by (simp add: verifyHMACSignature_def HasPrefix_def hexDecode_hexEncode)

definition connectionsOf :: "string \<Rightarrow> db \<Rightarrow> GithubConnection list" where
  "connectionsOf repo d = filter (\<lambda>gc. repo \<in> set (gh_Repos gc) \<and> gh_WebhookSecret gc \<noteq> None) (db_github d)"

lemma contextRows_parts:
  assumes "(gc, a, k) \<in> set (contextRows repo d)"
  shows "gc \<in> set (connectionsOf repo d)" "a = Some ag \<Longrightarrow> ag \<in> set (db_agents d) \<and> a_UserID ag = gh_UserID gc"
    "k = Some key \<Longrightarrow> key \<in> set (db_apiKeys d) \<and> ak_UserID key = gh_UserID gc"
proof -
  have k: "y \<in> set (db_apiKeys d) \<and> ak_UserID y = u"
    if "(case sort_key ak_CreatedAt (filter (\<lambda>k. ak_UserID k = u) (db_apiKeys d)) of [] \<Rightarrow> None | k # _ \<Rightarrow> Some k) = Some y" for u y
  proof -
    from that obtain ks where e: "sort_key ak_CreatedAt (filter (\<lambda>k. ak_UserID k = u) (db_apiKeys d)) = y # ks" by (auto split: list.splits)
    have "y \<in> set (sort_key ak_CreatedAt (filter (\<lambda>k. ak_UserID k = u) (db_apiKeys d)))" unfolding e by simp
    then show ?thesis by simp
  qed
  from assms show "gc \<in> set (connectionsOf repo d)" "a = Some ag \<Longrightarrow> ag \<in> set (db_agents d) \<and> a_UserID ag = gh_UserID gc"
    by (auto simp: contextRows_def connectionsOf_def Let_def split: if_splits)
  have "k = (case sort_key ak_CreatedAt (filter (\<lambda>k. ak_UserID k = gh_UserID gc) (db_apiKeys d)) of [] \<Rightarrow> None | k # _ \<Rightarrow> Some k)"
    using assms by (auto simp: contextRows_def Let_def split: if_splits)
  then show "k = Some key \<Longrightarrow> key \<in> set (db_apiKeys d) \<and> ak_UserID key = gh_UserID gc" using k [of "gh_UserID gc" key] by simp
qed

lemma contextRows_tables: "tables d' = tables d \<Longrightarrow> contextRows repo d' = contextRows repo d"
  using tables_eqD(1,8,9) [of d' d] by (simp add: contextRows_def)

lemma readContextRows_result:
  assumes "readContextRows repo d = (r, d')"
  shows "tables d' = tables d" "r = Inr rows \<Longrightarrow> set rows \<subseteq> set (contextRows repo d)"
proof -
  obtain e1 d1 where s1: "statement d = (e1, d1)" by fastforce
  obtain e2 d2 where s2: "(if contextRows repo d1 = [] then (None, d1) else statement d1) = (e2, d2)" by fastforce
  obtain e3 d3 where s3: "statement d2 = (e3, d3)" by fastforce
  have t1: "tables d1 = tables d" by (rule statement_tables [OF s1])
  have t2: "tables d2 = tables d" using s2 t1 statement_tables [of d1 e2 d2] by (auto split: if_splits)
  have t3: "tables d3 = tables d" using statement_tables [OF s3] t2 by simp
  have eq: "readContextRows repo d = (case e1 of Some e \<Rightarrow> (Inl (''query webhook context: '' @ e), d1) | None \<Rightarrow>
      (case e2 of Some e \<Rightarrow> (Inl (''scan webhook context: '' @ e), d2) | None \<Rightarrow>
      (case e3 of Some _ \<Rightarrow> (Inr [], d3) | None \<Rightarrow> (Inr (contextRows repo d1), d3))))"
    unfolding readContextRows_def by (cases e1; cases e2; cases e3; simp only: s1 s2 s3 option.case prod.case)
  show "tables d' = tables d" using assms t1 t2 t3 unfolding eq by (auto split: option.splits)
  show "r = Inr rows \<Longrightarrow> set rows \<subseteq> set (contextRows repo d)"
    using assms contextRows_tables [OF t1, of repo] unfolding eq by (auto split: option.splits)
qed

lemma contextOf_parts:
  assumes "contextOf env repo rows = Inr ctx"
  shows "\<exists>gc a k a1 k1 ag key. (gc, a, k) \<in> set rows \<and> wc_UserID ctx = gh_UserID gc \<and> wc_GithubToken ctx = gh_GithubToken gc
    \<and> wc_WebhookSecret ctx = optStr (gh_WebhookSecret gc)
    \<and> a1 = Some ag \<and> (\<exists>gc1 k2. (gc1, a1, k2) \<in> set rows) \<and> wc_AgentID ctx = a_ID ag
    \<and> k1 = Some key \<and> (\<exists>gc2 a2. (gc2, a2, k1) \<in> set rows) \<and> wc_EncryptedKey ctx = ak_APIKey key"
proof -
  define agents where "agents = List.map_filter (\<lambda>(_, a, _). a) rows"
  define keys where "keys = List.map_filter (\<lambda>(_, _, k). k) rows"
  have r: "rows \<noteq> []" "agents \<noteq> []" "keys \<noteq> []"
    using assms unfolding contextOf_def agents_def [symmetric] keys_def [symmetric] Let_def by (auto split: if_splits list.splits)
  obtain gc a k where l: "last rows = (gc, a, k)" by (metis prod.exhaust)
  have m: "(gc, a, k) \<in> set rows" using l r(1) by (metis last_in_set)
  obtain key ks where ks: "keys = key # ks" using r(3) by (cases keys) auto
  have key: "\<exists>gc2 a2. (gc2, a2, Some key) \<in> set rows"
  proof -
    have "key \<in> set keys" by (simp add: ks)
    then obtain x where x: "x \<in> set rows" "(case x of (_, _, k) \<Rightarrow> k) = Some key" by (auto simp: keys_def List.map_filter_def)
    obtain g2 a2 k2 where "x = (g2, a2, k2)" by (metis prod.exhaust)
    then show ?thesis using x by auto
  qed
  have "selectAgent env repo sel as = Some x \<Longrightarrow> x \<in> set as \<or> sel = Some x" for sel as x
    by (induction env repo sel as rule: selectAgent.induct) (auto simp: Let_def split: if_splits option.splits)
  then have sel: "(case selectAgent env repo None agents of Some a \<Rightarrow> a | None \<Rightarrow> hd agents) \<in> set agents" (is "?ag \<in> _")
    using r(2) by (auto split: option.split)
  then obtain x where x: "x \<in> set rows" "(case x of (_, a, _) \<Rightarrow> a) = Some ?ag" by (auto simp: agents_def List.map_filter_def)
  obtain g1 a1 k1 where "x = (g1, a1, k1)" by (metis prod.exhaust)
  then have "\<exists>gc1 k2. (gc1, Some ?ag, k2) \<in> set rows" using x by auto
  moreover have "wc_UserID ctx = gh_UserID gc \<and> wc_GithubToken ctx = gh_GithubToken gc \<and> wc_WebhookSecret ctx = optStr (gh_WebhookSecret gc)
      \<and> wc_AgentID ctx = a_ID ?ag \<and> wc_EncryptedKey ctx = ak_APIKey key"
    using assms r unfolding contextOf_def agents_def [symmetric] keys_def [symmetric] Let_def l by (auto simp: ks split: list.splits)
  ultimately show ?thesis using m key by blast
qed

text \<open>
  A repository that one user has connected gets a context of that user. When exactly one connection with a secret lists the repository, the context that is resolved has the
  user, the token and the secret of that connection, and its agent and its API key belong to the same user.
\<close>

theorem context_of_one_connection_is_its_own:
  assumes "connectionsOf repo d = [gc]" "resolveWebhookContext env repo d = (Inr (Inr ctx), d')"
  shows "wc_UserID ctx = gh_UserID gc \<and> wc_GithubToken ctx = gh_GithubToken gc \<and> Some (wc_WebhookSecret ctx) = gh_WebhookSecret gc
    \<and> (\<exists>a \<in> set (db_agents d). a_ID a = wc_AgentID ctx \<and> a_UserID a = wc_UserID ctx)
    \<and> (\<exists>k \<in> set (db_apiKeys d). ak_APIKey k = wc_EncryptedKey ctx \<and> ak_UserID k = wc_UserID ctx)"
proof -
  obtain r d1 where r: "readContextRows repo d = (r, d1)" by fastforce
  then obtain rows where rows: "r = Inr rows" "contextOf env repo rows = Inr ctx"
    using assms(2) by (auto simp: resolveWebhookContext_def split: sum.splits)
  have sub: "x \<in> set (contextRows repo d)" if "x \<in> set rows" for x using readContextRows_result(2) [OF r rows(1)] that by blast
  obtain g a k ag key where p: "(g, a, k) \<in> set rows" "wc_UserID ctx = gh_UserID g" "wc_GithubToken ctx = gh_GithubToken g"
      "wc_WebhookSecret ctx = optStr (gh_WebhookSecret g)" "wc_AgentID ctx = a_ID ag" "wc_EncryptedKey ctx = ak_APIKey key"
    and ag: "\<exists>gc1 k2. (gc1, Some ag, k2) \<in> set rows" and key: "\<exists>gc2 a2. (gc2, a2, Some key) \<in> set rows"
    using contextOf_parts [OF rows(2)] by blast
  have one: "g' = gc" if "(g', a', k') \<in> set rows" for g' a' k'
    using contextRows_parts(1) [OF sub [OF that]] assms(1) by simp
  have s: "gh_WebhookSecret gc \<noteq> None" using arg_cong [OF assms(1), of set] by (auto simp: connectionsOf_def)
  have "ag \<in> set (db_agents d) \<and> a_UserID ag = gh_UserID gc" using ag one contextRows_parts(2) [OF sub] by blast
  moreover have "key \<in> set (db_apiKeys d) \<and> ak_UserID key = gh_UserID gc" using key one contextRows_parts(3) [OF sub] by blast
  ultimately show ?thesis using p one [OF p(1)] s by (auto simp: optStr_def)
qed

section \<open>Effects\<close>

lemma handleWebhook_outcome:
  assumes "handleWebhook env uuid r st = (resp, st')"
  shows "ro_forwarding st' = ro_forwarding st \<and> db_pipelines (ro_db st') = db_pipelines (ro_db st) \<and> resp \<noteq> queued
    \<or> (\<exists>gc secret payload ctx repo st2. gc \<in> set (connectionsOf repo (ro_db st)) \<and> gh_WebhookSecret gc = Some secret
         \<and> verifyHMACSignature (ro_prims env) (hq_Body r) (hq_Signature r) secret \<and> length (hq_Body r) \<le> maxRequestBodySize
         \<and> dispatch env uuid (hq_Event r) payload ctx repo st2 = (resp, st') \<and> tables (ro_db st2) = tables (ro_db st)
         \<and> ro_forwarding st2 = ro_forwarding st)"
proof -
  obtain now d1 where t: "timeNow (ro_db st) = (now, d1)" by fastforce
  obtain ok limits where c: "checkRateLimit (int now) (clientIP r) (ro_limits st) = (ok, limits)" by fastforce
  have td1: "tables d1 = tables (ro_db st)" by (rule timeNow_tables [OF t])
  note d1 = tables_eqD(14) [OF td1]
  have nq: "writeError s m \<noteq> queued" "ignored \<noteq> queued" for s m by (simp_all add: writeError_def ignored_def queued_def)
  define st1 where "st1 = st\<lparr>ro_db := d1, ro_limits := limits\<rparr>"
  define early where "early \<longleftrightarrow> \<not> HasPrefix (hq_UserAgent r) ''GitHub-Hookshot/'' \<or> \<not> ok \<or> hq_ReadFails r \<or> length (hq_Body r) > maxRequestBodySize
    \<or> hq_Event r \<notin> {''pull_request'', ''check_suite'', ''check_run'', ''issues''}"
  show ?thesis
  proof (cases early)
    case True
    then have "(st' = st \<or> st' = st1) \<and> resp \<noteq> queued"
      using assms nq unfolding handleWebhook_def t c Let_def prod.case st1_def [symmetric] early_def by (auto split: if_splits)
    then show ?thesis using d1 by (auto simp: st1_def)
  next
    case False
    have len: "length (hq_Body r) \<le> maxRequestBodySize" using False by (simp add: early_def)
    show ?thesis
    proof (cases "ro_decode env (hq_Body r)")
      case None
      then have "st' = st1 \<and> resp \<noteq> queued"
        using assms nq False unfolding handleWebhook_def t c Let_def prod.case st1_def [symmetric] early_def by auto
      then show ?thesis using d1 by (auto simp: st1_def)
    next
      case (Some payload)
      define repo where "repo = (case objField ''repository'' payload of None \<Rightarrow> [] | Some ob \<Rightarrow> strField ''full_name'' ob)"
      obtain x d2 where x: "resolveWebhookContext env repo d1 = (x, d2)" by fastforce
      define st2 where "st2 = st1\<lparr>ro_db := d2\<rparr>"
      obtain y d2' where y: "readContextRows repo d1 = (y, d2')" by fastforce
      have "d2' = d2" using x y by (auto simp: resolveWebhookContext_def split: sum.splits)
      then have td2: "tables d2 = tables (ro_db st)" using readContextRows_result(1) [OF y] td1 by simp
      have h: "handleWebhook env uuid r st = (if repo = [] then (writeError 400 ''missing repository'', st1)
          else case x of Inl _ \<Rightarrow> (writeError 500 ''failed to resolve webhook context'', st2)
            | Inr (Inl notFound) \<Rightarrow> (writeError 404 notFound, st2)
            | Inr (Inr ctx) \<Rightarrow> if \<not> verifyHMACSignature (ro_prims env) (hq_Body r) (hq_Signature r) (wc_WebhookSecret ctx)
                then (writeError 401 ''invalid signature'', st2) else dispatch env uuid (hq_Event r) payload ctx repo st2)"
      proof -
        have "handleWebhook env uuid r st = routeEvent env uuid r payload st1"
          using False Some unfolding handleWebhook_def t c Let_def prod.case st1_def [symmetric] early_def by simp
        moreover have "ro_db st1 = d1" by (simp add: st1_def)
        ultimately show ?thesis
          using x unfolding routeEvent_def repo_def [symmetric] Let_def st2_def by (simp split: sum.split)
      qed
      show ?thesis
      proof (cases "\<exists>ctx. x = Inr (Inr ctx) \<and> verifyHMACSignature (ro_prims env) (hq_Body r) (hq_Signature r) (wc_WebhookSecret ctx) \<and> repo \<noteq> []")
        case no: False
        then have "(st' = st1 \<or> st' = st2) \<and> resp \<noteq> queued" using assms nq unfolding h by (auto split: if_splits sum.splits)
        then show ?thesis using d1 tables_eqD(14) [OF td2] by (auto simp: st1_def st2_def)
      next
        case True
        then obtain ctx where ctx: "x = Inr (Inr ctx)" "verifyHMACSignature (ro_prims env) (hq_Body r) (hq_Signature r) (wc_WebhookSecret ctx)" "repo \<noteq> []" by blast
        have d: "dispatch env uuid (hq_Event r) payload ctx repo st2 = (resp, st')" using assms ctx unfolding h by simp
        obtain rows where rows: "y = Inr rows" "contextOf env repo rows = Inr ctx" using x y ctx(1) by (auto simp: resolveWebhookContext_def split: sum.splits)
        obtain gc a k where g: "(gc, a, k) \<in> set rows" "wc_WebhookSecret ctx = optStr (gh_WebhookSecret gc)"
          using contextOf_parts [OF rows(2)] by blast
        have "gc \<in> set (connectionsOf repo d1)" using contextRows_parts(1) readContextRows_result(2) [OF y rows(1)] g(1) by blast
        moreover have "connectionsOf repo d1 = connectionsOf repo (ro_db st)" using tables_eqD(8) [OF td1] by (simp add: connectionsOf_def)
        ultimately have gc: "gc \<in> set (connectionsOf repo (ro_db st))" by simp
        then obtain secret where s: "gh_WebhookSecret gc = Some secret" by (auto simp: connectionsOf_def)
        have "wc_WebhookSecret ctx = secret" using g(2) s by (simp add: optStr_def)
        moreover have "tables (ro_db st2) = tables (ro_db st)" "ro_forwarding st2 = ro_forwarding st" using td2 by (simp_all add: st2_def st1_def)
        ultimately show ?thesis using gc s ctx(2) d len by blast
      qed
    qed
  qed
qed

text \<open>
  C33. Only signed requests have an effect. Whatever a request contains, if it changes the table of issue pipelines or gives a job to one of the services, or is answered with
  \<open>queued\<close>, then its body has at most one mebibyte and carries a valid signature under the secret of a connection that lists the repository.
\<close>

theorem only_signed_requests_have_an_effect:
  assumes "handleWebhook env uuid r st = (resp, st')"
    and "ro_forwarding st' \<noteq> ro_forwarding st \<or> db_pipelines (ro_db st') \<noteq> db_pipelines (ro_db st) \<or> resp = queued"
  shows "\<exists>gc \<in> set (db_github (ro_db st)). \<exists>secret. gh_WebhookSecret gc = Some secret
    \<and> verifyHMACSignature (ro_prims env) (hq_Body r) (hq_Signature r) secret \<and> length (hq_Body r) \<le> 1048576"
  using handleWebhook_outcome [OF assms(1)] assms(2) by (auto simp: connectionsOf_def maxRequestBodySize_def)

text \<open>
  What PostgreSQL accepts as an array: after white space a brace, or the bracket of an explicit dimension, which starts with a digit, a sign or white space.
\<close>

definition arrayStart :: "string \<Rightarrow> bool" where
  "arrayStart s =
     (case dropWhile (\<lambda>c. c \<in> set asciiSpace) s of
        [] \<Rightarrow> False
      | c # rest \<Rightarrow> c = CHR ''{'' \<or> c = CHR ''['' \<and> (case rest of [] \<Rightarrow> False | c2 # _ \<Rightarrow> c2 \<in> set ''0123456789+-'' \<or> c2 \<in> set asciiSpace))"

definition readsArrays :: "(string \<Rightarrow> string list option) \<Rightarrow> bool" where
  "readsArrays f \<longleftrightarrow> (\<forall>s ls. f s = Some ls \<longrightarrow> arrayStart s)"

lemma marshalLabels_not_array: "\<not> arrayStart (marshalLabels labels)"
proof (cases labels)
  case Nil
  then show ?thesis by (simp add: arrayStart_def marshalLabels_def asciiSpace_def)
next
  case (Cons l ls)
  obtain rest where "Join (map jsonString labels) '','' = CHR 0x22 # rest"
    unfolding Cons by (cases ls) (auto simp: jsonString_def quote_def)
  then show ?thesis using Cons by (simp add: arrayStart_def marshalLabels_def asciiSpace_def)
qed

lemma forwardWith_keeps:
  assumes "forwardWith env ctx mk st = (resp, st')"
  shows "ro_db st' = ro_db st" "resp \<noteq> queued"
  using assms by (auto simp: forwardWith_def boundedForward_def forwarded_def queued_def writeError_def split: prod.splits sum.splits if_splits)

lemma dispatch_keeps:
  assumes "readsArrays (ro_textArray env)" "dispatch env uuid event payload ctx repo st = (resp, st')"
  shows "db_pipelines (ro_db st') = db_pipelines (ro_db st) \<and> resp \<noteq> queued"
proof -
  have none: "ro_textArray env (marshalLabels labels) = None" for labels
    using assms(1) marshalLabels_not_array unfolding readsArrays_def by (cases "ro_textArray env (marshalLabels labels)") auto
  have c: "\<exists>e d. createIssuePipeline env uuid u a rp n t b labels d0 = (Inl e, d) \<and> db_pipelines d = db_pipelines d0" for u a rp n t b labels d0
  proof -
    obtain now d1 where t: "timeNow d0 = (now, d1)" by fastforce
    obtain x d2 where s: "statement d1 = (x, d2)" by fastforce
    have "db_pipelines d2 = db_pipelines d0" using tables_eqD(14) [OF timeNow_tables [OF t]] tables_eqD(14) [OF statement_tables [OF s]] by simp
    then show ?thesis by (cases x) (simp_all add: createIssuePipeline_def t execChecked_def s none)
  qed
  have i: "db_pipelines (ro_db st') = db_pipelines (ro_db st) \<and> resp \<noteq> queued" if h: "handleIssues env uuid payload ctx repo st = (resp, st')"
  proof (cases "objField ''issue'' payload")
    case (Some issue)
    obtain e d where "createIssuePipeline env uuid (wc_UserID ctx) (wc_AgentID ctx) repo (numField ''number'' issue) (strField ''title'' issue)
        (strField ''body'' issue) (labelNames issue) (ro_db st) = (Inl e, d)" "db_pipelines d = db_pipelines (ro_db st)" using c by blast
    then show ?thesis using h Some by (auto simp: handleIssues_def Let_def ignored_def queued_def writeError_def split: if_splits)
  qed (use h in \<open>auto simp: handleIssues_def queued_def writeError_def\<close>)
  have f: "db_pipelines (ro_db st') = db_pipelines (ro_db st) \<and> resp \<noteq> queued" if "forwardWith env ctx mk st = (resp, st') \<or> resp \<noteq> queued \<and> st' = st" for mk
    using that forwardWith_keeps by (metis)
  have n: "ignored \<noteq> queued" "writeError s m \<noteq> queued" for s m by (simp_all add: ignored_def queued_def writeError_def)
  show ?thesis
    using assms(2) i n unfolding dispatch_def handlePullRequest_def handleCheckSuite_def handleCheckRun_def Let_def
    by (auto split: if_splits option.splits dest: forwardWith_keeps)
qed

text \<open>
  C35. No issue is ever queued. The labels of an issue are written as JSON into a column of type \<open>text[]\<close>, which PostgreSQL refuses, whatever the labels are. So no
  webhook changes the table of issue pipelines and none is answered with \<open>queued\<close>; an issue that should be queued is answered with an error.
\<close>

theorem no_issue_is_ever_queued:
  assumes "readsArrays (ro_textArray env)"
  shows "db_pipelines (ro_db (snd (handleWebhook env uuid r st))) = db_pipelines (ro_db st) \<and> fst (handleWebhook env uuid r st) \<noteq> queued"
proof -
  obtain resp st' where h: "handleWebhook env uuid r st = (resp, st')" by fastforce
  from handleWebhook_outcome [OF h] show ?thesis
  proof
    assume "\<exists>gc secret payload ctx repo st2. gc \<in> set (connectionsOf repo (ro_db st)) \<and> gh_WebhookSecret gc = Some secret
         \<and> verifyHMACSignature (ro_prims env) (hq_Body r) (hq_Signature r) secret \<and> length (hq_Body r) \<le> maxRequestBodySize
         \<and> dispatch env uuid (hq_Event r) payload ctx repo st2 = (resp, st') \<and> tables (ro_db st2) = tables (ro_db st)
         \<and> ro_forwarding st2 = ro_forwarding st"
    then obtain payload ctx repo st2 where d: "dispatch env uuid (hq_Event r) payload ctx repo st2 = (resp, st')" "tables (ro_db st2) = tables (ro_db st)" by blast
    from dispatch_keeps [OF assms d(1)] tables_eqD(14) [OF d(2)] h show ?thesis by simp
  qed (simp add: h)
qed

section \<open>Witnesses\<close>

definition sampleConnection :: "string \<Rightarrow> string \<Rightarrow> GithubConnection" where
  "sampleConnection u secret = \<lparr>gh_ID = ''g'' @ u, gh_UserID = u, gh_GithubUsername = u, gh_GithubToken = ''token of '' @ u, gh_Repos = [''acme/app''],
     gh_WebhookSecret = Some secret, gh_IssueLabel = None, gh_CreatedAt = 0\<rparr>"

definition sampleKey :: "string \<Rightarrow> ApiKey" where
  "sampleKey u = \<lparr>ak_ID = ''k'' @ u, ak_UserID = u, ak_Provider = OpenAI, ak_APIKey = ''key of '' @ u, ak_Label = [], ak_BaseURL = None, ak_ModelID = None, ak_CreatedAt = 0\<rparr>"

definition routerDb :: "string list \<Rightarrow> db" where
  "routerDb us = emptyDb\<lparr>db_github := map (\<lambda>u. sampleConnection u ''s'') us, db_apiKeys := map sampleKey us,
     db_agents := map (\<lambda>u. (sampleAgent (''agent of '' @ u) ''lead'')\<lparr>a_UserID := u\<rparr>) us\<rparr>"

definition sampleRouterEnv :: routerEnv where
  "sampleRouterEnv = \<lparr>ro_prims = samplePrimitives, ro_encryptionKey = [], ro_prReviewServiceURL = [], ro_ciDiagnosisServiceURL = [],
     ro_decode = (\<lambda>s. if s = ''issue'' then Some [(''repository'', JObj [(''full_name'', JStr ''acme/app'')]), (''action'', JStr ''opened''),
        (''issue'', JObj [(''labels'', JArr [JObj [(''name'', JStr ''shipmates'')]])])] else None),
     ro_scopeRepos = (\<lambda>_. None), ro_equalFold = (=), ro_textArray = (\<lambda>s. if HasPrefix s ''{'' then Some [] else None), ro_service = (\<lambda>_. Inr (200, []))\<rparr>"

definition contextAnswer :: "string list \<Rightarrow> (string \<times> string \<times> string \<times> string) option" where
  "contextAnswer us = (case fst (resolveWebhookContext sampleRouterEnv ''acme/app'' (routerDb us)) of
     Inr (Inr ctx) \<Rightarrow> Some (wc_UserID ctx, wc_GithubToken ctx, wc_AgentID ctx, wc_EncryptedKey ctx) | _ \<Rightarrow> None)"

lemma sample_context: "contextAnswer [''u''] = Some (''u'', ''token of u'', ''agent of u'', ''key of u'')"
  by code_simp

text \<open>When two users have connected a repository, one user's agent and key are combined with the other's token and secret.\<close>

lemma two_connections_are_mixed: "contextAnswer [''u'', ''v''] = Some (''v'', ''token of v'', ''agent of u'', ''key of u'')"
  by code_simp

theorem context_of_one_connection_is_its_own_witness:
  "\<exists>ctx d'. resolveWebhookContext sampleRouterEnv ''acme/app'' (routerDb [''u'']) = (Inr (Inr ctx), d') \<and> wc_UserID ctx = ''u''
     \<and> wc_GithubToken ctx = ''token of u'' \<and> wc_WebhookSecret ctx = ''s''"
proof -
  obtain x d' where x: "resolveWebhookContext sampleRouterEnv ''acme/app'' (routerDb [''u'']) = (x, d')" by fastforce
  then obtain ctx where ctx: "x = Inr (Inr ctx)" using sample_context by (auto simp: contextAnswer_def split: sum.splits)
  have c: "connectionsOf ''acme/app'' (routerDb [''u'']) = [sampleConnection ''u'' ''s'']" by (simp add: connectionsOf_def routerDb_def sampleConnection_def)
  from context_of_one_connection_is_its_own [OF c x [unfolded ctx]] x ctx show ?thesis by (auto simp: sampleConnection_def)
qed

definition sampleWebhook :: webhookRequest where
  "sampleWebhook = \<lparr>hq_UserAgent = ''GitHub-Hookshot/1'', hq_ForwardedFor = [], hq_RemoteAddr = ''1.2.3.4:5'', hq_Event = ''issues'',
     hq_Signature = ''sha256='' @ hexEncode (hmacSHA256 samplePrimitives ''s'' ''issue''), hq_Body = ''issue'', hq_ReadFails = False\<rparr>"

definition sampleRouter :: routerState where
  "sampleRouter = \<lparr>ro_db = routerDb [''u''], ro_keys = [], ro_limits = fst (snd (startLimits 0)), ro_forwarding = []\<rparr>"

text \<open>An issue with the right label and a valid signature is refused.\<close>

theorem no_issue_is_ever_queued_witness:
  "fst (handleWebhook sampleRouterEnv ''id'' sampleWebhook sampleRouter) = writeError 500 ''failed to queue issue''
   \<and> db_pipelines (ro_db (snd (handleWebhook sampleRouterEnv ''id'' sampleWebhook sampleRouter))) = []"
proof -
  have a: "readsArrays (ro_textArray sampleRouterEnv)"
    by (auto simp: readsArrays_def sampleRouterEnv_def arrayStart_def HasPrefix_def prefix_def asciiSpace_def split: if_splits)
  have "fst (handleWebhook sampleRouterEnv ''id'' sampleWebhook sampleRouter) = writeError 500 ''failed to queue issue''" by code_simp
  then show ?thesis using no_issue_is_ever_queued [OF a, of "''id''" sampleWebhook sampleRouter]
    by (simp add: sampleRouter_def routerDb_def emptyDb_def)
qed

text \<open>With an environment whose arrays are JSON, the signed request would be queued.\<close>

definition lenientRouterEnv :: routerEnv where
  "lenientRouterEnv = sampleRouterEnv\<lparr>ro_textArray := (\<lambda>_. Some [])\<rparr>"

theorem only_signed_requests_have_an_effect_witness:
  "fst (handleWebhook lenientRouterEnv ''id'' sampleWebhook sampleRouter) = queued
   \<and> (\<exists>gc \<in> set (db_github (routerDb [''u''])). \<exists>secret. gh_WebhookSecret gc = Some secret
        \<and> verifyHMACSignature samplePrimitives ''issue'' (hq_Signature sampleWebhook) secret)"
proof -
  have q: "fst (handleWebhook lenientRouterEnv ''id'' sampleWebhook sampleRouter) = queued" by code_simp
  obtain resp st' where h: "handleWebhook lenientRouterEnv ''id'' sampleWebhook sampleRouter = (resp, st')" by fastforce
  have f: "ro_prims lenientRouterEnv = samplePrimitives" "hq_Body sampleWebhook = ''issue''" "ro_db sampleRouter = routerDb [''u'']"
    by (simp_all add: lenientRouterEnv_def sampleRouterEnv_def sampleWebhook_def sampleRouter_def)
  from only_signed_requests_have_an_effect [OF h] q h show ?thesis unfolding f by auto
qed

end
