(* ===== verification/Routing.thy ===== *)
theory Routing
  imports Regexp Cron Crypto Store "HOL-Library.Multiset"
begin

text \<open>
  What a chat message is about (\<open>bot/conversation\<close>): the intents of \<open>intent.go\<close>, the choice of the agent of \<open>router.go\<close> and the
  message store of \<open>history.go\<close>. Scores are \<open>float64\<close> quotients of small integers in the code and rationals here, which compare alike. A Go map is an
  association list; entries of the same age are evicted in the order of that list, which Go leaves open. Times of the stores are Unix seconds. The
  Unicode tables of \<open>strings.ToLower\<close> and \<open>strings.ToUpper\<close> are the arguments \<open>ul\<close> and \<open>uu\<close>.
\<close>

section \<open>Stores that evict their oldest entries\<close>

definition dropOldest :: "('v \<Rightarrow> nat) \<Rightarrow> nat \<Rightarrow> (string \<times> 'v) list \<Rightarrow> (string \<times> 'v) list" where
  "dropOldest age n c = fold (\<lambda>e c. AList.delete (fst e) c) (take n (sort_key (age \<circ> snd) c)) c"

lemma dropOldest_filter:
  "dropOldest age n c = filter (\<lambda>e. fst e \<notin> fst ` set (take n (sort_key (age \<circ> snd) c))) c"
  by (simp add: dropOldest_def fold_delete)

lemma length_dropOldest: "distinct (map fst c) \<Longrightarrow> length (dropOldest age n c) = length c - n"
  unfolding dropOldest_filter by (rule length_filter_sorted_out)

lemma distinct_dropOldest: "distinct (map fst c) \<Longrightarrow> distinct (map fst (dropOldest age n c))"
  unfolding dropOldest_filter by (rule distinct_map_filter)

lemma set_dropOldest: "set (dropOldest age n c) \<subseteq> set c"
  by (auto simp: dropOldest_filter)

lemma set_dropOldestD: "e \<in> set (dropOldest age n c) \<Longrightarrow> e \<in> set c"
  using set_dropOldest by blast

text \<open>What goes is not younger than what stays.\<close>

lemma dropOldest_ages:
  assumes "distinct (map fst c)" "e \<in> set c" "e \<notin> set (dropOldest age n c)" "f \<in> set (dropOldest age n c)"
  shows "age (snd e) \<le> age (snd f)"
proof -
  let ?s = "sort_key (age \<circ> snd) c"
  have "fst e \<in> fst ` set (take n ?s)" "fst f \<notin> fst ` set (take n ?s)" "f \<in> set ?s"
    using assms(2-4) by (auto simp: dropOldest_filter)
  then obtain e' where e': "e' \<in> set (take n ?s)" "fst e' = fst e" by auto
  have "f \<in> set (take n ?s @ drop n ?s)" using \<open>f \<in> set ?s\<close> by (simp only: append_take_drop_id)
  then have f: "f \<in> set (drop n ?s)" using \<open>fst f \<notin> fst ` set (take n ?s)\<close> unfolding set_append by blast
  have "e' \<in> set c" using set_take_subset [of n ?s] e'(1) by auto
  then have "e' = e" using assms(1,2) e'(2) by (metis distinct_map inj_onD)
  moreover have "sorted (map (age \<circ> snd) (take n ?s @ drop n ?s))" by (simp only: append_take_drop_id) simp
  then have "\<forall>x \<in> set (take n ?s). \<forall>y \<in> set (drop n ?s). age (snd x) \<le> age (snd y)"
    unfolding map_append sorted_append set_map by (metis comp_apply imageI)
  ultimately show ?thesis using e'(1) f by blast
qed

section \<open>Intents\<close>

text \<open>A literal under \<open>(?i)\<close>: both cases and, for \<open>k\<close> and \<open>s\<close>, the Kelvin sign and the long s that fold to them.\<close>

definition foldClass :: "char \<Rightarrow> (nat \<times> nat) list" where
  "foldClass c =
     (let n = of_char c in
      if 97 \<le> n \<and> n \<le> 122
      then [(n, n), (n - 32, n - 32)] @ (if c = CHR ''k'' then [(8490, 8490)] else if c = CHR ''s'' then [(383, 383)] else [])
      else [(n, n)])"

fun ilit :: "string \<Rightarrow> re" where
  "ilit [] = Eps"
| "ilit (c # cs) = Cat (Cls (foldClass c)) (ilit cs)"

definition iwords :: "string list \<Rightarrow> re" where
  "iwords ws = Cat WordB (Cat (alternatives (map ilit ws)) WordB)"

definition workPatterns :: "re list" where
  "workPatterns =
    [iwords [''build'', ''create'', ''implement'', ''write'', ''code'', ''fix'', ''debug'', ''refactor'', ''deploy'', ''add'', ''remove'',
       ''delete'', ''update''],
     iwords [''make me'', ''set up'', ''work on'', ''take care of'', ''handle'', ''figure out'', ''look into'', ''investigate'', ''analyze'',
       ''review'', ''check'', ''explore'', ''plan'', ''design'', ''improve'', ''optimize''],
     Cat (iwords [''go'', ''can you'', ''could you'', ''please'', ''would you''])
       (Cat (Star True anyRune) (iwords [''the'', ''this'', ''our'', ''my'', ''a'']))]"

definition testGenKeywords :: "string list" where
  "testGenKeywords =
    [''generate tests'', ''write tests'', ''add tests'', ''create tests'', ''test coverage'', ''increase coverage'', ''improve coverage'',
     ''test generation'', ''generate test suite'']"

definition coveragePattern :: re where
  "coveragePattern =
     Cat (alternatives (map ilit [''target'', ''coverage'', ''aim for'']))
       (Cat (plus1 (Cls spaceClass)) (Cat (plus1 (Cls digitClass)) (lit ''%'')))"

definition DetectWorkRequest :: "string \<Rightarrow> bool" where
  "DetectWorkRequest text \<longleftrightarrow> list_ex (\<lambda>p. MatchString p text) workPatterns"

record TestGenIntent =
  tg_Detected :: bool
  tg_TargetCoverage :: nat

text \<open>The group of the pattern: the digits before the final percent sign.\<close>

definition coverageGroup :: "string \<Rightarrow> string" where
  "coverageGroup m = rev (takeWhile isDigit (rev (butlast m)))"

definition DetectTestGenIntent :: "(string \<Rightarrow> string) \<Rightarrow> string \<Rightarrow> TestGenIntent" where
  "DetectTestGenIntent ul text =
     (let textLower = ToLower ul text in
      if \<not> list_ex (Contains textLower) testGenKeywords then \<lparr>tg_Detected = False, tg_TargetCoverage = 0\<rparr>
      else case search coveragePattern text of
             None \<Rightarrow> \<lparr>tg_Detected = True, tg_TargetCoverage = 80\<rparr>
           | Some _ \<Rightarrow>
               (case AtoiDigits (coverageGroup (FindString coveragePattern text)) of
                  Some coverage \<Rightarrow>
                    if coverage > 0 \<and> coverage \<le> 100 then \<lparr>tg_Detected = True, tg_TargetCoverage = coverage\<rparr>
                    else \<lparr>tg_Detected = True, tg_TargetCoverage = 80\<rparr>
                | None \<Rightarrow> \<lparr>tg_Detected = True, tg_TargetCoverage = 80\<rparr>))"

section \<open>Repositories\<close>

definition bigrams :: "string \<Rightarrow> string list" where
  "bigrams s = map (\<lambda>i. take 2 (drop i s)) [0..<length s - 1]"

definition countBigrams :: "string list \<Rightarrow> string \<Rightarrow> nat" where
  "countBigrams bs = fold (\<lambda>b m. m(b := m b + 1)) bs (\<lambda>_. 0)"

fun intersectLoop :: "(string \<Rightarrow> nat) \<Rightarrow> nat \<Rightarrow> string list \<Rightarrow> nat" where
  "intersectLoop m n [] = n"
| "intersectLoop m n (b # bs) = (if m b > 0 then intersectLoop (m(b := m b - 1)) (n + 1) bs else intersectLoop m n bs)"

definition bigramSimilarity :: "(string \<Rightarrow> string) \<Rightarrow> string \<Rightarrow> string \<Rightarrow> rat" where
  "bigramSimilarity ul a b =
     (let aLower = ToLower ul a; bLower = ToLower ul b in
      if aLower = bLower then 1
      else if length aLower < 2 \<or> length bLower < 2 then 0
      else (2 * of_nat (intersectLoop (countBigrams (bigrams aLower)) 0 (bigrams bLower)))
           / of_nat (length aLower - 1 + (length bLower - 1)))"

record repoInfo =
  ri_original :: string
  ri_lowerName :: string
  ri_lowerFull :: string
  ri_nameNoDashes :: string

definition repoInfoOf :: "(string \<Rightarrow> string) \<Rightarrow> string \<Rightarrow> repoInfo" where
  "repoInfoOf ul repo =
     (let repoName = ToLower ul (last (Split repo (CHR ''/''))) in
      \<lparr>ri_original = repo, ri_lowerName = repoName, ri_lowerFull = ToLower ul repo,
       ri_nameNoDashes = filter (\<lambda>c. c \<noteq> CHR ''_'') (filter (\<lambda>c. c \<noteq> CHR ''-'') repoName)\<rparr>)"

text \<open>The phrases of two to five words, in the order of the loops.\<close>

definition phrases :: "string list \<Rightarrow> string list" where
  "phrases ws =
     concat (map (\<lambda>len. map (\<lambda>j. concat (take len (drop j ws))) [0..<length ws - len + 1]) [2..<min (length ws) 5 + 1])"

definition betterRepo :: "(string \<Rightarrow> string) \<Rightarrow> repoInfo \<Rightarrow> string \<Rightarrow> string \<times> rat \<Rightarrow> string \<times> rat" where
  "betterRepo ul r phrase best =
     (let score = bigramSimilarity ul phrase (ri_nameNoDashes r) in
      if score > snd best then (ri_original r, score) else best)"

definition DetectRepo :: "(string \<Rightarrow> string) \<Rightarrow> string \<Rightarrow> string list \<Rightarrow> string" where
  "DetectRepo ul text repos =
     (let textLower = ToLower ul text; repoCache = map (repoInfoOf ul) repos in
      case List.find (\<lambda>r. Contains textLower (ri_lowerFull r) \<or> Contains textLower (ri_lowerName r)) repoCache of
        Some r \<Rightarrow> ri_original r
      | None \<Rightarrow>
          let (bestRepo, bestScore) = fold (\<lambda>r. fold (betterRepo ul r) (phrases (Fields textLower))) repoCache ([], 0)
          in if bestScore \<ge> 2 / 5 then bestRepo else [])"

section \<open>Agents\<close>

record AgentConfigScope =
  sc_Directories :: "string list"
  sc_Languages :: "string list"
  sc_Repos :: "string list"

record AgentConfig =
  ac_ID :: string
  ac_Name :: string
  ac_Role :: string
  ac_Personality :: string
  ac_VoiceID :: string
  ac_Scope :: AgentConfigScope
  ac_APIKeyID :: "string option"

definition asciiUpper :: "char \<Rightarrow> char" where
  "asciiUpper c = (if 97 \<le> (of_char c :: nat) \<and> (of_char c :: nat) \<le> 122 then char_of ((of_char c :: nat) - 32) else c)"

definition ToUpper :: "(string \<Rightarrow> string) \<Rightarrow> string \<Rightarrow> string" where
  "ToUpper uu s = (if \<forall>c \<in> set s. (of_char c :: nat) < 128 then map asciiUpper s else uu s)"

text \<open>A letter that is not in the table has the empty code.\<close>

definition soundexCodeMap :: "char \<Rightarrow> string" where
  "soundexCodeMap c =
     (if c \<in> set ''BFPV'' then ''1''
      else if c \<in> set ''CGJKQSXZ'' then ''2''
      else if c \<in> set ''DT'' then ''3''
      else if c = CHR ''L'' then ''4''
      else if c \<in> set ''MN'' then ''5''
      else if c = CHR ''R'' then ''6''
      else [])"

fun soundexLoop :: "string \<Rightarrow> string \<Rightarrow> string \<Rightarrow> string" where
  "soundexLoop b lastCode [] = b"
| "soundexLoop b lastCode (c # cs) =
     (if length b < 4
      then let code = soundexCodeMap c in
           soundexLoop (if code \<noteq> [] \<and> code \<noteq> lastCode then b @ code else b) (if code \<noteq> [] then code else lastCode) cs
      else b)"

definition soundex :: "(string \<Rightarrow> string) \<Rightarrow> string \<Rightarrow> string" where
  "soundex uu str =
     (case filter (inRange 65 90) (ToUpper uu str) of
        [] \<Rightarrow> ''0000''
      | c # cs \<Rightarrow> take 4 (soundexLoop [c] (soundexCodeMap c) cs @ ''0000''))"

definition extractWords :: "(string \<Rightarrow> string) \<Rightarrow> string \<Rightarrow> string list" where
  "extractWords ul text = filter (\<lambda>w. w \<noteq> []) (Fields (filter (\<lambda>c. inRange 97 122 c \<or> c = CHR '' '') (ToLower ul text)))"

definition findAgentBySound :: "(string \<Rightarrow> string) \<Rightarrow> (string \<Rightarrow> string) \<Rightarrow> string \<Rightarrow> AgentConfig list \<Rightarrow> AgentConfig option" where
  "findAgentBySound ul uu word agents =
     (case List.find (\<lambda>a. ToLower ul word = ToLower ul (ac_Name a)) agents of
        Some a \<Rightarrow> Some a
      | None \<Rightarrow> List.find (\<lambda>a. soundex uu (ac_Name a) = soundex uu word) agents)"

record lastAddressedEntryItem =
  la_agentName :: string
  la_lastAccessed :: nat

type_synonym lastAddressedEntry = "(string \<times> lastAddressedEntryItem) list"

definition lastAddressedTTL :: nat where "lastAddressedTTL = 3600"
definition lastAddressedMaxSize :: nat where "lastAddressedMaxSize = 10000"

definition cleanup_lastAddressed :: "nat \<Rightarrow> lastAddressedEntry \<Rightarrow> lastAddressedEntry" where
  "cleanup_lastAddressed now l =
     (let l1 = filter (\<lambda>(k, e). \<not> la_lastAccessed e + lastAddressedTTL < now) l in
      if length l1 > lastAddressedMaxSize then dropOldest la_lastAccessed (length l1 - lastAddressedMaxSize) l1 else l1)"

definition getLastAgentKey :: "string \<Rightarrow> string \<Rightarrow> string" where
  "getLastAgentKey guildID userID = guildID @ '':'' @ userID"

text \<open>The first word that names an agent, or sounds like one.\<close>

fun firstAgent :: "(string \<Rightarrow> string) \<Rightarrow> (string \<Rightarrow> string) \<Rightarrow> string list \<Rightarrow> AgentConfig list \<Rightarrow> AgentConfig option" where
  "firstAgent ul uu [] agents = None"
| "firstAgent ul uu (w # ws) agents =
     (case findAgentBySound ul uu w agents of Some a \<Rightarrow> Some a | None \<Rightarrow> firstAgent ul uu ws agents)"

definition RouteMessage ::
    "(string \<Rightarrow> string) \<Rightarrow> (string \<Rightarrow> string) \<Rightarrow> nat \<Rightarrow> string \<Rightarrow> AgentConfig list \<Rightarrow> string \<Rightarrow> string \<Rightarrow> lastAddressedEntry
      \<Rightarrow> (AgentConfig \<times> string) option \<times> lastAddressedEntry" where
  "RouteMessage ul uu now text agents guildID userID l =
     (let trimmed = TrimSpace text; key = getLastAgentKey guildID userID in
      if trimmed = [] then (None, l)
      else case firstAgent ul uu (extractWords ul trimmed) agents of
             Some agent \<Rightarrow> (Some (agent, trimmed), AList.update key \<lparr>la_agentName = ac_Name agent, la_lastAccessed = now\<rparr> l)
           | None \<Rightarrow>
               (case map_of l key of
                  None \<Rightarrow> (None, l)
                | Some entry \<Rightarrow>
                    (map_option (\<lambda>a. (a, trimmed)) (List.find (\<lambda>a. ac_Name a = la_agentName entry) agents),
                     AList.update key (entry\<lparr>la_lastAccessed := now\<rparr>) l)))"

section \<open>Message store\<close>

definition maxHistoryKeys :: nat where "maxHistoryKeys = 1000"
definition maxMessagesPerAgent :: nat where "maxMessagesPerAgent = 20"

record ChatMessage =
  cm_Role :: string
  cm_Content :: string

record historyEntry =
  he_messages :: "ChatMessage list"
  he_lastAccessed :: nat

type_synonym historyStore = "(string \<times> historyEntry) list"

definition getHistoryKey :: "string \<Rightarrow> string \<Rightarrow> string \<Rightarrow> string" where
  "getHistoryKey workspaceID userID agentName = workspaceID @ '':'' @ userID @ '':'' @ agentName"

definition GetHistory :: "nat \<Rightarrow> string \<Rightarrow> historyStore \<Rightarrow> ChatMessage list \<times> historyStore" where
  "GetHistory now key h =
     (case map_of h key of
        None \<Rightarrow> ([], h)
      | Some entry \<Rightarrow> (he_messages entry, AList.update key (entry\<lparr>he_lastAccessed := now\<rparr>) h))"

definition evictOldest_history :: "historyStore \<Rightarrow> historyStore" where
  "evictOldest_history h =
     (if h = [] then h else dropOldest he_lastAccessed (nat (int (length h) - int maxHistoryKeys + 1)) h)"

definition trimMessages :: "ChatMessage list \<Rightarrow> ChatMessage list" where
  "trimMessages ms = (if length ms > maxMessagesPerAgent then drop (length ms - maxMessagesPerAgent) ms else ms)"

definition AddToHistory :: "nat \<Rightarrow> string \<Rightarrow> string \<Rightarrow> string \<Rightarrow> historyStore \<Rightarrow> historyStore" where
  "AddToHistory now key role content h =
     (let (h1, entry) = (case map_of h key of
                           Some entry \<Rightarrow> (h, entry)
                         | None \<Rightarrow> (if length h \<ge> maxHistoryKeys then evictOldest_history h else h,
                                    \<lparr>he_messages = [], he_lastAccessed = now\<rparr>));
          messages = he_messages entry @ [\<lparr>cm_Role = role, cm_Content = content\<rparr>]
      in AList.update key \<lparr>he_messages = trimMessages messages, he_lastAccessed = now\<rparr> h1)"

section \<open>Similarity is the Dice coefficient\<close>

lemma countBigrams_mset: "countBigrams bs = count (mset bs)"
proof -
  have "fold (\<lambda>b m. m(b := m b + 1)) bs (count M) = count (M + mset bs)" for M
  proof (induction bs arbitrary: M)
    case (Cons b bs)
    have e: "(count M)(b := count M b + 1) = count (add_mset b M)" by auto
    have "fold (\<lambda>b m. m(b := m b + 1)) (b # bs) (count M) = count (add_mset b M + mset bs)"
      by (simp only: fold_simps e Cons.IH)
    also have "add_mset b M + mset bs = M + mset (b # bs)" by simp
    finally show ?case .
  qed simp
  from this [of "{#}"] show ?thesis by (simp add: countBigrams_def zero_multiset.rep_eq)
qed

lemma intersectLoop_mset: "intersectLoop (count M) n bs = n + size (M \<inter># mset bs)"
proof (induction bs arbitrary: M n)
  case (Cons b bs)
  show ?case
  proof (cases "b \<in># M")
    case True
    have e: "(count M)(b := count M b - 1) = count (M - {#b#})" by auto
    have "intersectLoop (count M) n (b # bs) = intersectLoop (count (M - {#b#})) (n + 1) bs"
      unfolding intersectLoop.simps e using True by (simp only: count_greater_zero_iff if_True)
    also have "\<dots> = n + 1 + size ((M - {#b#}) \<inter># mset bs)" by (rule Cons.IH)
    finally show ?thesis using True by (simp add: inter_add_right2)
  next
    case False
    then have "M \<inter># add_mset b (mset bs) = M \<inter># mset bs" by (rule inter_add_right1)
    with False Cons.IH show ?thesis by (simp add: not_in_iff)
  qed
qed simp

definition dice :: "string \<Rightarrow> string \<Rightarrow> rat" where
  "dice a b = 2 * of_nat (size (mset (bigrams a) \<inter># mset (bigrams b))) / of_nat (length (bigrams a) + length (bigrams b))"

lemma dice_range: "0 \<le> dice a b" "dice a b \<le> 1"
proof -
  let ?i = "size (mset (bigrams a) \<inter># mset (bigrams b))"
  show "0 \<le> dice a b" by (simp add: dice_def)
  have "?i \<le> length (bigrams a)" "?i \<le> length (bigrams b)"
    using size_mset_mono [OF subset_mset.inf_le1 [of "mset (bigrams a)" "mset (bigrams b)"]]
      size_mset_mono [OF subset_mset.inf_le2 [of "mset (bigrams a)" "mset (bigrams b)"]] by simp_all
  then have "2 * ?i \<le> length (bigrams a) + length (bigrams b)" by simp
  then have "2 * of_nat ?i \<le> (of_nat (length (bigrams a) + length (bigrams b)) :: rat)" by (metis of_nat_le_iff of_nat_mult of_nat_numeral)
  then show "dice a b \<le> 1" unfolding dice_def by (simp add: divide_le_eq_1 del: of_nat_add)
qed

lemma dice_commute: "dice a b = dice b a"
  by (simp add: dice_def subset_mset.inf_commute add.commute)

text \<open>
  The similarity of two texts is, up to case, the Dice coefficient of their multisets of adjacent byte pairs: a number between 0 and 1 that does
  not depend on the order of the arguments, 1 for equal texts and 0 when one of two different texts is shorter than two bytes.
\<close>

theorem similarity_is_dice:
  "bigramSimilarity ul a b
     = (if ToLower ul a = ToLower ul b then 1
        else if length (ToLower ul a) < 2 \<or> length (ToLower ul b) < 2 then 0
        else dice (ToLower ul a) (ToLower ul b))
   \<and> bigramSimilarity ul a b = bigramSimilarity ul b a \<and> 0 \<le> bigramSimilarity ul a b \<and> bigramSimilarity ul a b \<le> 1"
proof -
  have len: "length (bigrams s) = length s - 1" for s by (simp add: bigrams_def)
  have sim: "bigramSimilarity ul a b
     = (if ToLower ul a = ToLower ul b then 1
        else if length (ToLower ul a) < 2 \<or> length (ToLower ul b) < 2 then 0
        else dice (ToLower ul a) (ToLower ul b))" for a b
    by (simp add: bigramSimilarity_def Let_def dice_def countBigrams_mset intersectLoop_mset len)
  have "bigramSimilarity ul a b = bigramSimilarity ul b a"
    unfolding sim dice_commute [of "ToLower ul b" "ToLower ul a"] by auto
  moreover have "0 \<le> bigramSimilarity ul a b \<and> bigramSimilarity ul a b \<le> 1" unfolding sim using dice_range by simp
  ultimately show ?thesis using sim [of a b] by blast
qed

section \<open>Detection of the repository\<close>

lemma fold_betterRepo_in:
  "fst (fold (betterRepo ul r) ps best) = fst best \<or> fst (fold (betterRepo ul r) ps best) = ri_original r"
proof (induction ps arbitrary: best)
  case (Cons p ps)
  have "fst (betterRepo ul r p best) = fst best \<or> fst (betterRepo ul r p best) = ri_original r"
    by (simp add: betterRepo_def Let_def)
  with Cons [of "betterRepo ul r p best"] show ?case by auto
qed simp

lemma fold_betterRepo_list:
  "fst (fold (\<lambda>r. fold (betterRepo ul r) ps) rs best) \<in> insert (fst best) (ri_original ` set rs)"
proof (induction rs arbitrary: best)
  case (Cons r rs)
  then show ?case using fold_betterRepo_in [of ul r ps best] by (simp, metis)
qed simp

text \<open>The repository is one of the user's, and one that is mentioned has priority over the similar ones.\<close>

lemma DetectRepo_result:
  "DetectRepo ul text repos = [] \<or> DetectRepo ul text repos \<in> set repos"
proof (cases "List.find (\<lambda>r. Contains (ToLower ul text) (ri_lowerFull r) \<or> Contains (ToLower ul text) (ri_lowerName r)) (map (repoInfoOf ul) repos)")
  case None
  have "fst (fold (\<lambda>r. fold (betterRepo ul r) (phrases (Fields (ToLower ul text)))) (map (repoInfoOf ul) repos) ([], 0))
      \<in> insert [] (ri_original ` set (map (repoInfoOf ul) repos))"
    using fold_betterRepo_list [of ul "phrases (Fields (ToLower ul text))" "map (repoInfoOf ul) repos" "([], 0)"] by simp
  then show ?thesis unfolding DetectRepo_def Let_def None option.case
    by (auto simp: repoInfoOf_def Let_def image_image split: prod.splits)
next
  case (Some r)
  then have "r \<in> set (map (repoInfoOf ul) repos)" by (metis find_Some_iff_mem)
  then show ?thesis unfolding DetectRepo_def Let_def Some option.case by (auto simp: repoInfoOf_def Let_def)
qed

lemma DetectRepo_mentioned:
  assumes "repo \<in> set repos" "Contains (ToLower ul text) (ToLower ul repo)"
  shows "\<exists>r \<in> set repos. DetectRepo ul text repos = r
     \<and> (Contains (ToLower ul text) (ToLower ul r) \<or> Contains (ToLower ul text) (ToLower ul (last (Split r (CHR ''/'')))))"
proof -
  let ?P = "\<lambda>r. Contains (ToLower ul text) (ri_lowerFull r) \<or> Contains (ToLower ul text) (ri_lowerName r)"
  have "?P (repoInfoOf ul repo)" using assms(2) by (simp add: repoInfoOf_def Let_def)
  then have "List.find ?P (map (repoInfoOf ul) repos) \<noteq> None" using assms(1) by (auto simp: find_None_iff)
  then obtain r where f: "List.find ?P (map (repoInfoOf ul) repos) = Some r" by blast
  then have r: "?P r" "r \<in> set (map (repoInfoOf ul) repos)" by (auto simp: find_Some_iff)
  then obtain x where "x \<in> set repos" "r = repoInfoOf ul x" by auto
  with r(1) show ?thesis unfolding DetectRepo_def Let_def f option.case by (auto simp: repoInfoOf_def Let_def intro!: bexI [of _ x])
qed

text \<open>A name is found inside other words: a request about the API of the second repository is taken to be about the first one.\<close>

lemma repository_found_inside_a_word:
  "DetectRepo ul ''fix the capital page of owner/bank'' [''owner/api'', ''owner/bank''] = ''owner/api''"
  by code_simp

section \<open>Routing\<close>

lemma soundexCodeMap_length: "length (soundexCodeMap c) \<le> 1"
  by (simp add: soundexCodeMap_def)

lemma soundexLoop_prefix: "\<exists>s. soundexLoop b l cs = b @ s"
proof (induction cs arbitrary: b l)
  case (Cons c cs)
  show ?case
  proof (cases "length b < 4")
    case True
    then show ?thesis using Cons [of "b @ soundexCodeMap c"] Cons [of b] by (auto simp: Let_def)
  qed simp
qed simp

lemma length_soundex: "length (soundex uu str) = 4"
  using soundexLoop_prefix by (auto simp: soundex_def split: list.splits)

lemma firstAgent_in: "firstAgent ul uu ws agents = Some a \<Longrightarrow> a \<in> set agents"
  by (induction ws) (auto simp: findAgentBySound_def split: option.splits dest: find_Some_iff_mem)

text \<open>Words are tried from left to right, so a word that only sounds like a name wins over the name that follows it.\<close>

lemma sound_beats_name:
  assumes "ac_Name a = ''Ada''" "ac_Name b = ''Bob''"
  shows "fst (RouteMessage ul uu now ''look at this, Bob'' [a, b] g u l) = Some (a, ''look at this, Bob'')"
proof -
  have ws: "extractWords ul (TrimSpace ''look at this, Bob'') = [''look'', ''at'', ''this'', ''bob'']" by code_simp
  have tr: "TrimSpace ''look at this, Bob'' = ''look at this, Bob''" by code_simp
  have sx: "soundex uu ''Ada'' = ''A300''" "soundex uu ''Bob'' = ''B000''" "soundex uu ''look'' = ''L200''" "soundex uu ''at'' = ''A300''"
    by code_simp+
  have lo: "ToLower ul ''Ada'' = ''ada''" "ToLower ul ''Bob'' = ''bob''" "ToLower ul ''look'' = ''look''" "ToLower ul ''at'' = ''at''"
    by code_simp+
  have "firstAgent ul uu (extractWords ul ''look at this, Bob'') [a, b] = Some a"
    by (simp add: ws [unfolded tr] findAgentBySound_def assms sx lo)
  then show ?thesis by (simp add: RouteMessage_def tr Let_def)
qed

text \<open>Later messages that name nobody go to the agent that was addressed last.\<close>

lemma routing_is_sticky:
  assumes r: "RouteMessage ul uu now text agents g u l = (Some (a, m), l')"
    and t: "TrimSpace text' \<noteq> []" and n: "firstAgent ul uu (extractWords ul (TrimSpace text')) agents = None"
  shows "a \<in> set agents \<and> m = TrimSpace text
     \<and> (\<exists>a' l''. RouteMessage ul uu now' text' agents g u l' = (Some (a', TrimSpace text'), l'') \<and> ac_Name a' = ac_Name a)"
proof -
  let ?key = "getLastAgentKey g u"
  have am: "a \<in> set agents \<and> m = TrimSpace text \<and> (\<exists>e. map_of l' ?key = Some e \<and> la_agentName e = ac_Name a)"
  proof (cases "firstAgent ul uu (extractWords ul (TrimSpace text)) agents")
    case None
    with r show ?thesis
      by (auto simp: RouteMessage_def Let_def update_conv' find_Some_iff split: if_splits option.splits)
  next
    case (Some b)
    with r show ?thesis by (auto simp: RouteMessage_def Let_def update_conv' firstAgent_in split: if_splits)
  qed
  then obtain e where e: "map_of l' ?key = Some e" "la_agentName e = ac_Name a" by blast
  have "List.find (\<lambda>x. ac_Name x = ac_Name a) agents \<noteq> None" using am by (auto simp: find_None_iff)
  then obtain a' where a': "List.find (\<lambda>x. ac_Name x = ac_Name a) agents = Some a'" by blast
  then have "ac_Name a' = ac_Name a" by (auto simp: find_Some_iff)
  moreover have "RouteMessage ul uu now' text' agents g u l'
      = (Some (a', TrimSpace text'), AList.update ?key (e\<lparr>la_lastAccessed := now'\<rparr>) l')"
    using t by (simp add: RouteMessage_def Let_def n e a')
  ultimately show ?thesis using am by blast
qed

lemma cleanup_lastAddressed_bound: "distinct (map fst l) \<Longrightarrow> length (cleanup_lastAddressed now l) \<le> lastAddressedMaxSize"
  by (simp add: cleanup_lastAddressed_def Let_def length_dropOldest distinct_map_filter)

section \<open>The message store refines the list of what was said\<close>

lemma getHistoryKey_inj:
  assumes "CHR '':'' \<notin> set w" "CHR '':'' \<notin> set u" "CHR '':'' \<notin> set w'" "CHR '':'' \<notin> set u'"
  shows "getHistoryKey w u n = getHistoryKey w' u' n' \<longleftrightarrow> w = w' \<and> u = u' \<and> n = n'"
proof -
  have split: "x @ CHR '':'' # r = y @ CHR '':'' # s \<longleftrightarrow> x = y \<and> r = s"
    if "CHR '':'' \<notin> set x" "CHR '':'' \<notin> set y" for x y r s
    using that by (induction x arbitrary: y) (case_tac y; auto)+
  show ?thesis using assms by (auto simp: getHistoryKey_def split)
qed

datatype historyOp = Added string string string nat | Looked string nat

fun historyStep :: "historyOp \<Rightarrow> historyStore \<Rightarrow> historyStore" where
  "historyStep (Added key role content now) h = AddToHistory now key role content h"
| "historyStep (Looked key now) h = snd (GetHistory now key h)"

definition historyAfter :: "historyOp list \<Rightarrow> historyStore" where
  "historyAfter ops = fold historyStep ops []"

fun said :: "string \<Rightarrow> historyOp list \<Rightarrow> ChatMessage list" where
  "said key [] = []"
| "said key (Added k role content now # ops) = (if k = key then [\<lparr>cm_Role = role, cm_Content = content\<rparr>] else []) @ said key ops"
| "said key (Looked k now # ops) = said key ops"

definition keysUsed :: "historyOp list \<Rightarrow> string set" where
  "keysUsed ops = {k. said k ops \<noteq> []}"

definition lastOnes :: "ChatMessage list \<Rightarrow> ChatMessage list" where
  "lastOnes ms = drop (length ms - maxMessagesPerAgent) ms"

lemma said_append: "said k (a @ b) = said k a @ said k b"
  by (induction k a rule: said.induct) simp_all

lemma trimMessages_lastOnes: "trimMessages ms = lastOnes ms"
  by (simp add: trimMessages_def lastOnes_def)

lemma lastOnes_snoc: "lastOnes (lastOnes ms @ [m]) = lastOnes (ms @ [m])"
proof (cases "length ms \<le> maxMessagesPerAgent")
  case False
  then have "Suc (length ms - 20) = length ms - 19" by (simp add: maxMessagesPerAgent_def)
  then show ?thesis by (simp add: lastOnes_def maxMessagesPerAgent_def)
qed (simp add: lastOnes_def)

lemma lastOnes_suffix: "suffix (lastOnes ms) ms"
  by (simp add: lastOnes_def suffix_drop)

definition historyOk :: "(string \<Rightarrow> ChatMessage list) \<Rightarrow> historyStore \<Rightarrow> bool" where
  "historyOk added h \<longleftrightarrow>
     distinct (map fst h) \<and> length h \<le> maxHistoryKeys
     \<and> (\<forall>(k, e) \<in> set h. length (he_messages e) \<le> maxMessagesPerAgent \<and> suffix (he_messages e) (added k))"

lemma historyOk_put:
  assumes "historyOk added h" "map_of h k \<noteq> None \<or> length h < maxHistoryKeys" "length ms \<le> maxMessagesPerAgent" "suffix ms (added' k)"
    and "\<And>x. x \<noteq> k \<Longrightarrow> added' x = added x"
  shows "historyOk added' (AList.update k \<lparr>he_messages = ms, he_lastAccessed = t\<rparr> h)"
proof -
  let ?h = "AList.update k \<lparr>he_messages = ms, he_lastAccessed = t\<rparr> h"
  have d: "distinct (map fst h)" and l: "length h \<le> maxHistoryKeys" using assms(1) by (auto simp: historyOk_def)
  have "length ?h \<le> maxHistoryKeys"
  proof (cases "map_of h k")
    case None
    then show ?thesis using assms(2) length_update_le [of k _ h] by (metis Suc_leI order_trans)
  next
    case (Some e)
    then have "k \<in> fst ` set h" by (metis domI dom_map_of_conv_image_fst)
    then have "map fst ?h = map fst h" by (simp add: update_keys)
    then have "length ?h = length h" by (metis length_map)
    then show ?thesis using l by simp
  qed
  moreover have "length (he_messages e) \<le> maxMessagesPerAgent \<and> suffix (he_messages e) (added' x)" if "(x, e) \<in> set ?h" for x e
  proof -
    have "map_of ?h x = Some e" using that distinct_update [OF d] by (metis map_of_is_SomeI)
    then show ?thesis using assms(1,3,4,5) map_of_SomeD [of h x e]
      by (auto simp: update_conv' historyOk_def split: if_splits)
  qed
  ultimately show ?thesis using distinct_update [OF d] by (auto simp: historyOk_def)
qed

lemma historyOk_evict:
  assumes "historyOk added h"
  shows "historyOk added (evictOldest_history h)" "length h \<ge> maxHistoryKeys \<Longrightarrow> length (evictOldest_history h) < maxHistoryKeys"
proof -
  show "historyOk added (evictOldest_history h)"
    using assms unfolding historyOk_def evictOldest_history_def
    by (auto simp: length_dropOldest distinct_dropOldest dest!: set_dropOldestD)
  show "length h \<ge> maxHistoryKeys \<Longrightarrow> length (evictOldest_history h) < maxHistoryKeys"
    using assms by (auto simp: historyOk_def evictOldest_history_def length_dropOldest maxHistoryKeys_def)
qed

lemma evict_keeps_absent: "map_of h k = None \<Longrightarrow> map_of (evictOldest_history h) k = None"
  using set_dropOldest [of he_lastAccessed _ h]
  by (auto simp: evictOldest_history_def map_of_eq_None_iff)

lemma AddToHistory_ok:
  assumes "historyOk added h"
  shows "historyOk (added(key := added key @ [\<lparr>cm_Role = role, cm_Content = content\<rparr>])) (AddToHistory now key role content h)"
proof (cases "map_of h key")
  case None
  let ?h = "if length h \<ge> maxHistoryKeys then evictOldest_history h else h"
  have "historyOk added ?h" "length ?h < maxHistoryKeys" using historyOk_evict [OF assms] assms by auto
  then show ?thesis unfolding AddToHistory_def None option.case Let_def prod.case
    by (intro historyOk_put) (auto simp: trimMessages_def maxMessagesPerAgent_def suffix_def)
next
  case (Some e)
  then have "suffix (he_messages e) (added key)" using assms map_of_SomeD [OF Some] by (auto simp: historyOk_def)
  then have "suffix (trimMessages (he_messages e @ [\<lparr>cm_Role = role, cm_Content = content\<rparr>])) (added key @ [\<lparr>cm_Role = role, cm_Content = content\<rparr>])"
    unfolding trimMessages_lastOnes using lastOnes_suffix suffix_order.trans by (metis append_assoc suffix_def)
  then show ?thesis unfolding AddToHistory_def Some option.case Let_def prod.case
    by (intro historyOk_put [OF assms]) (auto simp: trimMessages_def Some)
qed

lemma AddToHistory_latest:
  "\<exists>e ms. map_of (AddToHistory now key role content h) key = Some e \<and> he_messages e = ms @ [\<lparr>cm_Role = role, cm_Content = content\<rparr>]"
proof -
  have "\<exists>ms. trimMessages (xs @ [m]) = ms @ [m]" for xs m
    by (auto simp: trimMessages_def maxMessagesPerAgent_def)
  from this this [of "[]", unfolded append_Nil] show ?thesis unfolding AddToHistory_def Let_def
    by (cases "map_of h key") (simp_all add: update_conv')
qed

lemma GetHistory_ok:
  assumes "historyOk added h"
  shows "historyOk added (snd (GetHistory now key h))"
proof (cases "map_of h key")
  case (Some e)
  have r: "e\<lparr>he_lastAccessed := now\<rparr> = \<lparr>he_messages = he_messages e, he_lastAccessed = now\<rparr>" by simp
  have "length (he_messages e) \<le> maxMessagesPerAgent" "suffix (he_messages e) (added key)"
    using assms map_of_SomeD [OF Some] by (auto simp: historyOk_def)
  then show ?thesis unfolding GetHistory_def Some option.case snd_conv r
    by (intro historyOk_put [OF assms]) (simp_all add: Some)
qed (use assms in \<open>simp add: GetHistory_def\<close>)

lemma historyAfter_ok: "historyOk (\<lambda>k. said k ops) (historyAfter ops)"
proof (induction ops rule: rev_induct)
  case Nil
  show ?case by (simp add: historyAfter_def historyOk_def)
next
  case (snoc x ops)
  show ?case
  proof (cases x)
    case (Added k role content now)
    have "(\<lambda>k. said k ops)(k := said k ops @ [\<lparr>cm_Role = role, cm_Content = content\<rparr>]) = (\<lambda>k. said k (ops @ [x]))"
      by (auto simp: Added said_append)
    with AddToHistory_ok [OF snoc, of k role content now] show ?thesis by (simp add: historyAfter_def Added)
  next
    case (Looked k now)
    with GetHistory_ok [OF snoc, of now k] show ?thesis by (simp add: historyAfter_def said_append)
  qed
qed

lemma finite_keysUsed: "finite (keysUsed ops)"
proof (induction ops)
  case (Cons x ops)
  have "keysUsed (x # ops) \<subseteq> insert (case x of Added k r c t \<Rightarrow> k | Looked k t \<Rightarrow> k) (keysUsed ops)"
    by (cases x) (auto simp: keysUsed_def split: if_splits)
  then show ?case using Cons by (meson finite_insert finite_subset)
qed (simp add: keysUsed_def)

lemma historyAfter_exact:
  assumes "card (keysUsed ops) \<le> maxHistoryKeys"
  shows "map_option he_messages (map_of (historyAfter ops) key) = (if said key ops = [] then None else Some (lastOnes (said key ops)))"
  using assms
proof (induction ops arbitrary: key rule: rev_induct)
  case Nil
  show ?case by (simp add: historyAfter_def)
next
  case (snoc x ops)
  have fin: "finite (keysUsed ops)" for ops by (rule finite_keysUsed)
  have sub: "keysUsed ops \<subseteq> keysUsed (ops @ [x])" by (auto simp: keysUsed_def said_append)
  then have le: "card (keysUsed ops) \<le> card (keysUsed (ops @ [x]))" by (rule card_mono [OF fin])
  with snoc have IH: "map_option he_messages (map_of (historyAfter ops) k) = (if said k ops = [] then None else Some (lastOnes (said k ops)))" for k
    by simp
  show ?case
  proof (cases x)
    case (Added k role content now)
    let ?h = "historyAfter ops" and ?m = "\<lparr>cm_Role = role, cm_Content = content\<rparr>"
    have ok: "historyOk (\<lambda>k. said k ops) ?h" by (rule historyAfter_ok)
    have room: "length ?h < maxHistoryKeys" if "map_of ?h k = None"
    proof -
      have "said k ops = []" using IH [of k] that by (simp split: if_splits)
      then have "keysUsed (ops @ [x]) = insert k (keysUsed ops)" "k \<notin> keysUsed ops" by (auto simp: keysUsed_def said_append Added split: if_splits)
      then have "card (keysUsed ops) < maxHistoryKeys" using snoc.prems fin [of ops] by simp
      moreover have "keysUsed ops = fst ` set ?h"
        using IH by (auto simp: keysUsed_def simp flip: dom_map_of_conv_image_fst split: if_splits)
          (metis domI option.map_disc_iff option.exhaust option.distinct(1))+
      then have "card (keysUsed ops) = length ?h"
        using ok distinct_card [of "map fst ?h"] by (simp add: historyOk_def)
      ultimately show ?thesis by simp
    qed
    show ?thesis
    proof (cases "key = k")
      case True
      show ?thesis
      proof (cases "map_of ?h k")
        case None
        with IH [of k] room show ?thesis
          by (simp add: historyAfter_def AddToHistory_def Added update_conv' True said_append trimMessages_lastOnes split: if_splits)
      next
        case (Some e)
        with IH [of k] show ?thesis
          by (simp add: historyAfter_def AddToHistory_def Added update_conv' True said_append trimMessages_lastOnes lastOnes_snoc split: if_splits)
      qed
    next
      case False
      with IH [of key] room show ?thesis
        by (cases "map_of ?h k") (simp_all add: historyAfter_def AddToHistory_def Added update_conv' said_append)
    qed
  next
    case (Looked k now)
    with IH [of key] IH [of k] show ?thesis
      by (cases "map_of (historyAfter ops) k") (auto simp: historyAfter_def GetHistory_def update_conv' said_append split: if_splits)
  qed
qed

text \<open>
  C36. After any sequence of messages and look-ups the message store has at most 1000 conversations of at most 20 messages, and what a look-up
  returns are the most recent messages of that conversation, in order: all of the last 20 as long as at most 1000 conversations were ever
  used, and always at least the message that came last.
\<close>

theorem history_is_the_recent_past:
  "length (historyAfter ops) \<le> 1000
   \<and> length (fst (GetHistory now key (historyAfter ops))) \<le> 20
   \<and> suffix (fst (GetHistory now key (historyAfter ops))) (said key ops)
   \<and> suffix [\<lparr>cm_Role = role, cm_Content = content\<rparr>] (fst (GetHistory now key (historyAfter (ops @ [Added key role content t]))))
   \<and> (card (keysUsed ops) \<le> 1000
      \<longrightarrow> fst (GetHistory now key (historyAfter ops)) = drop (length (said key ops) - 20) (said key ops))"
proof -
  have ok: "historyOk (\<lambda>k. said k ops) (historyAfter ops)" for ops by (rule historyAfter_ok)
  have got: "length (fst (GetHistory now key (historyAfter ops))) \<le> 20" "suffix (fst (GetHistory now key (historyAfter ops))) (said key ops)"
    using ok [of ops] map_of_SomeD [of "historyAfter ops" key]
    by (auto simp: GetHistory_def historyOk_def maxMessagesPerAgent_def split: option.splits)
  moreover have "suffix [\<lparr>cm_Role = role, cm_Content = content\<rparr>] (fst (GetHistory now key (historyAfter (ops @ [Added key role content t]))))"
    using AddToHistory_latest [of t key role content "historyAfter ops"] by (auto simp: historyAfter_def GetHistory_def suffix_def)
  moreover have "fst (GetHistory now key (historyAfter ops)) = drop (length (said key ops) - 20) (said key ops)"
    if "card (keysUsed ops) \<le> 1000"
    using historyAfter_exact [of ops key] that
    by (auto simp: GetHistory_def lastOnes_def maxMessagesPerAgent_def maxHistoryKeys_def split: option.splits if_splits)
  ultimately show ?thesis using ok [of ops] by (auto simp: historyOk_def maxHistoryKeys_def)
qed

theorem history_is_the_recent_past_witness:
  "card (keysUsed [Added ''k'' ''user'' ''hi'' 5]) \<le> 1000
   \<and> fst (GetHistory 6 ''k'' (historyAfter [Added ''k'' ''user'' ''hi'' 5])) = [\<lparr>cm_Role = ''user'', cm_Content = ''hi''\<rparr>]"
proof -
  have "keysUsed [Added ''k'' ''user'' ''hi'' 5] = {''k''}" by (auto simp: keysUsed_def)
  then have "card (keysUsed [Added ''k'' ''user'' ''hi'' 5]) \<le> 1000" by simp
  moreover from this have "fst (GetHistory 6 ''k'' (historyAfter [Added ''k'' ''user'' ''hi'' 5]))
      = drop (length (said ''k'' [Added ''k'' ''user'' ''hi'' 5]) - 20) (said ''k'' [Added ''k'' ''user'' ''hi'' 5])"
    using history_is_the_recent_past [of "[Added ''k'' ''user'' ''hi'' 5]" 6 "''k''"] by blast
  ultimately show ?thesis by simp
qed

end
