(* ===== verification/Conversation.thy ===== *)
theory Conversation
  imports Routing Clarifications
begin

text \<open>
  Chat messages (\<open>bot/conversation/manager.go\<close>, \<open>user_config.go\<close>) and what they read and write in the store (\<open>go-shared/user_config.go\<close>,
  \<open>conversation_history.go\<close>, \<open>usage.go\<close>). The language model, the decoder of an agent's scope, the random choice of a test response and the
  deadline of the request are parameters; the requests to the model are recorded in \<open>cv_chats\<close>. The three concurrent reads of \<open>GetUserConfig\<close> run
  one after the other here: they only read, and each of them runs whatever the others return. \<open>elapsed.Minutes() * 20\<close> of the token bucket is
  computed exactly; at millisecond resolution the \<open>float64\<close> of the code truncates to the same integer.
\<close>

section \<open>Rows of the conversation\<close>

definition insertMessageError :: "ConversationHistory \<Rightarrow> db \<Rightarrow> string option" where
  "insertMessageError m d =
     (if list_ex (\<lambda>v. ch_ID v = ch_ID m) (db_history d) then Some duplicateKey
      else if list_ex (\<lambda>a. a_ID a = ch_AgentID m) (db_agents d) \<and> list_ex (\<lambda>w. wk_ID w = ch_WorkspaceID m) (db_workspaces d) then None
      else Some foreignKey)"

definition AddConversationMessage :: "string \<Rightarrow> string \<Rightarrow> string \<Rightarrow> string \<Rightarrow> db \<Rightarrow> unit result \<times> db" where
  "AddConversationMessage workspaceID agentID role content d =
     (let (mid, d1) = newID d; (now, d2) = timeNow d1;
          row = \<lparr>ch_ID = mid, ch_WorkspaceID = workspaceID, ch_AgentID = agentID, ch_Role = role, ch_Content = content, ch_CreatedAt = now\<rparr>
      in execChecked ''add conversation message'' (insertMessageError row) (\<lambda>d. d\<lparr>db_history := db_history d @ [row]\<rparr>) d2)"

definition ofConversation :: "string \<Rightarrow> string \<Rightarrow> ConversationHistory \<Rightarrow> bool" where
  "ofConversation workspaceID agentID m \<longleftrightarrow> ch_WorkspaceID m = workspaceID \<and> ch_AgentID m = agentID"

definition GetConversationHistory :: "string \<Rightarrow> string \<Rightarrow> int \<Rightarrow> db \<Rightarrow> ConversationHistory list result \<times> db" where
  "GetConversationHistory workspaceID agentID limit =
     (let n = if limit \<le> 0 \<or> limit > 1000 then 1000 else nat limit in
      queryRows ''get conversation history'' ''scan conversation message'' ''iterate conversation history''
        (\<lambda>d. sort_key ch_CreatedAt (take n (orderDesc ch_CreatedAt (filter (ofConversation workspaceID agentID) (db_history d))))))"

definition ClearConversationHistory :: "string \<Rightarrow> string \<Rightarrow> db \<Rightarrow> unit result \<times> db" where
  "ClearConversationHistory workspaceID agentID =
     execStmt ''clear conversation history''
       (\<lambda>d. d\<lparr>db_history := deleteRows (ofConversation workspaceID agentID) (db_history d)\<rparr>)"

definition TrimConversationHistory :: "string \<Rightarrow> string \<Rightarrow> int \<Rightarrow> db \<Rightarrow> unit result \<times> db" where
  "TrimConversationHistory workspaceID agentID keepCount =
     execChecked ''trim conversation history'' (\<lambda>d. pageError keepCount 0)
       (\<lambda>d. let keep = map ch_ID (take (nat keepCount) (orderDesc ch_CreatedAt (filter (ofConversation workspaceID agentID) (db_history d))))
            in d\<lparr>db_history := deleteRows (\<lambda>m. ofConversation workspaceID agentID m \<and> ch_ID m \<notin> set keep) (db_history d)\<rparr>)"

section \<open>Usage\<close>

text \<open>A \<open>numeric(12,4)\<close> column: four decimals, halves away from zero, less than \<open>10^8\<close>.\<close>

definition numeric12_4 :: "rat \<Rightarrow> rat option" where
  "numeric12_4 x =
     (let n = (if x \<ge> 0 then floor (x * 10000 + 1 / 2) else - floor (- x * 10000 + 1 / 2)) in
      if \<bar>n\<bar> < 10 ^ 12 then Some (of_int n / 10000) else None)"

definition insertUsageError :: "UsageRecord \<Rightarrow> db \<Rightarrow> string option" where
  "insertUsageError u d =
     (if numeric12_4 (ur_Quantity u) = None then Some ''pq: numeric field overflow''
      else if list_ex (\<lambda>v. ur_ID v = ur_ID u) (db_usage d) then Some duplicateKey
      else if list_ex (\<lambda>v. us_ID v = ur_UserID u) (db_users d)
           \<and> (case ur_SessionID u of None \<Rightarrow> True | Some s \<Rightarrow> list_ex (\<lambda>v. s_ID v = s) (db_sessions d)) then None
      else Some foreignKey)"

text \<open>\<open>metadata\<close> is the encoded map or the error of \<open>json.Marshal\<close>.\<close>

definition RecordUsage ::
    "string \<Rightarrow> UsageType \<Rightarrow> rat \<Rightarrow> string result option \<Rightarrow> string option \<Rightarrow> db \<Rightarrow> unit result \<times> db" where
  "RecordUsage userID usageType quantity metadata sessionID d =
     (let (uid, d1) = newID d; (now, d2) = timeNow d1 in
      case metadata of
        Some (Inl e) \<Rightarrow> (Inl (''marshal metadata: '' @ e), d2)
      | _ \<Rightarrow>
          let row = \<lparr>ur_ID = uid, ur_UserID = userID, ur_Type = usageType, ur_Quantity = quantity,
                     ur_Metadata = (case metadata of Some (Inr j) \<Rightarrow> Some j | _ \<Rightarrow> None), ur_SessionID = sessionID, ur_RecordedAt = now\<rparr>
          in execChecked ''record usage'' (insertUsageError row)
               (\<lambda>d. d\<lparr>db_usage := db_usage d @ [row\<lparr>ur_Quantity := (case numeric12_4 quantity of Some q \<Rightarrow> q | None \<Rightarrow> 0)\<rparr>]\<rparr>) d2)"

definition usageIn :: "string \<Rightarrow> nat \<Rightarrow> nat \<Rightarrow> UsageRecord \<Rightarrow> bool" where
  "usageIn userID startDate endDate u \<longleftrightarrow> ur_UserID u = userID \<and> startDate \<le> ur_RecordedAt u \<and> ur_RecordedAt u \<le> endDate"

text \<open>One row for every type that occurs; \<open>GROUP BY\<close> leaves their order open.\<close>

definition GetUserUsageSummary :: "string \<Rightarrow> nat \<Rightarrow> nat \<Rightarrow> db \<Rightarrow> (UsageType \<times> rat) list result \<times> db" where
  "GetUserUsageSummary userID startDate endDate =
     queryRows ''get user usage summary'' ''scan usage summary'' ''iterate usage summary''
       (\<lambda>d. let rows = filter (usageIn userID startDate endDate) (db_usage d) in
            map (\<lambda>ty. (ty, sum_list (map ur_Quantity (filter (\<lambda>u. ur_Type u = ty) rows)))) (remdups (map ur_Type rows)))"

definition GetSessionUsage :: "string \<Rightarrow> db \<Rightarrow> UsageRecord list result \<times> db" where
  "GetSessionUsage sessionID =
     queryRows ''get session usage'' ''scan usage record'' ''iterate usage records''
       (\<lambda>d. sort_key ur_RecordedAt (filter (\<lambda>u. ur_SessionID u = Some sessionID) (db_usage d)))"

section \<open>State and environment\<close>

record UserApiKey =
  uk_Provider :: LLMProvider
  uk_APIKey :: string
  uk_Label :: "string option"
  uk_BaseURL :: "string option"
  uk_ModelID :: "string option"

record UserConfig =
  uc_ID :: string
  uc_APIKeys :: "UserApiKey list"
  uc_Agents :: "AgentConfig list"
  uc_GithubToken :: "string option"
  uc_Repos :: "string list"

record configEntry =
  cf_config :: UserConfig
  cf_expiresAt :: nat
  cf_lastAccessed :: nat

type_synonym configCache = "(string \<times> configEntry) list"

record tokenBucket =
  tb_tokens :: nat
  tb_lastRefill :: nat

type_synonym rateLimiters = "(string \<times> tokenBucket) list"

record convEnv =
  ce_lower :: "string \<Rightarrow> string"
  ce_upper :: "string \<Rightarrow> string"
  ce_prims :: primitives
  ce_key :: string \<comment> \<open>\<open>ENCRYPTION_KEY\<close>\<close>
  ce_scope :: "string \<Rightarrow> AgentConfigScope result" \<comment> \<open>the decoder of \<open>scope_config\<close>\<close>
  ce_ctxErr :: "string option" \<comment> \<open>\<open>ctx.Err()\<close> after the user was read\<close>
  ce_ctxErr2 :: "string option" \<comment> \<open>\<open>ctx.Err()\<close> after the concurrent reads\<close>
  ce_testMode :: bool
  ce_rand :: nat
  ce_newClient :: "UserApiKey \<Rightarrow> string option"
  ce_chat :: "UserApiKey \<Rightarrow> ChatMessage list \<Rightarrow> string \<Rightarrow> nat \<Rightarrow> string result"

record ConvState =
  cv_db :: db
  cv_threads :: "(string \<times> nat) list"
  cv_emojis :: "(string \<times> string) list"
  cv_limits :: rateLimiters
  cv_last :: lastAddressedEntry
  cv_history :: historyStore
  cv_cache :: configCache
  cv_keys :: scryptCache
  cv_chats :: "(ChatMessage list \<times> string) list"

definition onConv :: "(db \<Rightarrow> 'a \<times> db) \<Rightarrow> ConvState \<Rightarrow> 'a \<times> ConvState" where
  "onConv m st = (let (r, d) = m (cv_db st) in (r, st\<lparr>cv_db := d\<rparr>))"

section \<open>Configuration of a user\<close>

fun agentConfigs :: "convEnv \<Rightarrow> Agent list \<Rightarrow> AgentConfig list result" where
  "agentConfigs env [] = Inr []"
| "agentConfigs env (a # as) =
     (case ce_scope env (a_ScopeConfig a) of
        Inl e \<Rightarrow> Inl (''unmarshal scope config for agent '' @ a_ID a @ '': '' @ e)
      | Inr scope \<Rightarrow>
          (case agentConfigs env as of
             Inl e \<Rightarrow> Inl e
           | Inr cs \<Rightarrow>
               Inr (\<lparr>ac_ID = a_ID a, ac_Name = a_Name a, ac_Role = a_Role a, ac_Personality = a_Personality a, ac_VoiceID = a_VoiceID a,
                     ac_Scope = scope, ac_APIKeyID = a_APIKeyID a\<rparr> # cs)))"

definition decryptConv :: "convEnv \<Rightarrow> string \<Rightarrow> ConvState \<Rightarrow> string result \<times> ConvState" where
  "decryptConv env secret st =
     (let (now, st1) = onConv timeNow st;
          (r, keys) = DecryptWithKey (ce_prims env) (ce_key env) now secret (cv_keys st1)
      in (r, st1\<lparr>cv_keys := keys\<rparr>))"

definition providerText :: "LLMProvider \<Rightarrow> string" where
  "providerText p =
     (case p of Anthropic \<Rightarrow> ''anthropic'' | OpenAI \<Rightarrow> ''openai'' | Google \<Rightarrow> ''google'' | Venice \<Rightarrow> ''venice'' | Groq \<Rightarrow> ''groq''
        | Together \<Rightarrow> ''together'' | Fireworks \<Rightarrow> ''fireworks'' | Custom \<Rightarrow> ''custom'')"

fun userApiKeys :: "convEnv \<Rightarrow> ApiKey list \<Rightarrow> ConvState \<Rightarrow> UserApiKey list result \<times> ConvState" where
  "userApiKeys env [] st = (Inr [], st)"
| "userApiKeys env (k # ks) st =
     (case decryptConv env (ak_APIKey k) st of
        (Inl e, st1) \<Rightarrow> (Inl (''decrypt api key '' @ ak_ID k @ '' (provider='' @ providerText (ak_Provider k) @ ''): '' @ e), st1)
      | (Inr decrypted, st1) \<Rightarrow>
          (case userApiKeys env ks st1 of
             (Inl e, st2) \<Rightarrow> (Inl e, st2)
           | (Inr us, st2) \<Rightarrow>
               (Inr (\<lparr>uk_Provider = ak_Provider k, uk_APIKey = decrypted, uk_Label = Some (ak_Label k), uk_BaseURL = ak_BaseURL k,
                      uk_ModelID = ak_ModelID k\<rparr> # us), st2)))"

text \<open>The part that works on the rows that were read.\<close>

definition assembleConfig ::
    "convEnv \<Rightarrow> string \<Rightarrow> Agent list \<Rightarrow> ApiKey list \<Rightarrow> GithubConnection option \<Rightarrow> ConvState \<Rightarrow> UserConfig result \<times> ConvState" where
  "assembleConfig env uid agents keys ghConn st =
     (case agentConfigs env agents of
        Inl e \<Rightarrow> (Inl e, st)
      | Inr cs \<Rightarrow>
          (case userApiKeys env keys st of
             (Inl e, st1) \<Rightarrow> (Inl e, st1)
           | (Inr us, st1) \<Rightarrow>
               (case ghConn of
                  None \<Rightarrow> (Inr \<lparr>uc_ID = uid, uc_APIKeys = us, uc_Agents = cs, uc_GithubToken = None, uc_Repos = []\<rparr>, st1)
                | Some c \<Rightarrow>
                    (case decryptConv env (gh_GithubToken c) st1 of
                       (Inl e, st2) \<Rightarrow> (Inl (''decrypt github token: '' @ e), st2)
                     | (Inr t, st2) \<Rightarrow>
                         (Inr \<lparr>uc_ID = uid, uc_APIKeys = us, uc_Agents = cs, uc_GithubToken = Some t, uc_Repos = gh_Repos c\<rparr>, st2)))))"

definition GetUserConfig :: "convEnv \<Rightarrow> string \<Rightarrow> ConvState \<Rightarrow> UserConfig result \<times> ConvState" where
  "GetUserConfig env userID st =
     (case onConv (GetUserByID userID) st of
        (Inl e, st1) \<Rightarrow> (Inl (''get user: '' @ e), st1)
      | (Inr None, st1) \<Rightarrow> (Inl ''user not found'', st1)
      | (Inr (Some user), st1) \<Rightarrow>
          (case ce_ctxErr env of
             Some e \<Rightarrow> (Inl e, st1)
           | None \<Rightarrow>
               let (agents, st2) = onConv (ListAgents userID) st1;
                   (keys, st3) = onConv (ListAPIKeys userID) st2;
                   (ghConn, st4) = onConv (GetGithubConnection userID) st3
               in (case ce_ctxErr2 env of
                     Some e \<Rightarrow> (Inl (''context cancelled: '' @ e), st4)
                   | None \<Rightarrow>
                       (case agents of
                          Inl e \<Rightarrow> (Inl (''list agents: '' @ e), st4)
                        | Inr as \<Rightarrow>
                            (case keys of
                               Inl e \<Rightarrow> (Inl (''list api keys: '' @ e), st4)
                             | Inr ks \<Rightarrow>
                                 (case ghConn of
                                    Inl e \<Rightarrow> (Inl (''get github connection: '' @ e), st4)
                                  | Inr gc \<Rightarrow> assembleConfig env (us_ID user) as ks gc st4))))))"

section \<open>Cache of the configurations\<close>

definition cacheTTL :: nat where "cacheTTL = 60000"
definition configCacheSize :: nat where "configCacheSize = 10000"
definition cleanupThreshold :: nat where "cleanupThreshold = 1800"

text \<open>
  \<open>get\<close>: the map holds structs, so \<open>entry\<close> is a copy and the time stored in its \<open>lastAccessed\<close> is lost.
\<close>

definition configCache_get :: "nat \<Rightarrow> string \<Rightarrow> configCache \<Rightarrow> UserConfig option \<times> configCache" where
  "configCache_get now key c =
     (case map_of c key of
        None \<Rightarrow> (None, c)
      | Some entry \<Rightarrow> if now > cf_expiresAt entry then (None, AList.delete key c) else (Some (cf_config entry), c))"

definition evictOldest_config :: "configCache \<Rightarrow> configCache" where
  "evictOldest_config c =
     (if c = [] then c else dropOldest cf_lastAccessed (if length c < 100 then 1 else 100) c)"

definition configCache_set :: "nat \<Rightarrow> string \<Rightarrow> UserConfig \<Rightarrow> configCache \<Rightarrow> configCache" where
  "configCache_set now key config c =
     AList.update key \<lparr>cf_config = config, cf_expiresAt = now + cacheTTL, cf_lastAccessed = now div 1000\<rparr>
       (if length c \<ge> configCacheSize then evictOldest_config c else c)"

definition evictStale_config :: "nat \<Rightarrow> configCache \<Rightarrow> configCache" where
  "evictStale_config now c = filter (\<lambda>(k, e). \<not> cf_lastAccessed e + cleanupThreshold < now div 1000) c"

definition platformName :: "Platform \<Rightarrow> string" where
  "platformName p = (case p of Discord \<Rightarrow> ''discord'' | Slack \<Rightarrow> ''slack'')"

definition configKey :: "Platform \<Rightarrow> string \<Rightarrow> string" where
  "configKey platform platformID = platformName platform @ '':'' @ platformID"

definition loadConfig :: "convEnv \<Rightarrow> Platform \<Rightarrow> string \<Rightarrow> ConvState \<Rightarrow> UserConfig option result \<times> ConvState" where
  "loadConfig env platform platformID st =
     (case onConv (GetWorkspaceByPlatform platform platformID) st of
        (Inl e, st1) \<Rightarrow> (Inl e, st1)
      | (Inr None, st1) \<Rightarrow> (Inr None, st1)
      | (Inr (Some workspace), st1) \<Rightarrow>
          (case GetUserConfig env (wk_UserID workspace) st1 of
             (Inl e, st2) \<Rightarrow> (Inl e, st2)
           | (Inr config, st2) \<Rightarrow> (Inr (Some config), st2)))"

text \<open>The clock is read when there is an entry.\<close>

definition cachedConfig :: "string \<Rightarrow> ConvState \<Rightarrow> UserConfig option \<times> ConvState" where
  "cachedConfig key st =
     (if map_of (cv_cache st) key = None then (None, st)
      else let (now, st1) = onConv timeNow st; (hit, c) = configCache_get now key (cv_cache st1) in (hit, st1\<lparr>cv_cache := c\<rparr>))"

definition storeConfig :: "string \<Rightarrow> UserConfig \<Rightarrow> ConvState \<Rightarrow> ConvState" where
  "storeConfig key config st =
     (let (now, st1) = onConv timeNow st in st1\<lparr>cv_cache := configCache_set now key config (cv_cache st1)\<rparr>)"

definition GetUserConfigByWorkspace :: "convEnv \<Rightarrow> Platform \<Rightarrow> string \<Rightarrow> ConvState \<Rightarrow> UserConfig option result \<times> ConvState" where
  "GetUserConfigByWorkspace env platform platformID st =
     (let key = configKey platform platformID in
      case cachedConfig key st of
        (Some config, st1) \<Rightarrow> (Inr (Some config), st1)
      | (None, st1) \<Rightarrow>
          (case loadConfig env platform platformID st1 of
             (Inr (Some config), st2) \<Rightarrow> (Inr (Some config), storeConfig key config st2)
           | (r, st2) \<Rightarrow> (r, st2)))"

definition InvalidateCache :: "Platform \<Rightarrow> string \<Rightarrow> ConvState \<Rightarrow> ConvState" where
  "InvalidateCache platform platformID st = st\<lparr>cv_cache := AList.delete (configKey platform platformID) (cv_cache st)\<rparr>"

section \<open>Rate limit\<close>

definition messagesPerMinute :: nat where "messagesPerMinute = 20"

definition refill :: "nat \<Rightarrow> tokenBucket \<Rightarrow> tokenBucket" where
  "refill now b =
     (let tokensToAdd = (now - tb_lastRefill b) * messagesPerMinute div 60000 in
      if tokensToAdd > 0 then \<lparr>tb_tokens = min (tb_tokens b + tokensToAdd) messagesPerMinute, tb_lastRefill = now\<rparr> else b)"

definition checkMessageRate :: "nat \<Rightarrow> string \<Rightarrow> rateLimiters \<Rightarrow> bool \<times> rateLimiters" where
  "checkMessageRate now userID m =
     (case map_of m userID of
        None \<Rightarrow> (True, AList.update userID \<lparr>tb_tokens = messagesPerMinute - 1, tb_lastRefill = now\<rparr> m)
      | Some bucket \<Rightarrow>
          let b = refill now bucket in
          if tb_tokens b > 0 then (True, AList.update userID (b\<lparr>tb_tokens := tb_tokens b - 1\<rparr>) m)
          else (False, AList.update userID b m))"

definition cleanupRateLimiters :: "nat \<Rightarrow> rateLimiters \<Rightarrow> rateLimiters" where
  "cleanupRateLimiters now m = filter (\<lambda>(k, b). \<not> tb_lastRefill b + 120000 < now) m"

section \<open>Threads and emojis\<close>

definition maxClarificationThreads :: nat where "maxClarificationThreads = 1000"
definition clarificationTTL :: nat where "clarificationTTL = 1800000"

definition RegisterClarificationThread :: "string \<Rightarrow> ConvState \<Rightarrow> ConvState" where
  "RegisterClarificationThread threadID st =
     (let (now, st1) = onConv timeNow st in st1\<lparr>cv_threads := AList.update threadID now (cv_threads st1)\<rparr>)"

definition UnregisterClarificationThread :: "string \<Rightarrow> ConvState \<Rightarrow> ConvState" where
  "UnregisterClarificationThread threadID st = st\<lparr>cv_threads := AList.delete threadID (cv_threads st)\<rparr>"

fun oldestThread :: "string \<times> nat \<Rightarrow> (string \<times> nat) list \<Rightarrow> string \<times> nat" where
  "oldestThread best [] = best"
| "oldestThread best ((k, v) # ts) = oldestThread (if v < snd best then (k, v) else best) ts"

text \<open>One tick: the expired threads go, and one more when there are too many.\<close>

definition cleanupClarificationThreads :: "nat \<Rightarrow> (string \<times> nat) list \<Rightarrow> (string \<times> nat) list" where
  "cleanupClarificationThreads now ts =
     (let ts1 = filter (\<lambda>(k, createdAt). \<not> createdAt + clarificationTTL < now) ts in
      if length ts1 > maxClarificationThreads
      then let oldest = fst (oldestThread (hd ts1) (tl ts1)) in if oldest \<noteq> [] then AList.delete oldest ts1 else ts1
      else ts1)"

definition agentEmojis :: "string list" where
  "agentEmojis =
    [[CHR 0xF0, CHR 0x9F, CHR 0x9F, CHR 0xA3], [CHR 0xF0, CHR 0x9F, CHR 0x94, CHR 0xB5], [CHR 0xF0, CHR 0x9F, CHR 0x9F, CHR 0xA2],
     [CHR 0xF0, CHR 0x9F, CHR 0x9F, CHR 0xA0], [CHR 0xF0, CHR 0x9F, CHR 0x94, CHR 0xB4], [CHR 0xF0, CHR 0x9F, CHR 0x9F, CHR 0xA1],
     [CHR 0xE2, CHR 0x9A, CHR 0xAA], [CHR 0xF0, CHR 0x9F, CHR 0x9F, CHR 0xA4]]"

fun agentIndex :: "string \<Rightarrow> AgentConfig list \<Rightarrow> nat option" where
  "agentIndex name [] = None"
| "agentIndex name (a # as) = (if ac_Name a = name then Some 0 else map_option Suc (agentIndex name as))"

definition getAgentEmoji :: "string \<Rightarrow> AgentConfig list \<Rightarrow> ConvState \<Rightarrow> string \<times> ConvState" where
  "getAgentEmoji agentName allAgents st =
     (case map_of (cv_emojis st) agentName of
        Some emoji \<Rightarrow> (emoji, st)
      | None \<Rightarrow>
          let i = (case agentIndex agentName allAgents of Some idx \<Rightarrow> idx | None \<Rightarrow> length (cv_emojis st));
              emoji = agentEmojis ! (i mod length agentEmojis)
          in (emoji, st\<lparr>cv_emojis := AList.update agentName emoji (cv_emojis st)\<rparr>))"

fun agentLines :: "AgentConfig list \<Rightarrow> AgentConfig list \<Rightarrow> ConvState \<Rightarrow> string \<times> ConvState" where
  "agentLines all [] st = ([], st)"
| "agentLines all (a # as) st =
     (let (emoji, st1) = getAgentEmoji (ac_Name a) all st; (rest, st2) = agentLines all as st1
      in (emoji @ '' *'' @ ac_Name a @ ''* -- '' @ ac_Role a @ [CHR 0x0A] @ rest, st2))"

section \<open>Texts\<close>

definition replacementRune :: string where
  "replacementRune = [CHR 0xEF, CHR 0xBF, CHR 0xBD]"

definition keptRune :: "nat \<Rightarrow> bool" where
  "keptRune r \<longleftrightarrow>
     r = 10 \<or> r = 9
     \<or> \<not> (r \<le> 0x1F \<or> (0x7F \<le> r \<and> r \<le> 0x9F)) \<and> \<not> (0x200B \<le> r \<and> r \<le> 0x200F) \<and> \<not> (0x202A \<le> r \<and> r \<le> 0x202E) \<and> r \<noteq> 0xFEFF"

text \<open>\<open>[]rune(text)\<close> reads an invalid byte as U+FFFD and \<open>string(...)\<close> writes its three bytes.\<close>

definition sanitizeInput :: "string \<Rightarrow> string" where
  "sanitizeInput text =
     TrimSpace (concat (filter (\<lambda>r. keptRune (runeVal r)) (map (\<lambda>r. if runeSize r = 0 then replacementRune else r) (runesOf text))))"

definition buildSystemPrompt :: "AgentConfig \<Rightarrow> Platform \<Rightarrow> string" where
  "buildSystemPrompt agent platform =
     Join ([''You are '' @ ac_Name agent @ '', a '' @ ac_Role agent @ '' on a software development team.'',
            ''Your personality: '' @ ac_Personality agent,
            ''You specialize in: '' @ Join (sc_Languages (ac_Scope agent)) '', '',
            ''Your focus areas: '' @ Join (sc_Directories (ac_Scope agent)) '', '',
            []]
           @ (if platform = Discord
              then [''You are speaking in a Discord voice call. Everything you say is read aloud via text-to-speech so you MUST be extremely brief.'',
                    ''STRICT RULES: Maximum 1-2 short sentences. Never more than 30 words total. No lists. No elaboration unless explicitly asked.'',
                    ''Never reference specific file names, paths, or extensions. Talk about features, components, and systems instead.'',
                    ''Never use markdown formatting, code blocks, bullet points, or special characters - speak naturally as if talking to a colleague.'']
              else [''You are responding in a Slack channel. Keep responses concise but you can use markdown formatting.'',
                    ''Keep responses to 2-3 sentences unless the user asks for more detail.''])) [CHR 0x0A]"

definition testResponses :: "bool \<Rightarrow> string list" where
  "testResponses isWork =
     (if isWork
      then [''On it. Let me dig into the repo and see what makes sense.'', ''Good call. Give me a minute to look through the codebase.'',
            ''I'll take a look. Let me explore what we're working with.'']
      else [''Got it, I hear you loud and clear.'', ''Understood. I'm here and ready.'', ''Copy that. What do you need?'',
            ''I'm listening. Go ahead.''])"

definition getTestResponse :: "convEnv \<Rightarrow> bool \<Rightarrow> string" where
  "getTestResponse env isWork = testResponses isWork ! (ce_rand env mod length (testResponses isWork))"

definition skipWords :: "string list" where
  "skipWords = [''skip'', ''nevermind'', ''never mind'', ''cancel'', ''just decide'', ''your call'']"

section \<open>Messages\<close>

text \<open>A reply in a thread that waits for an answer; \<open>None\<close> when the message is handled like any other.\<close>

definition answerInThread :: "convEnv \<Rightarrow> string \<Rightarrow> string \<Rightarrow> UserConfig \<Rightarrow> string \<Rightarrow> ConvState \<Rightarrow> string result option \<times> ConvState" where
  "answerInThread env text userID userConfig threadID st =
     (if threadID = [] \<or> map_of (cv_threads st) threadID = None then (None, st)
      else case onConv (GetWaitingSessionByThreadID (uc_ID userConfig) threadID) st of
             (Inl e, st1) \<Rightarrow> (Some (Inl (''get waiting session by thread id: '' @ e)), st1)
           | (Inr None, st1) \<Rightarrow> (None, st1)
           | (Inr (Some waiting), st1) \<Rightarrow>
               if s_PlatformUserID (w_Session waiting) \<noteq> Some userID then (Some (Inr []), st1)
               else case onConv (GetPendingClarifications (s_ID (w_Session waiting))) st1 of
                      (Inl e, st2) \<Rightarrow> (Some (Inl (''get pending clarifications: '' @ e)), st2)
                    | (Inr [], st2) \<Rightarrow> (None, st2)
                    | (Inr (c # _), st2) \<Rightarrow>
                        let isSkip = TrimSpace (ToLower (ce_lower env) text) \<in> set skipWords;
                            answerText = (if isSkip then ''Use your best judgment and proceed.'' else text)
                        in case onConv (AnswerClarification (cl_ID c) (uc_ID userConfig) answerText) st2 of
                             (Inl e, st3) \<Rightarrow> (Some (Inl (''answer clarification: '' @ e)), st3)
                           | (Inr _, st3) \<Rightarrow>
                               (Some (Inr (if isSkip then ''Skipping -- telling the agent to use its best judgment.''
                                           else ''Got it, passing your answer to the agent.'')),
                                UnregisterClarificationThread threadID st3))"

definition lastTen :: "ChatMessage list \<Rightarrow> ChatMessage list" where
  "lastTen ms = drop (length ms - 10) ms"

definition chatWith :: "convEnv \<Rightarrow> UserApiKey \<Rightarrow> ChatMessage list \<Rightarrow> string \<Rightarrow> ConvState \<Rightarrow> string option \<times> ConvState" where
  "chatWith env key ms systemPrompt st =
     ((case ce_chat env key (lastTen ms) systemPrompt 100 of Inl e \<Rightarrow> None | Inr t \<Rightarrow> Some t), st\<lparr>cv_chats := cv_chats st @ [(lastTen ms, systemPrompt)]\<rparr>)"

text \<open>The text of the response; \<open>Inl\<close> when \<open>HandleMessage\<close> returns at once.\<close>

definition respond ::
    "convEnv \<Rightarrow> Platform \<Rightarrow> string \<Rightarrow> AgentConfig \<Rightarrow> string \<Rightarrow> UserConfig \<Rightarrow> ConvState \<Rightarrow> (string result + string) \<times> ConvState" where
  "respond env plat key agent message userConfig st =
     (let isWork = DetectWorkRequest message; testGen = DetectTestGenIntent (ce_lower env) message in
      if ce_testMode env then (Inr (getTestResponse env isWork), st)
      else case uc_APIKeys userConfig of
        [] \<Rightarrow> (Inl (Inr []), st)
      | primaryKey # _ \<Rightarrow>
          (case ce_newClient env primaryKey of
             Some e \<Rightarrow> (Inl (Inl (''create llm client: '' @ e)), st)
           | None \<Rightarrow>
               let (now, st1) = (if map_of (cv_history st) key = None then (0, st) else onConv timeNow st);
                   (histMessages, h) = GetHistory (now div 1000) key (cv_history st1);
                   st2 = st1\<lparr>cv_history := h\<rparr>;
                   targetRepo = (if isWork then DetectRepo (ce_lower env) message (uc_Repos userConfig) else []);
                   working = (isWork \<and> uc_GithubToken userConfig \<noteq> None \<and> targetRepo \<noteq> [])
               in if working \<and> plat = Discord
                  then (Inr (if tg_Detected testGen
                             then ''Starting test generation targeting ''
                                  @ (if tg_TargetCoverage testGen = 80 then ''optimal'' else Itoa (tg_TargetCoverage testGen) @ ''%'')
                                  @ '' coverage. I'll update you when the PR is ready. Hang up whenever.''
                             else ''Let me review that. Want me to read my answer on this call, or post it in chat?''), st2)
                  else let (r, st3) =
                             (if working
                              then chatWith env primaryKey histMessages
                                     (buildSystemPrompt agent plat @ [CHR 0x0A] @ ''The user just asked you to do work. Acknowledge briefly and say you're on it.'') st2
                              else chatWith env primaryKey (histMessages @ [\<lparr>cm_Role = ''user'', cm_Content = message\<rparr>])
                                     (buildSystemPrompt agent plat) st2)
                       in case r of
                            None \<Rightarrow> (Inl (Inr ''I had trouble generating a response. Please try again.''), st3)
                          | Some t \<Rightarrow> (Inr t, st3)))"

definition addHistory :: "string \<Rightarrow> string \<Rightarrow> string \<Rightarrow> ConvState \<Rightarrow> ConvState" where
  "addHistory key role content st =
     (let (now, st1) = onConv timeNow st in st1\<lparr>cv_history := AddToHistory (now div 1000) key role content (cv_history st1)\<rparr>)"

text \<open>What \<open>RouteMessage\<close> does with the clock of the state.\<close>

definition routeConv :: "convEnv \<Rightarrow> string \<Rightarrow> AgentConfig list \<Rightarrow> string \<Rightarrow> string \<Rightarrow> ConvState \<Rightarrow> (AgentConfig \<times> string) option \<times> ConvState" where
  "routeConv env text agents workspaceID userID st =
     (let (now, st1) = onConv timeNow st;
          (r, l) = RouteMessage (ce_lower env) (ce_upper env) (now div 1000) text agents workspaceID userID (cv_last st1)
      in (r, st1\<lparr>cv_last := l\<rparr>))"

definition talkTo ::
    "convEnv \<Rightarrow> string \<Rightarrow> string \<Rightarrow> string \<Rightarrow> Platform \<Rightarrow> UserConfig \<Rightarrow> ConvState \<Rightarrow> string result \<times> ConvState" where
  "talkTo env text workspaceID userID platform userConfig st =
     (case routeConv env text (uc_Agents userConfig) workspaceID userID st of
        (None, st1) \<Rightarrow>
          (let (agentList, st2) = agentLines (uc_Agents userConfig) (uc_Agents userConfig) st1
           in (Inr (''Who should handle this? Say their name to get started:'' @ [CHR 0x0A] @ agentList), st2))
      | (Some (agent, message), st1) \<Rightarrow>
          (let key = getHistoryKey workspaceID userID (ac_Name agent); st2 = addHistory key ''user'' message st1 in
           case respond env platform key agent message userConfig st2 of
             (Inl r, st3) \<Rightarrow> (r, st3)
           | (Inr responseText, st3) \<Rightarrow>
               let st4 = addHistory key ''assistant'' responseText st3 in
               if length (uc_Agents userConfig) > 1
               then let (emoji, st5) = getAgentEmoji (ac_Name agent) (uc_Agents userConfig) st4;
                        bold = (if platform = Slack then ''*'' else ''**'')
                    in (Inr (emoji @ '' '' @ bold @ ac_Name agent @ bold @ '': '' @ responseText), st5)
               else (Inr responseText, st4)))"

definition HandleMessage ::
    "convEnv \<Rightarrow> string \<Rightarrow> string \<Rightarrow> string \<Rightarrow> Platform \<Rightarrow> string \<Rightarrow> ConvState \<Rightarrow> string result \<times> ConvState" where
  "HandleMessage env rawText workspaceID userID platform threadID st =
     (let text = sanitizeInput rawText in
      if length text > 10000 then (Inr ''Message too long. Please keep messages under 10,000 characters.'', st)
      else let (now, st1) = onConv timeNow st; (allowed, m) = checkMessageRate now userID (cv_limits st1); st2 = st1\<lparr>cv_limits := m\<rparr> in
           if \<not> allowed
           then (Inr ''You're sending messages too quickly. Please wait a moment before trying again.'', st2)
           else case GetUserConfigByWorkspace env platform workspaceID st2 of
                  (Inl e, st3) \<Rightarrow> (Inl (''get user config: '' @ e), st3)
                | (Inr None, st3) \<Rightarrow>
                    (Inr ''No agents are configured for this workspace. Visit https://shipmates.dev/dashboard to set up your agents.'', st3)
                | (Inr (Some userConfig), st3) \<Rightarrow>
                    if uc_Agents userConfig = []
                    then (Inr ''No agents are configured for this workspace. Visit https://shipmates.dev/dashboard to set up your agents.'', st3)
                    else case answerInThread env text userID userConfig threadID st3 of
                           (Some r, st4) \<Rightarrow> (r, st4)
                         | (None, st4) \<Rightarrow> talkTo env text workspaceID userID platform userConfig st4)"

section \<open>The rate limit holds in every window\<close>

datatype limitEvent = Ask nat string | Sweep nat

fun eventTime :: "limitEvent \<Rightarrow> nat" where
  "eventTime (Ask t u) = t"
| "eventTime (Sweep t) = t"

fun limitStep :: "limitEvent \<Rightarrow> rateLimiters \<Rightarrow> rateLimiters" where
  "limitStep (Ask t u) m = snd (checkMessageRate t u m)"
| "limitStep (Sweep t) m = cleanupRateLimiters t m"

definition limitsAfter :: "limitEvent list \<Rightarrow> rateLimiters" where
  "limitsAfter es = fold limitStep es []"

text \<open>How many messages of a user are let through.\<close>

fun admits :: "string \<Rightarrow> limitEvent \<Rightarrow> rateLimiters \<Rightarrow> nat" where
  "admits u (Ask t v) m = (if v = u \<and> fst (checkMessageRate t v m) then 1 else 0)"
| "admits u (Sweep t) m = 0"

fun admitted :: "string \<Rightarrow> limitEvent list \<Rightarrow> rateLimiters \<Rightarrow> nat" where
  "admitted u [] m = 0"
| "admitted u (e # es) m = admits u e m + admitted u es (limitStep e m)"

text \<open>
  The potential of a user's bucket: with \<open>n\<close> messages let through since \<open>t0\<close>, the tokens that are left and the messages together do not exceed what
  a full bucket and the time since \<open>t0\<close> account for; the slack is one refill interval.
\<close>

definition bucketInv :: "nat \<Rightarrow> nat \<Rightarrow> nat \<Rightarrow> tokenBucket option \<Rightarrow> bool" where
  "bucketInv t0 n now ob \<longleftrightarrow>
     (case ob of
        None \<Rightarrow> n = 0 \<or> 3000 * n + t0 \<le> now + 3000
      | Some b \<Rightarrow> tb_tokens b \<le> 20 \<and> tb_lastRefill b \<le> now \<and> (n = 0 \<or> 3000 * (n + tb_tokens b) + t0 \<le> 63000 + tb_lastRefill b))"

definition limitInv :: "nat \<Rightarrow> string \<Rightarrow> nat \<Rightarrow> nat \<Rightarrow> rateLimiters \<Rightarrow> bool" where
  "limitInv t0 u n now m \<longleftrightarrow> distinct (map fst m) \<and> bucketInv t0 n now (map_of m u)"

lemma bucketInv_later: "bucketInv t0 n now ob \<Longrightarrow> now \<le> t \<Longrightarrow> bucketInv t0 n t ob"
  by (auto simp: bucketInv_def split: option.splits)

lemma bucketInv_fresh: "bucketInv t n now ob \<Longrightarrow> bucketInv t0 0 now ob"
  by (auto simp: bucketInv_def split: option.splits)

lemma bucketInv_bound: "bucketInv t0 n now ob \<Longrightarrow> n = 0 \<or> 3000 * n + t0 \<le> 63000 + now"
  by (auto simp: bucketInv_def split: option.splits)

lemma limitInv_later: "limitInv t0 u n now m \<Longrightarrow> now \<le> t \<Longrightarrow> limitInv t0 u n t m"
  using bucketInv_later by (auto simp: limitInv_def)

lemma refill_bounds:
  assumes "tb_tokens b \<le> 20" "tb_lastRefill b \<le> t"
  shows "tb_tokens (refill t b) \<le> 20" "tb_lastRefill (refill t b) \<le> t"
    and "t < tb_lastRefill (refill t b) + 3000"
    and "3000 * tb_tokens (refill t b) + tb_lastRefill b \<le> 3000 * tb_tokens b + tb_lastRefill (refill t b)"
proof -
  let ?k = "(t - tb_lastRefill b) * 20 div 60000"
  have k: "?k = (t - tb_lastRefill b) div 3000" by (simp add: div_mult2_eq [of _ 20 3000, simplified])
  have "3000 * ?k \<le> t - tb_lastRefill b" unfolding k by simp
  moreover have "t - tb_lastRefill b < 3000" if "?k = 0" using that unfolding k by (simp add: div_eq_0_iff)
  moreover define k where "k = ?k"
  ultimately show "tb_tokens (refill t b) \<le> 20" "tb_lastRefill (refill t b) \<le> t"
    "t < tb_lastRefill (refill t b) + 3000"
    "3000 * tb_tokens (refill t b) + tb_lastRefill b \<le> 3000 * tb_tokens b + tb_lastRefill (refill t b)"
    using assms unfolding refill_def messagesPerMinute_def Let_def k_def [symmetric] by (auto simp: min_def split: if_splits)
qed

lemma limitInv_ask:
  assumes "limitInv t0 u n t m" "t0 \<le> t"
  shows "limitInv t0 u (n + admits u (Ask t v) m) t (limitStep (Ask t v) m)"
proof -
  have d: "distinct (map fst (limitStep (Ask t v) m))"
    using assms(1) by (simp add: limitInv_def checkMessageRate_def distinct_update Let_def split: option.splits)
  show ?thesis
  proof (cases "v = u")
    case False
    then have "map_of (limitStep (Ask t v) m) u = map_of m u"
      by (simp add: checkMessageRate_def update_conv' Let_def split: option.splits)
    with assms(1) d False show ?thesis by (simp add: limitInv_def)
  next
    case True
    show ?thesis
    proof (cases "map_of m u")
      case None
      then show ?thesis using assms d True
        by (auto simp: limitInv_def bucketInv_def checkMessageRate_def update_conv' messagesPerMinute_def)
    next
      case (Some b)
      let ?b = "refill t b"
      have b: "tb_tokens b \<le> 20" "tb_lastRefill b \<le> t" "n = 0 \<or> 3000 * (n + tb_tokens b) + t0 \<le> 63000 + tb_lastRefill b"
        using assms(1) by (auto simp: limitInv_def bucketInv_def Some)
      note r = refill_bounds [OF b(1,2)]
      have p: "n = 0 \<or> 3000 * (n + tb_tokens ?b) + t0 \<le> 63000 + tb_lastRefill ?b" using b(3) r(4) by auto
      have q: "3000 * tb_tokens ?b + t0 \<le> 63000 + tb_lastRefill ?b" using r(1,3) assms(2) by auto
      show ?thesis
      proof (cases "tb_tokens ?b > 0")
        case T: True
        then have "map_of (limitStep (Ask t v) m) u = Some (?b\<lparr>tb_tokens := tb_tokens ?b - 1\<rparr>)" "admits u (Ask t v) m = 1"
          using True Some by (simp_all add: checkMessageRate_def update_conv' Let_def)
        then show ?thesis using d r(1,2) p q T by (auto simp: limitInv_def bucketInv_def simp del: limitStep.simps)
      next
        case F: False
        then have "map_of (limitStep (Ask t v) m) u = Some ?b" "admits u (Ask t v) m = 0"
          using True Some by (simp_all add: checkMessageRate_def update_conv' Let_def)
        then show ?thesis using d r(1,2) p by (simp add: limitInv_def bucketInv_def del: limitStep.simps)
      qed
    qed
  qed
qed

lemma map_of_filter_value:
  assumes "distinct (map fst m)"
  shows "map_of (filter (\<lambda>(k, v). P v) m) u = (case map_of m u of Some v \<Rightarrow> if P v then Some v else None | None \<Rightarrow> None)"
  using assms
proof (induction m)
  case (Cons p m)
  obtain k v where p: "p = (k, v)" by fastforce
  show ?case
  proof (cases "k = u")
    case True
    then have "map_of m u = None" using Cons.prems p by (simp add: map_of_eq_None_iff)
    with Cons p True show ?thesis by simp
  qed (use Cons p in simp)
qed simp

lemma limitInv_sweep:
  assumes "limitInv t0 u n t m"
  shows "limitInv t0 u n t (limitStep (Sweep t) m)"
proof -
  have d: "distinct (map fst m)" using assms by (simp add: limitInv_def)
  have d': "distinct (map fst (cleanupRateLimiters t m))" using d by (simp add: cleanupRateLimiters_def distinct_map_filter)
  have "map_of (cleanupRateLimiters t m) u = (case map_of m u of Some b \<Rightarrow> if tb_lastRefill b + 120000 < t then None else Some b | None \<Rightarrow> None)"
    unfolding cleanupRateLimiters_def map_of_filter_value [OF d] by (auto split: option.splits)
  moreover have "bucketInv t0 n t (map_of m u)" using assms by (simp add: limitInv_def)
  then have "bucketInv t0 n t (case map_of m u of Some b \<Rightarrow> if tb_lastRefill b + 120000 < t then None else Some b | None \<Rightarrow> None)"
    by (cases "map_of m u") (auto simp: bucketInv_def)
  ultimately show ?thesis using d' by (simp add: limitInv_def)
qed

lemma limitInv_step:
  assumes "limitInv t0 u n now m" "now \<le> eventTime e" "t0 \<le> eventTime e"
  shows "limitInv t0 u (n + admits u e m) (eventTime e) (limitStep e m)"
proof (cases e)
  case (Ask t v)
  with limitInv_ask [OF limitInv_later [OF assms(1,2)]] assms(3) show ?thesis by simp
next
  case (Sweep t)
  with limitInv_sweep [OF limitInv_later [OF assms(1), of t]] assms(2) show ?thesis by simp
qed

lemma limitInv_run:
  assumes "limitInv t0 u n now m" "sorted (map eventTime es)" "\<forall>e \<in> set es. now \<le> eventTime e \<and> eventTime e \<le> t1" "t0 \<le> now" "now \<le> t1"
  shows "limitInv t0 u (n + admitted u es m) t1 (fold limitStep es m)"
  using assms
proof (induction es arbitrary: n now m)
  case Nil
  then show ?case using limitInv_later by simp
next
  case (Cons e es)
  have "limitInv t0 u (n + admits u e m) (eventTime e) (limitStep e m)" using Cons.prems by (intro limitInv_step) auto
  from Cons.IH [OF this] Cons.prems show ?case by (simp add: add.assoc)
qed

text \<open>
  C37. Of the messages a user sends between two times, at most 21 and one more for every three seconds between them are let through, whatever
  was sent before and whenever idle buckets are swept; and a message that comes three seconds after the last refill of the user's bucket, or later,
  is let through.
\<close>

theorem messages_are_limited:
  assumes "sorted (map eventTime (es @ fs))" "\<forall>e \<in> set es. eventTime e \<le> t0" "\<forall>e \<in> set fs. t0 \<le> eventTime e \<and> eventTime e \<le> t1" "t0 \<le> t1"
  shows "admitted u fs (limitsAfter es) \<le> 21 + (t1 - t0) div 3000
    \<and> (\<forall>b. map_of (limitsAfter es) u = Some b \<and> tb_lastRefill b + 3000 \<le> t \<longrightarrow> fst (checkMessageRate t u (limitsAfter es)))"
proof -
  have "limitInv 0 u 0 0 []" by (simp add: limitInv_def bucketInv_def)
  from limitInv_run [OF this, of es t0] have "limitInv 0 u (admitted u es []) t0 (limitsAfter es)"
    using assms(1,2) by (simp add: limitsAfter_def sorted_append)
  then have "limitInv t0 u 0 t0 (limitsAfter es)" using bucketInv_fresh by (auto simp: limitInv_def)
  from limitInv_run [OF this, of fs t1] have "limitInv t0 u (admitted u fs (limitsAfter es)) t1 (fold limitStep fs (limitsAfter es))"
    using assms by (simp add: sorted_append)
  then have "admitted u fs (limitsAfter es) = 0 \<or> 3000 * admitted u fs (limitsAfter es) + t0 \<le> 63000 + t1"
    unfolding limitInv_def using bucketInv_bound by blast
  then have "admitted u fs (limitsAfter es) \<le> 21 + (t1 - t0) div 3000" using assms(4) by (auto simp: div_le_mono)
  moreover have "fst (checkMessageRate t u (limitsAfter es))"
    if b: "map_of (limitsAfter es) u = Some b" "tb_lastRefill b + 3000 \<le> t" for b
  proof -
    have "(t - tb_lastRefill b) * 20 div 60000 = (t - tb_lastRefill b) div 3000" by (simp add: div_mult2_eq [of _ 20 3000, simplified])
    then have "(t - tb_lastRefill b) * 20 div 60000 > 0" using b(2) by (simp add: div_greater_zero_iff)
    then have "tb_tokens (refill t b) > 0" by (simp add: refill_def messagesPerMinute_def Let_def)
    then show ?thesis using b(1) by (simp add: checkMessageRate_def Let_def)
  qed
  ultimately show ?thesis by blast
qed

theorem messages_are_limited_witness:
  "admitted ''u'' (replicate 25 (Ask 7 ''u'')) (limitsAfter [Ask 1 ''u'', Sweep 5]) \<le> 21
   \<and> map_of (limitsAfter [Ask 1 ''u'', Sweep 5]) ''u'' = Some \<lparr>tb_tokens = 19, tb_lastRefill = 1\<rparr>
   \<and> fst (checkMessageRate 4000 ''u'' (limitsAfter [Ask 1 ''u'', Sweep 5]))"
proof -
  have b: "map_of (limitsAfter [Ask 1 ''u'', Sweep 5]) ''u'' = Some \<lparr>tb_tokens = 19, tb_lastRefill = 1\<rparr>" by code_simp
  from messages_are_limited [of "[Ask 1 ''u'', Sweep 5]" "replicate 25 (Ask 7 ''u'')" 7 7 "''u''" 4000] b show ?thesis
    by (auto simp: sorted_append)
qed

section \<open>What a message leaves alone\<close>

definition still :: "ConvState \<Rightarrow> ConvState \<Rightarrow> bool" where
  "still st st' \<longleftrightarrow> tables (cv_db st') = tables (cv_db st) \<and> cv_threads st' = cv_threads st"

lemma still_refl [simp]: "still st st"
  by (simp add: still_def)

lemma still_trans: "still a b \<Longrightarrow> still b c \<Longrightarrow> still a c"
  by (simp add: still_def)

lemma still_fields [simp]:
  "still st (st'\<lparr>cv_emojis := e\<rparr>) \<longleftrightarrow> still st st'"
  "still st (st'\<lparr>cv_limits := l\<rparr>) \<longleftrightarrow> still st st'"
  "still st (st'\<lparr>cv_last := a\<rparr>) \<longleftrightarrow> still st st'"
  "still st (st'\<lparr>cv_history := h\<rparr>) \<longleftrightarrow> still st st'"
  "still st (st'\<lparr>cv_cache := c\<rparr>) \<longleftrightarrow> still st st'"
  "still st (st'\<lparr>cv_keys := k\<rparr>) \<longleftrightarrow> still st st'"
  "still st (st'\<lparr>cv_chats := x\<rparr>) \<longleftrightarrow> still st st'"
  by (simp_all add: still_def)

lemma onConv_still: "readOnly m \<Longrightarrow> onConv m st = (r, st') \<Longrightarrow> still st st'"
  by (auto simp: onConv_def still_def split: prod.splits dest: readOnlyD)

lemma time_still: "onConv timeNow st = (now, st') \<Longrightarrow> still st st'"
  by (rule onConv_still [OF readOnly_timeNow])

lemma reads_conversation [readonly]:
  "readOnly (GetUserByID u)" "readOnly (ListAgents u)" "readOnly (ListAPIKeys u)" "readOnly (GetGithubConnection u)"
  "readOnly (GetWorkspaceByPlatform p i)" "readOnly (GetWaitingSessionByThreadID u t)" "readOnly (GetPendingClarifications s)"
  by (simp_all add: GetUserByID_def ListAgents_def ListAPIKeys_def GetGithubConnection_def GetWorkspaceByPlatform_def
      GetWaitingSessionByThreadID_def GetPendingClarifications_def readonly)

lemma decryptConv_still: "decryptConv env s st = (r, st') \<Longrightarrow> still st st'"
  by (auto simp: decryptConv_def Let_def split: prod.splits dest!: time_still)

lemma userApiKeys_still: "userApiKeys env ks st = (r, st') \<Longrightarrow> still st st'"
proof (induction ks arbitrary: st r st')
  case (Cons k ks)
  obtain x st1 where x: "decryptConv env (ak_APIKey k) st = (x, st1)" by fastforce
  obtain y st2 where y: "userApiKeys env ks st1 = (y, st2)" by fastforce
  have "still st st1" "still st1 st2" using decryptConv_still [OF x] Cons.IH [OF y] by auto
  with Cons.prems still_trans show ?case by (auto simp: x y split: sum.splits)
qed simp

lemma assembleConfig_still:
  assumes "assembleConfig env u as ks gc st = (r, st')"
  shows "still st st'"
proof -
  obtain y st2 where y: "userApiKeys env ks st = (y, st2)" by fastforce
  have s: "still st st2" by (rule userApiKeys_still [OF y])
  show ?thesis
  proof (cases gc)
    case None
    with assms s show ?thesis by (auto simp: assembleConfig_def y split: sum.splits)
  next
    case (Some c)
    obtain z st3 where z: "decryptConv env (gh_GithubToken c) st2 = (z, st3)" by fastforce
    have "still st st3" using s decryptConv_still [OF z] still_trans by blast
    with assms s show ?thesis by (auto simp: assembleConfig_def y Some z split: sum.splits)
  qed
qed

lemma GetUserConfig_still:
  assumes "GetUserConfig env u st = (r, st')"
  shows "still st st'"
proof -
  obtain x st1 where x: "onConv (GetUserByID u) st = (x, st1)" by fastforce
  obtain as st2 where as: "onConv (ListAgents u) st1 = (as, st2)" by fastforce
  obtain ks st3 where ks: "onConv (ListAPIKeys u) st2 = (ks, st3)" by fastforce
  obtain gc st4 where gc: "onConv (GetGithubConnection u) st3 = (gc, st4)" by fastforce
  have s1: "still st st1" and "still st1 st2" "still st2 st3" "still st3 st4"
    using onConv_still [OF _ x] onConv_still [OF _ as] onConv_still [OF _ ks] onConv_still [OF _ gc] reads_conversation by blast+
  then have s4: "still st st4" using still_trans by blast
  have sa: "still st st'" if "assembleConfig env i a k g st4 = (r, st')" for i a k g
    using that s4 assembleConfig_still still_trans by blast
  show ?thesis
    using assms s1 s4 unfolding GetUserConfig_def x prod.case as ks gc Let_def
    by (auto split: sum.splits option.splits dest: sa)
qed

lemma GetUserConfigByWorkspace_still:
  assumes "GetUserConfigByWorkspace env p i st = (r, st')"
  shows "still st st'"
proof -
  obtain hit st1 where h: "cachedConfig (configKey p i) st = (hit, st1)" by fastforce
  have s1: "still st st1" using h
    by (auto simp: cachedConfig_def Let_def split: prod.splits if_splits dest!: time_still)
  obtain w st2 where w: "onConv (GetWorkspaceByPlatform p i) st1 = (w, st2)" by fastforce
  have "still st1 st2" using onConv_still [OF _ w] reads_conversation by blast
  with s1 have s2: "still st st2" using still_trans by blast
  have load: "still st st3" if "loadConfig env p i st1 = (x, st3)" for x st3
    using that s2 still_trans [OF s2] unfolding loadConfig_def w prod.case
    by (auto split: sum.splits option.splits prod.splits dest!: GetUserConfig_still)
  have store: "still a (storeConfig k c a)" for k c a
    by (auto simp: storeConfig_def Let_def split: prod.splits dest!: time_still)
  obtain x st3 where x: "loadConfig env p i st1 = (x, st3)" by fastforce
  show ?thesis using assms s1 load [OF x] store [of st3] still_trans unfolding GetUserConfigByWorkspace_def Let_def h prod.case x
    by (auto split: sum.splits option.splits)
qed

lemma getAgentEmoji_still: "getAgentEmoji n as st = (e, st') \<Longrightarrow> still st st'"
  by (auto simp: getAgentEmoji_def Let_def split: option.splits)

lemma agentLines_still: "agentLines all as st = (t, st') \<Longrightarrow> still st st'"
proof (induction as arbitrary: st t st')
  case (Cons a as)
  obtain e st1 where e: "getAgentEmoji (ac_Name a) all st = (e, st1)" by fastforce
  obtain x st2 where x: "agentLines all as st1 = (x, st2)" by fastforce
  from Cons.prems have "st' = st2" by (simp add: e x)
  with getAgentEmoji_still [OF e] Cons.IH [OF x] show ?case using still_trans by blast
qed simp

lemma addHistory_still: "still st (addHistory k r c st)"
  by (auto simp: addHistory_def Let_def split: prod.splits dest!: time_still)

lemma chatWith_still: "still st (snd (chatWith env k ms p st))"
  by (simp add: chatWith_def)

lemma respond_still:
  assumes "respond env plat key agent message userConfig st = (r, st')"
  shows "still st st'"
proof -
  obtain now st1 where t: "(if map_of (cv_history st) key = None then (0, st) else onConv timeNow st) = (now, st1)" by fastforce
  have s1: "still st st1" using t by (auto split: if_splits dest!: time_still)
  obtain hm h where g: "GetHistory (now div 1000) key (cv_history st1) = (hm, h)" by fastforce
  have c: "still st st3" if "chatWith env k ms p (st1\<lparr>cv_history := h\<rparr>) = (x, st3)" for k ms p x st3
    using chatWith_still [of "st1\<lparr>cv_history := h\<rparr>" env k ms p] s1 still_trans that by (metis snd_conv still_fields(4))
  show ?thesis using assms s1 unfolding respond_def Let_def t prod.case g
    by (auto split: if_splits list.splits option.splits prod.splits dest!: c)
qed

lemma talkTo_still:
  assumes "talkTo env text w u p cfg st = (r, st')"
  shows "still st st'"
proof -
  obtain x st1 where x: "routeConv env text (uc_Agents cfg) w u st = (x, st1)" by fastforce
  have s1: "still st st1" using x by (auto simp: routeConv_def Let_def split: prod.splits dest!: time_still)
  show ?thesis
  proof (cases x)
    case None
    with assms s1 show ?thesis unfolding talkTo_def x prod.case
      by (auto simp: None split: prod.splits dest!: agentLines_still intro: still_trans)
  next
    case (Some am)
    obtain agent message where am: "am = (agent, message)" by fastforce
    define key where "key = getHistoryKey w u (ac_Name agent)"
    define st2 where "st2 = addHistory key ''user'' message st1"
    obtain y st3 where y: "respond env p key agent message cfg st2 = (y, st3)" by fastforce
    have s3: "still st st3" using s1 addHistory_still [of st1] respond_still [OF y] still_trans unfolding st2_def by blast
    then have s4: "still st (addHistory k rl c st3)" for k rl c using addHistory_still still_trans by blast
    show ?thesis
      using assms s3 s4 unfolding talkTo_def x Some am option.case prod.case Let_def key_def [symmetric] st2_def [symmetric] y
      by (auto split: sum.splits if_splits prod.splits dest!: getAgentEmoji_still intro: still_trans)
  qed
qed

lemma map_filter_Cons_in: "List.map_filter f xs = y # ys \<Longrightarrow> \<exists>x \<in> set xs. f x = Some y"
  by (auto simp: map_filter_def map_eq_Cons_conv filter_eq_Cons_iff)

text \<open>Only the user that the session belongs to on the platform can answer, and only in a registered thread.\<close>

lemma answerInThread_writes:
  assumes a: "answerInThread env text u cfg t st = (r, st')" and n: "\<not> still st st'"
  shows "map_of (cv_threads st) t \<noteq> None
    \<and> (\<exists>s \<in> set (db_sessions (cv_db st)). s_PlatformThreadID s = Some t \<and> s_PlatformUserID s = Some u \<and> s_UserID s = uc_ID cfg
         \<and> s_Status s = SessionWaitingForClarification)"
proof -
  obtain w st1 where w: "onConv (GetWaitingSessionByThreadID (uc_ID cfg) t) st = (w, st1)" by fastforce
  have s1: "still st st1" using onConv_still [OF _ w] reads_conversation by blast
  have th: "t \<noteq> []" "map_of (cv_threads st) t \<noteq> None" using a n by (auto simp: answerInThread_def split: if_splits)
  obtain ws where ws: "w = Inr (Some ws)" "s_PlatformUserID (w_Session ws) = Some u"
    using a n s1 th unfolding answerInThread_def by (auto simp: w split: sum.splits option.splits if_splits)
  have "firstWithAgent (\<lambda>s. s_UserID s = uc_ID cfg \<and> s_Status s = SessionWaitingForClarification \<and> s_PlatformThreadID s = Some t) (cv_db st1) = Some ws"
    using w ws by (auto simp: onConv_def GetWaitingSessionByThreadID_def split: prod.splits dest!: queryRow_result)
  then have "w_Session ws \<in> set (db_sessions (cv_db st1)) \<and> s_UserID (w_Session ws) = uc_ID cfg
      \<and> s_Status (w_Session ws) = SessionWaitingForClarification \<and> s_PlatformThreadID (w_Session ws) = Some t"
    by (auto simp: firstWithAgent_def withAgent_def split: list.splits dest!: map_filter_Cons_in)
  moreover have "db_sessions (cv_db st1) = db_sessions (cv_db st)" using s1 by (auto simp: still_def dest: tables_eqD(2))
  ultimately show ?thesis using th ws(2) by auto
qed

lemma HandleMessage_still:
  assumes "cv_threads st = []" "HandleMessage env text w u p t st = (r, st')"
  shows "still st st'"
proof -
  obtain now st1 where n: "onConv timeNow st = (now, st1)" by fastforce
  obtain ok m where m: "checkMessageRate now u (cv_limits st1) = (ok, m)" by fastforce
  define st2 where "st2 = st1\<lparr>cv_limits := m\<rparr>"
  have s2: "still st st2" using time_still [OF n] by (simp add: st2_def)
  obtain c st3 where c: "GetUserConfigByWorkspace env p w st2 = (c, st3)" by fastforce
  have s3: "still st st3" using s2 GetUserConfigByWorkspace_still [OF c] still_trans by blast
  then have "cv_threads st3 = []" using assms(1) by (simp add: still_def)
  then have a: "answerInThread env x u cfg t st3 = (None, st3)" for x cfg by (simp add: answerInThread_def)
  show ?thesis
    using assms(2) s2 s3 unfolding HandleMessage_def Let_def n prod.case m st2_def [symmetric] c a option.case
    by (auto split: if_splits sum.splits option.splits dest!: talkTo_still intro: still_trans)
qed

text \<open>
  The operations of a manager that the program calls: no caller of \<open>RegisterClarificationThread\<close> (or of \<open>InvalidateCache\<close>) exists.
\<close>

datatype convOp =
    Message string string string Platform string
  | SweepThreads nat
  | SweepLimits nat
  | SweepLast nat
  | SweepConfigs nat

fun convStep :: "convEnv \<times> convOp \<Rightarrow> ConvState \<Rightarrow> ConvState" where
  "convStep (env, Message text w u p t) st = snd (HandleMessage env text w u p t st)"
| "convStep (env, SweepThreads now) st = st\<lparr>cv_threads := cleanupClarificationThreads now (cv_threads st)\<rparr>"
| "convStep (env, SweepLimits now) st = st\<lparr>cv_limits := cleanupRateLimiters now (cv_limits st)\<rparr>"
| "convStep (env, SweepLast now) st = st\<lparr>cv_last := cleanup_lastAddressed now (cv_last st)\<rparr>"
| "convStep (env, SweepConfigs now) st = st\<lparr>cv_cache := evictStale_config now (cv_cache st)\<rparr>"

definition NewManager :: "db \<Rightarrow> ConvState" where
  "NewManager d = \<lparr>cv_db = d, cv_threads = [], cv_emojis = [], cv_limits = [], cv_last = [], cv_history = [], cv_cache = [], cv_keys = [],
     cv_chats = []\<rparr>"

text \<open>
  C38. Whatever messages arrive, in a thread or not, and whenever the stores are swept, a manager that the program makes never writes to the
  database: no question of an agent is ever answered from the chat, since no thread is registered for answers.
\<close>

theorem chat_answers_no_question:
  "tables (cv_db (fold convStep ops (NewManager d))) = tables d \<and> cv_threads (fold convStep ops (NewManager d)) = []"
proof -
  have step: "tables (cv_db (convStep x st)) = tables (cv_db st) \<and> cv_threads (convStep x st) = []" if "cv_threads st = []" for x st
  proof -
    obtain env opr where x: "x = (env, opr)" by fastforce
    show ?thesis
    proof (cases opr)
      case (Message s w u p t)
      have "still st (convStep x st)" unfolding x Message convStep.simps
        by (rule HandleMessage_still [OF that prod.collapse [symmetric]])
      with that show ?thesis by (simp add: still_def)
    qed (simp_all add: x that cleanupClarificationThreads_def maxClarificationThreads_def)
  qed
  have "tables (cv_db (fold convStep ops st)) = tables (cv_db st) \<and> cv_threads (fold convStep ops st) = []" if "cv_threads st = []" for st
    using that by (induction ops arbitrary: st) (simp_all add: step)
  from this [of "NewManager d"] show ?thesis by (simp add: NewManager_def)
qed

section \<open>What goes to the model\<close>

text \<open>A message that starts no work is in the prompt twice: it is stored before the history is read, and appended to that history again.\<close>

lemma message_is_sent_twice:
  assumes "\<not> ce_testMode env" "uc_APIKeys cfg = k # ks" "ce_newClient env k = None" "\<not> DetectWorkRequest message"
  shows "\<exists>ms. cv_chats (snd (respond env plat key agent message cfg (addHistory key ''user'' message st)))
     = cv_chats st @ [(ms @ [\<lparr>cm_Role = ''user'', cm_Content = message\<rparr>, \<lparr>cm_Role = ''user'', cm_Content = message\<rparr>], buildSystemPrompt agent plat)]"
proof -
  let ?m = "\<lparr>cm_Role = ''user'', cm_Content = message\<rparr>"
  define st0 where "st0 = addHistory key ''user'' message st"
  obtain t0 h0 where h0: "cv_history st0 = AddToHistory t0 key ''user'' message h0" "cv_chats st0 = cv_chats st"
    by (cases "timeNow (cv_db st)") (auto simp: st0_def addHistory_def onConv_def Let_def)
  obtain e ms where e: "map_of (cv_history st0) key = Some e" "he_messages e = ms @ [?m]"
    using AddToHistory_latest [of t0 key "''user''" message h0] h0 by auto
  obtain now st1 where t: "onConv timeNow st0 = (now, st1)" by fastforce
  then have st1: "cv_history st1 = cv_history st0" "cv_chats st1 = cv_chats st0" by (auto simp: onConv_def split: prod.splits)
  have if_t: "(if map_of (cv_history st0) key = None then (0, st0) else onConv timeNow st0) = (now, st1)" by (simp add: e(1) t)
  have g: "GetHistory (now div 1000) key (cv_history st1) = (ms @ [?m], AList.update key (e\<lparr>he_lastAccessed := now div 1000\<rparr>) (cv_history st1))"
    using e by (simp add: GetHistory_def st1)
  have "\<exists>xs. lastTen (ms @ [?m, ?m]) = xs @ [?m, ?m]" by (simp add: lastTen_def)
  then obtain xs where xs: "lastTen (ms @ [?m, ?m]) = xs @ [?m, ?m]" by blast
  have "cv_chats (snd (respond env plat key agent message cfg st0)) = cv_chats st0 @ [(xs @ [?m, ?m], buildSystemPrompt agent plat)]"
    unfolding respond_def Let_def if_t prod.case g using assms
    by (auto simp: chatWith_def xs st1 split: sum.splits)
  then show ?thesis unfolding st0_def [symmetric] using h0(2) by auto
qed

text \<open>
  The voice handler passes the id of the workspace's row where the platform's id is expected, and gets no configuration.
\<close>

lemma voice_finds_no_configuration:
  assumes "\<forall>w \<in> set (db_workspaces (cv_db st)). wk_PlatformID w \<noteq> wk_ID ws" "cv_cache st = []" "faults (cv_db st) = []"
  shows "fst (GetUserConfigByWorkspace env Discord (wk_ID ws) st) = Inr None"
proof -
  have "List.find (\<lambda>w. wk_Platform w = Discord \<and> wk_PlatformID w = wk_ID ws) (db_workspaces (cv_db st)) = None"
    using assms(1) by (auto simp: find_None_iff)
  then have "loadConfig env Discord (wk_ID ws) st = (Inr None, st)"
    using assms(3) by (simp add: loadConfig_def onConv_def GetWorkspaceByPlatform_def)
  then show ?thesis by (simp add: GetUserConfigByWorkspace_def cachedConfig_def assms(2) Let_def)
qed

end
