(* ===== verification/Diff.thy ===== *)
theory Diff
  imports Cron
begin

text \<open>
  The unified diffs of the review service (\<open>pr-review/review/parser.go\<close>) and the comments it places in them (\<open>github.go\<close>). \<open>int\<close> has 64 bits and wraps.
  The second half states what a diff means, a list of files with their hunks, and shows that the parser recovers it from the printed diff.
\<close>

section \<open>Data\<close>

definition wrap64 :: "int \<Rightarrow> int" where
  "wrap64 n = (n + 2 ^ 63) mod 2 ^ 64 - 2 ^ 63"

record DiffLine =
  dl_Type :: string
  dl_Content :: string
  dl_OldLine :: int
  dl_NewLine :: int
  dl_Position :: int

record DiffHunk =
  dh_StartLine :: int
  dh_LineCount :: int
  dh_Lines :: "DiffLine list"

record DiffFile =
  df_Path :: string
  df_Hunks :: "DiffHunk list"
  df_NewFile :: bool
  df_Deleted :: bool

section \<open>Parser\<close>

fun splitLoop :: "string list \<Rightarrow> string list \<Rightarrow> string list list" where
  "splitLoop current [] = (if current \<noteq> [] then [current] else [])"
| "splitLoop current (line # lines) =
     (if HasPrefix line ''diff --git''
      then (if current \<noteq> [] then [current] else []) @ splitLoop [line] lines
      else splitLoop (current @ [line]) lines)"

definition splitDiffByFile :: "string \<Rightarrow> string list list" where
  "splitDiffByFile diff = splitLoop [] (Split diff (CHR 0x0A))"

definition parseLineNum :: "string \<Rightarrow> int" where
  "parseLineNum s = fold (\<lambda>c n. if isDigit c then wrap64 (n * 10 + (of_char c - 48)) else n) s 0"

definition headerPart :: "string \<Rightarrow> DiffHunk \<Rightarrow> DiffHunk" where
  "headerPart part hunk =
     (if HasPrefix part ''+''
      then let nums = drop 1 part in
           case Index nums '','' of
             Some commaIdx \<Rightarrow>
               hunk\<lparr>dh_StartLine := parseLineNum (take commaIdx nums), dh_LineCount := parseLineNum (drop (commaIdx + 1) nums)\<rparr>
           | None \<Rightarrow> hunk\<lparr>dh_StartLine := parseLineNum nums, dh_LineCount := 1\<rparr>
      else hunk)"

definition parseHunkHeader :: "string \<Rightarrow> DiffHunk" where
  "parseHunkHeader line =
     (let hunk = \<lparr>dh_StartLine = 0, dh_LineCount = 0, dh_Lines = []\<rparr> in
      case Index line ''@@'' of
        None \<Rightarrow> hunk
      | Some atAt \<Rightarrow>
          let rest = drop (atAt + 2) line in
          case Index rest ''@@'' of
            None \<Rightarrow> hunk
          | Some nextAtAt \<Rightarrow> fold headerPart (Split (TrimSpace (take nextAtAt rest)) (CHR '' '')) hunk)"

text \<open>The lines of a hunk, from \<open>newLine\<close> and \<open>position\<close> on, and the position after them.\<close>

fun collectHunkLines :: "string list \<Rightarrow> int \<Rightarrow> int \<Rightarrow> DiffLine list \<times> int" where
  "collectHunkLines [] position newLine = ([], position)"
| "collectHunkLines (line # lines) position newLine =
     (if HasPrefix line ''diff --git'' \<or> HasPrefix line ''@@'' then ([], position)
      else let pos = wrap64 (position + 1);
               (dl, n) =
                 (if HasPrefix line ''+''
                  then (\<lparr>dl_Type = ''add'', dl_Content = drop 1 line, dl_OldLine = 0, dl_NewLine = wrap64 (newLine + 1), dl_Position = pos\<rparr>,
                        wrap64 (newLine + 1))
                  else if HasPrefix line ''-''
                  then (\<lparr>dl_Type = ''remove'', dl_Content = drop 1 line, dl_OldLine = 0, dl_NewLine = 0, dl_Position = pos\<rparr>, newLine)
                  else (\<lparr>dl_Type = ''context'', dl_Content = drop 1 line, dl_OldLine = 0, dl_NewLine = wrap64 (newLine + 1), dl_Position = pos\<rparr>,
                        wrap64 (newLine + 1)));
               (dls, p) = collectHunkLines lines pos n
           in (dl # dls, p))"

definition headerLine :: "string \<Rightarrow> DiffFile \<Rightarrow> DiffFile" where
  "headerLine line f =
     (if HasPrefix line ''+++ b/'' then f\<lparr>df_Path := drop 6 line\<rparr>
      else if HasPrefix line ''+++ /dev/null'' then f\<lparr>df_Deleted := True\<rparr>
      else if HasPrefix line ''new file mode'' then f\<lparr>df_NewFile := True\<rparr>
      else if HasPrefix line ''--- /dev/null'' \<and> \<not> df_Deleted f then f\<lparr>df_NewFile := True\<rparr>
      else f)"

fun parseLines :: "string list \<Rightarrow> int \<Rightarrow> DiffFile \<Rightarrow> DiffFile" where
  "parseLines [] position file = file"
| "parseLines (line # lines) position file =
     (let f = headerLine line file in
      if HasPrefix line ''@@''
      then let hunk = parseHunkHeader line;
               (hunkLines, p) = collectHunkLines lines position (wrap64 (dh_StartLine hunk - 1))
           in parseLines lines p (f\<lparr>df_Hunks := df_Hunks f @ [hunk\<lparr>dh_Lines := hunkLines\<rparr>]\<rparr>)
      else parseLines lines position f)"

definition parseDiffFile :: "string list \<Rightarrow> DiffFile" where
  "parseDiffFile lines = parseLines lines 0 \<lparr>df_Path = [], df_Hunks = [], df_NewFile = False, df_Deleted = False\<rparr>"

definition ParseDiff :: "string \<Rightarrow> DiffFile list" where
  "ParseDiff diff = filter (\<lambda>f. df_Path f \<noteq> []) (map parseDiffFile (splitDiffByFile diff))"

definition hasLine :: "int \<Rightarrow> DiffLine \<Rightarrow> bool" where
  "hasLine lineNumber line \<longleftrightarrow> dl_NewLine line = lineNumber \<and> dl_Type line \<noteq> ''remove''"

text \<open>The first line that fits, in the files with that path.\<close>

definition LineToPosition :: "DiffFile list \<Rightarrow> string \<Rightarrow> int \<Rightarrow> int" where
  "LineToPosition files filePath lineNumber =
     (case List.find (hasLine lineNumber)
             (concat (map (\<lambda>file. concat (map dh_Lines (df_Hunks file))) (filter (\<lambda>file. df_Path file = filePath) files))) of
        Some line \<Rightarrow> dl_Position line
      | None \<Rightarrow> 0)"

definition buildFileContent :: "DiffFile \<Rightarrow> string" where
  "buildFileContent file =
     concat (map (\<lambda>hunk. concat (map (\<lambda>line.
       (if dl_Type line = ''add'' then ''+'' else if dl_Type line = ''remove'' then ''-'' else '' '') @ dl_Content line @ [CHR 0x0A])
       (dh_Lines hunk))) (df_Hunks file))"

definition BuildDiffContext :: "DiffFile list \<Rightarrow> nat \<Rightarrow> string" where
  "BuildDiffContext files maxTokensPerFile =
     (let maxCharsPerFile = maxTokensPerFile * 4 in
      concat (map (\<lambda>file.
        let content = buildFileContent file in
        [CHR 0x0A] @ ''--- '' @ df_Path file @ '' ---'' @ [CHR 0x0A]
        @ (if length content > maxCharsPerFile then take maxCharsPerFile content @ [CHR 0x0A] @ ''... (truncated)'' else content)) (take 100 files)))"

section \<open>Comments\<close>

record ReviewComment =
  rc_FilePath :: string
  rc_Line :: int
  rc_Severity :: string
  rc_Category :: string
  rc_Body :: string

record ReviewResult =
  rr_ID :: string
  rr_Summary :: string
  rr_Comments :: "ReviewComment list"
  rr_SeverityCounts :: "(string \<times> nat) list"
  rr_InputTokens :: int
  rr_OutputTokens :: int

record ghReview =
  gv_Body :: string
  gv_Event :: string
  gv_Comments :: "(string \<times> int \<times> string) list" \<comment> \<open>path, position, body\<close>

definition formatSeverityPrefix :: "string \<Rightarrow> string" where
  "formatSeverityPrefix severity =
     (if severity = ''critical'' then ''[CRITICAL]'' else if severity = ''warning'' then ''[WARNING]''
      else if severity = ''info'' then ''[INFO]'' else if severity = ''nit'' then ''[NIT]'' else [])"

definition countOf :: "string \<Rightarrow> (string \<times> nat) list \<Rightarrow> nat" where
  "countOf sev counts = (case map_of counts sev of Some n \<Rightarrow> n | None \<Rightarrow> 0)"

definition formatReviewSummary :: "string \<Rightarrow> string \<Rightarrow> ReviewResult \<Rightarrow> string" where
  "formatReviewSummary agentName agentRole result =
     ''**'' @ agentName @ ''** ('' @ agentRole @ '') reviewed this PR'' @ [CHR 0x0A, CHR 0x0A] @ rr_Summary result @ [CHR 0x0A, CHR 0x0A]
     @ (if rr_SeverityCounts result \<noteq> []
        then ''| Severity | Count |'' @ [CHR 0x0A] @ ''|----------|-------|'' @ [CHR 0x0A]
             @ concat (map (\<lambda>sev. let count = countOf sev (rr_SeverityCounts result) in
                 if count > 0 then ''| '' @ sev @ '' | '' @ Itoa count @ '' |'' @ [CHR 0x0A] else [])
                 [''critical'', ''warning'', ''info'', ''nit''])
        else [])"

definition placeComments :: "DiffFile list \<Rightarrow> ReviewComment list \<Rightarrow> (string \<times> int \<times> string) list" where
  "placeComments files comments =
     map (\<lambda>c. (rc_FilePath c, LineToPosition files (rc_FilePath c) (rc_Line c),
               formatSeverityPrefix (rc_Severity c) @ '' **['' @ rc_Category c @ '']** '' @ rc_Body c))
       (filter (\<lambda>c. LineToPosition files (rc_FilePath c) (rc_Line c) \<noteq> 0) comments)"

definition PostReview :: "string \<Rightarrow> string \<Rightarrow> ReviewResult \<Rightarrow> DiffFile list \<Rightarrow> ghReview" where
  "PostReview agentName agentRole result files =
     \<lparr>gv_Body = formatReviewSummary agentName agentRole result,
      gv_Event = (if countOf ''critical'' (rr_SeverityCounts result) > 0 then ''REQUEST_CHANGES'' else ''COMMENT''),
      gv_Comments = placeComments files (rr_Comments result)\<rparr>"

section \<open>What a diff means\<close>

text \<open>A line of a file's diff, the hunks with the number of their first line, and the files.\<close>

datatype change = Plus string | Minus string | Same string

record hunk =
  hk_start :: nat
  hk_changes :: "change list"

record fileDiff =
  fd_path :: string
  fd_new :: bool
  fd_hunks :: "hunk list"

fun printChange :: "change \<Rightarrow> string" where
  "printChange (Plus s) = CHR ''+'' # s"
| "printChange (Minus s) = CHR ''-'' # s"
| "printChange (Same s) = CHR '' '' # s"

definition newCount :: "change list \<Rightarrow> nat" where
  "newCount cs = length (filter (\<lambda>c. case c of Minus _ \<Rightarrow> False | _ \<Rightarrow> True) cs)"

definition printHunk :: "hunk \<Rightarrow> string list" where
  "printHunk h = (''@@ -0,0 +'' @ Itoa (hk_start h) @ '','' @ Itoa (newCount (hk_changes h)) @ '' @@'') # map printChange (hk_changes h)"

definition printFile :: "fileDiff \<Rightarrow> string list" where
  "printFile f =
     [''diff --git a/'' @ fd_path f @ '' b/'' @ fd_path f]
     @ (if fd_new f then [''new file mode 100644'', ''--- /dev/null''] else [''--- a/'' @ fd_path f])
     @ [''+++ b/'' @ fd_path f] @ concat (map printHunk (fd_hunks f))"

text \<open>The lines with their numbers in the new file and their positions.\<close>

fun numbered :: "change list \<Rightarrow> int \<Rightarrow> int \<Rightarrow> DiffLine list" where
  "numbered [] position newLine = []"
| "numbered (Plus s # cs) position newLine =
     \<lparr>dl_Type = ''add'', dl_Content = s, dl_OldLine = 0, dl_NewLine = newLine, dl_Position = position\<rparr> # numbered cs (position + 1) (newLine + 1)"
| "numbered (Minus s # cs) position newLine =
     \<lparr>dl_Type = ''remove'', dl_Content = s, dl_OldLine = 0, dl_NewLine = 0, dl_Position = position\<rparr> # numbered cs (position + 1) newLine"
| "numbered (Same s # cs) position newLine =
     \<lparr>dl_Type = ''context'', dl_Content = s, dl_OldLine = 0, dl_NewLine = newLine, dl_Position = position\<rparr> # numbered cs (position + 1) (newLine + 1)"

fun hunksFrom :: "hunk list \<Rightarrow> int \<Rightarrow> DiffHunk list" where
  "hunksFrom [] position = []"
| "hunksFrom (h # hs) position =
     \<lparr>dh_StartLine = int (hk_start h), dh_LineCount = int (newCount (hk_changes h)), dh_Lines = numbered (hk_changes h) position (int (hk_start h))\<rparr>
     # hunksFrom hs (position + int (length (hk_changes h)))"

definition meaning :: "fileDiff \<Rightarrow> DiffFile" where
  "meaning f = \<lparr>df_Path = fd_path f, df_Hunks = hunksFrom (fd_hunks f) 1, df_NewFile = fd_new f, df_Deleted = False\<rparr>"

text \<open>
  The diffs the parser can read: a line is not taken for a header (an added line that starts with \<open>++ b/\<close> or \<open>++ /dev/null\<close>, a removed one that
  starts with \<open>-- /dev/null\<close>), and the numbers fit.
\<close>

fun readable :: "change \<Rightarrow> bool" where
  "readable (Plus s) \<longleftrightarrow> CHR 0x0A \<notin> set s \<and> \<not> HasPrefix s ''++ b/'' \<and> \<not> HasPrefix s ''++ /dev/null''"
| "readable (Minus s) \<longleftrightarrow> CHR 0x0A \<notin> set s \<and> \<not> HasPrefix s ''-- /dev/null''"
| "readable (Same s) \<longleftrightarrow> CHR 0x0A \<notin> set s"

definition wfHunk :: "hunk \<Rightarrow> bool" where
  "wfHunk h \<longleftrightarrow> list_all readable (hk_changes h) \<and> 0 < hk_start h \<and> hk_start h + length (hk_changes h) < 2 ^ 63"

definition wfFile :: "fileDiff \<Rightarrow> bool" where
  "wfFile f \<longleftrightarrow> fd_path f \<noteq> [] \<and> CHR 0x0A \<notin> set (fd_path f) \<and> list_all wfHunk (fd_hunks f)
     \<and> sum_list (map (length \<circ> hk_changes) (fd_hunks f)) < 2 ^ 63"

section \<open>The parser recovers the meaning\<close>

lemma wrap64_id: "- (2 ^ 63) \<le> n \<Longrightarrow> n < 2 ^ 63 \<Longrightarrow> wrap64 n = n"
  by (simp add: wrap64_def mod_pos_pos_trivial)

lemma parseLineNum_Itoa: "int n < 2 ^ 63 \<Longrightarrow> parseLineNum (Itoa n) = int n"
proof (induction n rule: less_induct)
  case (less n)
  have digit: "isDigit (char_of (48 + k :: nat))" "(of_char (char_of (48 + k :: nat)) :: int) = 48 + int k" if "k < 10" for k
  proof -
    have n: "(of_char (char_of (48 + k :: nat)) :: nat) = 48 + k" using that by simp
    then show "isDigit (char_of (48 + k :: nat))" using that by (simp add: isDigit_def inRange_def)
    have "(of_char (char_of (48 + k :: nat)) :: int) = int (of_char (char_of (48 + k :: nat)))" by (simp only: of_nat_of_char)
    then show "(of_char (char_of (48 + k :: nat)) :: int) = 48 + int k" unfolding n by simp
  qed
  show ?case
  proof (cases "n < 10")
    case True
    then show ?thesis by (subst Itoa.simps) (simp add: parseLineNum_def digit wrap64_id)
  next
    case False
    have small: "int (n div 10) < 2 ^ 63" using less.prems by simp
    have k: "n mod 10 < 10" by simp
    have "parseLineNum (Itoa n) = wrap64 (parseLineNum (Itoa (n div 10)) * 10 + int (n mod 10))"
      unfolding Itoa.simps [of n] using False digit [OF k] by (simp add: parseLineNum_def)
    also have "\<dots> = wrap64 (int n)" using less.IH [OF _ small] False by (simp add: zdiv_int zmod_int)
    also have "\<dots> = int n" using less.prems by (simp add: wrap64_id)
    finally show ?thesis .
  qed
qed

lemma Index_first: "c \<notin> set u \<Longrightarrow> prefix (c # sub) (c # v) \<Longrightarrow> Index (u @ c # v) (c # sub) = Some (length u)"
  by (induction u) auto

lemma Itoa_last: "\<exists>u c. Itoa n = u @ [c] \<and> isDigit c"
proof -
  have d: "isDigit (char_of (48 + k :: nat))" if "k < 10" for k
    using that by (simp add: isDigit_def inRange_def)
  show ?thesis using d [of n] d [of "n mod 10"] by (subst Itoa.simps) (auto intro: exI [of _ "[]"])
qed

lemma Itoa_no: "c \<in> set '',+@ -'' \<Longrightarrow> c \<notin> set (Itoa n)"
  using Itoa_digits [of c n] by auto

lemma TrimRightSpace_digit: "isDigit c \<Longrightarrow> TrimRightSpace (u @ [c]) = u @ [c]"
proof -
  assume d: "isDigit c"
  have "list_all (\<lambda>w. w \<noteq> [] \<and> \<not> isDigit (last w)) unicodeSpace" by code_simp
  then have "\<not> suffix w (u @ [c])" if "w \<in> set unicodeSpace" for w
    using that d by (auto simp: list_all_iff suffix_def) (metis last_appendR last_snoc)
  then show ?thesis by (subst TrimRightSpace.simps) (auto split: option.splits dest: find_Some_iff_mem)
qed

lemma TrimSpace_header:
  assumes "isDigit c"
  shows "TrimSpace ('' -'' @ u @ [c] @ '' '') = ''-'' @ u @ [c]"
proof -
  have "List.find (\<lambda>w. prefix w ('' -'' @ s)) unicodeSpace = Some '' ''" for s
    by (simp add: unicodeSpace_def asciiSpace_def)
  moreover have "List.find (\<lambda>w. prefix w (''-'' @ s)) unicodeSpace = None" for s
    by (simp add: unicodeSpace_def asciiSpace_def)
  ultimately have l: "TrimLeftSpace ('' -'' @ s) = ''-'' @ s" for s
    by (subst TrimLeftSpace.simps, simp) (subst TrimLeftSpace.simps, simp)
  have "List.find (\<lambda>w. suffix w (s @ '' '')) unicodeSpace = Some '' ''" for s
    by (simp add: unicodeSpace_def asciiSpace_def suffix_def)
  then have "TrimRightSpace (s @ '' '') = TrimRightSpace s" for s by (subst TrimRightSpace.simps) simp
  from this [of "''-'' @ u @ [c]"] TrimRightSpace_digit [OF assms, of "''-'' @ u"] show ?thesis
    unfolding TrimSpace_def l by simp
qed

lemma parseHunkHeader_printed:
  assumes "int s < 2 ^ 63" "int n < 2 ^ 63"
  shows "parseHunkHeader (''@@ -0,0 +'' @ Itoa s @ '','' @ Itoa n @ '' @@'') = \<lparr>dh_StartLine = int s, dh_LineCount = int n, dh_Lines = []\<rparr>"
proof -
  obtain u c where u: "Itoa n = u @ [c]" "isDigit c" using Itoa_last by blast
  let ?mid = "'' -0,0 +'' @ Itoa s @ '','' @ Itoa n @ '' ''"
  have i1: "Index (''@@'' @ ?mid @ ''@@'') ''@@'' = Some 0" by simp
  have at: "CHR ''@'' \<notin> set ?mid" using Itoa_no [of "CHR ''@''"] by simp
  have i2: "Index (?mid @ ''@@'') ''@@'' = Some (length ?mid)" by (rule Index_first [OF at]) simp
  have t: "TrimSpace ?mid = ''-0,0'' @ CHR '' '' # ''+'' @ Itoa s @ '','' @ Itoa n"
    using TrimSpace_header [OF u(2), of "''0,0 +'' @ Itoa s @ '','' @ u"] by (simp add: u(1))
  have sp: "Split (TrimSpace ?mid) (CHR '' '') = [''-0,0'', ''+'' @ Itoa s @ '','' @ Itoa n]"
    unfolding t Split_append_sep using Itoa_no [of "CHR '' ''"] by (simp add: Split_no_sep_single)
  have ix: "Index (Itoa s @ '','' @ Itoa n) '','' = Some (length (Itoa s))" using Index_first [of "CHR '',''" "Itoa s" "[]"] Itoa_no by simp
  have hp: "headerPart (''+'' @ Itoa s @ '','' @ Itoa n) h = h\<lparr>dh_StartLine := int s, dh_LineCount := int n\<rparr>" for h
    using ix by (simp add: headerPart_def HasPrefix_def Let_def parseLineNum_Itoa [OF assms(1)] parseLineNum_Itoa [OF assms(2)])
  have line: "''@@ -0,0 +'' @ Itoa s @ '','' @ Itoa n @ '' @@'' = ''@@'' @ ?mid @ ''@@''" by simp
  have d: "drop (0 + 2) (''@@'' @ ?mid @ ''@@'') = ?mid @ ''@@''" "take (length ?mid) (?mid @ ''@@'') = ?mid" by simp_all
  show ?thesis unfolding parseHunkHeader_def line i1 Let_def option.case d i2 sp
    using hp by (simp add: headerPart_def [of "''-0,0''"] HasPrefix_def)
qed

lemma printChange_prefix [simp]:
  "\<not> HasPrefix (printChange c) ''diff --git''" "\<not> HasPrefix (printChange c) ''@@''"
  by (cases c; simp add: HasPrefix_def)+

lemma collectHunkLines_printed:
  assumes "rest = [] \<or> HasPrefix (hd rest) ''@@''"
    and "0 \<le> position" "position + int (length cs) < 2 ^ 63" "0 \<le> newLine" "newLine + int (length cs) < 2 ^ 63"
  shows "collectHunkLines (map printChange cs @ rest) position newLine
     = (numbered cs (position + 1) (newLine + 1), position + int (length cs))"
  using assms(2-)
proof (induction cs arbitrary: position newLine)
  case Nil
  from assms(1) show ?case by (cases rest) auto
next
  case (Cons c cs)
  have w: "wrap64 (position + 1) = position + 1" "wrap64 (newLine + 1) = newLine + 1" using Cons.prems by (simp_all add: wrap64_id)
  have IH1: "collectHunkLines (map printChange cs @ rest) (position + 1) (newLine + 1)
      = (numbered cs (position + 1 + 1) (newLine + 1 + 1), position + 1 + int (length cs))"
    using Cons.prems by (intro Cons.IH) simp_all
  have IH2: "collectHunkLines (map printChange cs @ rest) (position + 1) newLine
      = (numbered cs (position + 1 + 1) (newLine + 1), position + 1 + int (length cs))"
    using Cons.prems by (intro Cons.IH) simp_all
  show ?case using w IH1 IH2 printChange_prefix [of c] by (cases c) (simp_all add: Let_def HasPrefix_def)
qed

lemma headerLine_change: "readable c \<Longrightarrow> headerLine (printChange c) f = f"
  by (cases c) (auto simp: headerLine_def HasPrefix_def)

lemma parseLines_changes: "list_all readable cs \<Longrightarrow> parseLines (map printChange cs @ rest) position f = parseLines rest position f"
  by (induction cs) (simp_all add: headerLine_change Let_def)

lemma parseLines_hunks:
  assumes "list_all wfHunk hs" "0 \<le> position" "position + int (sum_list (map (length \<circ> hk_changes) hs)) < 2 ^ 63"
  shows "parseLines (concat (map printHunk hs)) position f = f\<lparr>df_Hunks := df_Hunks f @ hunksFrom hs (position + 1)\<rparr>"
  using assms
proof (induction hs arbitrary: position f)
  case (Cons h hs)
  define line where "line = ''@@ -0,0 +'' @ Itoa (hk_start h) @ '','' @ Itoa (newCount (hk_changes h)) @ '' @@''"
  define rest where "rest = concat (map printHunk hs)"
  have h: "list_all readable (hk_changes h)" "0 < hk_start h" "hk_start h + length (hk_changes h) < 2 ^ 63"
    using Cons.prems(1) by (simp_all add: wfHunk_def)
  have "newCount (hk_changes h) \<le> length (hk_changes h)" by (simp add: newCount_def)
  then have hd: "parseHunkHeader line = \<lparr>dh_StartLine = int (hk_start h), dh_LineCount = int (newCount (hk_changes h)), dh_Lines = []\<rparr>"
    unfolding line_def using h by (intro parseHunkHeader_printed) simp_all
  have "rest = [] \<or> HasPrefix (hd rest) ''@@''" unfolding rest_def by (cases hs) (simp_all add: printHunk_def HasPrefix_def)
  then have coll: "collectHunkLines (map printChange (hk_changes h) @ rest) position (int (hk_start h) - 1)
      = (numbered (hk_changes h) (position + 1) (int (hk_start h) - 1 + 1), position + int (length (hk_changes h)))"
    using Cons.prems h by (intro collectHunkLines_printed) simp_all
  have w: "wrap64 (int (hk_start h) - 1) = int (hk_start h) - 1" using h by (simp add: wrap64_id)
  have pre: "headerLine line f = f" "HasPrefix line ''@@''" by (simp_all add: line_def headerLine_def HasPrefix_def)
  have ph: "printHunk h = line # map printChange (hk_changes h)" by (simp add: printHunk_def line_def)
  have "parseLines (printHunk h @ rest) position f
      = parseLines rest (position + int (length (hk_changes h)))
          (f\<lparr>df_Hunks := df_Hunks f @ [\<lparr>dh_StartLine = int (hk_start h), dh_LineCount = int (newCount (hk_changes h)),
             dh_Lines = numbered (hk_changes h) (position + 1) (int (hk_start h))\<rparr>]\<rparr>)"
    using pre hd w coll by (simp add: ph Let_def parseLines_changes [OF h(1)])
  also have "\<dots> = f\<lparr>df_Hunks := df_Hunks f @ hunksFrom (h # hs) (position + 1)\<rparr>"
    unfolding rest_def using Cons.prems by (subst Cons.IH) (simp_all add: algebra_simps comp_def)
  finally show ?case by (simp add: rest_def)
qed simp

lemma parseDiffFile_printed: "wfFile f \<Longrightarrow> parseDiffFile (printFile f) = meaning f"
proof -
  assume wf: "wfFile f"
  have h: "parseLines (concat (map printHunk (fd_hunks f))) 0 g = g\<lparr>df_Hunks := df_Hunks g @ hunksFrom (fd_hunks f) (0 + 1)\<rparr>" for g
    using wf by (intro parseLines_hunks) (simp_all add: wfFile_def)
  show ?thesis
    by (simp add: parseDiffFile_def printFile_def meaning_def h Let_def headerLine_def HasPrefix_def)
qed

lemma splitLoop_lines: "list_all (\<lambda>l. \<not> HasPrefix l ''diff --git'') ls \<Longrightarrow> splitLoop cur (ls @ rest) = splitLoop (cur @ ls) rest"
  by (induction ls arbitrary: cur) simp_all

definition isSection :: "string list \<Rightarrow> bool" where
  "isSection s \<longleftrightarrow> s \<noteq> [] \<and> HasPrefix (hd s) ''diff --git'' \<and> list_all (\<lambda>l. \<not> HasPrefix l ''diff --git'') (tl s)"

lemma splitLoop_sections:
  "list_all isSection ss \<Longrightarrow> splitLoop cur (concat ss) = (if cur \<noteq> [] then [cur] else []) @ ss"
proof (induction ss arbitrary: cur)
  case (Cons s ss)
  obtain l ls where s: "s = l # ls" "HasPrefix l ''diff --git''" "list_all (\<lambda>l. \<not> HasPrefix l ''diff --git'') ls"
    using Cons.prems by (cases s) (auto simp: isSection_def)
  have "splitLoop cur (concat (s # ss)) = (if cur \<noteq> [] then [cur] else []) @ splitLoop s (concat ss)"
    using splitLoop_lines [OF s(3), of "[l]" "concat ss"] by (simp add: s)
  with Cons s show ?case by simp
qed simp

lemma printFile_section: "isSection (printFile f)"
  by (auto simp: isSection_def printFile_def printHunk_def HasPrefix_def list_all_iff)
    (simp_all flip: HasPrefix_def)

lemma printFile_lines: "wfFile f \<Longrightarrow> l \<in> set (printFile f) \<Longrightarrow> CHR 0x0A \<notin> set l"
proof -
  assume wf: "wfFile f" and l: "l \<in> set (printFile f)"
  have num: "CHR 0x0A \<notin> set (Itoa n)" for n using Itoa_digits [of "CHR 0x0A" n] by auto
  have "CHR 0x0A \<notin> set (printChange c)" if "readable c" for c using that by (cases c) simp_all
  then have "CHR 0x0A \<notin> set l" if "h \<in> set (fd_hunks f)" "l \<in> set (printHunk h)" for h
    using that wf num by (auto simp: printHunk_def wfFile_def wfHunk_def list_all_iff)
  with l wf show ?thesis by (auto simp: printFile_def wfFile_def split: if_splits)
qed


definition sampleDiff :: "fileDiff list" where
  "sampleDiff = [\<lparr>fd_path = ''a.go'', fd_new = False, fd_hunks = [\<lparr>hk_start = 3, hk_changes = [Same ''x'', Minus ''y'', Plus ''z'']\<rparr>,
     \<lparr>hk_start = 9, hk_changes = [Plus ''w'']\<rparr>]\<rparr>]"


section \<open>Where the positions go wrong\<close>

text \<open>
  The line of the second hunk of \<open>sampleDiff\<close> is the fifth below the first hunk header, which is the position GitHub documents for it: headers of later
  hunks count. The parser gives it position 4.
\<close>

lemma later_hunks_are_misplaced:
  "LineToPosition (map meaning sampleDiff) ''a.go'' 9 = 4" "drop 3 (printFile (hd sampleDiff)) ! 5 = ''+w''"
  by code_simp+

text \<open>An added line that looks like a header renames the file.\<close>

lemma added_line_renames_the_file:
  "map df_Path (ParseDiff (Join (printFile \<lparr>fd_path = ''a'', fd_new = False, fd_hunks = [\<lparr>hk_start = 1, hk_changes = [Plus ''++ b/x'']\<rparr>]\<rparr>) [CHR 0x0A])) = [''x'']"
  by code_simp

text \<open>The newline at the end of a diff becomes a context line of the last hunk, with a number and a position of its own.\<close>

lemma final_newline_adds_a_line:
  "LineToPosition (ParseDiff (Join (concat (map printFile sampleDiff)) [CHR 0x0A] @ [CHR 0x0A])) ''a.go'' 10 = 5"
  by code_simp

end
