(* ===== verification/Reviews.thy ===== *)
theory Reviews
  imports Diff Store "HOL-Library.AList"
begin

text \<open>
  The service that reviews pull requests (\<open>pr-review\<close>): its three tables (\<open>review/store.go\<close>), the feedback it learns from (\<open>learning.go\<close>), one review from the
  request to the comments on GitHub (\<open>reviewer.go\<close>) and the handlers (\<open>main.go\<close>). The clock, the random bytes and the failing statements are those of the record
  \<open>db\<close>. GitHub, the memory service, the language model with the system prompt it is given, and the decoding of JSON are parameters. A review runs as one step after the
  handler accepted it; at most ten are accepted at a time.
\<close>

section \<open>Tables\<close>

record StoredReview =
  sr_ID :: string
  sr_UserID :: string
  sr_AgentID :: string
  sr_Repo :: string
  sr_PRNumber :: int
  sr_SeverityCounts :: "(string \<times> nat) list option" \<comment> \<open>the JSON object of the column\<close>
  sr_Status :: string
  sr_InputTokens :: int
  sr_OutputTokens :: int
  sr_CreatedAt :: nat
  sr_UpdatedAt :: nat

record StoredComment =
  sm_ID :: string
  sm_ReviewID :: string
  sm_FilePath :: string
  sm_LineNumber :: int
  sm_Severity :: string
  sm_Category :: string
  sm_Body :: string
  sm_CreatedAt :: nat

record StoredFeedback =
  sf_ID :: string
  sf_ReviewID :: string
  sf_CommentID :: string
  sf_UserID :: string
  sf_FeedbackType :: string
  sf_Reason :: string
  sf_CreatedAt :: nat

record ReviewRequest =
  rq_UserID :: string
  rq_AgentID :: string
  rq_AgentName :: string
  rq_AgentRole :: string
  rq_Personality :: string
  rq_GithubToken :: string
  rq_Provider :: string
  rq_APIKey :: string
  rq_BaseURL :: string
  rq_ModelID :: string
  rq_Repo :: string
  rq_PRNumber :: int
  rq_PRTitle :: string
  rq_PRBody :: string
  rq_Action :: string

record ReviewService =
  rs_db :: db
  rs_reviews :: "StoredReview list"
  rs_comments :: "StoredComment list"
  rs_feedback :: "StoredFeedback list"
  rs_running :: "ReviewRequest list"
  rs_posted :: "(string \<times> int \<times> ghReview) list" \<comment> \<open>what GitHub was sent\<close>

definition onReview :: "(db \<Rightarrow> 'a \<times> db) \<Rightarrow> ReviewService \<Rightarrow> 'a \<times> ReviewService" where
  "onReview m st = (let (r, d) = m (rs_db st) in (r, st\<lparr>rs_db := d\<rparr>))"

definition execReview ::
    "string \<Rightarrow> (ReviewService \<Rightarrow> string option) \<Rightarrow> (ReviewService \<Rightarrow> ReviewService) \<Rightarrow> ReviewService \<Rightarrow> unit result \<times> ReviewService" where
  "execReview msg chk upd st =
     (case onReview statement st of
        (Some e, st1) \<Rightarrow> (Inl (msg @ '': '' @ e), st1)
      | (None, st1) \<Rightarrow>
          (case chk st1 of
             Some e \<Rightarrow> (Inl (msg @ '': '' @ e), st1)
           | None \<Rightarrow> (Inr (), upd st1)))"

text \<open>The \<open>integer\<close> columns have 32 bits.\<close>

definition int4 :: "int \<Rightarrow> bool" where
  "int4 n \<longleftrightarrow> - (2 ^ 31) \<le> n \<and> n < 2 ^ 31"

definition outOfRange :: string where
  "outOfRange = ''pq: value is out of range for type integer''"

definition insertReviewError :: "StoredReview \<Rightarrow> ReviewService \<Rightarrow> string option" where
  "insertReviewError r st =
     (if \<not> int4 (sr_PRNumber r) then Some outOfRange
      else if list_ex (\<lambda>v. sr_ID v = sr_ID r) (rs_reviews st) then Some duplicateKey
      else if list_ex (\<lambda>u. us_ID u = sr_UserID r) (db_users (rs_db st)) \<and> list_ex (\<lambda>a. a_ID a = sr_AgentID r) (db_agents (rs_db st)) then None
      else Some foreignKey)"

definition CreateReview :: "string \<Rightarrow> string \<Rightarrow> string \<Rightarrow> int \<Rightarrow> ReviewService \<Rightarrow> string result \<times> ReviewService" where
  "CreateReview userID agentID repo prNumber st =
     (let (rid, st1) = onReview newID st; (now, st2) = onReview timeNow st1;
          row = \<lparr>sr_ID = rid, sr_UserID = userID, sr_AgentID = agentID, sr_Repo = repo, sr_PRNumber = prNumber, sr_SeverityCounts = None,
                 sr_Status = ''processing'', sr_InputTokens = 0, sr_OutputTokens = 0, sr_CreatedAt = now, sr_UpdatedAt = now\<rparr>
      in case execReview ''create review'' (insertReviewError row) (\<lambda>s. s\<lparr>rs_reviews := rs_reviews s @ [row]\<rparr>) st2 of
           (Inl e, st3) \<Rightarrow> (Inl e, st3)
         | (Inr _, st3) \<Rightarrow> (Inr rid, st3))"

text \<open>No counts (\<open>nil\<close>) are written as an empty object.\<close>

definition UpdateReviewResult ::
    "string \<Rightarrow> (string \<times> nat) list option \<Rightarrow> int \<Rightarrow> int \<Rightarrow> string \<Rightarrow> ReviewService \<Rightarrow> unit result \<times> ReviewService" where
  "UpdateReviewResult reviewID severityCounts inputTokens outputTokens status st =
     (let (now, st1) = onReview timeNow st; counts = (case severityCounts of None \<Rightarrow> [] | Some c \<Rightarrow> c) in
      execReview ''update review'' (\<lambda>s. if int4 inputTokens \<and> int4 outputTokens then None else Some outOfRange)
        (\<lambda>s. s\<lparr>rs_reviews := updateRows (\<lambda>r. sr_ID r = reviewID)
           (\<lambda>r. r\<lparr>sr_SeverityCounts := Some counts, sr_InputTokens := inputTokens, sr_OutputTokens := outputTokens, sr_Status := status,
                  sr_UpdatedAt := now\<rparr>) (rs_reviews s)\<rparr>) st1)"

definition insertCommentError :: "StoredComment \<Rightarrow> ReviewService \<Rightarrow> string option" where
  "insertCommentError c st =
     (if \<not> int4 (sm_LineNumber c) then Some outOfRange
      else if list_ex (\<lambda>v. sm_ID v = sm_ID c) (rs_comments st) then Some duplicateKey
      else if list_ex (\<lambda>r. sr_ID r = sm_ReviewID c) (rs_reviews st) then None else Some foreignKey)"

definition CreateComment :: "string \<Rightarrow> ReviewComment \<Rightarrow> ReviewService \<Rightarrow> string result \<times> ReviewService" where
  "CreateComment reviewID c st =
     (let (cid, st1) = onReview newID st; (now, st2) = onReview timeNow st1;
          row = \<lparr>sm_ID = cid, sm_ReviewID = reviewID, sm_FilePath = rc_FilePath c, sm_LineNumber = rc_Line c, sm_Severity = rc_Severity c,
                 sm_Category = rc_Category c, sm_Body = rc_Body c, sm_CreatedAt = now\<rparr>
      in case execReview ''create comment'' (insertCommentError row) (\<lambda>s. s\<lparr>rs_comments := rs_comments s @ [row]\<rparr>) st2 of
           (Inl e, st3) \<Rightarrow> (Inl e, st3)
         | (Inr _, st3) \<Rightarrow> (Inr cid, st3))"

text \<open>A row that cannot be scanned is logged and left out; the loops do not ask \<open>rows.Err()\<close>.\<close>

fun scanRows :: "'a list \<Rightarrow> ReviewService \<Rightarrow> 'a list \<times> ReviewService" where
  "scanRows [] st = ([], st)"
| "scanRows (r # rs) st =
     (let (e, st1) = onReview statement st; (rest, st2) = scanRows rs st1 in ((if e = None then r # rest else rest), st2))"

definition ListReviews :: "string \<Rightarrow> nat \<Rightarrow> nat \<Rightarrow> ReviewService \<Rightarrow> (StoredReview list \<times> nat) result \<times> ReviewService" where
  "ListReviews userID limit offset st =
     (case onReview statement st of
        (Some e, st1) \<Rightarrow> (Inl (''count reviews: '' @ e), st1)
      | (None, st1) \<Rightarrow>
          let mine = filter (\<lambda>r. sr_UserID r = userID) (rs_reviews st1) in
          (case onReview statement st1 of
             (Some e, st2) \<Rightarrow> (Inl (''list reviews: '' @ e), st2)
           | (None, st2) \<Rightarrow>
               let (rows, st3) = scanRows (take limit (drop offset (orderDesc sr_CreatedAt (filter (\<lambda>r. sr_UserID r = userID) (rs_reviews st2))))) st2
               in (Inr (rows, length mine), st3)))"

text \<open>The comments are ordered by path, in the collation of the database, and by line.\<close>

definition GetReview :: "(string \<Rightarrow> nat) \<Rightarrow> string \<Rightarrow> string \<Rightarrow> ReviewService \<Rightarrow> (StoredReview \<times> StoredComment list) option result \<times> ReviewService" where
  "GetReview collate reviewID userID st =
     (case onReview statement st of
        (Some e, st1) \<Rightarrow> (Inl (''get review: '' @ e), st1)
      | (None, st1) \<Rightarrow>
          (case List.find (\<lambda>r. sr_ID r = reviewID \<and> sr_UserID r = userID) (rs_reviews st1) of
             None \<Rightarrow> (Inr None, st1)
           | Some r \<Rightarrow>
               (case onReview statement st1 of
                  (Some e, st2) \<Rightarrow> (Inl (''query comments: '' @ e), st2)
                | (None, st2) \<Rightarrow>
                    let (comments, st3) = scanRows (sort_key (collate \<circ> sm_FilePath) (sort_key sm_LineNumber (filter (\<lambda>c. sm_ReviewID c = reviewID) (rs_comments st2)))) st2
                    in (Inr (Some (r, comments)), st3))))"

definition insertFeedbackError :: "StoredFeedback \<Rightarrow> ReviewService \<Rightarrow> string option" where
  "insertFeedbackError f st =
     (if list_ex (\<lambda>v. sf_ID v = sf_ID f) (rs_feedback st) then Some duplicateKey
      else if list_ex (\<lambda>r. sr_ID r = sf_ReviewID f) (rs_reviews st) \<and> list_ex (\<lambda>c. sm_ID c = sf_CommentID f) (rs_comments st)
           \<and> list_ex (\<lambda>u. us_ID u = sf_UserID f) (db_users (rs_db st)) then None
      else Some foreignKey)"

definition CreateFeedback ::
    "string \<Rightarrow> string \<Rightarrow> string \<Rightarrow> string \<Rightarrow> string \<Rightarrow> ReviewService \<Rightarrow> unit result \<times> ReviewService" where
  "CreateFeedback reviewID userID commentID feedbackType reason st =
     (let (fid, st1) = onReview newID st; (now, st2) = onReview timeNow st1;
          row = \<lparr>sf_ID = fid, sf_ReviewID = reviewID, sf_CommentID = commentID, sf_UserID = userID, sf_FeedbackType = feedbackType,
                 sf_Reason = reason, sf_CreatedAt = now\<rparr>
      in execReview ''create feedback'' (insertFeedbackError row) (\<lambda>s. s\<lparr>rs_feedback := rs_feedback s @ [row]\<rparr>) st2)"

section \<open>Calibration\<close>

record CalibrationData =
  cb_BySeverity :: "(string \<times> rat) list"
  cb_ByCategory :: "(string \<times> rat) list"
  cb_TotalReviewed :: nat
  cb_TotalApproved :: nat
  cb_TotalRejected :: nat

definition feedbackOn :: "string \<Rightarrow> string \<Rightarrow> ReviewService \<Rightarrow> StoredFeedback list" where
  "feedbackOn userID repo st =
     filter (\<lambda>f. list_ex (\<lambda>r. sr_ID r = sf_ReviewID f \<and> sr_UserID r = userID \<and> sr_Repo r = repo) (rs_reviews st)) (rs_feedback st)"

text \<open>The feedback with the comment it is about, grouped by a column of the comment.\<close>

definition ratesBy :: "(StoredComment \<Rightarrow> string) \<Rightarrow> string \<Rightarrow> string \<Rightarrow> ReviewService \<Rightarrow> (string \<times> rat) list" where
  "ratesBy col userID repo st =
     (let rows = List.map_filter (\<lambda>f. map_option (\<lambda>c. (col c, sf_FeedbackType f)) (List.find (\<lambda>c. sm_ID c = sf_CommentID f) (rs_comments st)))
                   (feedbackOn userID repo st)
      in map (\<lambda>g. let total = length (filter (\<lambda>r. fst r = g) rows); rejected = length (filter (\<lambda>r. r = (g, ''reject'')) rows)
                  in (g, of_nat rejected / of_nat total)) (remdups (map fst rows)))"

definition FetchCalibrationData :: "string \<Rightarrow> string \<Rightarrow> ReviewService \<Rightarrow> CalibrationData result \<times> ReviewService" where
  "FetchCalibrationData userID repo st =
     (case onReview statement st of
        (Some e, st1) \<Rightarrow> (Inl e, st1)
      | (None, st1) \<Rightarrow>
          let rows = feedbackOn userID repo st1;
              cal = \<lparr>cb_BySeverity = [], cb_ByCategory = [], cb_TotalReviewed = length rows,
                     cb_TotalApproved = length (filter (\<lambda>f. sf_FeedbackType f = ''approve'') rows),
                     cb_TotalRejected = length (filter (\<lambda>f. sf_FeedbackType f = ''reject'') rows)\<rparr>
          in if cb_TotalReviewed cal < 10 then (Inr cal, st1)
             else case onReview statement st1 of
                    (Some e, st2) \<Rightarrow> (Inr cal, st2)
                  | (None, st2) \<Rightarrow>
                      let (sev, st3) = scanRows (ratesBy sm_Severity userID repo st2) st2; cal1 = cal\<lparr>cb_BySeverity := sev\<rparr>
                      in case onReview statement st3 of
                           (Some e, st4) \<Rightarrow> (Inr cal1, st4)
                         | (None, st4) \<Rightarrow>
                             let (cat, st5) = scanRows (ratesBy sm_Category userID repo st4) st4
                             in (Inr (cal1\<lparr>cb_ByCategory := cat\<rparr>), st5))"

section \<open>One review\<close>

text \<open>
  \<open>re_chat\<close> is the model with the system prompt that \<open>BuildSystemPrompt\<close> makes of the agent, the conventions and the calibration; it returns the text and the
  numbers of tokens. \<open>re_decode\<close> is \<open>json.Unmarshal\<close> of the answer: the summary and the comments, \<open>None\<close> when they are missing or do not decode.
\<close>

record reviewEnv =
  re_fetchDiff :: "string \<Rightarrow> int \<Rightarrow> string result"
  re_conventions :: "string \<Rightarrow> string \<Rightarrow> string list result"
  re_newClient :: "ReviewRequest \<Rightarrow> string option"
  re_chat :: "ReviewRequest \<Rightarrow> string list \<Rightarrow> CalibrationData option \<Rightarrow> string \<Rightarrow> (string \<times> int \<times> int) result"
  re_decode :: "string \<Rightarrow> (string \<times> ReviewComment list option) option"
  re_createReview :: "string \<Rightarrow> int \<Rightarrow> ghReview \<Rightarrow> string option"
  re_collate :: "string \<Rightarrow> nat"
  re_secret :: string
  re_ping :: "string option"

definition BuildUserPrompt_review :: "string \<Rightarrow> string \<Rightarrow> string \<Rightarrow> string" where
  "BuildUserPrompt_review prTitle prBody diffContext =
     ''## Pull Request: '' @ prTitle @ [CHR 0x0A, CHR 0x0A]
     @ (if prBody \<noteq> []
        then ''## Description:'' @ [CHR 0x0A] @ (if length prBody > 2000 then take 2000 prBody @ ''... (truncated)'' else prBody) @ [CHR 0x0A, CHR 0x0A]
        else [])
     @ ''## Diff:'' @ [CHR 0x0A] @ ''```'' @ [CHR 0x0A] @ diffContext @ [CHR 0x0A] @ ''```'' @ [CHR 0x0A]"

definition bracesOf :: "string \<Rightarrow> string option" where
  "bracesOf text =
     (case (Index text ''{'', LastIndexByte text (CHR ''}'')) of
        (Some jsonStart, Some jsonEnd) \<Rightarrow> if jsonEnd \<le> jsonStart then None else Some (take (jsonEnd + 1 - jsonStart) (drop jsonStart text))
      | _ \<Rightarrow> None)"

definition parseReviewResponse :: "reviewEnv \<Rightarrow> string \<Rightarrow> string \<times> ReviewComment list" where
  "parseReviewResponse env text =
     (case bracesOf text of
        None \<Rightarrow> (text, [])
      | Some jsonStr \<Rightarrow>
          (case re_decode env jsonStr of
             None \<Rightarrow> (text, [])
           | Some (summary, comments) \<Rightarrow> (summary, case comments of None \<Rightarrow> [] | Some cs \<Rightarrow> cs)))"

definition countSeverities :: "ReviewComment list \<Rightarrow> (string \<times> nat) list" where
  "countSeverities cs = fold (\<lambda>c m. AList.update (rc_Severity c) (countOf (rc_Severity c) m + 1) m) cs []"

definition failReview :: "string \<Rightarrow> int \<Rightarrow> int \<Rightarrow> string \<Rightarrow> ReviewService \<Rightarrow> ReviewResult result \<times> ReviewService" where
  "failReview reviewID inTokens outTokens e st = (Inl e, snd (UpdateReviewResult reviewID None inTokens outTokens ''error'' st))"

definition storeComments :: "string \<Rightarrow> ReviewComment list \<Rightarrow> ReviewService \<Rightarrow> ReviewService" where
  "storeComments reviewID cs st = fold (\<lambda>c s. snd (CreateComment reviewID c s)) cs st"

definition publish :: "reviewEnv \<Rightarrow> ReviewRequest \<Rightarrow> ReviewResult \<Rightarrow> DiffFile list \<Rightarrow> ReviewService \<Rightarrow> ReviewResult result \<times> ReviewService" where
  "publish env req result files st =
     (let st1 = storeComments (rr_ID result) (rr_Comments result) st;
          rv = PostReview (rq_AgentName req) (rq_AgentRole req) result files;
          status = (case re_createReview env (rq_Repo req) (rq_PRNumber req) rv of Some e \<Rightarrow> ''posted_partial'' | None \<Rightarrow> ''completed'');
          st2 = st1\<lparr>rs_posted := rs_posted st1 @ [(rq_Repo req, rq_PRNumber req, rv)]\<rparr>
      in (Inr result, snd (UpdateReviewResult (rr_ID result) (Some (rr_SeverityCounts result)) (rr_InputTokens result) (rr_OutputTokens result) status st2)))"

definition reviewDiff :: "reviewEnv \<Rightarrow> ReviewRequest \<Rightarrow> string \<Rightarrow> string \<Rightarrow> ReviewService \<Rightarrow> ReviewResult result \<times> ReviewService" where
  "reviewDiff env req reviewID diff st =
     (let files = ParseDiff diff;
          conventions = (case re_conventions env (rq_UserID req) (rq_Repo req) of Inl e \<Rightarrow> [] | Inr cs \<Rightarrow> cs);
          (cal, st1) = FetchCalibrationData (rq_UserID req) (rq_Repo req) st;
          calibration = (case cal of Inl e \<Rightarrow> None | Inr c \<Rightarrow> Some c);
          userPrompt = BuildUserPrompt_review (rq_PRTitle req) (rq_PRBody req) (BuildDiffContext files 8000)
      in case re_newClient env req of
           Some e \<Rightarrow> failReview reviewID 0 0 (''create LLM client: '' @ e) st1
         | None \<Rightarrow>
             (case re_chat env req conventions calibration userPrompt of
                Inl e \<Rightarrow> failReview reviewID 0 0 (''LLM review: '' @ e) st1
              | Inr (text, inTokens, outTokens) \<Rightarrow>
                  let (summary, comments) = parseReviewResponse env text
                  in publish env req \<lparr>rr_ID = reviewID, rr_Summary = summary, rr_Comments = comments, rr_SeverityCounts = countSeverities comments,
                       rr_InputTokens = inTokens, rr_OutputTokens = outTokens\<rparr> files st1))"

definition ProcessReview :: "reviewEnv \<Rightarrow> ReviewRequest \<Rightarrow> ReviewService \<Rightarrow> ReviewResult result \<times> ReviewService" where
  "ProcessReview env req st =
     (case CreateReview (rq_UserID req) (rq_AgentID req) (rq_Repo req) (rq_PRNumber req) st of
        (Inl e, st1) \<Rightarrow> (Inl (''create review record: '' @ e), st1)
      | (Inr reviewID, st1) \<Rightarrow>
          (case re_fetchDiff env (rq_Repo req) (rq_PRNumber req) of
             Inl e \<Rightarrow> failReview reviewID 0 0 (''fetch diff: '' @ e) st1
           | Inr diff \<Rightarrow> reviewDiff env req reviewID diff st1))"

section \<open>Handlers\<close>

datatype reviewBody =
    ErrorBody string
  | ProcessingBody
  | ReviewsBody "StoredReview list" nat nat nat
  | ReviewBody StoredReview "StoredComment list"
  | SavedBody
  | HealthBody string

text \<open>\<open>limit\<close> and \<open>offset\<close> of a listing: what \<open>strconv.Atoi\<close> gives for the query, if it is in range.\<close>

definition listLimit :: "int option \<Rightarrow> nat" where
  "listLimit v = (case v of Some n \<Rightarrow> if n > 0 \<and> n \<le> 100 then nat n else 20 | None \<Rightarrow> 20)"

definition listOffset :: "int option \<Rightarrow> nat" where
  "listOffset v = (case v of Some n \<Rightarrow> if n \<ge> 0 then nat n else 0 | None \<Rightarrow> 0)"

definition authMiddleware_review ::
    "string \<Rightarrow> string \<Rightarrow> (ReviewService \<Rightarrow> (nat \<times> reviewBody) \<times> ReviewService) \<Rightarrow> ReviewService \<Rightarrow> (nat \<times> reviewBody) \<times> ReviewService" where
  "authMiddleware_review secret authHeader next st =
     (if authHeader = [] then ((401, ErrorBody ''missing authorization header''), st)
      else case Index authHeader '' '' of
             None \<Rightarrow> ((401, ErrorBody ''invalid authorization format''), st)
           | Some i \<Rightarrow>
               if take i authHeader \<noteq> ''Bearer'' then ((401, ErrorBody ''invalid authorization format''), st)
               else if drop (i + 1) authHeader \<noteq> secret then ((401, ErrorBody ''invalid token''), st)
               else next st)"

definition workerPoolSize :: nat where "workerPoolSize = 10"

text \<open>\<open>body\<close> is the decoded request, or \<open>None\<close> when the body is too long or no JSON of the right shape.\<close>

definition handleCreateReview :: "ReviewRequest option \<Rightarrow> ReviewService \<Rightarrow> (nat \<times> reviewBody) \<times> ReviewService" where
  "handleCreateReview body st =
     (case body of
        None \<Rightarrow> ((400, ErrorBody ''invalid request body''), st)
      | Some req \<Rightarrow>
          if rq_Repo req = [] \<or> rq_PRNumber req = 0 \<or> rq_GithubToken req = [] \<or> rq_APIKey req = []
          then ((400, ErrorBody ''missing required fields''), st)
          else if length (rs_running st) < workerPoolSize then ((202, ProcessingBody), st\<lparr>rs_running := rs_running st @ [req]\<rparr>)
          else ((503, ErrorBody ''review queue is full, try again later''), st))"

definition handleListReviews :: "string \<Rightarrow> int option \<Rightarrow> int option \<Rightarrow> ReviewService \<Rightarrow> (nat \<times> reviewBody) \<times> ReviewService" where
  "handleListReviews userID limitQ offsetQ st =
     (if userID = [] then ((400, ErrorBody ''userId is required''), st)
      else case ListReviews userID (listLimit limitQ) (listOffset offsetQ) st of
             (Inl e, st1) \<Rightarrow> ((500, ErrorBody ''failed to list reviews''), st1)
           | (Inr (reviews, count), st1) \<Rightarrow> ((200, ReviewsBody reviews count (listLimit limitQ) (listOffset offsetQ)), st1))"

definition handleGetReview :: "reviewEnv \<Rightarrow> string \<Rightarrow> string \<Rightarrow> ReviewService \<Rightarrow> (nat \<times> reviewBody) \<times> ReviewService" where
  "handleGetReview env reviewID userID st =
     (if reviewID = [] then ((400, ErrorBody ''review id is required''), st)
      else if userID = [] then ((400, ErrorBody ''userId is required''), st)
      else case GetReview (re_collate env) reviewID userID st of
             (Inl e, st1) \<Rightarrow> ((500, ErrorBody ''failed to get review''), st1)
           | (Inr None, st1) \<Rightarrow> ((404, ErrorBody ''review not found''), st1)
           | (Inr (Some (r, comments)), st1) \<Rightarrow> ((200, ReviewBody r comments), st1))"

text \<open>\<open>body\<close>: comment, type of the feedback and reason.\<close>

definition handleFeedback ::
    "string \<Rightarrow> (string \<times> string \<times> string) option \<Rightarrow> string \<Rightarrow> ReviewService \<Rightarrow> (nat \<times> reviewBody) \<times> ReviewService" where
  "handleFeedback reviewID body userID st =
     (if reviewID = [] then ((400, ErrorBody ''review id is required''), st)
      else case body of
             None \<Rightarrow> ((400, ErrorBody ''invalid request body''), st)
           | Some (commentID, feedbackType, reason) \<Rightarrow>
               if userID = [] then ((400, ErrorBody ''userId is required''), st)
               else if feedbackType \<noteq> ''approve'' \<and> feedbackType \<noteq> ''reject''
               then ((400, ErrorBody (''feedbackType must be 'approve' or 'reject'' @ [CHR 0x27])), st)
               else case CreateFeedback reviewID userID commentID feedbackType reason st of
                      (Inl e, st1) \<Rightarrow> ((500, ErrorBody ''failed to save feedback''), st1)
                    | (Inr _, st1) \<Rightarrow> ((201, SavedBody), st1))"

definition handleHealth_review :: "reviewEnv \<Rightarrow> nat \<times> reviewBody" where
  "handleHealth_review env = (case re_ping env of Some e \<Rightarrow> (503, HealthBody ''degraded'') | None \<Rightarrow> (200, HealthBody ''ok''))"

text \<open>What the service does: a request on one of its routes, or the end of a review that runs.\<close>

datatype reviewOp =
    PostReviews string "ReviewRequest option"
  | GetReviews string string "int option" "int option"
  | GetOneReview string string string
  | PostFeedback string string "(string \<times> string \<times> string) option" string
  | FinishReview nat

fun reviewStep :: "reviewEnv \<Rightarrow> reviewOp \<Rightarrow> ReviewService \<Rightarrow> ReviewService" where
  "reviewStep env (PostReviews auth body) st = snd (authMiddleware_review (re_secret env) auth (handleCreateReview body) st)"
| "reviewStep env (GetReviews auth u l k) st = snd (authMiddleware_review (re_secret env) auth (handleListReviews u l k) st)"
| "reviewStep env (GetOneReview auth r u) st = snd (authMiddleware_review (re_secret env) auth (handleGetReview env r u) st)"
| "reviewStep env (PostFeedback auth r body u) st = snd (authMiddleware_review (re_secret env) auth (handleFeedback r body u) st)"
| "reviewStep env (FinishReview i) st =
     (if i < length (rs_running st)
      then let st1 = snd (ProcessReview env (rs_running st ! i) st)
           in st1\<lparr>rs_running := take i (rs_running st1) @ drop (Suc i) (rs_running st1)\<rparr>
      else st)"

section \<open>What GitHub is sent\<close>

lemma onReview_posted [simp]:
  "rs_posted (snd (onReview m st)) = rs_posted st" "rs_running (snd (onReview m st)) = rs_running st"
  by (simp_all add: onReview_def split: prod.splits)

lemma onReview_eq: "onReview m st = (r, st') \<Longrightarrow> rs_posted st' = rs_posted st \<and> rs_running st' = rs_running st"
  using onReview_posted [of m st] by simp

definition unposted :: "ReviewService \<Rightarrow> ReviewService \<Rightarrow> bool" where
  "unposted st st' \<longleftrightarrow> rs_posted st' = rs_posted st \<and> rs_running st' = rs_running st"

lemma unposted_trans: "unposted a b \<Longrightarrow> unposted b c \<Longrightarrow> unposted a c"
  by (simp add: unposted_def)

lemma execReview_unposted:
  assumes "\<And>s. rs_posted (upd s) = rs_posted s \<and> rs_running (upd s) = rs_running s"
  shows "unposted st (snd (execReview msg chk upd st))"
  using assms by (auto simp: execReview_def unposted_def dest!: onReview_eq split: prod.splits option.splits)

lemma insert_unposted:
  assumes "\<And>i now s. rs_posted (upd i now s) = rs_posted s \<and> rs_running (upd i now s) = rs_running s"
    and "onReview newID st = (i, st1)" "onReview timeNow st1 = (now, st2)"
  shows "unposted st (snd (execReview msg chk (upd i now) st2))"
proof -
  have "unposted st st2" using onReview_eq [OF assms(2)] onReview_eq [OF assms(3)] by (simp add: unposted_def)
  moreover have "unposted st2 (snd (execReview msg chk (upd i now) st2))" by (rule execReview_unposted [OF assms(1)])
  ultimately show ?thesis by (rule unposted_trans)
qed

lemma CreateReview_unposted: "unposted st (snd (CreateReview u a repo n st))"
proof -
  obtain i st1 where i: "onReview newID st = (i, st1)" by fastforce
  obtain now st2 where t: "onReview timeNow st1 = (now, st2)" by fastforce
  define row where "row = \<lparr>sr_ID = i, sr_UserID = u, sr_AgentID = a, sr_Repo = repo, sr_PRNumber = n, sr_SeverityCounts = None,
    sr_Status = ''processing'', sr_InputTokens = 0, sr_OutputTokens = 0, sr_CreatedAt = now, sr_UpdatedAt = now\<rparr>"
  have "unposted st (snd (execReview ''create review'' (insertReviewError row) (\<lambda>s. s\<lparr>rs_reviews := rs_reviews s @ [row]\<rparr>) st2))"
    using insert_unposted [OF _ i t, of "\<lambda>_ _ s. s\<lparr>rs_reviews := rs_reviews s @ [row]\<rparr>"] by simp
  then show ?thesis unfolding CreateReview_def i t Let_def prod.case row_def [symmetric] by (auto split: prod.splits sum.splits)
qed

lemma UpdateReviewResult_unposted: "unposted st (snd (UpdateReviewResult i c a b s st))"
proof -
  obtain now st1 where t: "onReview timeNow st = (now, st1)" by fastforce
  have "unposted st st1" using onReview_eq [OF t] by (simp add: unposted_def)
  then show ?thesis unfolding UpdateReviewResult_def t Let_def prod.case
    by (rule unposted_trans) (rule execReview_unposted, simp)
qed

lemma CreateComment_unposted: "unposted st (snd (CreateComment r c st))"
proof -
  obtain i st1 where i: "onReview newID st = (i, st1)" by fastforce
  obtain now st2 where t: "onReview timeNow st1 = (now, st2)" by fastforce
  define row where "row = \<lparr>sm_ID = i, sm_ReviewID = r, sm_FilePath = rc_FilePath c, sm_LineNumber = rc_Line c, sm_Severity = rc_Severity c,
    sm_Category = rc_Category c, sm_Body = rc_Body c, sm_CreatedAt = now\<rparr>"
  have "unposted st (snd (execReview ''create comment'' (insertCommentError row) (\<lambda>s. s\<lparr>rs_comments := rs_comments s @ [row]\<rparr>) st2))"
    using insert_unposted [OF _ i t, of "\<lambda>_ _ s. s\<lparr>rs_comments := rs_comments s @ [row]\<rparr>"] by simp
  then show ?thesis unfolding CreateComment_def i t Let_def prod.case row_def [symmetric] by (auto split: prod.splits sum.splits)
qed

lemma storeComments_unposted: "unposted st (storeComments r cs st)"
  unfolding storeComments_def
  by (induction cs arbitrary: st) (use CreateComment_unposted unposted_trans in \<open>auto simp: unposted_def\<close>)

lemma scanRows_unposted: "scanRows rs st = (r, st') \<Longrightarrow> unposted st st'"
proof (induction rs arbitrary: st r st')
  case (Cons x rs)
  obtain e st1 where e: "onReview statement st = (e, st1)" by fastforce
  obtain y st2 where y: "scanRows rs st1 = (y, st2)" by fastforce
  from Cons.IH [OF y] onReview_eq [OF e] Cons.prems show ?case by (simp add: e y unposted_def)
qed (simp add: unposted_def)

lemma FetchCalibrationData_unposted:
  assumes "FetchCalibrationData u repo st = (r, st')"
  shows "unposted st st'"
  using assms unfolding FetchCalibrationData_def
  by (auto simp: Let_def unposted_def split: prod.splits option.splits if_splits dest!: onReview_eq scanRows_unposted)

lemma countSeverities_exact: "countOf s (countSeverities cs) = length (filter (\<lambda>c. rc_Severity c = s) cs)"
proof -
  have "countOf s (fold (\<lambda>c m. AList.update (rc_Severity c) (countOf (rc_Severity c) m + 1) m) cs m)
      = countOf s m + length (filter (\<lambda>c. rc_Severity c = s) cs)" for m
  proof (induction cs arbitrary: m)
    case (Cons c cs)
    have "countOf s (AList.update (rc_Severity c) (countOf (rc_Severity c) m + 1) m) = countOf s m + (if rc_Severity c = s then 1 else 0)"
      by (simp add: countOf_def update_conv')
    with Cons show ?case by simp
  qed simp
  from this [of "[]"] show ?thesis by (simp add: countSeverities_def countOf_def)
qed

definition sitsAt :: "DiffFile list \<Rightarrow> string \<Rightarrow> int \<Rightarrow> int \<Rightarrow> bool" where
  "sitsAt files path n pos \<longleftrightarrow>
     (\<exists>f \<in> set files. df_Path f = path \<and> (\<exists>h \<in> set (df_Hunks f). \<exists>l \<in> set (dh_Lines h). hasLine n l \<and> dl_Position l = pos))"

lemma LineToPosition_sits: "LineToPosition files path n \<noteq> 0 \<Longrightarrow> sitsAt files path n (LineToPosition files path n)"
proof -
  define ls where "ls = concat (map (\<lambda>file. concat (map dh_Lines (df_Hunks file))) (filter (\<lambda>file. df_Path file = path) files))"
  have lp: "LineToPosition files path n = (case List.find (hasLine n) ls of Some l \<Rightarrow> dl_Position l | None \<Rightarrow> 0)"
    by (simp add: LineToPosition_def ls_def)
  assume "LineToPosition files path n \<noteq> 0"
  with lp obtain l where l: "List.find (hasLine n) ls = Some l" by (cases "List.find (hasLine n) ls") simp_all
  have "l \<in> set ls" "hasLine n l" using find_Some_iff_mem [OF l] by simp_all
  moreover have "LineToPosition files path n = dl_Position l" by (simp add: lp l)
  ultimately show ?thesis by (auto simp: sitsAt_def ls_def)
qed

lemma FetchCalibrationData_posted: "FetchCalibrationData u repo st = (r, st') \<Longrightarrow> rs_posted st' = rs_posted st"
  using FetchCalibrationData_unposted by (simp add: unposted_def)

lemma failReview_posted: "fst (failReview i a b e st) = Inl e \<and> rs_posted (snd (failReview i a b e st)) = rs_posted st"
  using UpdateReviewResult_unposted by (simp add: failReview_def unposted_def)

lemma publish_posts:
  "fst (publish env req result files st) = Inr result
   \<and> rs_posted (snd (publish env req result files st))
     = rs_posted st @ [(rq_Repo req, rq_PRNumber req, PostReview (rq_AgentName req) (rq_AgentRole req) result files)]"
  using storeComments_unposted [of st "rr_ID result" "rr_Comments result"] UpdateReviewResult_unposted
  by (simp add: publish_def Let_def unposted_def)

text \<open>What a review says, for the diff it is about.\<close>

definition faithful :: "ReviewResult \<Rightarrow> string \<Rightarrow> ghReview \<Rightarrow> bool" where
  "faithful result diff rv \<longleftrightarrow>
     (gv_Event rv = ''REQUEST_CHANGES'' \<longleftrightarrow> list_ex (\<lambda>c. rc_Severity c = ''critical'') (rr_Comments result))
     \<and> (\<forall>s. countOf s (rr_SeverityCounts result) = length (filter (\<lambda>c. rc_Severity c = s) (rr_Comments result)))
     \<and> list_all (\<lambda>(path, pos, body). pos \<noteq> 0
          \<and> list_ex (\<lambda>c. rc_FilePath c = path \<and> sitsAt (ParseDiff diff) path (rc_Line c) pos) (rr_Comments result)) (gv_Comments rv)"

lemma PostReview_faithful:
  assumes "rr_SeverityCounts result = countSeverities (rr_Comments result)"
  shows "faithful result diff (PostReview name role result (ParseDiff diff))"
proof -
  have "length (filter (\<lambda>c. rc_Severity c = ''critical'') (rr_Comments result)) > 0 \<longleftrightarrow> list_ex (\<lambda>c. rc_Severity c = ''critical'') (rr_Comments result)"
    by (auto simp: list_ex_iff filter_empty_conv)
  then show ?thesis
    using LineToPosition_sits by (auto simp: faithful_def PostReview_def assms countSeverities_exact placeComments_def list_all_iff list_ex_iff)
qed

lemma reviewDiff_outcome:
  "case fst (reviewDiff env req i diff st) of
     Inl e \<Rightarrow> rs_posted (snd (reviewDiff env req i diff st)) = rs_posted st
   | Inr result \<Rightarrow> \<exists>rv. rs_posted (snd (reviewDiff env req i diff st)) = rs_posted st @ [(rq_Repo req, rq_PRNumber req, rv)] \<and> faithful result diff rv"
proof -
  obtain cal st1 where cal: "FetchCalibrationData (rq_UserID req) (rq_Repo req) st = (cal, st1)" by fastforce
  note p = FetchCalibrationData_posted [OF cal]
  show ?thesis
  proof (cases "re_newClient env req")
    case (Some e)
    show ?thesis unfolding reviewDiff_def Let_def cal prod.case Some option.case
      using failReview_posted [of i 0 0 "''create LLM client: '' @ e" st1] p by simp
  next
    case None
    define cs where "cs = (case re_conventions env (rq_UserID req) (rq_Repo req) of Inl e \<Rightarrow> [] | Inr cs \<Rightarrow> cs)"
    define cb where "cb = (case cal of Inl e \<Rightarrow> None | Inr c \<Rightarrow> Some c)"
    define up where "up = BuildUserPrompt_review (rq_PRTitle req) (rq_PRBody req) (BuildDiffContext (ParseDiff diff) 8000)"
    show ?thesis
    proof (cases "re_chat env req cs cb up")
      case (Inl e)
      show ?thesis unfolding reviewDiff_def Let_def cal prod.case None option.case cs_def [symmetric] cb_def [symmetric] up_def [symmetric] Inl sum.case
        using failReview_posted [of i 0 0 "''LLM review: '' @ e" st1] p by simp
    next
      case (Inr x)
      obtain answer a b where x: "x = (answer, a, b)" by (metis prod.exhaust)
      obtain summary comments where pr: "parseReviewResponse env answer = (summary, comments)" by fastforce
      define result where "result = \<lparr>rr_ID = i, rr_Summary = summary, rr_Comments = comments, rr_SeverityCounts = countSeverities comments,
        rr_InputTokens = a, rr_OutputTokens = b\<rparr>"
      have f: "faithful result diff (PostReview (rq_AgentName req) (rq_AgentRole req) result (ParseDiff diff))"
        by (rule PostReview_faithful) (simp add: result_def)
      show ?thesis
        unfolding reviewDiff_def Let_def cal prod.case None option.case cs_def [symmetric] cb_def [symmetric] up_def [symmetric] Inr x sum.case pr
          result_def [symmetric]
        using publish_posts [of env req result "ParseDiff diff" st1] p f by auto
    qed
  qed
qed


section \<open>Requests\<close>

text \<open>A request without the secret is refused and changes nothing.\<close>

lemma unauthorized_changes_nothing:
  assumes "auth \<noteq> ''Bearer '' @ secret"
  shows "fst (fst (authMiddleware_review secret auth nxt st)) = 401 \<and> snd (authMiddleware_review secret auth nxt st) = st"
proof (cases "Index auth '' ''")
  case (Some i)
  have "take 1 (drop i auth) = '' ''" using Index_Some_slice [OF Some] by simp
  then have "auth = take i auth @ '' '' @ drop (i + 1) auth"
    by (metis append_take_drop_id drop_drop add.commute)
  with assms show ?thesis by (auto simp: authMiddleware_review_def Some)
qed (auto simp: authMiddleware_review_def)

lemma CreateFeedback_unposted: "unposted st (snd (CreateFeedback r u c t s st))"
proof -
  obtain i st1 where i: "onReview newID st = (i, st1)" by fastforce
  obtain now st2 where t: "onReview timeNow st1 = (now, st2)" by fastforce
  show ?thesis unfolding CreateFeedback_def i t Let_def prod.case
    by (rule insert_unposted [OF _ i t, of "\<lambda>i now s. s\<lparr>rs_feedback := rs_feedback s @ [\<lparr>sf_ID = i, sf_ReviewID = r, sf_CommentID = c, sf_UserID = u,
          sf_FeedbackType = _, sf_Reason = _, sf_CreatedAt = now\<rparr>]\<rparr>"]) simp
qed

text \<open>
  Feedback is accepted from any user, on any review, for a comment of any other review: only the three rows have to exist. It then counts in the calibration of the
  review's owner.
\<close>

lemma anyone_can_give_feedback:
  assumes "list_ex (\<lambda>r. sr_ID r = rid) (rs_reviews st)" "list_ex (\<lambda>c. sm_ID c = cid) (rs_comments st)"
    and "list_ex (\<lambda>u. us_ID u = uid) (db_users (rs_db st))" "faults (rs_db st) = []"
    and "\<forall>f \<in> set (rs_feedback st). sf_ID f \<noteq> fst (newID (rs_db st))" "rid \<noteq> []" "uid \<noteq> []"
  shows "fst (handleFeedback rid (Some (cid, ''reject'', reason)) uid st) = (201, SavedBody)"
proof -
  obtain i d1 where i: "newID (rs_db st) = (i, d1)" by fastforce
  obtain now d2 where t: "timeNow d1 = (now, d2)" by fastforce
  have o: "onReview newID st = (i, st\<lparr>rs_db := d1\<rparr>)" "onReview timeNow (st\<lparr>rs_db := d1\<rparr>) = (now, st\<lparr>rs_db := d2\<rparr>)"
    by (simp_all add: onReview_def i t)
  have d2: "faults d2 = []" "db_users d2 = db_users (rs_db st)"
    using newID_other [OF i] timeNow_other [OF t] tables_eqD(7) [OF newID_tables [OF i]] tables_eqD(7) [OF timeNow_tables [OF t]] assms(4) by simp_all
  have "fst (CreateFeedback rid uid cid ''reject'' reason st) = Inr ()"
    using assms(1-3,5) d2
    by (auto simp: CreateFeedback_def o Let_def execReview_def onReview_def insertFeedbackError_def i t list_ex_iff)
  then show ?thesis using assms(6,7) by (auto simp: handleFeedback_def split: prod.splits sum.splits)
qed

text \<open>No more than ten reviews run.\<close>

lemma reads_running:
  "rs_running (snd (ListReviews u l k st)) = rs_running st" "rs_running (snd (GetReview col r u st)) = rs_running st"
  by (auto simp: ListReviews_def GetReview_def Let_def split: prod.splits option.splits dest!: onReview_eq scanRows_unposted simp: unposted_def)

lemma reviewDiff_running: "rs_running (snd (reviewDiff env req i diff st)) = rs_running st"
proof -
  obtain cal st1 where cal: "FetchCalibrationData (rq_UserID req) (rq_Repo req) st = (cal, st1)" by fastforce
  have p: "rs_running st1 = rs_running st" using FetchCalibrationData_unposted [OF cal] by (simp add: unposted_def)
  have f: "rs_running (snd (failReview i a b e s)) = rs_running s" for a b e s
    using UpdateReviewResult_unposted by (simp add: failReview_def unposted_def)
  have q: "rs_running (snd (publish env req result files s)) = rs_running s" for result files s
    using storeComments_unposted [of s "rr_ID result" "rr_Comments result"] UpdateReviewResult_unposted
    by (simp add: publish_def Let_def unposted_def)
  show ?thesis unfolding reviewDiff_def Let_def cal prod.case by (simp add: p f q split: option.splits sum.splits prod.splits)
qed

lemma ProcessReview_running: "rs_running (snd (ProcessReview env req st)) = rs_running st"
proof -
  obtain x st1 where x: "CreateReview (rq_UserID req) (rq_AgentID req) (rq_Repo req) (rq_PRNumber req) st = (x, st1)" by fastforce
  have p: "rs_running st1 = rs_running st"
    using CreateReview_unposted [of st "rq_UserID req" "rq_AgentID req" "rq_Repo req" "rq_PRNumber req"] x by (simp add: unposted_def)
  have f: "rs_running (snd (failReview i a b e s)) = rs_running s" for i a b e s
    using UpdateReviewResult_unposted by (simp add: failReview_def unposted_def)
  show ?thesis unfolding ProcessReview_def x prod.case by (simp add: p f reviewDiff_running split: sum.splits)
qed

lemma at_most_ten_reviews:
  assumes "length (rs_running st) \<le> 10"
  shows "length (rs_running (fold (reviewStep env) ops st)) \<le> 10"
proof -
  have auth: "length (rs_running (snd (authMiddleware_review secret a nxt s))) \<le> 10"
    if "length (rs_running s) \<le> 10" "length (rs_running (snd (nxt s))) \<le> 10" for secret a nxt s
    using that by (simp add: authMiddleware_review_def split: option.splits)
  have "length (rs_running (snd (handleCreateReview body s))) \<le> 10" if "length (rs_running s) \<le> 10" for body s
    using that by (simp add: handleCreateReview_def workerPoolSize_def split: option.splits)
  moreover have "rs_running (snd (handleListReviews u l k s)) = rs_running s" for u l k s
    using reads_running(1) [of u "listLimit l" "listOffset k" s] by (auto simp: handleListReviews_def split: prod.splits sum.splits)
  moreover have "rs_running (snd (handleGetReview env r u s)) = rs_running s" for r u s
    using reads_running(2) [of "re_collate env" r u s] by (auto simp: handleGetReview_def split: prod.splits sum.splits option.splits)
  moreover have "rs_running (snd (handleFeedback r body u s)) = rs_running s" for r body u s
    using CreateFeedback_unposted by (auto simp: handleFeedback_def unposted_def split: prod.splits sum.splits option.splits) (metis snd_conv)+
  moreover have "length (rs_running (reviewStep env (FinishReview i) s)) \<le> 10" if "length (rs_running s) \<le> 10" for i s
    using that by (auto simp: Let_def ProcessReview_running)
  ultimately have step: "length (rs_running (reviewStep env x s)) \<le> 10" if "length (rs_running s) \<le> 10" for x s
    using that by (cases x) (auto intro!: auth simp del: reviewStep.simps(5))
  show ?thesis using assms by (induction ops arbitrary: st) (simp_all add: step)
qed

text \<open>Rates of false positives are fractions.\<close>

lemma ratesBy_range: "(g, q) \<in> set (ratesBy col u repo st) \<Longrightarrow> 0 \<le> q \<and> q \<le> 1"
proof -
  have "length (filter (\<lambda>r. r = (g, ''reject'')) rows) \<le> length (filter (\<lambda>r. fst r = g) rows)" for g and rows :: "(string \<times> string) list"
    by (induction rows) auto
  then show "(g, q) \<in> set (ratesBy col u repo st) \<Longrightarrow> 0 \<le> q \<and> q \<le> 1"
    by (auto simp: ratesBy_def Let_def divide_le_eq_1)
qed

end
