(* ===== verification/Spec2Isabelle.thy ===== *)
theory Spec2Isabelle
  imports EngineApply Notifier Webhooks Conversation Reviews
begin

text \<open>
  \<^bold>\<open>A verification of the services of Shipmates.\<close>

  Shipmates lets chat users hand programming tasks to agents. A bot process takes requests from Discord,
  Slack and voice, runs agents in containers or through its own edit engine, lets agents delegate tasks to each other and runs tasks
  on schedules; a relay streams the output of running sessions to browsers; further services react to GitHub webhooks. All share a PostgreSQL
  database through \<open>src/go-shared\<close>.

  \<^bold>\<open>How the code is modelled.\<close>
  A Go function is a HOL function with the same branches in the same order. A function that returns \<open>(T, error)\<close> is
  a function into \<open>string + T\<close> whose left side is the text of the error; a pointer that may be nil is an \<open>option\<close>; a struct is a record. The database is the
  record \<open>db\<close> of theory \<open>Store\<close>: its tables are lists of rows, a statement is a function on them with the unique
  indexes, foreign keys and cascades of \<open>src/database/schema.sql\<close>, and four more fields are the environment that every call consumes: the
  list \<open>faults\<close> says which of the next statements fail and how, \<open>clock\<close> and \<open>ticks\<close> are the time that passes, \<open>entropy\<close> the random bytes of new ids,
  and \<open>cteFirst\<close> the order in which PostgreSQL runs a data-modifying \<open>WITH\<close> clause. A theorem about an arbitrary \<open>db\<close> is thus one about every
  pattern of failing statements. Go strings are byte lists. Times are milliseconds (nanoseconds in the relay), \<open>float64\<close> amounts are rational numbers. Goroutines that share state are
  interleaved by an explicit step function; \<open>reach\<close> and the locale \<open>invariant_machine\<close> of \<open>Prelude\<close> turn a step-wise invariant into one of every reachable state.

  \<^bold>\<open>Theories.\<close>
  \<^item> \<open>Prelude\<close>, \<open>GoStrings\<close>, \<open>Json\<close>: results, collections of facts, reachability; the parts of Go's \<open>strings\<close>, \<open>net/url\<close>, \<open>path/filepath\<close>,
    \<open>strconv\<close> and \<open>encoding/json\<close> the program uses. \<open>Json\<close> also shows that the end marker the relay looks for occurs in exactly the chunks of type end.
  \<^item> \<open>Paths\<close>, \<open>EngineParser\<close>, \<open>EngineApply\<close> (\<open>bot/orchestrator/engine/paths.go\<close>, \<open>parser.go\<close>, \<open>apply.go\<close>): path guards, parsing of a model's answer, and
    application of edits. The parser yields only safe paths, similarity is the true edit distance, a match lies inside the file, the exact condition of the panic,
    and only guarded paths of the file system are touched. \<open>json.Unmarshal\<close>, Unicode lower case and the file system are parameters.
  \<^item> \<open>Ids\<close> (\<open>go-shared/id.go\<close>): generated ids are valid and distinct.
  \<^item> \<open>Store\<close> (\<open>models.go\<close>, \<open>types.go\<close>, \<open>db.go\<close>): rows, the calls of the driver, and the locales \<open>table_invariant\<close> and \<open>keyed_table\<close> the stores interpret.
  \<^item> \<open>TaskStore\<close>, \<open>Locks\<close>, \<open>SessionStore\<close>, \<open>Accounts\<close>, \<open>Clarifications\<close>, \<open>Schedules\<close>: the statements of \<open>delegated_tasks.go\<close>, \<open>task_locks.go\<close> with
    \<open>bot/delegation/locks.go\<close>, \<open>sessions.go\<close>, of users, keys, GitHub connections, workspaces and agents, of \<open>clarifications.go\<close> with \<open>clarification_bus.go\<close>, and of \<open>schedules.go\<close>. Shown: claims are
    exclusive and take the best task, locks are never stolen, the first final result of a session wins, chains are created whole or not at all, keys and
    references stay consistent, questions are limited and answers resume the session, an answer is delivered exactly once.
  \<^item> \<open>Validator\<close>, \<open>Delegation\<close> (\<open>bot/delegation/validator.go\<close>, \<open>delegation.go\<close>): when a delegation is allowed, that the search for circular dependencies
    ends and is exact, and what delegating, finishing and cancelling do to the tables. The recursive queries of the store are unrolled to their own bound of 20
    levels; the fuel of the cycle search is the number of tasks, shown to be enough. \<open>BuildDelegationContext\<close> is a parameter.
  \<^item> \<open>Hub\<close>, \<open>Relay\<close> (\<open>stream-relay\<close>): connections are counted exactly, every message is delivered or counted as dropped, queued output is stored in batches and replayed in
    order. The rate limiter, the decoding of request bodies and the syntax of IP addresses are parameters.
  \<^item> \<open>Crypto\<close> (\<open>go-shared/crypto.go\<close>, \<open>webhook-router/crypto.go\<close>): secrets survive encryption, the key cache is bounded and does not show. Galois/counter mode is modelled in full;
    the AES block function, SHA-256 and scrypt are parameters.
  \<^item> \<open>Regexp\<close>, \<open>Sanitize\<close> (\<open>bot/orchestrator/sanitize.go\<close>, \<open>question.go\<close>, \<open>timer.go\<close>, \<open>registry.go\<close>): the regular expressions of Go's \<open>regexp\<close> with its leftmost-first choice,
    the cleaning of output and tasks, the recognition of questions, the bounded buffers, which keep the newest items, and the pausable time limit of a container.
  \<^item> \<open>RelayClient\<close>, \<open>Orchestrator\<close> (\<open>bot/orchestrator/relay_client.go\<close>, \<open>orchestrator.go\<close>): one run of a container with its reader, tickers, time limit and relay
    as a schedule of events. Every run ends with its session decided, questions are limited and stop the clock, and the check of repository names is exact. Docker, the chat platform and the other users of the
    database are parameters; a schedule that ends before the run returns gives no result, and the theorems speak of the runs that return.
  \<^item> \<open>Worker\<close> (\<open>bot/delegation/worker.go\<close> and the execute function of \<open>bot/main.go\<close>): the poll of the task queue, the cache of decrypted keys and the run of one delegated task on top of
    the orchestrator. A poll settles what it claims, the cache stays bounded and right, and a task whose text is changed on its way to the container is always reported as failed. The eviction loop is a partial function; it is shown to end.
  \<^item> \<open>Cron\<close>, \<open>Scheduler\<close> (\<open>go-shared/scheduling.go\<close>, \<open>bot/scheduler\<close>): next runs, claims, at most five runs at a time, and how runs are counted. The cron library and the time zone
    database are parameters, and so is the work a schedule starts.
  \<^item> \<open>Pipelines\<close> (\<open>go-shared/issue_pipelines.go\<close>, \<open>bot/issue_pipeline/pipeline.go\<close>, \<open>executor.go\<close>, \<open>github.go\<close>): the table of issue pipelines, the service that polls it, and its calls of
    GitHub. A pipeline is claimed once, at most three run, and no pipeline ever asks for a pull request, because it looks at a session that nobody finishes. What GitHub answers may depend on
    every request so far.
  \<^item> \<open>Notifier\<close> (\<open>bot/issue_pipeline/notifier.go\<close>, \<open>bot/scheduler/notifier.go\<close>): messages about finished work and their caches. Escaped texts mention nobody on Discord, and a cache returns what was
    stored last; the list of recently used keys is modelled with the identities of its elements.
  \<^item> \<open>Webhooks\<close> (\<open>webhook-router/main.go\<close>, \<open>store.go\<close>): rate limits, signatures, the context of a repository and the four kinds of events. Only signed requests have an effect, the limits hold in every
    minute, a repository connected by one user gets a context of that user, and no issue is ever queued, because its labels are no array literal. HMAC is modelled over the SHA-256 parameter.
  \<^item> \<open>Routing\<close>, \<open>Conversation\<close> (\<open>bot/conversation\<close>, \<open>go-shared/user_config.go\<close>, \<open>conversation_history.go\<close>, \<open>usage.go\<close>): the intent of a chat message, the agent it is for, the stores of
    messages and configurations, the rate limit and the reply. Similarity is the Dice coefficient, a conversation returns its recent messages, the limit holds in every window, and no question is
    answered from the chat, because no thread is ever registered.
  \<^item> \<open>Diff\<close>, \<open>Reviews\<close> (\<open>pr-review\<close>): the parser of unified diffs, the tables of reviews and feedback, one review from the request to the comments on GitHub, and the handlers. The parser
    recovers what a printed diff says, a review posts exactly what it found, and at most ten reviews run. GitHub, the memory service, the model with its system prompt and JSON are parameters.

  \<^bold>\<open>Not modelled.\<close>
  The bindings to Discord, Slack, speech services, Docker, GitHub and the language models, process start-up and configuration, which are I/O around third-party code; the
  services for diagnosis and test generation; git and test runs of the edit engine; the tables of session outputs and engine executions, which are only written and listed. The foreign keys to \<open>users\<close> are taken to hold, since every user id comes from a row of that
  table. A goroutine that blocks for ever and memory exhaustion are outside the model.
\<close>

end
